(* ===== verification/Prelude.thy ===== *)
theory Prelude
  imports Main "HOL-Library.List_Lexorder" "HOL-Library.Char_ord"
begin

text \<open>
  Shared vocabulary of the development: Rust's \<open>Result\<close> and \<open>Ordering\<close>, UTF-8 strings as byte
  lists, the decimal conversions of the standard library (\<open>to_string\<close>, \<open>parse\<close>), checked machine
  arithmetic, and \<open>BTreeMap\<close> as a strictly sorted association list with the contract the clients
  rely on (locale \<open>ordered_map\<close>).

  A Rust \<open>String\<close> is modelled by its UTF-8 bytes (a HOL \<open>string\<close>, one \<open>char\<close> per byte), so byte
  offsets are list positions, \<open>as_bytes\<close> is the identity and Rust's string order is the
  lexicographic order of \<open>HOL-Library.List_Lexorder\<close>. Operations on Unicode scalar values read one
  leading byte and the continuation bytes that follow it.
\<close>

named_theorems rust_defs
  \<open>definitional facts of the standard-library operations\<close>

section \<open>Result\<close>

datatype ('a, 'e) result = Ok 'a | Err 'e

text \<open>The \<open>?\<close> operator: continue with the value, or return the error.\<close>

fun res_bind :: "('a, 'e) result \<Rightarrow> ('a \<Rightarrow> ('b, 'e) result) \<Rightarrow> ('b, 'e) result" where
  "res_bind (Ok x) f = f x"
| "res_bind (Err e) f = Err e"

fun res_map :: "('a \<Rightarrow> 'b) \<Rightarrow> ('a, 'e) result \<Rightarrow> ('b, 'e) result" where
  "res_map f (Ok x) = Ok (f x)"
| "res_map f (Err e) = Err e"

fun map_err :: "('e \<Rightarrow> 'f) \<Rightarrow> ('a, 'e) result \<Rightarrow> ('a, 'f) result" where
  "map_err f (Ok x) = Ok x"
| "map_err f (Err e) = Err (f e)"

fun ok_or :: "'e \<Rightarrow> 'a option \<Rightarrow> ('a, 'e) result" where
  "ok_or e None = Err e"
| "ok_or e (Some x) = Ok x"

text \<open>\<open>iter().map(f).collect::<Result<Vec<_>, _>>()\<close> and its \<open>Option\<close> counterpart.\<close>

fun collect_res :: "('a \<Rightarrow> ('b, 'e) result) \<Rightarrow> 'a list \<Rightarrow> ('b list, 'e) result" where
  "collect_res f [] = Ok []"
| "collect_res f (x # xs) = res_bind (f x) (\<lambda>y. res_map (Cons y) (collect_res f xs))"

fun collect_opt :: "('a \<Rightarrow> 'b option) \<Rightarrow> 'a list \<Rightarrow> 'b list option" where
  "collect_opt f [] = Some []"
| "collect_opt f (x # xs) = Option.bind (f x) (\<lambda>y. map_option (Cons y) (collect_opt f xs))"

section \<open>Ordering\<close>

datatype ordering = Less | Equal | Greater

definition cmp :: "'a::linorder \<Rightarrow> 'a \<Rightarrow> ordering" where
  [rust_defs]: "cmp a b = (if a < b then Less else if a = b then Equal else Greater)"

fun ord_reverse :: "ordering \<Rightarrow> ordering" where
  "ord_reverse Less = Greater"
| "ord_reverse Equal = Equal"
| "ord_reverse Greater = Less"

definition is_lt :: "ordering \<Rightarrow> bool" where [rust_defs]: "is_lt c \<longleftrightarrow> c = Less"
definition is_le :: "ordering \<Rightarrow> bool" where [rust_defs]: "is_le c \<longleftrightarrow> c \<noteq> Greater"
definition is_gt :: "ordering \<Rightarrow> bool" where [rust_defs]: "is_gt c \<longleftrightarrow> c = Greater"
definition is_ge :: "ordering \<Rightarrow> bool" where [rust_defs]: "is_ge c \<longleftrightarrow> c \<noteq> Less"

section \<open>Bytes, characters and strings\<close>

abbreviation byte_of :: "char \<Rightarrow> nat" where
  "byte_of c \<equiv> of_char c"

definition is_ascii_digit :: "char \<Rightarrow> bool" where
  "is_ascii_digit c \<longleftrightarrow> 48 \<le> byte_of c \<and> byte_of c \<le> 57"

definition is_ascii_alphabetic :: "char \<Rightarrow> bool" where
  "is_ascii_alphabetic c \<longleftrightarrow>
     (65 \<le> byte_of c \<and> byte_of c \<le> 90) \<or> (97 \<le> byte_of c \<and> byte_of c \<le> 122)"

definition is_ascii_hexdigit :: "char \<Rightarrow> bool" where
  "is_ascii_hexdigit c \<longleftrightarrow>
     is_ascii_digit c \<or> (65 \<le> byte_of c \<and> byte_of c \<le> 70) \<or> (97 \<le> byte_of c \<and> byte_of c \<le> 102)"

definition to_ascii_lowercase :: "char \<Rightarrow> char" where
  "to_ascii_lowercase c =
     (if 65 \<le> byte_of c \<and> byte_of c \<le> 90 then char_of (byte_of c + 32) else c)"

definition is_ascii :: "string \<Rightarrow> bool" where
  "is_ascii s \<longleftrightarrow> (\<forall>c \<in> set s. byte_of c < 128)"

text \<open>UTF-8 continuation bytes; a string's scalar values are its other bytes.\<close>

definition is_continuation :: "char \<Rightarrow> bool" where
  "is_continuation c \<longleftrightarrow> 128 \<le> byte_of c \<and> byte_of c < 192"

fun first_char :: "string \<Rightarrow> string option" where
  "first_char [] = None"
| "first_char (c # cs) = Some (c # takeWhile is_continuation cs)"

definition chars_count :: "string \<Rightarrow> nat" where
  "chars_count s = length (filter (\<lambda>c. \<not> is_continuation c) s)"

text \<open>\<open>str::chars\<close>, the scalar values of a string: a leading byte with the continuation bytes after it.\<close>

function chars :: "string \<Rightarrow> string list" where
  "chars [] = []"
| "chars (c # cs) = (c # takeWhile is_continuation cs) # chars (dropWhile is_continuation cs)"
  by pat_completeness auto
termination
  by (relation "measure length") (auto simp: le_imp_less_Suc length_dropWhile_le)

lemma concat_chars [simp]: "concat (chars s) = s"
  by (induction s rule: chars.induct) auto

lemma chars_eq_Nil [simp]: "chars s = [] \<longleftrightarrow> s = []"
  by (cases s) auto

text \<open>\<open>char::is_whitespace\<close>: the Unicode \<open>White_Space\<close> property on one UTF-8 encoded character.\<close>

definition is_whitespace :: "string \<Rightarrow> bool" where
  "is_whitespace ch \<longleftrightarrow>
     (let bs = map byte_of ch :: nat list in
      case bs of
        [b] \<Rightarrow> (9 \<le> b \<and> b \<le> 13) \<or> b = 32
      | [b1, b2] \<Rightarrow> b1 = 194 \<and> (b2 = 133 \<or> b2 = 160)
      | [b1, b2, b3] \<Rightarrow>
          (b1 = 225 \<and> b2 = 154 \<and> b3 = 128)
        \<or> (b1 = 226 \<and> b2 = 128 \<and> ((128 \<le> b3 \<and> b3 \<le> 138) \<or> b3 = 168 \<or> b3 = 169 \<or> b3 = 175))
        \<or> (b1 = 226 \<and> b2 = 129 \<and> b3 = 159)
        \<or> (b1 = 227 \<and> b2 = 128 \<and> b3 = 128)
      | _ \<Rightarrow> False)"

text \<open>A string that \<open>trim\<close> leaves empty.\<close>

definition is_space_only :: "string \<Rightarrow> bool" where
  "is_space_only s \<longleftrightarrow> list_all is_whitespace (chars s)"

section \<open>Decimal conversions\<close>

definition digit_char :: "nat \<Rightarrow> char" where
  "digit_char d = char_of (48 + d)"

definition digit_val :: "char \<Rightarrow> nat" where
  "digit_val c = byte_of c - 48"

fun nat_to_string :: "nat \<Rightarrow> string" where
  "nat_to_string n =
     (if n < 10 then [digit_char n] else nat_to_string (n div 10) @ [digit_char (n mod 10)])"

declare nat_to_string.simps [simp del]

definition int_to_string :: "int \<Rightarrow> string" where
  "int_to_string i = (if i < 0 then ''-'' @ nat_to_string (nat (- i)) else nat_to_string (nat i))"

definition digits_val :: "string \<Rightarrow> nat" where
  "digits_val s = foldl (\<lambda>acc c. acc * 10 + digit_val c) 0 s"

text \<open>\<open>str::parse\<close> at an integer type with bounds \<open>lo\<close> and \<open>hi\<close>: an optional sign, then at least
  one digit, and a value in range.\<close>

definition in_range :: "int \<Rightarrow> int \<Rightarrow> int \<Rightarrow> int option" where
  "in_range lo hi v = (if lo \<le> v \<and> v \<le> hi then Some v else None)"

definition parse_digits :: "string \<Rightarrow> nat option" where
  "parse_digits s = (if s \<noteq> [] \<and> list_all is_ascii_digit s then Some (digits_val s) else None)"

fun parse_signed :: "int \<Rightarrow> int \<Rightarrow> string \<Rightarrow> int option" where
  "parse_signed lo hi [] = None"
| "parse_signed lo hi (c # cs) =
     (if c = CHR ''-'' then Option.bind (parse_digits cs) (\<lambda>v. in_range lo hi (- int v))
      else if c = CHR ''+'' then Option.bind (parse_digits cs) (\<lambda>v. in_range lo hi (int v))
      else Option.bind (parse_digits (c # cs)) (\<lambda>v. in_range lo hi (int v)))"

fun parse_unsigned :: "int \<Rightarrow> string \<Rightarrow> nat option" where
  "parse_unsigned hi [] = None"
| "parse_unsigned hi (c # cs) =
     Option.bind (parse_digits (if c = CHR ''+'' then cs else c # cs))
       (\<lambda>v. if int v \<le> hi then Some v else None)"

section \<open>Machine integers\<close>

abbreviation i32_min :: int where "i32_min \<equiv> - (2 ^ 31)"
abbreviation i32_max :: int where "i32_max \<equiv> 2 ^ 31 - 1"
abbreviation i64_min :: int where "i64_min \<equiv> - (2 ^ 63)"
abbreviation i64_max :: int where "i64_max \<equiv> 2 ^ 63 - 1"
abbreviation i128_min :: int where "i128_min \<equiv> - (2 ^ 127)"
abbreviation i128_max :: int where "i128_max \<equiv> 2 ^ 127 - 1"
abbreviation u32_max :: nat where "u32_max \<equiv> 2 ^ 32 - 1"
abbreviation u64_max :: nat where "u64_max \<equiv> 2 ^ 64 - 1"

definition i32 :: "int \<Rightarrow> int option" where [rust_defs]: "i32 v = in_range i32_min i32_max v"
definition i64 :: "int \<Rightarrow> int option" where [rust_defs]: "i64 v = in_range i64_min i64_max v"
definition i128 :: "int \<Rightarrow> int option" where [rust_defs]: "i128 v = in_range i128_min i128_max v"
definition u32 :: "nat \<Rightarrow> nat option" where
  [rust_defs]: "u32 n = (if n \<le> u32_max then Some n else None)"

text \<open>Rust's \<open>/\<close> rounds towards zero.\<close>

definition trunc_div :: "int \<Rightarrow> int \<Rightarrow> int" where
  "trunc_div a b = sgn a * sgn b * (\<bar>a\<bar> div \<bar>b\<bar>)"

section \<open>BTreeMap\<close>

type_synonym 'v btree_map = "(string \<times> 'v) list"

abbreviation bt_get :: "('k \<times> 'v) list \<Rightarrow> 'k \<Rightarrow> 'v option" where
  "bt_get m k \<equiv> map_of m k"

abbreviation bt_keys :: "('k \<times> 'v) list \<Rightarrow> 'k list" where
  "bt_keys m \<equiv> map fst m"

definition bt_contains :: "('k \<times> 'v) list \<Rightarrow> 'k \<Rightarrow> bool" where
  "bt_contains m k \<longleftrightarrow> map_of m k \<noteq> None"

fun bt_insert :: "'k::linorder \<Rightarrow> 'v \<Rightarrow> ('k \<times> 'v) list \<Rightarrow> ('k \<times> 'v) list" where
  "bt_insert k v [] = [(k, v)]"
| "bt_insert k v ((k', v') # m) =
     (if k < k' then (k, v) # (k', v') # m
      else if k = k' then (k, v) # m
      else (k', v') # bt_insert k v m)"

definition bt_wf :: "('k::linorder \<times> 'v) list \<Rightarrow> bool" where
  "bt_wf m \<longleftrightarrow> sorted_wrt (<) (map fst m)"

text \<open>\<open>collect::<BTreeMap<_, _>>()\<close>: insert the entries one after another.\<close>

definition bt_collect :: "('k::linorder \<times> 'v) list \<Rightarrow> ('k \<times> 'v) list" where
  "bt_collect es = foldl (\<lambda>m (k, v). bt_insert k v m) [] es"

lemma alist_from_map_of:
  "distinct (map fst xs) \<Longrightarrow> xs = map (\<lambda>k. (k, the (map_of xs k))) (map fst xs)"
  by (rule sym) (auto intro!: map_idI)

text \<open>
  The contract of an ordered map: lookup after insert, and iteration in strictly increasing key
  order. What follows from it once: an ordered map is determined by its lookup function, so
  everything computed from its iteration is independent of the order of insertion.
\<close>

locale ordered_map =
  fixes empty :: "'m"
    and insert :: "'k::linorder \<Rightarrow> 'v \<Rightarrow> 'm \<Rightarrow> 'm"
    and lookup :: "'m \<Rightarrow> 'k \<Rightarrow> 'v option"
    and entries :: "'m \<Rightarrow> ('k \<times> 'v) list"
    and wf :: "'m \<Rightarrow> bool"
  assumes lookup_empty: "lookup empty k = None"
    and lookup_insert: "wf m \<Longrightarrow> lookup (insert k v m) k' = (if k' = k then Some v else lookup m k')"
    and lookup_entries: "wf m \<Longrightarrow> lookup m k = map_of (entries m) k"
    and entries_sorted: "wf m \<Longrightarrow> sorted_wrt (<) (map fst (entries m))"
    and wf_empty: "wf empty"
    and wf_insert: "wf m \<Longrightarrow> wf (insert k v m)"
begin

lemma entries_distinct: "wf m \<Longrightarrow> distinct (map fst (entries m))"
  using entries_sorted strict_sorted_iff by blast

lemma entries_determined:
  assumes "wf m" "wf m'" and same: "\<And>k. lookup m k = lookup m' k"
  shows "entries m = entries m'"
proof -
  have dom: "set (map fst (entries m)) = set (map fst (entries m'))"
  proof -
    have "fst ` set (entries m) = dom (map_of (entries m))" by (simp add: dom_map_of_conv_image_fst)
    also have "\<dots> = dom (map_of (entries m'))"
      using assms lookup_entries by (simp add: fun_eq_iff dom_def)
    also have "\<dots> = fst ` set (entries m')" by (simp add: dom_map_of_conv_image_fst)
    finally show ?thesis by simp
  qed
  have keys: "map fst (entries m) = map fst (entries m')"
    using strict_sorted_equal[OF entries_sorted entries_sorted] assms(1,2) dom by metis
  have "map_of (entries m) = map_of (entries m')"
    using assms lookup_entries by (simp add: fun_eq_iff)
  then show ?thesis
    using alist_from_map_of entries_distinct assms(1,2) keys by metis
qed

lemma wf_fold: "wf m \<Longrightarrow> wf (foldl (\<lambda>m (k, v). insert k v m) m es)"
  by (induction es arbitrary: m) (auto simp: wf_insert split: prod.splits)

lemma lookup_fold:
  "wf m \<Longrightarrow> distinct (map fst es) \<Longrightarrow>
   lookup (foldl (\<lambda>m (k, v). insert k v m) m es) k =
     (case map_of es k of None \<Rightarrow> lookup m k | Some v \<Rightarrow> Some v)"
  by (induction es arbitrary: m)
     (auto simp: wf_insert lookup_insert split: option.splits dest!: map_of_SomeD intro: rev_image_eqI)

text \<open>Insertion order does not matter: two lists of distinct entries with the same content build
  maps with the same iteration.\<close>

lemma insertion_order_irrelevant:
  assumes "distinct (map fst es)" "distinct (map fst es')" "set es = set es'"
  shows "entries (foldl (\<lambda>m (k, v). insert k v m) empty es) =
         entries (foldl (\<lambda>m (k, v). insert k v m) empty es')"
proof (rule entries_determined)
  fix k
  have "map_of es = map_of es'" using assms by (metis map_of_inject_set)
  then show "lookup (foldl (\<lambda>m (k, v). insert k v m) empty es) k =
        lookup (foldl (\<lambda>m (k, v). insert k v m) empty es') k"
    using assms(1,2) by (simp add: lookup_fold wf_empty)
qed (simp_all add: wf_fold wf_empty)

end

section \<open>Lemmas on results and options\<close>

lemma res_bind_cong [fundef_cong]:
  "r = r' \<Longrightarrow> (\<And>x. r' = Ok x \<Longrightarrow> f x = g x) \<Longrightarrow> res_bind r f = res_bind r' g"
  by (cases r') auto

lemma collect_res_cong [fundef_cong]:
  "xs = ys \<Longrightarrow> (\<And>x. x \<in> set ys \<Longrightarrow> f x = g x) \<Longrightarrow> collect_res f xs = collect_res g ys"
  by (induction xs arbitrary: ys) (auto intro!: res_bind_cong)

lemma collect_opt_cong [fundef_cong]:
  "xs = ys \<Longrightarrow> (\<And>x. x \<in> set ys \<Longrightarrow> f x = g x) \<Longrightarrow> collect_opt f xs = collect_opt g ys"
  by (induction xs arbitrary: ys) auto

lemma res_bind_Ok [simp]: "res_bind r f = Ok y \<longleftrightarrow> (\<exists>x. r = Ok x \<and> f x = Ok y)"
  by (cases r) auto

lemma res_bind_Err: "res_bind r f = Err e \<longleftrightarrow> r = Err e \<or> (\<exists>x. r = Ok x \<and> f x = Err e)"
  by (cases r) auto

lemma res_map_Ok [simp]: "res_map f r = Ok y \<longleftrightarrow> (\<exists>x. r = Ok x \<and> y = f x)"
  by (cases r) auto

lemma res_map_Err [simp]: "res_map f r = Err e \<longleftrightarrow> r = Err e"
  by (cases r) auto

lemma map_err_Ok [simp]: "map_err f r = Ok y \<longleftrightarrow> r = Ok y"
  by (cases r) auto

lemma map_err_Err [simp]: "map_err f r = Err e \<longleftrightarrow> (\<exists>e'. r = Err e' \<and> e = f e')"
  by (cases r) auto

lemma ok_or_Ok [simp]: "ok_or e x = Ok y \<longleftrightarrow> x = Some y"
  by (cases x) auto

lemma ok_or_Err [simp]: "ok_or e x = Err e' \<longleftrightarrow> x = None \<and> e' = e"
  by (cases x) auto

lemma collect_res_Ok:
  "collect_res f xs = Ok ys \<longleftrightarrow> list_all2 (\<lambda>x y. f x = Ok y) xs ys"
  by (induction xs arbitrary: ys) (auto simp: list_all2_Cons1)

lemma collect_res_Err:
  "collect_res f xs = Err e \<Longrightarrow> \<exists>x \<in> set xs. f x = Err e"
  by (induction xs) (auto simp: res_bind_Err)

lemma collect_opt_Some:
  "collect_opt f xs = Some ys \<longleftrightarrow> list_all2 (\<lambda>x y. f x = Some y) xs ys"
  by (induction xs arbitrary: ys) (auto simp: list_all2_Cons1 bind_eq_Some_conv)

lemma collect_opt_ex: "(\<And>x. x \<in> set xs \<Longrightarrow> \<exists>y. f x = Some y) \<Longrightarrow> \<exists>ys. collect_opt f xs = Some ys"
  by (induction xs) fastforce+

section \<open>Lemmas on ordered maps\<close>

lemma bt_insert_keys: "set (map fst (bt_insert k v m)) = insert k (set (map fst m))"
  by (induction k v m rule: bt_insert.induct) auto

lemma bt_wf_Nil [simp]: "bt_wf []"
  by (simp add: bt_wf_def)

lemma bt_wf_Cons: "bt_wf ((k, v) # m) \<longleftrightarrow> (\<forall>k' \<in> set (map fst m). k < k') \<and> bt_wf m"
  by (auto simp: bt_wf_def)

lemma bt_wf_insert [simp]: "bt_wf m \<Longrightarrow> bt_wf (bt_insert k v m)"
proof (induction k v m rule: bt_insert.induct)
  case (2 k v k' v' m)
  from "2.prems" have m: "bt_wf m" and k': "\<forall>x \<in> set (map fst m). k' < x"
    by (auto simp: bt_wf_Cons)
  consider "k < k'" | "k = k'" | "k' < k" by fastforce
  then show ?case
  proof cases
    case 1
    then show ?thesis using m k' by (fastforce simp: bt_wf_Cons)
  next
    case 2
    then show ?thesis using m k' by (simp add: bt_wf_Cons)
  next
    case 3
    then have "bt_wf (bt_insert k v m)" using "2.IH" m by auto
    then show ?thesis using 3 k' bt_insert_keys[of k v m] by (auto simp: bt_wf_Cons)
  qed
qed (simp add: bt_wf_def)

lemma bt_get_insert:
  "map_of (bt_insert k v m) k' = (if k' = k then Some v else map_of m k')"
  by (induction k v m rule: bt_insert.induct) auto

lemma bt_wf_distinct: "bt_wf m \<Longrightarrow> distinct (map fst m)"
  using strict_sorted_iff bt_wf_def by blast

interpretation bt: ordered_map
  "[] :: ('k::linorder \<times> 'v) list" bt_insert map_of "\<lambda>m. m" bt_wf
  by unfold_locales (auto simp: bt_get_insert, simp add: bt_wf_def)

lemma bt_wf_collect [simp]: "bt_wf (bt_collect es)"
  unfolding bt_collect_def by (rule bt.wf_fold) simp

lemma bt_get_collect: "distinct (map fst es) \<Longrightarrow> map_of (bt_collect es) = map_of es"
  unfolding bt_collect_def
  by (auto simp: fun_eq_iff bt.lookup_fold split: option.splits)

lemma bt_sort_id: "bt_wf m \<Longrightarrow> sort_key fst m = m"
  by (simp add: bt_wf_def sort_key_id_if_sorted strict_sorted_imp_sorted)

section \<open>Lemmas on decimal conversions\<close>

lemma byte_of_digit_char [simp]: "d < 10 \<Longrightarrow> byte_of (digit_char d) = 48 + d"
  by (simp add: digit_char_def)

lemma digit_val_digit_char [simp]: "d < 10 \<Longrightarrow> digit_val (digit_char d) = d"
  by (simp add: digit_val_def)

lemma is_ascii_digit_digit_char [simp]: "d < 10 \<Longrightarrow> is_ascii_digit (digit_char d)"
  by (simp add: is_ascii_digit_def)

lemma digit_val_less: "is_ascii_digit c \<Longrightarrow> digit_val c < 10"
  unfolding is_ascii_digit_def digit_val_def by linarith

lemma digit_char_digit_val [simp]: "is_ascii_digit c \<Longrightarrow> digit_char (digit_val c) = c"
  by (simp add: is_ascii_digit_def digit_val_def digit_char_def)

lemma digits_val_Nil [simp]: "digits_val [] = 0"
  by (simp add: digits_val_def)

lemma digits_val_snoc [simp]: "digits_val (s @ [c]) = digits_val s * 10 + digit_val c"
  by (simp add: digits_val_def)

lemma nat_to_string_nonempty [simp]: "nat_to_string n \<noteq> []"
  by (subst nat_to_string.simps) simp

lemma nat_to_string_digits: "list_all is_ascii_digit (nat_to_string n)"
proof (induction n rule: nat_to_string.induct)
  case (1 n)
  then show ?case by (subst nat_to_string.simps) simp
qed

lemma digits_val_nat_to_string [simp]: "digits_val (nat_to_string n) = n"
proof (induction n rule: nat_to_string.induct)
  case (1 n)
  show ?case
  proof (cases "n < 10")
    case True
    then show ?thesis by (simp add: nat_to_string.simps [of n] digits_val_def)
  next
    case False
    with 1 show ?thesis by (simp add: nat_to_string.simps [of n])
  qed
qed

lemma nat_to_string_inject [simp]: "nat_to_string m = nat_to_string n \<longleftrightarrow> m = n"
  by (metis digits_val_nat_to_string)

lemma parse_digits_nat_to_string [simp]: "parse_digits (nat_to_string n) = Some n"
  by (simp add: parse_digits_def nat_to_string_digits)

lemma parse_digits_Some:
  "parse_digits s = Some n \<longleftrightarrow> s \<noteq> [] \<and> list_all is_ascii_digit s \<and> n = digits_val s"
  by (auto simp: parse_digits_def)

lemma sign_not_digit: "\<not> is_ascii_digit CHR ''-''" "\<not> is_ascii_digit CHR ''+''" "\<not> is_ascii_digit CHR ''.''"
  by (simp_all add: is_ascii_digit_def)

lemma nat_to_string_hd: "is_ascii_digit (hd (nat_to_string n))"
  using nat_to_string_digits[of n] nat_to_string_nonempty[of n] by (cases "nat_to_string n") auto

lemma parse_signed_nat_to_string:
  "parse_signed lo hi (nat_to_string n) = in_range lo hi (int n)"
proof -
  obtain c cs where s: "nat_to_string n = c # cs" by (cases "nat_to_string n") auto
  then have "is_ascii_digit c" using nat_to_string_hd[of n] by simp
  then have "c \<noteq> CHR ''-''" "c \<noteq> CHR ''+''" using sign_not_digit by auto
  then show ?thesis using s parse_digits_nat_to_string[of n] by simp
qed

lemma in_range_Some [simp]: "in_range lo hi v = Some w \<longleftrightarrow> lo \<le> v \<and> v \<le> hi \<and> w = v"
  by (auto simp: in_range_def)

text \<open>Printing an integer and parsing it back at the same type is the identity.\<close>

lemma parse_signed_int_to_string:
  "lo \<le> i \<Longrightarrow> i \<le> hi \<Longrightarrow> parse_signed lo hi (int_to_string i) = Some i"
  by (auto simp: int_to_string_def parse_signed_nat_to_string in_range_def)

lemma int_to_string_inject [simp]: "int_to_string i = int_to_string j \<longleftrightarrow> i = j"
  by (metis linorder_linear parse_signed_int_to_string option.inject)

lemma parse_signed_bounds: "parse_signed lo hi s = Some v \<Longrightarrow> lo \<le> v \<and> v \<le> hi"
  by (cases s) (auto simp: bind_eq_Some_conv split: if_splits)

text \<open>Code equation that keeps the bound out of unary arithmetic.\<close>

lemma u32_code [code]: "u32 n = (if int n \<le> 4294967295 then Some n else None)"
proof -
  have "n \<le> u32_max \<longleftrightarrow> int n \<le> 4294967295" by simp
  then show ?thesis by (simp only: u32_def)
qed

section \<open>Splitting strings\<close>

text \<open>\<open>str::split_once\<close> at a character.\<close>

definition split_once :: "char \<Rightarrow> string \<Rightarrow> (string \<times> string) option" where
  "split_once p s =
     (if p \<in> set s then Some (takeWhile (\<lambda>c. c \<noteq> p) s, tl (dropWhile (\<lambda>c. c \<noteq> p) s)) else None)"

lemma find_SomeD: "find P xs = Some x \<Longrightarrow> x \<in> set xs \<and> P x"
  by (auto simp: find_Some_iff)

end
