(* ===== verification/Rules_Syntax.thy ===== *)
theory Rules_Syntax
  imports Prelude
begin

text \<open>
  The abstract syntax of the rule profile (\<open>crates/rules/src/lib.rs\<close>): spans, expressions, literals,
  the closed sets of functions and operators, the parse diagnostic, and the profile's limits.
  Constructor names carry a prefix or suffix where the source's name clashes with HOL's.
\<close>

definition PROFILE_VERSION :: nat where "PROFILE_VERSION = 1"
definition MAX_EXPRESSION_BYTES :: nat where "MAX_EXPRESSION_BYTES = 4096"
definition MAX_AST_DEPTH :: nat where "MAX_AST_DEPTH = 64"
definition MAX_LIST_ITEMS :: nat where "MAX_LIST_ITEMS = 256"

record span =
  sp_start :: nat
  sp_end :: nat

abbreviation Span :: "nat \<Rightarrow> nat \<Rightarrow> span" where
  "Span a b \<equiv> \<lparr>sp_start = a, sp_end = b\<rparr>"

datatype literal =
    LNull
  | LBool bool
  | LInt string
  | LDecimal string
  | LString string

datatype rule_function = Size | IsNull | StartsWith | EndsWith

definition function_parse :: "string \<Rightarrow> rule_function option" where
  "function_parse name =
     (if name = ''size'' then Some Size
      else if name = ''is_null'' then Some IsNull
      else if name = ''startsWith'' then Some StartsWith
      else if name = ''endsWith'' then Some EndsWith
      else None)"

datatype unary_op = NotOp | NegateOp

datatype binary_op =
    OrOp
  | AndOp
  | EqualOp
  | NotEqualOp
  | LessThanOp
  | LessThanOrEqualOp
  | GreaterThanOp
  | GreaterThanOrEqualOp
  | AddOp
  | SubtractOp
  | MultiplyOp
  | DivideOp

datatype expr = Expr (expr_span: span) (expr_kind: expr_kind)
  and expr_kind =
    Literal literal
  | Name string
  | EnumSymbol string string
  | ListOf "expr list"
  | Member expr string
  | Index expr nat
  | Call rule_function "expr list"
  | Unary unary_op expr
  | Binary binary_op expr expr
  | Conditional expr expr expr

record parse_error =
  pe_rule_name :: string
  pe_offset :: nat
  pe_expectation :: string

definition ParseError :: "string \<Rightarrow> nat \<Rightarrow> string \<Rightarrow> parse_error" where
  "ParseError rule_name offset expectation =
     \<lparr>pe_rule_name = rule_name, pe_offset = offset, pe_expectation = expectation\<rparr>"

definition parse_error_to_string :: "parse_error \<Rightarrow> string" where
  "parse_error_to_string e =
     ''rule `'' @ pe_rule_name e @ ''` at byte '' @ nat_to_string (pe_offset e) @
     '': expected '' @ pe_expectation e"

section \<open>Structure of an expression\<close>

text \<open>The direct subexpressions, in source order, and the number of nodes on the longest path.\<close>

fun children :: "expr \<Rightarrow> expr list" where
  "children (Expr s (Literal l)) = []"
| "children (Expr s (Name n)) = []"
| "children (Expr s (EnumSymbol n y)) = []"
| "children (Expr s (ListOf items)) = items"
| "children (Expr s (Member t f)) = [t]"
| "children (Expr s (Index t i)) = [t]"
| "children (Expr s (Call f args)) = args"
| "children (Expr s (Unary op e)) = [e]"
| "children (Expr s (Binary op l r)) = [l, r]"
| "children (Expr s (Conditional c t f)) = [c, t, f]"

lemma size_children: "e' \<in> set (children e) \<Longrightarrow> size e' < size e"
  by (cases e rule: children.cases)
     (auto simp: less_Suc_eq_le intro!: le_SucI size_list_estimation'[of e'])

function expr_depth :: "expr \<Rightarrow> nat" where
  "expr_depth e = Suc (fold max (map expr_depth (children e)) 0)"
  by pat_completeness auto
termination
  by (relation "measure size") (auto simp: size_children)

declare expr_depth.simps [simp del]

text \<open>
  A located expression: its span lies within the given bounds, the spans of its children lie within
  its own, and no list literal exceeds the profile's limit.
\<close>

function located :: "nat \<Rightarrow> nat \<Rightarrow> expr \<Rightarrow> bool" where
  "located lo hi e \<longleftrightarrow>
     lo \<le> sp_start (expr_span e) \<and> sp_start (expr_span e) \<le> sp_end (expr_span e) \<and>
     sp_end (expr_span e) \<le> hi \<and>
     (\<forall>items. expr_kind e = ListOf items \<longrightarrow> length items \<le> MAX_LIST_ITEMS) \<and>
     (\<forall>e' \<in> set (children e). located (sp_start (expr_span e)) (sp_end (expr_span e)) e')"
  by pat_completeness auto
termination
  by (relation "measure (\<lambda>(lo, hi, e). size e)") (auto simp: size_children)

declare located.simps [simp del]

lemma located_mono: "located lo hi e \<Longrightarrow> lo' \<le> lo \<Longrightarrow> hi \<le> hi' \<Longrightarrow> located lo' hi' e"
  unfolding located.simps[of lo' hi' e] located.simps[of lo hi e] by auto

text \<open>Induction over expressions through their children.\<close>

lemma expr_children_induct:
  assumes "\<And>e. (\<And>e'. e' \<in> set (children e) \<Longrightarrow> P e') \<Longrightarrow> P e"
  shows "P e"
  by (induction e rule: measure_induct_rule[where f = size]) (use assms size_children in blast)

end
