(* ===== verification/Json.thy ===== *)
theory Json
  imports Prelude
begin

text \<open>
  JSON values as the rule engine sees them (\<open>serde_json::Value\<close>): a number is represented by the
  text that \<open>Number::to_string\<close> prints, since the engine reads numbers only through it, and an object
  is its list of entries in insertion order with distinct keys (the workspace enables
  \<open>preserve_order\<close>). The serializer, the parser and the digest that the engine calls are code of
  other crates and appear as the functions of the record \<open>externs\<close>.
\<close>

datatype json =
    JNull
  | JBool bool
  | JNumber string
  | JString string
  | JArray "json list"
  | JObject "(string \<times> json) list"

type_synonym bindings = "json btree_map"

record externs =
  to_vec :: "json \<Rightarrow> string option"
  from_str :: "string \<Rightarrow> json option"
  sha256_digest :: "string \<Rightarrow> string"

section \<open>Accessors\<close>

fun is_null :: "json \<Rightarrow> bool" where
  "is_null JNull \<longleftrightarrow> True"
| "is_null _ \<longleftrightarrow> False"

fun as_bool :: "json \<Rightarrow> bool option" where
  "as_bool (JBool b) = Some b"
| "as_bool _ = None"

fun as_str :: "json \<Rightarrow> string option" where
  "as_str (JString s) = Some s"
| "as_str _ = None"

fun as_number :: "json \<Rightarrow> string option" where
  "as_number (JNumber n) = Some n"
| "as_number _ = None"

fun as_array :: "json \<Rightarrow> json list option" where
  "as_array (JArray xs) = Some xs"
| "as_array _ = None"

fun as_object :: "json \<Rightarrow> (string \<times> json) list option" where
  "as_object (JObject fs) = Some fs"
| "as_object _ = None"

section \<open>Equality\<close>

text \<open>
  \<open>Value\<close>'s equality: numbers of the same representation with equal values (the two float zeros are
  equal), objects up to the order of their entries.
\<close>

definition number_eq :: "string \<Rightarrow> string \<Rightarrow> bool" where
  "number_eq a b \<longleftrightarrow> a = b \<or> {a, b} = {''0.0'', ''-0.0''}"

function (sequential) json_eq :: "json \<Rightarrow> json \<Rightarrow> bool" where
  "json_eq JNull y \<longleftrightarrow> y = JNull"
| "json_eq (JBool a) y \<longleftrightarrow> y = JBool a"
| "json_eq (JNumber a) y \<longleftrightarrow> (case y of JNumber b \<Rightarrow> number_eq a b | _ \<Rightarrow> False)"
| "json_eq (JString a) y \<longleftrightarrow> y = JString a"
| "json_eq (JArray xs) y \<longleftrightarrow>
     (case y of
        JArray ys \<Rightarrow> length xs = length ys \<and> list_all (\<lambda>(x, b). json_eq x b) (zip xs ys)
      | _ \<Rightarrow> False)"
| "json_eq (JObject fs) y \<longleftrightarrow>
     (case y of
        JObject gs \<Rightarrow>
          length fs = length gs \<and>
          list_all (\<lambda>(k, a). case map_of gs k of None \<Rightarrow> False | Some b \<Rightarrow> json_eq a b) fs
      | _ \<Rightarrow> False)"
  by pat_completeness auto
termination
proof (relation "measure (\<lambda>(x, y). size x)", goal_cases)
  case (2 xs y ys p x b)
  then have "x \<in> set xs" by (auto dest: set_zip_leftD)
  then show ?case using size_list_estimation'[of x xs "size x" size] by simp
next
  case (3 fs y gs p k a b)
  then have "(k, a) \<in> set fs" by auto
  then show ?case
    using size_list_estimation'[of "(k, a)" fs "size a" "size_prod (\<lambda>_. 0) size"] by simp
qed simp

text \<open>Objects have distinct keys, at every level.\<close>

fun json_wf :: "json \<Rightarrow> bool" where
  "json_wf (JArray xs) \<longleftrightarrow> list_all json_wf xs"
| "json_wf (JObject fs) \<longleftrightarrow> distinct (map fst fs) \<and> list_all (\<lambda>(k, v). json_wf v) fs"
| "json_wf _ \<longleftrightarrow> True"

lemma json_eq_refl: "json_wf v \<Longrightarrow> json_eq v v"
proof (induction v)
  case (JObject fs)
  then show ?case by (auto simp: list_all_iff prod_set_defs)
qed (auto simp: number_eq_def list_all_iff in_set_zip)

section \<open>Text\<close>

text \<open>
  The text of a string in compact JSON: the quote, the backslash and the control characters are
  escaped, everything else stands for itself. \<open>commas\<close> separates the parts of an array or object.
\<close>

definition hex_lower :: "nat \<Rightarrow> char" where
  "hex_lower n = (if n < 10 then char_of (48 + n) else char_of (87 + n))"

definition escape_char :: "char \<Rightarrow> string" where
  "escape_char c =
     (if c = CHR 0x22 then [CHR 0x5C, CHR 0x22]
      else if c = CHR 0x5C then [CHR 0x5C, CHR 0x5C]
      else if c = CHR 0x08 then [CHR 0x5C, CHR ''b'']
      else if c = CHR 0x09 then [CHR 0x5C, CHR ''t'']
      else if c = CHR 0x0A then [CHR 0x5C, CHR ''n'']
      else if c = CHR 0x0C then [CHR 0x5C, CHR ''f'']
      else if c = CHR 0x0D then [CHR 0x5C, CHR ''r'']
      else if byte_of c < (32 :: nat)
      then [CHR 0x5C, CHR ''u'', CHR ''0'', CHR ''0'', hex_lower (byte_of c div 16), hex_lower (byte_of c mod 16)]
      else [c])"

definition quote_text :: "string \<Rightarrow> string" where
  "quote_text s = [CHR 0x22] @ concat (map escape_char s) @ [CHR 0x22]"

fun commas :: "string list \<Rightarrow> string" where
  "commas [] = []"
| "commas [s] = s"
| "commas (s # ss) = s @ '','' @ commas ss"

section \<open>Nodes and depth\<close>

text \<open>The direct members of a value, its number of nodes and the length of its longest path.\<close>

fun json_members :: "json \<Rightarrow> json list" where
  "json_members (JArray xs) = xs"
| "json_members (JObject fs) = map snd fs"
| "json_members _ = []"

lemma json_members_size: "v \<in> set (json_members x) \<Longrightarrow> size v < size x"
proof (cases x)
  case (JArray xs)
  assume "v \<in> set (json_members x)"
  then show ?thesis using JArray size_list_estimation'[of v xs "size v" size] by auto
next
  case (JObject fs)
  assume "v \<in> set (json_members x)"
  then obtain k where "(k, v) \<in> set fs" using JObject by auto
  then show ?thesis
    using JObject size_list_estimation'[of "(k, v)" fs "size v" "size_prod (\<lambda>_. 0) size"] by auto
qed auto

function json_nodes :: "json \<Rightarrow> nat" where
  "json_nodes x = Suc (sum_list (map json_nodes (json_members x)))"
  by pat_completeness auto
termination
  by (relation "measure size") (auto simp: json_members_size)

function json_depth :: "json \<Rightarrow> nat" where
  "json_depth x = Suc (fold max (map json_depth (json_members x)) 0)"
  by pat_completeness auto
termination
  by (relation "measure size") (auto simp: json_members_size)

declare json_nodes.simps [simp del] json_depth.simps [simp del]

end
