(* ===== verification/Rules_Types.thy ===== *)
theory Rules_Types
  imports Rules_Syntax Json
begin

text \<open>
  The data model of the rule engine (\<open>crates/rules/src/types.rs\<close>): the closed set of rule types, rule
  and decision-table definitions and their compiled forms, traces, the error type with its rendered
  messages, and the bound check of opaque JSON. Field names carry a short prefix per record. A
  \<open>BTreeMap\<close> is a \<open>btree_map\<close> of the prelude; fixed-size integers are natural numbers whose range is
  checked where the source checks it.
\<close>

section \<open>Source locations\<close>

datatype expression_owner =
    OwnerRule string
  | OwnerDecisionCondition string string string

record expression_context =
  metadata_path :: string
  owner :: expression_owner

definition parser_name :: "expression_context \<Rightarrow> string" where
  "parser_name ctx =
     (case owner ctx of OwnerRule name \<Rightarrow> name | OwnerDecisionCondition table _ _ \<Rightarrow> table)"

record rule_diagnostic =
  diag_context :: expression_context
  diag_span :: span
  diag_message :: string

section \<open>Rule types\<close>

datatype rule_type =
    TBool
  | TStr
  | TInt
  | TInt64
  | TDec
  | TUuid
  | TDate
  | TTimestamp
  | TEnum string "string list"
  | TList rule_type
  | TObject string "(string \<times> rule_type) list"
  | TOpaque string nat nat nat
  | TNullable rule_type

type_synonym type_map = "rule_type btree_map"

fun nullable :: "rule_type \<Rightarrow> rule_type" where
  "nullable (TNullable t) = TNullable t"
| "nullable t = TNullable t"

fun accepts_null :: "rule_type \<Rightarrow> bool" where
  "accepts_null (TNullable _) \<longleftrightarrow> True"
| "accepts_null _ \<longleftrightarrow> False"

fun display_name :: "rule_type \<Rightarrow> string" where
  "display_name TBool = ''bool''"
| "display_name TStr = ''string''"
| "display_name TInt = ''int''"
| "display_name TInt64 = ''bigint''"
| "display_name TDec = ''decimal''"
| "display_name TUuid = ''uuid''"
| "display_name TDate = ''date''"
| "display_name TTimestamp = ''timestamp''"
| "display_name (TEnum name _) = ''enum '' @ name"
| "display_name (TList inner) = ''list<'' @ display_name inner @ ''>''"
| "display_name (TObject name _) = ''object '' @ name"
| "display_name (TOpaque name _ _ _) = ''opaque JSON '' @ name"
| "display_name (TNullable inner) = ''nullable<'' @ display_name inner @ ''>''"

definition access_result_type :: "rule_type \<Rightarrow> rule_type" where
  "access_result_type member_or_item = nullable member_or_item"

section \<open>Opaque JSON\<close>

text \<open>\<open>depth.saturating_add(1)\<close> at \<open>u32\<close>.\<close>

definition saturating_succ :: "nat \<Rightarrow> nat" where
  "saturating_succ d = (case u32 (d + 1) of Some n \<Rightarrow> n | None \<Rightarrow> d)"

text \<open>The worklist is a stack: the head of the list is the entry that \<open>pop\<close> returns.\<close>

function opaque_loop :: "nat \<Rightarrow> nat \<Rightarrow> nat \<Rightarrow> (json \<times> nat) list \<Rightarrow> bool" where
  "opaque_loop maximum_depth maximum_nodes nodes [] \<longleftrightarrow> True"
| "opaque_loop maximum_depth maximum_nodes nodes ((v, depth) # pending) \<longleftrightarrow>
     (case u32 (nodes + 1) of
        None \<Rightarrow> False
      | Some nodes' \<Rightarrow>
          if nodes' \<le> maximum_nodes
          then if depth > maximum_depth then False
               else opaque_loop maximum_depth maximum_nodes nodes'
                      (rev (map (\<lambda>item. (item, saturating_succ depth)) (json_members v)) @ pending)
          else False)"
  by pat_completeness auto
termination
proof (relation "measure (\<lambda>(md, mn, n, ps). sum_list (map (\<lambda>(v, d). json_nodes v) ps))", goal_cases)
  case (2 md mn nodes v depth pending n')
  then show ?case
    by (simp add: json_nodes.simps[of v] rev_map[symmetric] sum_list_rev comp_def)
qed simp

definition opaque_json_within_bounds :: "externs \<Rightarrow> json \<Rightarrow> nat \<Rightarrow> nat \<Rightarrow> nat \<Rightarrow> bool" where
  "opaque_json_within_bounds ext v maximum_bytes maximum_depth maximum_nodes \<longleftrightarrow>
     (case to_vec ext v of
        None \<Rightarrow> False
      | Some bytes \<Rightarrow>
          if length bytes > maximum_bytes then False
          else opaque_loop maximum_depth maximum_nodes 0 [(v, 1)])"

section \<open>Definitions, artifacts and tables\<close>

record rule_definition =
  rd_name :: string
  rd_bindings :: type_map
  rd_result :: rule_type
  rd_expression :: string

record rule_artifact =
  ra_profile_version :: nat
  ra_original_source :: string
  ra_canonical_ast_sha256 :: string
  ra_source_sha256 :: string

datatype canonical_root = TypedRuleAst | DecisionDefinition | DecodedTypedInput

fun root_tag :: "canonical_root \<Rightarrow> nat" where
  "root_tag TypedRuleAst = 1"
| "root_tag DecisionDefinition = 2"
| "root_tag DecodedTypedInput = 3"

datatype hit_policy = First | Unique | Unsupported string

definition hit_policy_from_metadata :: "string \<Rightarrow> hit_policy" where
  "hit_policy_from_metadata v =
     (if v = ''first'' then First else if v = ''unique'' then Unique else Unsupported v)"

record decision_row =
  row_id :: string
  row_description :: "string option"
  row_when :: "string btree_map"
  row_output :: json

record decision_test_case =
  dtc_name :: string
  dtc_input :: json
  dtc_expect_output :: json
  dtc_expect_row :: string

record decision_table_definition =
  dt_name :: string
  dt_revision :: string
  dt_inputs :: type_map
  dt_output :: type_map
  dt_hit_policy :: hit_policy
  dt_rows :: "decision_row list"
  dt_test_cases :: "decision_test_case list"

datatype checked_type = Concrete rule_type | NullType

record checked_expr =
  ce_expression :: expr
  ce_type :: checked_type

record compiled_rule =
  cr_name :: string
  cr_bindings :: type_map
  cr_result :: rule_type
  cr_artifact :: rule_artifact
  cr_expression :: checked_expr
  cr_declared_types :: "rule_type list"

record evaluated_rule_value =
  ev_type :: rule_type
  ev_value :: json

datatype decision_rejection = RejectNoMatch | RejectMultipleMatches

record decision_condition_trace =
  ct_row_id :: string
  ct_conditions :: "bool btree_map"

record decision_trace =
  tr_table_name :: string
  tr_table_revision :: string
  tr_matched_row_id :: "string option"
  tr_rejection :: "decision_rejection option"
  tr_condition_results :: "decision_condition_trace list"
  tr_input_digest :: string

record decision_result =
  dr_output :: json
  dr_matched_row_id :: string
  dr_trace :: decision_trace

record decision_output_field =
  of_name :: string
  of_type :: rule_type

record compiled_decision_row =
  cdr_id :: string
  cdr_description :: "string option"
  cdr_conditions :: "checked_expr btree_map"
  cdr_output :: json

record compiled_test_case =
  ctc_name :: string
  ctc_input :: bindings
  ctc_output :: bindings
  ctc_matched_row_id :: string

record compiled_decision_table =
  cdt_name :: string
  cdt_revision :: string
  cdt_inputs :: type_map
  cdt_output :: type_map
  cdt_output_fields :: "decision_output_field btree_map"
  cdt_hit_policy :: hit_policy
  cdt_rows :: "compiled_decision_row list"
  cdt_test_cases :: "compiled_test_case list"
  cdt_declared_types :: "rule_type list"

definition input_type :: "compiled_decision_table \<Rightarrow> string \<Rightarrow> rule_type option" where
  "input_type table name = bt_get (cdt_inputs table) name"

definition output_field :: "compiled_decision_table \<Rightarrow> string \<Rightarrow> decision_output_field option" where
  "output_field table name = bt_get (cdt_output_fields table) name"

datatype canonical_value =
    CvTypedRule compiled_rule
  | CvDecisionDefinition compiled_decision_table
  | CvDecodedTypedInput type_map bindings

record rule_catalog =
  cat_declared_types :: type_map
  cat_rules :: "compiled_rule btree_map"
  cat_decision_tables :: "compiled_decision_table btree_map"

definition catalog_default :: rule_catalog where
  "catalog_default = \<lparr>cat_declared_types = [], cat_rules = [], cat_decision_tables = []\<rparr>"

section \<open>Errors\<close>

datatype rule_error =
    Diagnostic rule_diagnostic string rule_error
  | Parse parse_error
  | DuplicateName string string
  | UndeclaredName string string
  | UnknownEnumType string string
  | UnknownEnumSymbol string string string
  | UnknownField string string
  | TypeMismatch string string string
  | NullableOperation string
  | InvalidLiteral string string
  | InvalidRuleResult string string string
  | IncompatibleBranches string
  | MissingBinding string
  | UnexpectedBinding string
  | InvalidBinding string string
  | DivisionByZero string
  | UnsupportedHitPolicy string string
  | EmptyDecisionTable string
  | InvalidDecisionColumn string string
  | MissingDefaultRow string
  | InvalidDecisionRow string string
  | DecisionNoMatch string decision_trace
  | DecisionMultipleMatches string "string list" decision_trace
  | DecisionTestCaseMismatch string string
  | UnknownDecisionTable string
  | UnknownRule string
  | InternalInvariant string

fun rule_error_to_string :: "rule_error \<Rightarrow> string" where
  "rule_error_to_string (Diagnostic _ message _) = message"
| "rule_error_to_string (Parse e) = parse_error_to_string e"
| "rule_error_to_string (DuplicateName kind name) = ''duplicate '' @ kind @ '' name `'' @ name @ ''`''"
| "rule_error_to_string (UndeclaredName rule name) =
     ''rule `'' @ rule @ ''` uses undeclared binding `'' @ name @ ''`''"
| "rule_error_to_string (UnknownEnumType rule enum_name) =
     ''rule `'' @ rule @ ''` references undeclared enum type `'' @ enum_name @ ''`''"
| "rule_error_to_string (UnknownEnumSymbol rule enum_name symbol) =
     ''rule `'' @ rule @ ''` references unknown enum symbol `'' @ enum_name @ ''::'' @ symbol @ ''`''"
| "rule_error_to_string (UnknownField rule field) =
     ''rule `'' @ rule @ ''` cannot access undeclared field `'' @ field @ ''`''"
| "rule_error_to_string (TypeMismatch rule expected actual) =
     ''rule `'' @ rule @ ''` has incompatible types: expected '' @ expected @ '', got '' @ actual"
| "rule_error_to_string (NullableOperation rule) =
     ''rule `'' @ rule @ ''` applies an operation to a nullable value''"
| "rule_error_to_string (InvalidLiteral rule expected) =
     ''rule `'' @ rule @ ''` uses an invalid literal for '' @ expected"
| "rule_error_to_string (InvalidRuleResult rule expected actual) =
     ''rule `'' @ rule @ ''` produces '' @ actual @ '', not declared result '' @ expected"
| "rule_error_to_string (IncompatibleBranches rule) =
     ''rule `'' @ rule @ ''` has an incompatible conditional branch''"
| "rule_error_to_string (MissingBinding name) = ''binding `'' @ name @ ''` is required''"
| "rule_error_to_string (UnexpectedBinding name) = ''binding `'' @ name @ ''` is not declared''"
| "rule_error_to_string (InvalidBinding name expected) =
     ''binding `'' @ name @ ''` is not valid for its declared type '' @ expected"
| "rule_error_to_string (DivisionByZero rule) =
     ''evaluation of rule `'' @ rule @ ''` attempted division by zero''"
| "rule_error_to_string (UnsupportedHitPolicy table policy) =
     ''decision table `'' @ table @ ''` has unsupported hit policy `'' @ policy @ ''`''"
| "rule_error_to_string (EmptyDecisionTable table) = ''decision table `'' @ table @ ''` has no rows''"
| "rule_error_to_string (InvalidDecisionColumn table column) =
     ''decision table `'' @ table @ ''` has an invalid condition or output column `'' @ column @ ''`''"
| "rule_error_to_string (MissingDefaultRow table) =
     ''decision table `'' @ table @ ''` is missing its final all-true default row''"
| "rule_error_to_string (InvalidDecisionRow table row) =
     ''decision table `'' @ table @ ''` has an invalid row `'' @ row @ ''`''"
| "rule_error_to_string (DecisionNoMatch table _) =
     ''decision table `'' @ table @ ''` had no matching row''"
| "rule_error_to_string (DecisionMultipleMatches table _ _) =
     ''decision table `'' @ table @ ''` had multiple matching rows''"
| "rule_error_to_string (DecisionTestCaseMismatch table case_name) =
     ''decision table `'' @ table @ ''` test case `'' @ case_name @ ''` did not match''"
| "rule_error_to_string (UnknownDecisionTable table) =
     ''decision table `'' @ table @ ''` was not found''"
| "rule_error_to_string (UnknownRule rule) = ''rule `'' @ rule @ ''` was not found''"
| "rule_error_to_string (InternalInvariant rule) =
     ''rule `'' @ rule @ ''` reached an invalid validated expression state''"

fun diagnostic :: "rule_error \<Rightarrow> rule_diagnostic option" where
  "diagnostic (Diagnostic d _ _) = Some d"
| "diagnostic _ = None"

definition with_diagnostic :: "rule_error \<Rightarrow> expression_context \<Rightarrow> span \<Rightarrow> rule_error" where
  "with_diagnostic err ctx sp =
     (if diagnostic err \<noteq> None then err
      else let message = rule_error_to_string err in
           Diagnostic \<lparr>diag_context = ctx, diag_span = sp, diag_message = message\<rparr> message err)"

text \<open>The error below the diagnostics.\<close>

fun root_cause :: "rule_error \<Rightarrow> rule_error" where
  "root_cause (Diagnostic _ _ source) = root_cause source"
| "root_cause e = e"

section \<open>Well-formed types\<close>

text \<open>
  The maps inside a type are sorted, its integers fit their width, and a nullable type is not wrapped
  twice, as \<open>RuleType::nullable\<close> builds it.
\<close>

fun type_wf :: "rule_type \<Rightarrow> bool" where
  "type_wf (TList t) \<longleftrightarrow> type_wf t"
| "type_wf (TObject _ fs) \<longleftrightarrow> bt_wf fs \<and> list_all (\<lambda>(f, t). type_wf t) fs"
| "type_wf (TOpaque _ b d n) \<longleftrightarrow> b \<le> u32_max \<and> d \<le> u32_max \<and> n \<le> u32_max"
| "type_wf (TNullable t) \<longleftrightarrow> \<not> accepts_null t \<and> type_wf t"
| "type_wf _ \<longleftrightarrow> True"

lemma accepts_null_iff: "accepts_null t \<longleftrightarrow> (\<exists>u. t = TNullable u)"
  by (cases t) auto

lemma nullable_eq: "nullable t = (if accepts_null t then t else TNullable t)"
  by (cases t) auto

lemma type_wf_nullable [simp]: "type_wf t \<Longrightarrow> type_wf (nullable t)"
  by (simp add: nullable_eq)

lemma accepts_null_nullable [simp]: "accepts_null (nullable t)"
  by (simp add: nullable_eq)

section \<open>The bound check of opaque JSON\<close>

lemma saturating_succ_eq: "d \<le> u32_max \<Longrightarrow> saturating_succ d = min (d + 1) u32_max"
  by (auto simp: saturating_succ_def u32_def min_def)

lemma fold_max_bound: "fold max xs m \<le> (k::nat) \<longleftrightarrow> m \<le> k \<and> (\<forall>x \<in> set xs. x \<le> k)"
  by (induction xs arbitrary: m) auto

lemma json_depth_bound:
  "json_depth v \<le> k \<longleftrightarrow> 1 \<le> k \<and> (\<forall>c \<in> set (json_members v). Suc (json_depth c) \<le> k)"
  by (cases k) (auto simp: json_depth.simps[of v] fold_max_bound)

lemma json_depth_nodes: "json_depth v \<le> json_nodes v"
proof (induction v rule: json_depth.induct)
  case (1 v)
  have "Suc (json_depth c) \<le> json_nodes v" if "c \<in> set (json_members v)" for c
    using 1[OF that] that member_le_sum_list[of "json_nodes c" "map json_nodes (json_members v)"]
    by (simp add: json_nodes.simps[of v])
  then show ?case by (auto simp: json_depth_bound json_nodes.simps[of v])
qed

lemma json_nodes_pos [simp]: "0 < json_nodes v"
  by (simp add: json_nodes.simps[of v])

text \<open>
  The worklist counts exactly the nodes and measures exactly the depth. The counter never passes the
  declared maximum, so neither the overflow check of the counter nor the saturation of the depth is
  observable.
\<close>

lemma opaque_loop_correct:
  "mn \<le> u32_max \<Longrightarrow> \<forall>(v, d) \<in> set ps. 1 \<le> d \<and> d \<le> nodes + 1 \<Longrightarrow>
   opaque_loop md mn nodes ps \<longleftrightarrow>
     (ps = [] \<or> nodes + sum_list (map (\<lambda>(v, d). json_nodes v) ps) \<le> mn) \<and>
     (\<forall>(v, d) \<in> set ps. json_depth v + d \<le> Suc md)"
proof (induction md mn nodes ps rule: opaque_loop.induct)
  case (2 md mn nodes v d pending)
  let ?kids = "rev (map (\<lambda>item. (item, saturating_succ d)) (json_members v))"
  have sums: "sum_list (map (\<lambda>(v, d). json_nodes v) (?kids @ pending)) + 1 =
      sum_list (map (\<lambda>(v, d). json_nodes v) ((v, d) # pending))"
    by (simp add: json_nodes.simps[of v] rev_map[symmetric] sum_list_rev comp_def)
  have d: "1 \<le> d" "d \<le> nodes + 1" using "2.prems"(2) by auto
  show ?case
  proof (cases "nodes + 1 \<le> mn \<and> d \<le> md")
    case False
    then have "\<not> opaque_loop md mn nodes ((v, d) # pending)" by (auto simp: u32_def)
    moreover have "\<not> (nodes + sum_list (map (\<lambda>(v, d). json_nodes v) ((v, d) # pending)) \<le> mn \<and>
        json_depth v + d \<le> Suc md)"
    proof -
      have "1 \<le> json_nodes v" "1 \<le> json_depth v"
        unfolding json_nodes.simps[of v] json_depth.simps[of v] by auto
      then show ?thesis using False by auto
    qed
    ultimately show ?thesis by auto
  next
    case True
    have u: "u32 (nodes + 1) = Some (nodes + 1)" "d \<le> u32_max"
      using True "2.prems"(1) d(2) by (auto simp: u32_def)
    have "\<forall>(v, d') \<in> set (?kids @ pending). 1 \<le> d' \<and> d' \<le> Suc (nodes + 1)"
      using "2.prems"(2) d saturating_succ_eq[OF u(2)] by fastforce
    from "2.IH"[OF u(1) _ _ "2.prems"(1)] this True
    have IH: "opaque_loop md mn (nodes + 1) (?kids @ pending) \<longleftrightarrow>
        (?kids @ pending = [] \<or> nodes + 1 + sum_list (map (\<lambda>(v, d). json_nodes v) (?kids @ pending)) \<le> mn) \<and>
        (\<forall>(v, d) \<in> set (?kids @ pending). json_depth v + d \<le> Suc md)" by simp
    have depth: "(\<forall>(c, d') \<in> set ?kids. json_depth c + d' \<le> Suc md) \<longleftrightarrow> json_depth v + d \<le> Suc md"
      if "json_members v = [] \<or> nodes + 2 \<le> mn"
    proof (cases "json_members v = []")
      case True
      then show ?thesis using \<open>nodes + 1 \<le> mn \<and> d \<le> md\<close> by (simp add: json_depth.simps[of v])
    next
      case False
      then have "saturating_succ d = d + 1"
        using that d "2.prems"(1) saturating_succ_eq[OF u(2)] by simp
      then show ?thesis
        using json_depth_bound[of v "Suc md - d"] \<open>nodes + 1 \<le> mn \<and> d \<le> md\<close> by auto
    qed
    have step: "opaque_loop md mn nodes ((v, d) # pending) \<longleftrightarrow> opaque_loop md mn (nodes + 1) (?kids @ pending)"
      using True u(1) by simp
    show ?thesis
    proof (cases "nodes + sum_list (map (\<lambda>(v, d). json_nodes v) ((v, d) # pending)) \<le> mn")
      case True
      have "json_members v = [] \<or> nodes + 2 \<le> mn"
      proof (cases "json_members v")
        case (Cons c cs)
        have "1 \<le> json_nodes c" unfolding json_nodes.simps[of c] by simp
        then have "2 \<le> json_nodes v" unfolding json_nodes.simps[of v] Cons by simp
        then show ?thesis using True by simp
      qed simp
      from depth[OF this] show ?thesis
        unfolding step IH set_append ball_Un using True sums by simp
    next
      case False
      then show ?thesis unfolding step IH using sums \<open>nodes + 1 \<le> mn \<and> d \<le> md\<close> by auto
    qed
  qed
qed simp

text \<open>
  \<open>opaque_json_within_bounds\<close> accepts a JSON value exactly when it serializes to at most
  \<open>maximum_bytes\<close> bytes, has at most \<open>maximum_nodes\<close> nodes and nests at most \<open>maximum_depth\<close> levels, for
  every node bound that fits \<open>u32\<close>.
\<close>

theorem opaque_json_bounds_exact:
  assumes "maximum_nodes \<le> u32_max"
  shows "opaque_json_within_bounds ext v maximum_bytes maximum_depth maximum_nodes \<longleftrightarrow>
    (\<exists>bytes. to_vec ext v = Some bytes \<and> length bytes \<le> maximum_bytes) \<and>
    json_nodes v \<le> maximum_nodes \<and> json_depth v \<le> maximum_depth"
  using opaque_loop_correct[OF assms, of "[(v, 1)]" 0 maximum_depth]
  by (auto simp: opaque_json_within_bounds_def simp del: opaque_loop.simps split: option.splits)

theorem opaque_json_bounds_exact_witness:
  "opaque_json_within_bounds
     \<lparr>to_vec = \<lambda>_. Some ''[1,[2]]'', from_str = \<lambda>_. None, sha256_digest = \<lambda>_. []\<rparr>
     (JArray [JNumber ''1'', JArray [JNumber ''2'']]) 7 3 4 \<and> (4::nat) \<le> u32_max"
proof -
  have "json_nodes (JArray [JNumber ''1'', JArray [JNumber ''2'']]) \<le> 4"
    "json_depth (JArray [JNumber ''1'', JArray [JNumber ''2'']]) \<le> 3"
    by (simp_all add: json_nodes.simps json_depth.simps)
  then show ?thesis by (subst opaque_json_bounds_exact) auto
qed

section \<open>Diagnostics\<close>

lemma root_cause_with_diagnostic [simp]: "root_cause (with_diagnostic e ctx sp) = root_cause e"
  by (auto simp: with_diagnostic_def Let_def)

lemma with_diagnostic_diagnostic [simp]: "diagnostic (with_diagnostic e ctx sp) \<noteq> None"
  by (simp add: with_diagnostic_def Let_def)

end
