(* ===== verification/Rules_Decimal.thy ===== *)
theory Rules_Decimal
  imports Prelude Complex_Main
begin

text \<open>
  The bounded decimal of the rule profile (\<open>Decimal\<close> in \<open>crates/rules/src/eval.rs\<close>): an \<open>i128\<close>
  coefficient and a \<open>u32\<close> scale. The lemmas relate every operation to the rational number
  \<open>coefficient / 10 ^ scale\<close>: parsing, normal form, exact addition, subtraction and multiplication,
  division truncated at the chosen scale, the total order, and the printed form.
\<close>

section \<open>Definitions\<close>

record decimal =
  coefficient :: int
  scale :: nat

abbreviation Dec :: "int \<Rightarrow> nat \<Rightarrow> decimal" where
  "Dec c s \<equiv> \<lparr>coefficient = c, scale = s\<rparr>"

definition power_of_ten :: "nat \<Rightarrow> int option" where
  "power_of_ten exponent = i128 (10 ^ exponent)"

fun normalize_loop :: "int \<Rightarrow> nat \<Rightarrow> decimal" where
  "normalize_loop c 0 = Dec c 0"
| "normalize_loop c (Suc s) = (if c mod 10 = 0 then normalize_loop (c div 10) s else Dec c (Suc s))"

definition normalized :: "decimal \<Rightarrow> decimal" where
  "normalized d = normalize_loop (coefficient d) (scale d)"

fun strip_minus :: "string \<Rightarrow> bool \<times> string" where
  "strip_minus [] = (False, [])"
| "strip_minus (c # cs) = (if c = CHR ''-'' then (True, cs) else (False, c # cs))"

definition decimal_parse :: "string \<Rightarrow> decimal option" where
  "decimal_parse source =
     (let (negative, unsigned) = strip_minus source;
          (whole, fraction) = (case split_once CHR ''.'' unsigned of
             Some p \<Rightarrow> p | None \<Rightarrow> (unsigned, []))
      in if whole = [] \<or> \<not> list_all is_ascii_digit whole \<or> \<not> list_all is_ascii_digit fraction
         then None
         else Option.bind (u32 (length fraction)) (\<lambda>sc.
              let digits = whole @ fraction in
              Option.bind (if negative then parse_signed i128_min i128_max (''-'' @ digits)
                           else parse_signed i128_min i128_max digits) (\<lambda>c.
              Some (normalized (Dec c sc)))))"

definition decimal_neg :: "decimal \<Rightarrow> decimal option" where
  "decimal_neg d = map_option (\<lambda>c. Dec c (scale d)) (i128 (- coefficient d))"

definition decimal_is_zero :: "decimal \<Rightarrow> bool" where
  "decimal_is_zero d \<longleftrightarrow> coefficient d = 0"

definition canonical_string :: "decimal \<Rightarrow> string" where
  "canonical_string d =
     (if scale d = 0 then int_to_string (coefficient d)
      else let sign = (if coefficient d < 0 then ''-'' else []);
               digits = nat_to_string (nat \<bar>coefficient d\<bar>)
           in if length digits \<le> scale d
              then sign @ ''0.'' @ replicate (scale d - length digits) CHR ''0'' @ digits
              else let split = length digits - scale d
                   in sign @ take split digits @ ''.'' @ drop split digits)"

definition decimal_add :: "decimal \<Rightarrow> decimal \<Rightarrow> decimal option" where
  "decimal_add a b =
     (let sc = max (scale a) (scale b) in
      Option.bind (power_of_ten (sc - scale a)) (\<lambda>p.
      Option.bind (i128 (coefficient a * p)) (\<lambda>left.
      Option.bind (power_of_ten (sc - scale b)) (\<lambda>q.
      Option.bind (i128 (coefficient b * q)) (\<lambda>right.
      map_option (\<lambda>c. normalized (Dec c sc)) (i128 (left + right)))))))"

definition decimal_sub :: "decimal \<Rightarrow> decimal \<Rightarrow> decimal option" where
  "decimal_sub a b = Option.bind (decimal_neg b) (\<lambda>nb. decimal_add a nb)"

definition decimal_mul :: "decimal \<Rightarrow> decimal \<Rightarrow> decimal option" where
  "decimal_mul a b =
     map_option normalized
       (Option.bind (i128 (coefficient a * coefficient b)) (\<lambda>c.
        map_option (\<lambda>sc. Dec c sc) (u32 (scale a + scale b))))"

text \<open>\<open>checked_div\<close> on \<open>i128\<close>: truncation, with \<open>i128::MIN / -1\<close> out of range.\<close>

definition decimal_div :: "decimal \<Rightarrow> decimal \<Rightarrow> decimal option" where
  "decimal_div a b =
     (if coefficient b = 0 then None
      else let sc = max 18 (scale a - scale b) in
           Option.bind (u32 (sc + scale b)) (\<lambda>numerator_scale.
           Option.bind (if scale a \<le> numerator_scale then Some (numerator_scale - scale a) else None)
             (\<lambda>exponent.
           Option.bind (power_of_ten exponent) (\<lambda>p.
           Option.bind (i128 (coefficient a * p)) (\<lambda>numerator.
           Option.bind (i128 (trunc_div numerator (coefficient b))) (\<lambda>c.
           Some (normalized (Dec c sc))))))))"

text \<open>\<open>u128::ilog10\<close>; the caller passes positive values only.\<close>

fun ilog10 :: "nat \<Rightarrow> nat" where
  "ilog10 n = (if n < 10 then 0 else Suc (ilog10 (n div 10)))"

declare ilog10.simps [simp del]

text \<open>The digit loop; a divisor that reached 0 contributes the digit 0, as \<open>unwrap_or_default\<close> does.\<close>

fun digit_loop :: "nat \<Rightarrow> nat \<Rightarrow> nat \<Rightarrow> nat \<Rightarrow> nat \<Rightarrow> ordering" where
  "digit_loop 0 left left_divisor right right_divisor = Equal"
| "digit_loop (Suc n) left left_divisor right right_divisor =
     (let left_digit = (if left_divisor = 0 then 0 else left div left_divisor) mod 10;
          right_digit = (if right_divisor = 0 then 0 else right div right_divisor) mod 10
      in if cmp left_digit right_digit \<noteq> Equal then cmp left_digit right_digit
         else digit_loop n left (left_divisor div 10) right (right_divisor div 10))"

definition compare_decimal_magnitudes :: "nat \<Rightarrow> nat \<Rightarrow> nat \<Rightarrow> nat \<Rightarrow> ordering" where
  "compare_decimal_magnitudes left left_scale right right_scale =
     (let left_digits = ilog10 left + 1;
          right_digits = ilog10 right + 1;
          position_ordering = cmp (int left_digits - int left_scale) (int right_digits - int right_scale)
      in if position_ordering \<noteq> Equal then position_ordering
         else digit_loop (max left_digits right_digits)
                left (10 ^ (left_digits - 1)) right (10 ^ (right_digits - 1)))"

fun ordering_rank :: "ordering \<Rightarrow> nat" where
  "ordering_rank Less = 0"
| "ordering_rank Equal = 1"
| "ordering_rank Greater = 2"

definition decimal_cmp :: "decimal \<Rightarrow> decimal \<Rightarrow> ordering" where
  "decimal_cmp a b =
     (let left_sign = cmp (coefficient a) 0; right_sign = cmp (coefficient b) 0 in
      if left_sign \<noteq> right_sign \<or> left_sign = Equal
      then cmp (ordering_rank left_sign) (ordering_rank right_sign)
      else let o1 = compare_decimal_magnitudes (nat \<bar>coefficient a\<bar>) (scale a)
                      (nat \<bar>coefficient b\<bar>) (scale b)
           in if left_sign = Less then ord_reverse o1 else o1)"

section \<open>The number a decimal denotes\<close>

definition dec_val :: "decimal \<Rightarrow> rat" where
  "dec_val d = of_int (coefficient d) / 10 ^ scale d"

definition dec_normal :: "decimal \<Rightarrow> bool" where
  "dec_normal d \<longleftrightarrow> scale d = 0 \<or> coefficient d mod 10 \<noteq> 0"

definition dec_wf :: "decimal \<Rightarrow> bool" where
  "dec_wf d \<longleftrightarrow> i128_min \<le> coefficient d \<and> coefficient d \<le> i128_max \<and> scale d \<le> u32_max \<and> dec_normal d"

section \<open>Normal form\<close>

lemma Dec_eta [simp]: "Dec (coefficient d) (scale d) = d"
  by (cases d) simp

lemma dec_val_Dec [simp]: "dec_val (Dec c s) = of_int c / 10 ^ s"
  by (simp add: dec_val_def)

lemma dec_val_normalize_loop: "dec_val (normalize_loop c s) = dec_val (Dec c s)"
proof (induction c s rule: normalize_loop.induct)
  case (2 c s)
  show ?case
  proof (cases "c mod 10 = 0")
    case True
    then obtain k where "c = 10 * k" by auto
    with True 2 show ?thesis by (simp add: dec_val_def)
  next
    case False
    then show ?thesis by simp
  qed
qed simp

lemma dec_val_normalized [simp]: "dec_val (normalized d) = dec_val d"
  by (simp add: normalized_def dec_val_normalize_loop)

lemma dec_normal_normalize_loop: "dec_normal (normalize_loop c s)"
  by (induction c s rule: normalize_loop.induct) (auto simp: dec_normal_def)

lemma normalize_loop_bounds:
  "lo \<le> 0 \<Longrightarrow> 0 \<le> hi \<Longrightarrow> lo \<le> c \<Longrightarrow> c \<le> hi \<Longrightarrow>
   lo \<le> coefficient (normalize_loop c s) \<and> coefficient (normalize_loop c s) \<le> hi \<and>
   scale (normalize_loop c s) \<le> s"
proof (induction c s rule: normalize_loop.induct)
  case (2 c s)
  have "lo \<le> c div 10 \<and> c div 10 \<le> hi" using "2.prems" by linarith
  with 2 show ?case by auto
qed simp

lemma dec_wf_normalized:
  "i128_min \<le> c \<Longrightarrow> c \<le> i128_max \<Longrightarrow> s \<le> u32_max \<Longrightarrow> dec_wf (normalized (Dec c s))"
  using normalize_loop_bounds[of i128_min i128_max c s]
  by (auto simp: dec_wf_def normalized_def dec_normal_normalize_loop)

lemma normalize_loop_id: "dec_normal (Dec c s) \<Longrightarrow> normalize_loop c s = Dec c s"
  by (cases s) (auto simp: dec_normal_def)

lemma normalized_id: "dec_normal d \<Longrightarrow> normalized d = d"
  using normalize_loop_id[of "coefficient d" "scale d"] by (simp add: normalized_def)

lemma same_value_cross:
  "dec_val a = dec_val b \<longleftrightarrow> coefficient a * 10 ^ scale b = coefficient b * 10 ^ scale a"
proof -
  have "dec_val a = dec_val b \<longleftrightarrow>
      (of_int (coefficient a * 10 ^ scale b) :: rat) = of_int (coefficient b * 10 ^ scale a)"
    by (simp add: dec_val_def field_simps)
  then show ?thesis by (simp only: of_int_eq_iff)
qed

lemma normal_scale_le:
  assumes "dec_normal a" and eq: "coefficient a * 10 ^ scale b = coefficient b * 10 ^ scale a"
  shows "scale a \<le> scale b"
proof (rule ccontr)
  assume "\<not> scale a \<le> scale b"
  then obtain k where k: "scale a = scale b + Suc k" using less_iff_Suc_add by (metis not_le add_Suc_right)
  then have "coefficient a * 10 ^ scale b = (coefficient b * 10 ^ Suc k) * 10 ^ scale b"
    using eq by (simp add: power_add ac_simps)
  then have "coefficient a = coefficient b * 10 ^ Suc k" by simp
  then have "coefficient a mod 10 = 0" by simp
  with assms(1) k show False by (simp add: dec_normal_def)
qed

lemma dec_normal_unique:
  assumes "dec_normal a" "dec_normal b" "dec_val a = dec_val b"
  shows "a = b"
proof -
  have eq: "coefficient a * 10 ^ scale b = coefficient b * 10 ^ scale a"
    using assms(3) same_value_cross by blast
  have "scale a = scale b"
    using normal_scale_le[OF assms(1) eq] normal_scale_le[OF assms(2) eq[symmetric]] by simp
  with eq show ?thesis by simp
qed

section \<open>Arithmetic\<close>

lemma i128_Some [simp]: "i128 v = Some w \<longleftrightarrow> i128_min \<le> v \<and> v \<le> i128_max \<and> w = v"
  by (simp add: rust_defs)

lemma u32_Some [simp]: "u32 n = Some m \<longleftrightarrow> n \<le> u32_max \<and> m = n"
  by (auto simp: rust_defs)

lemma power_of_ten_Some [simp]: "power_of_ten e = Some p \<longleftrightarrow> 10 ^ e \<le> i128_max \<and> p = 10 ^ e"
proof -
  have "i128_min \<le> (10::int) ^ e" by (rule order_trans[of _ 0]) simp_all
  then show ?thesis by (auto simp: power_of_ten_def)
qed

lemma decimal_neg_value:
  "dec_wf a \<Longrightarrow> decimal_neg a = Some c \<Longrightarrow> dec_val c = - dec_val a \<and> dec_wf c"
  by (auto simp: decimal_neg_def dec_val_def dec_wf_def dec_normal_def zmod_zminus1_eq_if
        simp del: i128_Some simp: rust_defs split: if_splits)

lemma dec_val_rescale:
  "scale d \<le> sc \<Longrightarrow> dec_val (Dec (coefficient d * 10 ^ (sc - scale d)) sc) = dec_val d"
  by (auto simp: le_iff_add power_add dec_val_def)

lemma decimal_add_value:
  assumes "dec_wf a" "dec_wf b" "decimal_add a b = Some c"
  shows "dec_val c = dec_val a + dec_val b \<and> dec_wf c"
proof -
  let ?sc = "max (scale a) (scale b)"
  let ?l = "coefficient a * 10 ^ (?sc - scale a)" and ?r = "coefficient b * 10 ^ (?sc - scale b)"
  from assms(3) have c: "c = normalized (Dec (?l + ?r) ?sc)"
    and r: "i128_min \<le> ?l + ?r" "?l + ?r \<le> i128_max"
    by (auto simp: decimal_add_def Let_def bind_eq_Some_conv)
  have "dec_val c = dec_val (Dec ?l ?sc) + dec_val (Dec ?r ?sc)"
    by (simp add: c add_divide_distrib)
  then have "dec_val c = dec_val a + dec_val b" by (simp only: dec_val_rescale max.cobounded1 max.cobounded2)
  moreover have "?sc \<le> u32_max" using assms(1,2) by (simp add: dec_wf_def)
  ultimately show ?thesis using r c dec_wf_normalized by blast
qed

lemma decimal_sub_value:
  assumes "dec_wf a" "dec_wf b" "decimal_sub a b = Some c"
  shows "dec_val c = dec_val a - dec_val b \<and> dec_wf c"
proof -
  from assms(3) obtain nb where nb: "decimal_neg b = Some nb" "decimal_add a nb = Some c"
    by (auto simp: decimal_sub_def bind_eq_Some_conv)
  then show ?thesis
    using decimal_neg_value[OF assms(2) nb(1)] decimal_add_value[OF assms(1) _ nb(2)] by simp
qed

lemma decimal_mul_value:
  assumes "decimal_mul a b = Some c"
  shows "dec_val c = dec_val a * dec_val b \<and> dec_wf c"
proof -
  from assms have c: "c = normalized (Dec (coefficient a * coefficient b) (scale a + scale b))"
    and r: "i128_min \<le> coefficient a * coefficient b" "coefficient a * coefficient b \<le> i128_max"
      "scale a + scale b \<le> u32_max"
    by (auto simp: decimal_mul_def bind_eq_Some_conv)
  have "dec_val c = of_int (coefficient a * coefficient b) / 10 ^ (scale a + scale b)" by (simp add: c)
  then have "dec_val c = dec_val a * dec_val b" by (simp add: dec_val_def power_add)
  then show ?thesis using c r dec_wf_normalized by blast
qed

lemma trunc_div_error:
  fixes n d :: int
  assumes "d \<noteq> 0"
  shows "\<bar>of_int n / of_int d - (of_int (trunc_div n d) :: rat)\<bar> < 1"
    and "\<bar>of_int (trunc_div n d) :: rat\<bar> \<le> \<bar>of_int n / of_int d\<bar>"
proof -
  let ?q = "\<bar>n\<bar> div \<bar>d\<bar>"
  have d: "0 < \<bar>d\<bar>" using assms by simp
  have q0: "0 \<le> ?q" by (rule pos_imp_zdiv_nonneg_iff[THEN iffD2]) (use d in auto)
  have lo: "?q * \<bar>d\<bar> \<le> \<bar>n\<bar>" using d by (simp add: minus_mod_eq_div_mult[symmetric])
  have hi: "\<bar>n\<bar> < (?q + 1) * \<bar>d\<bar>"
    unfolding distrib_right mult_1
    using div_mult_mod_eq[of "\<bar>n\<bar>" "\<bar>d\<bar>"] pos_mod_bound[OF d, of "\<bar>n\<bar>"] by linarith
  have "(of_int (?q * \<bar>d\<bar>) :: rat) \<le> of_int \<bar>n\<bar>" using lo by (simp only: of_int_le_iff)
  then have lo': "(of_int ?q :: rat) \<le> \<bar>of_int n / of_int d\<bar>"
    using d by (simp add: abs_divide field_simps)
  have "(of_int \<bar>n\<bar> :: rat) < of_int ((?q + 1) * \<bar>d\<bar>)" using hi by (simp only: of_int_less_iff)
  then have hi': "\<bar>of_int n / of_int d\<bar> < (of_int ?q :: rat) + 1"
    using d by (simp add: abs_divide field_simps)
  have tq: "(of_int (trunc_div n d) :: rat) = sgn (of_int n / of_int d) * of_int ?q"
    using assms by (auto simp: trunc_div_def sgn_if zero_less_divide_iff)
  have frac: "(of_int n / of_int d :: rat) = sgn (of_int n / of_int d) * \<bar>of_int n / of_int d\<bar>"
    by (simp only: sgn_mult_abs)
  have sg: "\<bar>sgn (x::rat)\<bar> \<le> 1" for x by (simp add: sgn_if)
  have "\<bar>of_int n / of_int d - (of_int (trunc_div n d) :: rat)\<bar> =
        \<bar>sgn (of_int n / of_int d :: rat) * (\<bar>of_int n / of_int d\<bar> - of_int ?q)\<bar>"
    unfolding tq by (subst frac) (simp only: right_diff_distrib)
  also have "\<dots> \<le> \<bar>\<bar>of_int n / of_int d\<bar> - (of_int ?q :: rat)\<bar>"
    using sg by (simp only: abs_mult mult_left_le_one_le abs_ge_zero)
  also have "\<dots> < 1" using lo' hi' by linarith
  finally show "\<bar>of_int n / of_int d - (of_int (trunc_div n d) :: rat)\<bar> < 1" .
  have "\<bar>of_int (trunc_div n d) :: rat\<bar> \<le> \<bar>(of_int ?q :: rat)\<bar>"
    unfolding tq using sg by (simp only: abs_mult mult_left_le_one_le abs_ge_zero)
  then show "\<bar>of_int (trunc_div n d) :: rat\<bar> \<le> \<bar>of_int n / of_int d\<bar>"
    using lo' q0 by simp
qed

lemma scaled_error: "0 < (p::rat) \<Longrightarrow> \<bar>x - t / p\<bar> = \<bar>x * p - t\<bar> / p"
proof -
  assume p: "0 < p"
  then have "x - t / p = (x * p - t) / p" by (simp add: diff_divide_distrib)
  then show ?thesis using p by (simp only: abs_divide abs_of_pos)
qed

lemma decimal_div_value:
  assumes "decimal_div a b = Some c"
  defines "unit \<equiv> 1 / 10 ^ max 18 (scale a - scale b)"
  shows "\<bar>dec_val a / dec_val b - dec_val c\<bar> < unit"
    and "\<bar>dec_val c\<bar> \<le> \<bar>dec_val a / dec_val b\<bar>"
proof -
  let ?sc = "max 18 (scale a - scale b)"
  let ?n = "coefficient a * 10 ^ (?sc + scale b - scale a)"
  have le: "scale a \<le> ?sc + scale b" by linarith
  from assms(1) have b: "coefficient b \<noteq> 0"
    and c: "c = normalized (Dec (trunc_div ?n (coefficient b)) ?sc)"
    by (auto simp: decimal_div_def Let_def bind_eq_Some_conv split: if_splits)
  have p: "(10::rat) ^ (?sc + scale b - scale a) * 10 ^ scale a = 10 ^ ?sc * 10 ^ scale b"
    using le by (simp only: power_add[symmetric] le_add_diff_inverse2)
  have "(of_int ?n :: rat) * 10 ^ scale a = of_int (coefficient a) * (10 ^ ?sc * 10 ^ scale b)"
    by (simp only: of_int_mult of_int_power of_int_numeral mult.assoc p)
  then have q: "(of_int ?n :: rat) / of_int (coefficient b) = dec_val a / dec_val b * 10 ^ ?sc"
    using b by (simp add: dec_val_def field_simps)
  let ?t = "of_int (trunc_div ?n (coefficient b)) :: rat"
  have cv: "dec_val c = ?t / 10 ^ ?sc" by (simp add: c)
  have "\<bar>dec_val a / dec_val b * 10 ^ ?sc - ?t\<bar> < 1"
    using trunc_div_error(1)[OF b, of ?n] by (simp only: q)
  then show "\<bar>dec_val a / dec_val b - dec_val c\<bar> < unit"
    unfolding cv unit_def by (subst scaled_error) (simp_all only: divide_strict_right_mono zero_less_power zero_less_numeral)
  have "\<bar>?t\<bar> \<le> \<bar>dec_val a / dec_val b\<bar> * 10 ^ ?sc"
    using trunc_div_error(2)[OF b, of ?n] by (simp only: q abs_mult abs_numeral power_abs)
  then show "\<bar>dec_val c\<bar> \<le> \<bar>dec_val a / dec_val b\<bar>"
    by (simp only: cv abs_divide[of ?t "10 ^ ?sc"] power_abs abs_numeral pos_divide_le_eq
        zero_less_power zero_less_numeral)
qed

section \<open>The total order\<close>

lemma ilog10_bounds: "0 < n \<Longrightarrow> 10 ^ ilog10 n \<le> n \<and> n < 10 ^ Suc (ilog10 n)"
proof (induction n rule: ilog10.induct)
  case (1 n)
  show ?case
  proof (cases "n < 10")
    case True
    then show ?thesis using 1 by (simp add: ilog10.simps [of n])
  next
    case False
    then have "10 ^ ilog10 (n div 10) \<le> n div 10 \<and> n div 10 < 10 ^ Suc (ilog10 (n div 10))"
      using 1 by auto
    then show ?thesis using False by (auto simp: ilog10.simps [of n])
  qed
qed

text \<open>The divisor of the digit loop with \<open>m\<close> digits to go, for a number padded with \<open>z\<close> zeros.\<close>

definition loop_divisor :: "nat \<Rightarrow> nat \<Rightarrow> nat" where
  "loop_divisor z m = (if z < m then 10 ^ (m - 1 - z) else 0)"

lemma loop_divisor_step: "loop_divisor z (Suc m) div 10 = loop_divisor z m"
  by (auto simp: loop_divisor_def Suc_diff_le less_Suc_eq Suc_diff_Suc[symmetric] simp del: Suc_diff_Suc)

lemma loop_digit:
  "(if loop_divisor z (Suc m) = 0 then 0 else l div loop_divisor z (Suc m)) mod 10 =
   l * 10 ^ z div 10 ^ m mod 10"
proof (cases "z \<le> m")
  case True
  then have "l * 10 ^ z div 10 ^ m = l div 10 ^ (m - z)"
    by (auto simp: le_iff_add power_add div_mult2_eq)
  then show ?thesis using True by (simp add: loop_divisor_def)
next
  case False
  then obtain k where "z = m + Suc k" by (metis less_iff_Suc_add not_le add_Suc_right)
  then have "l * 10 ^ z div 10 ^ m = 10 * (l * 10 ^ k)" by (simp add: power_add)
  then show ?thesis using False by (simp add: loop_divisor_def)
qed

lemma mod_Suc_power: "x mod 10 ^ Suc m = (x div 10 ^ m mod 10) * 10 ^ m + x mod (10 ^ m :: nat)"
  using mod_mult2_eq[of x "10 ^ m" 10] by (simp add: mult.commute)

lemma cmp_digits:
  fixes a b u v w :: nat
  assumes "u < w" "v < w"
  shows "cmp (a * w + u) (b * w + v) = (if cmp a b \<noteq> Equal then cmp a b else cmp u v)"
proof -
  have lt: "a' * w + u' < b' * w + v'" if "a' < b'" "u' < w" for a' b' u' v' :: nat
  proof -
    have "a' * w + u' < Suc a' * w" using that by simp
    also have "\<dots> \<le> b' * w" using that by (intro mult_le_mono1) simp
    finally show ?thesis by simp
  qed
  show ?thesis using lt[of a b u v] lt[of b a v u] assms by (auto simp: cmp_def)
qed

lemma digit_loop_correct:
  "digit_loop m l (loop_divisor y m) r (loop_divisor z m) =
   cmp (l * 10 ^ y mod 10 ^ m) (r * 10 ^ z mod 10 ^ m)"
proof (induction m)
  case 0
  then show ?case by (simp add: cmp_def)
next
  case (Suc m)
  have lt: "x mod 10 ^ m < (10 ^ m :: nat)" for x by simp
  show ?case
    unfolding digit_loop.simps Let_def loop_digit loop_divisor_step Suc.IH mod_Suc_power
    by (rule cmp_digits[OF lt lt, symmetric])
qed

lemma compare_decimal_magnitudes_correct:
  assumes "0 < l" "0 < r"
  shows "compare_decimal_magnitudes l ls r rs = cmp (l * 10 ^ rs) (r * 10 ^ ls)"
proof -
  let ?ld = "ilog10 l + 1" and ?rd = "ilog10 r + 1"
  note lb = ilog10_bounds[OF assms(1)] and rb = ilog10_bounds[OF assms(2)]
  have far: "a * 10 ^ t < b * 10 ^ s"
    if "a < 10 ^ Suc i" "10 ^ j \<le> b" "Suc i + t < Suc j + s" for a b i j s t :: nat
  proof -
    have "a * 10 ^ t < 10 ^ Suc i * 10 ^ t" using that(1) by simp
    also have "\<dots> = 10 ^ (Suc i + t)" by (simp only: power_add)
    also have "\<dots> \<le> 10 ^ (j + s)" using that(3) by (intro power_increasing) simp_all
    also have "\<dots> \<le> b * 10 ^ s" using that(2) by (simp add: power_add)
    finally show ?thesis .
  qed
  consider (less) "?ld + rs < ?rd + ls" | (greater) "?rd + ls < ?ld + rs" | (eq) "?ld + rs = ?rd + ls"
    by linarith
  then show ?thesis
  proof cases
    case less
    then have "l * 10 ^ rs < r * 10 ^ ls" using far[of l "ilog10 l" "ilog10 r" r rs ls] lb rb by simp
    then show ?thesis using less by (simp add: compare_decimal_magnitudes_def Let_def cmp_def)
  next
    case greater
    then have "r * 10 ^ ls < l * 10 ^ rs" using far[of r "ilog10 r" "ilog10 l" l ls rs] lb rb by simp
    then show ?thesis using greater by (simp add: compare_decimal_magnitudes_def Let_def cmp_def)
  next
    case eq
    let ?n = "max ?ld ?rd"
    let ?y = "?n - ?ld" and ?z = "?n - ?rd"
    let ?L = "l * 10 ^ ?y" and ?R = "r * 10 ^ ?z" and ?k = "?ld + rs - ?n"
    have "?n \<le> ?ld + rs" using eq by linarith
    then have exps: "?y + ?k = rs" "?z + ?k = ls" using eq by linarith+
    have Lk: "l * 10 ^ rs = ?L * 10 ^ ?k" using exps(1) by (simp add: power_add[symmetric])
    have Rk: "r * 10 ^ ls = ?R * 10 ^ ?k" using exps(2) by (simp add: power_add[symmetric])
    have pad: "x * 10 ^ (?n - (i + 1)) < 10 ^ ?n" if "x < 10 ^ Suc i" "i + 1 \<le> ?n" for x i :: nat
    proof -
      have "x * 10 ^ (?n - (i + 1)) < 10 ^ Suc i * 10 ^ (?n - (i + 1))" using that(1) by simp
      also have "\<dots> = 10 ^ ?n" using that(2) by (simp add: power_add[symmetric] del: power_Suc)
      finally show ?thesis .
    qed
    have "?L < 10 ^ ?n" "?R < 10 ^ ?n" using pad[of l "ilog10 l"] pad[of r "ilog10 r"] lb rb by simp_all
    moreover have "10 ^ (?ld - 1) = loop_divisor ?y ?n" "10 ^ (?rd - 1) = loop_divisor ?z ?n"
      by (auto simp: loop_divisor_def max_def)
    ultimately have "digit_loop ?n l (10 ^ (?ld - 1)) r (10 ^ (?rd - 1)) = cmp ?L ?R"
      by (simp only: digit_loop_correct mod_less)
    also have "\<dots> = cmp (l * 10 ^ rs) (r * 10 ^ ls)" unfolding Lk Rk by (simp add: cmp_def)
    finally show ?thesis using eq by (simp add: compare_decimal_magnitudes_def Let_def cmp_def)
  qed
qed

lemma dec_val_less_cross:
  "dec_val a < dec_val b \<longleftrightarrow> coefficient a * 10 ^ scale b < coefficient b * 10 ^ scale a"
proof -
  have "dec_val a < dec_val b \<longleftrightarrow>
      (of_int (coefficient a * 10 ^ scale b) :: rat) < of_int (coefficient b * 10 ^ scale a)"
    by (simp add: dec_val_def field_simps)
  then show ?thesis by (simp only: of_int_less_iff)
qed

lemma dec_val_cmp_cross:
  "cmp (dec_val a) (dec_val b) = cmp (coefficient a * 10 ^ scale b) (coefficient b * 10 ^ scale a)"
  by (simp add: cmp_def dec_val_less_cross same_value_cross)

lemma cmp_int: "cmp (int a) (int b) = cmp a b"
  by (simp add: cmp_def)

lemma cmp_uminus: "cmp (- a) (- b :: int) = ord_reverse (cmp a b)"
  by (auto simp: cmp_def)

lemma magnitudes_int:
  assumes "x \<noteq> 0" "y \<noteq> 0"
  shows "compare_decimal_magnitudes (nat \<bar>x\<bar>) s (nat \<bar>y\<bar>) t = cmp (\<bar>x\<bar> * 10 ^ t) (\<bar>y\<bar> * 10 ^ s)"
proof -
  have "0 < nat \<bar>x\<bar>" "0 < nat \<bar>y\<bar>" using assms by simp_all
  then have "compare_decimal_magnitudes (nat \<bar>x\<bar>) s (nat \<bar>y\<bar>) t =
      cmp (int (nat \<bar>x\<bar> * 10 ^ t)) (int (nat \<bar>y\<bar> * 10 ^ s))"
    by (simp only: compare_decimal_magnitudes_correct cmp_int)
  then show ?thesis by simp
qed

lemma decimal_cmp_correct: "decimal_cmp a b = cmp (dec_val a) (dec_val b)"
proof -
  let ?x = "coefficient a" and ?y = "coefficient b"
  let ?L = "?x * 10 ^ scale b" and ?R = "?y * 10 ^ scale a"
  have sgL: "?L < 0 \<longleftrightarrow> ?x < 0" "?L = 0 \<longleftrightarrow> ?x = 0" "0 < ?L \<longleftrightarrow> 0 < ?x"
    and sgR: "?R < 0 \<longleftrightarrow> ?y < 0" "?R = 0 \<longleftrightarrow> ?y = 0" "0 < ?R \<longleftrightarrow> 0 < ?y"
    by (simp_all add: mult_less_0_iff zero_less_mult_iff)
  consider (neg) "?x < 0" "?y < 0" | (pos) "0 < ?x" "0 < ?y" | (zero) "?x = 0" "?y = 0"
    | (lt) "cmp ?x 0 \<noteq> cmp ?y 0" "?L < ?R" | (gt) "cmp ?x 0 \<noteq> cmp ?y 0" "?R < ?L"
    using sgL sgR by (auto simp: cmp_def)
  then show ?thesis
  proof cases
    case neg
    then have "cmp (\<bar>?x\<bar> * 10 ^ scale b) (\<bar>?y\<bar> * 10 ^ scale a) = ord_reverse (cmp ?L ?R)"
      using cmp_uminus[of ?L ?R] by simp
    moreover have "ord_reverse (ord_reverse o1) = o1" for o1 by (cases o1) simp_all
    moreover have sg: "cmp ?x 0 = Less" "cmp ?y 0 = Less" using neg by (simp_all add: cmp_def)
    have nz: "?x \<noteq> 0" "?y \<noteq> 0" using neg by simp_all
    ultimately show ?thesis
      by (simp add: decimal_cmp_def Let_def sg magnitudes_int[OF nz] dec_val_cmp_cross)
  next
    case pos
    then have abs: "\<bar>?x\<bar> = ?x" "\<bar>?y\<bar> = ?y" and nz: "?x \<noteq> 0" "?y \<noteq> 0" by simp_all
    have "cmp ?x 0 = Greater" "cmp ?y 0 = Greater" using pos by (simp_all add: cmp_def)
    then show ?thesis
      by (simp add: decimal_cmp_def Let_def magnitudes_int[OF nz, unfolded abs] dec_val_cmp_cross abs)
  next
    case zero
    then show ?thesis by (simp add: decimal_cmp_def Let_def dec_val_def cmp_def)
  next
    case lt
    have "(?x < 0 \<and> \<not> ?y < 0) \<or> (?x = 0 \<and> 0 < ?y)"
    proof (cases ?x "0::int" rule: linorder_cases)
      case less
      then show ?thesis using lt(1) by (auto simp: cmp_def)
    next
      case equal
      then show ?thesis using lt(2) sgR(3) by simp
    next
      case greater
      then have "0 < ?R" using sgL(3) lt(2) by linarith
      then show ?thesis using greater sgR(3) lt(1) by (simp add: cmp_def)
    qed
    then have "decimal_cmp a b = Less" by (auto simp: decimal_cmp_def Let_def cmp_def)
    then show ?thesis using lt(2) by (simp add: cmp_def dec_val_less_cross)
  next
    case gt
    have "(?y < 0 \<and> \<not> ?x < 0) \<or> (?y = 0 \<and> 0 < ?x)"
    proof (cases ?y "0::int" rule: linorder_cases)
      case less
      then show ?thesis using gt(1) by (auto simp: cmp_def)
    next
      case equal
      then show ?thesis using gt(2) sgL(3) by simp
    next
      case greater
      then have "0 < ?L" using sgR(3) gt(2) by linarith
      then show ?thesis using greater sgL(3) gt(1) by (simp add: cmp_def)
    qed
    then have "decimal_cmp a b = Greater" by (auto simp: decimal_cmp_def Let_def cmp_def)
    then show ?thesis using gt(2) by (simp add: dec_val_cmp_cross) (simp add: cmp_def)
  qed
qed

section \<open>Parsing and printing\<close>

lemma bind_Some_map: "Option.bind x (\<lambda>c. Some (g c)) = map_option g x"
  by (cases x) simp_all

lemma digits_val_foldl: "foldl (\<lambda>acc c. acc * 10 + digit_val c) n s = n * 10 ^ length s + digits_val s"
proof (induction s arbitrary: n)
  case (Cons c s)
  show ?case using Cons[of "n * 10 + digit_val c"] Cons[of "digit_val c"]
    by (simp add: digits_val_def algebra_simps)
qed simp

lemma digits_val_append: "digits_val (s @ t) = digits_val s * 10 ^ length t + digits_val t"
  using digits_val_foldl[of "digits_val s" t] by (simp add: digits_val_def)

lemma digits_val_zeros: "digits_val (replicate k CHR ''0'' @ s) = digits_val s"
  by (induction k) (simp_all add: digits_val_def digit_val_def)

lemma dot_not_digits: "list_all is_ascii_digit s \<Longrightarrow> CHR ''.'' \<notin> set s"
  by (auto simp: list_all_iff sign_not_digit)

lemma takeWhile_digits: "list_all is_ascii_digit w \<Longrightarrow> takeWhile (\<lambda>c. c \<noteq> CHR ''.'') w = w"
  using dot_not_digits[of w] by (induction w) auto

lemma split_once_digits:
  assumes "list_all is_ascii_digit w"
  shows "split_once CHR ''.'' (w @ CHR ''.'' # f) = Some (w, f)"
    and "split_once CHR ''.'' w = None"
proof -
  have "\<And>x. x \<in> set w \<Longrightarrow> x \<noteq> CHR ''.''" using dot_not_digits[OF assms] by blast
  then show "split_once CHR ''.'' (w @ CHR ''.'' # f) = Some (w, f)"
    by (simp add: split_once_def takeWhile_append2 dropWhile_append2)
  show "split_once CHR ''.'' w = None" using dot_not_digits[OF assms] by (simp add: split_once_def)
qed

lemma strip_minus_digits: "w \<noteq> [] \<Longrightarrow> list_all is_ascii_digit w \<Longrightarrow> strip_minus (w @ r) = (False, w @ r)"
  by (cases w) (auto simp: sign_not_digit)

lemma parse_signed_digits:
  assumes "w \<noteq> []" "list_all is_ascii_digit w"
  shows "parse_signed lo hi w = in_range lo hi (int (digits_val w))"
    and "parse_signed lo hi (''-'' @ w) = in_range lo hi (- int (digits_val w))"
proof -
  obtain c cs where w: "w = c # cs" using assms(1) by (cases w) auto
  then have "c \<noteq> CHR ''-''" "c \<noteq> CHR ''+''" using assms(2) sign_not_digit by auto
  then show "parse_signed lo hi w = in_range lo hi (int (digits_val w))"
    using assms w by (simp add: parse_digits_def)
  show "parse_signed lo hi (''-'' @ w) = in_range lo hi (- int (digits_val w))"
    using assms by (simp add: parse_digits_def)
qed

text \<open>A decimal literal with or without a fraction part denotes its digits over a power of ten.\<close>

definition decimal_text :: "bool \<Rightarrow> string \<Rightarrow> string option \<Rightarrow> string" where
  "decimal_text neg whole fraction =
     (if neg then ''-'' else []) @ whole @ (case fraction of None \<Rightarrow> [] | Some f \<Rightarrow> ''.'' @ f)"

lemma decimal_parse_text:
  fixes neg whole fraction
  defines "f \<equiv> (case fraction of None \<Rightarrow> [] | Some f \<Rightarrow> f)"
  assumes "whole \<noteq> []" "list_all is_ascii_digit whole" "list_all is_ascii_digit f" "length f \<le> u32_max"
  shows "decimal_parse (decimal_text neg whole fraction) =
    map_option (\<lambda>c. normalized (Dec c (length f)))
      (in_range i128_min i128_max ((if neg then -1 else 1) * int (digits_val (whole @ f))))"
proof -
  let ?u = "whole @ (case fraction of None \<Rightarrow> [] | Some f \<Rightarrow> ''.'' @ f)"
  have sp: "(case split_once CHR ''.'' ?u of Some p \<Rightarrow> p | None \<Rightarrow> (?u, [])) = (whole, f)"
    using assms(3) by (auto simp: f_def split_once_digits split: option.splits)
  have st: "strip_minus (decimal_text neg whole fraction) = (neg, ?u)"
    using assms(2,3) by (simp add: decimal_text_def strip_minus_digits)
  have wf: "whole @ f \<noteq> []" "list_all is_ascii_digit (whole @ f)" using assms by simp_all
  have ps: "(if neg then parse_signed i128_min i128_max (''-'' @ whole @ f)
             else parse_signed i128_min i128_max (whole @ f)) =
    in_range i128_min i128_max ((if neg then -1 else 1) * int (digits_val (whole @ f)))"
    using parse_signed_digits[OF wf] by simp
  have guard: "\<not> (whole = [] \<or> \<not> list_all is_ascii_digit whole \<or> \<not> list_all is_ascii_digit f)"
    and len: "u32 (length f) = Some (length f)" using assms by (simp_all add: u32_def)
  show ?thesis
    unfolding decimal_parse_def Let_def st prod.case sp
    by (simp only: guard if_False len bind.simps ps bind_Some_map)
qed

lemma dropWhile_until: "p \<in> set u \<Longrightarrow> dropWhile (\<lambda>c. c \<noteq> p) u = p # tl (dropWhile (\<lambda>c. c \<noteq> p) u)"
  by (induction u) auto

lemma decimal_parse_guard:
  assumes "decimal_parse s = Some d" "strip_minus s = (neg, u)"
    "(case split_once CHR ''.'' u of Some p \<Rightarrow> p | None \<Rightarrow> (u, [])) = (w, f)"
  shows "w \<noteq> [] \<and> list_all is_ascii_digit w \<and> list_all is_ascii_digit f \<and> length f \<le> u32_max"
  using assms(1) unfolding decimal_parse_def Let_def assms(2,3) prod.case
  by (simp only: bind_eq_Some_conv u32_Some split: if_splits) blast+

lemma decimal_parse_inv:
  assumes "decimal_parse s = Some d"
  obtains neg whole fraction where "s = decimal_text neg whole fraction" "whole \<noteq> []"
    "list_all is_ascii_digit whole" "list_all is_ascii_digit (case fraction of None \<Rightarrow> [] | Some f \<Rightarrow> f)"
    "length (case fraction of None \<Rightarrow> [] | Some f \<Rightarrow> f) \<le> u32_max"
proof -
  obtain neg u where u: "strip_minus s = (neg, u)" by fastforce
  then have su: "s = (if neg then ''-'' else []) @ u" by (cases s) (auto split: if_splits)
  show thesis
  proof (cases "split_once CHR ''.'' u")
    case None
    then show thesis using decimal_parse_guard[OF assms u, of u "[]"] su
      by (intro that[of neg u None]) (simp_all add: decimal_text_def)
  next
    case (Some p)
    then obtain w f where p: "p = (w, f)" and w: "w = takeWhile (\<lambda>c. c \<noteq> CHR ''.'') u"
      and f: "f = tl (dropWhile (\<lambda>c. c \<noteq> CHR ''.'') u)" and dot: "CHR ''.'' \<in> set u"
      by (auto simp: split_once_def split: if_splits)
    have "dropWhile (\<lambda>c. c \<noteq> CHR ''.'') u = CHR ''.'' # f"
      using dropWhile_until[OF dot] f by simp
    then have "u = w @ ''.'' @ f" using w takeWhile_dropWhile_id[of "\<lambda>c. c \<noteq> CHR ''.''" u] by simp
    then show thesis using decimal_parse_guard[OF assms u, of w f] su Some p
      by (intro that[of neg w "Some f"]) (simp_all add: decimal_text_def)
  qed
qed

lemma decimal_parse_value:
  assumes "decimal_parse s = Some d"
  shows "dec_wf d \<and> (\<exists>neg whole fraction. s = decimal_text neg whole fraction \<and>
    dec_val d = (if neg then -1 else 1) *
      of_nat (digits_val (whole @ (case fraction of None \<Rightarrow> [] | Some f \<Rightarrow> f))) /
      10 ^ length (case fraction of None \<Rightarrow> [] | Some f \<Rightarrow> f))"
proof -
  obtain neg whole fraction where s: "s = decimal_text neg whole fraction" and r: "whole \<noteq> []"
    "list_all is_ascii_digit whole" "list_all is_ascii_digit (case fraction of None \<Rightarrow> [] | Some f \<Rightarrow> f)"
    "length (case fraction of None \<Rightarrow> [] | Some f \<Rightarrow> f) \<le> u32_max"
    using decimal_parse_inv[OF assms] by blast
  let ?f = "case fraction of None \<Rightarrow> [] | Some f \<Rightarrow> f"
  let ?c = "(if neg then -1 else 1) * int (digits_val (whole @ ?f))"
  from assms decimal_parse_text[OF r, of neg] s
  have d: "d = normalized (Dec ?c (length ?f))" and c: "i128_min \<le> ?c" "?c \<le> i128_max"
    by (auto simp del: of_nat_add)
  then have "dec_val d = of_int ?c / 10 ^ length ?f" by simp
  then have "dec_val d = (if neg then -1 else 1) * of_nat (digits_val (whole @ ?f)) / 10 ^ length ?f"
    by simp
  then show ?thesis using d c r(4) dec_wf_normalized s by blast
qed

lemma decimal_print_parse:
  assumes "dec_wf d"
  shows "decimal_parse (canonical_string d) = Some d"
proof -
  let ?c = "coefficient d" and ?s = "scale d"
  let ?ds = "nat_to_string (nat \<bar>?c\<bar>)" and ?neg = "?c < 0"
  have c: "i128_min \<le> ?c" "?c \<le> i128_max" "?s \<le> u32_max" "dec_normal d" using assms by (auto simp: dec_wf_def)
  have sg: "(if ?neg then -1 else 1) * int (nat \<bar>?c\<bar>) = ?c" by simp
  have fin: "decimal_parse (decimal_text ?neg w fr) = Some d"
    if "w \<noteq> []" "list_all is_ascii_digit w" "list_all is_ascii_digit (case fr of None \<Rightarrow> [] | Some f \<Rightarrow> f)"
      "length (case fr of None \<Rightarrow> [] | Some f \<Rightarrow> f) = ?s"
      "digits_val (w @ (case fr of None \<Rightarrow> [] | Some f \<Rightarrow> f)) = nat \<bar>?c\<bar>" for w fr
    using decimal_parse_text[OF that(1,2,3), of ?neg] that(4,5) c sg
    by (simp add: in_range_def normalized_id del: of_nat_add int_nat_eq)
  note dg = nat_to_string_digits[of "nat \<bar>?c\<bar>"]
  consider (int) "?s = 0" | (small) "0 < ?s" "length ?ds \<le> ?s" | (big) "0 < ?s" "?s < length ?ds" by linarith
  then show ?thesis
  proof cases
    case int
    then have "canonical_string d = decimal_text ?neg ?ds None"
      by (simp add: canonical_string_def int_to_string_def decimal_text_def)
    then show ?thesis using fin[of ?ds None] int dg by simp
  next
    case small
    let ?z = "replicate (?s - length ?ds) CHR ''0''"
    have "canonical_string d = decimal_text ?neg ''0'' (Some (?z @ ?ds))"
      using small by (simp add: canonical_string_def decimal_text_def Let_def)
    moreover have "digits_val (''0'' @ ?z @ ?ds) = nat \<bar>?c\<bar>"
      using digits_val_zeros[of "Suc (?s - length ?ds)" ?ds] by simp
    moreover have "list_all is_ascii_digit ''0''" "list_all is_ascii_digit (?z @ ?ds)"
      using dg by (auto simp: list_all_iff is_ascii_digit_def)
    ultimately show ?thesis using fin[of "''0''" "Some (?z @ ?ds)"] small by simp
  next
    case big
    let ?k = "length ?ds - ?s"
    have "canonical_string d = decimal_text ?neg (take ?k ?ds) (Some (drop ?k ?ds))"
      using big by (simp add: canonical_string_def decimal_text_def Let_def)
    moreover have "list_all is_ascii_digit (take ?k ?ds)" "list_all is_ascii_digit (drop ?k ?ds)"
      using dg by (auto simp: list_all_iff dest: in_set_takeD in_set_dropD)
    ultimately show ?thesis using fin[of "take ?k ?ds" "Some (drop ?k ?ds)"] big by simp
  qed
qed

section \<open>Properties\<close>

text \<open>
  (C24) The order on decimals is the order of the rational numbers they denote, for every pair of
  coefficients and scales, although the code never forms a common denominator: it compares the
  position of the leading digit and then the digits one by one.
\<close>

theorem decimal_order_is_numeric: "decimal_cmp a b = cmp (dec_val a) (dec_val b)"
  by (rule decimal_cmp_correct)

text \<open>
  (C25) Addition, subtraction and multiplication that return a value return the exact rational
  result, in normal form and in range; they never round and never wrap.
\<close>

theorem decimal_arithmetic_exact:
  assumes "dec_wf a" "dec_wf b"
  shows "(\<forall>c. decimal_add a b = Some c \<longrightarrow> dec_val c = dec_val a + dec_val b \<and> dec_wf c)
       \<and> (\<forall>c. decimal_sub a b = Some c \<longrightarrow> dec_val c = dec_val a - dec_val b \<and> dec_wf c)
       \<and> (\<forall>c. decimal_mul a b = Some c \<longrightarrow> dec_val c = dec_val a * dec_val b \<and> dec_wf c)
       \<and> (\<forall>c. decimal_neg a = Some c \<longrightarrow> dec_val c = - dec_val a \<and> dec_wf c)"
  using decimal_add_value[OF assms] decimal_sub_value[OF assms] decimal_mul_value[of a b]
    decimal_neg_value[OF assms(1)] by blast

theorem decimal_arithmetic_exact_witness:
  "decimal_add (Dec 15 1) (Dec 25 2) = Some (Dec 175 2) \<and> dec_val (Dec 175 2) = dec_val (Dec 15 1) + dec_val (Dec 25 2)"
proof -
  have wf: "dec_wf (Dec 15 1)" "dec_wf (Dec 25 2)" by (simp_all add: dec_wf_def dec_normal_def)
  have "decimal_add (Dec 15 1) (Dec 25 2) = Some (Dec 175 2)" by code_simp
  then show ?thesis using decimal_arithmetic_exact[OF wf] by blast
qed

text \<open>
  Division rounds towards zero at a scale of at least 18 fractional digits: the result is within
  one unit of the last digit of the exact quotient and never exceeds it in magnitude.
\<close>

theorem decimal_division_truncates:
  assumes "decimal_div a b = Some c"
  shows "\<bar>dec_val a / dec_val b - dec_val c\<bar> < 1 / 10 ^ max 18 (scale a - scale b)
       \<and> \<bar>dec_val c\<bar> \<le> \<bar>dec_val a / dec_val b\<bar>"
  using decimal_div_value[OF assms] by simp

theorem decimal_division_truncates_witness:
  "\<bar>dec_val (Dec 1 0) / dec_val (Dec 3 0) - dec_val (Dec 333333333333333333 18)\<bar> < 1 / 10 ^ 18"
proof -
  have "decimal_div (Dec 1 0) (Dec 3 0) = Some (Dec 333333333333333333 18)" by code_simp
  from decimal_division_truncates[OF this] show ?thesis by simp
qed

text \<open>
  (C26) Printing a decimal and parsing the text gives the same decimal back, for every coefficient of
  the 128-bit range and every scale.
\<close>

theorem decimal_round_trip:
  assumes "dec_wf d"
  shows "decimal_parse (canonical_string d) = Some d"
  by (rule decimal_print_parse[OF assms])

theorem decimal_round_trip_witness:
  "canonical_string (Dec (-5) 3) = ''-0.005'' \<and> decimal_parse ''-0.005'' = Some (Dec (-5) 3)"
proof -
  have wf: "dec_wf (Dec (-5) 3)" by (simp add: dec_wf_def dec_normal_def)
  have "canonical_string (Dec (-5) 3) = ''-0.005''" by code_simp
  then show ?thesis using decimal_round_trip[OF wf] by simp
qed

text \<open>
  Structural equality of parsed decimals (the derived \<open>Eq\<close>) is equality of the numbers written:
  parsing is canonical, so \<open>1.50\<close> and \<open>1.5\<close> are the same value and nothing else collapses.
\<close>

theorem decimal_equality_is_numeric:
  assumes "decimal_parse s = Some a" "decimal_parse t = Some b"
  shows "a = b \<longleftrightarrow> dec_val a = dec_val b"
  using decimal_parse_value[OF assms(1)] decimal_parse_value[OF assms(2)] dec_normal_unique
  by (auto simp: dec_wf_def)

theorem decimal_equality_is_numeric_witness:
  "decimal_parse ''1.50'' = Some (Dec 15 1) \<and> decimal_parse ''1.5'' = Some (Dec 15 1)
   \<and> dec_val (Dec 15 1) = dec_val (Dec 15 1)"
proof -
  have p: "decimal_parse ''1.50'' = Some (Dec 15 1)" "decimal_parse ''1.5'' = Some (Dec 15 1)" by code_simp+
  show ?thesis using p decimal_equality_is_numeric[OF p] by simp
qed

end
