(* ===== verification/Rules_Check.thy ===== *)
theory Rules_Check
  imports Rules_Types Rules_Decimal
begin

text \<open>
  The deploy-time type checker of rule expressions (\<open>check_expression\<close> and its helpers in
  \<open>crates/rules/src/eval.rs\<close>). Errors carry a diagnostic with the span of the innermost expression
  they arose in when a source context is given.
\<close>

section \<open>Types of operations\<close>

definition checked_type_name :: "checked_type \<Rightarrow> string" where
  "checked_type_name t = (case t of Concrete t \<Rightarrow> display_name t | NullType \<Rightarrow> ''null'')"

definition type_mismatch :: "string \<Rightarrow> string \<Rightarrow> string \<Rightarrow> rule_error" where
  "type_mismatch rule_name expected actual = TypeMismatch rule_name expected actual"

fun is_numeric :: "rule_type \<Rightarrow> bool" where
  "is_numeric TInt \<longleftrightarrow> True"
| "is_numeric TInt64 \<longleftrightarrow> True"
| "is_numeric TDec \<longleftrightarrow> True"
| "is_numeric _ \<longleftrightarrow> False"

definition is_mixed_integer_pair :: "rule_type \<Rightarrow> rule_type \<Rightarrow> bool" where
  "is_mixed_integer_pair left right \<longleftrightarrow>
     (left = TInt \<and> right = TInt64) \<or> (left = TInt64 \<and> right = TInt)"

fun supports_whole_value_equality :: "rule_type \<Rightarrow> bool" where
  "supports_whole_value_equality (TList _) \<longleftrightarrow> False"
| "supports_whole_value_equality (TObject _ _) \<longleftrightarrow> False"
| "supports_whole_value_equality (TOpaque _ _ _ _) \<longleftrightarrow> False"
| "supports_whole_value_equality _ \<longleftrightarrow> True"

definition supports_ordering :: "rule_type \<Rightarrow> bool" where
  "supports_ordering t \<longleftrightarrow> is_numeric t \<or> t = TTimestamp"

fun required_concrete :: "string \<Rightarrow> checked_type \<Rightarrow> (rule_type, rule_error) result" where
  "required_concrete rule_name (Concrete t) =
     (if accepts_null t then Err (NullableOperation rule_name) else Ok t)"
| "required_concrete rule_name NullType = Err (type_mismatch rule_name ''a non-null value'' ''null'')"

definition expect_bool :: "string \<Rightarrow> checked_type \<Rightarrow> (unit, rule_error) result" where
  "expect_bool rule_name t =
     res_bind (required_concrete rule_name t) (\<lambda>t.
       if t = TBool then Ok () else Err (type_mismatch rule_name ''bool'' (display_name t)))"

fun is_assignable :: "checked_type \<Rightarrow> rule_type \<Rightarrow> bool" where
  "is_assignable NullType expected \<longleftrightarrow> accepts_null expected"
| "is_assignable (Concrete actual) expected \<longleftrightarrow>
     actual = expected \<or> (actual = TInt \<and> expected = TInt64)"

definition merge_branch_types ::
  "string \<Rightarrow> checked_type \<Rightarrow> checked_type \<Rightarrow> (checked_type, rule_error) result" where
  "merge_branch_types rule_name when_true when_false =
     (case (when_true, when_false) of
        (Concrete left, Concrete right) \<Rightarrow>
          if left = right then Ok (Concrete left)
          else if is_mixed_integer_pair left right then Ok (Concrete TInt64)
          else Err (IncompatibleBranches rule_name)
      | (NullType, Concrete other) \<Rightarrow>
          if accepts_null other then Ok (Concrete other) else Err (IncompatibleBranches rule_name)
      | (Concrete other, NullType) \<Rightarrow>
          if accepts_null other then Ok (Concrete other) else Err (IncompatibleBranches rule_name)
      | (NullType, NullType) \<Rightarrow> Err (IncompatibleBranches rule_name))"

definition check_equality ::
  "string \<Rightarrow> checked_type \<Rightarrow> checked_type \<Rightarrow> (unit, rule_error) result" where
  "check_equality rule_name left right =
     (case (left, right) of
        (NullType, Concrete other) \<Rightarrow>
          if accepts_null other then Ok ()
          else Err (type_mismatch rule_name ''a nullable value'' ''non-nullable value'')
      | (Concrete other, NullType) \<Rightarrow>
          if accepts_null other then Ok ()
          else Err (type_mismatch rule_name ''a nullable value'' ''non-nullable value'')
      | (NullType, NullType) \<Rightarrow>
          Err (type_mismatch rule_name ''a nullable value'' ''non-nullable value'')
      | (Concrete l, Concrete r) \<Rightarrow>
          if accepts_null l \<or> accepts_null r then Err (NullableOperation rule_name)
          else if l = r \<and> supports_whole_value_equality l then Ok ()
          else if is_mixed_integer_pair l r then Ok ()
          else Err (type_mismatch rule_name (checked_type_name left) (checked_type_name right)))"

definition check_ordering ::
  "string \<Rightarrow> checked_type \<Rightarrow> checked_type \<Rightarrow> (checked_type, rule_error) result" where
  "check_ordering rule_name left right =
     res_bind (required_concrete rule_name left) (\<lambda>l.
     res_bind (required_concrete rule_name right) (\<lambda>r.
       if (l = r \<and> supports_ordering l) \<or> is_mixed_integer_pair l r then Ok (Concrete TBool)
       else Err (type_mismatch rule_name ''matching int, decimal, or timestamp operands''
              (display_name l @ '' and '' @ display_name r))))"

definition check_arithmetic ::
  "string \<Rightarrow> checked_type \<Rightarrow> checked_type \<Rightarrow> (checked_type, rule_error) result" where
  "check_arithmetic rule_name left right =
     res_bind (required_concrete rule_name left) (\<lambda>l.
     res_bind (required_concrete rule_name right) (\<lambda>r.
       if l = r \<and> is_numeric l then Ok (Concrete l)
       else if is_mixed_integer_pair l r then Ok (Concrete TInt64)
       else Err (type_mismatch rule_name ''matching int or decimal operands''
              (display_name l @ '' and '' @ display_name r))))"

fun check_binary ::
  "string \<Rightarrow> binary_op \<Rightarrow> checked_type \<Rightarrow> checked_type \<Rightarrow> (checked_type, rule_error) result" where
  "check_binary rule_name operation left right =
     (case operation of
        AndOp \<Rightarrow>
          res_bind (expect_bool rule_name left) (\<lambda>_.
          res_bind (expect_bool rule_name right) (\<lambda>_. Ok (Concrete TBool)))
      | OrOp \<Rightarrow>
          res_bind (expect_bool rule_name left) (\<lambda>_.
          res_bind (expect_bool rule_name right) (\<lambda>_. Ok (Concrete TBool)))
      | EqualOp \<Rightarrow> res_bind (check_equality rule_name left right) (\<lambda>_. Ok (Concrete TBool))
      | NotEqualOp \<Rightarrow> res_bind (check_equality rule_name left right) (\<lambda>_. Ok (Concrete TBool))
      | LessThanOp \<Rightarrow> check_ordering rule_name left right
      | LessThanOrEqualOp \<Rightarrow> check_ordering rule_name left right
      | GreaterThanOp \<Rightarrow> check_ordering rule_name left right
      | GreaterThanOrEqualOp \<Rightarrow> check_ordering rule_name left right
      | AddOp \<Rightarrow> check_arithmetic rule_name left right
      | SubtractOp \<Rightarrow> check_arithmetic rule_name left right
      | MultiplyOp \<Rightarrow> check_arithmetic rule_name left right
      | DivideOp \<Rightarrow> check_arithmetic rule_name left right)"

declare check_binary.simps [simp del]

definition check_unary :: "string \<Rightarrow> unary_op \<Rightarrow> rule_type \<Rightarrow> (checked_type, rule_error) result" where
  "check_unary rule_name op operand =
     (case op of
        NotOp \<Rightarrow> if operand = TBool then Ok (Concrete TBool)
                 else Err (type_mismatch rule_name ''bool'' (display_name operand))
      | NegateOp \<Rightarrow> if is_numeric operand then Ok (Concrete operand)
                    else Err (type_mismatch rule_name ''int or decimal'' (display_name operand)))"

section \<open>Literals and names\<close>

fun check_literal :: "string \<Rightarrow> literal \<Rightarrow> (checked_type, rule_error) result" where
  "check_literal rule_name LNull = Ok NullType"
| "check_literal rule_name (LBool _) = Ok (Concrete TBool)"
| "check_literal rule_name (LString _) = Ok (Concrete TStr)"
| "check_literal rule_name (LInt v) =
     (if parse_signed i32_min i32_max v \<noteq> None then Ok (Concrete TInt)
      else if parse_signed i64_min i64_max v \<noteq> None then Ok (Concrete TInt64)
      else Err (InvalidLiteral rule_name ''int or bigint''))"
| "check_literal rule_name (LDecimal v) =
     ok_or (InvalidLiteral rule_name ''decimal'') (map_option (\<lambda>_. Concrete TDec) (decimal_parse v))"

fun literal_normalizes_to_zero :: "expr \<Rightarrow> bool" where
  "literal_normalizes_to_zero (Expr _ (Literal (LInt v))) \<longleftrightarrow>
     parse_signed i128_min i128_max v = Some 0"
| "literal_normalizes_to_zero (Expr _ (Literal (LDecimal v))) \<longleftrightarrow>
     (case decimal_parse v of Some d \<Rightarrow> decimal_is_zero d | None \<Rightarrow> False)"
| "literal_normalizes_to_zero (Expr _ (Unary NegateOp operand)) \<longleftrightarrow> literal_normalizes_to_zero operand"
| "literal_normalizes_to_zero _ \<longleftrightarrow> False"

definition check_name :: "string \<Rightarrow> string \<Rightarrow> type_map \<Rightarrow> (checked_type, rule_error) result" where
  "check_name rule_name name bindings =
     res_map Concrete (ok_or (UndeclaredName rule_name name) (bt_get bindings name))"

definition check_enum_symbol ::
  "string \<Rightarrow> string \<Rightarrow> string \<Rightarrow> type_map \<Rightarrow> (checked_type, rule_error) result" where
  "check_enum_symbol rule_name enum_name symbol declared_types =
     (case bt_get declared_types enum_name of
        None \<Rightarrow> Err (UnknownEnumType rule_name enum_name)
      | Some t \<Rightarrow>
          (case t of
             TEnum name symbols \<Rightarrow>
               if name \<noteq> enum_name \<or> \<not> list_ex (\<lambda>candidate. candidate = symbol) symbols
               then Err (UnknownEnumSymbol rule_name enum_name symbol)
               else Ok (Concrete t)
           | _ \<Rightarrow> Err (UnknownEnumType rule_name enum_name)))"

definition check_member ::
  "string \<Rightarrow> checked_type \<Rightarrow> string \<Rightarrow> (checked_type, rule_error) result" where
  "check_member rule_name target field =
     res_bind (required_concrete rule_name target) (\<lambda>object.
       case object of
         TObject _ fs \<Rightarrow>
           res_map (\<lambda>t. Concrete (access_result_type t))
             (ok_or (UnknownField rule_name field) (bt_get fs field))
       | other \<Rightarrow> Err (type_mismatch rule_name ''object'' (display_name other)))"

definition check_index :: "string \<Rightarrow> checked_type \<Rightarrow> (checked_type, rule_error) result" where
  "check_index rule_name target =
     res_bind (required_concrete rule_name target) (\<lambda>t.
       case t of
         TList item \<Rightarrow> Ok (Concrete (access_result_type item))
       | other \<Rightarrow> Err (type_mismatch rule_name ''list'' (display_name other)))"

section \<open>Calls\<close>

text \<open>The loop over the two operands of a string test.\<close>

fun expect_strings :: "string \<Rightarrow> checked_type list \<Rightarrow> (unit, rule_error) result" where
  "expect_strings rule_name [] = Ok ()"
| "expect_strings rule_name (t # ts) =
     res_bind (required_concrete rule_name t) (\<lambda>t.
       if t = TStr then expect_strings rule_name ts
       else Err (type_mismatch rule_name ''string'' (display_name t)))"

definition check_string_test ::
  "string \<Rightarrow> checked_type list \<Rightarrow> (checked_type, rule_error) result" where
  "check_string_test rule_name checked =
     (if length checked = 2
      then res_bind (expect_strings rule_name checked) (\<lambda>_. Ok (Concrete TBool))
      else Err (type_mismatch rule_name ''two function arguments'' ''other''))"

definition check_size :: "string \<Rightarrow> checked_type list \<Rightarrow> (checked_type, rule_error) result" where
  "check_size rule_name checked =
     (case checked of
        [t] \<Rightarrow>
          res_bind (required_concrete rule_name t) (\<lambda>t.
            case t of
              TStr \<Rightarrow> Ok (Concrete TInt)
            | TList _ \<Rightarrow> Ok (Concrete TInt)
            | other \<Rightarrow> Err (type_mismatch rule_name ''string or list'' (display_name other)))
      | _ \<Rightarrow> Err (type_mismatch rule_name ''one function argument'' ''other''))"

definition check_is_null :: "string \<Rightarrow> checked_type list \<Rightarrow> (checked_type, rule_error) result" where
  "check_is_null rule_name checked =
     (case checked of
        [t] \<Rightarrow>
          (case t of
             Concrete u \<Rightarrow> if accepts_null u then Ok (Concrete TBool)
                           else Err (type_mismatch rule_name ''nullable value'' (checked_type_name t))
           | NullType \<Rightarrow> Err (type_mismatch rule_name ''nullable value'' (checked_type_name t)))
      | _ \<Rightarrow> Err (type_mismatch rule_name ''one function argument'' ''other''))"

definition check_call_types ::
  "string \<Rightarrow> rule_function \<Rightarrow> checked_type list \<Rightarrow> (checked_type, rule_error) result" where
  "check_call_types rule_name f checked =
     (case f of
        Size \<Rightarrow> check_size rule_name checked
      | IsNull \<Rightarrow> check_is_null rule_name checked
      | StartsWith \<Rightarrow> check_string_test rule_name checked
      | EndsWith \<Rightarrow> check_string_test rule_name checked)"

section \<open>Expressions\<close>

text \<open>The \<open>map_err\<close> at the end of \<open>check_expression\<close>.\<close>

definition locate_error :: "expression_context option \<Rightarrow> span \<Rightarrow> rule_error \<Rightarrow> rule_error" where
  "locate_error context sp err =
     (case context of Some ctx \<Rightarrow> with_diagnostic err ctx sp | None \<Rightarrow> err)"

definition checked :: "expr \<Rightarrow> checked_type \<Rightarrow> checked_expr" where
  "checked e t = \<lparr>ce_expression = e, ce_type = t\<rparr>"

function check_expression ::
  "expression_context option \<Rightarrow> string \<Rightarrow> expr \<Rightarrow> type_map \<Rightarrow> type_map \<Rightarrow>
   (checked_expr, rule_error) result"
  and check_kind ::
  "expression_context option \<Rightarrow> string \<Rightarrow> expr_kind \<Rightarrow> type_map \<Rightarrow> type_map \<Rightarrow>
   (checked_type, rule_error) result"
  and check_items ::
  "expression_context option \<Rightarrow> string \<Rightarrow> rule_type \<Rightarrow> expr list \<Rightarrow> type_map \<Rightarrow> type_map \<Rightarrow>
   (unit, rule_error) result"
  and check_arguments ::
  "expression_context option \<Rightarrow> string \<Rightarrow> expr list \<Rightarrow> type_map \<Rightarrow> type_map \<Rightarrow>
   (checked_type list, rule_error) result" where
  "check_expression context rule_name (Expr sp kind) bindings declared =
     map_err (locate_error context sp)
       (res_map (checked (Expr sp kind)) (check_kind context rule_name kind bindings declared))"
| "check_kind context rule_name (Literal lit) bindings declared = check_literal rule_name lit"
| "check_kind context rule_name (Name name) bindings declared = check_name rule_name name bindings"
| "check_kind context rule_name (EnumSymbol enum_name symbol) bindings declared =
     check_enum_symbol rule_name enum_name symbol declared"
| "check_kind context rule_name (ListOf items) bindings declared =
     (case items of
        [] \<Rightarrow> Err (InvalidLiteral rule_name ''a non-empty typed list'')
      | first # rest \<Rightarrow>
          res_bind (check_expression context rule_name first bindings declared) (\<lambda>first.
            case ce_type first of
              NullType \<Rightarrow> Err (InvalidLiteral rule_name ''a non-null typed list item'')
            | Concrete item_type \<Rightarrow>
                res_map (\<lambda>_. Concrete (TList item_type))
                  (check_items context rule_name item_type rest bindings declared)))"
| "check_kind context rule_name (Member target field) bindings declared =
     res_bind (check_expression context rule_name target bindings declared) (\<lambda>target.
       check_member rule_name (ce_type target) field)"
| "check_kind context rule_name (Index target index) bindings declared =
     res_bind (check_expression context rule_name target bindings declared) (\<lambda>target.
       check_index rule_name (ce_type target))"
| "check_kind context rule_name (Call f arguments) bindings declared =
     res_bind (check_arguments context rule_name arguments bindings declared)
       (check_call_types rule_name f)"
| "check_kind context rule_name (Unary op operand) bindings declared =
     res_bind (check_expression context rule_name operand bindings declared) (\<lambda>operand.
     res_bind (required_concrete rule_name (ce_type operand)) (check_unary rule_name op))"
| "check_kind context rule_name (Binary op left right) bindings declared =
     res_bind (check_expression context rule_name left bindings declared) (\<lambda>left.
     res_bind (check_expression context rule_name right bindings declared) (\<lambda>right.
       if op = DivideOp \<and> literal_normalizes_to_zero (ce_expression right)
       then Err (DivisionByZero rule_name)
       else check_binary rule_name op (ce_type left) (ce_type right)))"
| "check_kind context rule_name (Conditional condition when_true when_false) bindings declared =
     res_bind (check_expression context rule_name condition bindings declared) (\<lambda>condition.
     res_bind (expect_bool rule_name (ce_type condition)) (\<lambda>_.
     res_bind (check_expression context rule_name when_true bindings declared) (\<lambda>when_true.
     res_bind (check_expression context rule_name when_false bindings declared) (\<lambda>when_false.
       merge_branch_types rule_name (ce_type when_true) (ce_type when_false)))))"
| "check_items context rule_name item_type [] bindings declared = Ok ()"
| "check_items context rule_name item_type (item # rest) bindings declared =
     res_bind (check_expression context rule_name item bindings declared) (\<lambda>item.
       if ce_type item \<noteq> Concrete item_type
       then Err (type_mismatch rule_name (display_name item_type) (checked_type_name (ce_type item)))
       else check_items context rule_name item_type rest bindings declared)"
| "check_arguments context rule_name [] bindings declared = Ok []"
| "check_arguments context rule_name (argument # rest) bindings declared =
     res_bind (check_expression context rule_name argument bindings declared) (\<lambda>argument.
     res_map (Cons (ce_type argument)) (check_arguments context rule_name rest bindings declared))"
  by pat_completeness auto
termination
  by (relation "measure (\<lambda>x. case x of
        Inl (Inl (_, _, e, _, _)) \<Rightarrow> size e
      | Inl (Inr (_, _, k, _, _)) \<Rightarrow> size k
      | Inr (Inl (_, _, _, es, _, _)) \<Rightarrow> size_list size es
      | Inr (Inr (_, _, es, _, _)) \<Rightarrow> size_list size es)") auto

end
