(* ===== verification/Rules_Diagnostics.thy ===== *)
theory Rules_Diagnostics
  imports Rules_Check
begin

text \<open>
  Diagnostics of the type checker: a source context adds the location of the innermost failing
  expression to an error and changes nothing else.
\<close>

section \<open>The cause of an error\<close>

definition same_cause :: "('a, rule_error) result \<Rightarrow> ('a, rule_error) result \<Rightarrow> bool" where
  "same_cause r r' \<longleftrightarrow> map_err root_cause r = map_err root_cause r'"

lemma same_cause_refl [simp]: "same_cause r r"
  by (simp add: same_cause_def)

lemma same_cause_bind:
  "same_cause r r' \<Longrightarrow> (\<And>x. r = Ok x \<Longrightarrow> r' = Ok x \<Longrightarrow> same_cause (f x) (g x)) \<Longrightarrow> same_cause (res_bind r f) (res_bind r' g)"
  by (cases r; cases r') (auto simp: same_cause_def)

lemma same_cause_map: "same_cause r r' \<Longrightarrow> same_cause (res_map f r) (res_map f r')"
  by (cases r; cases r') (auto simp: same_cause_def)

lemma same_cause_locate: "same_cause r r' \<Longrightarrow> same_cause (map_err (locate_error c sp) r) (map_err (locate_error c' sp) r')"
  by (cases r; cases r'; cases c; cases c') (auto simp: same_cause_def locate_error_def)

lemma check_same_cause:
  "same_cause (check_expression c rn e bindings declared) (check_expression None rn e bindings declared)"
  "same_cause (check_kind c rn k bindings declared) (check_kind None rn k bindings declared)"
  "same_cause (check_items c rn item_type es bindings declared) (check_items None rn item_type es bindings declared)"
  "same_cause (check_arguments c rn es bindings declared) (check_arguments None rn es bindings declared)"
proof (induction c rn e bindings declared and c rn k bindings declared
    and c rn item_type es bindings declared and c rn es bindings declared
    rule: check_expression_check_kind_check_items_check_arguments.induct)
  case (1 c rn sp kind bindings declared)
  then show ?case by (auto intro!: same_cause_locate same_cause_map)
next
  case (5 c rn items bindings declared)
  then show ?case by (auto intro!: same_cause_bind same_cause_map split: list.splits checked_type.splits)
next
  case (13 c rn item_type item rest bindings declared)
  then show ?case by (auto intro!: same_cause_bind)
qed (auto intro!: same_cause_bind same_cause_map)

section \<open>The place of an error\<close>

text \<open>The spans of an expression and of its subexpressions.\<close>

function spans :: "expr \<Rightarrow> span set" where
  "spans e = insert (expr_span e) (\<Union>(spans ` set (children e)))"
  by pat_completeness auto
termination
  by (relation "measure size") (auto simp: size_children)

declare spans.simps [simp del]

lemma spans_self [simp]: "expr_span e \<in> spans e"
  by (subst spans.simps) simp

lemma spans_child: "sp \<in> spans e' \<Longrightarrow> e' \<in> set (children e) \<Longrightarrow> sp \<in> spans e"
  by (subst spans.simps) blast

definition placed :: "expression_context \<Rightarrow> span set \<Rightarrow> rule_error \<Rightarrow> bool" where
  "placed ctx S err \<longleftrightarrow> (\<exists>d. diagnostic err = Some d \<and> diag_context d = ctx \<and> diag_span d \<in> S)"

text \<open>An error that is raised at the node itself, or placed at one of the subexpressions.\<close>

definition raised :: "expression_context \<Rightarrow> expr list \<Rightarrow> ('a, rule_error) result \<Rightarrow> bool" where
  "raised ctx es r \<longleftrightarrow> (\<forall>err. r = Err err \<longrightarrow> diagnostic err = None \<or> placed ctx (\<Union>(spans ` set es)) err)"

lemma raised_Ok [simp]: "raised ctx es (Ok x)"
  by (simp add: raised_def)

lemma raised_plain: "diagnostic err = None \<Longrightarrow> raised ctx es (Err err)"
  by (simp add: raised_def)

lemma raised_bind: "raised ctx es r \<Longrightarrow> (\<And>x. r = Ok x \<Longrightarrow> raised ctx es (f x)) \<Longrightarrow> raised ctx es (res_bind r f)"
  by (cases r) (auto simp: raised_def)

lemma raised_map: "raised ctx es r \<Longrightarrow> raised ctx es (res_map f r)"
  by (cases r) (auto simp: raised_def)

lemma raised_ok_or: "diagnostic err = None \<Longrightarrow> raised ctx es (ok_or err x)"
  by (cases x) (auto simp: raised_def)

lemma raised_mono: "raised ctx es r \<Longrightarrow> set es \<subseteq> set es' \<Longrightarrow> raised ctx es' r"
  by (fastforce simp: raised_def placed_def)

lemma type_mismatch_plain [simp]: "diagnostic (type_mismatch a b c) = None"
  by (simp add: type_mismatch_def)

lemma raised_concrete: "raised ctx es (required_concrete rn t)"
  by (cases t) (auto simp: raised_plain)

lemma raised_bool: "raised ctx es (expect_bool rn t)"
  unfolding expect_bool_def by (rule raised_bind[OF raised_concrete]) (simp add: raised_plain)

lemma raised_equality: "raised ctx es (check_equality rn l r)"
  by (simp add: check_equality_def raised_plain split: checked_type.splits)

lemma raised_ordering: "raised ctx es (check_ordering rn l r)"
  unfolding check_ordering_def by (intro raised_bind[OF raised_concrete]) (simp add: raised_plain)

lemma raised_arithmetic: "raised ctx es (check_arithmetic rn l r)"
  unfolding check_arithmetic_def by (intro raised_bind[OF raised_concrete]) (simp add: raised_plain)

lemma raised_binary: "raised ctx es (check_binary rn op l r)"
  by (cases op) (auto simp: check_binary.simps raised_ordering raised_arithmetic
      intro!: raised_bind[OF raised_bool] raised_bind[OF raised_equality])

lemma raised_merge: "raised ctx es (merge_branch_types rn l r)"
  by (simp add: merge_branch_types_def raised_plain split: checked_type.splits)

lemma raised_literal: "raised ctx es (check_literal rn lit)"
  by (cases lit) (auto simp: raised_plain raised_ok_or)

lemma raised_enum: "raised ctx es (check_enum_symbol rn n s declared)"
  by (simp add: check_enum_symbol_def raised_plain split: option.splits rule_type.splits)

lemma raised_member: "raised ctx es (check_member rn t field)"
  unfolding check_member_def
  by (rule raised_bind[OF raised_concrete]) (auto simp: raised_plain intro!: raised_map raised_ok_or split: rule_type.splits)

lemma raised_index: "raised ctx es (check_index rn t)"
  unfolding check_index_def
  by (rule raised_bind[OF raised_concrete]) (auto simp: raised_plain split: rule_type.splits)

lemma raised_unary: "raised ctx es (check_unary rn op t)"
  by (simp add: check_unary_def raised_plain split: unary_op.splits)

lemma raised_strings: "raised ctx es (expect_strings rn ts)"
  by (induction ts) (auto intro!: raised_bind[OF raised_concrete] simp: raised_plain)

lemma raised_call: "raised ctx es (check_call_types rn f ts)"
proof (cases f)
  case Size
  then show ?thesis
    by (auto simp: check_call_types_def check_size_def raised_plain intro!: raised_bind[OF raised_concrete]
        split: list.splits rule_type.splits)
next
  case IsNull
  then show ?thesis
    by (auto simp: check_call_types_def check_is_null_def raised_plain split: list.splits checked_type.splits)
qed (auto simp: check_call_types_def check_string_test_def raised_plain intro!: raised_bind[OF raised_strings])

lemma placed_raised: "(\<And>err. r = Err err \<Longrightarrow> placed ctx (spans e) err) \<Longrightarrow> e \<in> set es \<Longrightarrow> raised ctx es r"
  by (fastforce simp: raised_def placed_def)

lemma raised_child:
  "(\<And>err. r = Err err \<Longrightarrow> placed ctx (spans e) err) \<Longrightarrow> e \<in> set es \<Longrightarrow> (\<And>x. r = Ok x \<Longrightarrow> raised ctx es (f x)) \<Longrightarrow>
   raised ctx es (res_bind r f)"
  by (rule raised_bind[OF placed_raised])

lemma raised_name: "raised ctx es (check_name rn n bindings)"
  by (simp add: check_name_def raised_map raised_ok_or)

lemmas raised_rules = raised_literal raised_name raised_enum raised_member raised_index raised_unary raised_binary raised_merge
  raised_call raised_concrete raised_bool raised_ok_or

lemma check_placed:
  "check_expression (Some ctx) rn e bindings declared = Err err \<Longrightarrow> placed ctx (spans e) err"
  "raised ctx (children (Expr sp k)) (check_kind (Some ctx) rn k bindings declared)"
  "raised ctx es (check_items (Some ctx) rn item_type es bindings declared)"
  "raised ctx es (check_arguments (Some ctx) rn es bindings declared)"
proof (induction "Some ctx" rn e bindings declared and "Some ctx" rn k bindings declared
    and "Some ctx" rn item_type es bindings declared and "Some ctx" rn es bindings declared
    arbitrary: err and sp
    rule: check_expression_check_kind_check_items_check_arguments.induct)
  case (1 rn sp kind bindings declared)
  then obtain e0 where e0: "check_kind (Some ctx) rn kind bindings declared = Err e0" "err = with_diagnostic e0 ctx sp"
    by (auto simp: locate_error_def)
  have "diagnostic e0 = None \<or> placed ctx (\<Union>(spans ` set (children (Expr sp kind)))) e0"
    using "1.hyps"[of sp] e0(1) by (auto simp: raised_def)
  then show ?case
  proof
    assume "diagnostic e0 = None"
    then show ?thesis using spans_self[of "Expr sp kind"] by (auto simp: placed_def e0(2) with_diagnostic_def Let_def)
  next
    assume "placed ctx (\<Union>(spans ` set (children (Expr sp kind)))) e0"
    then show ?thesis using spans_child[of _ _ "Expr sp kind"] by (fastforce simp: placed_def e0(2) with_diagnostic_def)
  qed
next
  case (5 rn items bindings declared)
  show ?case
  proof (cases items)
    case (Cons first rest)
    show ?thesis unfolding check_kind.simps Cons list.case
    proof (rule raised_child[where e = first])
      fix first'
      assume "check_expression (Some ctx) rn first bindings declared = Ok first'"
      then show "raised ctx (children (Expr sp (ListOf (first # rest))))
          (case ce_type first' of
             NullType \<Rightarrow> Err (InvalidLiteral rn ''a non-null typed list item'')
           | Concrete item_type \<Rightarrow>
               res_map (\<lambda>_. Concrete (TList item_type)) (check_items (Some ctx) rn item_type rest bindings declared))"
        using 5(2)[OF Cons] raised_mono[of ctx rest _ "first # rest"]
        by (cases "ce_type first'") (auto simp: raised_plain intro!: raised_map)
    qed (use 5(1)[OF Cons] in auto)
  qed (simp add: raised_plain)
next
  case (6 rn target field bindings declared)
  then show ?case by (auto intro!: raised_child[where e = target] raised_rules)
next
  case (7 rn target index bindings declared)
  then show ?case by (auto intro!: raised_child[where e = target] raised_rules)
next
  case (8 rn f arguments bindings declared)
  then show ?case by (auto intro!: raised_bind raised_call)
next
  case (9 rn op operand bindings declared)
  then show ?case by (auto intro!: raised_child[where e = operand] raised_bind[OF raised_concrete] raised_rules)
next
  case (10 rn op left right bindings declared)
  show ?case unfolding check_kind.simps
    by (rule raised_child[where e = left], use 10 in blast, simp, rule raised_child[where e = right], use 10 in blast, simp)
       (auto intro!: raised_binary raised_plain)
next
  case (11 rn condition when_true when_false bindings declared)
  show ?case unfolding check_kind.simps
    by (rule raised_child[where e = condition], use 11 in blast, simp, rule raised_bind[OF raised_bool],
        rule raised_child[where e = when_true], use 11 in blast, simp,
        rule raised_child[where e = when_false], use 11 in blast, simp, rule raised_merge)
next
  case (13 rn item_type item rest bindings declared)
  then show ?case
    by (auto intro!: raised_child[where e = item] raised_plain elim!: raised_mono)
next
  case (15 rn argument rest bindings declared)
  then show ?case
    by (auto intro!: raised_child[where e = argument] raised_map elim!: raised_mono)
qed (auto intro!: raised_rules)

section \<open>Properties\<close>

text \<open>
  A source context changes neither what the checker accepts nor why it rejects: with a context
  an accepted expression has the same checked form as without one, and a rejected one has the same
  cause below the diagnostic. The diagnostic is always there, names the given context and points at
  the expression itself or at one of its subexpressions.
\<close>

theorem diagnostics_keep_the_cause:
  "case check_expression (Some ctx) rn e bindings declared of
     Ok c \<Rightarrow> check_expression None rn e bindings declared = Ok c
   | Err err \<Rightarrow>
       (\<exists>d. diagnostic err = Some d \<and> diag_context d = ctx \<and> diag_span d \<in> spans e) \<and>
       (\<exists>plain. check_expression None rn e bindings declared = Err plain \<and> root_cause err = root_cause plain)"
proof (cases "check_expression (Some ctx) rn e bindings declared")
  case (Ok c)
  then show ?thesis using check_same_cause(1)[of "Some ctx" rn e bindings declared]
    by (cases "check_expression None rn e bindings declared") (auto simp: same_cause_def)
next
  case (Err err)
  then show ?thesis
    using check_same_cause(1)[of "Some ctx" rn e bindings declared] check_placed(1)[OF Err]
    by (cases "check_expression None rn e bindings declared") (auto simp: same_cause_def placed_def)
qed

end
