(* ===== verification/Rules_Eval.thy ===== *)
theory Rules_Eval
  imports Rules_Check Rules_Time
begin

text \<open>
  Evaluation of rule expressions (\<open>crates/rules/src/eval.rs\<close>): runtime values, decoding of JSON
  bindings against their declared types, the evaluator and the canonical JSON of a result. Integers
  are kept in range by the checked operations of the prelude; every error of the source is an \<open>Err\<close>.
\<close>

section \<open>Runtime values\<close>

datatype runtime_value =
    VNull
  | VBool bool
  | VStr string
  | VInt int
  | VInt64 int
  | VDec decimal
  | VUuid string
  | VDate string
  | VTimestamp string
  | VEnum string string
  | VList "runtime_value list"
  | VObject "(string \<times> runtime_value) list"
  | VOpaque json

type_synonym eval_context = "runtime_value btree_map"

fun type_name :: "runtime_value \<Rightarrow> string" where
  "type_name VNull = ''null''"
| "type_name (VBool _) = ''bool''"
| "type_name (VStr _) = ''string''"
| "type_name (VInt _) = ''int''"
| "type_name (VInt64 _) = ''bigint''"
| "type_name (VDec _) = ''decimal''"
| "type_name (VUuid _) = ''uuid''"
| "type_name (VDate _) = ''date''"
| "type_name (VTimestamp _) = ''timestamp''"
| "type_name (VEnum _ _) = ''enum''"
| "type_name (VList _) = ''list''"
| "type_name (VObject _) = ''object''"
| "type_name (VOpaque _) = ''opaque JSON''"

text \<open>The derived equality; only opaque JSON is compared by the equality of JSON values.\<close>

function (sequential) rv_eq :: "runtime_value \<Rightarrow> runtime_value \<Rightarrow> bool" where
  "rv_eq (VList xs) y \<longleftrightarrow>
     (case y of
        VList ys \<Rightarrow> length xs = length ys \<and> list_all (\<lambda>(a, b). rv_eq a b) (zip xs ys)
      | _ \<Rightarrow> False)"
| "rv_eq (VObject fs) y \<longleftrightarrow>
     (case y of
        VObject gs \<Rightarrow>
          map fst fs = map fst gs \<and> list_all (\<lambda>((_, a), (_, b)). rv_eq a b) (zip fs gs)
      | _ \<Rightarrow> False)"
| "rv_eq (VOpaque a) y \<longleftrightarrow> (case y of VOpaque b \<Rightarrow> json_eq a b | _ \<Rightarrow> False)"
| "rv_eq x y \<longleftrightarrow> x = y"
  by pat_completeness auto
termination
proof (relation "measure (\<lambda>(x, y). size x)", goal_cases)
  case (2 xs y ys p a b)
  then have "a \<in> set xs" by (auto dest: set_zip_leftD)
  then show ?case using size_list_estimation'[of a xs "size a" size] by simp
next
  case (3 fs y gs p q r k a c b)
  then have "(k, a) \<in> set fs" by (auto dest: set_zip_leftD)
  then show ?case
    using size_list_estimation'[of "(k, a)" fs "size a" "size_prod (\<lambda>_. 0) size"] by simp
qed simp

section \<open>Decoding\<close>

text \<open>
  The iteration over the declared fields is in key order, so collecting the decoded fields into a
  \<open>BTreeMap\<close> keeps their order.
\<close>

fun decode_value :: "externs \<Rightarrow> json \<Rightarrow> rule_type \<Rightarrow> runtime_value option" where
  "decode_value ext v (TNullable inner) = (if is_null v then Some VNull else decode_value ext v inner)"
| "decode_value ext v TBool = map_option VBool (as_bool v)"
| "decode_value ext v TStr = map_option VStr (as_str v)"
| "decode_value ext v TInt =
     map_option VInt (Option.bind (as_number v) (parse_signed i32_min i32_max))"
| "decode_value ext v TInt64 =
     map_option VInt64 (Option.bind (as_number v) (parse_signed i64_min i64_max))"
| "decode_value ext v TDec = map_option VDec (Option.bind (as_number v) decimal_parse)"
| "decode_value ext v TUuid =
     (case as_str v of
        Some s \<Rightarrow> if is_uuid s then Some (VUuid (map to_ascii_lowercase s)) else None
      | None \<Rightarrow> None)"
| "decode_value ext v TDate =
     (case as_str v of Some s \<Rightarrow> if is_canonical_date s then Some (VDate s) else None | None \<Rightarrow> None)"
| "decode_value ext v TTimestamp =
     (case as_str v of
        Some s \<Rightarrow> if is_canonical_timestamp s then map_option VTimestamp (canonical_timestamp_utc s)
                  else None
      | None \<Rightarrow> None)"
| "decode_value ext v (TEnum name symbols) =
     (case as_str v of
        Some s \<Rightarrow> if list_ex (\<lambda>symbol. symbol = s) symbols then Some (VEnum name s) else None
      | None \<Rightarrow> None)"
| "decode_value ext v (TList item_type) =
     (case as_array v of
        Some items \<Rightarrow> map_option VList (collect_opt (\<lambda>item. decode_value ext item item_type) items)
      | None \<Rightarrow> None)"
| "decode_value ext v (TObject _ fs) =
     (case as_object v of
        Some object \<Rightarrow>
          map_option VObject
            (collect_opt (\<lambda>(field, t).
               map_option (Pair field)
                 (case map_of object field of Some v' \<Rightarrow> decode_value ext v' t | None \<Rightarrow> Some VNull)) fs)
      | None \<Rightarrow> None)"
| "decode_value ext v (TOpaque _ maximum_bytes maximum_depth maximum_nodes) =
     (if opaque_json_within_bounds ext v maximum_bytes maximum_depth maximum_nodes
      then Some (VOpaque v) else None)"

text \<open>The three passes over the declared and the supplied names.\<close>

fun first_missing :: "('a \<times> 'b) list \<Rightarrow> 'a list \<Rightarrow> 'a option" where
  "first_missing m [] = None"
| "first_missing m (k # ks) = (if bt_contains m k then first_missing m ks else Some k)"

fun decode_entries ::
  "externs \<Rightarrow> type_map \<Rightarrow> bindings \<Rightarrow> (eval_context, rule_error) result" where
  "decode_entries ext [] bindings = Ok []"
| "decode_entries ext ((name, t) # declared) bindings =
     res_bind (ok_or (MissingBinding name) (bt_get bindings name)) (\<lambda>v.
     res_bind (ok_or (InvalidBinding name (display_name t)) (decode_value ext v t)) (\<lambda>v'.
     res_map (Cons (name, v')) (decode_entries ext declared bindings)))"

definition decode_bindings ::
  "externs \<Rightarrow> type_map \<Rightarrow> bindings \<Rightarrow> (eval_context, rule_error) result" where
  "decode_bindings ext declared bindings =
     (case first_missing bindings (bt_keys declared) of
        Some name \<Rightarrow> Err (MissingBinding name)
      | None \<Rightarrow>
          (case first_missing declared (bt_keys bindings) of
             Some name \<Rightarrow> Err (UnexpectedBinding name)
           | None \<Rightarrow> decode_entries ext declared bindings))"

section \<open>Operators\<close>

definition arithmetic_overflow :: "string \<Rightarrow> rule_error" where
  "arithmetic_overflow rule_name = InvalidLiteral rule_name ''an arithmetic result in range''"

fun evaluate_literal :: "string \<Rightarrow> literal \<Rightarrow> (runtime_value, rule_error) result" where
  "evaluate_literal rule_name LNull = Ok VNull"
| "evaluate_literal rule_name (LBool b) = Ok (VBool b)"
| "evaluate_literal rule_name (LString s) = Ok (VStr s)"
| "evaluate_literal rule_name (LInt v) =
     (case parse_signed i32_min i32_max v of
        Some i \<Rightarrow> Ok (VInt i)
      | None \<Rightarrow>
          (case parse_signed i64_min i64_max v of
             Some i \<Rightarrow> Ok (VInt64 i)
           | None \<Rightarrow> Err (InvalidLiteral rule_name ''int or bigint'')))"
| "evaluate_literal rule_name (LDecimal v) =
     ok_or (InvalidLiteral rule_name ''decimal'') (map_option VDec (decimal_parse v))"

text \<open>Integer arithmetic at the width given by the range check: \<open>Add\<close> to \<open>Divide\<close>.\<close>

definition checked_arithmetic ::
  "(int \<Rightarrow> int option) \<Rightarrow> string \<Rightarrow> binary_op \<Rightarrow> int \<Rightarrow> int \<Rightarrow> (int, rule_error) result" where
  "checked_arithmetic bounds rule_name operation left right =
     (case operation of
        AddOp \<Rightarrow> ok_or (arithmetic_overflow rule_name) (bounds (left + right))
      | SubtractOp \<Rightarrow> ok_or (arithmetic_overflow rule_name) (bounds (left - right))
      | MultiplyOp \<Rightarrow> ok_or (arithmetic_overflow rule_name) (bounds (left * right))
      | DivideOp \<Rightarrow>
          if right = 0 then Err (DivisionByZero rule_name)
          else ok_or (arithmetic_overflow rule_name) (bounds (trunc_div left right))
      | _ \<Rightarrow> Err (InternalInvariant rule_name))"

abbreviation checked_i64_arithmetic ::
  "string \<Rightarrow> binary_op \<Rightarrow> int \<Rightarrow> int \<Rightarrow> (int, rule_error) result" where
  "checked_i64_arithmetic \<equiv> checked_arithmetic i64"

definition decimal_arithmetic ::
  "string \<Rightarrow> binary_op \<Rightarrow> decimal \<Rightarrow> decimal \<Rightarrow> (decimal, rule_error) result" where
  "decimal_arithmetic rule_name operation left right =
     (if operation = DivideOp \<and> decimal_is_zero right then Err (DivisionByZero rule_name)
      else case operation of
             AddOp \<Rightarrow> ok_or (arithmetic_overflow rule_name) (decimal_add left right)
           | SubtractOp \<Rightarrow> ok_or (arithmetic_overflow rule_name) (decimal_sub left right)
           | MultiplyOp \<Rightarrow> ok_or (arithmetic_overflow rule_name) (decimal_mul left right)
           | DivideOp \<Rightarrow> ok_or (arithmetic_overflow rule_name) (decimal_div left right)
           | _ \<Rightarrow> Err (InternalInvariant rule_name))"

text \<open>The operands' names in a mismatch report.\<close>

definition operand_names :: "runtime_value \<Rightarrow> runtime_value \<Rightarrow> string" where
  "operand_names l r = type_name l @ '' and '' @ type_name r"

definition arithmetic_values ::
  "string \<Rightarrow> binary_op \<Rightarrow> runtime_value \<Rightarrow> runtime_value \<Rightarrow> (runtime_value, rule_error) result" where
  "arithmetic_values rule_name operation left right =
     (let mismatch = Err (type_mismatch rule_name ''matching numeric operands'' (operand_names left right)) in
      case left of
        VInt l \<Rightarrow>
          (case right of
             VInt r \<Rightarrow> res_map VInt (checked_arithmetic i32 rule_name operation l r)
           | VInt64 r \<Rightarrow> res_map VInt64 (checked_i64_arithmetic rule_name operation l r)
           | _ \<Rightarrow> mismatch)
      | VInt64 l \<Rightarrow>
          (case right of
             VInt64 r \<Rightarrow> res_map VInt64 (checked_i64_arithmetic rule_name operation l r)
           | VInt r \<Rightarrow> res_map VInt64 (checked_i64_arithmetic rule_name operation l r)
           | _ \<Rightarrow> mismatch)
      | VDec l \<Rightarrow>
          (case right of
             VDec r \<Rightarrow> res_map VDec (decimal_arithmetic rule_name operation l r)
           | _ \<Rightarrow> mismatch)
      | _ \<Rightarrow> mismatch)"

definition values_equal :: "runtime_value \<Rightarrow> runtime_value \<Rightarrow> bool" where
  "values_equal left right =
     (case left of
        VInt l \<Rightarrow> (case right of VInt64 r \<Rightarrow> l = r | _ \<Rightarrow> rv_eq left right)
      | VInt64 l \<Rightarrow> (case right of VInt r \<Rightarrow> l = r | _ \<Rightarrow> rv_eq left right)
      | _ \<Rightarrow> rv_eq left right)"

definition compare_values ::
  "string \<Rightarrow> runtime_value \<Rightarrow> runtime_value \<Rightarrow> (ordering, rule_error) result" where
  "compare_values rule_name left right =
     (let mismatch = Err (type_mismatch rule_name ''matching numeric or timestamp operands''
                            (operand_names left right)) in
      case left of
        VInt l \<Rightarrow> (case right of VInt r \<Rightarrow> Ok (cmp l r) | VInt64 r \<Rightarrow> Ok (cmp l r) | _ \<Rightarrow> mismatch)
      | VInt64 l \<Rightarrow> (case right of VInt64 r \<Rightarrow> Ok (cmp l r) | VInt r \<Rightarrow> Ok (cmp l r) | _ \<Rightarrow> mismatch)
      | VDec l \<Rightarrow> (case right of VDec r \<Rightarrow> Ok (decimal_cmp l r) | _ \<Rightarrow> mismatch)
      | VTimestamp l \<Rightarrow>
          (case right of
             VTimestamp r \<Rightarrow>
               ok_or (InternalInvariant rule_name) (compare_canonical_timestamps l r)
           | _ \<Rightarrow> mismatch)
      | _ \<Rightarrow> mismatch)"

definition evaluate_binary ::
  "string \<Rightarrow> binary_op \<Rightarrow> runtime_value \<Rightarrow> runtime_value \<Rightarrow> (runtime_value, rule_error) result" where
  "evaluate_binary rule_name operation left right =
     (case operation of
        EqualOp \<Rightarrow> Ok (VBool (values_equal left right))
      | NotEqualOp \<Rightarrow> Ok (VBool (\<not> values_equal left right))
      | LessThanOp \<Rightarrow> res_map (\<lambda>c. VBool (is_lt c)) (compare_values rule_name left right)
      | LessThanOrEqualOp \<Rightarrow> res_map (\<lambda>c. VBool (is_le c)) (compare_values rule_name left right)
      | GreaterThanOp \<Rightarrow> res_map (\<lambda>c. VBool (is_gt c)) (compare_values rule_name left right)
      | GreaterThanOrEqualOp \<Rightarrow> res_map (\<lambda>c. VBool (is_ge c)) (compare_values rule_name left right)
      | AddOp \<Rightarrow> arithmetic_values rule_name operation left right
      | SubtractOp \<Rightarrow> arithmetic_values rule_name operation left right
      | MultiplyOp \<Rightarrow> arithmetic_values rule_name operation left right
      | DivideOp \<Rightarrow> arithmetic_values rule_name operation left right
      | AndOp \<Rightarrow> Err (InternalInvariant rule_name)
      | OrOp \<Rightarrow> Err (InternalInvariant rule_name))"

definition evaluate_unary ::
  "string \<Rightarrow> unary_op \<Rightarrow> runtime_value \<Rightarrow> (runtime_value, rule_error) result" where
  "evaluate_unary rule_name op operand =
     (case op of
        NotOp \<Rightarrow>
          (case operand of
             VBool b \<Rightarrow> Ok (VBool (\<not> b))
           | other \<Rightarrow> Err (type_mismatch rule_name ''bool'' (type_name other)))
      | NegateOp \<Rightarrow>
          (case operand of
             VInt i \<Rightarrow> ok_or (arithmetic_overflow rule_name) (map_option VInt (i32 (- i)))
           | VInt64 i \<Rightarrow> ok_or (arithmetic_overflow rule_name) (map_option VInt64 (i64 (- i)))
           | VDec d \<Rightarrow> ok_or (arithmetic_overflow rule_name) (map_option VDec (decimal_neg d))
           | other \<Rightarrow> Err (type_mismatch rule_name ''int or decimal'' (type_name other))))"

definition member_value :: "string \<Rightarrow> string \<Rightarrow> runtime_value \<Rightarrow> (runtime_value, rule_error) result" where
  "member_value rule_name field target =
     (case target of
        VObject fs \<Rightarrow> Ok (case bt_get fs field of Some v \<Rightarrow> v | None \<Rightarrow> VNull)
      | other \<Rightarrow> Err (type_mismatch rule_name ''object'' (type_name other)))"

definition index_value :: "string \<Rightarrow> nat \<Rightarrow> runtime_value \<Rightarrow> (runtime_value, rule_error) result" where
  "index_value rule_name index target =
     (case target of
        VList items \<Rightarrow> Ok (if index < length items then items ! index else VNull)
      | other \<Rightarrow> Err (type_mismatch rule_name ''list'' (type_name other)))"

definition size_value :: "string \<Rightarrow> runtime_value \<Rightarrow> (runtime_value, rule_error) result" where
  "size_value rule_name v =
     (case v of
        VStr s \<Rightarrow> ok_or (arithmetic_overflow rule_name) (map_option VInt (i32 (int (chars_count s))))
      | VList vs \<Rightarrow> ok_or (arithmetic_overflow rule_name) (map_option VInt (i32 (int (length vs))))
      | other \<Rightarrow> Err (type_mismatch rule_name ''string or list'' (type_name other)))"

definition starts_with :: "string \<Rightarrow> string \<Rightarrow> bool" where
  "starts_with s prefix \<longleftrightarrow> take (length prefix) s = prefix"

definition ends_with :: "string \<Rightarrow> string \<Rightarrow> bool" where
  "ends_with s suffix \<longleftrightarrow> length suffix \<le> length s \<and> drop (length s - length suffix) s = suffix"

definition string_test ::
  "string \<Rightarrow> (string \<Rightarrow> string \<Rightarrow> bool) \<Rightarrow> runtime_value \<Rightarrow> runtime_value \<Rightarrow>
   (runtime_value, rule_error) result" where
  "string_test rule_name test left right =
     (case (left, right) of
        (VStr l, VStr r) \<Rightarrow> Ok (VBool (test l r))
      | _ \<Rightarrow> Err (type_mismatch rule_name ''string'' ''non-string''))"

definition bool_operand :: "string \<Rightarrow> runtime_value \<Rightarrow> (bool, rule_error) result" where
  "bool_operand rule_name v =
     (case v of VBool b \<Rightarrow> Ok b | _ \<Rightarrow> Err (type_mismatch rule_name ''bool'' ''non-bool''))"

section \<open>Expressions\<close>

function evaluate_expression :: "string \<Rightarrow> expr \<Rightarrow> eval_context \<Rightarrow> (runtime_value, rule_error) result"
  and evaluate_items :: "string \<Rightarrow> expr list \<Rightarrow> eval_context \<Rightarrow> (runtime_value list, rule_error) result"
  and evaluate_call ::
    "string \<Rightarrow> rule_function \<Rightarrow> expr list \<Rightarrow> eval_context \<Rightarrow> (runtime_value, rule_error) result" where
  "evaluate_expression rule_name (Expr _ (Literal lit)) ctx = evaluate_literal rule_name lit"
| "evaluate_expression rule_name (Expr _ (Name name)) ctx =
     ok_or (MissingBinding name) (bt_get ctx name)"
| "evaluate_expression rule_name (Expr _ (EnumSymbol enum_name symbol)) ctx = Ok (VEnum enum_name symbol)"
| "evaluate_expression rule_name (Expr _ (ListOf items)) ctx =
     res_map VList (evaluate_items rule_name items ctx)"
| "evaluate_expression rule_name (Expr _ (Member target field)) ctx =
     res_bind (evaluate_expression rule_name target ctx) (member_value rule_name field)"
| "evaluate_expression rule_name (Expr _ (Index target index)) ctx =
     res_bind (evaluate_expression rule_name target ctx) (index_value rule_name index)"
| "evaluate_expression rule_name (Expr _ (Call f arguments)) ctx =
     evaluate_call rule_name f arguments ctx"
| "evaluate_expression rule_name (Expr _ (Unary op operand)) ctx =
     res_bind (evaluate_expression rule_name operand ctx) (evaluate_unary rule_name op)"
| "evaluate_expression rule_name (Expr _ (Binary op left right)) ctx =
     (if op = AndOp
      then res_bind (evaluate_expression rule_name left ctx) (\<lambda>l.
           res_bind (bool_operand rule_name l) (\<lambda>l.
             if \<not> l then Ok (VBool False)
             else res_bind (evaluate_expression rule_name right ctx) (\<lambda>r.
                  res_bind (bool_operand rule_name r) (\<lambda>r. Ok (VBool r)))))
      else if op = OrOp
      then res_bind (evaluate_expression rule_name left ctx) (\<lambda>l.
           res_bind (bool_operand rule_name l) (\<lambda>l.
             if l then Ok (VBool True)
             else res_bind (evaluate_expression rule_name right ctx) (\<lambda>r.
                  res_bind (bool_operand rule_name r) (\<lambda>r. Ok (VBool r)))))
      else res_bind (evaluate_expression rule_name left ctx) (\<lambda>l.
           res_bind (evaluate_expression rule_name right ctx) (\<lambda>r.
             evaluate_binary rule_name op l r)))"
| "evaluate_expression rule_name (Expr _ (Conditional condition when_true when_false)) ctx =
     res_bind (evaluate_expression rule_name condition ctx) (\<lambda>c.
       case c of
         VBool True \<Rightarrow> evaluate_expression rule_name when_true ctx
       | VBool False \<Rightarrow> evaluate_expression rule_name when_false ctx
       | other \<Rightarrow> Err (type_mismatch rule_name ''bool'' (type_name other)))"
| "evaluate_items rule_name [] ctx = Ok []"
| "evaluate_items rule_name (item # items) ctx =
     res_bind (evaluate_expression rule_name item ctx) (\<lambda>v.
     res_map (Cons v) (evaluate_items rule_name items ctx))"
| "evaluate_call rule_name f [] ctx = Err (InternalInvariant rule_name)"
| "evaluate_call rule_name f (first # rest) ctx =
     (case f of
        Size \<Rightarrow> res_bind (evaluate_expression rule_name first ctx) (size_value rule_name)
      | IsNull \<Rightarrow> res_map (\<lambda>v. VBool (v = VNull)) (evaluate_expression rule_name first ctx)
      | StartsWith \<Rightarrow>
          res_bind (evaluate_expression rule_name first ctx) (\<lambda>l.
            case rest of
              [] \<Rightarrow> Err (InternalInvariant rule_name)
            | second # _ \<Rightarrow>
                res_bind (evaluate_expression rule_name second ctx) (string_test rule_name starts_with l))
      | EndsWith \<Rightarrow>
          res_bind (evaluate_expression rule_name first ctx) (\<lambda>l.
            case rest of
              [] \<Rightarrow> Err (InternalInvariant rule_name)
            | second # _ \<Rightarrow>
                res_bind (evaluate_expression rule_name second ctx) (string_test rule_name ends_with l)))"
  by pat_completeness auto
termination
  by (relation "measure (\<lambda>x. case x of
        Inl (_, e, _) \<Rightarrow> size e
      | Inr (Inl (_, es, _)) \<Rightarrow> size_list size es
      | Inr (Inr (_, _, es, _)) \<Rightarrow> size_list size es)") auto

section \<open>Canonical JSON\<close>

definition enum_json :: "string \<Rightarrow> string \<Rightarrow> string \<Rightarrow> string \<Rightarrow> string list \<Rightarrow> (json, rule_error) result" where
  "enum_json rule_name enum_name symbol name symbols =
     (if enum_name = name \<and> list_ex (\<lambda>candidate. candidate = symbol) symbols
      then Ok (JString symbol) else Err (InternalInvariant rule_name))"

fun canonical_json :: "externs \<Rightarrow> string \<Rightarrow> runtime_value \<Rightarrow> rule_type \<Rightarrow> (json, rule_error) result" where
  "canonical_json ext rule_name v (TNullable inner) =
     (if v = VNull then Ok JNull else canonical_json ext rule_name v inner)"
| "canonical_json ext rule_name v TBool =
     (case v of VBool b \<Rightarrow> Ok (JBool b) | _ \<Rightarrow> Err (InternalInvariant rule_name))"
| "canonical_json ext rule_name v TStr =
     (case v of VStr s \<Rightarrow> Ok (JString s) | _ \<Rightarrow> Err (InternalInvariant rule_name))"
| "canonical_json ext rule_name v TInt =
     (case v of VInt i \<Rightarrow> Ok (JNumber (int_to_string i)) | _ \<Rightarrow> Err (InternalInvariant rule_name))"
| "canonical_json ext rule_name v TInt64 =
     (case v of
        VInt64 i \<Rightarrow> Ok (JNumber (int_to_string i))
      | VInt i \<Rightarrow> Ok (JNumber (int_to_string i))
      | _ \<Rightarrow> Err (InternalInvariant rule_name))"
| "canonical_json ext rule_name v TDec =
     (case v of
        VDec d \<Rightarrow> ok_or (InternalInvariant rule_name) (from_str ext (canonical_string d))
      | _ \<Rightarrow> Err (InternalInvariant rule_name))"
| "canonical_json ext rule_name v TUuid =
     (case v of VUuid s \<Rightarrow> Ok (JString s) | _ \<Rightarrow> Err (InternalInvariant rule_name))"
| "canonical_json ext rule_name v TDate =
     (case v of VDate s \<Rightarrow> Ok (JString s) | _ \<Rightarrow> Err (InternalInvariant rule_name))"
| "canonical_json ext rule_name v TTimestamp =
     (case v of VTimestamp s \<Rightarrow> Ok (JString s) | _ \<Rightarrow> Err (InternalInvariant rule_name))"
| "canonical_json ext rule_name v (TEnum name symbols) =
     (case v of
        VEnum enum_name symbol \<Rightarrow> enum_json rule_name enum_name symbol name symbols
      | _ \<Rightarrow> Err (InternalInvariant rule_name))"
| "canonical_json ext rule_name v (TList item_type) =
     (case v of
        VList vs \<Rightarrow> res_map JArray (collect_res (\<lambda>x. canonical_json ext rule_name x item_type) vs)
      | _ \<Rightarrow> Err (InternalInvariant rule_name))"
| "canonical_json ext rule_name v (TObject _ fs) =
     (case v of
        VObject vs \<Rightarrow>
          res_map JObject
            (collect_res (\<lambda>(field, t).
               res_map (Pair field)
                 (res_bind (ok_or (InternalInvariant rule_name) (bt_get vs field)) (\<lambda>x.
                    if x = VNull \<and> \<not> accepts_null t
                    then Err (InvalidRuleResult rule_name (display_name t) ''null'')
                    else canonical_json ext rule_name x t))) fs)
      | _ \<Rightarrow> Err (InternalInvariant rule_name))"
| "canonical_json ext rule_name v (TOpaque _ _ _ _) =
     (case v of VOpaque j \<Rightarrow> Ok j | _ \<Rightarrow> Err (InternalInvariant rule_name))"

section \<open>Entry points\<close>

record evaluated_runtime_value =
  erv_type :: rule_type
  erv_value :: runtime_value

definition evaluate_runtime_value ::
  "externs \<Rightarrow> compiled_rule \<Rightarrow> bindings \<Rightarrow> (evaluated_runtime_value, rule_error) result" where
  "evaluate_runtime_value ext rule bindings =
     res_bind (decode_bindings ext (cr_bindings rule) bindings) (\<lambda>ctx.
     res_map (\<lambda>v. \<lparr>erv_type = cr_result rule, erv_value = v\<rparr>)
       (evaluate_expression (cr_name rule) (ce_expression (cr_expression rule)) ctx))"

definition evaluate_value ::
  "externs \<Rightarrow> compiled_rule \<Rightarrow> bindings \<Rightarrow> (evaluated_rule_value, rule_error) result" where
  "evaluate_value ext rule bindings =
     res_bind (evaluate_runtime_value ext rule bindings) (\<lambda>v.
     res_map (\<lambda>j. \<lparr>ev_type = erv_type v, ev_value = j\<rparr>)
       (canonical_json ext (cr_name rule) (erv_value v) (erv_type v)))"

definition evaluate_bool :: "externs \<Rightarrow> compiled_rule \<Rightarrow> bindings \<Rightarrow> (bool, rule_error) result" where
  "evaluate_bool ext rule bindings =
     res_bind (evaluate_runtime_value ext rule bindings) (\<lambda>v.
       if erv_type v \<noteq> TBool
       then Err (InvalidRuleResult (cr_name rule) ''bool'' (type_name (erv_value v)))
       else case erv_value v of
              VBool b \<Rightarrow> Ok b
            | _ \<Rightarrow> Err (InternalInvariant (cr_name rule)))"

end
