(* ===== verification/Rules_Calendar.thy ===== *)
theory Rules_Calendar
  imports Rules_Time Rules_Decimal
begin

text \<open>
  The calendar meaning of timestamps. A canonical timestamp denotes an instant, a rational number of
  seconds; the conversion of \<open>canonical_timestamp_utc\<close> keeps the instant as long as it lies before the
  year 10000, and \<open>compare_canonical_timestamps\<close> orders UTC forms by their instants.
\<close>

section \<open>Day numbers\<close>

definition valid_date :: "nat \<Rightarrow> nat \<Rightarrow> nat \<Rightarrow> bool" where
  "valid_date y m d \<longleftrightarrow> 1 \<le> y \<and> 1 \<le> m \<and> m \<le> 12 \<and> 1 \<le> d \<and> d \<le> days_in_month y m"

fun month_start :: "nat \<Rightarrow> nat \<Rightarrow> nat" where
  "month_start y 0 = 0"
| "month_start y (Suc m) = month_start y m + days_in_month y m"

fun year_start :: "nat \<Rightarrow> nat" where
  "year_start 0 = 0"
| "year_start (Suc y) = year_start y + month_start y 13"

definition day_number :: "nat \<Rightarrow> nat \<Rightarrow> nat \<Rightarrow> int" where
  "day_number y m d = int (year_start y + month_start y m + d)"

lemma days_in_month_le: "days_in_month y m \<le> 31"
  by (simp add: days_in_month_def)

lemma month_cases: "1 \<le> m \<Longrightarrow> m \<le> 12 \<Longrightarrow> m \<in> {1, 2, 3, 4, 5, 6, 7, 8, 9, 10, 11, 12::nat}"
  unfolding insert_iff empty_iff by presburger

lemma day_number_prev_month: "1 < m \<Longrightarrow> day_number y (m - 1) (days_in_month y (m - 1)) + 1 = day_number y m 1"
  by (cases m) (auto simp: day_number_def)

lemma day_number_next_month: "day_number y m (days_in_month y m) + 1 = day_number y (Suc m) 1"
  by (simp add: day_number_def)

lemma month_start_le: "m \<le> m' \<Longrightarrow> month_start y m \<le> month_start y m'"
  by (rule lift_Suc_mono_le[of "month_start y"]) simp_all

lemma year_start_le: "y \<le> y' \<Longrightarrow> year_start y \<le> year_start y'"
  by (rule lift_Suc_mono_le[of year_start]) simp_all

lemma day_number_next_year: "day_number y 12 31 + 1 = day_number (Suc y) 1 1"
proof -
  have "month_start y 13 = month_start y 12 + 31" "month_start (Suc y) 1 = 0"
    by (simp_all add: eval_nat_numeral days_in_month_def)
  then show ?thesis by (simp add: day_number_def)
qed

text \<open>Valid dates are ordered by year, month and day.\<close>

lemma day_number_less_year:
  assumes "valid_date y m d" "valid_date y' m' d'" "y < y'"
  shows "day_number y m d < day_number y' m' d'"
proof -
  have "month_start y m + d \<le> month_start y (Suc m)" using assms(1) by (simp add: valid_date_def)
  also have "\<dots> \<le> month_start y 13" using assms(1) by (intro month_start_le) (simp add: valid_date_def)
  finally have "year_start y + month_start y m + d \<le> year_start (Suc y)" by simp
  also have "\<dots> \<le> year_start y'" using assms(3) by (intro year_start_le) simp
  finally show ?thesis using assms(2) by (simp add: day_number_def valid_date_def)
qed

lemma day_number_less_month:
  assumes "valid_date y m d" "valid_date y m' d'" "m < m'"
  shows "day_number y m d < day_number y m' d'"
proof -
  have "month_start y m + d \<le> month_start y (Suc m)" using assms(1) by (simp add: valid_date_def)
  also have "\<dots> \<le> month_start y m'" using assms(3) by (intro month_start_le) simp
  finally show ?thesis using assms(2) by (simp add: day_number_def valid_date_def)
qed

section \<open>Borrow and carry\<close>

definition civil_minutes :: "civil \<Rightarrow> int" where
  "civil_minutes c = (case c of (m, y, mo, d) \<Rightarrow> day_number y mo d * 1440 + m)"

definition civil_ok :: "civil \<Rightarrow> bool" where
  "civil_ok c = (case c of (m, y, mo, d) \<Rightarrow> valid_date y mo d)"

lemma days_in_month_pos: "1 \<le> m \<Longrightarrow> m \<le> 12 \<Longrightarrow> 28 \<le> days_in_month y m"
  using month_cases[of m] by (auto simp: days_in_month_def)

lemma borrow_step:
  assumes "valid_date y mo d"
  shows "1 < d \<Longrightarrow> valid_date y mo (d - 1) \<and> day_number y mo (d - 1) = day_number y mo d - 1"
    and "d \<le> 1 \<Longrightarrow> 1 < mo \<Longrightarrow> valid_date y (mo - 1) (days_in_month y (mo - 1)) \<and>
      day_number y (mo - 1) (days_in_month y (mo - 1)) = day_number y mo d - 1"
    and "d \<le> 1 \<Longrightarrow> mo \<le> 1 \<Longrightarrow> 1 < y \<Longrightarrow> valid_date (y - 1) 12 31 \<and>
      day_number (y - 1) 12 31 = day_number y mo d - 1"
proof -
  show "1 < d \<Longrightarrow> valid_date y mo (d - 1) \<and> day_number y mo (d - 1) = day_number y mo d - 1"
    using assms by (auto simp: valid_date_def day_number_def)
  show "d \<le> 1 \<Longrightarrow> 1 < mo \<Longrightarrow> valid_date y (mo - 1) (days_in_month y (mo - 1)) \<and>
      day_number y (mo - 1) (days_in_month y (mo - 1)) = day_number y mo d - 1"
    using assms day_number_prev_month[of mo y] order_trans[OF _ days_in_month_pos[of "mo - 1" y], of 1]
    by (auto simp: valid_date_def le_antisym)
  show "d \<le> 1 \<Longrightarrow> mo \<le> 1 \<Longrightarrow> 1 < y \<Longrightarrow> valid_date (y - 1) 12 31 \<and>
      day_number (y - 1) 12 31 = day_number y mo d - 1"
    using assms day_number_next_year[of "y - 1"]
    by (auto simp: valid_date_def le_antisym days_in_month_def)
qed

text \<open>
  Borrowing keeps the minute on the time line and the date valid; it fails only when the minute lies
  before the year 1.
\<close>

lemma borrow_days_correct:
  "civil_ok c \<Longrightarrow> (case borrow_days c of
     Some c' \<Rightarrow> civil_ok c' \<and> civil_minutes c' = civil_minutes c \<and> 0 \<le> fst c' \<and> (fst c' < 1440 \<or> fst c' \<le> fst c)
   | None \<Rightarrow> civil_minutes c < day_number 1 1 1 * 1440)"
proof (induction c rule: borrow_days.induct)
  case (1 m y mo d)
  then have v: "valid_date y mo d" by (simp add: civil_ok_def)
  note step = borrow_step[OF v]
  consider (stop) "\<not> m < 0" | (day) "m < 0" "1 < d" | (month) "m < 0" "d \<le> 1" "1 < mo"
    | (year) "m < 0" "d \<le> 1" "mo \<le> 1" "1 < y" | (fail) "m < 0" "d \<le> 1" "mo \<le> 1" "\<not> 1 < y" by linarith
  then show ?case
  proof cases
    case stop
    then show ?thesis using v by (simp add: borrow_days.simps civil_ok_def)
  next
    case day
    have "civil_ok (m + 24 * 60, y, mo, d - 1)" using step(1) day by (simp add: civil_ok_def)
    from "1.IH"(1)[OF day this] show ?thesis
      using day step(1) by (subst borrow_days.simps) (auto simp: civil_minutes_def split: option.splits)
  next
    case month
    have "civil_ok (m + 24 * 60, y, mo - 1, days_in_month y (mo - 1))" using step(2) month by (simp add: civil_ok_def)
    from "1.IH"(2)[OF month(1) _ month(3) this] show ?thesis
      using month step(2) by (subst borrow_days.simps) (auto simp: civil_minutes_def split: option.splits)
  next
    case year
    have "civil_ok (m + 24 * 60, y - 1, 12, 31)" using step(3) year by (simp add: civil_ok_def)
    from "1.IH"(3)[OF year(1) _ _ _ _ this] show ?thesis
      using year step(3) by (subst borrow_days.simps) (auto simp: civil_minutes_def split: option.splits)
  next
    case fail
    then have "y = 1" "mo = 1" "d = 1" using v by (auto simp: valid_date_def)
    then show ?thesis using fail by (subst borrow_days.simps) (simp add: civil_minutes_def)
  qed
qed

lemma carry_step:
  assumes "valid_date y mo d"
  shows "d < days_in_month y mo \<Longrightarrow> valid_date y mo (d + 1) \<and> day_number y mo (d + 1) = day_number y mo d + 1"
    and "\<not> d < days_in_month y mo \<Longrightarrow> mo < 12 \<Longrightarrow> valid_date y (mo + 1) 1 \<and>
      day_number y (mo + 1) 1 = day_number y mo d + 1"
    and "\<not> d < days_in_month y mo \<Longrightarrow> \<not> mo < 12 \<Longrightarrow> valid_date (y + 1) 1 1 \<and>
      day_number (y + 1) 1 1 = day_number y mo d + 1"
proof -
  show "d < days_in_month y mo \<Longrightarrow> valid_date y mo (d + 1) \<and> day_number y mo (d + 1) = day_number y mo d + 1"
    using assms by (auto simp: valid_date_def day_number_def)
  show "\<not> d < days_in_month y mo \<Longrightarrow> mo < 12 \<Longrightarrow> valid_date y (mo + 1) 1 \<and>
      day_number y (mo + 1) 1 = day_number y mo d + 1"
    using assms day_number_next_month[of y mo] days_in_month_pos[of "mo + 1" y]
    by (auto simp: valid_date_def)
  show "\<not> d < days_in_month y mo \<Longrightarrow> \<not> mo < 12 \<Longrightarrow> valid_date (y + 1) 1 1 \<and>
      day_number (y + 1) 1 1 = day_number y mo d + 1"
    using assms day_number_next_year[of y]
    by (auto simp: valid_date_def days_in_month_def)
qed

lemma carry_days_correct:
  "civil_ok c \<Longrightarrow> 0 \<le> fst c \<Longrightarrow> int (fst (snd c)) + fst c \<le> 100000 \<Longrightarrow> (\<exists>c'. carry_days c = Some c' \<and>
     civil_ok c' \<and> civil_minutes c' = civil_minutes c \<and> 0 \<le> fst c' \<and> fst c' < 1440)"
proof (induction c rule: carry_days.induct)
  case (1 m y mo d)
  then have v: "valid_date y mo d" by (simp add: civil_ok_def)
  note step = carry_step[OF v]
  have u: "u32 (y + 1) = Some (y + 1)" using "1.prems"(2,3) by (simp add: u32_def)
  consider (stop) "\<not> m \<ge> 24 * 60" | (day) "m \<ge> 24 * 60" "d < days_in_month y mo"
    | (month) "m \<ge> 24 * 60" "\<not> d < days_in_month y mo" "mo < 12"
    | (year) "m \<ge> 24 * 60" "\<not> d < days_in_month y mo" "\<not> mo < 12" by linarith
  then show ?case
  proof cases
    case stop
    then show ?thesis using "1.prems" by (subst carry_days.simps) simp
  next
    case day
    have "civil_ok (m - 24 * 60, y, mo, d + 1)" using step(1) day by (simp add: civil_ok_def)
    from "1.IH"(1)[OF day this] show ?thesis
      using day step(1) "1.prems"(3) by (subst carry_days.simps) (auto simp: civil_minutes_def)
  next
    case month
    have "civil_ok (m - 24 * 60, y, mo + 1, 1)" using step(2) month by (simp add: civil_ok_def)
    from "1.IH"(2)[OF month this] show ?thesis
      using month step(2) "1.prems"(3) by (subst carry_days.simps) (auto simp: civil_minutes_def)
  next
    case year
    have "civil_ok (m - 24 * 60, y + 1, 1, 1)" using step(3) year by (simp add: civil_ok_def)
    from "1.IH"(3)[OF year u this] show ?thesis
      using year step(3) "1.prems"(3) by (subst carry_days.simps, unfold u) (auto simp: civil_minutes_def)
  qed
qed

section \<open>The text of a timestamp\<close>

definition digit_string :: "nat \<Rightarrow> string \<Rightarrow> bool" where
  "digit_string w s \<longleftrightarrow> length s = w \<and> list_all is_ascii_digit s"

text \<open>The fraction and the zone of a timestamp.\<close>

definition fraction_text :: "string \<Rightarrow> bool" where
  "fraction_text f \<longleftrightarrow> f = [] \<or> (\<exists>ds. f = CHR ''.'' # ds \<and> ds \<noteq> [] \<and> list_all is_ascii_digit ds)"

definition offset_text :: "char \<Rightarrow> string \<Rightarrow> string \<Rightarrow> string \<Rightarrow> bool" where
  "offset_text c oh om z \<longleftrightarrow> z = c # oh @ '':'' @ om \<and> c \<in> {CHR ''+'', CHR ''-''} \<and>
     digit_string 2 oh \<and> digit_string 2 om \<and> digits_val oh \<le> 23 \<and> digits_val om \<le> 59"

definition zone_text :: "string \<Rightarrow> bool" where
  "zone_text z \<longleftrightarrow> z = ''Z'' \<or> (\<exists>c oh om. offset_text c oh om z)"

record stamp =
  st_year :: string
  st_month :: string
  st_day :: string
  st_hour :: string
  st_minute :: string
  st_second :: string
  st_fraction :: string
  st_zone :: string

definition date_text :: "stamp \<Rightarrow> string" where
  "date_text p = st_year p @ ''-'' @ st_month p @ ''-'' @ st_day p"

definition stamp_text :: "stamp \<Rightarrow> string" where
  "stamp_text p = date_text p @ ''T'' @ st_hour p @ '':'' @ st_minute p @ '':'' @ st_second p @
     st_fraction p @ st_zone p"

definition date_parts :: "stamp \<Rightarrow> bool" where
  "date_parts p \<longleftrightarrow> digit_string 4 (st_year p) \<and> digit_string 2 (st_month p) \<and> digit_string 2 (st_day p) \<and>
     valid_date (digits_val (st_year p)) (digits_val (st_month p)) (digits_val (st_day p))"

definition stamp_ok :: "stamp \<Rightarrow> bool" where
  "stamp_ok p \<longleftrightarrow> date_parts p \<and>
     digit_string 2 (st_hour p) \<and> digit_string 2 (st_minute p) \<and> digit_string 2 (st_second p) \<and>
     digits_val (st_hour p) \<le> 23 \<and> digits_val (st_minute p) \<le> 59 \<and> digits_val (st_second p) \<le> 59 \<and>
     fraction_text (st_fraction p) \<and> zone_text (st_zone p)"

lemma digit_string_length: "digit_string w s \<Longrightarrow> length s = w"
  by (simp add: digit_string_def)

lemma digits_val_bound: "list_all is_ascii_digit s \<Longrightarrow> digits_val s < 10 ^ length s"
proof (induction s rule: rev_induct)
  case (snoc c s)
  then show ?case using digit_val_less[of c] by simp
qed simp

lemma parse_digit_string:
  assumes "digit_string w s" "0 < w" "w \<le> 9"
  shows "parse_two_or_four_digits s = Some (digits_val s)"
proof -
  obtain c cs where s: "s = c # cs" using assms by (cases s) (auto simp: digit_string_def)
  then have "c \<noteq> CHR ''+''" using assms sign_not_digit by (auto simp: digit_string_def)
  moreover have "digits_val s < 10 ^ w" using digits_val_bound assms by (auto simp: digit_string_def)
  then have "digits_val s < 10 ^ 9" using assms(3) by (meson less_le_trans one_le_numeral power_increasing)
  then have "int (digits_val s) \<le> 2 ^ 32 - 1" by simp
  ultimately show ?thesis
    using assms(1) s by (simp add: parse_two_or_four_digits_def parse_digits_def digit_string_def)
qed

lemma stamp_lengths:
  assumes "stamp_ok p"
  shows "length (st_year p) = 4" "length (st_month p) = 2" "length (st_day p) = 2"
    "length (st_hour p) = 2" "length (st_minute p) = 2" "length (st_second p) = 2"
  using assms by (simp_all add: stamp_ok_def date_parts_def digit_string_def)

lemma stamp_slices:
  assumes "stamp_ok p"
  shows "slice 0 10 (stamp_text p) = date_text p"
    "slice 0 4 (stamp_text p) = st_year p" "slice 5 7 (stamp_text p) = st_month p"
    "slice 8 10 (stamp_text p) = st_day p" "slice 11 13 (stamp_text p) = st_hour p"
    "slice 14 16 (stamp_text p) = st_minute p" "slice 17 19 (stamp_text p) = st_second p"
    "stamp_text p ! 10 = CHR ''T''" "stamp_text p ! 13 = CHR '':''" "stamp_text p ! 16 = CHR '':''"
    "drop 19 (stamp_text p) = st_fraction p @ st_zone p"
    "length (stamp_text p) = 19 + length (st_fraction p) + length (st_zone p)"
    "slice 0 4 (date_text p) = st_year p" "slice 5 7 (date_text p) = st_month p"
    "slice 8 10 (date_text p) = st_day p" "length (date_text p) = 10"
    "date_text p ! 4 = CHR ''-''" "date_text p ! 7 = CHR ''-''"
  using stamp_lengths[OF assms]
  by (simp_all add: slice_def stamp_text_def date_text_def nth_append)

lemma skip_digits_run:
  "list_all is_ascii_digit ds \<Longrightarrow> r = [] \<or> \<not> is_ascii_digit (hd r) \<Longrightarrow>
   skip_digits (p @ ds @ r) (length p) = length p + length ds"
proof (induction ds arbitrary: p)
  case Nil
  then show ?case by (subst skip_digits.simps) (cases r; auto simp: nth_append)
next
  case (Cons d ds)
  have "skip_digits (p @ (d # ds) @ r) (length p) = skip_digits ((p @ [d]) @ ds @ r) (length (p @ [d]))"
    using Cons.prems by (subst skip_digits.simps) (simp add: nth_append)
  then show ?case using Cons.IH[of "p @ [d]"] Cons.prems by simp
qed

lemma zone_head:
  assumes "zone_text z"
  obtains c r where "z = c # r" "c \<in> {CHR ''Z'', CHR ''+'', CHR ''-''}"
  using assms by (auto simp: zone_text_def offset_text_def)

lemma zone_start_text:
  assumes "fraction_text f" "zone_text z" "drop 19 v = f @ z" "19 \<le> length v"
  shows "zone_start_of v = 19 + length f" "byte_at v (19 + length f) = Some (hd z)"
    "slice 19 (19 + length f) v = f" "drop (19 + length f) v = z"
    "byte_at v 19 = Some CHR ''.'' \<longleftrightarrow> f \<noteq> []"
proof -
  obtain c r where z: "z = c # r" and c: "c \<in> {CHR ''Z'', CHR ''+'', CHR ''-''}" using zone_head[OF assms(2)] .
  have nd: "\<not> is_ascii_digit (hd z)" using c z by (auto simp: is_ascii_digit_def)
  have v: "v = take 19 v @ f @ z" using assms(3) by (metis append_take_drop_id)
  have t: "length (take 19 v) = 19" using assms(4) by simp
  show b: "byte_at v 19 = Some CHR ''.'' \<longleftrightarrow> f \<noteq> []"
  proof -
    have "v ! 19 = (f @ z) ! 0" "19 < length v"
      using assms(3,4) z nth_drop[of 19 v 0] by (auto, metis length_0_conv length_drop diff_is_0_eq' append_is_Nil_conv list.distinct(1) not_le_imp_less)
    then show ?thesis using assms(1) z c by (auto simp: byte_at_def fraction_text_def)
  qed
  show "zone_start_of v = 19 + length f"
  proof (cases f)
    case Nil
    then show ?thesis using b by (simp add: zone_start_of_def)
  next
    case (Cons d ds)
    then have f: "f = CHR ''.'' # ds" "list_all is_ascii_digit ds" using assms(1) by (auto simp: fraction_text_def)
    have "skip_digits ((take 19 v @ [CHR ''.'']) @ ds @ z) (length (take 19 v @ [CHR ''.''])) =
        length (take 19 v @ [CHR ''.'']) + length ds"
      by (rule skip_digits_run) (use f nd in auto)
    then show ?thesis using b f v t by (simp add: zone_start_of_def)
  qed
  show "drop (19 + length f) v = z" using assms(3) by (metis add.commute append_eq_conv_conj drop_drop)
  then show "byte_at v (19 + length f) = Some (hd z)"
    using z by (auto simp: byte_at_def hd_drop_conv_nth[symmetric] not_less)
  show "slice 19 (19 + length f) v = f" using assms(3) by (simp add: slice_def)
qed

text \<open>The recognizers accept exactly the texts of these shapes.\<close>

lemma ascii_digits: "list_all is_ascii_digit s \<Longrightarrow> is_ascii s"
  by (induction s) (auto simp: is_ascii_def is_ascii_digit_def)

lemma is_ascii_append [simp]: "is_ascii (s @ t) \<longleftrightarrow> is_ascii s \<and> is_ascii t"
  by (auto simp: is_ascii_def)

lemma is_ascii_Cons [simp]: "is_ascii (c # s) \<longleftrightarrow> byte_of c < (128::nat) \<and> is_ascii s"
  by (auto simp: is_ascii_def)

lemma is_ascii_Nil [simp]: "is_ascii []"
  by (simp add: is_ascii_def)

lemma slice_append:
  assumes "a \<le> b" "b \<le> c"
  shows "slice a c v = slice a b v @ slice b c v"
proof -
  have "c - a = (b - a) + (c - b)" "b - a + a = b" using assms by simp_all
  then show ?thesis by (simp only: slice_def take_add drop_drop)
qed

lemma slice_single: "i < length v \<Longrightarrow> slice i (Suc i) v = [v ! i]"
  by (simp add: slice_def take_Suc_conv_app_nth[of 0] hd_drop_conv_nth take_Suc)

lemma slice_length: "b \<le> length v \<Longrightarrow> length (slice a b v) = b - a"
  by (simp add: slice_def)

lemma slice_digits:
  assumes "b \<le> length v" "\<And>i. a \<le> i \<Longrightarrow> i < b \<Longrightarrow> is_ascii_digit (v ! i)"
  shows "digit_string (b - a) (slice a b v)"
proof -
  have "is_ascii_digit (slice a b v ! j)" if "j < b - a" for j
    using assms that by (simp add: slice_def)
  then show ?thesis using slice_length[OF assms(1)] by (simp add: digit_string_def list_all_length)
qed

lemma date_split:
  assumes "length v = 10" "v ! 4 = CHR ''-''" "v ! 7 = CHR ''-''"
  shows "v = slice 0 4 v @ ''-'' @ slice 5 7 v @ ''-'' @ slice 8 10 v"
proof -
  have "v = slice 0 10 v" using assms by (simp add: slice_def)
  also have "\<dots> = slice 0 4 v @ slice 4 5 v @ slice 5 7 v @ slice 7 8 v @ slice 8 10 v"
    using slice_append[of 0 4 10 v] slice_append[of 4 5 10 v] slice_append[of 5 7 10 v] slice_append[of 7 8 10 v] by simp
  also have "slice 4 5 v = ''-''" using slice_single[of 4 v] assms by simp
  also have "slice 7 8 v = ''-''" using slice_single[of 7 v] assms by simp
  finally show ?thesis .
qed

lemma date_recognizer:
  "is_canonical_date v \<longleftrightarrow> (\<exists>y m d. v = y @ ''-'' @ m @ ''-'' @ d \<and> digit_string 4 y \<and> digit_string 2 m \<and>
     digit_string 2 d \<and> valid_date (digits_val y) (digits_val m) (digits_val d))"
  (is "_ \<longleftrightarrow> (\<exists>y m d. ?P y m d)")
proof
  assume c: "is_canonical_date v"
  then have v: "length v = 10" "v ! 4 = CHR ''-''" "v ! 7 = CHR ''-''"
    and dig: "\<forall>(i, b) \<in> set (enumerate 0 v). i \<in> {4, 7} \<or> is_ascii_digit b"
    by (auto simp: is_canonical_date_def list_ex_iff split: if_splits)
  have d: "is_ascii_digit (v ! i)" if "i < 10" "i \<noteq> 4" "i \<noteq> 7" for i
    using dig that v(1) by (force simp: in_set_enumerate_eq)
  have y: "digit_string 4 (slice 0 4 v)" using slice_digits[of 4 v 0] d v(1) by simp
  have m: "digit_string 2 (slice 5 7 v)" using slice_digits[of 7 v 5] d v(1) by simp
  have dd: "digit_string 2 (slice 8 10 v)" using slice_digits[of 10 v 8] d v(1) by simp
  have "valid_date (digits_val (slice 0 4 v)) (digits_val (slice 5 7 v)) (digits_val (slice 8 10 v))"
    using c parse_digit_string[OF y] parse_digit_string[OF m] parse_digit_string[OF dd]
    by (auto simp: is_canonical_date_def valid_date_def split: if_splits)
  then have "?P (slice 0 4 v) (slice 5 7 v) (slice 8 10 v)" using date_split[OF v] y m dd by simp
  then show "\<exists>y m d. ?P y m d" by blast
next
  assume "\<exists>y m d. ?P y m d"
  then obtain y m d where p: "?P y m d" by blast
  then have len: "length y = 4" "length m = 2" "length d = 2" and v: "v = y @ ''-'' @ m @ ''-'' @ d"
    by (auto simp: digit_string_def)
  have sl: "slice 0 4 v = y" "slice 5 7 v = m" "slice 8 10 v = d" "length v = 10" "v ! 4 = CHR ''-''" "v ! 7 = CHR ''-''"
    using len by (simp_all add: slice_def v nth_append)
  have dig: "list_all is_ascii_digit y" "list_all is_ascii_digit m" "list_all is_ascii_digit d"
    using p by (auto simp: digit_string_def)
  have asc: "is_ascii v" using dig by (simp add: v ascii_digits)
  have no: "\<not> list_ex (\<lambda>(i, b). i \<notin> {4, 7} \<and> \<not> is_ascii_digit b) (enumerate 0 v)"
  proof -
    have "i = 4 \<or> i = 7 \<or> is_ascii_digit (v ! i)" if "i < 10" for i
    proof -
      have "i < 4 \<or> i = 4 \<or> (5 \<le> i \<and> i < 7) \<or> i = 7 \<or> (8 \<le> i \<and> i < 10)" using that by linarith
      then show ?thesis using dig len by (auto simp: v nth_append list_all_length nth_Cons')
    qed
    then show ?thesis using sl(4) by (fastforce simp: list_ex_iff in_set_enumerate_eq)
  qed
  have "parse_two_or_four_digits y = Some (digits_val y)" "parse_two_or_four_digits m = Some (digits_val m)"
    "parse_two_or_four_digits d = Some (digits_val d)"
    using p by (auto intro!: parse_digit_string)
  then show "is_canonical_date v"
    using p asc no sl by (auto simp: is_canonical_date_def valid_date_def)
qed

lemma date_parts_canonical: "date_parts p \<Longrightarrow> is_canonical_date (date_text p)"
  unfolding date_recognizer date_parts_def date_text_def by blast

lemma slice_drop: "drop k v = z \<Longrightarrow> slice (k + i) (k + j) v = slice i j z"
  by (auto simp: slice_def add.commute)

lemma zone_recognized:
  assumes "zone_text z" "drop k v = z" "k \<le> length v"
  shows "(byte_at v k = Some CHR ''Z'' \<and> k + 1 = length v \<and> z = ''Z'') \<or>
    (\<exists>c oh om. offset_text c oh om z \<and> byte_at v k = Some c \<and> k + 6 = length v \<and> v ! (k + 3) = CHR '':'' \<and>
      slice (k + 1) (k + 3) v = oh \<and> slice (k + 4) (k + 6) v = om)"
proof -
  have v: "v = take k v @ z" using assms(2) by (metis append_take_drop_id)
  have t: "length (take k v) = k" using assms(3) by simp
  have at: "byte_at v k = Some (hd z)" if "z \<noteq> []"
    using that assms(2) by (auto simp: byte_at_def hd_drop_conv_nth[symmetric] not_less)
  have lv: "length v = k + length z" using v t by (metis length_append)
  consider "z = ''Z''" | c oh om where "offset_text c oh om z" using assms(1) by (auto simp: zone_text_def)
  then show ?thesis
  proof cases
    case 1
    then show ?thesis using at lv by simp
  next
    case (2 c oh om)
    then have z: "z = c # oh @ '':'' @ om" "length oh = 2" "length om = 2"
      by (auto simp: offset_text_def digit_string_def)
    have "z ! 3 = CHR '':''" using z by (simp add: nth_append)
    then have "v ! (k + 3) = CHR '':''" using nth_drop[OF assms(3), of 3] assms(2) by simp
    moreover have "slice (k + 1) (k + 3) v = oh" "slice (k + 4) (k + 6) v = om"
      using z(2,3) by (simp_all only: slice_drop[OF assms(2)]) (simp_all add: z(1) slice_def)
    ultimately show ?thesis using 2 at lv z by auto
  qed
qed

lemma stamp_canonical:
  assumes "stamp_ok p"
  shows "is_canonical_timestamp (stamp_text p)"
proof -
  note sl = stamp_slices[OF assms]
  have dp: "date_parts p" and f: "fraction_text (st_fraction p)" and z: "zone_text (st_zone p)"
    and ds: "digit_string 2 (st_hour p)" "digit_string 2 (st_minute p)" "digit_string 2 (st_second p)"
    using assms by (auto simp: stamp_ok_def)
  have len: "19 \<le> length (stamp_text p)" using sl(12) by simp
  note zs = zone_start_text[OF f z sl(11) len]
  have asc: "is_ascii (stamp_text p)"
  proof -
    have "is_ascii (st_fraction p)" using f by (auto simp: fraction_text_def ascii_digits)
    moreover have "is_ascii (st_zone p)"
      using z by (auto simp: zone_text_def offset_text_def digit_string_def ascii_digits)
    ultimately show ?thesis
      using dp ds by (auto simp: stamp_text_def date_text_def date_parts_def digit_string_def ascii_digits)
  qed
  have dot: "\<not> (byte_at (stamp_text p) 19 = Some CHR ''.'' \<and> zone_start_of (stamp_text p) = 20)"
    using zs(1,5) f by (auto simp: fraction_text_def)
  have parse: "parse_two_or_four_digits (st_hour p) = Some (digits_val (st_hour p))"
    "parse_two_or_four_digits (st_minute p) = Some (digits_val (st_minute p))"
    "parse_two_or_four_digits (st_second p) = Some (digits_val (st_second p))"
    using ds by (auto intro: parse_digit_string)
  have len20: "\<not> length (stamp_text p) < 20" using sl(12) z by (auto simp: zone_text_def offset_text_def)
  have "zone_text (st_zone p)" "19 + length (st_fraction p) \<le> length (stamp_text p)" using z sl(12) by auto
  from zone_recognized[OF this(1) zs(4) this(2)]
  have "is_canonical_zone (stamp_text p) (zone_start_of (stamp_text p))"
    unfolding zs(1) is_canonical_zone_def by (auto simp: offset_text_def parse_digit_string digit_string_def)
  then show ?thesis
    using assms asc len20 dot date_parts_canonical[OF dp] ds
    by (simp only: is_canonical_timestamp_def sl parse Let_def) (simp add: stamp_ok_def digit_string_def)
qed

lemma skip_digits_spec:
  "i \<le> length s \<Longrightarrow> i \<le> skip_digits s i \<and> skip_digits s i \<le> length s \<and>
   (\<forall>j. i \<le> j \<and> j < skip_digits s i \<longrightarrow> is_ascii_digit (s ! j))"
proof (induction s i rule: skip_digits.induct)
  case (1 s i)
  show ?case
  proof (cases "i < length s \<and> is_ascii_digit (s ! i)")
    case True
    then have "skip_digits s i = skip_digits s (i + 1)" by (subst skip_digits.simps) simp
    moreover have "is_ascii_digit (s ! j)" if "i \<le> j" "j < skip_digits s (i + 1)" for j
      using 1 True that by (cases "j = i") auto
    ultimately show ?thesis using 1 True by auto
  next
    case False
    then have "skip_digits s i = i" by (subst skip_digits.simps) auto
    then show ?thesis using "1.prems" by auto
  qed
qed

lemma zone_shape:
  assumes "is_canonical_zone v k" "k \<le> length v"
  shows "zone_text (drop k v)"
proof (cases "byte_at v k = Some CHR ''Z''")
  case True
  then have "drop k v = [v ! k]" "v ! k = CHR ''Z''"
    using assms(1) Cons_nth_drop_Suc[of k v] by (auto simp: is_canonical_zone_def byte_at_def split: if_splits)
  then show ?thesis by (simp add: zone_text_def)
next
  case False
  let ?z = "drop k v"
  from False assms(1) have c: "byte_at v k = Some CHR ''+'' \<or> byte_at v k = Some CHR ''-''"
    and len: "k + 6 = length v" and colon: "v ! (k + 3) = CHR '':''"
    and oh: "list_all is_ascii_digit (slice (k + 1) (k + 3) v)" and om: "list_all is_ascii_digit (slice (k + 4) (k + 6) v)"
    and vals: "(case parse_two_or_four_digits (slice (k + 1) (k + 3) v) of Some h \<Rightarrow> h \<le> 23 | None \<Rightarrow> False)"
      "(case parse_two_or_four_digits (slice (k + 4) (k + 6) v) of Some m \<Rightarrow> m \<le> 59 | None \<Rightarrow> False)"
    by (auto simp: is_canonical_zone_def split: if_splits)
  have dh: "digit_string 2 (slice 1 3 ?z)" and dm: "digit_string 2 (slice 4 6 ?z)"
    using oh om len slice_drop[OF refl, of k 1 3 v] slice_drop[OF refl, of k 4 6 v] by (simp_all add: digit_string_def slice_length)
  have b: "digits_val (slice 1 3 ?z) \<le> 23" "digits_val (slice 4 6 ?z) \<le> 59"
    using vals parse_digit_string[OF dh] parse_digit_string[OF dm] slice_drop[OF refl, of k 1 3 v] slice_drop[OF refl, of k 4 6 v] by auto
  have lz: "length ?z = 6" using len by simp
  have "?z = slice 0 6 ?z" using lz by (simp add: slice_def)
  also have "\<dots> = slice 0 1 ?z @ slice 1 3 ?z @ slice 3 4 ?z @ slice 4 6 ?z"
    using slice_append[of 0 1 6 ?z] slice_append[of 1 3 6 ?z] slice_append[of 3 4 6 ?z] by simp
  also have "slice 0 1 ?z = [v ! k]" using slice_single[of 0 ?z] len by simp
  also have "slice 3 4 ?z = '':''" using slice_single[of 3 ?z] colon len by simp
  finally have "?z = v ! k # slice 1 3 ?z @ '':'' @ slice 4 6 ?z" by simp
  then have "offset_text (v ! k) (slice 1 3 ?z) (slice 4 6 ?z) ?z"
    using dh dm b c by (auto simp: offset_text_def byte_at_def split: if_splits)
  then show ?thesis unfolding zone_text_def by blast
qed

lemma fraction_shape:
  assumes "19 < length v" "\<not> (byte_at v 19 = Some CHR ''.'' \<and> zone_start_of v = 20)"
  shows "fraction_text (slice 19 (zone_start_of v) v) \<and> 19 \<le> zone_start_of v \<and> zone_start_of v \<le> length v"
proof (cases "byte_at v 19 = Some CHR ''.''")
  case False
  then show ?thesis using assms(1) by (simp add: zone_start_of_def fraction_text_def slice_def)
next
  case True
  let ?k = "skip_digits v 20"
  have z: "zone_start_of v = ?k" using True by (simp add: zone_start_of_def)
  have sp: "20 \<le> ?k" "?k \<le> length v" "\<And>j. 20 \<le> j \<Longrightarrow> j < ?k \<Longrightarrow> is_ascii_digit (v ! j)"
    using skip_digits_spec[of 20 v] assms(1) by auto
  have "v ! 19 = CHR ''.''" using True by (simp add: byte_at_def split: if_splits)
  then have "slice 19 ?k v = CHR ''.'' # slice 20 ?k v"
    using slice_append[of 19 20 ?k v] slice_single[of 19 v] assms(1) sp(1) by simp
  moreover have "digit_string (?k - 20) (slice 20 ?k v)" by (rule slice_digits[OF sp(2,3)])
  moreover have "?k \<noteq> 20" using assms(2) True z by simp
  ultimately show ?thesis using sp(1,2) by (auto simp: z fraction_text_def digit_string_def)
qed

lemma timestamp_shape:
  assumes c: "is_canonical_timestamp v"
  obtains p where "stamp_ok p" "v = stamp_text p"
proof -
  from c have len: "20 \<le> length v" and date: "is_canonical_date (slice 0 10 v)"
    and seps: "v ! 10 = CHR ''T''" "v ! 13 = CHR '':''" "v ! 16 = CHR '':''"
    and dig: "list_all is_ascii_digit (slice 11 13 v)" "list_all is_ascii_digit (slice 14 16 v)"
      "list_all is_ascii_digit (slice 17 19 v)"
    by (auto simp: is_canonical_timestamp_def split: if_splits)
  have d2: "digit_string 2 (slice 11 13 v)" "digit_string 2 (slice 14 16 v)" "digit_string 2 (slice 17 19 v)"
    using dig len by (simp_all add: digit_string_def slice_length)
  have vals: "digits_val (slice 11 13 v) \<le> 23" "digits_val (slice 14 16 v) \<le> 59" "digits_val (slice 17 19 v) \<le> 59"
    and dot: "\<not> (byte_at v 19 = Some CHR ''.'' \<and> zone_start_of v = 20)"
    and zone: "is_canonical_zone v (zone_start_of v)"
    using c parse_digit_string[OF d2(1)] parse_digit_string[OF d2(2)] parse_digit_string[OF d2(3)]
    by (auto simp: is_canonical_timestamp_def Let_def split: if_splits)
  let ?k = "zone_start_of v"
  have f: "fraction_text (slice 19 ?k v)" "19 \<le> ?k" "?k \<le> length v"
    using fraction_shape[OF _ dot] len by auto
  have z: "zone_text (drop ?k v)" by (rule zone_shape[OF zone f(3)])
  obtain y m d where ymd: "slice 0 10 v = y @ ''-'' @ m @ ''-'' @ d" "digit_string 4 y" "digit_string 2 m"
    "digit_string 2 d" "valid_date (digits_val y) (digits_val m) (digits_val d)"
    using date unfolding date_recognizer by blast
  have whole: "v = slice 0 10 v @ slice 10 11 v @ slice 11 13 v @ slice 13 14 v @ slice 14 16 v @ slice 16 17 v @
      slice 17 19 v @ slice 19 ?k v @ drop ?k v"
  proof -
    have "v = slice 0 ?k v @ drop ?k v" by (simp add: slice_def)
    also have "slice 0 ?k v = slice 0 19 v @ slice 19 ?k v" using slice_append[of 0 19 ?k v] f(2) by simp
    also have "slice 0 19 v = slice 0 10 v @ slice 10 11 v @ slice 11 13 v @ slice 13 14 v @ slice 14 16 v @
        slice 16 17 v @ slice 17 19 v"
      using slice_append[of 0 10 19 v] slice_append[of 10 11 19 v] slice_append[of 11 13 19 v]
        slice_append[of 13 14 19 v] slice_append[of 14 16 19 v] slice_append[of 16 17 19 v] by simp
    finally show ?thesis by simp
  qed
  have sep: "slice 10 11 v = ''T''" "slice 13 14 v = '':''" "slice 16 17 v = '':''"
    using slice_single[of 10 v] slice_single[of 13 v] slice_single[of 16 v] seps len by simp_all
  have v: "v = (y @ ''-'' @ m @ ''-'' @ d) @ ''T'' @ slice 11 13 v @ '':'' @ slice 14 16 v @ '':'' @
      slice 17 19 v @ slice 19 ?k v @ drop ?k v"
    using whole unfolding sep ymd(1) .
  let ?p = "\<lparr>st_year = y, st_month = m, st_day = d, st_hour = slice 11 13 v, st_minute = slice 14 16 v,
    st_second = slice 17 19 v, st_fraction = slice 19 ?k v, st_zone = drop ?k v\<rparr>"
  have "stamp_ok ?p" using ymd d2 vals f(1) z by (simp add: stamp_ok_def date_parts_def)
  moreover have "v = stamp_text ?p" using v by (simp add: stamp_text_def date_text_def)
  ultimately show ?thesis using that by blast
qed

section \<open>Instants\<close>

text \<open>The value of the digits after a decimal point, and the offset of a zone in minutes.\<close>

definition frac_val :: "string \<Rightarrow> rat" where
  "frac_val ds = of_nat (digits_val ds) / 10 ^ length ds"

definition zone_offset :: "string \<Rightarrow> int" where
  "zone_offset z =
     (if hd z = CHR ''Z'' then 0
      else (if hd z = CHR ''+'' then 1 else - 1) *
        (int (digits_val (slice 1 3 z)) * 60 + int (digits_val (slice 4 6 z))))"

definition utc_minutes_of :: "string \<Rightarrow> int" where
  "utc_minutes_of v =
     day_number (digits_val (slice 0 4 v)) (digits_val (slice 5 7 v)) (digits_val (slice 8 10 v)) * 1440
     + int (digits_val (slice 11 13 v)) * 60 + int (digits_val (slice 14 16 v))
     - zone_offset (drop (zone_start_of v) v)"

definition instant :: "string \<Rightarrow> rat" where
  "instant v = of_int (utc_minutes_of v * 60 + int (digits_val (slice 17 19 v)))
     + frac_val (slice 20 (zone_start_of v) v)"

definition stamp_minutes :: "stamp \<Rightarrow> int" where
  "stamp_minutes p =
     day_number (digits_val (st_year p)) (digits_val (st_month p)) (digits_val (st_day p)) * 1440
     + int (digits_val (st_hour p)) * 60 + int (digits_val (st_minute p)) - zone_offset (st_zone p)"

lemma stamp_zone_start:
  assumes "stamp_ok p"
  shows "zone_start_of (stamp_text p) = 19 + length (st_fraction p)"
    "drop (19 + length (st_fraction p)) (stamp_text p) = st_zone p"
    "slice 19 (19 + length (st_fraction p)) (stamp_text p) = st_fraction p"
    "slice 20 (19 + length (st_fraction p)) (stamp_text p) = tl (st_fraction p)"
    "byte_at (stamp_text p) (19 + length (st_fraction p)) = Some (hd (st_zone p))"
proof -
  have f: "fraction_text (st_fraction p)" and z: "zone_text (st_zone p)"
    and len: "19 \<le> length (stamp_text p)"
    using assms stamp_slices(12)[OF assms] by (auto simp: stamp_ok_def)
  note zs = zone_start_text[OF f z stamp_slices(11)[OF assms] len]
  then show "zone_start_of (stamp_text p) = 19 + length (st_fraction p)"
    "drop (19 + length (st_fraction p)) (stamp_text p) = st_zone p"
    "slice 19 (19 + length (st_fraction p)) (stamp_text p) = st_fraction p"
    "byte_at (stamp_text p) (19 + length (st_fraction p)) = Some (hd (st_zone p))" by auto
  have "slice 20 (19 + length (st_fraction p)) (stamp_text p) = tl (slice 19 (19 + length (st_fraction p)) (stamp_text p))"
    by (simp add: slice_def tl_take drop_Suc[symmetric] tl_drop flip: drop_Suc)
  then show "slice 20 (19 + length (st_fraction p)) (stamp_text p) = tl (st_fraction p)" using zs(3) by simp
qed

lemma stamp_instant:
  assumes "stamp_ok p"
  shows "utc_minutes_of (stamp_text p) = stamp_minutes p"
    "instant (stamp_text p) = of_int (stamp_minutes p * 60 + int (digits_val (st_second p))) + frac_val (tl (st_fraction p))"
  using stamp_slices[OF assms] stamp_zone_start[OF assms]
  by (simp_all add: utc_minutes_of_def instant_def stamp_minutes_def)

section \<open>Trimming and padding\<close>

lemma trim_end_split:
  "\<exists>k. s = trim_end_matches c s @ replicate k c \<and> (trim_end_matches c s = [] \<or> last (trim_end_matches c s) \<noteq> c)"
proof -
  let ?d = "dropWhile (\<lambda>x. x = c) (rev s)" and ?t = "takeWhile (\<lambda>x. x = c) (rev s)"
  have "\<forall>x \<in> set ?t. x = c" by (auto dest: set_takeWhileD)
  then have "?t = replicate (length ?t) c" by (simp add: replicate_length_same)
  then have "rev ?t = replicate (length ?t) c" by (metis rev_replicate)
  moreover have "s = rev ?d @ rev ?t" by (metis rev_append rev_rev_ident takeWhile_dropWhile_id)
  moreover have "?d = [] \<or> hd ?d \<noteq> c" using hd_dropWhile[of "\<lambda>x. x = c" "rev s"] by blast
  ultimately show ?thesis unfolding trim_end_matches_def by (metis last_rev rev_is_Nil_conv)
qed

lemma digits_val_trailing: "digits_val (s @ replicate k CHR ''0'') = digits_val s * 10 ^ k"
  using digits_val_append[of s "replicate k CHR ''0''"] digits_val_zeros[of k "[]"] by simp

lemma frac_val_trailing: "frac_val (s @ replicate k CHR ''0'') = frac_val s"
  by (simp add: frac_val_def digits_val_trailing power_add)

lemma trimmed_fraction:
  assumes "fraction_text f"
  defines "f' \<equiv> trim_end_matches CHR ''.'' (trim_end_matches CHR ''0'' f)"
  shows "fraction_text f'" "frac_val (tl f') = frac_val (tl f)" "f' = [] \<or> last f' \<noteq> CHR ''0''"
proof -
  have "fraction_text f' \<and> frac_val (tl f') = frac_val (tl f) \<and> (f' = [] \<or> last f' \<noteq> CHR ''0'')"
  proof (cases f)
    case Nil
    then show ?thesis by (simp add: f'_def trim_end_matches_def fraction_text_def)
  next
    case (Cons c ds)
    with assms(1) have f: "f = CHR ''.'' # ds" and ds: "list_all is_ascii_digit ds" by (auto simp: fraction_text_def)
    let ?t = "trim_end_matches CHR ''0'' f"
    obtain k where k: "f = ?t @ replicate k CHR ''0''" "?t = [] \<or> last ?t \<noteq> CHR ''0''" using trim_end_split by blast
    have "?t \<noteq> []"
    proof
      assume "?t = []"
      then have "CHR ''.'' # ds = replicate k CHR ''0''" using k(1) f by simp
      then show False by (cases k) auto
    qed
    then obtain r where r: "?t = CHR ''.'' # r" "ds = r @ replicate k CHR ''0''"
      using k(1) f by (cases ?t) auto
    have rd: "list_all is_ascii_digit r" using ds r(2) by simp
    show ?thesis
    proof (cases "r = []")
      case True
      have "f' = []" unfolding f'_def r(1) True by (simp add: trim_end_matches_def)
      moreover have "frac_val (tl f) = 0" using f r(2) True digits_val_trailing[of "[]" k] by (simp add: frac_val_def)
      ultimately show ?thesis by (simp add: fraction_text_def frac_val_def)
    next
      case False
      have "is_ascii_digit (last r)" using rd False by (simp add: list_all_iff)
      then have "last r \<noteq> CHR ''.''" using sign_not_digit(3) by auto
      then have "hd (rev r) \<noteq> CHR ''.''" "rev r \<noteq> []" using False by (simp_all add: hd_rev)
      then have "f' = ?t" unfolding f'_def r(1) by (cases "rev r") (auto simp: trim_end_matches_def)
      then show ?thesis using r f rd False k(2) frac_val_trailing by (auto simp: fraction_text_def)
    qed
  qed
  then show "fraction_text f'" "frac_val (tl f') = frac_val (tl f)" "f' = [] \<or> last f' \<noteq> CHR ''0''" by auto
qed

lemma nat_to_string_length: "n < 10 ^ w \<Longrightarrow> 0 < w \<Longrightarrow> length (nat_to_string n) \<le> w"
proof (induction w arbitrary: n)
  case (Suc w)
  show ?case
  proof (cases "n < 10")
    case False
    then have "0 < w" using Suc.prems(1) by (cases w) auto
    moreover have "n div 10 < 10 ^ w" using Suc.prems(1) by (simp add: less_mult_imp_div_less mult.commute)
    ultimately show ?thesis using Suc.IH[of "n div 10"] False by (subst nat_to_string.simps) simp
  qed (subst nat_to_string.simps, simp)
qed simp

lemma pad_zero_digits:
  assumes "n < 10 ^ w" "0 < w"
  shows "digit_string w (pad_zero w n)" "digits_val (pad_zero w n) = n"
  using nat_to_string_length[OF assms] nat_to_string_digits[of n]
  by (auto simp: pad_zero_def digit_string_def digits_val_zeros list_all_iff is_ascii_digit_def)

section \<open>Conversion keeps the instant\<close>

definition utc_stamp :: "stamp \<Rightarrow> civil \<Rightarrow> stamp" where
  "utc_stamp p c = (case c of (m, y, mo, d) \<Rightarrow>
     p\<lparr>st_year := pad_zero 4 y, st_month := pad_zero 2 mo, st_day := pad_zero 2 d,
       st_hour := pad_zero 2 (nat m div 60), st_minute := pad_zero 2 (nat m mod 60),
       st_fraction := trim_end_matches CHR ''.'' (trim_end_matches CHR ''0'' (st_fraction p)),
       st_zone := ''Z''\<rparr>)"

lemma utc_stamp_text:
  "format_timestamp c (st_second p) (trim_end_matches CHR ''.'' (trim_end_matches CHR ''0'' (st_fraction p))) =
   stamp_text (utc_stamp p c)"
  by (cases c) (simp add: format_timestamp_def utc_stamp_def stamp_text_def date_text_def)

lemma utc_stamp_ok:
  assumes p: "stamp_ok p" and c: "civil_ok c" "0 \<le> fst c" "fst c < 1440" "fst (snd c) < 10000"
  shows "stamp_ok (utc_stamp p c)" "stamp_minutes (utc_stamp p c) = civil_minutes c"
proof -
  obtain m y mo d where cc: "c = (m, y, mo, d)" by (cases c) auto
  have v: "valid_date y mo d" using c(1) by (simp add: civil_ok_def cc)
  have r: "y < 10 ^ 4" "mo < 10 ^ 2" "d < 10 ^ 2" "nat m div 60 < 10 ^ 2" "nat m mod 60 < 10 ^ 2"
    using c v days_in_month_le[of y mo] by (auto simp: cc valid_date_def)
  note pads = pad_zero_digits[OF r(1)] pad_zero_digits[OF r(2)] pad_zero_digits[OF r(3)]
    pad_zero_digits[OF r(4)] pad_zero_digits[OF r(5)]
  have "nat m div 60 \<le> 23" using c(2,3) by (auto simp: cc)
  moreover have "nat m mod 60 \<le> 59" using pos_mod_bound[of 60 "nat m"] by linarith
  ultimately show "stamp_ok (utc_stamp p c)"
    using p v pads trimmed_fraction(1)[of "st_fraction p"]
    by (simp add: cc utc_stamp_def stamp_ok_def date_parts_def zone_text_def)
  have "int (nat m div 60) * 60 + int (nat m mod 60) = m"
    using c(2) div_mult_mod_eq[of "nat m" 60] by (simp add: cc zdiv_int zmod_int)
  then show "stamp_minutes (utc_stamp p c) = civil_minutes c"
    using pads by (simp add: cc utc_stamp_def stamp_minutes_def civil_minutes_def zone_offset_def)
qed

lemma civil_year_bound:
  assumes "civil_ok c" "0 \<le> fst c" "civil_minutes c < day_number 10000 1 1 * 1440"
  shows "fst (snd c) < 10000"
proof (rule ccontr)
  obtain m y mo d where cc: "c = (m, y, mo, d)" by (cases c) auto
  assume "\<not> fst (snd c) < 10000"
  then have y: "10000 \<le> y" by (simp add: cc)
  have v: "valid_date y mo d" "valid_date 10000 1 1"
    using assms(1) by (simp_all add: civil_ok_def cc valid_date_def days_in_month_def)
  have "day_number 10000 1 1 \<le> day_number y mo d"
  proof (cases "y = 10000")
    case True
    have "month_start y 1 \<le> month_start y mo" using v(1) by (intro month_start_le) (simp add: valid_date_def)
    then show ?thesis using v(1) True by (simp add: day_number_def valid_date_def)
  next
    case False
    then show ?thesis using day_number_less_year[OF v(2,1)] y by simp
  qed
  then have "day_number 10000 1 1 * 1440 \<le> day_number y mo d * 1440" by (rule mult_right_mono) simp
  then show False using assms(2,3) unfolding civil_minutes_def cc prod.case fst_conv by linarith
qed

text \<open>The conversion of a timestamp with an offset, up to the two loops.\<close>

lemma offset_conversion:
  assumes p: "stamp_ok p" and z: "offset_text s oh om (st_zone p)"
  shows "canonical_timestamp_utc (stamp_text p) =
    Option.bind (borrow_days (int (digits_val (st_hour p)) * 60 + int (digits_val (st_minute p)) - zone_offset (st_zone p),
        digits_val (st_year p), digits_val (st_month p), digits_val (st_day p))) (\<lambda>c.
    Option.bind (carry_days c) (\<lambda>c'. Some (stamp_text (utc_stamp p c'))))"
proof -
  have zz: "st_zone p = s # oh @ '':'' @ om" "s \<in> {CHR ''+'', CHR ''-''}" "digit_string 2 oh" "digit_string 2 om"
    using z by (auto simp: offset_text_def)
  then have zo: "zone_offset (st_zone p) = (if s = CHR ''+'' then 1 else - 1) * (int (digits_val oh) * 60 + int (digits_val om))"
    by (auto simp: zone_offset_def slice_def digit_string_def)
  let ?k = "19 + length (st_fraction p)"
  note zs = stamp_zone_start[OF p] and sl = stamp_slices[OF p]
  have so: "slice (?k + 1) (?k + 3) (stamp_text p) = oh" "slice (?k + 4) (?k + 6) (stamp_text p) = om"
    using zz unfolding slice_drop[OF zs(2)] by (simp_all add: slice_def digit_string_def)
  have fields: "digit_string 4 (st_year p)" "digit_string 2 (st_month p)" "digit_string 2 (st_day p)"
    "digit_string 2 (st_hour p)" "digit_string 2 (st_minute p)" using p by (auto simp: stamp_ok_def date_parts_def)
  note parse = fields[THEN parse_digit_string] zz(3,4)[THEN parse_digit_string]
  have sign: "zone_sign (stamp_text p) = Some (if s = CHR ''+'' then 1 else - 1)" "byte_at (stamp_text p) ?k \<noteq> Some CHR ''Z''"
    using zz zs(1,5) by (auto simp: zone_sign_def)
  have frac: "timestamp_fraction (stamp_text p) = trim_end_matches CHR ''.'' (trim_end_matches CHR ''0'' (st_fraction p))"
    using zs(1,3) by (simp add: timestamp_fraction_def)
  show ?thesis
    unfolding canonical_timestamp_utc_def Let_def zs(1) if_not_P[OF sign(2)] sign(1) so sl frac
    by (simp add: parse zo utc_stamp_text)
qed

lemma utc_conversion:
  assumes p: "stamp_ok p" and early: "stamp_minutes p < day_number 10000 1 1 * 1440"
  shows "case canonical_timestamp_utc (stamp_text p) of
      Some w \<Rightarrow> (\<exists>p'. w = stamp_text p' \<and> stamp_ok p' \<and> st_zone p' = ''Z'' \<and> stamp_minutes p' = stamp_minutes p \<and>
        st_second p' = st_second p \<and> frac_val (tl (st_fraction p')) = frac_val (tl (st_fraction p)) \<and>
        (st_fraction p' = [] \<or> last (st_fraction p') \<noteq> CHR ''0''))
    | None \<Rightarrow> stamp_minutes p < day_number 1 1 1 * 1440"
proof -
  have ft: "fraction_text (st_fraction p)" using p by (simp add: stamp_ok_def)
  note tf = trimmed_fraction[OF ft]
  consider (Z) "st_zone p = ''Z''" | (off) s oh om where "offset_text s oh om (st_zone p)"
    using p by (auto simp: stamp_ok_def zone_text_def)
  then show ?thesis
  proof cases
    case Z
    let ?p = "p\<lparr>st_fraction := trim_end_matches CHR ''.'' (trim_end_matches CHR ''0'' (st_fraction p))\<rparr>"
    have "canonical_timestamp_utc (stamp_text p) = Some (slice 0 19 (stamp_text p) @ st_fraction ?p @ ''Z'')"
      using stamp_zone_start[OF p] Z by (simp add: canonical_timestamp_utc_def timestamp_fraction_def)
    also have "slice 0 19 (stamp_text p) @ st_fraction ?p @ ''Z'' = stamp_text ?p"
      using stamp_lengths[OF p] Z by (simp add: slice_def stamp_text_def date_text_def)
    finally show ?thesis
      using p tf Z by (auto simp: stamp_ok_def date_parts_def stamp_minutes_def intro!: exI[of _ ?p])
  next
    case off
    let ?c = "(int (digits_val (st_hour p)) * 60 + int (digits_val (st_minute p)) - zone_offset (st_zone p),
        digits_val (st_year p), digits_val (st_month p), digits_val (st_day p))"
    have ok: "civil_ok ?c" and min: "civil_minutes ?c = stamp_minutes p"
      using p by (simp_all add: civil_ok_def stamp_ok_def date_parts_def civil_minutes_def stamp_minutes_def)
    have yr: "digits_val (st_year p) < 10 ^ 4"
      using p digits_val_bound[of "st_year p"] by (auto simp: stamp_ok_def date_parts_def digit_string_def)
    have zb: "\<bar>zone_offset (st_zone p)\<bar> \<le> 1439"
      using off by (auto simp: offset_text_def zone_offset_def digit_string_def slice_def)
    have fb: "fst ?c \<le> 2878" using zb p by (auto simp: stamp_ok_def)
    show ?thesis
    proof (cases "borrow_days ?c")
      case None
      then show ?thesis
        using borrow_days_correct[OF ok] min offset_conversion[OF p off] by simp
    next
      case (Some c)
      have c: "civil_ok c" "civil_minutes c = stamp_minutes p" "0 \<le> fst c" "fst c \<le> 2878"
        using borrow_days_correct[OF ok] Some min fb by auto
      have y: "fst (snd c) < 10000" using civil_year_bound[OF c(1,3)] c(2) early by simp
      obtain c' where c': "carry_days c = Some c'" "civil_ok c'" "civil_minutes c' = civil_minutes c" "0 \<le> fst c'" "fst c' < 1440"
        using carry_days_correct[OF c(1,3)] c(4) y by auto
      have y': "fst (snd c') < 10000" using civil_year_bound[OF c'(2,4)] c(2) c'(3) early by simp
      have "canonical_timestamp_utc (stamp_text p) = Some (stamp_text (utc_stamp p c'))"
        using offset_conversion[OF p off] Some c'(1) by simp
      moreover have "st_zone (utc_stamp p c') = ''Z''" "st_second (utc_stamp p c') = st_second p"
        "st_fraction (utc_stamp p c') = trim_end_matches CHR ''.'' (trim_end_matches CHR ''0'' (st_fraction p))"
        by (cases c'; simp add: utc_stamp_def)+
      ultimately show ?thesis
        using utc_stamp_ok[OF p c'(2,4,5) y'] c(2) c'(3) tf
        by (auto intro!: exI[of _ "utc_stamp p c'"])
    qed
  qed
qed

section \<open>The order of UTC forms\<close>

definition ord_then :: "ordering \<Rightarrow> ordering \<Rightarrow> ordering" where
  "ord_then c d = (case c of Equal \<Rightarrow> d | _ \<Rightarrow> c)"

lemma ord_then_simps [simp]: "ord_then Equal d = d" "ord_then Less d = Less" "ord_then Greater d = Greater"
  by (simp_all add: ord_then_def)

lemma cmp_simps: "cmp a b = Less \<longleftrightarrow> a < b" "cmp a b = Equal \<longleftrightarrow> a = b" "cmp a b = Greater \<longleftrightarrow> b < a"
  for a :: "'a::linorder"
  by (auto simp: cmp_def)

lemma cmp_refl [simp]: "cmp a a = Equal"
  by (simp add: cmp_def)

lemma cmp_then:
  assumes "a < a' \<Longrightarrow> x < x'" "a' < a \<Longrightarrow> x' < x" "a = a' \<Longrightarrow> cmp x x' = d"
  shows "cmp x x' = ord_then (cmp a a') d"
  using assms by (cases a a' rule: linorder_cases) (auto simp: cmp_def)

lemma cmp_append:
  "length s = length t \<Longrightarrow> cmp (s @ u) (t @ v) = ord_then (cmp s t) (cmp u v)" for s t :: "'a::linorder list"
proof (induction s t rule: list_induct2)
  case (Cons a s b t)
  consider "a < b" | "a = b" | "b < a" by fastforce
  then show ?case using Cons.IH by cases (auto simp: cmp_def ord_then_def split: if_splits)
qed simp

lemma char_less_iff: "a < b \<longleftrightarrow> (byte_of a :: nat) < byte_of b"
  by (simp add: less_char_def)

lemma digits_val_Cons: "digits_val (c # s) = digit_val c * 10 ^ length s + digits_val s"
  using digits_val_append[of "[c]" s] digits_val_snoc[of "[]" c] by simp

lemma cmp_scaled:
  fixes a b a' b' k :: nat
  assumes "b < k" "b' < k"
  shows "cmp (a * k + b) (a' * k + b') = ord_then (cmp a a') (cmp b b')"
proof -
  have lt: "a * k + b < a' * k + b'" if "a < a'" "b < k" for a a' b b' :: nat
  proof -
    have "a * k + b < Suc a * k" using that by simp
    also have "\<dots> \<le> a' * k" using that by (intro mult_right_mono) auto
    finally show ?thesis by simp
  qed
  show ?thesis by (rule cmp_then) (use lt assms in \<open>auto simp: cmp_def\<close>)
qed

lemma cmp_digits_char:
  assumes "is_ascii_digit a" "is_ascii_digit b"
  shows "cmp a b = cmp (digit_val a) (digit_val b)"
proof -
  have "a = b \<longleftrightarrow> digit_val a = digit_val b" using assms by (metis digit_char_digit_val)
  moreover have "a < b \<longleftrightarrow> digit_val a < digit_val b"
    using assms unfolding char_less_iff digit_val_def is_ascii_digit_def by linarith
  ultimately show ?thesis by (simp add: cmp_def)
qed

lemma cmp_digit_strings:
  assumes "digit_string w s" "digit_string w t"
  shows "cmp s t = cmp (digits_val s) (digits_val t)"
proof -
  have "length s = length t" "list_all is_ascii_digit s" "list_all is_ascii_digit t"
    using assms by (auto simp: digit_string_def)
  then show ?thesis
  proof (induction s t rule: list_induct2)
    case (Cons a s b t)
    have "cmp (a # s) (b # t) = ord_then (cmp a b) (cmp s t)" using cmp_append[of "[a]" "[b]" s t] by (simp add: cmp_def)
    also have "cmp a b = cmp (digit_val a) (digit_val b)" using Cons.prems by (simp add: cmp_digits_char)
    also have "cmp s t = cmp (digits_val s) (digits_val t)" using Cons by simp
    also have "ord_then (cmp (digit_val a) (digit_val b)) (cmp (digits_val s) (digits_val t)) =
        cmp (digits_val (a # s)) (digits_val (b # t))"
      using Cons.prems Cons.hyps digits_val_bound[of s] digits_val_bound[of t]
      by (simp add: digits_val_Cons cmp_scaled)
    finally show ?case .
  qed simp
qed

lemma cmp_dates:
  assumes "valid_date y m d" "valid_date y' m' d'"
  shows "ord_then (cmp y y') (ord_then (cmp m m') (cmp d d')) = cmp (day_number y m d) (day_number y' m' d')"
proof -
  consider "y < y'" | "y' < y" | "y = y'" "m < m'" | "y = y'" "m' < m" | "y = y'" "m = m'" by linarith
  then show ?thesis
    using day_number_less_year[OF assms] day_number_less_year[OF assms(2,1)]
      day_number_less_month[of y m d m' d'] day_number_less_month[of y m' d' m d] assms
    by cases (auto simp: cmp_def day_number_def)
qed

lemma cmp_scaled_int:
  fixes a a' :: int
  assumes "b < k" "b' < k"
  shows "cmp (a * int k + int b) (a' * int k + int b') = ord_then (cmp a a') (cmp b b')"
proof -
  have lt: "a * int k + int b < a' * int k + int b'" if "a < a'" "b < k" for a a' :: int and b b' :: nat
  proof -
    have "a * int k + int b < (a + 1) * int k" using that by (simp add: algebra_simps)
    also have "\<dots> \<le> a' * int k" using that by (intro mult_right_mono) auto
    finally show ?thesis by simp
  qed
  show ?thesis by (rule cmp_then) (use lt assms in \<open>auto simp: cmp_def\<close>)
qed

text \<open>The six fields in textual order are compared like the second they denote.\<close>

definition stamp_seconds :: "stamp \<Rightarrow> int" where
  "stamp_seconds p =
     ((day_number (digits_val (st_year p)) (digits_val (st_month p)) (digits_val (st_day p)) * int 24
       + int (digits_val (st_hour p))) * int 60 + int (digits_val (st_minute p))) * int 60
     + int (digits_val (st_second p))"

lemma cmp_prefixes:
  assumes p: "stamp_ok p" and q: "stamp_ok q"
  shows "cmp (slice 0 19 (stamp_text p)) (slice 0 19 (stamp_text q)) = cmp (stamp_seconds p) (stamp_seconds q)"
proof -
  have fields: "digit_string 4 (st_year r)" "digit_string 2 (st_month r)" "digit_string 2 (st_day r)"
    "digit_string 2 (st_hour r)" "digit_string 2 (st_minute r)" "digit_string 2 (st_second r)"
    "valid_date (digits_val (st_year r)) (digits_val (st_month r)) (digits_val (st_day r))"
    "digits_val (st_hour r) < 24" "digits_val (st_minute r) < 60" "digits_val (st_second r) < 60" if "stamp_ok r" for r
    using that by (auto simp: stamp_ok_def date_parts_def)
  note P = fields[OF p] and Q = fields[OF q]
  have pre: "slice 0 19 (stamp_text r) = st_year r @ (''-'' @ (st_month r @ (''-'' @ (st_day r @ (''T'' @
      (st_hour r @ ('':'' @ (st_minute r @ ('':'' @ st_second r)))))))))" if "stamp_ok r" for r
    using stamp_lengths[OF that] by (simp add: slice_def stamp_text_def date_text_def)
  have sep: "cmp (c # u) (c # v) = cmp u v" for c :: char and u v by (simp add: cmp_def)
  have "cmp (slice 0 19 (stamp_text p)) (slice 0 19 (stamp_text q)) =
      ord_then (cmp (st_year p) (st_year q)) (ord_then (cmp (st_month p) (st_month q))
       (ord_then (cmp (st_day p) (st_day q)) (ord_then (cmp (st_hour p) (st_hour q))
        (ord_then (cmp (st_minute p) (st_minute q)) (cmp (st_second p) (st_second q))))))"
    using stamp_lengths[OF p] stamp_lengths[OF q] unfolding pre[OF p] pre[OF q]
    by (simp add: cmp_append sep)
  also have "\<dots> = ord_then (cmp (day_number (digits_val (st_year p)) (digits_val (st_month p)) (digits_val (st_day p)))
        (day_number (digits_val (st_year q)) (digits_val (st_month q)) (digits_val (st_day q))))
       (ord_then (cmp (digits_val (st_hour p)) (digits_val (st_hour q)))
        (ord_then (cmp (digits_val (st_minute p)) (digits_val (st_minute q)))
         (cmp (digits_val (st_second p)) (digits_val (st_second q)))))"
    using cmp_dates[OF P(7) Q(7)] P Q
    by (simp add: cmp_digit_strings ord_then_def split: ordering.splits)
  also have "\<dots> = cmp (stamp_seconds p) (stamp_seconds q)"
    unfolding stamp_seconds_def cmp_scaled_int[OF P(10) Q(10)] cmp_scaled_int[OF P(9) Q(9)] cmp_scaled_int[OF P(8) Q(8)]
    by (simp add: ord_then_def split: ordering.splits)
  finally show ?thesis .
qed

lemma frac_val_Cons: "frac_val (c # s) = (of_nat (digit_val c) + frac_val s) / 10"
  by (simp add: frac_val_def digits_val_Cons field_simps)

lemma frac_val_bounds: "list_all is_ascii_digit s \<Longrightarrow> 0 \<le> frac_val s \<and> frac_val s < 1"
  using digits_val_bound[of s] by (simp add: frac_val_def divide_less_eq)

lemma cmp_tenth:
  fixes x y :: rat
  assumes "0 \<le> x" "x < 1" "0 \<le> y" "y < 1"
  shows "cmp ((of_nat a + x) / 10) ((of_nat b + y) / 10) = ord_then (cmp a b) (cmp x y)"
proof -
  have lt: "of_nat a + x < of_nat b + y" if "a < b" "x < 1" "0 \<le> y" for a b :: nat and x y :: rat
  proof -
    have "of_nat a + x < of_nat (Suc a)" using that(2) by simp
    also have "\<dots> \<le> (of_nat b :: rat)" using that(1) by (simp only: of_nat_le_iff Suc_le_eq)
    finally show ?thesis using that(3) by simp
  qed
  show ?thesis by (rule cmp_then) (use lt assms in \<open>auto simp: cmp_def divide_less_cancel\<close>)
qed

lemma fraction_loop_steps:
  "fraction_loop (a # l) [] = ord_then (cmp (byte_of a :: nat) 48) (fraction_loop l [])"
  "fraction_loop [] (b # r) = ord_then (cmp 48 (byte_of b :: nat)) (fraction_loop [] r)"
  "fraction_loop (a # l) (b # r) = ord_then (cmp (byte_of a :: nat) (byte_of b)) (fraction_loop l r)"
  by (simp_all add: ord_then_def split: ordering.splits)

lemma cmp_digit_bytes:
  assumes "is_ascii_digit a"
  shows "cmp (byte_of a :: nat) 48 = cmp (digit_val a) 0" "cmp 48 (byte_of a :: nat) = cmp 0 (digit_val a)"
    "is_ascii_digit b \<Longrightarrow> cmp (byte_of a :: nat) (byte_of b) = cmp (digit_val a) (digit_val b)"
proof -
  have byte: "(byte_of c :: nat) = 48 + digit_val c" if "is_ascii_digit c" for c
    using that unfolding is_ascii_digit_def digit_val_def by linarith
  show "cmp (byte_of a :: nat) 48 = cmp (digit_val a) 0" "cmp 48 (byte_of a :: nat) = cmp 0 (digit_val a)"
    unfolding byte[OF assms] by (simp_all add: cmp_def)
  show "is_ascii_digit b \<Longrightarrow> cmp (byte_of a :: nat) (byte_of b) = cmp (digit_val a) (digit_val b)"
    unfolding byte[OF assms] by (simp add: byte cmp_def)
qed

lemma frac_val_Nil [simp]: "frac_val [] = 0"
  by (simp add: frac_val_def)

lemma fraction_loop_correct:
  "list_all is_ascii_digit l \<Longrightarrow> list_all is_ascii_digit r \<Longrightarrow> fraction_loop l r = cmp (frac_val l) (frac_val r)"
proof (induction l arbitrary: r)
  case Nil
  then show ?case
  proof (induction r)
    case (Cons b r)
    then show ?case
      using cmp_tenth[of 0 "frac_val r" 0 "digit_val b"] frac_val_bounds[of r]
      by (simp add: fraction_loop_steps(2) cmp_digit_bytes(2) frac_val_Cons del: fraction_loop.simps)
  qed simp
next
  case (Cons a l)
  show ?case
  proof (cases r)
    case Nil
    then show ?thesis
      using Cons.IH[of "[]"] Cons.prems cmp_tenth[of "frac_val l" 0 "digit_val a" 0] frac_val_bounds[of l]
      by (simp add: fraction_loop_steps(1) cmp_digit_bytes(1) frac_val_Cons del: fraction_loop.simps)
  next
    case r: (Cons b r')
    then show ?thesis
      using Cons.IH[of r'] Cons.prems cmp_tenth[of "frac_val l" "frac_val r'" "digit_val a" "digit_val b"]
        frac_val_bounds[of l] frac_val_bounds[of r']
      by (simp add: fraction_loop_steps(3) cmp_digit_bytes(3) frac_val_Cons del: fraction_loop.simps)
  qed
qed

lemma utc_fraction:
  assumes "stamp_ok p" "st_zone p = ''Z''"
  shows "canonical_timestamp_fraction (stamp_text p) = Some (tl (st_fraction p))"
proof -
  let ?v = "stamp_text p"
  note sl = stamp_slices[OF assms(1)] and zs = stamp_zone_start[OF assms(1)]
  have f: "fraction_text (st_fraction p)" using assms(1) by (simp add: stamp_ok_def)
  have len: "length ?v = 20 + length (st_fraction p)" using sl(12) assms(2) by simp
  have dot: "byte_at ?v 19 = Some CHR ''.'' \<longleftrightarrow> st_fraction p \<noteq> []"
    using zone_start_text(5)[OF f _ sl(11)] assms len by (simp add: stamp_ok_def)
  have last: "last ?v = CHR ''Z''" using assms(2) by (simp add: stamp_text_def)
  show ?thesis
  proof (cases "st_fraction p = []")
    case True
    then have "byte_at ?v 19 = Some CHR ''Z''" using zs(5) assms(2) by simp
    then show ?thesis using len True by (simp add: canonical_timestamp_fraction_def)
  next
    case False
    then have d: "byte_at ?v 19 = Some CHR ''.''" using dot by simp
    have "slice 20 (length ?v - 1) ?v = tl (st_fraction p)" using zs(4) len by simp
    moreover have "20 \<le> length ?v - 1" "?v \<noteq> []" using len False by (auto simp: Suc_le_eq)
    ultimately show ?thesis using d last by (simp add: canonical_timestamp_fraction_def)
  qed
qed

lemma stamp_seconds_minutes: "st_zone p = ''Z'' \<Longrightarrow> stamp_seconds p = stamp_minutes p * 60 + int (digits_val (st_second p))"
  by (simp add: stamp_seconds_def stamp_minutes_def zone_offset_def)

lemma cmp_int_frac:
  fixes x y :: rat and a b :: int
  assumes "0 \<le> x" "x < 1" "0 \<le> y" "y < 1"
  shows "cmp (of_int a + x) (of_int b + y) = ord_then (cmp a b) (cmp x y)"
proof (rule cmp_then)
  have lt: "of_int a + x < of_int b + (y::rat)" if "a < b" "x < 1" "0 \<le> y" for a b :: int and x y :: rat
  proof -
    have "of_int a + x < of_int (a + 1)" using that(2) by simp
    also have "\<dots> \<le> (of_int b :: rat)" using that(1) by (simp only: of_int_le_iff zless_imp_add1_zle)
    finally show ?thesis using that(3) by simp
  qed
  show "a < b \<Longrightarrow> of_int a + x < of_int b + y" "b < a \<Longrightarrow> of_int b + y < of_int a + x" using lt assms by auto
  show "a = b \<Longrightarrow> cmp (of_int a + x) (of_int b + y) = cmp x y" by (simp add: cmp_def)
qed

lemma utc_order:
  assumes p: "stamp_ok p" "st_zone p = ''Z''" and q: "stamp_ok q" "st_zone q = ''Z''"
  shows "compare_canonical_timestamps (stamp_text p) (stamp_text q) =
    Some (cmp (instant (stamp_text p)) (instant (stamp_text q)))"
proof -
  have dig: "list_all is_ascii_digit (tl (st_fraction r))" if "stamp_ok r" for r
    using that by (auto simp: stamp_ok_def fraction_text_def)
  have len: "\<not> length (stamp_text r) < 19" if "stamp_ok r" for r using stamp_slices(12)[OF that] by simp
  note fr = utc_fraction[OF p] utc_fraction[OF q]
  have "compare_canonical_timestamps (stamp_text p) (stamp_text q) =
      Some (ord_then (cmp (stamp_seconds p) (stamp_seconds q)) (fraction_loop (tl (st_fraction p)) (tl (st_fraction q))))"
    using len[OF p(1)] len[OF q(1)]
    by (simp add: compare_canonical_timestamps_def cmp_prefixes[OF p(1) q(1)] fr ord_then_def split: ordering.splits)
  also have "\<dots> = Some (cmp (instant (stamp_text p)) (instant (stamp_text q)))"
    using frac_val_bounds[OF dig[OF p(1)]] frac_val_bounds[OF dig[OF q(1)]]
    by (simp add: fraction_loop_correct dig p(1) q(1) stamp_instant(2) cmp_int_frac
        stamp_seconds_minutes[OF p(2)] stamp_seconds_minutes[OF q(2)] flip: of_int_mult of_int_add)
  finally show ?thesis .
qed

lemma utc_zone:
  assumes "stamp_ok p" "last (stamp_text p) = CHR ''Z''"
  shows "st_zone p = ''Z''"
proof (rule ccontr)
  assume "st_zone p \<noteq> ''Z''"
  then obtain s oh om where z: "offset_text s oh om (st_zone p)" using assms(1) by (auto simp: stamp_ok_def zone_text_def)
  then have om: "digit_string 2 om" "st_zone p = (s # oh @ '':'') @ om" by (auto simp: offset_text_def)
  then have "om \<noteq> []" by (auto simp: digit_string_def)
  then have "last (stamp_text p) = last om" using om(2) by (simp add: stamp_text_def)
  moreover have "is_ascii_digit (last om)" using om(1) \<open>om \<noteq> []\<close> by (auto simp: digit_string_def list_all_iff)
  moreover have "\<not> is_ascii_digit CHR ''Z''" by (simp add: is_ascii_digit_def)
  ultimately show False using assms(2) by auto
qed

lemma utc_form_fraction:
  assumes "is_canonical_timestamp v" "last v = CHR ''Z''"
  shows "20 \<le> length v \<and> canonical_timestamp_fraction v \<noteq> None"
proof -
  obtain p where p: "stamp_ok p" "v = stamp_text p" using timestamp_shape[OF assms(1)] .
  then have "st_zone p = ''Z''" using utc_zone assms(2) by simp
  then show ?thesis using utc_fraction[OF p(1)] stamp_slices(12)[OF p(1)] p(2) by simp
qed

section \<open>UTC forms are fixed points\<close>

lemma pad_zero_all_digits: "list_all is_ascii_digit (pad_zero w n)"
  by (auto simp: pad_zero_def nat_to_string_digits list_all_iff is_ascii_digit_def)
     (use nat_to_string_digits[of n] in \<open>auto simp: list_all_iff is_ascii_digit_def\<close>)

lemma no_dot: "list_all is_ascii_digit s \<Longrightarrow> CHR ''.'' \<notin> set s"
  using sign_not_digit(3) by (auto simp: list_all_iff)

text \<open>The text of every conversion: fields without a dot, then the trimmed fraction, then the zone.\<close>

lemma utc_text_shape:
  assumes p: "stamp_ok p" and u: "canonical_timestamp_utc (stamp_text p) = Some w"
  shows "\<exists>a. CHR ''.'' \<notin> set a \<and>
    w = a @ trim_end_matches CHR ''.'' (trim_end_matches CHR ''0'' (st_fraction p)) @ ''Z''"
proof (cases "st_zone p = ''Z''")
  case True
  note zs = stamp_zone_start[OF p]
  let ?a = "date_text p @ ''T'' @ st_hour p @ '':'' @ st_minute p @ '':'' @ st_second p"
  have "slice 0 19 (stamp_text p) = ?a"
    using stamp_lengths[OF p] by (simp add: stamp_text_def date_text_def slice_def)
  then have "w = ?a @ trim_end_matches CHR ''.'' (trim_end_matches CHR ''0'' (st_fraction p)) @ ''Z''"
    using u zs True by (simp add: canonical_timestamp_utc_def timestamp_fraction_def)
  moreover have "CHR ''.'' \<notin> set ?a"
    using p by (auto simp: stamp_ok_def date_parts_def digit_string_def date_text_def dest!: no_dot)
  ultimately show ?thesis by blast
next
  case False
  then obtain s oh om where z: "offset_text s oh om (st_zone p)" using p by (auto simp: stamp_ok_def zone_text_def)
  from u obtain c where w: "w = stamp_text (utc_stamp p c)"
    unfolding offset_conversion[OF p z] by (auto simp: bind_eq_Some_conv)
  have s: "CHR ''.'' \<notin> set (st_second p)" using p by (auto simp: stamp_ok_def digit_string_def dest!: no_dot)
  have pads: "CHR ''.'' \<notin> set (pad_zero k n)" for k n by (rule no_dot) (rule pad_zero_all_digits)
  obtain m y mo d where c: "c = (m, y, mo, d)" by (cases c) auto
  let ?a = "pad_zero 4 y @ ''-'' @ pad_zero 2 mo @ ''-'' @ pad_zero 2 d @ ''T'' @ pad_zero 2 (nat m div 60) @ '':'' @
    pad_zero 2 (nat m mod 60) @ '':'' @ st_second p"
  have "CHR ''.'' \<notin> set ?a" using s pads by simp
  moreover have "w = ?a @ trim_end_matches CHR ''.'' (trim_end_matches CHR ''0'' (st_fraction p)) @ ''Z''"
    by (simp add: w c utc_stamp_def stamp_text_def date_text_def)
  ultimately show ?thesis by blast
qed

lemma trim_fixed: "fraction_text f \<Longrightarrow> f = [] \<or> last f \<noteq> CHR ''0'' \<Longrightarrow>
    trim_end_matches CHR ''.'' (trim_end_matches CHR ''0'' f) = f"
proof (cases "f = []")
  case False
  assume f: "fraction_text f" "f = [] \<or> last f \<noteq> CHR ''0''"
  then obtain ds where ds: "f = CHR ''.'' # ds" "ds \<noteq> []" "list_all is_ascii_digit ds"
    using False by (auto simp: fraction_text_def)
  then have "is_ascii_digit (last f)" by (simp add: list_all_iff)
  then have "hd (rev f) \<noteq> CHR ''.''" "hd (rev f) \<noteq> CHR ''0''" "rev f \<noteq> []"
    using f(2) False sign_not_digit(3) by (auto simp: hd_rev)
  then show ?thesis by (cases "rev f") (auto simp: trim_end_matches_def)
qed (simp add: trim_end_matches_def)

lemma utc_idempotent:
  assumes "is_canonical_timestamp v" "canonical_timestamp_utc v = Some w"
    and "is_canonical_timestamp w" "last w = CHR ''Z''"
  shows "canonical_timestamp_utc w = Some w"
proof -
  obtain p where p: "stamp_ok p" "v = stamp_text p" using timestamp_shape[OF assms(1)] .
  obtain q where q: "stamp_ok q" "w = stamp_text q" using timestamp_shape[OF assms(3)] .
  have z: "st_zone q = ''Z''" using utc_zone q assms(4) by simp
  let ?f = "trim_end_matches CHR ''.'' (trim_end_matches CHR ''0'' (st_fraction p))"
  obtain a where a: "CHR ''.'' \<notin> set a" "w = a @ ?f @ ''Z''" using utc_text_shape[OF p(1)] assms(2) p(2) by auto
  have fq: "fraction_text (st_fraction q)" and fp: "fraction_text (st_fraction p)"
    using p(1) q(1) by (auto simp: stamp_ok_def)
  obtain b where b: "w = b @ st_fraction q @ ''Z''" using q(2) z by (auto simp: stamp_text_def)
  have last: "st_fraction q = [] \<or> last (st_fraction q) \<noteq> CHR ''0''"
  proof (rule disjCI)
    assume "\<not> last (st_fraction q) \<noteq> CHR ''0''"
    then have l0: "last (st_fraction q) = CHR ''0''" by simp
    show "st_fraction q = []"
    proof (rule ccontr)
      assume ne: "st_fraction q \<noteq> []"
      then have "CHR ''.'' \<in> set (butlast w)" using fq b by (auto simp: fraction_text_def butlast_append)
      then have "?f \<noteq> []" using a by (auto simp: butlast_append)
      moreover have "last (butlast w) = last (st_fraction q)" using b ne by (simp add: butlast_append)
      moreover have "last (butlast w) = last ?f" using a(2) \<open>?f \<noteq> []\<close> by (simp add: butlast_append)
      ultimately show False using trimmed_fraction(3)[OF fp] l0 by simp
    qed
  qed
  note zs = stamp_zone_start[OF q(1)]
  have "slice 0 19 (stamp_text q) =
      date_text q @ ''T'' @ st_hour q @ '':'' @ st_minute q @ '':'' @ st_second q"
    using stamp_lengths[OF q(1)] by (simp add: stamp_text_def date_text_def slice_def)
  then show ?thesis
    using zs z trim_fixed[OF fq last] q(2)
    by (simp add: canonical_timestamp_utc_def timestamp_fraction_def stamp_text_def)
qed

section \<open>Properties\<close>

text \<open>
  \<open>is_canonical_date\<close> accepts exactly the ten-byte texts \<open>YYYY-MM-DD\<close> of digits whose numbers form a
  date of the Gregorian calendar with a positive year.
\<close>

theorem canonical_date_is_calendar_date:
  "is_canonical_date v \<longleftrightarrow> (\<exists>y m d. v = y @ ''-'' @ m @ ''-'' @ d \<and>
     length y = 4 \<and> length m = 2 \<and> length d = 2 \<and> list_all is_ascii_digit (y @ m @ d) \<and>
     valid_date (digits_val y) (digits_val m) (digits_val d))"
  unfolding date_recognizer digit_string_def by auto

text \<open>
  (C27) Converting a canonical timestamp to UTC keeps the instant it denotes: the result is a canonical
  timestamp in UTC with the same instant, for every timestamp before the year 10000 in UTC. The
  conversion gives up only on instants before the year 1.
\<close>

theorem timestamp_utc_keeps_instant:
  assumes "is_canonical_timestamp v" "utc_minutes_of v < day_number 10000 1 1 * 1440"
  shows "case canonical_timestamp_utc v of
      Some w \<Rightarrow> is_canonical_timestamp w \<and> last w = CHR ''Z'' \<and> instant w = instant v
    | None \<Rightarrow> utc_minutes_of v < day_number 1 1 1 * 1440"
proof -
  obtain p where p: "stamp_ok p" and v: "v = stamp_text p" using timestamp_shape[OF assms(1)] .
  have early: "stamp_minutes p < day_number 10000 1 1 * 1440" using assms(2) stamp_instant(1)[OF p] v by simp
  show ?thesis
  proof (cases "canonical_timestamp_utc v")
    case None
    then show ?thesis using utc_conversion[OF p early] stamp_instant(1)[OF p] v by simp
  next
    case (Some w)
    then obtain p' where p': "w = stamp_text p'" "stamp_ok p'" "st_zone p' = ''Z''" "stamp_minutes p' = stamp_minutes p"
      "st_second p' = st_second p" "frac_val (tl (st_fraction p')) = frac_val (tl (st_fraction p))"
      using utc_conversion[OF p early] v by auto
    have "instant w = instant v" using stamp_instant(2)[OF p] stamp_instant(2)[OF p'(2)] p' v by simp
    moreover have "last w = CHR ''Z''" using p'(1,3) by (simp add: stamp_text_def)
    ultimately show ?thesis using Some stamp_canonical[OF p'(2)] p'(1) by simp
  qed
qed

theorem timestamp_utc_keeps_instant_witness:
  "canonical_timestamp_utc ''0004-03-01T00:30:00.500+01:00'' = Some ''0004-02-29T23:30:00.5Z'' \<and>
   instant ''0004-02-29T23:30:00.5Z'' = instant ''0004-03-01T00:30:00.500+01:00''"
proof -
  have c: "is_canonical_timestamp ''0004-03-01T00:30:00.500+01:00''"
    and u: "canonical_timestamp_utc ''0004-03-01T00:30:00.500+01:00'' = Some ''0004-02-29T23:30:00.5Z''"
    by code_simp+
  have "digits_val (slice 0 4 ''0004-03-01T00:30:00.500+01:00'') = 4"
    "digits_val (slice 5 7 ''0004-03-01T00:30:00.500+01:00'') = 3"
    "digits_val (slice 8 10 ''0004-03-01T00:30:00.500+01:00'') = 1"
    "digits_val (slice 11 13 ''0004-03-01T00:30:00.500+01:00'') = 0"
    "digits_val (slice 14 16 ''0004-03-01T00:30:00.500+01:00'') = 30"
    "zone_offset (drop (zone_start_of ''0004-03-01T00:30:00.500+01:00'') ''0004-03-01T00:30:00.500+01:00'') = 60"
    by code_simp+
  then have m: "utc_minutes_of ''0004-03-01T00:30:00.500+01:00'' = day_number 4 3 1 * 1440 - 30"
    by (simp add: utc_minutes_of_def)
  have "day_number 4 3 1 < day_number 10000 1 1"
    by (rule day_number_less_year) (simp_all add: valid_date_def days_in_month_def)
  then have "utc_minutes_of ''0004-03-01T00:30:00.500+01:00'' < day_number 10000 1 1 * 1440" unfolding m by linarith
  from timestamp_utc_keeps_instant[OF c this] u show ?thesis by simp
qed

text \<open>
  (C28) The byte-wise comparison of UTC timestamps is the comparison of the instants they denote, for
  fractions of any length; it is defined on every pair of canonical UTC timestamps.
\<close>

theorem timestamp_order_is_chronological:
  assumes "is_canonical_timestamp v" "last v = CHR ''Z''" "is_canonical_timestamp w" "last w = CHR ''Z''"
  shows "compare_canonical_timestamps v w = Some (cmp (instant v) (instant w))"
proof -
  obtain p where p: "stamp_ok p" "v = stamp_text p" using timestamp_shape[OF assms(1)] .
  obtain q where q: "stamp_ok q" "w = stamp_text q" using timestamp_shape[OF assms(3)] .
  have "st_zone p = ''Z''" "st_zone q = ''Z''" using utc_zone p q assms(2,4) by auto
  then show ?thesis using utc_order[OF p(1) _ q(1)] p(2) q(2) by simp
qed

theorem timestamp_order_is_chronological_witness:
  "compare_canonical_timestamps ''0004-02-29T23:30:00.5Z'' ''0004-02-29T23:30:00.49Z'' = Some Greater \<and>
   instant ''0004-02-29T23:30:00.49Z'' < instant ''0004-02-29T23:30:00.5Z''"
proof -
  have c: "is_canonical_timestamp ''0004-02-29T23:30:00.5Z''" "is_canonical_timestamp ''0004-02-29T23:30:00.49Z''"
    and g: "compare_canonical_timestamps ''0004-02-29T23:30:00.5Z'' ''0004-02-29T23:30:00.49Z'' = Some Greater"
    by code_simp+
  then show ?thesis using timestamp_order_is_chronological[OF c(1) _ c(2)] by (simp add: cmp_simps)
qed

text \<open>
  The conversion does not bound the year: a canonical timestamp at the end of the year 9999 with a
  negative offset becomes a text with a five-digit year. That text is not a canonical timestamp, sorts
  before timestamps of earlier years, and cannot be compared with itself.
\<close>

theorem timestamp_utc_year_overflow:
  "is_canonical_timestamp ''9999-12-31T23:59:59-01:00'' \<and>
   canonical_timestamp_utc ''9999-12-31T23:59:59-01:00'' = Some ''10000-01-01T00:59:59Z'' \<and>
   \<not> is_canonical_timestamp ''10000-01-01T00:59:59Z'' \<and>
   compare_canonical_timestamps ''10000-01-01T00:59:59Z'' ''2024-01-01T00:00:00Z'' = Some Less \<and>
   compare_canonical_timestamps ''10000-01-01T00:59:59Z'' ''10000-01-01T00:59:59Z'' = None"
proof (intro conjI)
  have parse: "parse_two_or_four_digits ''9999'' = Some 9999" "parse_two_or_four_digits ''12'' = Some 12"
    "parse_two_or_four_digits ''31'' = Some 31" "parse_two_or_four_digits ''23'' = Some 23"
    "parse_two_or_four_digits ''59'' = Some 59" "parse_two_or_four_digits ''01'' = Some 1"
    "parse_two_or_four_digits ''00'' = Some 0"
    by (simp_all add: parse_two_or_four_digits_def parse_digits_def is_ascii_digit_def digits_val_def digit_val_def)
  let ?v = "''9999-12-31T23:59:59-01:00''"
  have sl: "slice 0 4 ?v = ''9999''" "slice 5 7 ?v = ''12''" "slice 8 10 ?v = ''31''" "slice 11 13 ?v = ''23''"
    "slice 14 16 ?v = ''59''" "slice 17 19 ?v = ''59''" "slice 20 22 ?v = ''01''" "slice 23 25 ?v = ''00''"
    "zone_start_of ?v = 19" "zone_sign ?v = Some (- 1)" "timestamp_fraction ?v = []" "byte_at ?v 19 = Some CHR ''-''"
    "slice 0 10 ?v = ''9999-12-31''"
    by (simp_all add: slice_def zone_start_of_def byte_at_def zone_sign_def timestamp_fraction_def trim_end_matches_def)
  have "is_canonical_date ''9999-12-31''"
    unfolding date_recognizer
    by (rule exI[of _ "''9999''"], rule exI[of _ "''12''"], rule exI[of _ "''31''"])
       (simp add: digit_string_def is_ascii_digit_def digits_val_def digit_val_def valid_date_def days_in_month_def)
  then show "is_canonical_timestamp ?v"
    by (simp add: is_canonical_timestamp_def is_canonical_zone_def sl parse is_ascii_digit_def)
  have "borrow_days (1499, 9999, 12, 31) = Some (1499, 9999, 12, 31)" by (simp add: borrow_days.simps)
  moreover have "carry_days (1499, 9999, 12, 31) = Some (59, 10000, 1, 1)"
    by (simp add: carry_days.simps days_in_month_def u32_def)
  moreover have "format_timestamp (59, 10000, 1, 1) ''59'' [] = ''10000-01-01T00:59:59Z''"
    by (simp add: format_timestamp_def pad_zero_def nat_to_string.simps digit_char_def char_of_eq_iff)
  ultimately show "canonical_timestamp_utc ?v = Some ''10000-01-01T00:59:59Z''"
    by (simp add: canonical_timestamp_utc_def Let_def sl parse)
qed (code_simp+)

end
