(* ===== verification/Rules_Soundness.thy ===== *)
theory Rules_Soundness
  imports Rules_Eval Rules_Calendar
begin

text \<open>
  Type soundness of the rule profile: an expression accepted by the checker, evaluated over bindings
  of the declared types, yields a value of the checked type or one of the two runtime errors of the
  profile (division by zero, arithmetic out of range). No type mismatch, missing binding or internal
  invariant error can occur at request time.
\<close>

section \<open>Typed values\<close>

text \<open>A timestamp in the canonical UTC form that the comparison expects.\<close>

definition canonical_utc :: "string \<Rightarrow> bool" where
  "canonical_utc s \<longleftrightarrow> is_canonical_timestamp s \<and> last s = CHR ''Z''"

text \<open>
  An object value has exactly the declared fields; a field that was absent from the JSON is null
  whatever its declared type. A value of type bigint may be held as a 32-bit integer, because the
  branches of a conditional are widened in the type and not in the value.
\<close>

fun has_type :: "runtime_value \<Rightarrow> rule_type \<Rightarrow> bool" where
  "has_type v (TNullable t) \<longleftrightarrow> v = VNull \<or> has_type v t"
| "has_type v TBool \<longleftrightarrow> (\<exists>b. v = VBool b)"
| "has_type v TStr \<longleftrightarrow> (\<exists>s. v = VStr s)"
| "has_type v TInt \<longleftrightarrow> (\<exists>i. v = VInt i \<and> i32 i = Some i)"
| "has_type v TInt64 \<longleftrightarrow> (\<exists>i. (v = VInt64 i \<and> i64 i = Some i) \<or> (v = VInt i \<and> i32 i = Some i))"
| "has_type v TDec \<longleftrightarrow> (\<exists>d. v = VDec d \<and> dec_wf d)"
| "has_type v TUuid \<longleftrightarrow> (\<exists>s. v = VUuid s)"
| "has_type v TDate \<longleftrightarrow> (\<exists>s. v = VDate s)"
| "has_type v TTimestamp \<longleftrightarrow> (\<exists>s. v = VTimestamp s \<and> canonical_utc s)"
| "has_type v (TEnum name symbols) \<longleftrightarrow> (\<exists>s. v = VEnum name s \<and> s \<in> set symbols)"
| "has_type v (TList t) \<longleftrightarrow> (\<exists>vs. v = VList vs \<and> list_all (\<lambda>x. has_type x t) vs)"
| "has_type v (TObject _ ts) \<longleftrightarrow>
     (\<exists>fs. v = VObject fs \<and> map fst fs = map fst ts \<and>
        list_all (\<lambda>(f, t). \<exists>x. map_of fs f = Some x \<and> (x = VNull \<or> has_type x t)) ts)"
| "has_type v (TOpaque _ _ _ _) \<longleftrightarrow> (\<exists>j. v = VOpaque j)"

fun has_checked_type :: "runtime_value \<Rightarrow> checked_type \<Rightarrow> bool" where
  "has_checked_type v (Concrete t) \<longleftrightarrow> has_type v t"
| "has_checked_type v NullType \<longleftrightarrow> v = VNull"

definition context_typed :: "eval_context \<Rightarrow> type_map \<Rightarrow> bool" where
  "context_typed ctx bindings \<longleftrightarrow>
     (\<forall>name t. bt_get bindings name = Some t \<longrightarrow> (\<exists>v. bt_get ctx name = Some v \<and> has_type v t))"

text \<open>The errors an evaluation may raise, and results that raise no other.\<close>

definition runtime_error :: "string \<Rightarrow> rule_error \<Rightarrow> bool" where
  "runtime_error rule_name e \<longleftrightarrow> e = DivisionByZero rule_name \<or> e = arithmetic_overflow rule_name"

definition settles :: "string \<Rightarrow> ('a \<Rightarrow> bool) \<Rightarrow> ('a, rule_error) result \<Rightarrow> bool" where
  "settles rule_name Q r \<longleftrightarrow> (case r of Ok x \<Rightarrow> Q x | Err e \<Rightarrow> runtime_error rule_name e)"

lemma settles_Ok [simp]: "settles rule_name Q (Ok x) \<longleftrightarrow> Q x"
  by (simp add: settles_def)

lemma settles_Err [simp]: "settles rule_name Q (Err e) \<longleftrightarrow> runtime_error rule_name e"
  by (simp add: settles_def)

lemma runtime_error_simps [simp]:
  "runtime_error rule_name (DivisionByZero rule_name)"
  "runtime_error rule_name (arithmetic_overflow rule_name)"
  by (simp_all add: runtime_error_def)

lemma settles_bind:
  "settles rule_name Q r \<Longrightarrow> (\<And>x. Q x \<Longrightarrow> settles rule_name R (f x)) \<Longrightarrow> settles rule_name R (res_bind r f)"
  by (cases r) auto

lemma settles_map: "settles rule_name Q r \<Longrightarrow> (\<And>x. Q x \<Longrightarrow> R (f x)) \<Longrightarrow> settles rule_name R (res_map f r)"
  by (cases r) auto

lemma settles_mono: "settles rule_name Q r \<Longrightarrow> (\<And>x. Q x \<Longrightarrow> R x) \<Longrightarrow> settles rule_name R r"
  by (cases r) auto

lemma settles_ok_or:
  "(\<And>x. r = Some x \<Longrightarrow> Q x) \<Longrightarrow> settles rule_name Q (ok_or (arithmetic_overflow rule_name) r)"
  by (cases r) auto

section \<open>Operators\<close>

lemma i32_idem: "i32 v = Some w \<Longrightarrow> i32 w = Some w"
  by (simp add: rust_defs)

lemma i64_idem: "i64 v = Some w \<Longrightarrow> i64 w = Some w"
  by (simp add: rust_defs)

lemma checked_i32_settles:
  "settles rule_name (\<lambda>v. has_type v TInt) (ok_or (arithmetic_overflow rule_name) (map_option VInt (i32 x)))"
  by (cases "i32 x") (auto dest: i32_idem)

lemma checked_i64_settles:
  "settles rule_name (\<lambda>v. has_type v TInt64) (ok_or (arithmetic_overflow rule_name) (map_option VInt64 (i64 x)))"
  by (cases "i64 x") (auto dest: i64_idem)

lemma has_type_nullable: "has_type v (nullable t) \<longleftrightarrow> v = VNull \<or> has_type v t"
  by (cases t) auto

lemma checked_arithmetic_settles:
  assumes "op \<in> {AddOp, SubtractOp, MultiplyOp, DivideOp}"
    and "\<And>v w. bounds v = Some w \<Longrightarrow> bounds w = Some w"
  shows "settles rule_name (\<lambda>i. bounds i = Some i) (checked_arithmetic bounds rule_name op l r)"
  using assms by (auto simp: checked_arithmetic_def intro!: settles_ok_or)

lemma decimal_div_wf:
  assumes "decimal_div a b = Some c"
  shows "dec_wf c"
proof -
  let ?sc = "max 18 (scale a - scale b)"
  obtain n q q' where n: "u32 (?sc + scale b) = Some n" and q: "i128 q' = Some q" "c = normalized (Dec q ?sc)"
    using assms unfolding decimal_div_def Let_def
    by (auto simp: bind_eq_Some_conv simp del: i128_Some u32_Some power_of_ten_Some split: if_splits)
  have "?sc + scale b \<le> u32_max" using n by (simp only: u32_Some)
  then have "?sc \<le> u32_max" by (rule add_leD1)
  moreover have "i128_min \<le> q" "q \<le> i128_max" using q(1) by (simp_all only: i128_Some)
  ultimately show ?thesis unfolding q(2) by (intro dec_wf_normalized)
qed

lemma decimal_arithmetic_settles:
  assumes "op \<in> {AddOp, SubtractOp, MultiplyOp, DivideOp}" "dec_wf l" "dec_wf r"
  shows "settles rule_name dec_wf (decimal_arithmetic rule_name op l r)"
  using assms decimal_add_value[OF assms(2,3)] decimal_sub_value[OF assms(2,3)]
    decimal_mul_value[of l r] decimal_div_wf[of l r]
  by (auto simp: decimal_arithmetic_def intro!: settles_ok_or)

lemma integer_values:
  "has_type v TInt \<Longrightarrow> \<exists>i. v = VInt i" "has_type v TInt64 \<Longrightarrow> (\<exists>i. v = VInt i) \<or> (\<exists>i. v = VInt64 i)"
  by auto

lemma arithmetic_settles:
  assumes op: "op \<in> {AddOp, SubtractOp, MultiplyOp, DivideOp}"
    and t: "check_arithmetic rn (Concrete ta) (Concrete tb) = Ok t"
    and v: "has_type l ta" "has_type r tb"
  shows "settles rule_name (\<lambda>v. has_checked_type v t) (arithmetic_values rule_name op l r)"
proof -
  have i32: "settles rule_name (\<lambda>v. i32 v = Some v) (checked_arithmetic i32 rule_name op a b)" for a b
    using op by (rule checked_arithmetic_settles) (rule i32_idem)
  have i64: "settles rule_name (\<lambda>v. i64 v = Some v) (checked_arithmetic i64 rule_name op a b)" for a b
    using op by (rule checked_arithmetic_settles) (rule i64_idem)
  have int: "settles rule_name (\<lambda>v. has_type v TInt64) (arithmetic_values rule_name op l r)"
    if "has_type l TInt64" "has_type r TInt64"
    using that by (auto simp: arithmetic_values_def Let_def intro!: settles_map[OF i32] settles_map[OF i64])
  have up: "has_type v TInt \<Longrightarrow> has_type v TInt64" for v by auto
  from t consider "ta = TInt" "tb = TInt" "t = Concrete TInt" | "ta = TDec" "tb = TDec" "t = Concrete TDec"
    | "ta \<in> {TInt, TInt64}" "tb \<in> {TInt, TInt64}" "t = Concrete TInt64"
    by (auto simp: check_arithmetic_def is_mixed_integer_pair_def split: if_splits elim!: is_numeric.elims)
  then show ?thesis
  proof cases
    case 1
    then show ?thesis using v by (auto simp: arithmetic_values_def Let_def intro!: settles_map[OF i32])
  next
    case 2
    then show ?thesis
      using v by (auto simp: arithmetic_values_def Let_def intro!: settles_map[OF decimal_arithmetic_settles[OF op]])
  next
    case 3
    then show ?thesis using v int up by auto
  qed
qed

lemma canonical_utc_compare:
  "canonical_utc l \<Longrightarrow> canonical_utc r \<Longrightarrow> compare_canonical_timestamps l r \<noteq> None"
  using utc_form_fraction[of l] utc_form_fraction[of r]
  by (auto simp: canonical_utc_def compare_canonical_timestamps_def split: ordering.splits)

lemma comparison_settles:
  assumes "check_ordering rn (Concrete ta) (Concrete tb) = Ok t" "has_type l ta" "has_type r tb"
  shows "t = Concrete TBool \<and> settles rule_name (\<lambda>_. True) (compare_values rule_name l r)"
proof -
  from assms(1) have "t = Concrete TBool"
    "(ta = tb \<and> (is_numeric ta \<or> ta = TTimestamp)) \<or> is_mixed_integer_pair ta tb"
    by (auto simp: check_ordering_def supports_ordering_def split: if_splits)
  then show ?thesis
    using assms(2,3) canonical_utc_compare
    by (fastforce simp: compare_values_def Let_def is_mixed_integer_pair_def elim!: is_numeric.elims)
qed

lemma check_ordering_concrete:
  "check_ordering rn a b = Ok t \<Longrightarrow> \<exists>ta tb. a = Concrete ta \<and> b = Concrete tb"
  by (cases a; cases b) (auto simp: check_ordering_def)

lemma check_arithmetic_concrete:
  "check_arithmetic rn a b = Ok t \<Longrightarrow> \<exists>ta tb. a = Concrete ta \<and> b = Concrete tb"
  by (cases a; cases b) (auto simp: check_arithmetic_def)

lemma binary_settles:
  assumes t: "check_binary rn op a b = Ok t" and op: "op \<noteq> AndOp" "op \<noteq> OrOp"
    and v: "has_checked_type l a" "has_checked_type r b"
  shows "settles rule_name (\<lambda>v. has_checked_type v t) (evaluate_binary rule_name op l r)"
proof -
  have ord: "settles rule_name (\<lambda>v. has_checked_type v t) (res_map (\<lambda>c. VBool (f c)) (compare_values rule_name l r))"
    if c: "check_ordering rn a b = Ok t" for f
  proof -
    obtain ta tb where "a = Concrete ta" "b = Concrete tb" using check_ordering_concrete[OF c] by blast
    then have c: "t = Concrete TBool" "settles rule_name (\<lambda>_. True) (compare_values rule_name l r)"
      using comparison_settles[of rn ta tb t l r] c v by auto
    show ?thesis by (rule settles_map[OF c(2)]) (simp add: c(1))
  qed
  have arith: "settles rule_name (\<lambda>v. has_checked_type v t) (arithmetic_values rule_name op l r)"
    if "check_arithmetic rn a b = Ok t" "op \<in> {AddOp, SubtractOp, MultiplyOp, DivideOp}"
    using check_arithmetic_concrete[OF that(1)] arithmetic_settles[of op rn _ _ t l r] that v by auto
  show ?thesis
    using t op ord arith by (cases op) (auto simp: evaluate_binary_def check_binary.simps)
qed

lemma expect_bool_value: "expect_bool rn t = Ok u \<Longrightarrow> has_checked_type v t \<Longrightarrow> \<exists>b. v = VBool b"
  by (cases t) (auto simp: expect_bool_def split: if_splits)

lemma unary_settles:
  assumes "required_concrete rn t = Ok u" "check_unary rn op u = Ok t'" "has_checked_type v t"
  shows "settles rule_name (\<lambda>v. has_checked_type v t') (evaluate_unary rule_name op v)"
proof -
  have "has_type v u" using assms(1,3) by (cases t) (auto split: if_splits)
  show ?thesis
  proof (cases op)
    case NotOp
    then show ?thesis
      using assms(2) \<open>has_type v u\<close> by (auto simp: check_unary_def evaluate_unary_def split: if_splits)
  next
    case NegateOp
    then have "t' = Concrete u" "u = TInt \<or> u = TInt64 \<or> u = TDec"
      using assms(2) by (auto simp: check_unary_def split: if_splits elim!: is_numeric.elims)
    then show ?thesis
      using NegateOp \<open>has_type v u\<close> decimal_neg_value
      by (auto simp: evaluate_unary_def intro!: settles_mono[OF checked_i32_settles]
          settles_mono[OF checked_i64_settles] settles_ok_or[of "map_option VDec _"])
  qed
qed

lemma member_settles:
  assumes "check_member rn t field = Ok t'" "has_checked_type v t"
  shows "settles rule_name (\<lambda>v. has_checked_type v t') (member_value rule_name field v)"
proof (cases t)
  case (Concrete u)
  with assms(1) obtain name fs ft where u: "u = TObject name fs" "map_of fs field = Some ft"
    "t' = Concrete (nullable ft)"
    by (auto simp: check_member_def access_result_type_def split: if_splits rule_type.splits)
  with assms(2) Concrete obtain vs where vs: "v = VObject vs"
    "list_all (\<lambda>(f, t). \<exists>x. map_of vs f = Some x \<and> (x = VNull \<or> has_type x t)) fs" by auto
  moreover have "(field, ft) \<in> set fs" using u(2) map_of_SomeD by fast
  ultimately show ?thesis
    using u by (fastforce simp: member_value_def list_all_iff has_type_nullable)
qed (use assms in \<open>simp add: check_member_def\<close>)

lemma index_settles:
  assumes "check_index rn t = Ok t'" "has_checked_type v t"
  shows "settles rule_name (\<lambda>v. has_checked_type v t') (index_value rule_name index v)"
proof (cases t)
  case (Concrete u)
  with assms(1) obtain item where "u = TList item" "t' = Concrete (nullable item)"
    by (auto simp: check_index_def access_result_type_def split: if_splits rule_type.splits)
  then show ?thesis
    using assms(2) Concrete by (auto simp: index_value_def has_type_nullable list_all_length)
qed (use assms in \<open>simp add: check_index_def\<close>)

lemma size_settles:
  assumes "check_size rn [t] = Ok t'" "has_checked_type v t"
  shows "settles rule_name (\<lambda>v. has_checked_type v t') (size_value rule_name v)"
proof (cases t)
  case (Concrete u)
  then have "t' = Concrete TInt" "u = TStr \<or> (\<exists>i. u = TList i)"
    using assms(1) by (auto simp: check_size_def split: if_splits rule_type.splits)
  then show ?thesis
    using assms(2) Concrete by (auto simp: size_value_def intro!: settles_mono[OF checked_i32_settles])
qed (use assms in \<open>simp add: check_size_def\<close>)

lemma string_test_settles:
  assumes "check_string_test rn [ta, tb] = Ok t" "has_checked_type l ta" "has_checked_type r tb"
  shows "settles rule_name (\<lambda>v. has_checked_type v t) (string_test rule_name test l r)"
proof -
  have "ta = Concrete TStr" "tb = Concrete TStr" "t = Concrete TBool"
    using assms(1) by (cases ta; cases tb; auto simp: check_string_test_def split: if_splits)+
  then show ?thesis using assms(2,3) by (auto simp: string_test_def)
qed

lemma merge_branches_value:
  "merge_branch_types rn a b = Ok t \<Longrightarrow> has_checked_type v a \<Longrightarrow> has_checked_type v t"
  "merge_branch_types rn a b = Ok t \<Longrightarrow> has_checked_type v b \<Longrightarrow> has_checked_type v t"
  by (auto simp: merge_branch_types_def is_mixed_integer_pair_def accepts_null_iff
      split: checked_type.splits if_splits)

lemma literal_settles:
  "check_literal rn lit = Ok t \<Longrightarrow>
   settles rule_name (\<lambda>v. has_checked_type v t) (evaluate_literal rule_name lit)"
proof (cases lit)
  case (LInt s)
  assume "check_literal rn lit = Ok t"
  then show ?thesis
    using LInt parse_signed_bounds[of i32_min i32_max s] parse_signed_bounds[of i64_min i64_max s]
    by (auto simp: i32_def i64_def in_range_def split: option.splits if_splits)
next
  case (LDecimal s)
  assume "check_literal rn lit = Ok t"
  then show ?thesis using LDecimal decimal_parse_value[of s] by (auto split: option.splits)
qed auto

section \<open>Expressions\<close>

lemma call_settles:
  assumes t: "check_call_types rn f ts = Ok t"
    and args: "list_all2 (\<lambda>e t. settles rule_name (\<lambda>v. has_checked_type v t) (evaluate_expression rule_name e ctx)) es ts"
  shows "settles rule_name (\<lambda>v. has_checked_type v t) (evaluate_call rule_name f es ctx)"
proof -
  have one: "\<exists>e u. es = [e] \<and> ts = [u] \<and>
      settles rule_name (\<lambda>v. has_checked_type v u) (evaluate_expression rule_name e ctx)" if "length ts = 1"
    using args that by (auto simp: length_Suc_conv list_all2_Cons2)
  have two: "\<exists>e1 e2 u1 u2. es = [e1, e2] \<and> ts = [u1, u2] \<and>
      settles rule_name (\<lambda>v. has_checked_type v u1) (evaluate_expression rule_name e1 ctx) \<and>
      settles rule_name (\<lambda>v. has_checked_type v u2) (evaluate_expression rule_name e2 ctx)" if "length ts = 2"
    using args that by (auto simp: length_Suc_conv numeral_2_eq_2 list_all2_Cons2)
  show ?thesis
  proof (cases f)
    case Size
    then have "length ts = 1" using t by (auto simp: check_call_types_def check_size_def split: list.splits)
    with one t Size show ?thesis
      by (fastforce simp: check_call_types_def intro: settles_bind size_settles)
  next
    case IsNull
    then have "length ts = 1" "t = Concrete TBool"
      using t by (auto simp: check_call_types_def check_is_null_def split: list.splits checked_type.splits if_splits)
    with one IsNull show ?thesis by (fastforce intro: settles_map)
  next
    case StartsWith
    then have "length ts = 2" using t by (auto simp: check_call_types_def check_string_test_def split: if_splits)
    with two t StartsWith show ?thesis
      by (fastforce simp: check_call_types_def intro: settles_bind string_test_settles)
  next
    case EndsWith
    then have "length ts = 2" using t by (auto simp: check_call_types_def check_string_test_def split: if_splits)
    with two t EndsWith show ?thesis
      by (fastforce simp: check_call_types_def intro: settles_bind string_test_settles)
  qed
qed

lemma check_list_Ok:
  assumes "check_kind c rn (ListOf items) bindings declared = Ok t"
  shows "\<exists>first rest ce item_type. items = first # rest \<and>
    check_expression c rn first bindings declared = Ok ce \<and> ce_type ce = Concrete item_type \<and>
    check_items c rn item_type rest bindings declared = Ok () \<and> t = Concrete (TList item_type)"
proof (cases items)
  case (Cons first rest)
  with assms obtain ce where ce: "check_expression c rn first bindings declared = Ok ce"
    and r: "(case ce_type ce of
        NullType \<Rightarrow> Err (InvalidLiteral rn ''a non-null typed list item'')
      | Concrete item_type \<Rightarrow> res_map (\<lambda>_. Concrete (TList item_type))
          (check_items c rn item_type rest bindings declared)) = Ok t"
    by auto
  show ?thesis
  proof (cases "ce_type ce")
    case (Concrete item_type)
    then show ?thesis using r ce \<open>items = first # rest\<close> by auto
  qed (use r in simp)
qed (use assms in simp)

text \<open>
  Simultaneous induction along the checker: expressions, nodes, the items of a list literal and the
  arguments of a call.
\<close>

lemma checked_settles:
  "check_expression c rn e bindings declared = Ok ce \<Longrightarrow> context_typed ctx bindings \<Longrightarrow>
     settles rule_name (\<lambda>v. has_checked_type v (ce_type ce)) (evaluate_expression rule_name e ctx)"
  "check_kind c rn k bindings declared = Ok t \<Longrightarrow> context_typed ctx bindings \<Longrightarrow>
     settles rule_name (\<lambda>v. has_checked_type v t) (evaluate_expression rule_name (Expr sp k) ctx)"
  "check_items c rn item_type es bindings declared = Ok u \<Longrightarrow> context_typed ctx bindings \<Longrightarrow>
     settles rule_name (list_all (\<lambda>v. has_type v item_type)) (evaluate_items rule_name es ctx)"
  "check_arguments c rn es bindings declared = Ok ts \<Longrightarrow> context_typed ctx bindings \<Longrightarrow>
     list_all2 (\<lambda>e t. settles rule_name (\<lambda>v. has_checked_type v t) (evaluate_expression rule_name e ctx)) es ts"
proof (induction c rn e bindings declared and c rn k bindings declared
    and c rn item_type es bindings declared and c rn es bindings declared
    arbitrary: ce and t sp and u and ts
    rule: check_expression_check_kind_check_items_check_arguments.induct)
  case (1 c rn sp kind bindings declared)
  then show ?case by (fastforce simp: checked_def)
next
  case (2 c rn lit bindings declared)
  then show ?case by (simp add: literal_settles)
next
  case (3 c rn name bindings declared)
  then show ?case by (fastforce simp: check_name_def context_typed_def)
next
  case (4 c rn enum_name symbol bindings declared)
  then show ?case
    by (auto simp: check_enum_symbol_def list_ex_iff split: option.splits rule_type.splits if_splits)
next
  case (5 c rn items bindings declared)
  from "5.prems"(1) obtain first rest ce item_type where items: "items = first # rest"
    and first: "check_expression c rn first bindings declared = Ok ce" "ce_type ce = Concrete item_type"
    and rest: "check_items c rn item_type rest bindings declared = Ok ()" "t = Concrete (TList item_type)"
    using check_list_Ok by blast
  have "settles rule_name (list_all (\<lambda>v. has_type v item_type)) (evaluate_items rule_name items ctx)"
    using "5.IH"(1)[OF items first(1) "5.prems"(2)] "5.IH"(2)[OF items first rest(1) "5.prems"(2)] first(2)
    by (auto simp: items intro!: settles_bind settles_map)
  then show ?case using rest(2) by (auto intro: settles_map)
next
  case (6 c rn target field bindings declared)
  then show ?case by (fastforce intro: settles_bind member_settles)
next
  case (7 c rn target index bindings declared)
  then show ?case by (fastforce intro: settles_bind index_settles)
next
  case (8 c rn f arguments bindings declared)
  then show ?case by (auto intro: call_settles)
next
  case (9 c rn op operand bindings declared)
  then show ?case by (fastforce intro: settles_bind unary_settles)
next
  case (10 c rn op left right bindings declared)
  from "10.prems"(1) obtain l r where l: "check_expression c rn left bindings declared = Ok l"
    and r: "check_expression c rn right bindings declared = Ok r"
    and t: "check_binary rn op (ce_type l) (ce_type r) = Ok t"
    by (auto split: if_splits)
  note operands = "10.IH"(1)[OF l "10.prems"(2)] "10.IH"(2)[OF l r "10.prems"(2)]
  show ?case
  proof (cases "op = AndOp \<or> op = OrOp")
    case True
    then have "expect_bool rn (ce_type l) = Ok ()" "expect_bool rn (ce_type r) = Ok ()"
      "t = Concrete TBool" using t by (auto simp: check_binary.simps)
    note bools = expect_bool_value[OF this(1)] expect_bool_value[OF this(2)] \<open>t = Concrete TBool\<close>
    have "settles rule_name (\<lambda>v. \<exists>b. v = VBool b) (evaluate_expression rule_name left ctx)"
      "settles rule_name (\<lambda>v. \<exists>b. v = VBool b) (evaluate_expression rule_name right ctx)"
      using operands bools by (auto elim: settles_mono)
    then show ?thesis
      using True bools(3) by (auto simp: bool_operand_def intro!: settles_bind)
  next
    case False
    then show ?thesis
      using operands binary_settles[OF t] by (auto intro!: settles_bind)
  qed
next
  case (11 c rn condition when_true when_false bindings declared)
  from "11.prems"(1) obtain cc ct cf where cond: "check_expression c rn condition bindings declared = Ok cc"
      "expect_bool rn (ce_type cc) = Ok ()"
    and tr: "check_expression c rn when_true bindings declared = Ok ct"
    and fa: "check_expression c rn when_false bindings declared = Ok cf"
    and t: "merge_branch_types rn (ce_type ct) (ce_type cf) = Ok t"
    by auto
  have "settles rule_name (\<lambda>v. has_checked_type v t) (evaluate_expression rule_name when_true ctx)"
    "settles rule_name (\<lambda>v. has_checked_type v t) (evaluate_expression rule_name when_false ctx)"
    using "11.IH"(2)[OF cond tr "11.prems"(2)] "11.IH"(3)[OF cond tr fa "11.prems"(2)]
      merge_branches_value[OF t] by (auto elim: settles_mono)
  moreover have "settles rule_name (\<lambda>v. \<exists>b. v = VBool b) (evaluate_expression rule_name condition ctx)"
    using "11.IH"(1)[OF cond(1) "11.prems"(2)] expect_bool_value[OF cond(2)] by (auto elim: settles_mono)
  ultimately show ?case by (auto intro!: settles_bind split: bool.splits)
next
  case (12 c rn item_type bindings declared)
  then show ?case by simp
next
  case (13 c rn item_type item rest bindings declared)
  from "13.prems"(1) obtain ce where item: "check_expression c rn item bindings declared = Ok ce"
      "ce_type ce = Concrete item_type"
    and rest: "check_items c rn item_type rest bindings declared = Ok u"
    by (auto split: if_splits)
  show ?case
    using "13.IH"(1)[OF item(1) "13.prems"(2)] "13.IH"(2)[OF item(1) _ rest "13.prems"(2)] item(2)
    by (auto intro!: settles_bind settles_map)
next
  case (14 c rn bindings declared)
  then show ?case by simp
next
  case (15 c rn argument rest bindings declared)
  then show ?case by auto
qed

section \<open>Decoded bindings\<close>

text \<open>Every timestamp inside a value is in the canonical UTC form.\<close>

fun timestamps_canonical :: "runtime_value \<Rightarrow> bool" where
  "timestamps_canonical (VTimestamp s) \<longleftrightarrow> canonical_utc s"
| "timestamps_canonical (VList vs) \<longleftrightarrow> list_all timestamps_canonical vs"
| "timestamps_canonical (VObject fs) \<longleftrightarrow> list_all (\<lambda>(f, v). timestamps_canonical v) fs"
| "timestamps_canonical _ \<longleftrightarrow> True"

lemma collect_opt_fields:
  assumes "collect_opt (\<lambda>(f, t). map_option (Pair f) (g f t)) ts = Some fs"
  shows "map fst fs = map fst ts \<and> (distinct (map fst ts) \<longrightarrow> (\<forall>(f, t) \<in> set ts. \<exists>x. map_of fs f = Some x \<and> g f t = Some x))"
  using assms
proof (induction ts arbitrary: fs)
  case (Cons p ts)
  obtain f t where p: "p = (f, t)" by fastforce
  from Cons.prems obtain x fs' where x: "g f t = Some x" "fs = (f, x) # fs'"
    and rest: "collect_opt (\<lambda>(f, t). map_option (Pair f) (g f t)) ts = Some fs'"
    by (auto simp: p bind_eq_Some_conv)
  show ?case using Cons.IH[OF rest] x p by (fastforce simp: rev_image_eqI)
qed simp

lemma decode_value_typed:
  "decode_value ext v t = Some x \<Longrightarrow> type_wf t \<Longrightarrow> timestamps_canonical x \<Longrightarrow> has_type x t"
proof (induction ext v t arbitrary: x rule: decode_value.induct)
  case (4 ext v)
  then show ?case
    by (auto simp: bind_eq_Some_conv i32_def dest: parse_signed_bounds)
next
  case (5 ext v)
  then show ?case
    by (auto simp: bind_eq_Some_conv i64_def dest: parse_signed_bounds)
next
  case (6 ext v)
  then show ?case by (auto simp: bind_eq_Some_conv dest: decimal_parse_value)
next
  case (11 ext v item_type)
  then show ?case
    by (fastforce simp: collect_opt_Some list_all2_conv_all_nth list_all_length in_set_conv_nth split: option.splits)
next
  case (12 ext v name fs)
  then obtain object xs where o: "as_object v = Some object" "x = VObject xs"
    and xs: "collect_opt (\<lambda>(f, t). map_option (Pair f)
        (case map_of object f of Some v' \<Rightarrow> decode_value ext v' t | None \<Rightarrow> Some VNull)) fs = Some xs"
    by (auto split: option.splits)
  have "\<exists>y. map_of xs f = Some y \<and> (y = VNull \<or> has_type y t)" if ft: "(f, t) \<in> set fs" for f t
  proof -
    obtain y where y: "map_of xs f = Some y"
      "(case map_of object f of Some v' \<Rightarrow> decode_value ext v' t | None \<Rightarrow> Some VNull) = Some y"
      using collect_opt_fields[OF xs] ft "12.prems"(2) bt_wf_distinct by fastforce
    have "timestamps_canonical y"
      using "12.prems"(3) o(2) y(1) by (fastforce simp: list_all_iff dest: map_of_SomeD)
    moreover have "type_wf t" using "12.prems"(2) ft by (fastforce simp: list_all_iff)
    ultimately have "y = VNull \<or> has_type y t"
      using "12.IH"[OF o(1) ft refl] y(2) by (auto split: option.splits)
    then show ?thesis using y(1) by blast
  qed
  then show ?case using o(2) collect_opt_fields[OF xs] by (auto simp: list_all_iff)
qed (auto simp: list_ex_iff split: option.splits if_splits)

lemma decode_entries_typed:
  assumes "decode_entries ext declared bindings = Ok ctx" "list_all (\<lambda>(n, t). type_wf t) declared"
    "list_all (\<lambda>(n, v). timestamps_canonical v) ctx"
  shows "context_typed ctx declared"
  using assms
proof (induction ext declared bindings arbitrary: ctx rule: decode_entries.induct)
  case (2 ext name t declared bindings)
  from "2.prems"(1) obtain v x ctx' where v: "bt_get bindings name = Some v" "decode_value ext v t = Some x"
    and rest: "decode_entries ext declared bindings = Ok ctx'" "ctx = (name, x) # ctx'" by auto
  have "has_type x t" using decode_value_typed[OF v(2)] "2.prems"(2,3) rest(2) by auto
  moreover have "context_typed ctx' declared"
    using "2.IH"[OF _ _ rest(1)] v "2.prems"(2,3) rest(2) by auto
  ultimately show ?case by (auto simp: context_typed_def rest(2))
qed (simp add: context_typed_def)

lemma first_missing_None: "first_missing m ks = None \<longleftrightarrow> set ks \<subseteq> fst ` set m"
  by (induction ks) (auto simp: bt_contains_def map_of_eq_None_iff)

lemma decode_entries_Ok:
  assumes "distinct (bt_keys declared)"
  shows "decode_entries ext declared bindings = Ok ctx \<longleftrightarrow> bt_keys ctx = bt_keys declared \<and>
    (\<forall>(name, t) \<in> set declared. \<exists>v x. bt_get bindings name = Some v \<and> decode_value ext v t = Some x \<and>
       bt_get ctx name = Some x)"
  using assms
proof (induction ext declared bindings arbitrary: ctx rule: decode_entries.induct)
  case (1 ext bindings)
  then show ?case by auto
next
  case (2 ext name t declared bindings)
  show ?case
  proof
    assume "decode_entries ext ((name, t) # declared) bindings = Ok ctx"
    then obtain v x ctx' where v: "bt_get bindings name = Some v" "decode_value ext v t = Some x"
      and rest: "decode_entries ext declared bindings = Ok ctx'" "ctx = (name, x) # ctx'" by auto
    show "bt_keys ctx = bt_keys ((name, t) # declared) \<and>
      (\<forall>(n, t) \<in> set ((name, t) # declared). \<exists>v x. bt_get bindings n = Some v \<and> decode_value ext v t = Some x \<and>
         bt_get ctx n = Some x)"
      using "2.IH"[of v x ctx'] v rest "2.prems" by (fastforce simp: rev_image_eqI)
  next
    assume r: "bt_keys ctx = bt_keys ((name, t) # declared) \<and>
      (\<forall>(n, t) \<in> set ((name, t) # declared). \<exists>v x. bt_get bindings n = Some v \<and> decode_value ext v t = Some x \<and>
         bt_get ctx n = Some x)"
    then obtain x ctx' where c: "ctx = (name, x) # ctx'" "bt_keys ctx' = bt_keys declared" by (cases ctx) auto
    from r c(1) obtain v where v: "bt_get bindings name = Some v" "decode_value ext v t = Some x" by auto
    have "\<exists>v x. bt_get bindings n = Some v \<and> decode_value ext v t' = Some x \<and> bt_get ctx' n = Some x"
      if n: "(n, t') \<in> set declared" for n t'
    proof -
      have "n \<noteq> name" using n "2.prems" by force
      then show ?thesis using r c(1) n by fastforce
    qed
    then have "\<forall>(n, t) \<in> set declared. \<exists>v x. bt_get bindings n = Some v \<and> decode_value ext v t = Some x \<and>
        bt_get ctx' n = Some x" by blast
    then have "decode_entries ext declared bindings = Ok ctx'" using "2.IH"[of v x ctx'] v c(2) "2.prems" by simp
    then show "decode_entries ext ((name, t) # declared) bindings = Ok ctx" using v c(1) by simp
  qed
qed

section \<open>Canonical JSON of typed values\<close>

text \<open>The only refusal: an object result with a null in a field that is not nullable.\<close>

definition json_refusal :: "string \<Rightarrow> rule_error \<Rightarrow> bool" where
  "json_refusal rule_name e \<longleftrightarrow> (\<exists>expected. e = InvalidRuleResult rule_name expected ''null'')"

definition renders :: "string \<Rightarrow> ('a, rule_error) result \<Rightarrow> bool" where
  "renders rule_name r \<longleftrightarrow> (case r of Ok _ \<Rightarrow> True | Err e \<Rightarrow> json_refusal rule_name e)"

lemma renders_Ok [simp]: "renders rule_name (Ok x)"
  by (simp add: renders_def)

lemma renders_Err [simp]: "renders rule_name (Err e) \<longleftrightarrow> json_refusal rule_name e"
  by (simp add: renders_def)

lemma renders_map [simp]: "renders rule_name (res_map f r) \<longleftrightarrow> renders rule_name r"
  by (cases r) auto

lemma renders_collect: "(\<And>x. x \<in> set xs \<Longrightarrow> renders rule_name (f x)) \<Longrightarrow> renders rule_name (collect_res f xs)"
proof (cases "collect_res f xs")
  case (Err e)
  assume all: "\<And>x. x \<in> set xs \<Longrightarrow> renders rule_name (f x)"
  obtain x where "x \<in> set xs" "f x = Err e" using collect_res_Err[OF Err] by blast
  then show ?thesis using all[of x] Err by simp
qed simp

lemma canonical_json_renders:
  assumes numbers: "\<And>d. dec_wf d \<Longrightarrow> from_str ext (canonical_string d) \<noteq> None"
  shows "has_type v t \<Longrightarrow> renders rn (canonical_json ext rn v t)"
  using numbers
proof (induction ext rn v t rule: canonical_json.induct)
  case (6 ext rn v)
  then show ?case by fastforce
next
  case (11 ext rn v item_type)
  then show ?case by (auto simp: list_all_iff intro!: renders_collect)
next
  case (12 ext rn v name fs)
  from "12.prems"(1) obtain vs where v: "v = VObject vs"
    and all: "list_all (\<lambda>(f, t). \<exists>x. map_of vs f = Some x \<and> (x = VNull \<or> has_type x t)) fs"
    by auto
  have vs: "\<exists>x. map_of vs f = Some x \<and> (x = VNull \<or> has_type x t)" if "(f, t) \<in> set fs" for f t
    using all that by (fastforce simp: list_all_iff)
  have "renders rn (if x = VNull \<and> \<not> accepts_null t then Err (InvalidRuleResult rn (display_name t) ''null'')
      else canonical_json ext rn x t)"
    if "(f, t) \<in> set fs" "map_of vs f = Some x" for f t x
    using vs[OF that(1)] that "12.IH"[OF v that(1) refl, of x] "12.prems"(2)
    by (auto simp: json_refusal_def accepts_null_iff)
  then show ?case unfolding v using vs by (fastforce intro!: renders_collect)
qed (auto simp: enum_json_def list_ex_iff)

section \<open>Decoding the canonical JSON\<close>

text \<open>
  The canonical JSON of a decimal passes through the number parser of another crate, so the round trip
  is stated for types without decimals.
\<close>

fun decimal_free :: "rule_type \<Rightarrow> bool" where
  "decimal_free TDec \<longleftrightarrow> False"
| "decimal_free (TNullable t) \<longleftrightarrow> decimal_free t"
| "decimal_free (TList t) \<longleftrightarrow> decimal_free t"
| "decimal_free (TObject _ fs) \<longleftrightarrow> list_all (\<lambda>(f, t). decimal_free t) fs"
| "decimal_free _ \<longleftrightarrow> True"

lemma decode_value_not_null: "decode_value ext j t = Some v \<Longrightarrow> j \<noteq> JNull \<Longrightarrow> v \<noteq> VNull"
proof (induction t)
  case (TNullable t)
  then show ?case by (cases j) auto
qed (auto split: option.splits if_splits)

lemma canonical_json_not_null:
  "decode_value ext j t = Some v \<Longrightarrow> j \<noteq> JNull \<Longrightarrow> decimal_free t \<Longrightarrow>
   canonical_json ext rn v t = Ok j' \<Longrightarrow> j' \<noteq> JNull"
proof (induction t)
  case (TNullable t)
  have "v \<noteq> VNull" using decode_value_not_null TNullable.prems(1,2) by blast
  moreover have "\<not> is_null j" using TNullable.prems(2) by (cases j) auto
  ultimately show ?case using TNullable by auto
qed (auto simp: enum_json_def split: option.splits if_splits)

lemma list_all_enumerate: "list_all P (enumerate 0 xs) \<longleftrightarrow> (\<forall>i < length xs. P (i, xs ! i))"
  by (simp add: list_all_length nth_enumerate_eq)

lemma is_uuid_lowercase:
  assumes "is_uuid s"
  shows "is_uuid (map to_ascii_lowercase s)"
proof -
  have hex: "is_ascii_hexdigit c \<Longrightarrow> is_ascii_hexdigit (to_ascii_lowercase c)" for c
    by (auto simp: is_ascii_hexdigit_def to_ascii_lowercase_def is_ascii_digit_def)
  have dash: "to_ascii_lowercase CHR ''-'' = CHR ''-''" by (simp add: to_ascii_lowercase_def)
  note shape = is_uuid_def list_all_enumerate length_map prod.case
  show ?thesis
    using assms unfolding shape by (metis (no_types, lifting) hex dash nth_map)
qed

lemma lowercase_idem: "to_ascii_lowercase (to_ascii_lowercase c) = to_ascii_lowercase c"
proof -
  have "byte_of (char_of n :: char) = n" if "n < 256" for n :: nat using that by simp
  then show ?thesis by (auto simp: to_ascii_lowercase_def)
qed

text \<open>Collecting the fields of an object twice: the second pass finds what the first one wrote.\<close>

lemma collect_fields_twice:
  assumes xs: "collect_opt (\<lambda>(f, t). map_option (Pair f) (g f t)) fs = Some xs"
    and js: "collect_res (\<lambda>(f, t). res_map (Pair f) (h f t)) fs = Ok js"
    and d: "distinct (map fst fs)"
    and again: "\<And>f t x j. (f, t) \<in> set fs \<Longrightarrow> g f t = Some x \<Longrightarrow> map_of xs f = Some x \<Longrightarrow> h f t = Ok j \<Longrightarrow>
      map_of js f = Some j \<Longrightarrow> k f t = Some x"
  shows "collect_opt (\<lambda>(f, t). map_option (Pair f) (k f t)) fs = Some xs"
proof -
  have gx: "list_all2 (\<lambda>(f, t) (f', x). f' = f \<and> g f t = Some x) fs xs"
    using xs by (auto simp: collect_opt_Some elim!: list_all2_mono)
  have hj: "list_all2 (\<lambda>(f, t) (f', j). f' = f \<and> h f t = Ok j) fs js"
    using js by (auto simp: collect_res_Ok elim!: list_all2_mono)
  have keys: "map fst xs = map fst fs" "map fst js = map fst fs"
    using gx hj by (auto simp: list_all2_conv_all_nth intro!: nth_equalityI)
  show ?thesis
    unfolding collect_opt_Some list_all2_conv_all_nth
  proof (intro conjI allI impI)
    show "length fs = length xs" using gx by (rule list_all2_lengthD)
    fix i assume i: "i < length fs"
    obtain f t where ft: "fs ! i = (f, t)" by fastforce
    obtain x where x: "xs ! i = (f, x)" "g f t = Some x"
      using gx i ft by (fastforce simp: list_all2_conv_all_nth)
    obtain j where j: "js ! i = (f, j)" "h f t = Ok j"
      using hj i ft by (fastforce simp: list_all2_conv_all_nth)
    have len: "length xs = length fs" "length js = length fs" using keys by (metis length_map)+
    have "(f, x) \<in> set xs" "(f, j) \<in> set js" "(f, t) \<in> set fs"
      using nth_mem[of i xs] nth_mem[of i js] nth_mem[of i fs] i ft x(1) j(1) len by simp_all
    then have "map_of xs f = Some x" "map_of js f = Some j" "(f, t) \<in> set fs" using d keys by simp_all
    then have "k f t = Some x" using again x(2) j(2) by blast
    then show "(case fs ! i of (f, t) \<Rightarrow> map_option (Pair f) (k f t)) = Some (xs ! i)" by (simp add: ft x(1))
  qed
qed

lemma decode_canonical_json:
  "decode_value ext j t = Some v \<Longrightarrow> decimal_free t \<Longrightarrow> type_wf t \<Longrightarrow> timestamps_canonical v \<Longrightarrow>
   canonical_json ext rn v t = Ok j' \<Longrightarrow> decode_value ext j' t = Some v"
proof (induction ext j t arbitrary: v j' rule: decode_value.induct)
  case (1 ext j inner)
  show ?case
  proof (cases "is_null j")
    case True
    then show ?thesis using "1.prems" by auto
  next
    case False
    then have d: "decode_value ext j inner = Some v" "j \<noteq> JNull" using "1.prems"(1) by auto
    have "v \<noteq> VNull" by (rule decode_value_not_null[OF d])
    then have c: "canonical_json ext rn v inner = Ok j'" using "1.prems"(5) by simp
    then have "j' \<noteq> JNull" using canonical_json_not_null[OF d] "1.prems"(2) by simp
    then have "\<not> is_null j'" by (cases j') auto
    then show ?thesis using "1.IH"[OF False d(1) _ _ "1.prems"(4) c] "1.prems"(2,3) by auto
  qed
next
  case (4 ext v)
  then show ?case by (auto simp: bind_eq_Some_conv parse_signed_int_to_string dest!: parse_signed_bounds)
next
  case (5 ext v)
  then show ?case by (auto simp: bind_eq_Some_conv parse_signed_int_to_string dest!: parse_signed_bounds)
next
  case (7 ext v)
  then show ?case by (auto simp: is_uuid_lowercase lowercase_idem comp_def split: option.splits if_splits)
next
  case (9 ext j)
  then obtain s w where w: "as_str j = Some s" "is_canonical_timestamp s" "canonical_timestamp_utc s = Some w"
      "v = VTimestamp w" by (auto split: option.splits if_splits)
  then have "is_canonical_timestamp w" "last w = CHR ''Z''" "j' = JString w"
    using "9.prems"(4,5) by (auto simp: canonical_utc_def)
  then show ?case using utc_idempotent[OF w(2,3)] w(4) by simp
next
  case (10 ext v name symbols)
  then show ?case by (auto simp: enum_json_def split: option.splits if_splits)
next
  case (11 ext j item_type)
  then obtain items vs where d: "as_array j = Some items" "v = VList vs"
      "list_all2 (\<lambda>x y. decode_value ext x item_type = Some y) items vs"
    by (auto simp: collect_opt_Some split: option.splits)
  with "11.prems"(5) obtain js where js: "j' = JArray js"
      "list_all2 (\<lambda>x y. canonical_json ext rn x item_type = Ok y) vs js"
    by (auto simp: collect_res_Ok)
  have "list_all2 (\<lambda>x y. decode_value ext x item_type = Some y) js vs"
    unfolding list_all2_conv_all_nth
  proof (intro conjI allI impI)
    fix i assume i: "i < length js"
    have ok: "decode_value ext (items ! i) item_type = Some (vs ! i)" "items ! i \<in> set items"
        "canonical_json ext rn (vs ! i) item_type = Ok (js ! i)" "timestamps_canonical (vs ! i)"
      using i d js "11.prems"(4) by (auto simp: list_all2_conv_all_nth list_all_length)
    show "decode_value ext (js ! i) item_type = Some (vs ! i)"
      using "11.IH"[OF d(1) ok(2) ok(1) _ _ ok(4) ok(3)] "11.prems"(2,3) by simp
  qed (use js in \<open>auto dest: list_all2_lengthD\<close>)
  then show ?case using js(1) d(2) by (simp add: collect_opt_Some)
next
  case (12 ext j name fs)
  then obtain object xs where o: "as_object j = Some object" "v = VObject xs"
    and xs: "collect_opt (\<lambda>(f, t). map_option (Pair f)
        (case map_of object f of Some v' \<Rightarrow> decode_value ext v' t | None \<Rightarrow> Some VNull)) fs = Some xs"
    by (auto split: option.splits)
  with "12.prems"(5) obtain js where js: "j' = JObject js"
    "collect_res (\<lambda>(f, t). res_map (Pair f)
       (res_bind (ok_or (InternalInvariant rn) (bt_get xs f)) (\<lambda>x.
          if x = VNull \<and> \<not> accepts_null t then Err (InvalidRuleResult rn (display_name t) ''null'')
          else canonical_json ext rn x t))) fs = Ok js" by auto
  have wf: "distinct (map fst fs)" using "12.prems"(3) bt_wf_distinct by auto
  have "collect_opt (\<lambda>(f, t). map_option (Pair f)
        (case map_of js f of Some v' \<Rightarrow> decode_value ext v' t | None \<Rightarrow> Some VNull)) fs = Some xs"
  proof (rule collect_fields_twice[OF xs js(2) wf])
    fix f t x y
    assume ft: "(f, t) \<in> set fs" and x: "(case map_of object f of Some v' \<Rightarrow> decode_value ext v' t | None \<Rightarrow> Some VNull) = Some x"
      and get: "bt_get xs f = Some x"
      and y: "res_bind (ok_or (InternalInvariant rn) (bt_get xs f)) (\<lambda>x.
          if x = VNull \<and> \<not> accepts_null t then Err (InvalidRuleResult rn (display_name t) ''null'')
          else canonical_json ext rn x t) = Ok y"
      and written: "map_of js f = Some y"
    have t: "decimal_free t" "type_wf t" "timestamps_canonical x"
      using "12.prems"(2,3,4) ft o(2) get by (fastforce simp: list_all_iff dest: map_of_SomeD)+
    have c: "canonical_json ext rn x t = Ok y" "x = VNull \<Longrightarrow> accepts_null t" using y get by (auto split: if_splits)
    have "decode_value ext y t = Some x"
    proof (cases "map_of object f")
      case None
      then have "x = VNull" using x by simp
      then show ?thesis using c by (auto simp: accepts_null_iff)
    next
      case (Some v')
      then show ?thesis using "12.IH"[OF o(1) ft refl Some _ t c(1)] x by simp
    qed
    then show "(case map_of js f of Some v' \<Rightarrow> decode_value ext v' t | None \<Rightarrow> Some VNull) = Some x"
      using written by simp
  qed
  then show ?case using js(1) o(2) by simp
qed (auto split: option.splits if_splits)

section \<open>A concrete environment\<close>

text \<open>Functions for the operations of other crates, for the concrete instances of the properties.\<close>

definition text_externs :: externs where
  "text_externs = \<lparr>to_vec = \<lambda>_. Some [], from_str = \<lambda>s. Some (JNumber s), sha256_digest = \<lambda>_. []\<rparr>"

lemma decode_bindings_Ok:
  "decode_bindings ext declared bindings = Ok ctx \<longleftrightarrow>
     set (bt_keys bindings) = set (bt_keys declared) \<and> decode_entries ext declared bindings = Ok ctx"
  using first_missing_None[of bindings "bt_keys declared"] first_missing_None[of declared "bt_keys bindings"]
  unfolding decode_bindings_def by (cases "first_missing bindings (bt_keys declared)";
    cases "first_missing declared (bt_keys bindings)"; simp; blast)

section \<open>Properties\<close>

text \<open>
  (C1) Type soundness: an expression that \<open>check_expression\<close> accepts, evaluated over bindings of the
  declared types, yields a value of the checked type, a division by zero or an arithmetic result out
  of range. A type mismatch, a missing binding or an internal invariant error is impossible.
\<close>

theorem checked_expression_sound:
  assumes "check_expression c rn e bindings declared = Ok ce" "context_typed ctx bindings"
  shows "case evaluate_expression rule_name e ctx of
      Ok v \<Rightarrow> has_checked_type v (ce_type ce)
    | Err err \<Rightarrow> err = DivisionByZero rule_name \<or> err = arithmetic_overflow rule_name"
  using checked_settles(1)[OF assms, of rule_name] unfolding settles_def runtime_error_def .

definition sample_expression :: expr where
  "sample_expression =
     Expr (Span 0 11) (Binary GreaterThanOp
       (Expr (Span 0 7) (Binary DivideOp (Expr (Span 0 1) (Name ''a'')) (Expr (Span 4 5) (Name ''b''))))
       (Expr (Span 8 9) (Literal (LInt ''2''))))"

definition sample_types :: type_map where
  "sample_types = [(''a'', TInt), (''b'', TInt64)]"

definition sample_context :: eval_context where
  "sample_context = [(''a'', VInt 7), (''b'', VInt64 2)]"

theorem checked_expression_sound_witness:
  "check_expression None ''r'' sample_expression sample_types [] = Ok (checked sample_expression (Concrete TBool)) \<and>
   context_typed sample_context sample_types \<and>
   (\<exists>b. evaluate_expression ''r'' sample_expression sample_context = Ok (VBool b))"
proof -
  have c: "check_expression None ''r'' sample_expression sample_types [] = Ok (checked sample_expression (Concrete TBool))"
    by code_simp
  have t: "context_typed sample_context sample_types"
    by (auto simp: context_typed_def sample_context_def sample_types_def rust_defs)
  have ok: "evaluate_expression ''r'' sample_expression sample_context \<noteq> Err (DivisionByZero ''r'')"
    "evaluate_expression ''r'' sample_expression sample_context \<noteq> Err (arithmetic_overflow ''r'')"
    by code_simp+
  show ?thesis
    using checked_expression_sound[OF c t, of "''r''"] c t ok by (auto simp: checked_def split: result.splits)
qed

text \<open>
  \<open>decode_bindings\<close> succeeds exactly when the supplied names are the declared names and every value
  decodes at its declared type, and then binds each declared name, in key order, to the decoded value.
\<close>

theorem decode_bindings_exact:
  assumes "bt_wf declared"
  shows "decode_bindings ext declared bindings = Ok ctx \<longleftrightarrow>
    set (bt_keys bindings) = set (bt_keys declared) \<and> bt_keys ctx = bt_keys declared \<and>
    (\<forall>(name, t) \<in> set declared. \<exists>v x. bt_get bindings name = Some v \<and> decode_value ext v t = Some x \<and>
       bt_get ctx name = Some x)"
  unfolding decode_bindings_Ok decode_entries_Ok[OF bt_wf_distinct[OF assms]] by blast

theorem decode_bindings_exact_witness:
  "bt_wf [(''a'', TBool), (''b'', TNullable TInt)] \<and>
   decode_bindings text_externs [(''a'', TBool), (''b'', TNullable TInt)] [(''a'', JBool True), (''b'', JNull)] =
     Ok [(''a'', VBool True), (''b'', VNull)]"
proof -
  have wf: "bt_wf [(''a'', TBool), (''b'', TNullable TInt)]" by (simp add: bt_wf_def)
  show ?thesis unfolding decode_bindings_exact[OF wf] using wf by auto
qed




end
