(* ===== verification/Rules_Canonical.thy ===== *)
theory Rules_Canonical
  imports Rules_Eval
begin

text \<open>
  The canonical byte records of profile version one (\<open>canonical_bytes\<close> and the \<open>encode_*\<close> functions of
  \<open>crates/rules/src/eval.rs\<close>), which the digests of rules, decision tables and inputs are computed
  from. Each encoder is modelled by the bytes it appends; \<open>None\<close> is a panic of the source (a count
  that does not fit \<open>u32\<close>, or a state the source calls validated).
\<close>

section \<open>Bytes\<close>

definition byte :: "nat \<Rightarrow> string" where
  "byte n = [char_of n]"

text \<open>\<open>to_be_bytes\<close> of a \<open>u32\<close>; the arithmetic is on \<open>int\<close> so that it evaluates in binary.\<close>

definition be32 :: "nat \<Rightarrow> string" where
  "be32 n =
     (let i = int n in
      [char_of (nat (i div 16777216 mod 256)), char_of (nat (i div 65536 mod 256)),
       char_of (nat (i div 256 mod 256)), char_of (nat (i mod 256))])"

text \<open>Append the outputs one after another; a panic anywhere is a panic.\<close>

definition emit :: "string option list \<Rightarrow> string option" where
  "emit parts = map_option concat (collect_opt (\<lambda>p. p) parts)"

definition encode_count :: "nat \<Rightarrow> string option" where
  "encode_count n = map_option be32 (u32 n)"

definition encode_string :: "string \<Rightarrow> string option" where
  "encode_string s = emit [encode_count (length s), Some s]"

definition encode_bool :: "bool \<Rightarrow> string" where
  "encode_bool b = byte (if b then 1 else 0)"

definition encode_decimal :: "decimal \<Rightarrow> string option" where
  "encode_decimal d =
     (let v = normalized d in
      if coefficient v = 0 then emit [Some (byte 0), encode_string ''0'', Some (be32 0)]
      else emit [Some (byte (if coefficient v < 0 then 1 else 0)),
                 encode_string (nat_to_string (nat \<bar>coefficient v\<bar>)), Some (be32 (scale v))])"

section \<open>Types\<close>

text \<open>The loop that skips nested nullable wrappers.\<close>

fun strip_nullable :: "rule_type \<Rightarrow> rule_type" where
  "strip_nullable (TNullable t) = strip_nullable t"
| "strip_nullable t = t"

lemma size_strip_nullable: "size (strip_nullable t) \<le> size t"
  by (induction t rule: strip_nullable.induct) auto

definition encode_symbols :: "string \<Rightarrow> string list \<Rightarrow> string option" where
  "encode_symbols name symbols =
     emit ([encode_string name, encode_count (length symbols)] @ map encode_string symbols)"

definition encode_opaque_type :: "string \<Rightarrow> nat \<Rightarrow> nat \<Rightarrow> nat \<Rightarrow> string option" where
  "encode_opaque_type name maximum_bytes maximum_depth maximum_nodes =
     emit [encode_string name, Some (be32 maximum_bytes), Some (be32 maximum_depth),
           Some (be32 maximum_nodes)]"

function encode_type :: "rule_type \<Rightarrow> string option"
  and encode_type_map :: "type_map \<Rightarrow> string option" where
  "encode_type TBool = Some (byte 16)"
| "encode_type TStr = Some (byte 17)"
| "encode_type TInt = Some (byte 18)"
| "encode_type TInt64 = Some (byte 28)"
| "encode_type TDec = Some (byte 19)"
| "encode_type TUuid = Some (byte 20)"
| "encode_type TDate = Some (byte 21)"
| "encode_type TTimestamp = Some (byte 22)"
| "encode_type (TEnum name symbols) = emit [Some (byte 23), encode_symbols name symbols]"
| "encode_type (TList item) = emit [Some (byte 24), encode_type item]"
| "encode_type (TObject name fs) =
     emit [Some (byte 25), encode_string name, encode_type_map fs]"
| "encode_type (TOpaque name b d n) = emit [Some (byte 27), encode_opaque_type name b d n]"
| "encode_type (TNullable inner) = emit [Some (byte 26), encode_type (strip_nullable inner)]"
| "encode_type_map types =
     emit (encode_count (length types) #
           map (\<lambda>(name, t). emit [encode_string name, encode_type t]) (sort_key fst types))"
  by pat_completeness auto
termination
proof (relation "measure (\<lambda>x. case x of Inl t \<Rightarrow> 2 * size t | Inr m \<Rightarrow> Suc (2 * size_list (size_prod (\<lambda>_. 0) size) m))",
    goal_cases)
  case (4 inner)
  then show ?case using size_strip_nullable[of inner] by simp
next
  case (5 types p name t)
  then have "(name, t) \<in> set types" by simp
  then show ?case
    using size_list_estimation'[of "(name, t)" types "Suc (size t)" "size_prod (\<lambda>_. 0) size"] by simp
qed simp_all

definition encode_declaration :: "rule_type \<Rightarrow> string option" where
  "encode_declaration declaration =
     (case declaration of
        TEnum name symbols \<Rightarrow> emit [Some (byte 64), encode_symbols name symbols]
      | TObject name fs \<Rightarrow> emit [Some (byte 65), encode_string name, encode_type_map fs]
      | TOpaque name b d n \<Rightarrow> emit [Some (byte 66), encode_opaque_type name b d n]
      | _ \<Rightarrow> None)"

section \<open>Expressions\<close>

record canonical_expression_context =
  cec_bindings :: type_map
  cec_declared_types :: "rule_type list"

definition find_enum :: "string \<Rightarrow> rule_type list \<Rightarrow> rule_type option" where
  "find_enum enum_name types =
     List.find (\<lambda>t. case t of TEnum name _ \<Rightarrow> name = enum_name | _ \<Rightarrow> False) types"

fun is_null_literal :: "expr \<Rightarrow> bool" where
  "is_null_literal (Expr _ (Literal LNull)) \<longleftrightarrow> True"
| "is_null_literal _ \<longleftrightarrow> False"

fun is_arithmetic :: "binary_op \<Rightarrow> bool" where
  "is_arithmetic AddOp \<longleftrightarrow> True"
| "is_arithmetic SubtractOp \<longleftrightarrow> True"
| "is_arithmetic MultiplyOp \<longleftrightarrow> True"
| "is_arithmetic DivideOp \<longleftrightarrow> True"
| "is_arithmetic _ \<longleftrightarrow> False"

fun literal_type :: "literal \<Rightarrow> rule_type option \<Rightarrow> rule_type option" where
  "literal_type LNull expected =
     (case expected of Some t \<Rightarrow> if accepts_null t then Some t else None | None \<Rightarrow> None)"
| "literal_type (LBool _) expected = Some TBool"
| "literal_type (LString _) expected = Some TStr"
| "literal_type (LInt v) expected =
     (if expected = Some TInt64 \<or> parse_signed i32_min i32_max v = None then Some TInt64
      else Some TInt)"
| "literal_type (LDecimal _) expected = Some TDec"

function expression_type ::
  "expr \<Rightarrow> canonical_expression_context \<Rightarrow> rule_type option \<Rightarrow> rule_type option" where
  "expression_type (Expr _ (Literal lit)) ctx expected = literal_type lit expected"
| "expression_type (Expr _ (Name name)) ctx expected = bt_get (cec_bindings ctx) name"
| "expression_type (Expr _ (EnumSymbol enum_name _)) ctx expected =
     find_enum enum_name (cec_declared_types ctx)"
| "expression_type (Expr _ (ListOf items)) ctx expected =
     (case items of
        [] \<Rightarrow> None
      | item # _ \<Rightarrow>
          map_option TList
            (expression_type item ctx
               (case expected of Some (TList t) \<Rightarrow> Some t | _ \<Rightarrow> None)))"
| "expression_type (Expr _ (Member target field)) ctx expected =
     (case expression_type target ctx None of
        Some (TObject _ fs) \<Rightarrow> map_option nullable (bt_get fs field)
      | _ \<Rightarrow> None)"
| "expression_type (Expr _ (Index target _)) ctx expected =
     (case expression_type target ctx None of
        Some (TList item) \<Rightarrow> Some (nullable item)
      | _ \<Rightarrow> None)"
| "expression_type (Expr _ (Call f _)) ctx expected = Some (if f = Size then TInt else TBool)"
| "expression_type (Expr _ (Unary op operand)) ctx expected =
     (case op of NotOp \<Rightarrow> Some TBool | NegateOp \<Rightarrow> expression_type operand ctx None)"
| "expression_type (Expr _ (Binary op left right)) ctx expected =
     (if is_arithmetic op
      then Option.bind (expression_type left ctx None) (\<lambda>l.
           Option.bind (expression_type right ctx None) (\<lambda>r.
             Some (if is_mixed_integer_pair l r then TInt64 else l)))
      else Some TBool)"
| "expression_type (Expr _ (Conditional _ when_true when_false)) ctx expected =
     (case expected of
        Some t \<Rightarrow> Some t
      | None \<Rightarrow>
          if is_null_literal when_true then expression_type when_false ctx None
          else expression_type when_true ctx None)"
  by pat_completeness auto
termination
  by (relation "measure (\<lambda>(e, _, _). size e)") auto

text \<open>The expected types of the two operands; the inner \<open>None\<close> is the panic of \<open>expression_type\<close>.\<close>

definition equality_expected_types ::
  "expr \<Rightarrow> expr \<Rightarrow> canonical_expression_context \<Rightarrow> (rule_type option \<times> rule_type option) option" where
  "equality_expected_types left right ctx =
     (if \<not> is_null_literal left \<and> \<not> is_null_literal right then Some (None, None)
      else if is_null_literal left
      then map_option (\<lambda>t. (Some t, Some t)) (expression_type right ctx None)
      else map_option (\<lambda>t. (Some t, Some t)) (expression_type left ctx None))"

fun encode_literal :: "literal \<Rightarrow> string option" where
  "encode_literal LNull = Some (byte 0)"
| "encode_literal (LBool b) = Some (byte 1 @ encode_bool b)"
| "encode_literal (LInt v) =
     emit [Some (byte 2),
           Option.bind (parse_signed i128_min i128_max v) (\<lambda>i. encode_string (int_to_string i))]"
| "encode_literal (LDecimal v) =
     emit [Some (byte 3), Option.bind (decimal_parse v) encode_decimal]"
| "encode_literal (LString s) = emit [Some (byte 4), encode_string s]"

fun function_tag :: "rule_function \<Rightarrow> nat" where
  "function_tag Size = 0"
| "function_tag IsNull = 1"
| "function_tag StartsWith = 2"
| "function_tag EndsWith = 3"

fun unary_tag :: "unary_op \<Rightarrow> nat" where
  "unary_tag NotOp = 0"
| "unary_tag NegateOp = 1"

fun binary_tag :: "binary_op \<Rightarrow> nat" where
  "binary_tag OrOp = 0"
| "binary_tag AndOp = 1"
| "binary_tag EqualOp = 2"
| "binary_tag NotEqualOp = 3"
| "binary_tag LessThanOp = 4"
| "binary_tag LessThanOrEqualOp = 5"
| "binary_tag GreaterThanOp = 6"
| "binary_tag GreaterThanOrEqualOp = 7"
| "binary_tag AddOp = 8"
| "binary_tag SubtractOp = 9"
| "binary_tag MultiplyOp = 10"
| "binary_tag DivideOp = 11"

text \<open>
  \<open>encode_expression\<close> resolves the type of the node, writes the node and then the type;
  \<open>encode_node\<close> is the match on the node with the resolved type \<open>t\<close>.
\<close>

function encode_expression ::
  "expr \<Rightarrow> canonical_expression_context \<Rightarrow> rule_type option \<Rightarrow> string option"
  and encode_node :: "expr_kind \<Rightarrow> canonical_expression_context \<Rightarrow> rule_type \<Rightarrow> string option" where
  "encode_expression (Expr sp kind) ctx expected =
     Option.bind (expression_type (Expr sp kind) ctx expected) (\<lambda>t.
       emit [encode_node kind ctx t, encode_type t])"
| "encode_node (Literal lit) ctx t = emit [Some (byte 32), encode_literal lit]"
| "encode_node (Name name) ctx t = emit [Some (byte 33), encode_string name]"
| "encode_node (EnumSymbol enum_name symbol) ctx t =
     emit [Some (byte 34), encode_string enum_name, encode_string symbol]"
| "encode_node (ListOf items) ctx t =
     (case t of
        TList item_type \<Rightarrow>
          emit ([Some (byte 35), encode_count (length items)] @
                map (\<lambda>item. encode_expression item ctx (Some item_type)) items)
      | _ \<Rightarrow> None)"
| "encode_node (Member target field) ctx t =
     emit [Some (byte 36), encode_expression target ctx None, encode_string field]"
| "encode_node (Index target index) ctx t =
     emit [Some (byte 37), encode_expression target ctx None, encode_count index]"
| "encode_node (Call f arguments) ctx t =
     emit ([Some (byte 38), Some (byte (function_tag f)), encode_count (length arguments)] @
           map (\<lambda>argument. encode_expression argument ctx None) arguments)"
| "encode_node (Unary op operand) ctx t =
     emit [Some (byte 39), Some (byte (unary_tag op)), encode_expression operand ctx None]"
| "encode_node (Binary op left right) ctx t =
     Option.bind (equality_expected_types left right ctx) (\<lambda>(left_expected, right_expected).
       emit [Some (byte 40), Some (byte (binary_tag op)),
             encode_expression left ctx left_expected, encode_expression right ctx right_expected])"
| "encode_node (Conditional condition when_true when_false) ctx t =
     emit [Some (byte 41), encode_expression condition ctx (Some TBool),
           encode_expression when_true ctx (Some t), encode_expression when_false ctx (Some t)]"
  by pat_completeness auto
termination
  by (relation "measure (\<lambda>x. case x of Inl (e, _, _) \<Rightarrow> size e | Inr (k, _, _) \<Rightarrow> size k)")
     (auto simp: less_Suc_eq_le intro!: size_list_estimation')

section \<open>Values\<close>

function encode_opaque_json :: "json \<Rightarrow> string option" where
  "encode_opaque_json JNull = Some (byte 0)"
| "encode_opaque_json (JBool b) = Some (byte 1 @ encode_bool b)"
| "encode_opaque_json (JNumber n) = emit [Some (byte 2), encode_string n]"
| "encode_opaque_json (JString s) = emit [Some (byte 3), encode_string s]"
| "encode_opaque_json (JArray items) =
     emit ([Some (byte 4), encode_count (length items)] @ map encode_opaque_json items)"
| "encode_opaque_json (JObject fs) =
     emit ([Some (byte 5), encode_count (length fs)] @
           map (\<lambda>(name, v). emit [encode_string name, encode_opaque_json v]) (sort_key fst fs))"
  by pat_completeness auto
termination
proof (relation "measure size", goal_cases)
  case (2 items v)
  then show ?case using size_list_estimation'[of v items "size v" size] by simp
next
  case (3 fs p name v)
  then have "(name, v) \<in> set fs" by simp
  then show ?case
    using size_list_estimation'[of "(name, v)" fs "size v" "size_prod (\<lambda>_. 0) size"] by simp
qed simp

function encode_typed_value :: "rule_type \<Rightarrow> runtime_value \<Rightarrow> string option"
  and encode_value :: "rule_type \<Rightarrow> runtime_value \<Rightarrow> string option"
  and encode_runtime_map :: "type_map \<Rightarrow> eval_context \<Rightarrow> string option" where
  "encode_typed_value t v = emit [encode_type t, encode_value t v]"
| "encode_value t VNull = (if accepts_null t then Some (byte 48) else None)"
| "encode_value t (VBool b) = Some (byte 49 @ encode_bool b)"
| "encode_value t (VStr s) = emit [Some (byte 50), encode_string s]"
| "encode_value t (VInt i) = emit [Some (byte 51), encode_string (int_to_string i)]"
| "encode_value t (VInt64 i) = emit [Some (byte 60), encode_string (int_to_string i)]"
| "encode_value t (VDec d) = emit [Some (byte 52), encode_decimal d]"
| "encode_value t (VUuid s) = emit [Some (byte 53), encode_string (map to_ascii_lowercase s)]"
| "encode_value t (VDate s) = emit [Some (byte 54), encode_string s]"
| "encode_value t (VTimestamp s) = emit [Some (byte 55), encode_string s]"
| "encode_value t (VEnum enum_name symbol) =
     emit [Some (byte 56), encode_string enum_name, encode_string symbol]"
| "encode_value t (VList vs) =
     (case t of
        TList item_type \<Rightarrow>
          emit ([Some (byte 57), encode_count (length vs)] @
                map (\<lambda>v. encode_typed_value item_type v) vs)
      | _ \<Rightarrow> None)"
| "encode_value t (VObject vs) =
     (case t of
        TObject _ fs \<Rightarrow> emit [Some (byte 58), encode_runtime_map fs vs]
      | _ \<Rightarrow> None)"
| "encode_value t (VOpaque j) = emit [Some (byte 59), encode_opaque_json j]"
| "encode_runtime_map types vs =
     emit (encode_count (length types) #
           map (\<lambda>(name, t).
             emit [encode_string name,
                   Option.bind (map_of vs name) (\<lambda>v.
                     if v = VNull \<and> \<not> accepts_null t then encode_typed_value (nullable t) v
                     else encode_typed_value t v)]) (sort_key fst types))"
  by pat_completeness auto
termination
proof (relation "measure (\<lambda>x. case x of
      Inl (_, v) \<Rightarrow> 3 * size v + 1
    | Inr (Inl (_, v)) \<Rightarrow> 3 * size v
    | Inr (Inr (_, vs)) \<Rightarrow> 3 * size_list (size_prod (\<lambda>_. 0) size) vs + 2)", goal_cases)
  case (3 t vs item_type v)
  then have "size v \<le> size_list size vs" by (auto intro: size_list_estimation')
  then show ?case by simp
next
  case (5 types vs p name t v)
  then have "(name, v) \<in> set vs" by (simp add: map_of_SomeD)
  then show ?case
    using size_list_estimation'[of "(name, v)" vs "Suc (size v)" "size_prod (\<lambda>_. 0) size"] by simp
next
  case (6 types vs p name t v)
  then have "(name, v) \<in> set vs" by (simp add: map_of_SomeD)
  then show ?case
    using size_list_estimation'[of "(name, v)" vs "Suc (size v)" "size_prod (\<lambda>_. 0) size"] by simp
qed simp_all

text \<open>\<open>encode_json_map\<close> decodes each declared value first.\<close>

definition encode_json_map :: "externs \<Rightarrow> type_map \<Rightarrow> bindings \<Rightarrow> string option" where
  "encode_json_map ext types vs =
     emit (encode_count (length types) #
           map (\<lambda>(name, t).
             Option.bind (Option.bind (bt_get vs name) (\<lambda>v. decode_value ext v t)) (\<lambda>v.
               emit [encode_string name, encode_typed_value t v])) (sort_key fst types))"

section \<open>Records\<close>

definition MAGIC :: string where
  "MAGIC = ''DONAT-RULES-CANONICAL'' @ [char_of (0::nat)]"

text \<open>\<open>PROFILE_VERSION.to_be_bytes()\<close> of a \<open>u16\<close>, and the common header of a record.\<close>

definition be16 :: "nat \<Rightarrow> string" where
  "be16 n = [char_of (n div 256), char_of (n mod 256)]"

definition record_header :: "canonical_root \<Rightarrow> string" where
  "record_header root_kind = MAGIC @ be16 PROFILE_VERSION @ byte (root_tag root_kind)"

definition encode_rule_record :: "compiled_rule \<Rightarrow> string option" where
  "encode_rule_record rule =
     emit [encode_string (cr_name rule), encode_type_map (cr_bindings rule), encode_type (cr_result rule),
           encode_expression (ce_expression (cr_expression rule))
             \<lparr>cec_bindings = cr_bindings rule, cec_declared_types = cr_declared_types rule\<rparr>
             (Some (cr_result rule))]"

definition hit_policy_tag :: "hit_policy \<Rightarrow> string option" where
  "hit_policy_tag policy =
     (case policy of First \<Rightarrow> Some (byte 0) | Unique \<Rightarrow> Some (byte 1) | Unsupported _ \<Rightarrow> None)"

definition encode_row ::
  "externs \<Rightarrow> canonical_expression_context \<Rightarrow> type_map \<Rightarrow> compiled_decision_row \<Rightarrow> string option" where
  "encode_row ext ctx output row =
     emit ([encode_string (cdr_id row), encode_count (length (cdr_conditions row))] @
           map (\<lambda>(name, condition).
             emit [encode_string name, encode_expression (ce_expression condition) ctx (Some TBool)])
             (sort_key fst (cdr_conditions row)) @
           [case cdr_output row of
              JObject fs \<Rightarrow> encode_json_map ext output (bt_collect fs)
            | _ \<Rightarrow> None])"

definition encode_test_case ::
  "externs \<Rightarrow> type_map \<Rightarrow> type_map \<Rightarrow> compiled_test_case \<Rightarrow> string option" where
  "encode_test_case ext inputs output c =
     emit [encode_string (ctc_name c), encode_json_map ext inputs (ctc_input c),
           encode_json_map ext output (ctc_output c), encode_string (ctc_matched_row_id c)]"

definition encode_decision_record :: "externs \<Rightarrow> compiled_decision_table \<Rightarrow> string option" where
  "encode_decision_record ext table =
     (let ctx = \<lparr>cec_bindings = cdt_inputs table, cec_declared_types = cdt_declared_types table\<rparr> in
      emit ([encode_string (cdt_name table), encode_count (length (cdt_declared_types table))] @
            map encode_declaration (cdt_declared_types table) @
            [encode_type_map (cdt_inputs table), encode_type_map (cdt_output table),
             hit_policy_tag (cdt_hit_policy table), encode_count (length (cdt_rows table))] @
            map (encode_row ext ctx (cdt_output table)) (cdt_rows table) @
            [encode_count (length (cdt_test_cases table))] @
            map (encode_test_case ext (cdt_inputs table) (cdt_output table)) (cdt_test_cases table)))"

definition canonical_bytes :: "externs \<Rightarrow> canonical_root \<Rightarrow> canonical_value \<Rightarrow> string option" where
  "canonical_bytes ext root_kind v =
     emit [Some (record_header root_kind),
           (case v of
              CvTypedRule rule \<Rightarrow> if root_kind = TypedRuleAst then encode_rule_record rule else None
            | CvDecisionDefinition table \<Rightarrow>
                if root_kind = DecisionDefinition then encode_decision_record ext table else None
            | CvDecodedTypedInput types bindings \<Rightarrow>
                if root_kind = DecodedTypedInput
                then (case decode_bindings ext types bindings of
                        Ok decoded \<Rightarrow> encode_runtime_map types decoded
                      | Err _ \<Rightarrow> None)
                else None)]"

definition canonical_decoded_input_bytes :: "type_map \<Rightarrow> eval_context \<Rightarrow> string option" where
  "canonical_decoded_input_bytes types decoded =
     emit [Some (record_header DecodedTypedInput), encode_runtime_map types decoded]"

text \<open>\<open>{byte:02x}\<close> for every byte of the digest.\<close>

definition hex_digit :: "nat \<Rightarrow> char" where
  "hex_digit d = (if d < 10 then char_of (48 + d) else char_of (87 + d))"

definition sha256_hex :: "externs \<Rightarrow> string \<Rightarrow> string" where
  "sha256_hex ext bytes =
     concat (map (\<lambda>b. [hex_digit (byte_of b div 16), hex_digit (byte_of b mod 16)]) (sha256_digest ext bytes))"

end
