(* ===== verification/Rules_Lexer.thy ===== *)
theory Rules_Lexer
  imports Rules_Syntax
begin

text \<open>
  The lexer of the rule profile (\<open>crates/rules/src/lexer.rs\<close>): a cursor over the UTF-8 source that
  returns one token with its byte span per call. A character is the byte string of one Unicode
  scalar value. The lemmas give the lexer's progress and the position of every token and error.
\<close>

section \<open>Tokens and lexer state\<close>

datatype token_kind =
    TEnd
  | TName string
  | TString string
  | TInteger string
  | TDecimal string
  | TNull
  | TTrue
  | TFalse
  | TLeftParen
  | TRightParen
  | TLeftBracket
  | TRightBracket
  | TComma
  | TDot
  | TQuestion
  | TColon
  | TPlus
  | TMinus
  | TStar
  | TSlash
  | TBang
  | TAnd
  | TOr
  | TEqual
  | TNotEqual
  | TLessThan
  | TLessThanOrEqual
  | TGreaterThan
  | TGreaterThanOrEqual

record token =
  tok_kind :: token_kind
  tok_span :: span

abbreviation Token :: "token_kind \<Rightarrow> span \<Rightarrow> token" where
  "Token k s \<equiv> \<lparr>tok_kind = k, tok_span = s\<rparr>"

record lexer =
  lex_source :: string
  lex_rule_name :: string
  lex_cursor :: nat

definition lexer_new :: "string \<Rightarrow> string \<Rightarrow> lexer" where
  "lexer_new rule_name source =
     \<lparr>lex_source = source, lex_rule_name = rule_name, lex_cursor = 0\<rparr>"

section \<open>Character access\<close>

definition peek_char :: "lexer \<Rightarrow> string option" where
  "peek_char l = first_char (drop (lex_cursor l) (lex_source l))"

definition skip_bytes :: "nat \<Rightarrow> lexer \<Rightarrow> lexer" where
  "skip_bytes n l = l\<lparr>lex_cursor := lex_cursor l + n\<rparr>"

definition consume_char :: "lexer \<Rightarrow> string option \<times> lexer" where
  "consume_char l =
     (case peek_char l of None \<Rightarrow> (None, l) | Some ch \<Rightarrow> (Some ch, skip_bytes (length ch) l))"

definition consume_if :: "string \<Rightarrow> lexer \<Rightarrow> bool \<times> lexer" where
  "consume_if expected l =
     (if peek_char l = Some expected then (True, snd (consume_char l)) else (False, l))"

fun is_name_start :: "string \<Rightarrow> bool" where
  "is_name_start [c] \<longleftrightarrow> is_ascii_alphabetic c \<or> c = CHR ''_''"
| "is_name_start _ \<longleftrightarrow> False"

fun is_name_continue :: "string \<Rightarrow> bool" where
  "is_name_continue [c] \<longleftrightarrow> is_ascii_alphabetic c \<or> is_ascii_digit c \<or> c = CHR ''_''"
| "is_name_continue _ \<longleftrightarrow> False"

fun is_digit_char :: "string \<Rightarrow> bool" where
  "is_digit_char [c] \<longleftrightarrow> is_ascii_digit c"
| "is_digit_char _ \<longleftrightarrow> False"

definition lex_remaining :: "lexer \<Rightarrow> nat" where
  "lex_remaining l = length (lex_source l) - lex_cursor l"

lemma first_char_length: "first_char s = Some ch \<Longrightarrow> 0 < length ch \<and> length ch \<le> length s"
  by (cases s) (auto simp: length_takeWhile_le le_SucI)

lemma peek_char_progress:
  assumes "peek_char l = Some ch"
  shows "0 < length ch \<and> lex_cursor l + length ch \<le> length (lex_source l)"
proof -
  have "0 < length ch \<and> length ch \<le> length (lex_source l) - lex_cursor l"
    using first_char_length[of "drop (lex_cursor l) (lex_source l)" ch] assms
    by (simp add: peek_char_def)
  then show ?thesis by linarith
qed

lemma skip_bytes_simps [simp]:
  "lex_source (skip_bytes n l) = lex_source l"
  "lex_rule_name (skip_bytes n l) = lex_rule_name l"
  "lex_cursor (skip_bytes n l) = lex_cursor l + n"
  by (simp_all add: skip_bytes_def)

lemma peek_char_remaining:
  "peek_char l = Some ch \<Longrightarrow> lex_remaining (skip_bytes (length ch) l) < lex_remaining l"
  using peek_char_progress[of l ch] unfolding lex_remaining_def skip_bytes_simps by linarith

text \<open>The loop \<open>while peek_char().is_some_and(p) { consume_char() }\<close>.\<close>

function consume_while :: "(string \<Rightarrow> bool) \<Rightarrow> lexer \<Rightarrow> lexer" where
  "consume_while p l =
     (case peek_char l of
        None \<Rightarrow> l
      | Some ch \<Rightarrow> if p ch then consume_while p (skip_bytes (length ch) l) else l)"
  by pat_completeness auto
termination
  by (relation "measure (\<lambda>(p, l). lex_remaining l)") (auto simp: peek_char_remaining)

declare consume_while.simps [simp del]

definition skip_whitespace :: "lexer \<Rightarrow> lexer" where
  "skip_whitespace l = consume_while is_whitespace l"

definition lex_error :: "lexer \<Rightarrow> nat \<Rightarrow> string \<Rightarrow> parse_error" where
  "lex_error l offset expectation = ParseError (lex_rule_name l) offset expectation"

text \<open>The source text between two offsets.\<close>

definition lex_slice :: "lexer \<Rightarrow> nat \<Rightarrow> nat \<Rightarrow> string" where
  "lex_slice l a b = take (b - a) (drop a (lex_source l))"

section \<open>Names, numbers and strings\<close>

definition lex_name :: "lexer \<Rightarrow> token \<times> lexer" where
  "lex_name l =
     (let start = lex_cursor l;
          l' = consume_while is_name_continue (snd (consume_char l));
          name = lex_slice l' start (lex_cursor l');
          kind = (if name = ''null'' then TNull
                  else if name = ''true'' then TTrue
                  else if name = ''false'' then TFalse
                  else TName name)
      in (Token kind (Span start (lex_cursor l')), l'))"

definition lex_number :: "lexer \<Rightarrow> (token \<times> lexer, parse_error) result" where
  "lex_number l =
     (let start = lex_cursor l;
          l1 = consume_while is_digit_char l
      in if peek_char l1 = Some ''.''
         then let l2 = snd (consume_char l1) in
              (case peek_char l2 of
                 Some ch \<Rightarrow>
                   if is_digit_char ch
                   then let l3 = consume_while is_digit_char l2 in
                        Ok (Token (TDecimal (lex_slice l3 start (lex_cursor l3)))
                              (Span start (lex_cursor l3)), l3)
                   else Err (lex_error l2 (lex_cursor l2) ''a base-10 decimal literal'')
               | None \<Rightarrow> Err (lex_error l2 (lex_cursor l2) ''a base-10 decimal literal''))
         else Ok (Token (TInteger (lex_slice l1 start (lex_cursor l1)))
                    (Span start (lex_cursor l1)), l1))"

text \<open>The newline, carriage return and tab of the escapes.\<close>

definition decode_escape :: "string \<Rightarrow> string option" where
  "decode_escape escaped =
     (if escaped = [char_of (92::nat)] then Some [char_of (92::nat)]
      else if escaped = [char_of (39::nat)] then Some [char_of (39::nat)]
      else if escaped = [char_of (34::nat)] then Some [char_of (34::nat)]
      else if escaped = ''n'' then Some [char_of (10::nat)]
      else if escaped = ''r'' then Some [char_of (13::nat)]
      else if escaped = ''t'' then Some [char_of (9::nat)]
      else None)"

function lex_string_loop ::
  "nat \<Rightarrow> string \<Rightarrow> string \<Rightarrow> lexer \<Rightarrow> (token \<times> lexer, parse_error) result" where
  "lex_string_loop start quote value l =
     (let offset = lex_cursor l in
      case peek_char l of
        None \<Rightarrow> Err (lex_error l (length (lex_source l)) ''a closing string quote'')
      | Some character \<Rightarrow>
          let l1 = skip_bytes (length character) l in
          if character = quote then Ok (Token (TString value) (Span start (lex_cursor l1)), l1)
          else if character \<noteq> [char_of (92::nat)]
          then lex_string_loop start quote (value @ character) l1
          else (case peek_char l1 of
                  None \<Rightarrow> Err (lex_error l1 (length (lex_source l1)) ''a supported string escape'')
                | Some escaped \<Rightarrow>
                    let l2 = skip_bytes (length escaped) l1 in
                    (case decode_escape escaped of
                       None \<Rightarrow> Err (lex_error l2 offset ''a supported string escape'')
                     | Some decoded \<Rightarrow> lex_string_loop start quote (value @ decoded) l2)))"
  by pat_completeness auto
termination
  by (relation "measure (\<lambda>(start, quote, value, l). lex_remaining l)")
     (auto dest!: peek_char_remaining)

declare lex_string_loop.simps [simp del]

definition lex_string :: "string \<Rightarrow> lexer \<Rightarrow> (token \<times> lexer, parse_error) result" where
  "lex_string quote l = lex_string_loop (lex_cursor l) quote [] (snd (consume_char l))"

section \<open>The next token\<close>

text \<open>A one-character token, and the operators that may carry a second character.\<close>

fun single_kind :: "string \<Rightarrow> token_kind option" where
  "single_kind [c] =
     (if c = CHR ''('' then Some TLeftParen
      else if c = CHR '')'' then Some TRightParen
      else if c = CHR ''['' then Some TLeftBracket
      else if c = CHR '']'' then Some TRightBracket
      else if c = CHR '','' then Some TComma
      else if c = CHR ''.'' then Some TDot
      else if c = CHR ''?'' then Some TQuestion
      else if c = CHR '':'' then Some TColon
      else if c = CHR ''+'' then Some TPlus
      else if c = CHR ''-'' then Some TMinus
      else if c = CHR ''*'' then Some TStar
      else if c = CHR ''/'' then Some TSlash
      else None)"
| "single_kind _ = None"

text \<open>
  For the characters that start an operator of one or two characters: the second character, the
  kind with it, and the kind without it or the expectation reported in its absence.
\<close>

definition double_kind ::
  "string \<Rightarrow> (string \<times> token_kind \<times> (token_kind, string) result) option" where
  "double_kind ch =
     (if ch = ''!'' then Some (''='', TNotEqual, Ok TBang)
      else if ch = ''='' then Some (''='', TEqual, Err ''=='')
      else if ch = ''&'' then Some (''&'', TAnd, Err ''&&'')
      else if ch = ''|'' then Some (''|'', TOr, Err ''||'')
      else if ch = ''<'' then Some (''='', TLessThanOrEqual, Ok TLessThan)
      else if ch = ''>'' then Some (''='', TGreaterThanOrEqual, Ok TGreaterThan)
      else None)"

definition next_token :: "lexer \<Rightarrow> (token \<times> lexer, parse_error) result" where
  "next_token l0 =
     (let l = skip_whitespace l0; start = lex_cursor l in
      case peek_char l of
        None \<Rightarrow> Ok (Token TEnd (Span start start), l)
      | Some character \<Rightarrow>
          if is_name_start character then Ok (lex_name l)
          else if is_digit_char character then lex_number l
          else if character = [char_of (39::nat)] \<or> character = [char_of (34::nat)]
          then lex_string character l
          else (case single_kind character of
                  Some kind \<Rightarrow>
                    let l1 = snd (consume_char l) in
                    Ok (Token kind (Span start (lex_cursor l1)), l1)
                | None \<Rightarrow>
                    (case double_kind character of
                       None \<Rightarrow> Err (lex_error l start ''a supported expression token'')
                     | Some (second, both, alone) \<Rightarrow>
                         let (matched, l2) = consume_if second (skip_bytes 1 l) in
                         if matched then Ok (Token both (Span start (lex_cursor l2)), l2)
                         else (case alone of
                                 Ok kind \<Rightarrow> Ok (Token kind (Span start (lex_cursor l2)), l2)
                               | Err expectation \<Rightarrow> Err (lex_error l2 start expectation)))))"

section \<open>Progress and positions\<close>

text \<open>\<open>l'\<close> is \<open>l\<close> after reading some input.\<close>

definition lex_reads :: "lexer \<Rightarrow> lexer \<Rightarrow> bool" where
  "lex_reads l l' \<longleftrightarrow>
     lex_source l' = lex_source l \<and> lex_rule_name l' = lex_rule_name l \<and>
     lex_cursor l \<le> lex_cursor l' \<and>
     (lex_cursor l \<le> length (lex_source l) \<longrightarrow> lex_cursor l' \<le> length (lex_source l))"

lemma lex_reads_refl [simp]: "lex_reads l l"
  by (simp add: lex_reads_def)

lemma lex_reads_trans: "lex_reads l l1 \<Longrightarrow> lex_reads l1 l2 \<Longrightarrow> lex_reads l l2"
  by (auto simp: lex_reads_def)

lemma lex_reads_peek: "peek_char l = Some ch \<Longrightarrow> lex_reads l (skip_bytes (length ch) l)"
  using peek_char_progress[of l ch] by (auto simp: lex_reads_def)

lemma lex_reads_strict:
  assumes "peek_char l = Some ch" "lex_reads (skip_bytes (length ch) l) l'"
  shows "lex_reads l l' \<and> lex_cursor l < lex_cursor l'"
proof -
  have "lex_cursor l + length ch \<le> lex_cursor l'" using assms(2) by (simp add: lex_reads_def)
  then have "lex_cursor l < lex_cursor l'" using peek_char_progress[OF assms(1)] by linarith
  then show ?thesis using lex_reads_trans[OF lex_reads_peek[OF assms(1)] assms(2)] by simp
qed

lemma consume_char_peek: "peek_char l = Some ch \<Longrightarrow> consume_char l = (Some ch, skip_bytes (length ch) l)"
  by (simp add: consume_char_def)

lemma lex_reads_consume: "lex_reads l (snd (consume_char l))"
  by (auto simp: consume_char_def lex_reads_peek split: option.splits)

lemma lex_reads_while: "lex_reads l (consume_while p l)"
proof (induction p l rule: consume_while.induct)
  case (1 p l)
  show ?case
  proof (cases "peek_char l")
    case None
    then show ?thesis by (subst consume_while.simps) simp
  next
    case (Some ch)
    show ?thesis
    proof (cases "p ch")
      case True
      then show ?thesis
        using 1[OF Some True] lex_reads_peek[OF Some] Some lex_reads_trans
        by (subst consume_while.simps) auto
    next
      case False
      then show ?thesis using Some by (subst consume_while.simps) simp
    qed
  qed
qed

text \<open>
  What one call of the lexer guarantees: the token starts at or after the cursor, ends at the new
  cursor, and is empty only at the end of the source; an error names the rule and an offset inside
  the source.
\<close>

definition token_after :: "lexer \<Rightarrow> token \<Rightarrow> lexer \<Rightarrow> bool" where
  "token_after l t l' \<longleftrightarrow>
     lex_reads l l' \<and> lex_cursor l \<le> sp_start (tok_span t) \<and>
     sp_start (tok_span t) \<le> sp_end (tok_span t) \<and> sp_end (tok_span t) = lex_cursor l' \<and>
     (tok_kind t \<noteq> TEnd \<longrightarrow> sp_start (tok_span t) < sp_end (tok_span t))"

definition error_in :: "lexer \<Rightarrow> parse_error \<Rightarrow> bool" where
  "error_in l e \<longleftrightarrow> pe_rule_name e = lex_rule_name l \<and> pe_offset e \<le> length (lex_source l)"

lemma error_in_reads: "lex_reads l l' \<Longrightarrow> error_in l' e \<longleftrightarrow> error_in l e"
  by (auto simp: error_in_def lex_reads_def)

lemma error_in_lex_error [simp]:
  "error_in l (lex_error l offset x) \<longleftrightarrow> offset \<le> length (lex_source l)"
  by (simp add: error_in_def lex_error_def ParseError_def)

lemma lex_name_after:
  assumes "peek_char l = Some ch" "lex_name l = (t, l')"
  shows "token_after l t l'"
proof -
  let ?l1 = "skip_bytes (length ch) l"
  have l': "l' = consume_while is_name_continue ?l1" and t: "tok_span t = Span (lex_cursor l) (lex_cursor l')"
    using assms by (auto simp: lex_name_def Let_def consume_char_peek)
  have r: "lex_reads ?l1 l'" using l' lex_reads_while by simp
  then show ?thesis using t lex_reads_strict[OF assms(1) r] by (simp add: token_after_def)
qed

lemma lex_number_after:
  assumes c: "lex_cursor l \<le> length (lex_source l)" and ch: "peek_char l = Some ch" "is_digit_char ch"
  shows "case lex_number l of Ok (t, l') \<Rightarrow> token_after l t l' | Err e \<Rightarrow> error_in l e"
proof -
  let ?l1 = "consume_while is_digit_char l"
  let ?l2 = "snd (consume_char ?l1)"
  let ?l3 = "consume_while is_digit_char ?l2"
  have r1: "lex_reads (skip_bytes (length ch) l) ?l1"
    using lex_reads_while ch by (subst consume_while.simps) auto
  have r1': "lex_reads l ?l1" by (rule lex_reads_while)
  have r2: "lex_reads ?l1 ?l2" by (rule lex_reads_consume)
  have r3: "lex_reads ?l2 ?l3" by (rule lex_reads_while)
  have lt: "lex_cursor l < lex_cursor ?l1" using lex_reads_strict[OF ch(1) r1] by simp
  have r12: "lex_reads l ?l2" using lex_reads_trans[OF r1' r2] .
  have r13: "lex_reads l ?l3" using lex_reads_trans[OF r12 r3] .
  have lt3: "lex_cursor l < lex_cursor ?l3" using lt r2 r3 by (simp add: lex_reads_def)
  have e2: "error_in l (lex_error ?l2 (lex_cursor ?l2) x)" for x
    using r12 c by (subst error_in_reads[OF r12, symmetric]) (simp add: lex_reads_def)
  show ?thesis
    using r1' r13 lt lt3 e2
    by (auto simp: lex_number_def Let_def token_after_def split: option.splits result.splits if_splits)
qed

lemma lex_string_loop_after:
  "start < lex_cursor l \<Longrightarrow> lex_cursor l \<le> length (lex_source l) \<Longrightarrow>
   (case lex_string_loop start qt v l of
      Ok (t, l') \<Rightarrow> lex_reads l l' \<and> tok_span t = Span start (lex_cursor l') \<and> start < lex_cursor l'
    | Err e \<Rightarrow> error_in l e)"
proof (induction start qt v l rule: lex_string_loop.induct)
  case (1 start qt v l)
  show ?case
  proof (cases "peek_char l")
    case None
    then show ?thesis by (subst lex_string_loop.simps) simp
  next
    case (Some ch)
    let ?l1 = "skip_bytes (length ch) l"
    have r1: "lex_reads l ?l1" by (rule lex_reads_peek[OF Some])
    have c1: "start < lex_cursor ?l1" "lex_cursor ?l1 \<le> length (lex_source ?l1)"
      using peek_char_progress[OF Some] "1.prems" by auto
    consider (quote) "ch = qt" | (char) "ch \<noteq> qt" "ch \<noteq> [char_of (92::nat)]"
      | (escape) "ch \<noteq> qt" "ch = [char_of (92::nat)]" by blast
    then show ?thesis
    proof cases
      case quote
      then show ?thesis using Some r1 c1 by (subst lex_string_loop.simps) simp
    next
      case char
      then show ?thesis
        using "1.IH"(1)[OF refl Some refl char c1] Some error_in_reads[OF r1] lex_reads_trans[OF r1]
        by (subst lex_string_loop.simps) (auto simp: Let_def split: result.splits)
    next
      case escape
      show ?thesis
      proof (cases "peek_char ?l1")
        case None
        then show ?thesis
          using Some escape error_in_reads[OF r1, symmetric] by (subst lex_string_loop.simps) (simp add: Let_def)
      next
        case esc: (Some ech)
        let ?l2 = "skip_bytes (length ech) ?l1"
        have r2: "lex_reads l ?l2" using lex_reads_trans[OF r1 lex_reads_peek[OF esc]] .
        have c2: "start < lex_cursor ?l2" "lex_cursor ?l2 \<le> length (lex_source ?l2)"
          using peek_char_progress[OF esc] c1 by auto
        show ?thesis
        proof (cases "decode_escape ech")
          case None
          moreover have "error_in l (lex_error ?l2 (lex_cursor l) x)" for x
            using "1.prems"(2) by (subst error_in_reads[OF r2, symmetric]) simp
          ultimately show ?thesis
            using Some escape esc by (subst lex_string_loop.simps) (simp add: Let_def)
        next
          case (Some dec)
          have "\<not> ch \<noteq> [char_of (92::nat)]" using escape by simp
          from "1.IH"(2)[OF refl \<open>peek_char l = Some ch\<close> refl escape(1) this esc refl Some c2]
          show ?thesis
            using \<open>peek_char l = Some ch\<close> escape esc Some error_in_reads[OF r2] lex_reads_trans[OF r2]
            by (subst lex_string_loop.simps) (auto simp: Let_def split: result.splits)
        qed
      qed
    qed
  qed
qed

lemma lex_string_after:
  assumes "lex_cursor l \<le> length (lex_source l)" "peek_char l = Some ch"
  shows "case lex_string quote l of Ok (t, l') \<Rightarrow> token_after l t l' | Err e \<Rightarrow> error_in l e"
proof -
  let ?l1 = "skip_bytes (length ch) l"
  have c: "lex_cursor l < lex_cursor ?l1" "lex_cursor ?l1 \<le> length (lex_source ?l1)"
    using peek_char_progress[OF assms(2)] by auto
  have r: "lex_reads l ?l1" by (rule lex_reads_peek[OF assms(2)])
  show ?thesis
    using lex_string_loop_after[OF c, of quote "[]"] lex_reads_trans[OF r] error_in_reads[OF r] assms(2)
    by (auto simp: lex_string_def consume_char_peek token_after_def split: result.splits)
qed

lemma token_after_reads: "lex_reads l l1 \<Longrightarrow> token_after l1 t l' \<Longrightarrow> token_after l t l'"
  unfolding token_after_def using lex_reads_trans[of l l1 l'] by (auto simp: lex_reads_def)

lemma consume_if_reads: "lex_reads l (snd (consume_if s l))"
  by (simp add: consume_if_def lex_reads_consume)

lemma single_kind_token: "single_kind ch = Some k \<Longrightarrow> k \<noteq> TEnd"
  by (cases ch rule: single_kind.cases) (auto split: if_splits)

lemma double_kind_single: "double_kind ch = Some x \<Longrightarrow> length ch = 1"
  by (auto simp: double_kind_def split: if_splits)

text \<open>The operator and punctuation part of \<open>next_token\<close>.\<close>

lemma next_token_operator:
  assumes "lex_cursor l \<le> length (lex_source l)" and ch: "peek_char l = Some ch"
    and k: "double_kind ch = Some (second, both, alone)"
  shows "case consume_if second (skip_bytes 1 l) of (matched, l2) \<Rightarrow>
           token_after l (Token kind (Span (lex_cursor l) (lex_cursor l2))) l2 \<and>
           error_in l (lex_error l2 (lex_cursor l) x)"
proof -
  obtain matched l2 where c: "consume_if second (skip_bytes 1 l) = (matched, l2)" by fastforce
  have "lex_reads (skip_bytes (length ch) l) l2"
    using consume_if_reads[of "skip_bytes 1 l" second] c double_kind_single[OF k] by simp
  from lex_reads_strict[OF ch this] have r: "lex_reads l l2" "lex_cursor l < lex_cursor l2" by auto
  then have "error_in l (lex_error l2 (lex_cursor l) x)"
    using assms(1) by (subst error_in_reads[OF r(1), symmetric]) (simp add: lex_reads_def)
  then show ?thesis using c r by (simp add: token_after_def)
qed

lemma next_token_after:
  assumes "lex_cursor l \<le> length (lex_source l)"
  shows "case next_token l of Ok (t, l') \<Rightarrow> token_after l t l' | Err e \<Rightarrow> error_in l e"
proof -
  let ?l = "skip_whitespace l"
  have r: "lex_reads l ?l" by (simp add: skip_whitespace_def lex_reads_while)
  then have c: "lex_cursor ?l \<le> length (lex_source ?l)" using assms by (simp add: lex_reads_def)
  have "case next_token l of Ok (t, l') \<Rightarrow> token_after ?l t l' | Err e \<Rightarrow> error_in ?l e"
  proof (cases "peek_char ?l")
    case None
    then show ?thesis by (simp add: next_token_def Let_def token_after_def)
  next
    case (Some ch)
    have one: "token_after ?l (Token k (Span (lex_cursor ?l) (lex_cursor (snd (consume_char ?l)))))
        (snd (consume_char ?l))" for k
      using lex_reads_strict[OF Some lex_reads_refl] by (simp add: token_after_def consume_char_peek[OF Some])
    consider (name) "is_name_start ch" | (number) "\<not> is_name_start ch" "is_digit_char ch"
      | (str) "\<not> is_name_start ch" "\<not> is_digit_char ch" "ch = [char_of (39::nat)] \<or> ch = [char_of (34::nat)]"
      | (op) "\<not> is_name_start ch" "\<not> is_digit_char ch" "\<not> (ch = [char_of (39::nat)] \<or> ch = [char_of (34::nat)])"
      by blast
    then show ?thesis
    proof cases
      case name
      then show ?thesis using Some lex_name_after[OF Some] by (cases "lex_name ?l") (simp add: next_token_def Let_def)
    next
      case number
      then show ?thesis using Some lex_number_after[OF c Some number(2)] by (simp add: next_token_def Let_def)
    next
      case str
      then show ?thesis using Some lex_string_after[OF c Some] by (simp add: next_token_def Let_def)
    next
      case op
      show ?thesis
      proof (cases "single_kind ch")
        case (Some k)
        then show ?thesis using op one \<open>peek_char ?l = Some ch\<close> by (simp add: next_token_def Let_def)
      next
        case none: None
        show ?thesis
        proof (cases "double_kind ch")
          case None
          then show ?thesis using op none Some c by (simp add: next_token_def Let_def)
        next
          case d: (Some x)
          obtain second both alone where x: "x = (second, both, alone)" by (cases x) auto
          obtain matched l2 where ci: "consume_if second (skip_bytes 1 ?l) = (matched, l2)" by fastforce
          note after = next_token_operator[OF c Some d[unfolded x], unfolded ci prod.case]
          show ?thesis
            using op none Some d x ci after
            by (cases matched; cases alone) (simp_all add: next_token_def Let_def)
        qed
      qed
    qed
  qed
  then show ?thesis
    using token_after_reads[OF r] error_in_reads[OF r] by (auto split: result.splits)
qed

end
