(* ===== verification/Rules_Parser.thy ===== *)
theory Rules_Parser
  imports Rules_Lexer
begin

text \<open>
  The recursive-descent parser of the rule profile (\<open>crates/rules/src/parser.rs\<close>). The state is the
  lexer, the current token and the syntactic nesting level. Each grammar level is one definition;
  the levels that call back into the grammar take the nested parser as an argument, and the two
  recursive entry points \<open>parse_unary\<close> and \<open>parse_conditional\<close> recurse on a depth budget. The four
  loops run on a budget of the input that is left. Running out of either budget is the separate
  outcome \<open>OutOfFuel\<close>; a property below shows that it never occurs.
\<close>

section \<open>State and errors\<close>

datatype parse_stop = Failed parse_error | OutOfFuel

record parser =
  p_lexer :: lexer
  p_current :: token
  p_nesting :: nat

type_synonym 'a parse = "('a \<times> parser, parse_stop) result"

abbreviation p_rule_name :: "parser \<Rightarrow> string" where
  "p_rule_name p \<equiv> lex_rule_name (p_lexer p)"

abbreviation p_kind :: "parser \<Rightarrow> token_kind" where
  "p_kind p \<equiv> tok_kind (p_current p)"

abbreviation p_span :: "parser \<Rightarrow> span" where
  "p_span p \<equiv> tok_span (p_current p)"

definition p_remaining :: "parser \<Rightarrow> nat" where
  "p_remaining p = length (lex_source (p_lexer p)) - sp_start (p_span p)"

definition parser_new :: "string \<Rightarrow> string \<Rightarrow> (parser, parse_stop) result" where
  "parser_new rule_name source =
     (case next_token (lexer_new rule_name source) of
        Err e \<Rightarrow> Err (Failed e)
      | Ok (t, l) \<Rightarrow> Ok \<lparr>p_lexer = l, p_current = t, p_nesting = 0\<rparr>)"

definition fail_at :: "parser \<Rightarrow> nat \<Rightarrow> string \<Rightarrow> ('a, parse_stop) result" where
  "fail_at p offset expectation = Err (Failed (ParseError (p_rule_name p) offset expectation))"

definition error_at_current :: "parser \<Rightarrow> string \<Rightarrow> ('a, parse_stop) result" where
  "error_at_current p expectation = fail_at p (sp_start (p_span p)) expectation"

definition advance :: "parser \<Rightarrow> (parser, parse_stop) result" where
  "advance p =
     (case next_token (p_lexer p) of
        Err e \<Rightarrow> Err (Failed e)
      | Ok (t, l) \<Rightarrow> Ok (p\<lparr>p_current := t, p_lexer := l\<rparr>))"

definition enter_nesting :: "nat \<Rightarrow> parser \<Rightarrow> (parser, parse_stop) result" where
  "enter_nesting offset p =
     (if p_nesting p \<ge> MAX_AST_DEPTH
      then fail_at p offset (''an expression nesting depth of at most '' @ nat_to_string MAX_AST_DEPTH)
      else Ok (p\<lparr>p_nesting := p_nesting p + 1\<rparr>))"

definition exit_nesting :: "parser \<Rightarrow> parser" where
  "exit_nesting p = p\<lparr>p_nesting := p_nesting p - 1\<rparr>"

definition expect_kind :: "token_kind \<Rightarrow> string \<Rightarrow> parser \<Rightarrow> span parse" where
  "expect_kind kind expectation p =
     (if p_kind p \<noteq> kind then error_at_current p expectation
      else res_map (\<lambda>p'. (p_span p, p')) (advance p))"

definition expect_colon :: "parser \<Rightarrow> span parse" where
  "expect_colon = expect_kind TColon '':''"

definition expect_right_paren :: "parser \<Rightarrow> span parse" where
  "expect_right_paren = expect_kind TRightParen ''a closing )''"

definition expect_right_bracket :: "parser \<Rightarrow> span parse" where
  "expect_right_bracket = expect_kind TRightBracket ''a closing ]''"

section \<open>Binary operators\<close>

fun left_loop ::
  "nat \<Rightarrow> (parser \<Rightarrow> expr parse) \<Rightarrow> (token_kind \<Rightarrow> binary_op option) \<Rightarrow> expr \<Rightarrow> parser \<Rightarrow> expr parse" where
  "left_loop 0 operand operator left p = Err OutOfFuel"
| "left_loop (Suc n) operand operator left p =
     (case operator (p_kind p) of
        None \<Rightarrow> Ok (left, p)
      | Some op \<Rightarrow>
          res_bind (advance p) (\<lambda>p1.
          res_bind (operand p1) (\<lambda>(right, p2).
          left_loop n operand operator
            (Expr (Span (sp_start (expr_span left)) (sp_end (expr_span right))) (Binary op left right))
            p2)))"

definition parse_left_associative ::
  "(parser \<Rightarrow> expr parse) \<Rightarrow> (token_kind \<Rightarrow> binary_op option) \<Rightarrow> parser \<Rightarrow> expr parse" where
  "parse_left_associative operand operator p =
     res_bind (operand p) (\<lambda>(left, p1). left_loop (Suc (p_remaining p1)) operand operator left p1)"

definition parse_multiplicative :: "(parser \<Rightarrow> expr parse) \<Rightarrow> parser \<Rightarrow> expr parse" where
  "parse_multiplicative unary =
     parse_left_associative unary
       (\<lambda>k. case k of TStar \<Rightarrow> Some MultiplyOp | TSlash \<Rightarrow> Some DivideOp | _ \<Rightarrow> None)"

definition parse_additive :: "(parser \<Rightarrow> expr parse) \<Rightarrow> parser \<Rightarrow> expr parse" where
  "parse_additive unary =
     parse_left_associative (parse_multiplicative unary)
       (\<lambda>k. case k of TPlus \<Rightarrow> Some AddOp | TMinus \<Rightarrow> Some SubtractOp | _ \<Rightarrow> None)"

definition parse_comparison :: "(parser \<Rightarrow> expr parse) \<Rightarrow> parser \<Rightarrow> expr parse" where
  "parse_comparison unary =
     parse_left_associative (parse_additive unary)
       (\<lambda>k. case k of TLessThan \<Rightarrow> Some LessThanOp | TLessThanOrEqual \<Rightarrow> Some LessThanOrEqualOp
          | TGreaterThan \<Rightarrow> Some GreaterThanOp | TGreaterThanOrEqual \<Rightarrow> Some GreaterThanOrEqualOp
          | _ \<Rightarrow> None)"

definition parse_equality :: "(parser \<Rightarrow> expr parse) \<Rightarrow> parser \<Rightarrow> expr parse" where
  "parse_equality unary =
     parse_left_associative (parse_comparison unary)
       (\<lambda>k. case k of TEqual \<Rightarrow> Some EqualOp | TNotEqual \<Rightarrow> Some NotEqualOp | _ \<Rightarrow> None)"

definition parse_and :: "(parser \<Rightarrow> expr parse) \<Rightarrow> parser \<Rightarrow> expr parse" where
  "parse_and unary =
     parse_left_associative (parse_equality unary) (\<lambda>k. case k of TAnd \<Rightarrow> Some AndOp | _ \<Rightarrow> None)"

definition parse_or :: "(parser \<Rightarrow> expr parse) \<Rightarrow> parser \<Rightarrow> expr parse" where
  "parse_or unary =
     parse_left_associative (parse_and unary) (\<lambda>k. case k of TOr \<Rightarrow> Some OrOp | _ \<Rightarrow> None)"

section \<open>Calls, lists and primary expressions\<close>

text \<open>Run a parser one nesting level deeper.\<close>

definition parse_nested :: "(parser \<Rightarrow> 'a parse) \<Rightarrow> nat \<Rightarrow> parser \<Rightarrow> 'a parse" where
  "parse_nested body offset p =
     res_bind (enter_nesting offset p) (\<lambda>p1. res_map (map_prod id exit_nesting) (body p1))"

fun arguments_loop :: "nat \<Rightarrow> (parser \<Rightarrow> expr parse) \<Rightarrow> expr list \<Rightarrow> parser \<Rightarrow> expr list parse" where
  "arguments_loop 0 conditional arguments p = Err OutOfFuel"
| "arguments_loop (Suc n) conditional arguments p =
     res_bind (conditional p) (\<lambda>(argument, p1).
       let arguments = arguments @ [argument] in
       if p_kind p1 \<noteq> TComma then Ok (arguments, p1)
       else res_bind (advance p1) (\<lambda>p2.
            if p_kind p2 = TRightParen then error_at_current p2 ''an expression after the comma''
            else arguments_loop n conditional arguments p2))"

definition parse_call_arguments :: "(parser \<Rightarrow> expr parse) \<Rightarrow> parser \<Rightarrow> expr list parse" where
  "parse_call_arguments conditional p =
     (if p_kind p = TRightParen then Ok ([], p)
      else arguments_loop (Suc (p_remaining p)) conditional [] p)"

fun list_loop :: "nat \<Rightarrow> (parser \<Rightarrow> expr parse) \<Rightarrow> expr list \<Rightarrow> parser \<Rightarrow> expr list parse" where
  "list_loop 0 conditional items p = Err OutOfFuel"
| "list_loop (Suc n) conditional items p =
     res_bind (conditional p) (\<lambda>(item, p1).
       if length items = MAX_LIST_ITEMS
       then fail_at p1 (sp_start (expr_span item))
              (''a list literal with at most '' @ nat_to_string MAX_LIST_ITEMS @ '' items'')
       else let items = items @ [item] in
            if p_kind p1 \<noteq> TComma then Ok (items, p1)
            else res_bind (advance p1) (\<lambda>p2.
                 if p_kind p2 = TRightBracket then error_at_current p2 ''an expression after the comma''
                 else list_loop n conditional items p2))"

definition parse_list_contents :: "(parser \<Rightarrow> expr parse) \<Rightarrow> nat \<Rightarrow> parser \<Rightarrow> expr parse" where
  "parse_list_contents conditional start p =
     (if p_kind p = TRightBracket
      then res_map (\<lambda>p1. (Expr (Span start (sp_end (p_span p))) (ListOf []), p1)) (advance p)
      else res_bind (list_loop (Suc (p_remaining p)) conditional [] p) (\<lambda>(items, p1).
           res_map (\<lambda>(sp, p2). (Expr (Span start (sp_end sp)) (ListOf items), p2))
             (expect_right_bracket p1)))"

definition parse_list :: "(parser \<Rightarrow> expr parse) \<Rightarrow> parser \<Rightarrow> expr parse" where
  "parse_list conditional p =
     (let start = sp_start (p_span p) in
      parse_nested (\<lambda>p1. res_bind (advance p1) (parse_list_contents conditional start)) start p)"

definition parse_literal :: "literal \<Rightarrow> parser \<Rightarrow> expr parse" where
  "parse_literal lit p = res_map (\<lambda>p1. (Expr (p_span p) (Literal lit), p1)) (advance p)"

definition parse_enum_symbol :: "string \<Rightarrow> nat \<Rightarrow> parser \<Rightarrow> expr parse" where
  "parse_enum_symbol name start p =
     res_bind (advance p) (\<lambda>p1.
       if p_kind p1 \<noteq> TColon then error_at_current p1 ''a second ':' in an enum symbol''
       else res_bind (advance p1) (\<lambda>p2.
            case p_kind p2 of
              TName symbol \<Rightarrow>
                res_map (\<lambda>p3. (Expr (Span start (sp_end (p_span p2))) (EnumSymbol name symbol), p3))
                  (advance p2)
            | _ \<Rightarrow> error_at_current p2 ''an enum symbol name''))"

definition parse_call :: "(parser \<Rightarrow> expr parse) \<Rightarrow> string \<Rightarrow> span \<Rightarrow> parser \<Rightarrow> expr parse" where
  "parse_call conditional name sp p =
     (case function_parse name of
        None \<Rightarrow> fail_at p (sp_start sp) ''one of size, is_null, startsWith, endsWith''
      | Some function \<Rightarrow>
          res_bind (parse_nested (\<lambda>p1. res_bind (advance p1) (parse_call_arguments conditional))
                      (sp_start sp) p) (\<lambda>(arguments, p2).
          res_map (\<lambda>(sp', p3). (Expr (Span (sp_start sp) (sp_end sp')) (Call function arguments), p3))
            (expect_right_paren p2)))"

definition parse_name :: "(parser \<Rightarrow> expr parse) \<Rightarrow> string \<Rightarrow> parser \<Rightarrow> expr parse" where
  "parse_name conditional name p =
     res_bind (advance p) (\<lambda>p1.
       if p_kind p1 = TColon then parse_enum_symbol name (sp_start (p_span p)) p1
       else if p_kind p1 \<noteq> TLeftParen then Ok (Expr (p_span p) (Name name), p1)
       else parse_call conditional name (p_span p) p1)"

definition parse_parenthesized :: "(parser \<Rightarrow> expr parse) \<Rightarrow> parser \<Rightarrow> expr parse" where
  "parse_parenthesized conditional p =
     (let start = sp_start (p_span p) in
      res_bind (parse_nested (\<lambda>p1. res_bind (advance p1) conditional) start p) (\<lambda>(e, p2).
      res_map (\<lambda>(sp, p3). (Expr (Span start (sp_end sp)) (expr_kind e), p3))
        (expect_right_paren p2)))"

definition parse_primary :: "(parser \<Rightarrow> expr parse) \<Rightarrow> parser \<Rightarrow> expr parse" where
  "parse_primary conditional p =
     (case p_kind p of
        TNull \<Rightarrow> parse_literal LNull p
      | TTrue \<Rightarrow> parse_literal (LBool True) p
      | TFalse \<Rightarrow> parse_literal (LBool False) p
      | TInteger v \<Rightarrow> parse_literal (LInt v) p
      | TDecimal v \<Rightarrow> parse_literal (LDecimal v) p
      | TString v \<Rightarrow> parse_literal (LString v) p
      | TName name \<Rightarrow> parse_name conditional name p
      | TLeftParen \<Rightarrow> parse_parenthesized conditional p
      | TLeftBracket \<Rightarrow> parse_list conditional p
      | _ \<Rightarrow> error_at_current p ''an expression'')"

section \<open>Postfix, unary and conditional expressions\<close>

definition parse_member :: "expr \<Rightarrow> parser \<Rightarrow> expr parse" where
  "parse_member target p =
     res_bind (advance p) (\<lambda>p1.
       case p_kind p1 of
         TName field \<Rightarrow>
           res_map (\<lambda>p2. (Expr (Span (sp_start (expr_span target)) (sp_end (p_span p1)))
                            (Member target field), p2)) (advance p1)
       | _ \<Rightarrow> error_at_current p1 ''a static object field name'')"

definition parse_index :: "expr \<Rightarrow> parser \<Rightarrow> expr parse" where
  "parse_index target p =
     res_bind (advance p) (\<lambda>p1.
       case p_kind p1 of
         TInteger v \<Rightarrow>
           (case parse_unsigned (2 ^ 64 - 1) v of
              None \<Rightarrow> fail_at p1 (sp_start (p_span p1)) ''a valid non-negative list index''
            | Some index \<Rightarrow>
                res_bind (advance p1) (\<lambda>p2.
                res_map (\<lambda>(sp, p3). (Expr (Span (sp_start (expr_span target)) (sp_end sp))
                                       (Index target index), p3)) (expect_right_bracket p2)))
       | _ \<Rightarrow> error_at_current p1 ''a non-negative integer list index'')"

fun postfix_loop :: "nat \<Rightarrow> expr \<Rightarrow> parser \<Rightarrow> expr parse" where
  "postfix_loop 0 e p = Err OutOfFuel"
| "postfix_loop (Suc n) e p =
     (if p_kind p = TDot then res_bind (parse_member e p) (\<lambda>(e', p'). postfix_loop n e' p')
      else if p_kind p = TLeftBracket then res_bind (parse_index e p) (\<lambda>(e', p'). postfix_loop n e' p')
      else Ok (e, p))"

definition parse_postfix :: "(parser \<Rightarrow> expr parse) \<Rightarrow> parser \<Rightarrow> expr parse" where
  "parse_postfix conditional p =
     res_bind (parse_primary conditional p) (\<lambda>(e, p1). postfix_loop (Suc (p_remaining p1)) e p1)"

definition parse_prefix :: "(parser \<Rightarrow> expr parse) \<Rightarrow> unary_op \<Rightarrow> parser \<Rightarrow> expr parse" where
  "parse_prefix unary op p =
     (let start = sp_start (p_span p) in
      res_map (\<lambda>(operand, p1). (Expr (Span start (sp_end (expr_span operand))) (Unary op operand), p1))
        (parse_nested (\<lambda>p1. res_bind (advance p1) unary) start p))"

definition unary_step ::
  "(parser \<Rightarrow> expr parse) \<Rightarrow> (parser \<Rightarrow> expr parse) \<Rightarrow> parser \<Rightarrow> expr parse" where
  "unary_step unary conditional p =
     (case p_kind p of
        TBang \<Rightarrow> parse_prefix unary NotOp p
      | TMinus \<Rightarrow> parse_prefix unary NegateOp p
      | _ \<Rightarrow> parse_postfix conditional p)"

definition conditional_step ::
  "(parser \<Rightarrow> expr parse) \<Rightarrow> (parser \<Rightarrow> expr parse) \<Rightarrow> parser \<Rightarrow> expr parse" where
  "conditional_step unary conditional p =
     res_bind (parse_or unary p) (\<lambda>(condition, p1).
       if p_kind p1 \<noteq> TQuestion then Ok (condition, p1)
       else let question_offset = sp_start (p_span p1) in
            res_bind (advance p1) (\<lambda>p2.
            res_bind (parse_nested conditional question_offset p2) (\<lambda>(when_true, p3).
            res_bind (expect_colon p3) (\<lambda>(_, p4).
            res_map (\<lambda>(when_false, p5).
                (Expr (Span (sp_start (expr_span condition)) (sp_end (expr_span when_false)))
                   (Conditional condition when_true when_false), p5))
              (parse_nested conditional question_offset p4)))))"

text \<open>The recursion of the grammar, with \<open>d\<close> nesting levels to spare.\<close>

fun parse_unary :: "nat \<Rightarrow> parser \<Rightarrow> expr parse"
  and parse_conditional :: "nat \<Rightarrow> parser \<Rightarrow> expr parse" where
  "parse_unary 0 p = Err OutOfFuel"
| "parse_unary (Suc d) p = unary_step (parse_unary d) (parse_conditional d) p"
| "parse_conditional 0 p = Err OutOfFuel"
| "parse_conditional (Suc d) p =
     conditional_step (unary_step (parse_unary d) (parse_conditional d)) (parse_conditional d) p"

section \<open>Entry point\<close>

text \<open>The iterative depth measure: a worklist of nodes with their depth.\<close>

function depth_loop :: "(expr \<times> nat) list \<Rightarrow> nat \<Rightarrow> nat" where
  "depth_loop [] maximum = maximum"
| "depth_loop ((e, d) # pending) maximum =
     depth_loop (rev (map (\<lambda>c. (c, d + 1)) (children e)) @ pending) (max maximum d)"
  by pat_completeness auto
termination
proof (relation "measure (\<lambda>(ps, m). sum_list (map (\<lambda>(e, d). size e) ps))", goal_cases)
  case (2 e d pending maximum)
  have "sum_list (map size (children e)) < size e"
    by (cases e rule: children.cases) (auto simp: size_list_conv_sum_list sum_list_addf less_Suc_eq_le)
  moreover have "sum_list (map (\<lambda>(e, d). size e) (rev (map (\<lambda>c. (c, d + 1)) (children e)))) =
      sum_list (map size (children e))"
    by (simp only: rev_map[symmetric] sum_list_rev map_map comp_def prod.case)
  ultimately show ?case by (simp only: in_measure prod.case map_append sum_list.append list.map sum_list.Cons)
qed simp

definition expression_depth :: "expr \<Rightarrow> nat" where
  "expression_depth e = depth_loop [(e, 1)] 0"

definition parse_expression :: "string \<Rightarrow> string \<Rightarrow> (expr, parse_stop) result" where
  "parse_expression rule_name source =
     (if length source > MAX_EXPRESSION_BYTES
      then Err (Failed (ParseError rule_name MAX_EXPRESSION_BYTES
             (''an expression of at most '' @ nat_to_string MAX_EXPRESSION_BYTES @ '' bytes'')))
      else res_bind (parser_new rule_name source) (\<lambda>p.
           res_bind (parse_conditional (Suc MAX_AST_DEPTH) p) (\<lambda>(expression, p1).
           if p_kind p1 \<noteq> TEnd then error_at_current p1 ''the end of the expression''
           else if expression_depth expression > MAX_AST_DEPTH
           then Err (Failed (ParseError rule_name (sp_start (expr_span expression))
                  (''an expression nesting depth of at most '' @ nat_to_string MAX_AST_DEPTH)))
           else Ok expression)))"


section \<open>Outcomes\<close>

text \<open>
  \<open>outcome l Q r\<close>: the result \<open>r\<close> is a value that satisfies \<open>Q\<close>, or a diagnostic that names the rule
  and an offset of the source of \<open>l\<close>. Running out of fuel is not an outcome.
\<close>

definition outcome :: "lexer \<Rightarrow> ('a \<Rightarrow> bool) \<Rightarrow> ('a, parse_stop) result \<Rightarrow> bool" where
  "outcome l Q r \<longleftrightarrow>
     (case r of Ok x \<Rightarrow> Q x | Err (Failed e) \<Rightarrow> error_in l e | Err OutOfFuel \<Rightarrow> False)"

lemma outcome_Ok [simp]: "outcome l Q (Ok x) \<longleftrightarrow> Q x"
  by (simp add: outcome_def)

lemma outcome_bind:
  "outcome l Q r \<Longrightarrow> (\<And>x. Q x \<Longrightarrow> outcome l R (f x)) \<Longrightarrow> outcome l R (res_bind r f)"
  by (cases r) (auto simp: outcome_def)

lemma outcome_map:
  "outcome l Q r \<Longrightarrow> (\<And>x. Q x \<Longrightarrow> R (f x)) \<Longrightarrow> outcome l R (res_map f r)"
  by (cases r) (auto simp: outcome_def)

lemma outcome_mono: "outcome l Q r \<Longrightarrow> (\<And>x. Q x \<Longrightarrow> R x) \<Longrightarrow> outcome l R r"
  by (auto simp: outcome_def split: result.splits parse_stop.splits)

text \<open>The state invariant: the current token ends at the lexer's cursor, inside the source.\<close>

definition p_ok :: "parser \<Rightarrow> bool" where
  "p_ok p \<longleftrightarrow>
     sp_end (p_span p) = lex_cursor (p_lexer p) \<and>
     lex_cursor (p_lexer p) \<le> length (lex_source (p_lexer p)) \<and>
     sp_start (p_span p) \<le> sp_end (p_span p) \<and>
     (p_kind p \<noteq> TEnd \<longrightarrow> sp_start (p_span p) < sp_end (p_span p))"

text \<open>\<open>p'\<close> continues \<open>p\<close>: same source, rule and nesting, at the same or a later token.\<close>

definition continues :: "parser \<Rightarrow> parser \<Rightarrow> bool" where
  "continues p p' \<longleftrightarrow>
     p_ok p' \<and> lex_source (p_lexer p') = lex_source (p_lexer p) \<and>
     p_rule_name p' = p_rule_name p \<and> p_nesting p' = p_nesting p \<and>
     sp_start (p_span p) \<le> sp_start (p_span p')"

lemma continues_refl: "p_ok p \<Longrightarrow> continues p p"
  by (simp add: continues_def)

lemma continues_trans: "continues p p1 \<Longrightarrow> continues p1 p2 \<Longrightarrow> continues p p2"
  by (auto simp: continues_def)

lemma continues_ok: "continues p p' \<Longrightarrow> p_ok p'"
  by (simp add: continues_def)

lemma continues_start: "continues p p' \<Longrightarrow> sp_start (p_span p) \<le> sp_start (p_span p')"
  by (simp add: continues_def)

lemma outcome_continues: "continues p p' \<Longrightarrow> outcome (p_lexer p') Q r \<longleftrightarrow> outcome (p_lexer p) Q r"
  by (auto simp: outcome_def continues_def error_in_def split: result.splits parse_stop.splits)

lemma outcome_fail_at: "p_ok p \<Longrightarrow> offset \<le> sp_end (p_span p) \<Longrightarrow> outcome (p_lexer p) Q (fail_at p offset x)"
  by (auto simp: outcome_def fail_at_def error_in_def ParseError_def p_ok_def)

lemma outcome_error: "p_ok p \<Longrightarrow> outcome (p_lexer p) Q (error_at_current p x)"
  unfolding error_at_current_def by (rule outcome_fail_at) (auto simp: p_ok_def)

lemma outcome_advance:
  assumes "p_ok p"
  shows "outcome (p_lexer p)
     (\<lambda>p'. continues p p' \<and> sp_end (p_span p) \<le> sp_start (p_span p')) (advance p)"
  using assms next_token_after[of "p_lexer p"]
  by (auto simp: advance_def outcome_def p_ok_def continues_def token_after_def lex_reads_def
      split: result.splits)

lemma outcome_expect:
  assumes "p_ok p" "kind \<noteq> TEnd"
  shows "outcome (p_lexer p)
     (\<lambda>(sp, p'). continues p p' \<and> sp = p_span p \<and> sp_start (p_span p) < sp_end sp \<and>
        sp_end sp \<le> sp_start (p_span p')) (expect_kind kind x p)"
proof (cases "p_kind p = kind")
  case True
  then have "sp_start (p_span p) < sp_end (p_span p)" using assms by (auto simp: p_ok_def)
  then show ?thesis
    using True by (auto simp: expect_kind_def intro!: outcome_map[OF outcome_advance[OF assms(1)]])
next
  case False
  then show ?thesis using assms by (simp add: expect_kind_def outcome_error)
qed

lemmas expect_defs = expect_colon_def expect_right_paren_def expect_right_bracket_def

section \<open>The contract of an expression parser\<close>

text \<open>
  What every grammar level promises at nesting level \<open>lvl\<close>: from a well-formed state it settles; on
  success it has consumed a token, restored the nesting level, and the expression lies between the
  start of the first token and the start of the next one.
\<close>

definition parsed :: "parser \<Rightarrow> expr \<times> parser \<Rightarrow> bool" where
  "parsed p = (\<lambda>(e, p'). continues p p' \<and> sp_start (p_span p) < sp_start (p_span p') \<and>
     located (sp_start (p_span p)) (sp_start (p_span p')) e)"

lemma parsed_trans: "continues p p1 \<Longrightarrow> parsed p1 r \<Longrightarrow> parsed p r"
  by (auto simp: parsed_def continues_def intro: located_mono split: prod.splits)

lemma parsedD:
  assumes "parsed p (e, p')"
  shows "continues p p'" "p_ok p'" "sp_start (p_span p) < sp_start (p_span p')"
    "located (sp_start (p_span p)) (sp_start (p_span p')) e"
    "sp_start (p_span p) \<le> sp_start (expr_span e)" "sp_start (expr_span e) \<le> sp_end (expr_span e)"
    "sp_end (expr_span e) \<le> sp_start (p_span p')"
  using assms by (auto simp: parsed_def continues_def located.simps[of _ _ e])

lemma p_remaining_continues: "continues p p' \<Longrightarrow> p_remaining p' \<le> p_remaining p"
  by (auto simp: p_remaining_def continues_def)

lemma p_remaining_less:
  assumes "continues p p'" "sp_start (p_span p) < sp_start (p_span p')"
  shows "p_remaining p' < p_remaining p"
proof -
  have "sp_start (p_span p') \<le> length (lex_source (p_lexer p))"
    using assms by (auto simp: continues_def p_ok_def)
  then show ?thesis using assms by (auto simp: p_remaining_def continues_def)
qed

lemma located_in:
  "located lo hi e \<Longrightarrow> lo' \<le> sp_start (expr_span e) \<Longrightarrow> sp_end (expr_span e) \<le> hi' \<Longrightarrow> located lo' hi' e"
  unfolding located.simps[of _ _ e] by auto

lemma located_new:
  assumes "lo \<le> a" "b \<le> hi" "a \<le> b" "\<forall>items. k = ListOf items \<longrightarrow> length items \<le> MAX_LIST_ITEMS"
    "\<forall>e \<in> set (children (Expr (Span a b) k)). located a b e"
  shows "located lo hi (Expr (Span a b) k)"
  using assms by (subst located.simps) auto

locale expression_parser =
  fixes run :: "parser \<Rightarrow> expr parse" and lvl :: nat
  assumes run_outcome: "p_ok p \<Longrightarrow> p_nesting p = lvl \<Longrightarrow> outcome (p_lexer p) (parsed p) (run p)"
begin

lemma run_after:
  assumes "continues p p1" "p_nesting p = lvl"
  shows "outcome (p_lexer p) (parsed p1) (run p1)"
  using run_outcome[of p1] assms by (simp add: outcome_continues[OF assms(1)] continues_def)

text \<open>A sequence of left-associative binary operators over this level.\<close>

lemma left_loop_outcome:
  assumes "operator TEnd = None"
  shows "parsed p (left, p1) \<Longrightarrow> p_nesting p = lvl \<Longrightarrow> p_remaining p1 < n \<Longrightarrow>
    outcome (p_lexer p) (parsed p) (left_loop n run operator left p1)"
proof (induction n arbitrary: left p1)
  case (Suc n)
  note l = parsedD[OF Suc.prems(1)]
  show ?case
  proof (cases "operator (p_kind p1)")
    case None
    then show ?thesis using Suc.prems by simp
  next
    case (Some op)
    have adv: "outcome (p_lexer p) (\<lambda>p2. continues p1 p2 \<and> sp_end (p_span p1) \<le> sp_start (p_span p2)) (advance p1)"
      using outcome_advance[OF l(2)] outcome_continues[OF l(1)] by blast
    have step: "outcome (p_lexer p) (parsed p) (res_bind (run p2) (\<lambda>(right, p3).
        left_loop n run operator
          (Expr (Span (sp_start (expr_span left)) (sp_end (expr_span right))) (Binary op left right)) p3))"
      if p2: "continues p1 p2" "sp_end (p_span p1) \<le> sp_start (p_span p2)" for p2
    proof (rule outcome_bind[OF run_after])
      show c: "continues p p2" using l(1) p2(1) continues_trans by blast
      fix r assume r: "parsed p2 r"
      obtain right p3 where rp: "r = (right, p3)" by fastforce
      note d = parsedD[OF r[unfolded rp]]
      have c3: "continues p p3" using c d(1) continues_trans by blast
      have "p_remaining p3 < p_remaining p1"
        using p_remaining_less[OF d(1,3)] p_remaining_continues[OF p2(1)] by linarith
      moreover have "parsed p (Expr (Span (sp_start (expr_span left)) (sp_end (expr_span right)))
          (Binary op left right), p3)"
        using c3 l d continues_start[OF p2(1)]
        by (auto simp: parsed_def intro!: located_new located_in[OF l(4)] located_in[OF d(4)])
      ultimately show "outcome (p_lexer p) (parsed p) (case r of (right, p3) \<Rightarrow>
          left_loop n run operator
            (Expr (Span (sp_start (expr_span left)) (sp_end (expr_span right))) (Binary op left right)) p3)"
        using Suc.IH[OF _ Suc.prems(2)] Suc.prems(3) rp by simp
    qed (use Suc.prems in simp)
    show ?thesis using Some by (auto intro!: outcome_bind[OF adv] step)
  qed
qed simp

lemma left_associative:
  "operator TEnd = None \<Longrightarrow> expression_parser (parse_left_associative run operator) lvl"
  by unfold_locales (auto simp: parse_left_associative_def simp del: left_loop.simps
      intro!: outcome_bind[OF run_outcome] intro: left_loop_outcome)

end

text \<open>Items separated by commas, each parsed at this level.\<close>

context expression_parser
begin

lemma arguments_loop_outcome:
  "continues p p1 \<Longrightarrow> p_nesting p = lvl \<Longrightarrow> a \<le> sp_start (p_span p1) \<Longrightarrow> p_remaining p1 < n \<Longrightarrow>
   \<forall>e \<in> set args. located a (sp_start (p_span p1)) e \<Longrightarrow>
   outcome (p_lexer p) (\<lambda>(es, p'). continues p p' \<and> a \<le> sp_start (p_span p') \<and>
      (\<forall>e \<in> set es. located a (sp_start (p_span p')) e)) (arguments_loop n run args p1)"
proof (induction n arbitrary: args p1)
  case (Suc n)
  have step: "outcome (p_lexer p) (\<lambda>(es, p'). continues p p' \<and> a \<le> sp_start (p_span p') \<and>
      (\<forall>e \<in> set es. located a (sp_start (p_span p')) e))
      (let arguments = args @ [e] in
       if p_kind p2 \<noteq> TComma then Ok (arguments, p2)
       else res_bind (advance p2) (\<lambda>p3.
            if p_kind p3 = TRightParen then error_at_current p3 ''an expression after the comma''
            else arguments_loop n run arguments p3))" if r: "parsed p1 (e, p2)" for e p2
  proof -
    note d = parsedD[OF r]
    have c2: "continues p p2" using Suc.prems(1) d(1) continues_trans by blast
    have adv: "outcome (p_lexer p) (\<lambda>p'. continues p2 p' \<and> sp_end (p_span p2) \<le> sp_start (p_span p')) (advance p2)"
      using outcome_advance[OF d(2)] outcome_continues[OF c2] by blast
    have located: "\<forall>e' \<in> set (args @ [e]). located a m e'" if "sp_start (p_span p2) \<le> m" for m
      using Suc.prems(3,5) d that located_in[OF d(4), of a m] by (auto intro: located_mono)
    have next_item: "outcome (p_lexer p) (\<lambda>(es, p'). continues p p' \<and> a \<le> sp_start (p_span p') \<and>
        (\<forall>e \<in> set es. located a (sp_start (p_span p')) e)) (arguments_loop n run (args @ [e]) p3)"
      if p3: "continues p2 p3" for p3
    proof (rule Suc.IH)
      show "continues p p3" using c2 p3 continues_trans by blast
      show "p_remaining p3 < n"
        using p_remaining_less[OF d(1,3)] p_remaining_continues[OF p3] Suc.prems(4) by linarith
      show "a \<le> sp_start (p_span p3)"
        using Suc.prems(3) d(3) continues_start[OF p3] by linarith
    qed (use Suc.prems(2) located continues_start[OF p3] in auto)
    have err: "outcome (p_lexer p) Q (error_at_current p3 x)" if "continues p2 p3" for p3 Q x
      using outcome_error[of p3] that outcome_continues[OF continues_trans[OF c2 that]] continues_ok by blast
    show ?thesis
      using c2 d(3) Suc.prems(3) located[OF order_refl]
      by (auto simp: Let_def intro!: outcome_bind[OF adv] next_item err)
  qed
  show ?case
    unfolding arguments_loop.simps
    by (rule outcome_bind[OF run_after[OF Suc.prems(1,2)]]) (use step in auto)
qed simp

lemma list_loop_outcome:
  "continues p p1 \<Longrightarrow> p_nesting p = lvl \<Longrightarrow> a \<le> sp_start (p_span p1) \<Longrightarrow> p_remaining p1 < n \<Longrightarrow>
   length items \<le> MAX_LIST_ITEMS \<Longrightarrow> \<forall>e \<in> set items. located a (sp_start (p_span p1)) e \<Longrightarrow>
   outcome (p_lexer p) (\<lambda>(es, p'). continues p p' \<and> a \<le> sp_start (p_span p') \<and>
      length es \<le> MAX_LIST_ITEMS \<and> (\<forall>e \<in> set es. located a (sp_start (p_span p')) e))
     (list_loop n run items p1)"
proof (induction n arbitrary: items p1)
  case (Suc n)
  have step: "outcome (p_lexer p) (\<lambda>(es, p'). continues p p' \<and> a \<le> sp_start (p_span p') \<and>
      length es \<le> MAX_LIST_ITEMS \<and> (\<forall>e \<in> set es. located a (sp_start (p_span p')) e))
      (if length items = MAX_LIST_ITEMS
       then fail_at p2 (sp_start (expr_span e))
              (''a list literal with at most '' @ nat_to_string MAX_LIST_ITEMS @ '' items'')
       else let items = items @ [e] in
            if p_kind p2 \<noteq> TComma then Ok (items, p2)
            else res_bind (advance p2) (\<lambda>p3.
                 if p_kind p3 = TRightBracket then error_at_current p3 ''an expression after the comma''
                 else list_loop n run items p3))" if r: "parsed p1 (e, p2)" for e p2
  proof -
    note d = parsedD[OF r]
    have c2: "continues p p2" using Suc.prems(1) d(1) continues_trans by blast
    have adv: "outcome (p_lexer p) (\<lambda>p'. continues p2 p' \<and> sp_end (p_span p2) \<le> sp_start (p_span p')) (advance p2)"
      using outcome_advance[OF d(2)] outcome_continues[OF c2] by blast
    have located: "\<forall>e' \<in> set (items @ [e]). located a m e'" if "sp_start (p_span p2) \<le> m" for m
      using Suc.prems(3,6) d that located_in[OF d(4), of a m] by (auto intro: located_mono)
    have next_item: "outcome (p_lexer p) (\<lambda>(es, p'). continues p p' \<and> a \<le> sp_start (p_span p') \<and>
        length es \<le> MAX_LIST_ITEMS \<and> (\<forall>e \<in> set es. located a (sp_start (p_span p')) e))
       (list_loop n run (items @ [e]) p3)"
      if p3: "continues p2 p3" and "length items \<noteq> MAX_LIST_ITEMS" for p3
    proof (rule Suc.IH)
      show "continues p p3" using c2 p3 continues_trans by blast
      show "p_remaining p3 < n"
        using p_remaining_less[OF d(1,3)] p_remaining_continues[OF p3] Suc.prems(4) by linarith
      show "a \<le> sp_start (p_span p3)"
        using Suc.prems(3) d(3) continues_start[OF p3] by linarith
    qed (use Suc.prems(2,5) that(2) located continues_start[OF p3] in auto)
    have err: "outcome (p_lexer p) Q (error_at_current p3 x)" if "continues p2 p3" for p3 Q x
      using outcome_error[of p3] that outcome_continues[OF continues_trans[OF c2 that]] continues_ok by blast
    have "sp_start (expr_span e) \<le> sp_end (p_span p2)" using d by (simp add: p_ok_def)
    then have full: "outcome (p_lexer p) Q (fail_at p2 (sp_start (expr_span e)) x)" for Q x
      using outcome_fail_at[OF d(2)] outcome_continues[OF c2] by blast
    show ?thesis
      using c2 d(3) Suc.prems(3,5) located[OF order_refl]
      by (auto simp: Let_def intro!: outcome_bind[OF adv] next_item err full)
  qed
  show ?case
    unfolding list_loop.simps
    by (rule outcome_bind[OF run_after[OF Suc.prems(1,2)]]) (use step in auto)
qed simp

end

section \<open>Primary expressions\<close>

lemma nesting_simps [simp]:
  "p_lexer (p\<lparr>p_nesting := n\<rparr>) = p_lexer p" "p_current (p\<lparr>p_nesting := n\<rparr>) = p_current p"
  "p_lexer (exit_nesting p) = p_lexer p" "p_current (exit_nesting p) = p_current p"
  "p_ok (p\<lparr>p_nesting := n\<rparr>) = p_ok p" "p_ok (exit_nesting p) = p_ok p"
  by (simp_all add: exit_nesting_def p_ok_def)

text \<open>One nesting level deeper: the body runs with the level raised, and the level is restored.\<close>

lemma nested_outcome:
  assumes "p_ok p" "offset \<le> sp_end (p_span p)"
    and body: "\<And>p1. p_nesting p < MAX_AST_DEPTH \<Longrightarrow> p1 = p\<lparr>p_nesting := Suc (p_nesting p)\<rparr> \<Longrightarrow>
      outcome (p_lexer p) (\<lambda>(x, p2). continues p1 p2 \<and> Q x (p_span p2)) (body p1)"
  shows "outcome (p_lexer p) (\<lambda>(x, p2). continues p p2 \<and> Q x (p_span p2)) (parse_nested body offset p)"
proof (cases "p_nesting p < MAX_AST_DEPTH")
  case True
  have "continues p (exit_nesting p2)" if "continues (p\<lparr>p_nesting := Suc (p_nesting p)\<rparr>) p2" for p2
    using that by (simp add: continues_def) (simp add: exit_nesting_def)
  then show ?thesis
    using True body[OF True refl]
    by (auto simp: parse_nested_def enter_nesting_def intro!: outcome_map)
next
  case False
  then show ?thesis
    using outcome_fail_at[OF assms(1,2)] by (auto simp: parse_nested_def enter_nesting_def fail_at_def)
qed

lemma nested_run:
  assumes "p_nesting p < MAX_AST_DEPTH \<Longrightarrow> expression_parser run (Suc (p_nesting p))"
    and "p_ok p" "offset \<le> sp_end (p_span p)"
  shows "outcome (p_lexer p) (parsed p) (parse_nested run offset p)"
proof -
  have "outcome (p_lexer p) (\<lambda>(e, p2). continues p p2 \<and> sp_start (p_span p) < sp_start (p_span p2) \<and>
      located (sp_start (p_span p)) (sp_start (p_span p2)) e) (parse_nested run offset p)"
  proof (rule nested_outcome[OF assms(2,3)])
    fix p1 assume "p_nesting p < MAX_AST_DEPTH" and p1: "p1 = p\<lparr>p_nesting := Suc (p_nesting p)\<rparr>"
    then have "outcome (p_lexer p1) (parsed p1) (run p1)"
      using expression_parser.run_outcome[OF assms(1), of p1] assms(2) by simp
    then show "outcome (p_lexer p) (\<lambda>(e, p2). continues p1 p2 \<and> sp_start (p_span p) < sp_start (p_span p2) \<and>
        located (sp_start (p_span p)) (sp_start (p_span p2)) e) (run p1)"
      by (simp add: p1 parsed_def)
  qed
  then show ?thesis by (simp add: parsed_def)
qed

text \<open>After the opening token, a body that is described from the next token on.\<close>

lemma nested_advance:
  assumes "p_ok p"
    and body: "\<And>p1 p2. p_nesting p < MAX_AST_DEPTH \<Longrightarrow> p1 = p\<lparr>p_nesting := Suc (p_nesting p)\<rparr> \<Longrightarrow>
      continues p1 p2 \<Longrightarrow> sp_end (p_span p) \<le> sp_start (p_span p2) \<Longrightarrow>
      outcome (p_lexer p2) (\<lambda>(x, p3). continues p2 p3 \<and> Q x (p_span p3)) (body p2)"
    and "offset \<le> sp_end (p_span p)"
  shows "outcome (p_lexer p) (\<lambda>(x, p2). continues p p2 \<and> Q x (p_span p2))
     (parse_nested (\<lambda>p1. res_bind (advance p1) body) offset p)"
proof (rule nested_outcome[OF assms(1) assms(3)])
  fix p1 assume lt: "p_nesting p < MAX_AST_DEPTH" and p1: "p1 = p\<lparr>p_nesting := Suc (p_nesting p)\<rparr>"
  have adv: "outcome (p_lexer p) (\<lambda>p2. continues p1 p2 \<and> sp_end (p_span p) \<le> sp_start (p_span p2)) (advance p1)"
    using outcome_advance[of p1] assms(1) by (simp add: p1)
  show "outcome (p_lexer p) (\<lambda>(x, p2). continues p1 p2 \<and> Q x (p_span p2)) (res_bind (advance p1) body)"
  proof (rule outcome_bind[OF adv])
    fix p2 assume p2: "continues p1 p2 \<and> sp_end (p_span p) \<le> sp_start (p_span p2)"
    then have "outcome (p_lexer p1) (\<lambda>(x, p3). continues p2 p3 \<and> Q x (p_span p3)) (body p2)"
      using body[OF lt p1, of p2] outcome_continues[of p1 p2] by blast
    then show "outcome (p_lexer p) (\<lambda>(x, p2). continues p1 p2 \<and> Q x (p_span p2)) (body p2)"
      using p2 continues_trans by (auto simp: p1 elim!: outcome_mono)
  qed
qed

text \<open>A parser that may be called one level deeper than \<open>lvl\<close>.\<close>

definition nestable :: "(parser \<Rightarrow> expr parse) \<Rightarrow> nat \<Rightarrow> bool" where
  "nestable run lvl \<longleftrightarrow> (lvl < MAX_AST_DEPTH \<longrightarrow> expression_parser run (Suc lvl))"

lemma nestable_run:
  assumes "nestable run (p_nesting p)" "p_nesting p < MAX_AST_DEPTH"
    and "continues (p\<lparr>p_nesting := Suc (p_nesting p)\<rparr>) p2"
  shows "outcome (p_lexer p2) (parsed p2) (run p2)"
  using expression_parser.run_outcome[of run "Suc (p_nesting p)" p2] assms
  by (simp add: nestable_def continues_def)

text \<open>A token that is not the end of the source is consumed.\<close>

lemma outcome_take:
  assumes "p_ok p" "p_kind p \<noteq> TEnd"
  shows "outcome (p_lexer p) (\<lambda>p'. continues p p' \<and> sp_start (p_span p) < sp_end (p_span p) \<and>
     sp_end (p_span p) \<le> sp_start (p_span p')) (advance p)"
  using outcome_advance[OF assms(1)] assms by (auto simp: p_ok_def elim!: outcome_mono)

text \<open>Results described relative to an earlier state.\<close>

lemma outcome_via:
  "outcome (p_lexer p1) Q r \<Longrightarrow> continues p p1 \<Longrightarrow> (\<And>x. Q x \<Longrightarrow> R x) \<Longrightarrow> outcome (p_lexer p) R r"
  using outcome_continues outcome_mono by blast

lemma parse_literal_outcome:
  assumes "p_ok p" "p_kind p \<noteq> TEnd"
  shows "outcome (p_lexer p) (parsed p) (parse_literal lit p)"
  unfolding parse_literal_def
  by (rule outcome_map[OF outcome_take[OF assms]])
     (auto simp: parsed_def located.simps[of _ _ "Expr _ _"])

lemma outcome_error_after: "continues p p1 \<Longrightarrow> outcome (p_lexer p) Q (error_at_current p1 x)"
  using outcome_error[OF continues_ok] outcome_continues by blast

lemma parse_enum_symbol_outcome:
  assumes p: "p_ok p" and p1: "continues p p1" "p_kind p1 = TColon"
    and lt: "sp_start (p_span p) < sp_start (p_span p1)"
  shows "outcome (p_lexer p) (parsed p) (parse_enum_symbol name (sp_start (p_span p)) p1)"
proof -
  have adv: "outcome (p_lexer p) (\<lambda>p'. continues q p' \<and> sp_end (p_span q) \<le> sp_start (p_span p')) (advance q)"
    if "continues p q" for q
    using outcome_advance[OF continues_ok[OF that]] outcome_continues[OF that] by blast
  have last: "outcome (p_lexer p) (parsed p)
      (case p_kind p3 of
         TName symbol \<Rightarrow>
           res_map (\<lambda>p4. (Expr (Span (sp_start (p_span p)) (sp_end (p_span p3))) (EnumSymbol name symbol), p4))
             (advance p3)
       | _ \<Rightarrow> error_at_current p3 ''an enum symbol name'')"
    if p3: "continues p p3" for p3
  proof -
    have "outcome (p_lexer p) (parsed p)
       (res_map (\<lambda>p4. (Expr (Span (sp_start (p_span p)) (sp_end (p_span p3))) (EnumSymbol name symbol), p4))
         (advance p3))" if "p_kind p3 = TName symbol" for symbol
    proof (rule outcome_map[OF adv[OF p3]])
      fix p4 assume a: "continues p3 p4 \<and> sp_end (p_span p3) \<le> sp_start (p_span p4)"
      moreover have "sp_start (p_span p3) < sp_end (p_span p3)"
        using that continues_ok[OF p3] by (simp add: p_ok_def)
      ultimately show "parsed p (Expr (Span (sp_start (p_span p)) (sp_end (p_span p3))) (EnumSymbol name symbol), p4)"
        using continues_trans[OF p3, of p4] continues_start[OF p3]
        by (auto simp: parsed_def intro!: located_new)
    qed
    then show ?thesis using outcome_error_after[OF p3] by (cases "p_kind p3") simp_all
  qed
  show ?thesis
    unfolding parse_enum_symbol_def
  proof (rule outcome_bind[OF adv[OF p1(1)]])
    fix p2 assume "continues p1 p2 \<and> sp_end (p_span p1) \<le> sp_start (p_span p2)"
    then have p2: "continues p p2" using p1(1) continues_trans by blast
    show "outcome (p_lexer p) (parsed p)
       (if p_kind p2 \<noteq> TColon then error_at_current p2 ''a second ':' in an enum symbol''
        else res_bind (advance p2) (\<lambda>p3.
             case p_kind p3 of
               TName symbol \<Rightarrow>
                 res_map (\<lambda>p4. (Expr (Span (sp_start (p_span p)) (sp_end (p_span p3))) (EnumSymbol name symbol), p4))
                   (advance p3)
             | _ \<Rightarrow> error_at_current p3 ''an enum symbol name''))"
      using outcome_error_after[OF p2] outcome_bind[OF adv[OF p2] last] continues_trans[OF p2] by auto
  qed
qed

lemma parse_call_outcome:
  assumes p: "p_ok p" and c: "nestable conditional (p_nesting p)"
    and p1: "continues p p1" "sp_start (p_span p) < sp_start (p_span p1)"
  shows "outcome (p_lexer p) (parsed p) (parse_call conditional name (p_span p) p1)"
proof (cases "function_parse name")
  case None
  have "outcome (p_lexer p1) (parsed p) (fail_at p1 (sp_start (p_span p)) x)" for x
    by (rule outcome_fail_at[OF continues_ok[OF p1(1)]])
       (use p1 continues_ok[OF p1(1)] in \<open>simp add: p_ok_def\<close>)
  then have "outcome (p_lexer p) (parsed p) (fail_at p1 (sp_start (p_span p)) x)" for x
    by (simp only: outcome_continues[OF p1(1)])
  then show ?thesis using None by (simp add: parse_call_def)
next
  case (Some f)
  let ?a = "sp_start (p_span p)"
  have off: "?a \<le> sp_end (p_span p1)" using p1 continues_ok[OF p1(1)] by (simp add: p_ok_def)
  have n: "p_nesting p1 = p_nesting p" using p1 by (simp add: continues_def)
  have args: "outcome (p_lexer p1)
      (\<lambda>(es, p2). continues p1 p2 \<and> (\<forall>e \<in> set es. located ?a (sp_start (p_span p2)) e))
      (parse_nested (\<lambda>q. res_bind (advance q) (parse_call_arguments conditional)) ?a p1)"
  proof (rule nested_advance[OF continues_ok[OF p1(1)] _ off])
    fix q q2 assume lt: "p_nesting p1 < MAX_AST_DEPTH" and q: "q = p1\<lparr>p_nesting := Suc (p_nesting p1)\<rparr>"
      and q2: "continues q q2" "sp_end (p_span p1) \<le> sp_start (p_span q2)"
    have ep: "expression_parser conditional (p_nesting q2)"
      using c lt n q2 q by (simp add: nestable_def continues_def)
    have "?a \<le> sp_start (p_span q2)" using off q2(2) by linarith
    note loop = expression_parser.arguments_loop_outcome[OF ep continues_refl[OF continues_ok[OF q2(1)]] refl this]
    show "outcome (p_lexer q2) (\<lambda>(es, p2). continues q2 p2 \<and>
        (\<forall>e \<in> set es. located ?a (sp_start (p_span p2)) e)) (parse_call_arguments conditional q2)"
      using continues_refl[OF continues_ok[OF q2(1)]]
      by (auto simp: parse_call_arguments_def simp del: arguments_loop.simps intro!: outcome_mono[OF loop])
  qed
  have close: "outcome (p_lexer p1) (\<lambda>r. parsed p (case r of (sp', p3) \<Rightarrow>
        (Expr (Span ?a (sp_end sp')) (Call f es), p3))) (expect_right_paren p2)"
    if p2: "continues p1 p2" "\<forall>e \<in> set es. located ?a (sp_start (p_span p2)) e" for es p2
    unfolding expect_defs
  proof (rule outcome_via[OF outcome_expect[OF continues_ok[OF p2(1)]] p2(1)])
    fix r assume "case r of (sp, p') \<Rightarrow> continues p2 p' \<and> sp = p_span p2 \<and>
      sp_start (p_span p2) < sp_end sp \<and> sp_end sp \<le> sp_start (p_span p')"
    then show "parsed p (case r of (sp', p3) \<Rightarrow> (Expr (Span ?a (sp_end sp')) (Call f es), p3))"
      using continues_trans[OF continues_trans[OF p1(1) p2(1)]] p1 p2(2) continues_start[OF p2(1)]
      by (auto simp: parsed_def intro!: located_new intro: located_mono[OF bspec[OF p2(2)]])
  qed simp
  have "outcome (p_lexer p1) (parsed p) (parse_call conditional name (p_span p) p1)"
    unfolding parse_call_def Some option.case
    by (rule outcome_bind[OF args])
       (auto intro!: outcome_map[OF close])
  then show ?thesis using outcome_continues[OF p1(1)] by blast
qed

lemma parse_name_outcome:
  assumes "p_ok p" "p_kind p \<noteq> TEnd" "nestable conditional (p_nesting p)"
  shows "outcome (p_lexer p) (parsed p) (parse_name conditional name p)"
  unfolding parse_name_def
proof (rule outcome_bind[OF outcome_take[OF assms(1,2)]])
  fix p1 assume p1: "continues p p1 \<and> sp_start (p_span p) < sp_end (p_span p) \<and>
     sp_end (p_span p) \<le> sp_start (p_span p1)"
  then have "parsed p (Expr (p_span p) (Name name), p1)"
    by (auto simp: parsed_def located.simps[of _ _ "Expr _ _"])
  then show "outcome (p_lexer p) (parsed p)
     (if p_kind p1 = TColon then parse_enum_symbol name (sp_start (p_span p)) p1
      else if p_kind p1 \<noteq> TLeftParen then Ok (Expr (p_span p) (Name name), p1)
      else parse_call conditional name (p_span p) p1)"
    using p1 assms by (auto intro!: parse_enum_symbol_outcome parse_call_outcome)
qed

lemma located_rebound:
  assumes "located lo hi e" "a \<le> sp_start (expr_span e)" "sp_end (expr_span e) \<le> b"
    "lo' \<le> a" "b \<le> hi'"
  shows "located lo' hi' (Expr (Span a b) (expr_kind e))"
proof -
  have "children (Expr (Span a b) (expr_kind e)) = children e"
    by (cases e rule: children.cases) auto
  then show ?thesis
    using assms by (auto simp: located.simps[of _ _ e] intro!: located_new elim: located_mono)
qed

lemma parse_parenthesized_outcome:
  assumes p: "p_ok p" "p_kind p \<noteq> TEnd" and c: "nestable conditional (p_nesting p)"
  shows "outcome (p_lexer p) (parsed p) (parse_parenthesized conditional p)"
proof -
  let ?a = "sp_start (p_span p)"
  have lt: "?a < sp_end (p_span p)" using p by (simp add: p_ok_def)
  have inner: "outcome (p_lexer p)
      (\<lambda>(e, p2). continues p p2 \<and> ?a \<le> sp_start (expr_span e) \<and> located ?a (sp_start (p_span p2)) e)
      (parse_nested (\<lambda>q. res_bind (advance q) conditional) ?a p)"
  proof (rule nested_advance[OF p(1)])
    fix q q2 assume "p_nesting p < MAX_AST_DEPTH" "q = p\<lparr>p_nesting := Suc (p_nesting p)\<rparr>"
      and q2: "continues q q2" "sp_end (p_span p) \<le> sp_start (p_span q2)"
    then have "outcome (p_lexer q2) (parsed q2) (conditional q2)" using nestable_run[OF c] by blast
    then show "outcome (p_lexer q2) (\<lambda>(e, p2). continues q2 p2 \<and>
        ?a \<le> sp_start (expr_span e) \<and> located ?a (sp_start (p_span p2)) e) (conditional q2)"
      by (rule outcome_mono) (use q2 lt in \<open>auto dest: parsedD intro: located_mono[OF parsedD(4)] order_trans[OF _ parsedD(5)]\<close>)
  qed (use lt in simp)
  have close: "outcome (p_lexer p) (\<lambda>r. parsed p (case r of (sp', p3) \<Rightarrow>
        (Expr (Span ?a (sp_end sp')) (expr_kind e), p3))) (expect_right_paren p2)"
    if p2: "continues p p2" "?a \<le> sp_start (expr_span e)" "located ?a (sp_start (p_span p2)) e" for e p2
    unfolding expect_defs
  proof (rule outcome_via[OF outcome_expect[OF continues_ok[OF p2(1)]] p2(1)])
    fix r assume r: "case r of (sp, p') \<Rightarrow> continues p2 p' \<and> sp = p_span p2 \<and>
      sp_start (p_span p2) < sp_end sp \<and> sp_end sp \<le> sp_start (p_span p')"
    have "sp_end (expr_span e) \<le> sp_start (p_span p2)" using p2(3) by (simp add: located.simps[of _ _ e])
    then show "parsed p (case r of (sp', p3) \<Rightarrow> (Expr (Span ?a (sp_end sp')) (expr_kind e), p3))"
      using r continues_trans[OF p2(1)] p2(2) continues_start[OF p2(1)]
      by (auto simp: parsed_def intro!: located_rebound[OF p2(3)])
  qed simp
  show ?thesis
    unfolding parse_parenthesized_def Let_def
    by (rule outcome_bind[OF inner]) (auto intro!: outcome_map[OF close])
qed

lemma parse_list_outcome:
  assumes p: "p_ok p" "p_kind p \<noteq> TEnd" and c: "nestable conditional (p_nesting p)"
  shows "outcome (p_lexer p) (parsed p) (parse_list conditional p)"
proof -
  let ?a = "sp_start (p_span p)"
  let ?Q = "\<lambda>e sp. ?a < sp_start sp \<and> located ?a (sp_start sp) e"
  have lt: "?a < sp_end (p_span p)" using p by (simp add: p_ok_def)
  have "outcome (p_lexer p) (\<lambda>(e, p2). continues p p2 \<and> ?Q e (p_span p2)) (parse_list conditional p)"
    unfolding parse_list_def Let_def
  proof (rule nested_advance[OF p(1)])
    fix q q2 assume lvl: "p_nesting p < MAX_AST_DEPTH" and q: "q = p\<lparr>p_nesting := Suc (p_nesting p)\<rparr>"
      and q2: "continues q q2" "sp_end (p_span p) \<le> sp_start (p_span q2)"
    have ok: "p_ok q2" and a: "?a < sp_start (p_span q2)" using continues_ok[OF q2(1)] lt q2(2) by auto
    have ep: "expression_parser conditional (p_nesting q2)"
      using c lvl q2(1) q by (simp add: nestable_def continues_def)
    note loop = expression_parser.list_loop_outcome[OF ep continues_refl[OF ok] refl less_imp_le[OF a]]
    have close: "outcome (p_lexer q2) (\<lambda>r. case (case r of (sp, p3) \<Rightarrow>
          (Expr (Span ?a (sp_end sp)) (ListOf items), p3)) of (e, p3) \<Rightarrow> continues q2 p3 \<and> ?Q e (p_span p3))
        (expect_right_bracket p2)"
      if p2: "continues q2 p2" "length items \<le> MAX_LIST_ITEMS"
        "\<forall>e \<in> set items. located ?a (sp_start (p_span p2)) e" for items p2
      unfolding expect_defs
      by (rule outcome_via[OF outcome_expect[OF continues_ok[OF p2(1)]] p2(1)])
         (use continues_trans[OF p2(1)] continues_start[OF p2(1)] a p2(2) in
          \<open>auto intro!: located_new intro: located_mono[OF bspec[OF p2(3)]]\<close>)
    show "outcome (p_lexer q2) (\<lambda>(e, p2). continues q2 p2 \<and> ?Q e (p_span p2))
       (parse_list_contents conditional ?a q2)"
    proof (cases "p_kind q2 = TRightBracket")
      case True
      have "outcome (p_lexer q2) (\<lambda>p'. continues q2 p' \<and> sp_start (p_span q2) < sp_end (p_span q2) \<and>
          sp_end (p_span q2) \<le> sp_start (p_span p')) (advance q2)"
        by (rule outcome_take[OF ok]) (simp add: True)
      then show ?thesis
        using True a by (auto simp: parse_list_contents_def intro!: located_new elim!: outcome_map)
    next
      case False
      show ?thesis
        unfolding parse_list_contents_def if_not_P[OF False]
        by (rule outcome_bind[OF loop]) (auto intro!: outcome_map[OF close])
    qed
  qed (use lt in simp)
  then show ?thesis by (simp add: parsed_def)
qed

lemma parse_primary_outcome:
  assumes "p_ok p" "nestable conditional (p_nesting p)"
  shows "outcome (p_lexer p) (parsed p) (parse_primary conditional p)"
  unfolding parse_primary_def
  using assms parse_literal_outcome[OF assms(1)] parse_name_outcome[OF assms(1) _ assms(2)]
    parse_parenthesized_outcome[OF assms(1) _ assms(2)] parse_list_outcome[OF assms(1) _ assms(2)]
    outcome_error[OF assms(1)]
  by (cases "p_kind p") simp_all

section \<open>Postfix, unary and conditional levels\<close>

lemma parse_member_outcome:
  assumes t: "parsed p (target, p1)" and k: "p_kind p1 = TDot"
  shows "outcome (p_lexer p) (\<lambda>r. parsed p r \<and> sp_start (p_span p1) < sp_start (p_span (snd r)))
     (parse_member target p1)"
proof -
  note d = parsedD[OF t]
  have c: "outcome (p_lexer p) (\<lambda>p'. continues p1 p' \<and> sp_start (p_span p1) < sp_end (p_span p1) \<and>
      sp_end (p_span p1) \<le> sp_start (p_span p')) (advance p1)"
    using outcome_take[OF d(2)] k by (simp add: outcome_continues[OF d(1)])
  have field: "outcome (p_lexer p) (\<lambda>r. parsed p r \<and> sp_start (p_span p1) < sp_start (p_span (snd r)))
      (res_map (\<lambda>p3. (Expr (Span (sp_start (expr_span target)) (sp_end (p_span p2))) (Member target f), p3))
        (advance p2))"
    if p2: "continues p1 p2" "sp_start (p_span p1) < sp_start (p_span p2)" and "p_kind p2 = TName f" for p2 f
  proof -
    have cp: "continues p p2" using continues_trans[OF d(1) p2(1)] .
    show ?thesis
      by (rule outcome_map[OF outcome_via[OF outcome_take[OF continues_ok[OF cp]] cp]])
         (use that d continues_trans[OF cp] in
           \<open>auto simp: parsed_def intro!: located_new located_in[OF d(4)]\<close>)
  qed
  have "outcome (p_lexer p) (\<lambda>r. parsed p r \<and> sp_start (p_span p1) < sp_start (p_span (snd r)))
     (case p_kind p2 of
         TName f \<Rightarrow>
           res_map (\<lambda>p3. (Expr (Span (sp_start (expr_span target)) (sp_end (p_span p2))) (Member target f), p3))
             (advance p2)
       | _ \<Rightarrow> error_at_current p2 ''a static object field name'')"
    if p2: "continues p1 p2" "sp_start (p_span p1) < sp_start (p_span p2)" for p2
    using field[OF p2] outcome_error_after[OF continues_trans[OF d(1) p2(1)]]
    by (cases "p_kind p2") simp_all
  then show ?thesis unfolding parse_member_def by (auto intro!: outcome_bind[OF c])
qed

lemma parse_index_outcome:
  assumes t: "parsed p (target, p1)" and k: "p_kind p1 = TLeftBracket"
  shows "outcome (p_lexer p) (\<lambda>r. parsed p r \<and> sp_start (p_span p1) < sp_start (p_span (snd r)))
     (parse_index target p1)"
proof -
  let ?R = "\<lambda>r. parsed p r \<and> sp_start (p_span p1) < sp_start (p_span (snd r))"
  note d = parsedD[OF t]
  have take1: "outcome (p_lexer p) (\<lambda>p'. continues p1 p' \<and> sp_start (p_span p1) < sp_end (p_span p1) \<and>
      sp_end (p_span p1) \<le> sp_start (p_span p')) (advance p1)"
    using outcome_take[OF d(2)] k by (simp add: outcome_continues[OF d(1)])
  have index: "outcome (p_lexer p) ?R
      (res_bind (advance p2) (\<lambda>p3. res_map (\<lambda>(sp, p4).
          (Expr (Span (sp_start (expr_span target)) (sp_end sp)) (Index target i), p4)) (expect_right_bracket p3)))"
    if p2: "continues p1 p2" "sp_start (p_span p1) < sp_start (p_span p2)" for p2 i
  proof (rule outcome_bind)
    have cp: "continues p p2" using continues_trans[OF d(1) p2(1)] .
    show "outcome (p_lexer p) (\<lambda>p'. continues p2 p' \<and> sp_end (p_span p2) \<le> sp_start (p_span p')) (advance p2)"
      using outcome_advance[OF continues_ok[OF cp]] outcome_continues[OF cp] by blast
    fix p3 assume "continues p2 p3 \<and> sp_end (p_span p2) \<le> sp_start (p_span p3)"
    then have p3: "continues p p3" "sp_start (p_span p2) \<le> sp_start (p_span p3)"
      using continues_trans[OF cp] continues_start by auto
    show "outcome (p_lexer p) ?R (res_map (\<lambda>(sp, p4).
        (Expr (Span (sp_start (expr_span target)) (sp_end sp)) (Index target i), p4)) (expect_right_bracket p3))"
      unfolding expect_defs
      by (rule outcome_map[OF outcome_via[OF outcome_expect[OF continues_ok[OF p3(1)]] p3(1)]])
         (use p2 p3 d continues_trans[OF p3(1)] in
           \<open>auto simp: parsed_def intro!: located_new located_in[OF d(4)]\<close>)
  qed
  have "outcome (p_lexer p) ?R
     (case p_kind p2 of
         TInteger v \<Rightarrow>
           (case parse_unsigned (2 ^ 64 - 1) v of
              None \<Rightarrow> fail_at p2 (sp_start (p_span p2)) ''a valid non-negative list index''
            | Some i \<Rightarrow>
                res_bind (advance p2) (\<lambda>p3.
                res_map (\<lambda>(sp, p4). (Expr (Span (sp_start (expr_span target)) (sp_end sp))
                                       (Index target i), p4)) (expect_right_bracket p3)))
       | _ \<Rightarrow> error_at_current p2 ''a non-negative integer list index'')"
    if p2: "continues p1 p2" "sp_start (p_span p1) < sp_start (p_span p2)" for p2
  proof -
    note err = outcome_error_after[OF continues_trans[OF d(1) p2(1)]]
    show ?thesis
      using index[OF p2]
      by (cases "p_kind p2") (simp_all add: err err[unfolded error_at_current_def] split: option.split)
  qed
  then show ?thesis unfolding parse_index_def by (auto intro!: outcome_bind[OF take1])
qed

lemma postfix_loop_outcome:
  "parsed p (e, p1) \<Longrightarrow> p_remaining p1 < n \<Longrightarrow> outcome (p_lexer p) (parsed p) (postfix_loop n e p1)"
proof (induction n arbitrary: e p1)
  case (Suc n)
  have step: "outcome (p_lexer p) (parsed p) (res_bind r (\<lambda>(e', p'). postfix_loop n e' p'))"
    if r: "outcome (p_lexer p) (\<lambda>r. parsed p r \<and> sp_start (p_span p1) < sp_start (p_span (snd r))) r" for r
  proof (rule outcome_bind[OF r])
    fix x assume x: "parsed p x \<and> sp_start (p_span p1) < sp_start (p_span (snd x))"
    obtain e' p' where xp: "x = (e', p')" by fastforce
    have "p_remaining p' < p_remaining p1"
      using x parsedD(1,2)[OF Suc.prems(1)] parsedD(1,2)[of p e' p']
      by (auto simp: xp p_remaining_def continues_def p_ok_def intro!: diff_less_mono2)
    then show "outcome (p_lexer p) (parsed p) (case x of (e', p') \<Rightarrow> postfix_loop n e' p')"
      using Suc.IH[of e' p'] Suc.prems(2) x by (simp add: xp)
  qed
  show ?case
    using Suc.prems(1) step[OF parse_member_outcome[OF Suc.prems(1)]]
      step[OF parse_index_outcome[OF Suc.prems(1)]] by simp
qed simp

lemma parse_postfix_outcome:
  assumes "p_ok p" "nestable conditional (p_nesting p)"
  shows "outcome (p_lexer p) (parsed p) (parse_postfix conditional p)"
  unfolding parse_postfix_def
  by (rule outcome_bind[OF parse_primary_outcome[OF assms]])
     (auto simp del: postfix_loop.simps intro: postfix_loop_outcome)

lemma parse_prefix_outcome:
  assumes p: "p_ok p" "p_kind p \<noteq> TEnd" and u: "nestable unary (p_nesting p)"
  shows "outcome (p_lexer p) (parsed p) (parse_prefix unary op p)"
proof -
  let ?a = "sp_start (p_span p)"
  have lt: "?a < sp_end (p_span p)" using p by (simp add: p_ok_def)
  have "outcome (p_lexer p) (\<lambda>(e, p2). continues p p2 \<and>
      (?a < sp_start (p_span p2) \<and> located ?a (sp_start (p_span p2)) e))
      (parse_nested (\<lambda>p1. res_bind (advance p1) unary) ?a p)"
  proof (rule nested_advance[OF p(1)])
    fix q q2 assume "p_nesting p < MAX_AST_DEPTH" "q = p\<lparr>p_nesting := Suc (p_nesting p)\<rparr>"
      and q2: "continues q q2" "sp_end (p_span p) \<le> sp_start (p_span q2)"
    then have "outcome (p_lexer q2) (parsed q2) (unary q2)" using nestable_run[OF u] by blast
    then show "outcome (p_lexer q2) (\<lambda>(e, p2). continues q2 p2 \<and>
        (?a < sp_start (p_span p2) \<and> located ?a (sp_start (p_span p2)) e)) (unary q2)"
      by (rule outcome_mono)
         (use q2 lt in \<open>auto dest: parsedD intro: located_mono[OF parsedD(4)] less_le_trans[OF _ less_imp_le[OF parsedD(3)]]\<close>)
  qed (use lt in simp)
  then have inner: "outcome (p_lexer p) (parsed p) (parse_nested (\<lambda>p1. res_bind (advance p1) unary) ?a p)"
    by (simp add: parsed_def)
  show ?thesis
    unfolding parse_prefix_def Let_def
  proof (rule outcome_map[OF inner])
    fix r assume r: "parsed p r"
    obtain e p' where rp: "r = (e, p')" by fastforce
    note d = parsedD[OF r[unfolded rp]]
    show "parsed p (case r of (e, p1) \<Rightarrow> (Expr (Span ?a (sp_end (expr_span e))) (Unary op e), p1))"
      using d by (auto simp: rp parsed_def intro!: located_new located_in[OF d(4)])
  qed
qed

lemma unary_step_parser:
  assumes "nestable unary lvl" "nestable conditional lvl"
  shows "expression_parser (unary_step unary conditional) lvl"
proof
  fix p assume "p_ok p" "p_nesting p = lvl"
  then show "outcome (p_lexer p) (parsed p) (unary_step unary conditional p)"
    using assms parse_postfix_outcome[of p conditional] parse_prefix_outcome[of p unary]
    by (cases "p_kind p") (simp_all add: unary_step_def)
qed

text \<open>The six levels of binary operators preserve the contract.\<close>

lemma parse_or_parser:
  assumes "expression_parser unary lvl"
  shows "expression_parser (parse_or unary) lvl"
  unfolding parse_or_def parse_and_def parse_equality_def parse_comparison_def parse_additive_def
    parse_multiplicative_def
  by (intro expression_parser.left_associative assms) simp_all

lemma conditional_step_parser:
  assumes u: "expression_parser unary lvl" and c: "nestable conditional lvl"
  shows "expression_parser (conditional_step unary conditional) lvl"
proof
  fix p assume p: "p_ok p" "p_nesting p = lvl"
  have nested: "outcome (p_lexer p) (parsed q) (parse_nested conditional offset q)"
    if "continues p q" "offset \<le> sp_end (p_span q)" for q offset
  proof -
    have "outcome (p_lexer q) (parsed q) (parse_nested conditional offset q)"
      using nested_run[of q conditional offset] c p that by (simp add: nestable_def continues_def)
    then show ?thesis by (simp only: outcome_continues[OF that(1)])
  qed
  have branches: "outcome (p_lexer p) (parsed p)
      (res_bind (advance p1) (\<lambda>p2.
        res_bind (parse_nested conditional (sp_start (p_span p1)) p2) (\<lambda>(when_true, p3).
        res_bind (expect_colon p3) (\<lambda>(_, p4).
        res_map (\<lambda>(when_false, p5).
            (Expr (Span (sp_start (expr_span condition)) (sp_end (expr_span when_false)))
               (Conditional condition when_true when_false), p5))
          (parse_nested conditional (sp_start (p_span p1)) p4)))))"
    if r: "parsed p (condition, p1)" for condition p1
  proof -
    note d = parsedD[OF r]
    have adv: "outcome (p_lexer p) (\<lambda>p'. continues p1 p' \<and> sp_end (p_span p1) \<le> sp_start (p_span p')) (advance p1)"
      using outcome_advance[OF d(2)] outcome_continues[OF d(1)] by blast
    have third: "outcome (p_lexer p) (parsed p) (res_map (\<lambda>(when_false, p5).
            (Expr (Span (sp_start (expr_span condition)) (sp_end (expr_span when_false)))
               (Conditional condition when_true when_false), p5))
          (parse_nested conditional (sp_start (p_span p1)) p4))"
      if p4: "continues p p4" "located (sp_start (p_span p1)) (sp_start (p_span p4)) when_true"
        "sp_start (p_span p1) \<le> sp_start (p_span p4)" for when_true p4
    proof (rule outcome_map[OF nested[OF p4(1)]])
      show "sp_start (p_span p1) \<le> sp_end (p_span p4)" using continues_ok[OF p4(1)] p4(3) by (simp add: p_ok_def)
      fix x assume x: "parsed p4 x"
      obtain f p5 where xp: "x = (f, p5)" by fastforce
      note e = parsedD[OF x[unfolded xp]]
      show "parsed p (case x of (when_false, p5) \<Rightarrow>
          (Expr (Span (sp_start (expr_span condition)) (sp_end (expr_span when_false)))
             (Conditional condition when_true when_false), p5))"
        using continues_trans[OF p4(1) e(1)] d e p4(3)
        by (auto simp: xp parsed_def intro!: located_new located_in[OF d(4)] located_in[OF e(4)] located_mono[OF p4(2)])
    qed
    have second: "outcome (p_lexer p) (parsed p) (res_bind (expect_colon p3) (\<lambda>(_, p4).
        res_map (\<lambda>(when_false, p5).
            (Expr (Span (sp_start (expr_span condition)) (sp_end (expr_span when_false)))
               (Conditional condition when_true when_false), p5))
          (parse_nested conditional (sp_start (p_span p1)) p4)))"
      if p3: "continues p p3" "located (sp_start (p_span p1)) (sp_start (p_span p3)) when_true"
        "sp_start (p_span p1) \<le> sp_start (p_span p3)" for when_true p3
      unfolding expect_defs
      by (rule outcome_bind[OF outcome_via[OF outcome_expect[OF continues_ok[OF p3(1)]] p3(1)]])
         (use p3 continues_trans[OF p3(1)] in \<open>auto intro!: third intro: located_mono[OF p3(2)]\<close>)
    show ?thesis
    proof (rule outcome_bind[OF adv])
      fix p2 assume p2: "continues p1 p2 \<and> sp_end (p_span p1) \<le> sp_start (p_span p2)"
      then have c2: "continues p p2" and le: "sp_start (p_span p1) \<le> sp_start (p_span p2)"
        using continues_trans[OF d(1)] continues_start by auto
      have off: "sp_start (p_span p1) \<le> sp_end (p_span p2)"
        using le continues_ok[OF c2] by (simp add: p_ok_def)
      show "outcome (p_lexer p) (parsed p)
        (res_bind (parse_nested conditional (sp_start (p_span p1)) p2) (\<lambda>(when_true, p3).
          res_bind (expect_colon p3) (\<lambda>(_, p4).
          res_map (\<lambda>(when_false, p5).
              (Expr (Span (sp_start (expr_span condition)) (sp_end (expr_span when_false)))
                 (Conditional condition when_true when_false), p5))
            (parse_nested conditional (sp_start (p_span p1)) p4))))"
        by (rule outcome_bind[OF nested[OF c2 off]])
           (use le in \<open>auto intro!: second continues_trans[OF c2] dest: parsedD intro: located_mono[OF parsedD(4)] less_imp_le[OF le_less_trans[OF _ parsedD(3)]]\<close>)
    qed
  qed
  show "outcome (p_lexer p) (parsed p) (conditional_step unary conditional p)"
    unfolding conditional_step_def
    by (rule outcome_bind[OF expression_parser.run_outcome[OF parse_or_parser[OF u] p]])
       (auto simp: Let_def branches)
qed

text \<open>
  The recursive entry points keep the contract as long as the depth budget covers the nesting levels
  that remain; \<open>enter_nesting\<close> stops every deeper call.
\<close>

lemma recursive_parsers:
  "0 < d \<Longrightarrow> MAX_AST_DEPTH < d + lvl \<Longrightarrow>
   expression_parser (parse_unary d) lvl \<and> expression_parser (parse_conditional d) lvl"
proof (induction d arbitrary: lvl)
  case (Suc d)
  have n: "nestable (parse_unary d) lvl" "nestable (parse_conditional d) lvl"
    using Suc.IH[of "Suc lvl"] Suc.prems by (auto simp: nestable_def)
  have "parse_unary (Suc d) = unary_step (parse_unary d) (parse_conditional d)"
    "parse_conditional (Suc d) =
       conditional_step (unary_step (parse_unary d) (parse_conditional d)) (parse_conditional d)"
    by (auto simp: fun_eq_iff)
  then show ?case
    using unary_step_parser[OF n] conditional_step_parser[OF unary_step_parser[OF n] n(2)] by simp
qed simp

interpretation rule_grammar: expression_parser "parse_conditional (Suc MAX_AST_DEPTH)" 0
  using recursive_parsers by simp

section \<open>The depth measure\<close>

text \<open>The worklist computes the number of nodes on the longest path.\<close>

lemma fold_max_le: "fold max xs m \<le> (k::nat) \<longleftrightarrow> m \<le> k \<and> (\<forall>x \<in> set xs. x \<le> k)"
  by (induction xs arbitrary: m) auto

lemma expr_depth_le: "expr_depth e \<le> k \<longleftrightarrow> 1 \<le> k \<and> (\<forall>c \<in> set (children e). Suc (expr_depth c) \<le> k)"
  by (cases k) (auto simp: expr_depth.simps[of e] fold_max_le)

lemma expr_depth_pos: "1 \<le> expr_depth e"
  by (simp add: expr_depth.simps[of e])

lemma depth_loop_le:
  "depth_loop ps m \<le> k \<longleftrightarrow> m \<le> k \<and> (\<forall>(e, d) \<in> set ps. expr_depth e + d \<le> Suc k)"
proof (induction ps m rule: depth_loop.induct)
  case (2 e d pending m)
  have "expr_depth e + d \<le> Suc k \<longleftrightarrow> d \<le> k \<and> (\<forall>c \<in> set (children e). expr_depth c + Suc d \<le> Suc k)"
    using expr_depth_le[of e "Suc k - d"] expr_depth_pos[of e] by auto
  then show ?case using "2.IH" by (fastforce simp: ball_Un)
qed simp

lemma expression_depth_correct: "expression_depth = expr_depth"
proof
  fix e
  have "expression_depth e \<le> k \<longleftrightarrow> expr_depth e \<le> k" for k
    unfolding expression_depth_def depth_loop_le by simp
  then show "expression_depth e = expr_depth e" by (metis order_antisym order_refl)
qed

section \<open>Properties\<close>

lemma parser_new_outcome: "outcome (lexer_new rule_name source)
    (\<lambda>p. p_ok p \<and> p_nesting p = 0 \<and> lex_source (p_lexer p) = source \<and> p_rule_name p = rule_name)
    (parser_new rule_name source)"
  using next_token_after[of "lexer_new rule_name source"]
  by (auto simp: parser_new_def outcome_def p_ok_def token_after_def lex_reads_def lexer_new_def
      split: result.splits)

lemma parse_expression_outcome:
  "outcome (lexer_new rule_name source)
     (\<lambda>e. length source \<le> MAX_EXPRESSION_BYTES \<and> located 0 (length source) e \<and> expr_depth e \<le> MAX_AST_DEPTH)
     (parse_expression rule_name source)"
proof (cases "length source > MAX_EXPRESSION_BYTES")
  case True
  then show ?thesis
    by (simp add: parse_expression_def outcome_def error_in_def ParseError_def lexer_new_def)
next
  case False
  let ?Q = "\<lambda>e. length source \<le> MAX_EXPRESSION_BYTES \<and> located 0 (length source) e \<and> expr_depth e \<le> MAX_AST_DEPTH"
  have same: "outcome (lexer_new rule_name source) Q r = outcome (p_lexer p) Q r"
    if "lex_source (p_lexer p) = source" "p_rule_name p = rule_name" for p and Q :: "'x \<Rightarrow> bool" and r
    using that by (auto simp: outcome_def error_in_def lexer_new_def split: result.splits parse_stop.splits)
  have finish: "outcome (p_lexer p) ?Q
      (if p_kind p1 \<noteq> TEnd then error_at_current p1 ''the end of the expression''
       else if expression_depth e > MAX_AST_DEPTH
       then Err (Failed (ParseError rule_name (sp_start (expr_span e))
              (''an expression nesting depth of at most '' @ nat_to_string MAX_AST_DEPTH)))
       else Ok e)"
    if r: "parsed p (e, p1)" and src: "lex_source (p_lexer p) = source" "p_rule_name p = rule_name" for p e p1
  proof -
    note d = parsedD[OF r]
    have hi: "sp_start (p_span p1) \<le> length source"
      using d(1,2) src by (auto simp: p_ok_def continues_def)
    then have "located 0 (length source) e" using located_mono[OF d(4)] by simp
    moreover have "error_in (p_lexer p) (ParseError rule_name (sp_start (expr_span e)) x)" for x
      using d(6,7) hi src by (simp add: error_in_def ParseError_def)
    ultimately show ?thesis
      using False outcome_error_after[OF d(1)] by (auto simp: expression_depth_correct outcome_def)
  qed
  show ?thesis
    unfolding parse_expression_def if_not_P[OF False]
  proof (rule outcome_bind[OF parser_new_outcome])
    fix p assume p: "p_ok p \<and> p_nesting p = 0 \<and> lex_source (p_lexer p) = source \<and> p_rule_name p = rule_name"
    have run: "outcome (p_lexer p) (parsed p) (parse_conditional (Suc MAX_AST_DEPTH) p)"
      by (rule rule_grammar.run_outcome) (use p in auto)
    show "outcome (lexer_new rule_name source) ?Q
      (res_bind (parse_conditional (Suc MAX_AST_DEPTH) p) (\<lambda>(expression, p1).
           if p_kind p1 \<noteq> TEnd then error_at_current p1 ''the end of the expression''
           else if expression_depth expression > MAX_AST_DEPTH
           then Err (Failed (ParseError rule_name (sp_start (expr_span expression))
                  (''an expression nesting depth of at most '' @ nat_to_string MAX_AST_DEPTH)))
           else Ok expression))"
      unfolding same[of p, OF conjunct1[OF conjunct2[OF conjunct2[OF p]]] conjunct2[OF conjunct2[OF conjunct2[OF p]]]]
      by (rule outcome_bind[OF run]) (use finish[of p] p in auto)
  qed
qed

text \<open>
  (C22) Every source text is answered: \<open>parse_expression\<close> never runs out of its depth or loop budget, so
  it returns an expression or a diagnostic. The diagnostic names the rule and a byte offset inside
  the source.
\<close>

theorem parse_expression_returns:
  "case parse_expression rule_name source of
     Ok e \<Rightarrow> True
   | Err (Failed e) \<Rightarrow> pe_rule_name e = rule_name \<and> pe_offset e \<le> length source
   | Err OutOfFuel \<Rightarrow> False"
  using parse_expression_outcome[of rule_name source]
  by (auto simp: outcome_def error_in_def lexer_new_def split: result.splits parse_stop.splits)

text \<open>
  (C23) An accepted expression respects the limits of the profile: at most 4096 source bytes, at most
  64 nodes on a path, at most 256 items in a list literal; and its spans are nested byte ranges of
  the source, children inside their parent.
\<close>

theorem parse_expression_within_profile:
  assumes "parse_expression rule_name source = Ok e"
  shows "length source \<le> MAX_EXPRESSION_BYTES \<and> expr_depth e \<le> MAX_AST_DEPTH \<and>
    located 0 (length source) e"
  using parse_expression_outcome[of rule_name source] assms by (simp add: outcome_def)

theorem parse_expression_within_profile_witness:
  "\<exists>e. parse_expression ''r'' ''a[2] < -1.5 ? [x, 1] : size(b)'' = Ok e \<and>
     located 0 (length ''a[2] < -1.5 ? [x, 1] : size(b)'') e"
proof -
  have "case parse_expression ''r'' ''a[2] < -1.5 ? [x, 1] : size(b)'' of Ok e \<Rightarrow> True | Err _ \<Rightarrow> False"
    by code_simp
  then obtain e where "parse_expression ''r'' ''a[2] < -1.5 ? [x, 1] : size(b)'' = Ok e"
    by (auto split: result.splits)
  then show ?thesis using parse_expression_within_profile[of "''r''" _ e] by blast
qed

text \<open>
  The iterative worklist of \<open>expression_depth\<close> computes the number of nodes on the longest path of
  the expression tree.
\<close>

theorem expression_depth_is_tree_depth:
  "expression_depth e = Suc (fold max (map expression_depth (children e)) 0)"
  unfolding expression_depth_correct by (rule expr_depth.simps)

end
