(* ===== verification/Rules_Catalog.thy ===== *)
theory Rules_Catalog
  imports Rules_Canonical Rules_Parser
begin

text \<open>
  Compilation of a catalog of rules and decision tables, and evaluation of decision tables
  (\<open>crates/rules/src/eval.rs\<close>). A computation that can panic returns \<open>None\<close> for the panic, and otherwise
  the \<open>Result\<close> of the source.
\<close>

section \<open>Computations that can panic\<close>

type_synonym 'a run = "('a, rule_error) result option"

fun run_bind :: "'a run \<Rightarrow> ('a \<Rightarrow> 'b run) \<Rightarrow> 'b run" where
  "run_bind None f = None"
| "run_bind (Some (Err e)) f = Some (Err e)"
| "run_bind (Some (Ok x)) f = f x"

definition run_map :: "('a \<Rightarrow> 'b) \<Rightarrow> 'a run \<Rightarrow> 'b run" where
  "run_map f r = run_bind r (\<lambda>x. Some (Ok (f x)))"

text \<open>A value of an encoder or a trace: a panic, or a value.\<close>

definition unpanic :: "'a option \<Rightarrow> 'a run" where
  "unpanic x = map_option Ok x"

definition nth_opt :: "'a list \<Rightarrow> nat \<Rightarrow> 'a option" where
  "nth_opt xs i = (if i < length xs then Some (xs ! i) else None)"

lemma run_bind_cong [fundef_cong]:
  "r = r' \<Longrightarrow> (\<And>x. r' = Some (Ok x) \<Longrightarrow> f x = g x) \<Longrightarrow> run_bind r f = run_bind r' g"
  by (cases "(r', f)" rule: run_bind.cases) auto

section \<open>Compiling one expression\<close>

text \<open>\<open>OutOfFuel\<close> of the parser model has no counterpart in the source and is passed on as \<open>None\<close>.\<close>

definition parse_rule :: "string \<Rightarrow> string \<Rightarrow> expr run" where
  "parse_rule rule_name source =
     (case parse_expression rule_name source of
        Ok e \<Rightarrow> Some (Ok e)
      | Err (Failed e) \<Rightarrow> Some (Err (Parse e))
      | Err OutOfFuel \<Rightarrow> None)"

definition compile_expression ::
  "string \<Rightarrow> string \<Rightarrow> type_map \<Rightarrow> type_map \<Rightarrow> checked_expr run" where
  "compile_expression rule_name source bindings declared_types =
     run_bind (parse_rule rule_name source) (\<lambda>e.
       Some (check_expression None rule_name e bindings declared_types))"

definition compile_expression_in_context ::
  "expression_context \<Rightarrow> string \<Rightarrow> type_map \<Rightarrow> checked_expr run" where
  "compile_expression_in_context ctx source bindings =
     run_bind (parse_rule (parser_name ctx) source) (\<lambda>e.
       Some (check_expression (Some ctx) (parser_name ctx) e bindings []))"

definition compile_expression_in_context_with_declared_types ::
  "expression_context \<Rightarrow> string \<Rightarrow> type_map \<Rightarrow> type_map \<Rightarrow> checked_expr run" where
  "compile_expression_in_context_with_declared_types ctx source bindings declared_types =
     (if declared_types = [] then compile_expression_in_context ctx source bindings
      else run_bind (parse_rule (parser_name ctx) source) (\<lambda>e.
             Some (check_expression (Some ctx) (parser_name ctx) e bindings declared_types)))"

section \<open>Evaluating a decision table\<close>

fun evaluate_conditions ::
  "string \<Rightarrow> string \<Rightarrow> checked_expr btree_map \<Rightarrow> eval_context \<Rightarrow> (bool btree_map, rule_error) result" where
  "evaluate_conditions table_name rid [] ctx = Ok []"
| "evaluate_conditions table_name rid ((input, condition) # rest) ctx =
     res_bind (evaluate_expression table_name (ce_expression condition) ctx) (\<lambda>v.
       case v of
         VBool b \<Rightarrow> res_map (Cons (input, b)) (evaluate_conditions table_name rid rest ctx)
       | _ \<Rightarrow> Err (InvalidDecisionRow table_name rid))"

definition row_trace :: "compiled_decision_row \<Rightarrow> bool btree_map \<Rightarrow> decision_condition_trace" where
  "row_trace row conditions = \<lparr>ct_row_id = cdr_id row, ct_conditions = conditions\<rparr>"

definition is_match :: "bool btree_map \<Rightarrow> bool" where
  "is_match conditions \<longleftrightarrow> list_all snd conditions"

fun evaluate_rows ::
  "string \<Rightarrow> compiled_decision_row list \<Rightarrow> eval_context \<Rightarrow>
   (compiled_decision_row list \<times> decision_condition_trace list, rule_error) result" where
  "evaluate_rows table_name [] ctx = Ok ([], [])"
| "evaluate_rows table_name (row # rows) ctx =
     res_bind (evaluate_conditions table_name (cdr_id row) (cdr_conditions row) ctx) (\<lambda>conditions.
     res_map (\<lambda>(matched, traces).
         (if is_match conditions then row # matched else matched, row_trace row conditions # traces))
       (evaluate_rows table_name rows ctx))"

definition decision_trace_of ::
  "externs \<Rightarrow> compiled_decision_table \<Rightarrow> string option \<Rightarrow> decision_rejection option \<Rightarrow>
   decision_condition_trace list \<Rightarrow> eval_context \<Rightarrow> decision_trace option" where
  "decision_trace_of ext table matched_row_id rejection condition_results ctx =
     map_option (\<lambda>bytes.
       \<lparr>tr_table_name = cdt_name table, tr_table_revision = cdt_revision table,
        tr_matched_row_id = matched_row_id, tr_rejection = rejection,
        tr_condition_results = condition_results, tr_input_digest = sha256_hex ext bytes\<rparr>)
       (canonical_decoded_input_bytes (cdt_inputs table) ctx)"

text \<open>The \<open>match\<close> on the hit policy: the selected row, or the rejection with its trace.\<close>

definition select_row ::
  "externs \<Rightarrow> compiled_decision_table \<Rightarrow> compiled_decision_row list \<Rightarrow>
   decision_condition_trace list \<Rightarrow> eval_context \<Rightarrow> compiled_decision_row run" where
  "select_row ext table matched traces ctx =
     (case cdt_hit_policy table of
        First \<Rightarrow>
          (case matched of
             row # _ \<Rightarrow> Some (Ok row)
           | [] \<Rightarrow> map_option (\<lambda>tr. Err (DecisionNoMatch (cdt_name table) tr))
                     (decision_trace_of ext table None (Some RejectNoMatch) traces ctx))
      | Unique \<Rightarrow>
          (case matched of
             [row] \<Rightarrow> Some (Ok row)
           | [] \<Rightarrow> map_option (\<lambda>tr. Err (DecisionNoMatch (cdt_name table) tr))
                     (decision_trace_of ext table None (Some RejectNoMatch) traces ctx)
           | _ \<Rightarrow> map_option (\<lambda>tr. Err (DecisionMultipleMatches (cdt_name table) (map cdr_id matched) tr))
                    (decision_trace_of ext table None (Some RejectMultipleMatches) traces ctx))
      | Unsupported policy \<Rightarrow> Some (Err (UnsupportedHitPolicy (cdt_name table) policy)))"

definition evaluate_decision_table ::
  "externs \<Rightarrow> compiled_decision_table \<Rightarrow> bindings \<Rightarrow> decision_result run" where
  "evaluate_decision_table ext table bindings =
     run_bind (Some (decode_bindings ext (cdt_inputs table) bindings)) (\<lambda>ctx.
     run_bind (Some (evaluate_rows (cdt_name table) (cdt_rows table) ctx)) (\<lambda>(matched, traces).
     run_bind (select_row ext table matched traces ctx) (\<lambda>selected.
     run_bind (unpanic (decision_trace_of ext table (Some (cdr_id selected)) None traces ctx)) (\<lambda>tr.
       Some (Ok \<lparr>dr_output = cdr_output selected, dr_matched_row_id = cdr_id selected,
                 dr_trace = tr\<rparr>)))))"

section \<open>Compiling a decision table\<close>

text \<open>\<open>BTreeSet\<close>s of column names; the symmetric difference is iterated in order.\<close>

definition name_set :: "string list \<Rightarrow> string list" where
  "name_set names = sort (remdups names)"

definition symmetric_difference :: "string list \<Rightarrow> string list \<Rightarrow> string list" where
  "symmetric_difference a b =
     sort (filter (\<lambda>x. x \<notin> set b) a @ filter (\<lambda>x. x \<notin> set a) b)"

definition validate_exact_columns ::
  "string \<Rightarrow> string list \<Rightarrow> string list \<Rightarrow> (unit, rule_error) result" where
  "validate_exact_columns table actual expected =
     (let actual = name_set actual; expected = name_set expected in
      if actual = expected then Ok ()
      else let column = (case symmetric_difference actual expected of c # _ \<Rightarrow> c | [] \<Rightarrow> ''unnamed'') in
           Err (InvalidDecisionColumn table column))"

fun validate_output_fields ::
  "externs \<Rightarrow> string \<Rightarrow> string \<Rightarrow> (string \<times> json) list \<Rightarrow> type_map \<Rightarrow> (unit, rule_error) result" where
  "validate_output_fields ext table rid output [] = Ok ()"
| "validate_output_fields ext table rid output ((field, t) # rest) =
     (case map_of output field of
        None \<Rightarrow> Err (InvalidDecisionColumn table field)
      | Some v \<Rightarrow>
          if decode_value ext v t = None then Err (InvalidDecisionRow table rid)
          else validate_output_fields ext table rid output rest)"

definition validate_row_output ::
  "externs \<Rightarrow> decision_table_definition \<Rightarrow> decision_row \<Rightarrow> (unit, rule_error) result" where
  "validate_row_output ext defn row =
     (case row_output row of
        JObject output \<Rightarrow>
          res_bind (validate_exact_columns (dt_name defn) (map fst output)
                      (bt_keys (dt_output defn))) (\<lambda>_.
            validate_output_fields ext (dt_name defn) (row_id row) output (dt_output defn))
      | _ \<Rightarrow> Err (InvalidDecisionRow (dt_name defn) (row_id row)))"

type_synonym condition_contexts = "(expression_context btree_map) list"

definition condition_context ::
  "condition_contexts option \<Rightarrow> nat \<Rightarrow> string \<Rightarrow> expression_context option" where
  "condition_context contexts row_index input =
     Option.bind contexts (\<lambda>cs. Option.bind (nth_opt cs row_index) (\<lambda>m. bt_get m input))"

text \<open>One condition cell of a row, and the loop over a row's cells.\<close>

definition compile_condition ::
  "decision_table_definition \<Rightarrow> type_map \<Rightarrow> condition_contexts option \<Rightarrow> nat \<Rightarrow> string \<Rightarrow>
   string \<Rightarrow> string \<Rightarrow> checked_expr run" where
  "compile_condition defn declared_types contexts row_index rid input source =
     (let location = condition_context contexts row_index input in
      run_bind
        (if contexts \<noteq> None
         then run_bind (Some (ok_or (InternalInvariant (dt_name defn)) location)) (\<lambda>ctx.
              compile_expression_in_context_with_declared_types ctx source (dt_inputs defn) declared_types)
         else compile_expression (dt_name defn) source (dt_inputs defn) declared_types)
        (\<lambda>checked.
           if ce_type checked \<noteq> Concrete TBool
           then let err = InvalidDecisionRow (dt_name defn) rid in
                Some (Err (case location of
                             Some ctx \<Rightarrow> with_diagnostic err ctx (expr_span (ce_expression checked))
                           | None \<Rightarrow> err))
           else Some (Ok checked)))"

fun compile_conditions ::
  "decision_table_definition \<Rightarrow> type_map \<Rightarrow> condition_contexts option \<Rightarrow> nat \<Rightarrow> string \<Rightarrow>
   string btree_map \<Rightarrow> checked_expr btree_map run" where
  "compile_conditions defn declared_types contexts row_index rid [] = Some (Ok [])"
| "compile_conditions defn declared_types contexts row_index rid ((input, source) # rest) =
     run_bind (compile_condition defn declared_types contexts row_index rid input source) (\<lambda>checked.
     run_map (Cons (input, checked))
       (compile_conditions defn declared_types contexts row_index rid rest))"

definition compile_row ::
  "externs \<Rightarrow> decision_table_definition \<Rightarrow> type_map \<Rightarrow> condition_contexts option \<Rightarrow> nat \<Rightarrow>
   string list \<Rightarrow> decision_row \<Rightarrow> compiled_decision_row run" where
  "compile_row ext defn declared_types contexts row_index seen row =
     (if row_id row = [] \<or> row_id row \<in> set seen
      then Some (Err (InvalidDecisionRow (dt_name defn) (row_id row)))
      else
        run_bind (Some (validate_exact_columns (dt_name defn) (bt_keys (row_when row))
                          (bt_keys (dt_inputs defn)))) (\<lambda>_.
        run_bind (Some (validate_row_output ext defn row)) (\<lambda>_.
        run_map (\<lambda>conditions.
            \<lparr>cdr_id = row_id row, cdr_description = row_description row, cdr_conditions = conditions,
             cdr_output = row_output row\<rparr>)
          (compile_conditions defn declared_types contexts row_index (row_id row) (row_when row)))))"

fun compile_rows ::
  "externs \<Rightarrow> decision_table_definition \<Rightarrow> type_map \<Rightarrow> condition_contexts option \<Rightarrow> nat \<Rightarrow>
   string list \<Rightarrow> decision_row list \<Rightarrow> compiled_decision_row list run" where
  "compile_rows ext defn declared_types contexts row_index seen [] = Some (Ok [])"
| "compile_rows ext defn declared_types contexts row_index seen (row # rows) =
     run_bind (compile_row ext defn declared_types contexts row_index seen row) (\<lambda>compiled.
     run_map (Cons compiled)
       (compile_rows ext defn declared_types contexts (row_index + 1) (row_id row # seen) rows))"

fun is_true_literal :: "expr \<Rightarrow> bool" where
  "is_true_literal (Expr _ (Literal (LBool True))) \<longleftrightarrow> True"
| "is_true_literal _ \<longleftrightarrow> False"

text \<open>The last row has the literal \<open>true\<close> in every input column.\<close>

definition is_default_row :: "type_map \<Rightarrow> compiled_decision_row \<Rightarrow> bool" where
  "is_default_row inputs row \<longleftrightarrow>
     list_all (\<lambda>input. case bt_get (cdr_conditions row) input of
         Some condition \<Rightarrow> is_true_literal (ce_expression condition)
       | None \<Rightarrow> False) (bt_keys inputs)"

definition has_default_row :: "type_map \<Rightarrow> compiled_decision_row list \<Rightarrow> bool" where
  "has_default_row inputs rows \<longleftrightarrow> rows \<noteq> [] \<and> is_default_row inputs (last rows)"

definition compile_test_case :: "string \<Rightarrow> decision_test_case \<Rightarrow> (compiled_test_case, rule_error) result" where
  "compile_test_case table c =
     (case (dtc_input c, dtc_expect_output c) of
        (JObject input, JObject output) \<Rightarrow>
          Ok \<lparr>ctc_name = dtc_name c, ctc_input = bt_collect input, ctc_output = bt_collect output,
              ctc_matched_row_id = dtc_expect_row c\<rparr>
      | _ \<Rightarrow> Err (DecisionTestCaseMismatch table (dtc_name c)))"

definition compile_decision_table ::
  "externs \<Rightarrow> decision_table_definition \<Rightarrow> type_map \<Rightarrow> rule_type list \<Rightarrow> condition_contexts option \<Rightarrow>
   compiled_decision_table run" where
  "compile_decision_table ext defn declared_types declarations contexts =
     (let name = dt_name defn in
      case dt_hit_policy defn of
        Unsupported policy \<Rightarrow> Some (Err (UnsupportedHitPolicy name policy))
      | policy \<Rightarrow>
          if dt_rows defn = [] then Some (Err (EmptyDecisionTable name))
          else if dt_output defn = [] then Some (Err (InvalidDecisionColumn name ''output''))
          else
            run_bind (compile_rows ext defn declared_types contexts 0 [] (dt_rows defn)) (\<lambda>rows.
              if policy = First \<and> \<not> has_default_row (dt_inputs defn) rows
              then Some (Err (MissingDefaultRow name))
              else
                run_map (\<lambda>test_cases.
                    \<lparr>cdt_name = name, cdt_revision = [], cdt_inputs = dt_inputs defn,
                     cdt_output = dt_output defn,
                     cdt_output_fields =
                       map (\<lambda>(n, t). (n, \<lparr>of_name = n, of_type = t\<rparr>)) (dt_output defn),
                     cdt_hit_policy = policy, cdt_rows = rows, cdt_test_cases = test_cases,
                     cdt_declared_types = declarations\<rparr>)
                  (Some (collect_res (compile_test_case name) (dt_test_cases defn)))))"

section \<open>Compiling a catalog\<close>

fun resolve_declarations :: "type_map \<Rightarrow> string list \<Rightarrow> string list \<Rightarrow> (rule_type list, rule_error) result" where
  "resolve_declarations declared_types seen [] = Ok []"
| "resolve_declarations declared_types seen (name # names) =
     (if name \<in> set seen then Err (InternalInvariant ''catalog'')
      else res_bind (ok_or (InternalInvariant ''catalog'') (bt_get declared_types name)) (\<lambda>t.
           res_map (Cons t) (resolve_declarations declared_types (name # seen) names)))"

definition canonical_declarations ::
  "type_map \<Rightarrow> string list option \<Rightarrow> (rule_type list, rule_error) result" where
  "canonical_declarations declared_types declaration_order =
     resolve_declarations declared_types []
       (case declaration_order of Some names \<Rightarrow> names | None \<Rightarrow> bt_keys declared_types)"

text \<open>The body of the loop over the rules: check the expression, check the declared result, digest.\<close>

definition compile_rule ::
  "externs \<Rightarrow> type_map \<Rightarrow> rule_type list \<Rightarrow> expression_context list option \<Rightarrow> nat \<Rightarrow>
   rule_definition \<Rightarrow> compiled_rule run" where
  "compile_rule ext declared_types declarations contexts rule_index defn =
     (let location = Option.bind contexts (\<lambda>cs. nth_opt cs rule_index) in
      run_bind
        (if contexts \<noteq> None
         then run_bind (Some (ok_or (InternalInvariant (rd_name defn)) location)) (\<lambda>ctx.
              compile_expression_in_context_with_declared_types ctx (rd_expression defn)
                (rd_bindings defn) declared_types)
         else compile_expression (rd_name defn) (rd_expression defn) (rd_bindings defn) declared_types)
        (\<lambda>checked.
           if \<not> is_assignable (ce_type checked) (rd_result defn)
           then let err = InvalidRuleResult (rd_name defn) (display_name (rd_result defn))
                            (checked_type_name (ce_type checked)) in
                Some (Err (case location of
                             Some ctx \<Rightarrow> with_diagnostic err ctx (expr_span (ce_expression checked))
                           | None \<Rightarrow> err))
           else
             let compiled =
               \<lparr>cr_name = rd_name defn, cr_bindings = rd_bindings defn, cr_result = rd_result defn,
                cr_artifact = \<lparr>ra_profile_version = PROFILE_VERSION,
                               ra_original_source = rd_expression defn,
                               ra_canonical_ast_sha256 = [],
                               ra_source_sha256 = sha256_hex ext (rd_expression defn)\<rparr>,
                cr_expression = checked, cr_declared_types = declarations\<rparr> in
             run_map (\<lambda>bytes. compiled\<lparr>cr_artifact :=
                 (cr_artifact compiled)\<lparr>ra_canonical_ast_sha256 := sha256_hex ext bytes\<rparr>\<rparr>)
               (unpanic (canonical_bytes ext TypedRuleAst (CvTypedRule compiled)))))"

definition name_taken :: "rule_catalog \<Rightarrow> string \<Rightarrow> bool" where
  "name_taken catalog name \<longleftrightarrow>
     bt_contains (cat_rules catalog) name \<or> bt_contains (cat_decision_tables catalog) name"

fun compile_rules ::
  "externs \<Rightarrow> type_map \<Rightarrow> rule_type list \<Rightarrow> expression_context list option \<Rightarrow> nat \<Rightarrow>
   rule_definition list \<Rightarrow> rule_catalog \<Rightarrow> rule_catalog run" where
  "compile_rules ext declared_types declarations contexts rule_index [] catalog = Some (Ok catalog)"
| "compile_rules ext declared_types declarations contexts rule_index (defn # defns) catalog =
     (if name_taken catalog (rd_name defn) then Some (Err (DuplicateName ''rule'' (rd_name defn)))
      else
        run_bind (compile_rule ext declared_types declarations contexts rule_index defn) (\<lambda>compiled.
          compile_rules ext declared_types declarations contexts (rule_index + 1) defns
            (catalog\<lparr>cat_rules := bt_insert (rd_name defn) compiled (cat_rules catalog)\<rparr>)))"

fun compile_tables ::
  "externs \<Rightarrow> type_map \<Rightarrow> rule_type list \<Rightarrow> condition_contexts list option \<Rightarrow> nat \<Rightarrow>
   decision_table_definition list \<Rightarrow> rule_catalog \<Rightarrow> rule_catalog run" where
  "compile_tables ext declared_types declarations contexts table_index [] catalog = Some (Ok catalog)"
| "compile_tables ext declared_types declarations contexts table_index (defn # defns) catalog =
     (if name_taken catalog (dt_name defn)
      then Some (Err (DuplicateName ''decision table'' (dt_name defn)))
      else
        run_bind (compile_decision_table ext defn declared_types declarations
                    (Option.bind contexts (\<lambda>cs. nth_opt cs table_index))) (\<lambda>compiled.
          compile_tables ext declared_types declarations contexts (table_index + 1) defns
            (catalog\<lparr>cat_decision_tables :=
               bt_insert (dt_name defn) compiled (cat_decision_tables catalog)\<rparr>)))"

definition evaluate_decision ::
  "externs \<Rightarrow> rule_catalog \<Rightarrow> string \<Rightarrow> bindings \<Rightarrow> decision_result run" where
  "evaluate_decision ext catalog table bindings =
     run_bind (Some (ok_or (UnknownDecisionTable table) (bt_get (cat_decision_tables catalog) table)))
       (\<lambda>compiled. evaluate_decision_table ext compiled bindings)"

definition catalog_declared_type :: "rule_catalog \<Rightarrow> string \<Rightarrow> rule_type option" where
  "catalog_declared_type catalog name = bt_get (cat_declared_types catalog) name"

definition catalog_rule :: "rule_catalog \<Rightarrow> string \<Rightarrow> compiled_rule option" where
  "catalog_rule catalog name = bt_get (cat_rules catalog) name"

definition catalog_decision_table :: "rule_catalog \<Rightarrow> string \<Rightarrow> compiled_decision_table option" where
  "catalog_decision_table catalog name = bt_get (cat_decision_tables catalog) name"

definition validate_test_case ::
  "externs \<Rightarrow> rule_catalog \<Rightarrow> string \<Rightarrow> decision_test_case \<Rightarrow> unit run" where
  "validate_test_case ext catalog table c =
     (let mismatch = DecisionTestCaseMismatch table (dtc_name c) in
      case dtc_input c of
        JObject input \<Rightarrow>
          run_bind (map_option (map_err (\<lambda>_. mismatch))
                      (evaluate_decision ext catalog table (bt_collect input))) (\<lambda>result.
            if \<not> json_eq (dr_output result) (dtc_expect_output c) \<or>
               dr_matched_row_id result \<noteq> dtc_expect_row c
            then Some (Err mismatch) else Some (Ok ()))
      | _ \<Rightarrow> Some (Err mismatch))"

fun validate_test_cases ::
  "externs \<Rightarrow> rule_catalog \<Rightarrow> string \<Rightarrow> decision_test_case list \<Rightarrow> unit run" where
  "validate_test_cases ext catalog table [] = Some (Ok ())"
| "validate_test_cases ext catalog table (c # cs) =
     run_bind (validate_test_case ext catalog table c) (\<lambda>_. validate_test_cases ext catalog table cs)"

fun validate_decision_test_cases ::
  "externs \<Rightarrow> rule_catalog \<Rightarrow> decision_table_definition list \<Rightarrow> unit run" where
  "validate_decision_test_cases ext catalog [] = Some (Ok ())"
| "validate_decision_test_cases ext catalog (defn # defns) =
     run_bind (validate_test_cases ext catalog (dt_name defn) (dt_test_cases defn)) (\<lambda>_.
       validate_decision_test_cases ext catalog defns)"

definition derive_decision_revisions :: "externs \<Rightarrow> rule_catalog \<Rightarrow> rule_catalog option" where
  "derive_decision_revisions ext catalog =
     map_option (\<lambda>tables. catalog\<lparr>cat_decision_tables := tables\<rparr>)
       (collect_opt (\<lambda>(name, table).
          map_option (\<lambda>bytes. (name, table\<lparr>cdt_revision := sha256_hex ext bytes\<rparr>))
            (canonical_bytes ext DecisionDefinition (CvDecisionDefinition table)))
          (cat_decision_tables catalog))"

definition compile_catalog_internal ::
  "externs \<Rightarrow> type_map \<Rightarrow> string list option \<Rightarrow> rule_definition list \<Rightarrow> decision_table_definition list \<Rightarrow>
   expression_context list option \<Rightarrow> condition_contexts list option \<Rightarrow> rule_catalog run" where
  "compile_catalog_internal ext declared_types declaration_order rules tables rule_contexts
      decision_condition_contexts =
     run_bind (Some (canonical_declarations declared_types declaration_order)) (\<lambda>declarations.
     run_bind (compile_rules ext declared_types declarations rule_contexts 0 rules
                 (catalog_default\<lparr>cat_declared_types := declared_types\<rparr>)) (\<lambda>catalog.
     run_bind (compile_tables ext declared_types declarations decision_condition_contexts 0 tables catalog)
       (\<lambda>catalog.
     run_bind (validate_decision_test_cases ext catalog tables) (\<lambda>_.
     unpanic (derive_decision_revisions ext catalog)))))"

definition compile_catalog_with_declared_types ::
  "externs \<Rightarrow> type_map \<Rightarrow> rule_definition list \<Rightarrow> decision_table_definition list \<Rightarrow> rule_catalog run" where
  "compile_catalog_with_declared_types ext declared_types rules tables =
     compile_catalog_internal ext declared_types None rules tables None None"

definition compile_catalog ::
  "externs \<Rightarrow> rule_definition list \<Rightarrow> decision_table_definition list \<Rightarrow> rule_catalog run" where
  "compile_catalog ext rules tables = compile_catalog_with_declared_types ext [] rules tables"

definition compile_catalog_in_declaration_order ::
  "externs \<Rightarrow> type_map \<Rightarrow> string list \<Rightarrow> rule_definition list \<Rightarrow> decision_table_definition list \<Rightarrow>
   expression_context list \<Rightarrow> condition_contexts list \<Rightarrow> rule_catalog run" where
  "compile_catalog_in_declaration_order ext declared_types declaration_order rules tables rule_contexts
      decision_condition_contexts =
     (if length rule_contexts \<noteq> length rules \<or> length decision_condition_contexts \<noteq> length tables
      then Some (Err (InternalInvariant ''catalog''))
      else compile_catalog_internal ext declared_types (Some declaration_order) rules tables
             (Some rule_contexts) (Some decision_condition_contexts))"

definition compile_catalog_with_contexts ::
  "externs \<Rightarrow> type_map \<Rightarrow> rule_definition list \<Rightarrow> decision_table_definition list \<Rightarrow>
   expression_context list \<Rightarrow> condition_contexts list \<Rightarrow> rule_catalog run" where
  "compile_catalog_with_contexts ext declared_types rules tables rule_contexts decision_condition_contexts =
     compile_catalog_in_declaration_order ext declared_types (bt_keys declared_types) rules tables
       rule_contexts decision_condition_contexts"

end
