(* ===== verification/Rules_Decisions.thy ===== *)
theory Rules_Decisions
  imports Rules_Soundness Rules_Catalog
begin

text \<open>
  Compiled rules and decision tables: what a successful compilation guarantees, and what an evaluation
  of the compiled form returns.
\<close>

section \<open>Computations that can panic\<close>

lemma run_bind_Ok [simp]: "run_bind r f = Some (Ok y) \<longleftrightarrow> (\<exists>x. r = Some (Ok x) \<and> f x = Some (Ok y))"
  by (cases "(r, f)" rule: run_bind.cases) auto

lemma run_map_Ok [simp]: "run_map f r = Some (Ok y) \<longleftrightarrow> (\<exists>x. r = Some (Ok x) \<and> y = f x)"
  by (auto simp: run_map_def)

lemma unpanic_Ok [simp]: "unpanic x = Some (Ok y) \<longleftrightarrow> x = Some y"
  by (simp add: unpanic_def)

lemma run_bind_None: "run_bind r f = None \<longleftrightarrow> r = None \<or> (\<exists>x. r = Some (Ok x) \<and> f x = None)"
  by (cases "(r, f)" rule: run_bind.cases) auto

lemma run_map_None [simp]: "run_map f r = None \<longleftrightarrow> r = None"
  by (auto simp: run_map_def run_bind_None)

section \<open>Compiling an expression\<close>

lemma parse_rule_returns: "parse_rule rule_name source \<noteq> None"
  using parse_expression_outcome[of rule_name source]
  by (auto simp: parse_rule_def outcome_def split: result.splits parse_stop.splits)

lemma parse_rule_Ok: "parse_rule rule_name source = Some (Ok e) \<longleftrightarrow> parse_expression rule_name source = Ok e"
  by (auto simp: parse_rule_def split: result.splits parse_stop.splits)

lemma compile_expression_total:
  "compile_expression rule_name source bindings declared \<noteq> None"
  "compile_expression_in_context ctx source bindings \<noteq> None"
  "compile_expression_in_context_with_declared_types ctx source bindings declared \<noteq> None"
  unfolding compile_expression_def compile_expression_in_context_def
    compile_expression_in_context_with_declared_types_def
  by (auto simp only: run_bind_None parse_rule_returns split: if_splits)

text \<open>The expression of a checked node is the one that was checked.\<close>

lemma checked_expression_eq: "check_expression c rn e bindings declared = Ok ce \<Longrightarrow> ce_expression ce = e"
  by (cases e) (auto simp: checked_def)

definition accepted :: "type_map \<Rightarrow> type_map \<Rightarrow> string \<Rightarrow> checked_expr \<Rightarrow> bool" where
  "accepted bindings declared source ce \<longleftrightarrow>
     (\<exists>c rn. parse_expression rn source = Ok (ce_expression ce) \<and>
        check_expression c rn (ce_expression ce) bindings declared = Ok ce)"

lemma compile_expression_accepted:
  "compile_expression rule_name source bindings declared = Some (Ok ce) \<Longrightarrow> accepted bindings declared source ce"
  "compile_expression_in_context_with_declared_types ctx source bindings declared = Some (Ok ce) \<Longrightarrow>
   accepted bindings declared source ce"
  by ((auto simp: compile_expression_def compile_expression_in_context_with_declared_types_def
      compile_expression_in_context_def accepted_def parse_rule_Ok checked_expression_eq split: if_splits; blast)+)

lemma accepted_settles:
  assumes "accepted bindings declared source ce" "context_typed ctx bindings"
  shows "settles rule_name (\<lambda>v. has_checked_type v (ce_type ce)) (evaluate_expression rule_name (ce_expression ce) ctx)"
  using assms checked_settles(1) by (auto simp: accepted_def)

section \<open>Compiling a rule\<close>

lemma compile_rule_Ok:
  assumes "compile_rule ext declared declarations contexts i defn = Some (Ok rule)"
  shows "cr_name rule = rd_name defn \<and> cr_bindings rule = rd_bindings defn \<and> cr_result rule = rd_result defn \<and>
    accepted (rd_bindings defn) declared (rd_expression defn) (cr_expression rule) \<and>
    is_assignable (ce_type (cr_expression rule)) (rd_result defn)"
  using assms compile_expression_accepted
  by (fastforce simp: compile_rule_def Let_def split: if_splits)

lemma assignable_value: "is_assignable t r \<Longrightarrow> has_checked_type v t \<Longrightarrow> has_type v r"
  by (cases t) (auto simp: accepts_null_iff)

section \<open>Compiling a decision table\<close>

lemma validate_exact_columns_Ok:
  "validate_exact_columns table actual expected = Ok u \<longleftrightarrow> set actual = set expected"
proof -
  have "name_set actual = name_set expected \<longleftrightarrow> set actual = set expected"
    unfolding name_set_def
    by (metis set_sort set_remdups sorted_list_of_set_sort_remdups)
  then show ?thesis by (auto simp: validate_exact_columns_def Let_def)
qed

lemma validate_output_fields_Ok:
  "validate_output_fields ext table rid output fs = Ok u \<longleftrightarrow>
     list_all (\<lambda>(f, t). \<exists>v x. map_of output f = Some v \<and> decode_value ext v t = Some x) fs"
  by (induction fs) (auto split: option.splits if_splits)

text \<open>What the compilation of one condition cell, and of one row, guarantees.\<close>

definition condition_compiled :: "type_map \<Rightarrow> type_map \<Rightarrow> string \<times> string \<Rightarrow> string \<times> checked_expr \<Rightarrow> bool" where
  "condition_compiled inputs declared cell compiled \<longleftrightarrow>
     fst compiled = fst cell \<and> accepted inputs declared (snd cell) (snd compiled) \<and>
     ce_type (snd compiled) = Concrete TBool"

definition row_compiled ::
  "externs \<Rightarrow> decision_table_definition \<Rightarrow> type_map \<Rightarrow> decision_row \<Rightarrow> compiled_decision_row \<Rightarrow> bool" where
  "row_compiled ext defn declared row compiled \<longleftrightarrow>
     row_id row \<noteq> [] \<and> cdr_id compiled = row_id row \<and> cdr_output compiled = row_output row \<and>
     list_all2 (condition_compiled (dt_inputs defn) declared) (row_when row) (cdr_conditions compiled) \<and>
     set (bt_keys (row_when row)) = set (bt_keys (dt_inputs defn)) \<and>
     (\<exists>output. row_output row = JObject output \<and> set (map fst output) = set (bt_keys (dt_output defn)) \<and>
        list_all (\<lambda>(f, t). \<exists>v x. map_of output f = Some v \<and> decode_value ext v t = Some x) (dt_output defn))"

lemma compile_condition_Ok:
  assumes "compile_condition defn declared contexts i rid input source = Some (Ok ce)"
  shows "accepted (dt_inputs defn) declared source ce \<and> ce_type ce = Concrete TBool"
  using assms compile_expression_accepted
  by (fastforce simp: compile_condition_def Let_def split: if_splits)

lemma compile_conditions_Ok:
  "compile_conditions defn declared contexts i rid cells = Some (Ok compiled) \<Longrightarrow>
   list_all2 (condition_compiled (dt_inputs defn) declared) cells compiled"
  by (induction defn declared contexts i rid cells arbitrary: compiled rule: compile_conditions.induct)
     (auto simp: condition_compiled_def dest: compile_condition_Ok)

lemma validate_row_output_Ok:
  "validate_row_output ext defn row = Ok u \<longleftrightarrow>
    (\<exists>output. row_output row = JObject output \<and> set (map fst output) = set (bt_keys (dt_output defn)) \<and>
        list_all (\<lambda>(f, t). \<exists>v x. map_of output f = Some v \<and> decode_value ext v t = Some x) (dt_output defn))"
  by (cases "row_output row") (auto simp: validate_row_output_def validate_exact_columns_Ok validate_output_fields_Ok)

lemma compile_row_Ok:
  assumes "compile_row ext defn declared contexts i seen row = Some (Ok compiled)"
  shows "row_compiled ext defn declared row compiled \<and> row_id row \<notin> set seen"
  using assms
  by (auto simp: compile_row_def row_compiled_def validate_exact_columns_Ok validate_row_output_Ok
      dest: compile_conditions_Ok split: if_splits)

lemma compile_rows_Ok:
  "compile_rows ext defn declared contexts i seen rows = Some (Ok compiled) \<Longrightarrow>
   list_all2 (row_compiled ext defn declared) rows compiled \<and> distinct (map row_id rows) \<and>
   set (map row_id rows) \<inter> set seen = {}"
proof (induction ext defn declared contexts i seen rows arbitrary: compiled rule: compile_rows.induct)
  case (2 ext defn declared contexts i seen row rows)
  then obtain c cs where c: "compile_row ext defn declared contexts i seen row = Some (Ok c)"
      "compile_rows ext defn declared contexts (i + 1) (row_id row # seen) rows = Some (Ok cs)" "compiled = c # cs"
    by auto
  show ?case using "2.IH"[OF c(1,2)] compile_row_Ok[OF c(1)] c(3) by auto
qed simp

definition table_compiled ::
  "externs \<Rightarrow> type_map \<Rightarrow> decision_table_definition \<Rightarrow> compiled_decision_table \<Rightarrow> bool" where
  "table_compiled ext declared defn table \<longleftrightarrow>
     cdt_name table = dt_name defn \<and> cdt_inputs table = dt_inputs defn \<and> cdt_output table = dt_output defn \<and>
     cdt_hit_policy table = dt_hit_policy defn \<and> dt_hit_policy defn \<in> {First, Unique} \<and>
     dt_rows defn \<noteq> [] \<and> dt_output defn \<noteq> [] \<and> distinct (map row_id (dt_rows defn)) \<and>
     list_all2 (row_compiled ext defn declared) (dt_rows defn) (cdt_rows table) \<and>
     (dt_hit_policy defn = First \<longrightarrow> has_default_row (dt_inputs defn) (cdt_rows table))"

lemma compile_decision_table_Ok:
  assumes "compile_decision_table ext defn declared declarations contexts = Some (Ok table)"
  shows "table_compiled ext declared defn table"
proof -
  let ?policy = "dt_hit_policy defn"
  from assms have p: "?policy \<in> {First, Unique}"
    by (auto simp: compile_decision_table_def Let_def split: hit_policy.splits)
  then have ne: "dt_rows defn \<noteq> []" "dt_output defn \<noteq> []"
    using assms by (auto simp: compile_decision_table_def Let_def split: if_splits)
  then obtain rows where rows: "compile_rows ext defn declared contexts 0 [] (dt_rows defn) = Some (Ok rows)"
      "cdt_rows table = rows" "cdt_name table = dt_name defn" "cdt_inputs table = dt_inputs defn"
      "cdt_output table = dt_output defn" "cdt_hit_policy table = ?policy"
      "?policy = First \<longrightarrow> has_default_row (dt_inputs defn) rows"
    using assms p by (auto simp: compile_decision_table_def Let_def split: if_splits)
  then show ?thesis using compile_rows_Ok[OF rows(1)] p ne by (simp add: table_compiled_def)
qed

section \<open>Evaluating a decision table\<close>

text \<open>
  The meaning of a table: a row matches when each of its conditions is true, and the hit policy chooses
  among the matching rows.
\<close>

definition row_matches :: "string \<Rightarrow> eval_context \<Rightarrow> compiled_decision_row \<Rightarrow> bool" where
  "row_matches table_name ctx row \<longleftrightarrow>
     list_all (\<lambda>(_, c). evaluate_expression table_name (ce_expression c) ctx = Ok (VBool True)) (cdr_conditions row)"

datatype 'r verdict = Chosen 'r | NoneMatched | Ambiguous "'r list"

definition verdict_of :: "hit_policy \<Rightarrow> ('r \<Rightarrow> bool) \<Rightarrow> 'r list \<Rightarrow> 'r verdict" where
  "verdict_of policy matches rows =
     (case filter matches rows of
        [] \<Rightarrow> NoneMatched
      | [r] \<Rightarrow> Chosen r
      | r # rs \<Rightarrow> if policy = First then Chosen r else Ambiguous (r # rs))"

lemma evaluate_conditions_Ok:
  "evaluate_conditions table_name rid conditions ctx = Ok bs \<longleftrightarrow>
   list_all2 (\<lambda>(i, c) (i', b). i' = i \<and> evaluate_expression table_name (ce_expression c) ctx = Ok (VBool b)) conditions bs"
proof (induction conditions arbitrary: bs)
  case (Cons p conditions)
  obtain i c where p: "p = (i, c)" by fastforce
  show ?case
  proof (cases "evaluate_expression table_name (ce_expression c) ctx")
    case (Ok v)
    then show ?thesis using Cons by (cases v) (auto simp: p list_all2_Cons1)
  qed (auto simp: p list_all2_Cons1)
qed auto

lemma matched_conditions:
  assumes "evaluate_conditions table_name (cdr_id row) (cdr_conditions row) ctx = Ok bs"
  shows "is_match bs \<longleftrightarrow> row_matches table_name ctx row"
proof -
  have "list_all2 (\<lambda>(i, c) (i', b). i' = i \<and> evaluate_expression table_name (ce_expression c) ctx = Ok (VBool b))
      (cdr_conditions row) bs" using assms by (simp only: evaluate_conditions_Ok)
  then show ?thesis unfolding is_match_def row_matches_def by (induction rule: list_all2_induct) auto
qed

lemma evaluate_rows_Ok:
  "evaluate_rows table_name rows ctx = Ok (matched, traces) \<Longrightarrow>
   matched = filter (row_matches table_name ctx) rows \<and>
   list_all2 (\<lambda>row trace. ct_row_id trace = cdr_id row \<and>
     evaluate_conditions table_name (cdr_id row) (cdr_conditions row) ctx = Ok (ct_conditions trace)) rows traces"
proof (induction rows arbitrary: matched traces)
  case (Cons row rows)
  then show ?case using matched_conditions by (auto simp: row_trace_def)
qed simp

definition boolean_condition :: "type_map \<Rightarrow> type_map \<Rightarrow> checked_expr \<Rightarrow> bool" where
  "boolean_condition inputs declared c \<longleftrightarrow>
     (\<exists>source. accepted inputs declared source c) \<and> ce_type c = Concrete TBool"

lemma conditions_settle:
  assumes "list_all (\<lambda>(_, c). boolean_condition inputs declared c) conditions"
    "context_typed ctx inputs"
  shows "settles table_name (\<lambda>_. True) (evaluate_conditions table_name rid conditions ctx)"
  using assms(1)
proof (induction conditions)
  case (Cons p conditions)
  obtain i c where p: "p = (i, c)" by fastforce
  have "settles table_name (\<lambda>v. \<exists>b. v = VBool b) (evaluate_expression table_name (ce_expression c) ctx)"
    using Cons.prems accepted_settles[OF _ assms(2), of declared _ c table_name] p
    by (auto simp: boolean_condition_def elim!: settles_mono)
  then show ?case using Cons by (auto simp: p intro!: settles_bind settles_map)
qed simp

lemma rows_settle:
  assumes "list_all (\<lambda>row. list_all (\<lambda>(_, c). boolean_condition inputs declared c)
      (cdr_conditions row)) rows" "context_typed ctx inputs"
  shows "settles table_name (\<lambda>_. True) (evaluate_rows table_name rows ctx)"
  using assms(1)
proof (induction rows)
  case (Cons row rows)
  then show ?case
    using conditions_settle[OF _ assms(2)] by (auto intro!: settles_bind settles_map)
qed simp

lemma compiled_rows_typed:
  assumes "table_compiled ext declared defn table"
  shows "list_all (\<lambda>row. list_all (\<lambda>(_, c). boolean_condition (cdt_inputs table) declared c) (cdr_conditions row)) (cdt_rows table)"
proof -
  have cells: "list_all (\<lambda>(_, c). boolean_condition inputs declared c) compiled"
    if "list_all2 (condition_compiled inputs declared) cells compiled" for inputs cells compiled
    using that by (induction rule: list_all2_induct) (auto simp: condition_compiled_def boolean_condition_def)
  have "list_all2 (row_compiled ext defn declared) (dt_rows defn) (cdt_rows table)" "cdt_inputs table = dt_inputs defn"
    using assms by (auto simp: table_compiled_def)
  then show ?thesis
    by (induction rule: list_all2_induct) (auto simp: row_compiled_def intro: cells)
qed

text \<open>The default row matches every input.\<close>

lemma true_literal_value: "is_true_literal e \<Longrightarrow> evaluate_expression table_name e ctx = Ok (VBool True)"
  by (cases e rule: is_true_literal.cases) auto

lemma default_row_matches:
  assumes "is_default_row inputs row" "distinct (bt_keys (cdr_conditions row))"
    "set (bt_keys (cdr_conditions row)) \<subseteq> set (bt_keys inputs)"
  shows "row_matches table_name ctx row"
proof -
  have "evaluate_expression table_name (ce_expression c) ctx = Ok (VBool True)"
    if "(i, c) \<in> set (cdr_conditions row)" for i c
  proof -
    have "bt_get (cdr_conditions row) i = Some c" using that assms(2) by simp
    moreover have "i \<in> set (bt_keys inputs)" using that assms(3) by force
    ultimately show ?thesis
      using assms(1) true_literal_value by (fastforce simp: is_default_row_def list_all_iff)
  qed
  then show ?thesis by (auto simp: row_matches_def list_all_iff)
qed

text \<open>The maps of a definition are maps, and its declared types are well formed.\<close>

definition table_wf :: "decision_table_definition \<Rightarrow> bool" where
  "table_wf defn \<longleftrightarrow> bt_wf (dt_inputs defn) \<and> list_all (\<lambda>(_, t). type_wf t) (dt_inputs defn) \<and>
     list_all (\<lambda>row. bt_wf (row_when row)) (dt_rows defn)"

lemma first_policy_matches:
  assumes "table_compiled ext declared defn table" "table_wf defn" "cdt_hit_policy table = First"
  shows "filter (row_matches table_name ctx) (cdt_rows table) \<noteq> []"
proof -
  have rows: "list_all2 (row_compiled ext defn declared) (dt_rows defn) (cdt_rows table)"
    and default: "has_default_row (dt_inputs defn) (cdt_rows table)"
    using assms(1,3) by (auto simp: table_compiled_def)
  let ?row = "last (cdt_rows table)"
  have ne: "cdt_rows table \<noteq> []" "is_default_row (dt_inputs defn) ?row" using default by (auto simp: has_default_row_def)
  obtain i where i: "i < length (cdt_rows table)" "?row = cdt_rows table ! i"
    using ne(1) by (metis in_set_conv_nth last_in_set)
  then have c: "row_compiled ext defn declared (dt_rows defn ! i) ?row" "bt_wf (row_when (dt_rows defn ! i))"
    using rows assms(2) by (auto simp: list_all2_conv_all_nth table_wf_def list_all_length)
  have keys: "bt_keys (cdr_conditions ?row) = bt_keys (row_when (dt_rows defn ! i))"
    using c(1) by (auto simp: row_compiled_def condition_compiled_def list_all2_conv_all_nth intro!: nth_equalityI)
  have "row_matches table_name ctx ?row"
  proof (rule default_row_matches[OF ne(2)])
    show "distinct (bt_keys (cdr_conditions ?row))" using keys bt_wf_distinct[OF c(2)] by simp
    show "set (bt_keys (cdr_conditions ?row)) \<subseteq> set (bt_keys (dt_inputs defn))"
      using keys c(1) by (simp add: row_compiled_def)
  qed
  then show ?thesis using last_in_set[OF ne(1)] by (auto simp: filter_empty_conv)
qed

text \<open>A result that the table's meaning allows, with the trace of the whole evaluation.\<close>

definition trace_complete ::
  "compiled_decision_table \<Rightarrow> eval_context \<Rightarrow> string option \<Rightarrow> decision_rejection option \<Rightarrow> decision_trace \<Rightarrow> bool" where
  "trace_complete table ctx matched_id rejection tr \<longleftrightarrow>
     tr_table_name tr = cdt_name table \<and> tr_table_revision tr = cdt_revision table \<and>
     tr_matched_row_id tr = matched_id \<and> tr_rejection tr = rejection \<and>
     list_all2 (\<lambda>row trace. ct_row_id trace = cdr_id row \<and>
       list_all2 (\<lambda>(i, c) (i', b). i' = i \<and> evaluate_expression (cdt_name table) (ce_expression c) ctx = Ok (VBool b))
         (cdr_conditions row) (ct_conditions trace)) (cdt_rows table) (tr_condition_results tr)"

definition conforms :: "compiled_decision_table \<Rightarrow> eval_context \<Rightarrow> (decision_result, rule_error) result \<Rightarrow> bool" where
  "conforms table ctx r \<longleftrightarrow>
     (let verdict = verdict_of (cdt_hit_policy table) (row_matches (cdt_name table) ctx) (cdt_rows table) in
      case r of
        Ok d \<Rightarrow> (\<exists>row. verdict = Chosen row \<and> dr_output d = cdr_output row \<and> dr_matched_row_id d = cdr_id row \<and>
          trace_complete table ctx (Some (cdr_id row)) None (dr_trace d))
      | Err (DecisionNoMatch name tr) \<Rightarrow> cdt_hit_policy table = Unique \<and> name = cdt_name table \<and>
          verdict = NoneMatched \<and> trace_complete table ctx None (Some RejectNoMatch) tr
      | Err (DecisionMultipleMatches name ids tr) \<Rightarrow> cdt_hit_policy table = Unique \<and> name = cdt_name table \<and>
          (\<exists>rows. verdict = Ambiguous rows \<and> ids = map cdr_id rows) \<and>
          trace_complete table ctx None (Some RejectMultipleMatches) tr
      | Err e \<Rightarrow> runtime_error (cdt_name table) e)"

lemma conforms_Ok: "conforms table ctx (Ok d) \<longleftrightarrow>
    (\<exists>row. verdict_of (cdt_hit_policy table) (row_matches (cdt_name table) ctx) (cdt_rows table) = Chosen row \<and>
      dr_output d = cdr_output row \<and> dr_matched_row_id d = cdr_id row \<and>
      trace_complete table ctx (Some (cdr_id row)) None (dr_trace d))"
  by (simp add: conforms_def)

lemma conforms_runtime: "runtime_error (cdt_name table) e \<Longrightarrow> conforms table ctx (Err e)"
  by (auto simp: conforms_def runtime_error_def arithmetic_overflow_def)

lemma decision_trace_complete:
  assumes "decision_trace_of ext table matched_id rejection traces ctx = Some tr"
    "evaluate_rows (cdt_name table) (cdt_rows table) ctx = Ok (matched, traces)"
  shows "trace_complete table ctx matched_id rejection tr"
  using assms(1) evaluate_rows_Ok[OF assms(2)]
  by (auto simp: decision_trace_of_def trace_complete_def evaluate_conditions_Ok)

lemma select_row_conforms:
  assumes t: "table_compiled ext declared defn table" "table_wf defn"
    and r: "evaluate_rows (cdt_name table) (cdt_rows table) ctx = Ok (matched, traces)"
    and s: "select_row ext' table matched traces ctx = Some res"
  shows "case res of
      Ok row \<Rightarrow> verdict_of (cdt_hit_policy table) (row_matches (cdt_name table) ctx) (cdt_rows table) = Chosen row
    | Err e \<Rightarrow> conforms table ctx (Err e)"
proof -
  have m: "matched = filter (row_matches (cdt_name table) ctx) (cdt_rows table)" using evaluate_rows_Ok[OF r] by simp
  have p: "cdt_hit_policy table \<in> {First, Unique}" using t(1) by (auto simp: table_compiled_def)
  have ne: "cdt_hit_policy table = First \<Longrightarrow> matched \<noteq> []" using first_policy_matches[OF t] m by simp
  note trace = decision_trace_complete[OF _ r]
  show ?thesis
    using p ne s trace unfolding m select_row_def
    by (auto simp: verdict_of_def conforms_def split: list.splits if_splits)
qed

lemma decision_conforms:
  assumes t: "table_compiled ext declared defn table" "table_wf defn"
    and ctx: "decode_bindings ext' (cdt_inputs table) bindings = Ok ctx" "list_all (\<lambda>(_, v). timestamps_canonical v) ctx"
    and res: "evaluate_decision_table ext' table bindings = Some res"
  shows "conforms table ctx res"
proof -
  have "context_typed ctx (cdt_inputs table)"
    using decode_entries_typed ctx t by (auto simp: decode_bindings_Ok table_compiled_def table_wf_def)
  note settled = rows_settle[OF compiled_rows_typed[OF t(1)] this, of "cdt_name table"]
  show ?thesis
  proof (cases "evaluate_rows (cdt_name table) (cdt_rows table) ctx")
    case (Err e)
    then show ?thesis using settled res ctx(1) by (auto simp: evaluate_decision_table_def conforms_runtime)
  next
    case (Ok p)
    obtain matched traces where p: "p = (matched, traces)" by fastforce
    note rows = Ok[unfolded p]
    obtain sel where sel: "select_row ext' table matched traces ctx = Some sel"
      using res ctx(1) rows by (cases "select_row ext' table matched traces ctx") (auto simp: evaluate_decision_table_def)
    note c = select_row_conforms[OF t rows sel]
    show ?thesis
    proof (cases sel)
      case (Err e)
      then show ?thesis using c res ctx(1) rows sel by (simp add: evaluate_decision_table_def)
    next
      case (Ok row)
      then obtain tr where tr: "decision_trace_of ext' table (Some (cdr_id row)) None traces ctx = Some tr"
        using res ctx(1) rows sel by (auto simp: evaluate_decision_table_def unpanic_def split: option.splits
            intro: option.exhaust[of "decision_trace_of ext' table (Some (cdr_id row)) None traces ctx"])
      then show ?thesis
        using c res ctx(1) rows sel Ok decision_trace_complete[OF tr rows]
        by (auto simp: evaluate_decision_table_def unpanic_def conforms_Ok)
    qed
  qed
qed

section \<open>Compiling a catalog\<close>

text \<open>
  The loops over the rules and over the tables share a contract: refuse a taken name, build the item,
  file it under its name and go on.
\<close>

locale naming_loop =
  fixes loop :: "nat \<Rightarrow> 'd list \<Rightarrow> 's \<Rightarrow> 's run"
    and key :: "'d \<Rightarrow> string"
    and built :: "'d \<Rightarrow> 'c \<Rightarrow> bool"
    and get :: "'s \<Rightarrow> string \<Rightarrow> 'c option"
    and taken :: "'s \<Rightarrow> string \<Rightarrow> bool"
    and put :: "string \<Rightarrow> 'c \<Rightarrow> 's \<Rightarrow> 's"
    and kept :: "'s \<Rightarrow> 'k"
  assumes loop_Nil: "loop i [] s = Some (Ok s)"
    and loop_Cons: "loop i (d # ds) s = Some (Ok s') \<Longrightarrow>
      \<not> taken s (key d) \<and> (\<exists>c. built d c \<and> loop (i + 1) ds (put (key d) c s) = Some (Ok s'))"
    and get_put: "get (put k c s) k' = (if k' = k then Some c else get s k')"
    and taken_put: "taken (put k c s) k' \<longleftrightarrow> k' = k \<or> taken s k'"
    and kept_put: "kept (put k c s) = kept s"
begin

lemma loop_Ok:
  "loop i ds s = Some (Ok s') \<Longrightarrow>
   distinct (map key ds) \<and> (\<forall>d \<in> set ds. \<not> taken s (key d)) \<and> kept s' = kept s \<and>
   (\<forall>d \<in> set ds. \<exists>c. get s' (key d) = Some c \<and> built d c) \<and>
   (\<forall>k. k \<notin> key ` set ds \<longrightarrow> get s' k = get s k)"
proof (induction ds arbitrary: i s)
  case Nil
  then show ?case by (simp add: loop_Nil)
next
  case (Cons d ds)
  from loop_Cons[OF Cons.prems] obtain c where c: "\<not> taken s (key d)" "built d c"
      "loop (i + 1) ds (put (key d) c s) = Some (Ok s')" by blast
  note IH = Cons.IH[OF c(3)]
  then have fresh: "key d \<notin> key ` set ds" by (auto simp: taken_put)
  then have "get s' (key d) = Some c" using IH by (simp add: get_put)
  then show ?case using IH c(1,2) fresh by (auto simp: taken_put get_put kept_put)
qed

lemma loop_taken_None:
  assumes "loop i ds s = Some (Ok s')" "\<And>k. get s k = None"
  shows "get s' k \<noteq> None \<longleftrightarrow> k \<in> key ` set ds"
  using loop_Ok[OF assms(1)] assms(2) by (cases "k \<in> key ` set ds") fastforce+

end

definition rule_compiled :: "type_map \<Rightarrow> rule_definition \<Rightarrow> compiled_rule \<Rightarrow> bool" where
  "rule_compiled declared defn rule \<longleftrightarrow>
     cr_name rule = rd_name defn \<and> cr_bindings rule = rd_bindings defn \<and> cr_result rule = rd_result defn \<and>
     accepted (rd_bindings defn) declared (rd_expression defn) (cr_expression rule) \<and>
     is_assignable (ce_type (cr_expression rule)) (rd_result defn)"

lemma name_taken_simps [simp]:
  "name_taken (catalog\<lparr>cat_rules := bt_insert k r (cat_rules catalog)\<rparr>) n \<longleftrightarrow> n = k \<or> name_taken catalog n"
  "name_taken (catalog\<lparr>cat_decision_tables := bt_insert k t (cat_decision_tables catalog)\<rparr>) n \<longleftrightarrow>
     n = k \<or> name_taken catalog n"
  by (auto simp: name_taken_def bt_contains_def bt_get_insert)

interpretation rules_loop: naming_loop
  "compile_rules ext declared declarations contexts" rd_name "rule_compiled declared"
  "\<lambda>catalog. bt_get (cat_rules catalog)" name_taken
  "\<lambda>k r catalog. catalog\<lparr>cat_rules := bt_insert k r (cat_rules catalog)\<rparr>"
  "\<lambda>catalog. (cat_declared_types catalog, cat_decision_tables catalog)"
  by unfold_locales
     (auto simp: bt_get_insert rule_compiled_def split: if_splits dest!: compile_rule_Ok)

interpretation tables_loop: naming_loop
  "compile_tables ext declared declarations contexts" dt_name "table_compiled ext declared"
  "\<lambda>catalog. bt_get (cat_decision_tables catalog)" name_taken
  "\<lambda>k t catalog. catalog\<lparr>cat_decision_tables := bt_insert k t (cat_decision_tables catalog)\<rparr>"
  "\<lambda>catalog. (cat_declared_types catalog, cat_rules catalog)"
  by unfold_locales
     (auto simp: bt_get_insert split: if_splits dest!: compile_decision_table_Ok)

text \<open>Deriving the revisions changes nothing else.\<close>

lemma derive_revisions:
  assumes "derive_decision_revisions ext catalog = Some catalog'"
  shows "cat_rules catalog' = cat_rules catalog \<and> cat_declared_types catalog' = cat_declared_types catalog \<and>
    (\<forall>name. case bt_get (cat_decision_tables catalog) name of
       None \<Rightarrow> bt_get (cat_decision_tables catalog') name = None
     | Some table \<Rightarrow> \<exists>revision. bt_get (cat_decision_tables catalog') name = Some (table\<lparr>cdt_revision := revision\<rparr>))"
proof -
  from assms obtain tables where c: "catalog' = catalog\<lparr>cat_decision_tables := tables\<rparr>"
    and t: "collect_opt (\<lambda>(name, table).
          map_option (\<lambda>bytes. (name, table\<lparr>cdt_revision := sha256_hex ext bytes\<rparr>))
            (canonical_bytes ext DecisionDefinition (CvDecisionDefinition table))) (cat_decision_tables catalog) = Some tables"
    by (auto simp: derive_decision_revisions_def)
  have "list_all2 (\<lambda>(name, table) (name', table'). name' = name \<and> (\<exists>revision. table' = table\<lparr>cdt_revision := revision\<rparr>))
      (cat_decision_tables catalog) tables"
    using t unfolding collect_opt_Some by (auto elim!: list_all2_mono)
  then have "case bt_get (cat_decision_tables catalog) name of
       None \<Rightarrow> bt_get tables name = None
     | Some table \<Rightarrow> \<exists>revision. bt_get tables name = Some (table\<lparr>cdt_revision := revision\<rparr>)" for name
    by (induction rule: list_all2_induct) (auto split: option.splits)
  moreover have "cat_decision_tables catalog' = tables" "cat_rules catalog' = cat_rules catalog"
    "cat_declared_types catalog' = cat_declared_types catalog" by (simp_all add: c)
  ultimately show ?thesis by (simp only:) simp
qed

lemma table_compiled_revision [simp]:
  "table_compiled ext declared defn (table\<lparr>cdt_revision := revision\<rparr>) = table_compiled ext declared defn table"
  by (simp add: table_compiled_def)

text \<open>What a compiled catalog holds.\<close>

lemma compile_catalog_Ok:
  assumes "compile_catalog_internal ext declared order rules tables rule_contexts condition_contexts = Some (Ok catalog)"
  shows "cat_declared_types catalog = declared \<and> distinct (map rd_name rules @ map dt_name tables) \<and>
    (\<forall>defn \<in> set rules. \<exists>rule. bt_get (cat_rules catalog) (rd_name defn) = Some rule \<and> rule_compiled declared defn rule) \<and>
    (\<forall>defn \<in> set tables. \<exists>table. bt_get (cat_decision_tables catalog) (dt_name defn) = Some table \<and>
       table_compiled ext declared defn table) \<and>
    (\<forall>name. bt_get (cat_rules catalog) name \<noteq> None \<longleftrightarrow> name \<in> rd_name ` set rules) \<and>
    (\<forall>name. bt_get (cat_decision_tables catalog) name \<noteq> None \<longleftrightarrow> name \<in> dt_name ` set tables)"
proof -
  let ?empty = "catalog_default\<lparr>cat_declared_types := declared\<rparr>"
  from assms obtain declarations c1 c2 where
      r: "compile_rules ext declared declarations rule_contexts 0 rules ?empty = Some (Ok c1)"
    and t: "compile_tables ext declared declarations condition_contexts 0 tables c1 = Some (Ok c2)"
    and d: "derive_decision_revisions ext c2 = Some catalog"
    by (auto simp: compile_catalog_internal_def)
  have e: "bt_get (cat_rules ?empty) n = None" "bt_get (cat_decision_tables ?empty) n = None" for n
    by (simp_all add: catalog_default_def)
  note ro = rules_loop.loop_Ok[OF r] and to = tables_loop.loop_Ok[OF t] and de = derive_revisions[OF d]
  have c1: "cat_decision_tables c1 = []" "cat_declared_types c1 = declared"
    using ro by (auto simp: catalog_default_def)
  have c2: "cat_rules c2 = cat_rules c1" "cat_declared_types c2 = declared" using to c1 by auto
  have rules: "bt_get (cat_rules c1) n \<noteq> None \<longleftrightarrow> n \<in> rd_name ` set rules" for n
    using rules_loop.loop_taken_None[OF r e(1)] .
  have tables: "bt_get (cat_decision_tables c2) n \<noteq> None \<longleftrightarrow> n \<in> dt_name ` set tables" for n
    using tables_loop.loop_taken_None[OF t] c1(1) by simp
  have "dt_name defn \<notin> rd_name ` set rules" if "defn \<in> set tables" for defn
    using to that rules[of "dt_name defn"] by (auto simp: name_taken_def bt_contains_def)
  then have "rd_name ` set rules \<inter> dt_name ` set tables = {}" by (force simp: image_iff)
  then have "distinct (map rd_name rules @ map dt_name tables)" using ro to by auto
  moreover have "\<exists>table. bt_get (cat_decision_tables catalog) (dt_name defn) = Some table \<and> table_compiled ext declared defn table"
    if "defn \<in> set tables" for defn
    using that to de by (force split: option.splits)
  moreover have "bt_get (cat_decision_tables catalog) n \<noteq> None \<longleftrightarrow> n \<in> dt_name ` set tables" for n
    using tables[of n] de by (force split: option.splits)
  ultimately show ?thesis using ro de c2 rules by auto
qed

text \<open>The revision of a table does not influence its evaluation.\<close>

lemma evaluate_revision:
  assumes "evaluate_decision_table ext table bindings = Some (Ok d)"
  shows "\<exists>d'. evaluate_decision_table ext (table\<lparr>cdt_revision := revision\<rparr>) bindings = Some (Ok d') \<and>
    dr_output d' = dr_output d \<and> dr_matched_row_id d' = dr_matched_row_id d"
proof -
  let ?t = "table\<lparr>cdt_revision := revision\<rparr>"
  from assms obtain ctx matched traces row tr where
      ctx: "decode_bindings ext (cdt_inputs table) bindings = Ok ctx"
    and rows: "evaluate_rows (cdt_name table) (cdt_rows table) ctx = Ok (matched, traces)"
    and row: "select_row ext table matched traces ctx = Some (Ok row)"
    and tr: "decision_trace_of ext table (Some (cdr_id row)) None traces ctx = Some tr"
    and d: "dr_output d = cdr_output row" "dr_matched_row_id d = cdr_id row"
    by (auto simp: evaluate_decision_table_def split: prod.splits)
  have "select_row ext ?t matched traces ctx = Some (Ok row)"
    using row by (auto simp: select_row_def split: hit_policy.splits list.splits option.splits)
  moreover obtain tr' where "decision_trace_of ext ?t (Some (cdr_id row)) None traces ctx = Some tr'"
    using tr by (auto simp: decision_trace_of_def)
  ultimately show ?thesis using ctx rows d by (simp add: evaluate_decision_table_def unpanic_def)
qed

definition test_case_passes :: "externs \<Rightarrow> rule_catalog \<Rightarrow> string \<Rightarrow> decision_test_case \<Rightarrow> bool" where
  "test_case_passes ext catalog table c \<longleftrightarrow>
     (\<exists>input d. dtc_input c = JObject input \<and>
        evaluate_decision ext catalog table (bt_collect input) = Some (Ok d) \<and>
        json_eq (dr_output d) (dtc_expect_output c) \<and> dr_matched_row_id d = dtc_expect_row c)"

lemma validate_test_case_Ok: "validate_test_case ext catalog table c = Some (Ok u) \<Longrightarrow> test_case_passes ext catalog table c"
  by (auto simp: validate_test_case_def test_case_passes_def Let_def split: json.splits if_splits)

lemma validate_test_cases_Ok:
  "validate_test_cases ext catalog table cs = Some (Ok u) \<Longrightarrow> list_all (test_case_passes ext catalog table) cs"
  by (induction cs) (auto dest: validate_test_case_Ok)

lemma validate_decision_test_cases_Ok:
  "validate_decision_test_cases ext catalog defns = Some (Ok u) \<Longrightarrow>
   list_all (\<lambda>defn. list_all (test_case_passes ext catalog (dt_name defn)) (dt_test_cases defn)) defns"
  by (induction defns) (auto dest: validate_test_cases_Ok)

lemma test_case_revisions:
  assumes "test_case_passes ext catalog table c" "derive_decision_revisions ext catalog = Some catalog'"
  shows "test_case_passes ext catalog' table c"
proof -
  from assms(1) obtain input d t where i: "dtc_input c = JObject input"
    and t: "bt_get (cat_decision_tables catalog) table = Some t"
      "evaluate_decision_table ext t (bt_collect input) = Some (Ok d)"
    and d: "json_eq (dr_output d) (dtc_expect_output c)" "dr_matched_row_id d = dtc_expect_row c"
    by (auto simp: test_case_passes_def evaluate_decision_def)
  obtain revision where "bt_get (cat_decision_tables catalog') table = Some (t\<lparr>cdt_revision := revision\<rparr>)"
    using derive_revisions[OF assms(2)] t(1) by (force split: option.splits)
  then show ?thesis
    using evaluate_revision[OF t(2), of revision] i d by (auto simp: test_case_passes_def evaluate_decision_def)
qed

section \<open>Evaluating a compiled rule\<close>

lemma rule_value_settles:
  assumes r: "rule_compiled declared defn rule" and wf: "list_all (\<lambda>(_, t). type_wf t) (rd_bindings defn)"
    and ctx: "decode_bindings ext (rd_bindings defn) bindings = Ok ctx" "list_all (\<lambda>(_, v). timestamps_canonical v) ctx"
  shows "settles (rd_name defn) (\<lambda>v. erv_type v = rd_result defn \<and> has_type (erv_value v) (rd_result defn))
    (evaluate_runtime_value ext rule bindings)"
proof -
  have "context_typed ctx (rd_bindings defn)" using decode_entries_typed ctx wf by (auto simp: decode_bindings_Ok)
  from accepted_settles[OF _ this, of declared _ "cr_expression rule" "rd_name defn"] show ?thesis
    using r ctx(1) assignable_value
    by (auto simp: evaluate_runtime_value_def rule_compiled_def intro!: settles_map)
qed

section \<open>A concrete catalog\<close>

definition sample_rule :: rule_definition where
  "sample_rule = \<lparr>rd_name = ''adult'', rd_bindings = [(''age'', TInt)], rd_result = TBool,
     rd_expression = ''age >= 18''\<rparr>"

definition sample_row :: "string \<Rightarrow> string \<Rightarrow> string \<Rightarrow> decision_row" where
  "sample_row name condition tier = \<lparr>row_id = name, row_description = None,
     row_when = [(''score'', condition)], row_output = JObject [(''tier'', JString tier)]\<rparr>"

definition sample_table :: "hit_policy \<Rightarrow> decision_table_definition" where
  "sample_table policy = \<lparr>dt_name = ''tiers'', dt_revision = [], dt_inputs = [(''score'', TInt)],
     dt_output = [(''tier'', TStr)], dt_hit_policy = policy,
     dt_rows = [sample_row ''high'' ''score >= 7'' ''gold'', sample_row ''rest'' ''true'' ''basic''],
     dt_test_cases = [\<lparr>dtc_name = ''low'', dtc_input = JObject [(''score'', JNumber ''3'')],
       dtc_expect_output = JObject [(''tier'', JString ''basic'')], dtc_expect_row = ''rest''\<rparr>]\<rparr>"

abbreviation sample_compilation :: "rule_catalog run" where
  "sample_compilation \<equiv>
     compile_catalog_internal text_externs [] None [sample_rule] [sample_table First] None None"

lemma sample_compiles:
  "case sample_compilation of Some (Ok catalog) \<Rightarrow>
     (case evaluate_decision text_externs catalog ''tiers'' [(''score'', JNumber ''9'')] of
        Some (Ok d) \<Rightarrow> dr_matched_row_id d = ''high'' | _ \<Rightarrow> False) \<and>
     catalog_rule catalog ''adult'' \<noteq> None
   | _ \<Rightarrow> False"
  by code_simp
lemma btree_keys: "set (bt_keys m) = {k. bt_get m k \<noteq> None}"
  by (auto simp: map_of_eq_None_iff)

lemma run_caseE:
  "(case r of Some (Ok x) \<Rightarrow> Q x | _ \<Rightarrow> False) \<Longrightarrow> (\<And>x. r = Some (Ok x) \<Longrightarrow> Q x \<Longrightarrow> thesis) \<Longrightarrow> thesis"
  by (cases r) (auto split: result.splits)

lemma sample_rule_fields:
  "rd_name sample_rule = ''adult''" "rd_result sample_rule = TBool" "rd_bindings sample_rule = [(''age'', TInt)]"
  by (simp_all add: sample_rule_def)

section \<open>Properties\<close>

text \<open>
  A compiled catalog holds exactly its definitions: the names of rules and tables are pairwise
  distinct, each definition is found under its name in compiled form, and nothing else is there. The
  compiled form of a rule is its parsed expression, accepted by the checker at a type assignable to
  the declared result.
\<close>

theorem catalog_holds_its_definitions:
  assumes "compile_catalog_internal ext declared order rules tables rule_contexts condition_contexts = Some (Ok catalog)"
  shows "distinct (map rd_name rules @ map dt_name tables) \<and>
    set (bt_keys (cat_rules catalog)) = set (map rd_name rules) \<and>
    set (bt_keys (cat_decision_tables catalog)) = set (map dt_name tables) \<and>
    (\<forall>defn \<in> set rules. \<exists>rule. catalog_rule catalog (rd_name defn) = Some rule \<and> rule_compiled declared defn rule) \<and>
    (\<forall>defn \<in> set tables. \<exists>table. catalog_decision_table catalog (dt_name defn) = Some table \<and>
       table_compiled ext declared defn table)"
  using compile_catalog_Ok[OF assms] btree_keys[of "cat_rules catalog"] btree_keys[of "cat_decision_tables catalog"]
  by (auto simp: catalog_rule_def catalog_decision_table_def)

theorem catalog_holds_its_definitions_witness:
  "\<exists>catalog. sample_compilation = Some (Ok catalog) \<and> set (bt_keys (cat_rules catalog)) = {''adult''} \<and>
     set (bt_keys (cat_decision_tables catalog)) = {''tiers''}"
proof -
  obtain catalog where c: "sample_compilation = Some (Ok catalog)"
    using sample_compiles by (auto split: option.splits result.splits)
  show ?thesis using catalog_holds_its_definitions[OF c] c by (auto simp: sample_rule_def sample_table_def)
qed

text \<open>
  (C19) A compiled catalog passes the test cases of its own decision tables: evaluating the published
  table on the input of a test case selects the expected row and returns the expected output.
\<close>

theorem catalog_passes_its_test_cases:
  assumes "compile_catalog_internal ext declared order rules tables rule_contexts condition_contexts = Some (Ok catalog)"
    and "defn \<in> set tables" "c \<in> set (dt_test_cases defn)"
  shows "\<exists>input d. dtc_input c = JObject input \<and>
    evaluate_decision ext catalog (dt_name defn) (bt_collect input) = Some (Ok d) \<and>
    json_eq (dr_output d) (dtc_expect_output c) \<and> dr_matched_row_id d = dtc_expect_row c"
proof -
  from assms(1) obtain c2 where v: "validate_decision_test_cases ext c2 tables = Some (Ok ())"
    and d: "derive_decision_revisions ext c2 = Some catalog"
    by (auto simp: compile_catalog_internal_def)
  have "test_case_passes ext c2 (dt_name defn) c"
    using validate_decision_test_cases_Ok[OF v] assms(2,3) by (auto simp: list_all_iff)
  from test_case_revisions[OF this d] show ?thesis by (simp add: test_case_passes_def)
qed

theorem catalog_passes_its_test_cases_witness:
  "\<exists>catalog d. sample_compilation = Some (Ok catalog) \<and>
     evaluate_decision text_externs catalog ''tiers'' (bt_collect [(''score'', JNumber ''3'')]) = Some (Ok d) \<and>
     dr_matched_row_id d = ''rest''"
proof -
  obtain catalog where c: "sample_compilation = Some (Ok catalog)"
    using sample_compiles by (auto split: option.splits result.splits)
  show ?thesis
    using catalog_passes_its_test_cases[OF c, of "sample_table First" "hd (dt_test_cases (sample_table First))"] c
    by (auto simp: sample_table_def)
qed



text \<open>
  A boolean rule of a compiled catalog, evaluated on decoded inputs, returns a truth value or one
  of the two arithmetic errors; it is never reported as having the wrong result type.
\<close>

theorem compiled_condition_decides:
  assumes "compile_catalog_internal ext declared order rules tables rule_contexts condition_contexts = Some (Ok catalog)"
    and "defn \<in> set rules" "catalog_rule catalog (rd_name defn) = Some rule" "rd_result defn = TBool"
    and "list_all (\<lambda>(_, t). type_wf t) (rd_bindings defn)"
    and "decode_bindings ext (cr_bindings rule) bindings = Ok ctx" "list_all (\<lambda>(_, v). timestamps_canonical v) ctx"
  shows "(\<exists>b. evaluate_bool ext rule bindings = Ok b) \<or>
    evaluate_bool ext rule bindings = Err (DivisionByZero (rd_name defn)) \<or>
    evaluate_bool ext rule bindings = Err (arithmetic_overflow (rd_name defn))"
proof -
  have r: "rule_compiled declared defn rule"
    using compile_catalog_Ok[OF assms(1)] assms(2,3) by (auto simp: catalog_rule_def)
  then have n: "cr_name rule = rd_name defn" "cr_bindings rule = rd_bindings defn" by (auto simp: rule_compiled_def)
  note s = rule_value_settles[OF r assms(5) assms(6)[unfolded n] assms(7)]
  show ?thesis
    using s assms(4) by (cases "evaluate_runtime_value ext rule bindings") (auto simp: evaluate_bool_def runtime_error_def)
qed

theorem compiled_condition_decides_witness:
  "\<exists>catalog rule. sample_compilation = Some (Ok catalog) \<and> catalog_rule catalog ''adult'' = Some rule \<and>
     ((\<exists>b. evaluate_bool text_externs rule [(''age'', JNumber ''21'')] = Ok b) \<or>
      evaluate_bool text_externs rule [(''age'', JNumber ''21'')] = Err (DivisionByZero ''adult'') \<or>
      evaluate_bool text_externs rule [(''age'', JNumber ''21'')] = Err (arithmetic_overflow ''adult''))"
proof -
  obtain catalog where c: "sample_compilation = Some (Ok catalog)"
    using sample_compiles by (auto split: option.splits result.splits)
  have d: "decode_bindings text_externs [(''age'', TInt)] [(''age'', JNumber ''21'')] = Ok [(''age'', VInt 21)]"
    by code_simp
  obtain rule where r: "catalog_rule catalog ''adult'' = Some rule" "cr_bindings rule = [(''age'', TInt)]"
    using compile_catalog_Ok[OF c] by (auto simp: catalog_rule_def rule_compiled_def sample_rule_def)
  have "(\<exists>b. evaluate_bool text_externs rule [(''age'', JNumber ''21'')] = Ok b) \<or>
      evaluate_bool text_externs rule [(''age'', JNumber ''21'')] = Err (DivisionByZero (rd_name sample_rule)) \<or>
      evaluate_bool text_externs rule [(''age'', JNumber ''21'')] = Err (arithmetic_overflow (rd_name sample_rule))"
    by (rule compiled_condition_decides[OF c]) (use r d in \<open>auto simp: sample_rule_def\<close>)
  then show ?thesis using c r by (auto simp: sample_rule_def)
qed





lemma condition_compiled_keys:
  "list_all2 (condition_compiled inputs declared) cells compiled \<Longrightarrow> bt_keys compiled = bt_keys cells"
  by (induction rule: list_all2_induct) (auto simp: condition_compiled_def)

lemma row_compiled_form:
  assumes "row_compiled ext defn declared row compiled"
  shows "list_all2 (condition_compiled (dt_inputs defn) declared) (row_when row) (cdr_conditions compiled) \<and>
      set (bt_keys (cdr_conditions compiled)) = set (bt_keys (dt_inputs defn)) \<and>
      (\<exists>output. cdr_output compiled = JObject output \<and> set (map fst output) = set (bt_keys (dt_output defn)) \<and>
         list_all (\<lambda>(f, t). \<exists>v x. map_of output f = Some v \<and> decode_value ext v t = Some x) (dt_output defn))"
proof -
  have a: "list_all2 (condition_compiled (dt_inputs defn) declared) (row_when row) (cdr_conditions compiled)"
    and b: "set (bt_keys (row_when row)) = set (bt_keys (dt_inputs defn))" "cdr_output compiled = row_output row"
    and c: "\<exists>output. row_output row = JObject output \<and> set (map fst output) = set (bt_keys (dt_output defn)) \<and>
        list_all (\<lambda>(f, t). \<exists>v x. map_of output f = Some v \<and> decode_value ext v t = Some x) (dt_output defn)"
    using assms unfolding row_compiled_def by blast+
  show ?thesis
    by (intro conjI) (fact a, simp only: condition_compiled_keys[OF a] b(1), simp only: b(2) c)
qed

text \<open>
  A compiled table is complete and unambiguous in form: its rows are the rows of the definition in
  order, with distinct non-empty identifiers; each row has exactly one boolean condition per input,
  accepted by the checker over the declared inputs, and an output object with exactly the declared
  fields, each of which decodes at its declared type. A table with policy \<open>first\<close> ends in a row that is
  true for every input.
\<close>

theorem compiled_table_form:
  assumes "compile_decision_table ext defn declared declarations contexts = Some (Ok table)"
  shows "map cdr_id (cdt_rows table) = map row_id (dt_rows defn) \<and> distinct (map cdr_id (cdt_rows table)) \<and>
    list_all2 (\<lambda>row compiled.
      list_all2 (condition_compiled (dt_inputs defn) declared) (row_when row) (cdr_conditions compiled) \<and>
      set (bt_keys (cdr_conditions compiled)) = set (bt_keys (dt_inputs defn)) \<and>
      (\<exists>output. cdr_output compiled = JObject output \<and> set (map fst output) = set (bt_keys (dt_output defn)) \<and>
         list_all (\<lambda>(f, t). \<exists>v x. map_of output f = Some v \<and> decode_value ext v t = Some x) (dt_output defn)))
      (dt_rows defn) (cdt_rows table) \<and>
    (dt_hit_policy defn = First \<longrightarrow> has_default_row (dt_inputs defn) (cdt_rows table))"
proof -
  have t: "table_compiled ext declared defn table" by (rule compile_decision_table_Ok[OF assms])
  then have rows: "list_all2 (row_compiled ext defn declared) (dt_rows defn) (cdt_rows table)" by (simp add: table_compiled_def)
  have ids: "map cdr_id (cdt_rows table) = map row_id (dt_rows defn)"
    using rows by (induction rule: list_all2_induct) (auto simp: row_compiled_def)
  have distinct: "distinct (map cdr_id (cdt_rows table))" using t ids by (simp add: table_compiled_def)
  have default: "dt_hit_policy defn = First \<longrightarrow> has_default_row (dt_inputs defn) (cdt_rows table)"
    using t by (simp add: table_compiled_def)
  show ?thesis
    by (intro conjI) (fact ids, fact distinct, rule list_all2_mono[OF rows row_compiled_form], assumption, fact default)
qed

theorem compiled_table_form_witness:
  "\<exists>table. compile_decision_table text_externs (sample_table First) [] [] None = Some (Ok table) \<and>
     map cdr_id (cdt_rows table) = [''high'', ''rest''] \<and> has_default_row [(''score'', TInt)] (cdt_rows table)"
proof -
  have "case compile_decision_table text_externs (sample_table First) [] [] None of
      Some (Ok table) \<Rightarrow> True | _ \<Rightarrow> False" by code_simp
  then obtain table where t: "compile_decision_table text_externs (sample_table First) [] [] None = Some (Ok table)"
    by (auto split: option.splits result.splits)
  show ?thesis using compiled_table_form[OF t] t by (auto simp: sample_table_def sample_row_def)
qed

end
