(* ===== verification/Rules_Encoding.thy ===== *)
theory Rules_Encoding
  imports Rules_Decisions
begin

text \<open>
  The canonical byte records determine what they encode. Every encoder is a prefix code on the values
  it is used for (locale \<open>prefix_code\<close>): from the concatenation of records, each value and the rest of
  the bytes are recovered. So two types, or two decoded inputs of a table, with the same bytes are the
  same, and the digests computed from them identify them as far as the digest does.
\<close>

section \<open>Prefix codes\<close>

text \<open>Decoding a sequence whose elements decode up to a relation.\<close>

lemma decode_sequence:
  "length xs = length ys \<Longrightarrow> collect_opt enc xs = Some us \<Longrightarrow> collect_opt enc' ys = Some vs \<Longrightarrow>
   concat us @ r = concat vs @ s \<Longrightarrow>
   (\<And>x y a b r s. x \<in> set xs \<Longrightarrow> y \<in> set ys \<Longrightarrow> enc x = Some a \<Longrightarrow> enc' y = Some b \<Longrightarrow> a @ r = b @ s \<Longrightarrow> R x y \<and> r = s) \<Longrightarrow>
   list_all2 R xs ys \<and> r = s"
proof (induction xs ys arbitrary: us vs rule: list_induct2)
  case (Cons x xs y ys)
  then obtain a us' b vs' where u: "us = a # us'" "enc x = Some a" "collect_opt enc xs = Some us'"
    and v: "vs = b # vs'" "enc' y = Some b" "collect_opt enc' ys = Some vs'"
    by (auto simp: bind_eq_Some_conv)
  have cat: "a @ concat us' @ r = b @ concat vs' @ s" using Cons.prems(3) u(1) v(1) by simp
  have "R x y \<and> concat us' @ r = concat vs' @ s" using Cons.prems(4)[OF _ _ u(2) v(2) cat] by simp
  moreover have "list_all2 R xs ys \<and> r = s" if "concat us' @ r = concat vs' @ s"
    by (rule Cons.IH[OF u(3) v(3) that]) (rule Cons.prems(4), auto)
  ultimately show ?case by simp
qed simp

locale prefix_code =
  fixes valid :: "'a \<Rightarrow> bool"
    and enc :: "'a \<Rightarrow> string option"
  assumes decode: "valid x \<Longrightarrow> valid y \<Longrightarrow> enc x = Some a \<Longrightarrow> enc y = Some b \<Longrightarrow> a @ r = b @ s \<Longrightarrow> x = y"
begin

lemma rest: "valid x \<Longrightarrow> valid y \<Longrightarrow> enc x = Some a \<Longrightarrow> enc y = Some b \<Longrightarrow> a @ r = b @ s \<Longrightarrow> r = s"
  using decode[of x y a b r s] by auto

lemma injective: "valid x \<Longrightarrow> valid y \<Longrightarrow> enc x = Some a \<Longrightarrow> enc y = Some a \<Longrightarrow> x = y"
  using decode[of x y a a "[]" "[]"] by simp

lemma decode_list:
  assumes "length xs = length ys" "list_all valid xs" "list_all valid ys"
    and "collect_opt enc xs = Some us" "collect_opt enc ys = Some vs" "concat us @ r = concat vs @ s"
  shows "xs = ys \<and> r = s"
proof -
  have "list_all2 (=) xs ys \<and> r = s"
  proof (rule decode_sequence[OF assms(1,4,5,6)])
    fix x y a b r s
    assume "x \<in> set xs" "y \<in> set ys" and e: "enc x = Some a" "enc y = Some b" "a @ r = b @ s"
    then have "valid x" "valid y" using assms(2,3) by (auto simp: list_all_iff)
    then show "x = y \<and> r = s" using decode[OF _ _ e] rest[OF _ _ e] by simp
  qed
  then show ?thesis by (simp add: list_all2_eq)
qed

end

section \<open>Sequences of records\<close>

lemma emit_Nil [simp]: "emit [] = Some []"
  by (simp add: emit_def)

lemma emit_Cons: "emit (p # ps) = Option.bind p (\<lambda>a. map_option (\<lambda>u. a @ u) (emit ps))"
  by (cases p) (auto simp: emit_def option.map_comp comp_def)

lemma emit_Cons_Some [simp]:
  "emit (p # ps) = Some w \<longleftrightarrow> (\<exists>a u. p = Some a \<and> emit ps = Some u \<and> w = a @ u)"
  by (auto simp: emit_Cons bind_eq_Some_conv)

lemma emit_append: "emit (ps @ qs) = Some w \<longleftrightarrow> (\<exists>a u. emit ps = Some a \<and> emit qs = Some u \<and> w = a @ u)"
  by (induction ps arbitrary: w) auto

lemma emit_map: "emit (map f xs) = Some w \<longleftrightarrow> (\<exists>us. collect_opt f xs = Some us \<and> w = concat us)"
  by (induction xs arbitrary: w) (auto simp: bind_eq_Some_conv)

section \<open>Bytes, counts and strings\<close>

lemma byte_eq [simp]: "m < 256 \<Longrightarrow> n < 256 \<Longrightarrow> byte m @ r = byte n @ s \<longleftrightarrow> m = n \<and> r = s"
proof -
  assume "m < 256" "n < 256"
  then have "char_of m = (char_of n :: char) \<longleftrightarrow> m = n" by (metis of_char_of mod_less)
  then show ?thesis by (simp add: byte_def)
qed

lemma byte_eq_nat: "(char_of (nat (i mod 256)) :: char) = char_of (nat (j mod 256)) \<longleftrightarrow> i mod 256 = j mod 256"
proof -
  have b: "0 \<le> k mod 256" "k mod 256 < 256" for k :: int by simp_all
  have "nat (k mod 256) < 256" for k :: int using b(2)[of k] by linarith
  then have "(char_of (nat (i mod 256)) :: char) = char_of (nat (j mod 256)) \<longleftrightarrow> nat (i mod 256) = nat (j mod 256)"
    by (metis of_char_of mod_less)
  then show ?thesis using b(1) by (metis eq_nat_nat_iff)
qed

lemma base256:
  fixes k :: int
  assumes "0 \<le> k" "k < 4294967296"
  shows "k = ((k div 16777216 mod 256 * 256 + k div 65536 mod 256) * 256 + k div 256 mod 256) * 256 + k mod 256"
proof -
  have d: "k div 65536 = k div 256 div 256" "k div 16777216 = k div 256 div 256 div 256"
    by (simp_all flip: zdiv_zmult2_eq)
  have "k div 16777216 < 256" using assms(2) by (simp add: div_less_iff_less_mult)
  then have top: "k div 16777216 mod 256 = k div 16777216" using assms(1) by (simp add: pos_imp_zdiv_nonneg_iff)
  show ?thesis unfolding top unfolding d by (simp add: mult.commute[of _ 256])
qed

text \<open>A length or count that fits \<open>u32\<close>.\<close>

definition fits :: "nat \<Rightarrow> bool" where
  "fits n \<longleftrightarrow> n \<le> u32_max"

lemma be32_inject:
  assumes "fits m" "fits n" "be32 m = be32 n"
  shows "m = n"
proof -
  let ?i = "int m" and ?j = "int n"
  have digits: "?i mod 256 = ?j mod 256" "?i div 256 mod 256 = ?j div 256 mod 256"
    "?i div 65536 mod 256 = ?j div 65536 mod 256" "?i div 16777216 mod 256 = ?j div 16777216 mod 256"
    using assms(3) unfolding be32_def Let_def by (simp_all only: list.inject byte_eq_nat)
  have b: "0 \<le> ?i" "?i < 4294967296" "0 \<le> ?j" "?j < 4294967296" using assms(1,2) by (auto simp: fits_def)
  have "?i = ?j" by (rule trans[OF base256[OF b(1,2)], unfolded digits, OF base256[OF b(3,4), symmetric]])
  then show ?thesis by simp
qed

lemma length_be32 [simp]: "length (be32 n) = 4"
  by (simp add: be32_def Let_def)

lemma be32_eq [simp]: "fits m \<Longrightarrow> fits n \<Longrightarrow> be32 m = be32 n \<longleftrightarrow> m = n"
  using be32_inject by blast

lemma be32_append: "fits m \<Longrightarrow> fits n \<Longrightarrow> be32 m @ r = be32 n @ s \<longleftrightarrow> m = n \<and> r = s"
  using be32_inject by (auto simp: append_eq_append_conv)

lemma encode_count_Some: "encode_count n = Some a \<longleftrightarrow> fits n \<and> a = be32 n"
  by (auto simp: encode_count_def u32_def fits_def)

interpretation count_code: prefix_code "\<lambda>_. True" encode_count
  by unfold_locales (auto simp: encode_count_Some be32_append)

interpretation string_code: prefix_code "\<lambda>_. True" encode_string
proof unfold_locales
  fix x y a b r s
  assume a: "encode_string x = Some a" and b: "encode_string y = Some b" and cat: "a @ r = b @ s"
  then have "be32 (length x) @ (x @ r) = be32 (length y) @ (y @ s)" "fits (length x)" "fits (length y)"
    by (auto simp: encode_string_def encode_count_Some)
  then show "x = y" by (auto simp: be32_append append_eq_append_conv)
qed

interpretation bool_code: prefix_code "\<lambda>_. True" "\<lambda>b. Some (encode_bool b)"
  by unfold_locales (auto simp: encode_bool_def split: if_splits)

lemma int_to_string_nonempty [simp]: "int_to_string i \<noteq> []"
  by (simp add: int_to_string_def)

lemma encode_decimal_Some:
  assumes "dec_wf d" "encode_decimal d = Some a"
  shows "\<exists>u. encode_string (nat_to_string (nat \<bar>coefficient d\<bar>)) = Some u \<and>
    a = byte (if coefficient d < 0 then 1 else 0) @ u @ be32 (scale d)"
proof -
  have n: "normalized d = d" using assms(1) by (simp add: dec_wf_def normalized_id)
  have "coefficient d = 0 \<Longrightarrow> scale d = 0" using assms(1) by (auto simp: dec_wf_def dec_normal_def)
  moreover have "nat_to_string 0 = ''0''" by (simp add: nat_to_string.simps digit_char_def char_of_eq_iff)
  ultimately show ?thesis using assms(2) by (cases "coefficient d = 0") (auto simp: encode_decimal_def n Let_def)
qed

interpretation decimal_code: prefix_code dec_wf encode_decimal
proof unfold_locales
  fix x y a b r s
  assume v: "dec_wf x" "dec_wf y" and e: "encode_decimal x = Some a" "encode_decimal y = Some b" and cat: "a @ r = b @ s"
  obtain u where u: "encode_string (nat_to_string (nat \<bar>coefficient x\<bar>)) = Some u"
      "a = byte (if coefficient x < 0 then 1 else 0) @ u @ be32 (scale x)" using encode_decimal_Some[OF v(1) e(1)] by blast
  obtain w where w: "encode_string (nat_to_string (nat \<bar>coefficient y\<bar>)) = Some w"
      "b = byte (if coefficient y < 0 then 1 else 0) @ w @ be32 (scale y)" using encode_decimal_Some[OF v(2) e(2)] by blast
  let ?sign = "\<lambda>d :: decimal. if coefficient d < 0 then 1 else 0 :: nat"
  have "byte (?sign x) @ (u @ be32 (scale x) @ r) = byte (?sign y) @ (w @ be32 (scale y) @ s)"
    using cat unfolding u(2) w(2) append_assoc .
  moreover have "?sign d < 256" for d by simp
  ultimately have "?sign x = ?sign y" and cat': "u @ be32 (scale x) @ r = w @ be32 (scale y) @ s"
    by (simp_all only: byte_eq)
  then have sign: "coefficient x < 0 \<longleftrightarrow> coefficient y < 0" by (simp split: if_splits)
  have "\<bar>coefficient x\<bar> = \<bar>coefficient y\<bar>" using string_code.decode[OF _ _ u(1) w(1) cat'] by simp
  then have co: "coefficient x = coefficient y" using sign by (auto simp: abs_if split: if_splits)
  have "be32 (scale x) @ r = be32 (scale y) @ s" using string_code.rest[OF _ _ u(1) w(1) cat'] by simp
  moreover have "fits (scale x)" "fits (scale y)" using v unfolding dec_wf_def fits_def by blast+
  ultimately have "scale x = scale y" using be32_append by blast
  then show "x = y" using co by simp
qed

section \<open>Types\<close>

fun type_tag :: "rule_type \<Rightarrow> nat" where
  "type_tag TBool = 16"
| "type_tag TStr = 17"
| "type_tag TInt = 18"
| "type_tag TDec = 19"
| "type_tag TUuid = 20"
| "type_tag TDate = 21"
| "type_tag TTimestamp = 22"
| "type_tag (TEnum _ _) = 23"
| "type_tag (TList _) = 24"
| "type_tag (TObject _ _) = 25"
| "type_tag (TNullable _) = 26"
| "type_tag (TOpaque _ _ _ _) = 27"
| "type_tag TInt64 = 28"

lemma type_tag_bound [simp]: "type_tag t < 256"
  by (cases t) auto

text \<open>What follows the tag.\<close>

fun type_body :: "rule_type \<Rightarrow> string option" where
  "type_body (TEnum name symbols) = encode_symbols name symbols"
| "type_body (TList t) = encode_type t"
| "type_body (TObject name fs) = emit [encode_string name, encode_type_map fs]"
| "type_body (TNullable t) = encode_type (strip_nullable t)"
| "type_body (TOpaque name b d n) = encode_opaque_type name b d n"
| "type_body _ = Some []"

declare encode_type_map.simps [simp del]

lemma encode_type_Some: "encode_type t = Some a \<longleftrightarrow> (\<exists>u. type_body t = Some u \<and> a = byte (type_tag t) @ u)"
  by (cases t) auto

lemma strip_nullable_wf [simp]: "\<not> accepts_null t \<Longrightarrow> strip_nullable t = t"
  by (cases t) auto

interpretation symbols_code: prefix_code "\<lambda>_. True" "\<lambda>(name, symbols). encode_symbols name symbols"
proof unfold_locales
  fix x y :: "string \<times> string list" and a b r s
  obtain n xs m ys where xy: "x = (n, xs)" "y = (m, ys)" by (cases x; cases y) blast
  assume e: "(case x of (name, symbols) \<Rightarrow> encode_symbols name symbols) = Some a"
    "(case y of (name, symbols) \<Rightarrow> encode_symbols name symbols) = Some b" and cat: "a @ r = b @ s"
  from e xy obtain n' xs' m' ys' where
      n: "encode_string n = Some n'" "fits (length xs)" "collect_opt encode_string xs = Some xs'"
        "a = n' @ be32 (length xs) @ concat xs'"
    and m: "encode_string m = Some m'" "fits (length ys)" "collect_opt encode_string ys = Some ys'"
        "b = m' @ be32 (length ys) @ concat ys'"
    by (auto simp: encode_symbols_def encode_count_Some emit_map)
  have cat': "n' @ be32 (length xs) @ concat xs' @ r = m' @ be32 (length ys) @ concat ys' @ s"
    using cat n(4) m(4) by simp
  have nm: "n = m" using string_code.decode[OF _ _ n(1) m(1) cat'] by simp
  have "be32 (length xs) @ concat xs' @ r = be32 (length ys) @ concat ys' @ s"
    using string_code.rest[OF _ _ n(1) m(1) cat'] by simp
  then have len: "length xs = length ys" "concat xs' @ r = concat ys' @ s" using be32_append n(2) m(2) by auto
  show "x = y" using string_code.decode_list[OF len(1) _ _ n(3) m(3) len(2)] nm xy by (simp add: list_all_iff)
qed

lemma opaque_type_decode:
  assumes "encode_opaque_type n b d k = Some a" "encode_opaque_type n' b' d' k' = Some a'" "a @ r = a' @ s"
    and "fits b" "fits d" "fits k" "fits b'" "fits d'" "fits k'"
  shows "n = n' \<and> b = b' \<and> d = d' \<and> k = k'"
proof -
  from assms(1,2) obtain u u' where u: "encode_string n = Some u" "a = u @ be32 b @ be32 d @ be32 k"
    and u': "encode_string n' = Some u'" "a' = u' @ be32 b' @ be32 d' @ be32 k'"
    by (auto simp: encode_opaque_type_def)
  have cat: "u @ be32 b @ be32 d @ be32 k @ r = u' @ be32 b' @ be32 d' @ be32 k' @ s" using assms(3) u(2) u'(2) by simp
  show ?thesis
    using string_code.decode[OF _ _ u(1) u'(1) cat] string_code.rest[OF _ _ u(1) u'(1) cat] assms(4-)
    by (simp add: be32_append)
qed

text \<open>One field of a type map, and the fields of two maps.\<close>

lemma field_decode:
  assumes "emit [encode_string n, enc x] = Some a" "emit [encode_string m, enc y] = Some b" "a @ r = b @ s"
    and "\<And>u w r s. enc x = Some u \<Longrightarrow> enc y = Some w \<Longrightarrow> u @ r = w @ s \<Longrightarrow> x = y"
  shows "n = m \<and> x = y"
proof -
  from assms(1,2) obtain n' u m' w where n: "encode_string n = Some n'" "enc x = Some u" "a = n' @ u"
    and m: "encode_string m = Some m'" "enc y = Some w" "b = m' @ w" by auto
  have cat: "n' @ u @ r = m' @ w @ s" using assms(3) n(3) m(3) by simp
  show ?thesis
    using string_code.decode[OF _ _ n(1) m(1) cat] string_code.rest[OF _ _ n(1) m(1) cat] assms(4)[OF n(2) m(2)] by simp
qed

lemma type_map_decode:
  assumes "encode_type_map fs = Some a" "encode_type_map gs = Some b" "a @ r = b @ s" "bt_wf fs" "bt_wf gs"
    and "\<And>t t' u w r s. t \<in> snd ` set fs \<Longrightarrow> t' \<in> snd ` set gs \<Longrightarrow> encode_type t = Some u \<Longrightarrow> encode_type t' = Some w \<Longrightarrow> u @ r = w @ s \<Longrightarrow> t = t'"
  shows "fs = gs"
proof -
  let ?enc = "\<lambda>(name, t). emit [encode_string name, encode_type t]"
  have srt: "sort_key fst fs = fs" "sort_key fst gs = gs" using assms(4,5) bt_sort_id by auto
  from assms(1,2) obtain us vs where fs: "fits (length fs)" "collect_opt ?enc fs = Some us" "a = be32 (length fs) @ concat us"
    and gs: "fits (length gs)" "collect_opt ?enc gs = Some vs" "b = be32 (length gs) @ concat vs"
    unfolding encode_type_map.simps srt by (auto simp: encode_count_Some emit_map)
  have len: "length fs = length gs" "concat us @ r = concat vs @ s" using assms(3) fs gs by (simp_all add: be32_append)
  have "p = q \<and> r = s" if pq: "p \<in> set fs" "q \<in> set gs" "?enc p = Some u" "?enc q = Some w" "u @ r = w @ s" for p q u w r s
  proof -
    have "fst p = fst q \<and> snd p = snd q"
      using pq by (intro field_decode[where enc = encode_type and a = u and b = w])
        (auto simp: split_beta intro: assms(6))
    then have "p = q" by (simp add: prod_eq_iff)
    then show ?thesis using pq by simp
  qed
  then have "list_all2 (=) fs gs" using decode_sequence[OF len(1) fs(2) gs(2) len(2), of "(=)"] by blast
  then show ?thesis by (simp add: list_all2_eq)
qed

lemma type_wf_fields: "type_wf (TObject n fs) \<Longrightarrow> t \<in> snd ` set fs \<Longrightarrow> type_wf t"
  by (auto simp: list_all_iff)

lemma type_tag_decode:
  assumes "encode_type t = Some a" "encode_type t' = Some b" "a @ r = b @ s"
  obtains u w where "type_tag t = type_tag t'" "type_body t = Some u" "type_body t' = Some w" "u @ r = w @ s"
proof -
  from assms(1,2) obtain u w where u: "type_body t = Some u" "a = byte (type_tag t) @ u"
    and w: "type_body t' = Some w" "b = byte (type_tag t') @ w" by (auto simp: encode_type_Some)
  have "byte (type_tag t) @ u @ r = byte (type_tag t') @ w @ s" using assms(3) u(2) w(2) by simp
  then show thesis using that u(1) w(1) by simp
qed

lemma simple_type_decode:
  assumes "encode_type t = Some a" "encode_type t' = Some b" "a @ r = b @ s" "type_tag t \<in> {16, 17, 18, 19, 20, 21, 22, 28}"
  shows "t = t'"
proof -
  have "type_tag t = type_tag t'" using type_tag_decode[OF assms(1-3)] by metis
  then show ?thesis using assms(4) by (cases t; cases t') auto
qed

lemma encode_type_decode:
  "type_wf t \<Longrightarrow> type_wf t' \<Longrightarrow> encode_type t = Some a \<Longrightarrow> encode_type t' = Some b \<Longrightarrow> a @ r = b @ s \<Longrightarrow> t = t'"
proof (induction t arbitrary: t' a b r s)
  case (TEnum n xs)
  obtain u w where d: "type_tag (TEnum n xs) = type_tag t'" "type_body (TEnum n xs) = Some u" "type_body t' = Some w" "u @ r = w @ s"
    using type_tag_decode[OF TEnum.prems(3-5)] by metis
  then obtain m ys where "t' = TEnum m ys" by (cases t') auto
  then show ?case using d symbols_code.decode[where x = "(n, xs)" and y = "(m, ys)"] by auto
next
  case (TList t)
  obtain u w where d: "type_tag (TList t) = type_tag t'" "type_body (TList t) = Some u" "type_body t' = Some w" "u @ r = w @ s"
    using type_tag_decode[OF TList.prems(3-5)] by metis
  then obtain t2 where "t' = TList t2" by (cases t') auto
  then show ?case using d TList.IH[of t2 u w r s] TList.prems(1,2) by simp
next
  case (TObject n fs)
  obtain v w where d: "type_tag (TObject n fs) = type_tag t'" "type_body (TObject n fs) = Some v" "type_body t' = Some w" "v @ r = w @ s"
    using type_tag_decode[OF TObject.prems(3-5)] by metis
  then obtain m gs where t': "t' = TObject m gs" by (cases t') auto
  then obtain n' m' v' w' where n: "encode_string n = Some n'" "encode_type_map fs = Some v'" "v = n' @ v'"
    and m: "encode_string m = Some m'" "encode_type_map gs = Some w'" "w = m' @ w'"
    using d(2,3) by auto
  have cat: "n' @ v' @ r = m' @ w' @ s" using d(4) n(3) m(3) by simp
  have "n = m" using string_code.decode[OF _ _ n(1) m(1) cat] by simp
  moreover have "fs = gs"
  proof (rule type_map_decode[OF n(2) m(2)])
    show "v' @ r = w' @ s" using string_code.rest[OF _ _ n(1) m(1) cat] by simp
    show "bt_wf fs" "bt_wf gs" using TObject.prems(1,2) t' by auto
    fix x y u w r s
    assume x: "x \<in> snd ` set fs" "y \<in> snd ` set gs" "encode_type x = Some u" "encode_type y = Some w" "u @ r = w @ s"
    obtain f where f: "(f, x) \<in> set fs" using x(1) by auto
    have "type_wf x" "type_wf y" using type_wf_fields x(1,2) TObject.prems(1,2) t' by blast+
    then show "x = y" using TObject.IH[OF f _ _ _ x(3,4,5)] by simp
  qed
  ultimately show ?case using t' by simp
next
  case (TNullable t)
  obtain u w where d: "type_tag (TNullable t) = type_tag t'" "type_body (TNullable t) = Some u" "type_body t' = Some w" "u @ r = w @ s"
    using type_tag_decode[OF TNullable.prems(3-5)] by metis
  then obtain t2 where "t' = TNullable t2" by (cases t') auto
  then show ?case using d TNullable.IH[of t2 u w r s] TNullable.prems(1,2) by simp
next
  case (TOpaque n mb md mn)
  obtain u w where d: "type_tag (TOpaque n mb md mn) = type_tag t'" "type_body (TOpaque n mb md mn) = Some u" "type_body t' = Some w" "u @ r = w @ s"
    using type_tag_decode[OF TOpaque.prems(3-5)] by metis
  then obtain n' b' d' k' where "t' = TOpaque n' b' d' k'" by (cases t') auto
  then show ?case using d TOpaque.prems(1,2) opaque_type_decode[of n mb md mn u n' b' d' k' w r s] by (simp add: fits_def)
qed (rule simple_type_decode, assumption, assumption, assumption, simp)+

interpretation type_code: prefix_code type_wf encode_type
  by unfold_locales (rule encode_type_decode)

section \<open>Opaque JSON\<close>

text \<open>The value with the entries of every object in key order: what equality of JSON values sees.\<close>

fun json_norm :: "json \<Rightarrow> json" where
  "json_norm (JArray xs) = JArray (map json_norm xs)"
| "json_norm (JObject fs) = JObject (sort_key fst (map (\<lambda>(k, v). (k, json_norm v)) fs))"
| "json_norm v = v"

lemma insort_key_map: "insort_key fst (k, f v) (map (\<lambda>(k, v). (k, f v)) xs) = map (\<lambda>(k, v). (k, f v)) (insort_key fst (k, v) xs)"
  by (induction xs) auto

lemma sort_key_map: "sort_key fst (map (\<lambda>(k, v). (k, f v)) xs) = map (\<lambda>(k, v). (k, f v)) (sort_key fst xs)"
  by (induction xs) (auto simp: insort_key_map)

fun json_tag :: "json \<Rightarrow> nat" where
  "json_tag JNull = 0"
| "json_tag (JBool _) = 1"
| "json_tag (JNumber _) = 2"
| "json_tag (JString _) = 3"
| "json_tag (JArray _) = 4"
| "json_tag (JObject _) = 5"

lemma json_tag_bound [simp]: "json_tag j < 256"
  by (cases j) auto

fun json_body :: "json \<Rightarrow> string option" where
  "json_body JNull = Some []"
| "json_body (JBool b) = Some (encode_bool b)"
| "json_body (JNumber n) = encode_string n"
| "json_body (JString s) = encode_string s"
| "json_body (JArray xs) = emit (encode_count (length xs) # map encode_opaque_json xs)"
| "json_body (JObject fs) =
     emit (encode_count (length fs) # map (\<lambda>(k, v). emit [encode_string k, encode_opaque_json v]) (sort_key fst fs))"

lemma encode_opaque_Some: "encode_opaque_json j = Some a \<longleftrightarrow> (\<exists>u. json_body j = Some u \<and> a = byte (json_tag j) @ u)"
  by (cases j) (auto simp: emit_Cons bind_eq_Some_conv)

lemma json_tag_decode:
  assumes "encode_opaque_json j = Some a" "encode_opaque_json j' = Some b" "a @ r = b @ s"
  obtains u w where "json_tag j = json_tag j'" "json_body j = Some u" "json_body j' = Some w" "u @ r = w @ s"
proof -
  from assms(1,2) obtain u w where u: "json_body j = Some u" "a = byte (json_tag j) @ u"
    and w: "json_body j' = Some w" "b = byte (json_tag j') @ w" by (auto simp: encode_opaque_Some)
  have "byte (json_tag j) @ u @ r = byte (json_tag j') @ w @ s" using assms(3) u(2) w(2) by simp
  then show thesis using that u(1) w(1) by simp
qed

text \<open>A counted sequence.\<close>

lemma counted_decode:
  assumes "emit (encode_count (length xs) # map enc xs) = Some a" "emit (encode_count (length ys) # map enc' ys) = Some b"
    and "a @ r = b @ s"
    and "\<And>x y u w r s. x \<in> set xs \<Longrightarrow> y \<in> set ys \<Longrightarrow> enc x = Some u \<Longrightarrow> enc' y = Some w \<Longrightarrow> u @ r = w @ s \<Longrightarrow> R x y \<and> r = s"
  shows "list_all2 R xs ys \<and> r = s"
proof -
  from assms(1,2) obtain us vs where x: "fits (length xs)" "collect_opt enc xs = Some us" "a = be32 (length xs) @ concat us"
    and y: "fits (length ys)" "collect_opt enc' ys = Some vs" "b = be32 (length ys) @ concat vs"
    by (auto simp: encode_count_Some emit_map)
  have len: "length xs = length ys" "concat us @ r = concat vs @ s" using assms(3) x y by (simp_all add: be32_append)
  show ?thesis by (rule decode_sequence[OF len(1) x(2) y(2) len(2) assms(4)])
qed

text \<open>A named member.\<close>

lemma member_decode:
  assumes "emit [encode_string n, p] = Some a" "emit [encode_string m, q] = Some b" "a @ r = b @ s"
  obtains u w where "n = m" "p = Some u" "q = Some w" "u @ r = w @ s"
proof -
  from assms(1,2) obtain n' u m' w where n: "encode_string n = Some n'" "p = Some u" "a = n' @ u"
    and m: "encode_string m = Some m'" "q = Some w" "b = m' @ w" by auto
  have cat: "n' @ u @ r = m' @ w @ s" using assms(3) n(3) m(3) by simp
  show thesis
    using that[OF _ n(2) m(2)] string_code.decode[OF _ _ n(1) m(1) cat] string_code.rest[OF _ _ n(1) m(1) cat] by simp
qed

lemma simple_json_decode:
  assumes "encode_opaque_json j = Some a" "encode_opaque_json j' = Some b" "a @ r = b @ s" "json_tag j < 4"
  shows "json_norm j = json_norm j' \<and> r = s"
proof -
  obtain u w where d: "json_tag j = json_tag j'" "json_body j = Some u" "json_body j' = Some w" "u @ r = w @ s"
    using json_tag_decode[OF assms(1-3)] by metis
  show ?thesis
  proof (cases j)
    case (JBool x)
    then obtain y where "j' = JBool y" using d(1) by (cases j') auto
    then show ?thesis using d JBool bool_code.decode[of x u y w r s] bool_code.rest[of x u y w r s] by simp
  next
    case (JNumber x)
    then obtain y where "j' = JNumber y" using d(1) by (cases j') auto
    then show ?thesis using d JNumber string_code.decode[of x u y w r s] string_code.rest[of x u y w r s] by simp
  next
    case (JString x)
    then obtain y where "j' = JString y" using d(1) by (cases j') auto
    then show ?thesis using d JString string_code.decode[of x u y w r s] string_code.rest[of x u y w r s] by simp
  next
    case JNull
    then show ?thesis using d by (cases j') auto
  qed (use assms(4) in simp_all)
qed

lemma opaque_decode:
  "encode_opaque_json j = Some a \<Longrightarrow> encode_opaque_json j' = Some b \<Longrightarrow> a @ r = b @ s \<Longrightarrow>
   json_norm j = json_norm j' \<and> r = s"
proof (induction j arbitrary: j' a b r s rule: encode_opaque_json.induct)
  case (5 xs)
  obtain u w where d: "json_tag (JArray xs) = json_tag j'" "json_body (JArray xs) = Some u" "json_body j' = Some w" "u @ r = w @ s"
    using json_tag_decode[OF "5.prems"] by metis
  then obtain ys where j': "j' = JArray ys" by (cases j') auto
  have "list_all2 (\<lambda>x y. json_norm x = json_norm y) xs ys \<and> r = s"
  proof (rule counted_decode)
    show "emit (encode_count (length xs) # map encode_opaque_json xs) = Some u"
      "emit (encode_count (length ys) # map encode_opaque_json ys) = Some w" "u @ r = w @ s"
      using d j' by (simp_all del: emit_Cons_Some)
  qed (rule "5.IH")
  then show ?case using j' by (auto simp: list_all2_conv_all_nth intro!: nth_equalityI)
next
  case (6 fs)
  obtain u w where d: "json_tag (JObject fs) = json_tag j'" "json_body (JObject fs) = Some u" "json_body j' = Some w" "u @ r = w @ s"
    using json_tag_decode[OF "6.prems"] by metis
  then obtain gs where j': "j' = JObject gs" by (cases j') auto
  let ?enc = "\<lambda>(k, v). emit [encode_string k, encode_opaque_json v]"
  have "list_all2 (\<lambda>p q. fst p = fst q \<and> json_norm (snd p) = json_norm (snd q)) (sort_key fst fs) (sort_key fst gs) \<and> r = s"
  proof (rule counted_decode[of "sort_key fst fs" ?enc u "sort_key fst gs" ?enc w r s])
    show "emit (encode_count (length (sort_key fst fs)) # map ?enc (sort_key fst fs)) = Some u"
      "emit (encode_count (length (sort_key fst gs)) # map ?enc (sort_key fst gs)) = Some w" "u @ r = w @ s"
      using d j' by (simp_all del: emit_Cons_Some)
    fix p q u w r s
    assume p: "p \<in> set (sort_key fst fs)" "q \<in> set (sort_key fst gs)" "?enc p = Some u" "?enc q = Some w" "u @ r = w @ s"
    obtain k x m y where pq: "p = (k, x)" "q = (m, y)" by (cases p; cases q) blast
    obtain u' w' where "k = m" "encode_opaque_json x = Some u'" "encode_opaque_json y = Some w'" "u' @ r = w' @ s"
      using member_decode[of k "encode_opaque_json x" u m "encode_opaque_json y" w r s] p pq by auto
    then show "(fst p = fst q \<and> json_norm (snd p) = json_norm (snd q)) \<and> r = s"
      using "6.IH"[OF p(1) pq(1)[symmetric], of u' y w' r s] pq by simp
  qed
  then show ?case using j' by (auto simp: sort_key_map list_all2_conv_all_nth split_beta intro!: nth_equalityI)
qed (rule simple_json_decode, assumption, assumption, assumption, simp)+

section \<open>Runtime values\<close>

text \<open>The value with its opaque JSON in normal form, and the values decoding produces.\<close>

fun rv_norm :: "runtime_value \<Rightarrow> runtime_value" where
  "rv_norm (VList vs) = VList (map rv_norm vs)"
| "rv_norm (VObject fs) = VObject (map (\<lambda>(k, v). (k, rv_norm v)) fs)"
| "rv_norm (VOpaque j) = VOpaque (json_norm j)"
| "rv_norm v = v"

fun canonical_rv :: "runtime_value \<Rightarrow> bool" where
  "canonical_rv (VUuid s) \<longleftrightarrow> map to_ascii_lowercase s = s"
| "canonical_rv (VDec d) \<longleftrightarrow> dec_wf d"
| "canonical_rv (VList vs) \<longleftrightarrow> list_all canonical_rv vs"
| "canonical_rv (VObject fs) \<longleftrightarrow> list_all (\<lambda>(k, v). canonical_rv v) fs"
| "canonical_rv _ \<longleftrightarrow> True"

fun value_tag :: "runtime_value \<Rightarrow> nat" where
  "value_tag VNull = 48"
| "value_tag (VBool _) = 49"
| "value_tag (VStr _) = 50"
| "value_tag (VInt _) = 51"
| "value_tag (VDec _) = 52"
| "value_tag (VUuid _) = 53"
| "value_tag (VDate _) = 54"
| "value_tag (VTimestamp _) = 55"
| "value_tag (VEnum _ _) = 56"
| "value_tag (VList _) = 57"
| "value_tag (VObject _) = 58"
| "value_tag (VOpaque _) = 59"
| "value_tag (VInt64 _) = 60"

lemma value_tag_bound [simp]: "value_tag v < 256"
  by (cases v) auto

fun value_body :: "rule_type \<Rightarrow> runtime_value \<Rightarrow> string option" where
  "value_body t VNull = (if accepts_null t then Some [] else None)"
| "value_body t (VBool b) = Some (encode_bool b)"
| "value_body t (VStr s) = encode_string s"
| "value_body t (VInt i) = encode_string (int_to_string i)"
| "value_body t (VInt64 i) = encode_string (int_to_string i)"
| "value_body t (VDec d) = encode_decimal d"
| "value_body t (VUuid s) = encode_string (map to_ascii_lowercase s)"
| "value_body t (VDate s) = encode_string s"
| "value_body t (VTimestamp s) = encode_string s"
| "value_body t (VEnum n s) = emit [encode_string n, encode_string s]"
| "value_body t (VList vs) =
     (case t of TList item \<Rightarrow> emit (encode_count (length vs) # map (encode_typed_value item) vs) | _ \<Rightarrow> None)"
| "value_body t (VObject vs) = (case t of TObject _ fs \<Rightarrow> encode_runtime_map fs vs | _ \<Rightarrow> None)"
| "value_body t (VOpaque j) = encode_opaque_json j"

declare encode_runtime_map.simps [simp del] encode_typed_value.simps [simp del]

lemma encode_value_Some: "encode_value t v = Some a \<longleftrightarrow> (\<exists>u. value_body t v = Some u \<and> a = byte (value_tag v) @ u)"
  by (cases v; cases t) (auto simp: emit_Cons bind_eq_Some_conv)

lemma value_tag_decode:
  assumes "encode_value t v = Some a" "encode_value t v' = Some b" "a @ r = b @ s"
  obtains u w where "value_tag v = value_tag v'" "value_body t v = Some u" "value_body t v' = Some w" "u @ r = w @ s"
proof -
  from assms(1,2) obtain u w where u: "value_body t v = Some u" "a = byte (value_tag v) @ u"
    and w: "value_body t v' = Some w" "b = byte (value_tag v') @ w" by (auto simp: encode_value_Some)
  have "byte (value_tag v) @ u @ r = byte (value_tag v') @ w @ s" using assms(3) u(2) w(2) by simp
  then show thesis using that u(1) w(1) by simp
qed

text \<open>Values that are not containers.\<close>

lemma string_decode: "encode_string x = Some u \<Longrightarrow> encode_string y = Some w \<Longrightarrow> u @ r = w @ s \<Longrightarrow> x = y \<and> r = s"
  using string_code.decode string_code.rest by metis

lemma scalar_decode:
  assumes "encode_value t v = Some a" "encode_value t v' = Some b" "a @ r = b @ s"
    and "canonical_rv v" "canonical_rv v'" "value_tag v \<notin> {57, 58}"
  shows "rv_norm v = rv_norm v' \<and> r = s"
proof -
  obtain u w where d: "value_tag v = value_tag v'" "value_body t v = Some u" "value_body t v' = Some w" "u @ r = w @ s"
    using value_tag_decode[OF assms(1-3)] by metis
  show ?thesis
  proof (cases v)
    case (VBool x)
    then obtain y where "v' = VBool y" using d(1) by (cases v') auto
    then show ?thesis using d VBool bool_code.decode[of x u y w r s] bool_code.rest[of x u y w r s] by simp
  next
    case (VDec x)
    then obtain y where "v' = VDec y" using d(1) by (cases v') auto
    then show ?thesis
      using d VDec assms(4,5) decimal_code.decode[of x y u w r s] decimal_code.rest[of x y u w r s] by simp
  next
    case (VEnum n x)
    then obtain m y where v': "v' = VEnum m y" using d(1) by (cases v') auto
    obtain u' w' where "n = m" "encode_string x = Some u'" "encode_string y = Some w'" "u' @ r = w' @ s"
      using member_decode[of n "encode_string x" u m "encode_string y" w r s] d VEnum v' by auto
    then show ?thesis using VEnum v' string_decode[of x u' y w' r s] by simp
  next
    case (VOpaque x)
    then obtain y where "v' = VOpaque y" using d(1) by (cases v') auto
    then show ?thesis using d VOpaque opaque_decode[of x u y w r s] by simp
  next
    case VNull
    then show ?thesis using d by (cases v') (auto split: if_splits)
  next
    case (VStr x)
    then obtain y where "v' = VStr y" using d(1) by (cases v') auto
    then show ?thesis using d VStr string_decode[of x u y w r s] by simp
  next
    case (VInt x)
    then obtain y where "v' = VInt y" using d(1) by (cases v') auto
    then show ?thesis using d VInt string_decode[of "int_to_string x" u "int_to_string y" w r s] by simp
  next
    case (VInt64 x)
    then obtain y where "v' = VInt64 y" using d(1) by (cases v') auto
    then show ?thesis using d VInt64 string_decode[of "int_to_string x" u "int_to_string y" w r s] by simp
  next
    case (VUuid x)
    then obtain y where "v' = VUuid y" using d(1) by (cases v') auto
    then show ?thesis using d VUuid assms(4,5) string_decode[of x u y w r s] by simp
  next
    case (VDate x)
    then obtain y where "v' = VDate y" using d(1) by (cases v') auto
    then show ?thesis using d VDate string_decode[of x u y w r s] by simp
  next
    case (VTimestamp x)
    then obtain y where "v' = VTimestamp y" using d(1) by (cases v') auto
    then show ?thesis using d VTimestamp string_decode[of x u y w r s] by simp
  qed (use assms(6) in simp_all)
qed

lemma typed_value_decode:
  assumes "encode_typed_value t v = Some a" "encode_typed_value t' v' = Some b" "a @ r = b @ s" "type_wf t" "type_wf t'"
  obtains u w where "t = t'" "encode_value t v = Some u" "encode_value t v' = Some w" "u @ r = w @ s"
proof -
  from assms(1,2) obtain x u y w where x: "encode_type t = Some x" "encode_value t v = Some u" "a = x @ u"
    and y: "encode_type t' = Some y" "encode_value t' v' = Some w" "b = y @ w" by (auto simp: encode_typed_value.simps)
  have cat: "x @ u @ r = y @ w @ s" using assms(3) x(3) y(3) by simp
  show thesis
    using that type_code.decode[OF assms(4,5) x(1) y(1) cat] type_code.rest[OF assms(4,5) x(1) y(1) cat] x(2) y(2) by simp
qed

text \<open>The type a member is written with: a null in a member that is not nullable is written as nullable.\<close>

definition member_type :: "rule_type \<Rightarrow> runtime_value \<Rightarrow> rule_type" where
  "member_type t v = (if v = VNull \<and> \<not> accepts_null t then nullable t else t)"

lemma member_type_wf: "type_wf t \<Longrightarrow> type_wf (member_type t v)"
  by (simp add: member_type_def)

lemma member_type_eq: "member_type t v = member_type t v' \<Longrightarrow> v = VNull \<and> v' = VNull \<or> member_type t v = t \<and> member_type t v' = t"
  by (auto simp: member_type_def accepts_null_iff nullable_eq split: if_splits)

lemma encode_runtime_map_eq:
  "encode_runtime_map types vs =
     emit (encode_count (length types) # map (\<lambda>(name, t). emit [encode_string name,
       Option.bind (map_of vs name) (\<lambda>v. encode_typed_value (member_type t v) v)]) (sort_key fst types))"
  unfolding encode_runtime_map.simps member_type_def
  by (intro arg_cong[of _ _ emit] arg_cong2[of _ _ _ _ Cons] refl map_cong)
     (auto split: prod.splits bind_splits intro!: arg_cong[of _ _ emit] arg_cong2[of _ _ _ _ Cons])

lemma runtime_map_decode:
  assumes e: "encode_runtime_map types vs = Some a" "encode_runtime_map types ws = Some b" "a @ r = b @ s"
    and wf: "bt_wf types" "list_all (\<lambda>(_, t). type_wf t) types"
    and E: "\<And>k t x y u w r s. (k, t) \<in> set types \<Longrightarrow> map_of vs k = Some x \<Longrightarrow> map_of ws k = Some y \<Longrightarrow>
      encode_value t x = Some u \<Longrightarrow> encode_value t y = Some w \<Longrightarrow> u @ r = w @ s \<Longrightarrow> rv_norm x = rv_norm y \<and> r = s"
  shows "(\<forall>(k, t) \<in> set types. \<exists>x y. map_of vs k = Some x \<and> map_of ws k = Some y \<and> rv_norm x = rv_norm y) \<and> r = s"
proof -
  let ?enc = "\<lambda>vs (name, t). emit [encode_string name, Option.bind (map_of vs name) (\<lambda>v. encode_typed_value (member_type t v) v)]"
  let ?R = "\<lambda>p q. \<exists>x y. map_of vs (fst p) = Some x \<and> map_of ws (fst p) = Some y \<and> rv_norm x = rv_norm y"
  have srt: "sort_key fst types = types" by (rule bt_sort_id[OF wf(1)])
  have "list_all2 ?R types types \<and> r = s"
  proof (rule counted_decode[OF _ _ e(3)])
    show "emit (encode_count (length types) # map (?enc vs) types) = Some a"
      "emit (encode_count (length types) # map (?enc ws) types) = Some b"
      using e(1,2) unfolding encode_runtime_map_eq srt by simp_all
    fix p q u w r s
    assume p: "p \<in> set types" "q \<in> set types" "?enc vs p = Some u" "?enc ws q = Some w" and cat: "u @ r = w @ s"
    obtain k t k' t' where pq: "p = (k, t)" "q = (k', t')" by (cases p; cases q) blast
    obtain u' w' where m: "k = k'" "Option.bind (map_of vs k) (\<lambda>v. encode_typed_value (member_type t v) v) = Some u'"
        "Option.bind (map_of ws k') (\<lambda>v. encode_typed_value (member_type t' v) v) = Some w'" "u' @ r = w' @ s"
      using member_decode[OF _ _ cat] p(3,4) pq by (metis (lifting) case_prod_conv)
    have t: "t = t'" using p(1,2) pq m(1) bt_wf_distinct[OF wf(1)] by (metis map_of_is_SomeI option.inject)
    obtain x y where xy: "map_of vs k = Some x" "map_of ws k = Some y"
        "encode_typed_value (member_type t x) x = Some u'" "encode_typed_value (member_type t y) y = Some w'"
      using m(1,2,3) t by (auto simp: bind_eq_Some_conv)
    have twf: "type_wf t" using wf(2) p(1) pq by (auto simp: list_all_iff)
    obtain u2 w2 where v: "member_type t x = member_type t y" "encode_value (member_type t x) x = Some u2"
        "encode_value (member_type t x) y = Some w2" "u2 @ r = w2 @ s"
      using typed_value_decode[OF xy(3,4) m(4)] member_type_wf[OF twf] by metis
    have "rv_norm x = rv_norm y \<and> r = s"
      using member_type_eq[OF v(1)]
    proof
      assume "x = VNull \<and> y = VNull"
      then show ?thesis using v(2,3,4) by simp
    next
      assume "member_type t x = t \<and> member_type t y = t"
      then show ?thesis using E[OF p(1)[unfolded pq] xy(1,2) _ _ v(4)] v(2,3) by simp
    qed
    then show "?R p q \<and> r = s" using xy(1,2) pq(1) by simp
  qed
  then show ?thesis by (auto simp: list_all2_same)
qed

text \<open>Two objects with the same keys whose members have the same normal form.\<close>

lemma members_norm:
  assumes "map fst vs = map fst ws" "distinct (map fst vs)"
    and "\<And>k. k \<in> set (map fst vs) \<Longrightarrow> \<exists>x y. map_of vs k = Some x \<and> map_of ws k = Some y \<and> rv_norm x = rv_norm y"
  shows "map (\<lambda>(k, v). (k, rv_norm v)) vs = map (\<lambda>(k, v). (k, rv_norm v)) ws"
proof (rule nth_equalityI)
  show len: "length (map (\<lambda>(k, v). (k, rv_norm v)) vs) = length (map (\<lambda>(k, v). (k, rv_norm v)) ws)"
    using assms(1) by (metis length_map)
  fix i assume "i < length (map (\<lambda>(k, v). (k, rv_norm v)) vs)"
  then have i: "i < length vs" "i < length ws" using len by simp_all
  have k: "fst (vs ! i) = fst (ws ! i)" using assms(1) i by (metis nth_map)
  have "map_of vs (fst (vs ! i)) = Some (snd (vs ! i))" "map_of ws (fst (ws ! i)) = Some (snd (ws ! i))"
    using assms(1,2) i by (metis map_of_is_SomeI nth_mem surjective_pairing)+
  moreover have "fst (vs ! i) \<in> set (map fst vs)" using i(1) by simp
  ultimately have "rv_norm (snd (vs ! i)) = rv_norm (snd (ws ! i))" using assms(3) k by (metis option.inject)
  then show "map (\<lambda>(k, v). (k, rv_norm v)) vs ! i = map (\<lambda>(k, v). (k, rv_norm v)) ws ! i"
    using i k by (simp add: split_beta)
qed

lemma written_type: "x = VNull \<or> has_type x t \<Longrightarrow> encode_value t x = Some u \<Longrightarrow> has_type x t"
  by (auto simp: accepts_null_iff split: if_splits)

lemma encode_value_decode:
  "encode_value t v = Some a \<Longrightarrow> encode_value t v' = Some b \<Longrightarrow> a @ r = b @ s \<Longrightarrow> type_wf t \<Longrightarrow>
   canonical_rv v \<Longrightarrow> canonical_rv v' \<Longrightarrow> has_type v t \<Longrightarrow> has_type v' t \<Longrightarrow> rv_norm v = rv_norm v' \<and> r = s"
proof (induction v arbitrary: v' t a b r s)
  case (VList vs)
  obtain u w where d: "value_tag (VList vs) = value_tag v'" "value_body t (VList vs) = Some u" "value_body t v' = Some w" "u @ r = w @ s"
    using value_tag_decode[OF VList.prems(1-3)] by metis
  then obtain ws item where v': "v' = VList ws" "t = TList item" by (cases v'; cases t) auto
  have "list_all2 (\<lambda>x y. rv_norm x = rv_norm y) vs ws \<and> r = s"
  proof (rule counted_decode[OF _ _ d(4)])
    show "emit (encode_count (length vs) # map (encode_typed_value item) vs) = Some u"
      "emit (encode_count (length ws) # map (encode_typed_value item) ws) = Some w"
      using d(2,3) v' by (simp_all del: emit_Cons_Some)
    fix x y u w r s
    assume x: "x \<in> set vs" "y \<in> set ws" "encode_typed_value item x = Some u" "encode_typed_value item y = Some w" "u @ r = w @ s"
    have t: "type_wf item" "canonical_rv x" "canonical_rv y" "has_type x item" "has_type y item"
      using VList.prems(4-8) v' x(1,2) by (auto simp: list_all_iff)
    obtain u' w' where "encode_value item x = Some u'" "encode_value item y = Some w'" "u' @ r = w' @ s"
      using typed_value_decode[OF x(3-5) t(1,1)] by metis
    then show "rv_norm x = rv_norm y \<and> r = s" using VList.IH[OF x(1)] t by blast
  qed
  then show ?case using v' by (auto simp: list_all2_conv_all_nth intro!: nth_equalityI)
next
  case (VObject vs)
  obtain u w where d: "value_tag (VObject vs) = value_tag v'" "value_body t (VObject vs) = Some u" "value_body t v' = Some w" "u @ r = w @ s"
    using value_tag_decode[OF VObject.prems(1-3)] by metis
  then obtain ws n ts where v': "v' = VObject ws" "t = TObject n ts" by (cases v'; cases t) auto
  have wf: "bt_wf ts" "list_all (\<lambda>(_, t). type_wf t) ts" using VObject.prems(4) v' by auto
  have keys: "map fst vs = map fst ts" "map fst ws = map fst ts" using VObject.prems(7,8) v' by auto
  have m: "encode_runtime_map ts vs = Some u" "encode_runtime_map ts ws = Some w" using d(2,3) v' by auto
  have all: "list_all (\<lambda>(f, t). \<exists>x. map_of vs f = Some x \<and> (x = VNull \<or> has_type x t)) ts"
    "list_all (\<lambda>(f, t). \<exists>x. map_of ws f = Some x \<and> (x = VNull \<or> has_type x t)) ts"
    using VObject.prems(7,8) v' by auto
  have "(\<forall>(k, t) \<in> set ts. \<exists>x y. map_of vs k = Some x \<and> map_of ws k = Some y \<and> rv_norm x = rv_norm y) \<and> r = s"
  proof (rule runtime_map_decode[OF m d(4) wf])
    fix k t x y u w r s
    assume k: "(k, t) \<in> set ts" and xy: "map_of vs k = Some x" "map_of ws k = Some y"
      and e: "encode_value t x = Some u" "encode_value t y = Some w" "u @ r = w @ s"
    have "x = VNull \<or> has_type x t" "y = VNull \<or> has_type y t" using all k xy by (fastforce simp: list_all_iff)+
    then have t: "has_type x t" "has_type y t" using written_type[OF _ e(1)] written_type[OF _ e(2)] by auto
    have mem: "(k, x) \<in> set vs" "(k, y) \<in> set ws" using xy by (auto dest: map_of_SomeD)
    have c: "canonical_rv x" "canonical_rv y" "type_wf t"
      using VObject.prems(5,6) mem v' wf(2) k by (auto simp: list_all_iff)
    show "rv_norm x = rv_norm y \<and> r = s"
      using VObject.IH[OF mem(1) _ e c(3) c(1) c(2) t] by simp
  qed
  then have members: "\<And>k. k \<in> set (map fst vs) \<Longrightarrow> \<exists>x y. map_of vs k = Some x \<and> map_of ws k = Some y \<and> rv_norm x = rv_norm y"
    and r: "r = s" using keys(1) by auto
  have "map (\<lambda>(k, v). (k, rv_norm v)) vs = map (\<lambda>(k, v). (k, rv_norm v)) ws"
    using members_norm[OF _ _ members] keys bt_wf_distinct[OF wf(1)] by simp
  then show ?case using v' r by simp
qed (rule scalar_decode, assumption, assumption, assumption, assumption, assumption, simp)+


text \<open>Decoding produces canonical values.\<close>

lemma collect_opt_mem: "collect_opt f xs = Some ys \<Longrightarrow> y \<in> set ys \<Longrightarrow> \<exists>x \<in> set xs. f x = Some y"
  by (induction xs arbitrary: ys) (auto simp: bind_eq_Some_conv)

lemma decode_value_canonical: "decode_value ext j t = Some v \<Longrightarrow> canonical_rv v"
proof (induction ext j t arbitrary: v rule: decode_value.induct)
  case (6 ext v)
  then show ?case by (auto simp: bind_eq_Some_conv dest: decimal_parse_value)
next
  case (7 ext v)
  then show ?case by (auto simp: lowercase_idem comp_def split: option.splits if_splits)
next
  case (11 ext j item_type)
  then obtain items vs where d: "as_array j = Some items" "v = VList vs"
      "collect_opt (\<lambda>item. decode_value ext item item_type) items = Some vs" by (auto split: option.splits)
  show ?case using collect_opt_mem[OF d(3)] "11.IH"[OF d(1)] d(2) by (auto simp: list_all_iff)
next
  case (12 ext j name fs)
  then obtain object xs where o: "as_object j = Some object" "v = VObject xs"
    and xs: "collect_opt (\<lambda>(f, t). map_option (Pair f)
        (case map_of object f of Some v' \<Rightarrow> decode_value ext v' t | None \<Rightarrow> Some VNull)) fs = Some xs"
    by (auto split: option.splits)
  have "canonical_rv x" if kx: "(k, x) \<in> set xs" for k x
  proof -
    obtain f t where ft: "(f, t) \<in> set fs" "(case map_of object f of Some v' \<Rightarrow> decode_value ext v' t | None \<Rightarrow> Some VNull) = Some x"
      using collect_opt_mem[OF xs kx] by auto
    then show ?thesis using "12.IH"[OF o(1) ft(1) refl] by (auto split: option.splits)
  qed
  then show ?case using o(2) by (auto simp: list_all_iff)
qed (auto split: option.splits if_splits)

lemma decode_entries_canonical: "decode_entries ext declared bindings = Ok ctx \<Longrightarrow> list_all (\<lambda>(_, v). canonical_rv v) ctx"
  by (induction ext declared bindings arbitrary: ctx rule: decode_entries.induct) (auto dest: decode_value_canonical)

lemma decode_entries_keys: "decode_entries ext declared bindings = Ok ctx \<Longrightarrow> bt_keys ctx = bt_keys declared"
  by (induction ext declared bindings arbitrary: ctx rule: decode_entries.induct) auto

lemma decoded_input_bytes_decode:
  assumes wf: "bt_wf types" "list_all (\<lambda>(_, t). type_wf t) types"
    and ctx: "decode_bindings ext types bindings = Ok ctx" "list_all (\<lambda>(_, v). timestamps_canonical v) ctx"
    and ctx': "decode_bindings ext types bindings' = Ok ctx'" "list_all (\<lambda>(_, v). timestamps_canonical v) ctx'"
    and bytes: "canonical_decoded_input_bytes types ctx = Some w" "canonical_decoded_input_bytes types ctx' = Some w"
  shows "map (\<lambda>(k, v). (k, rv_norm v)) ctx = map (\<lambda>(k, v). (k, rv_norm v)) ctx'"
proof -
  have e: "decode_entries ext types bindings = Ok ctx" "decode_entries ext types bindings' = Ok ctx'"
    using ctx(1) ctx'(1) by (simp_all add: decode_bindings_Ok)
  note canon = e[THEN decode_entries_canonical] and keys = e[THEN decode_entries_keys]
  have typed: "context_typed ctx types" "context_typed ctx' types"
    using decode_entries_typed[OF e(1) _ ctx(2)] decode_entries_typed[OF e(2) _ ctx'(2)] wf(2) by auto
  from bytes obtain a b where ab: "encode_runtime_map types ctx = Some a" "encode_runtime_map types ctx' = Some b" "a = b"
    by (auto simp: canonical_decoded_input_bytes_def)
  have "(\<forall>(k, t) \<in> set types. \<exists>x y. map_of ctx k = Some x \<and> map_of ctx' k = Some y \<and> rv_norm x = rv_norm y) \<and> [] = ([] :: string)"
  proof (rule runtime_map_decode[OF ab(1,2) _ wf])
    fix k t x y u w r s
    assume k: "(k, t) \<in> set types" and xy: "map_of ctx k = Some x" "map_of ctx' k = Some y"
      and enc: "encode_value t x = Some u" "encode_value t y = Some w" "u @ r = w @ s"
    have "bt_get types k = Some t" using k bt_wf_distinct[OF wf(1)] by simp
    then have t: "has_type x t" "has_type y t" using typed xy by (fastforce simp: context_typed_def)+
    have c: "canonical_rv x" "canonical_rv y" using canon xy by (fastforce simp: list_all_iff dest: map_of_SomeD)+
    have "type_wf t" using wf(2) k by (auto simp: list_all_iff)
    then show "rv_norm x = rv_norm y \<and> r = s" using encode_value_decode[OF enc _ c t] by simp
  qed (use ab in simp)
  then have "\<And>k. k \<in> set (map fst ctx) \<Longrightarrow> \<exists>x y. map_of ctx k = Some x \<and> map_of ctx' k = Some y \<and> rv_norm x = rv_norm y"
    using keys(1) by auto
  from members_norm[OF _ _ this] show ?thesis using keys bt_wf_distinct[OF wf(1)] by simp
qed

section \<open>Encoding an input never panics\<close>

text \<open>
  Names, texts and counts that fit \<open>u32\<close>, and types in which only a value that is not a list or an
  object is nullable. The encoders are total on those.
\<close>

fun type_fits :: "rule_type \<Rightarrow> bool" where
  "type_fits (TEnum name symbols) \<longleftrightarrow> fits (length name) \<and> fits (length symbols) \<and> list_all (\<lambda>s. fits (length s)) symbols"
| "type_fits (TList t) \<longleftrightarrow> type_fits t"
| "type_fits (TObject name fs) \<longleftrightarrow> fits (length name) \<and> fits (length fs) \<and>
     list_all (\<lambda>(f, t). fits (length f) \<and> type_fits t) fs"
| "type_fits (TNullable t) \<longleftrightarrow> type_fits t"
| "type_fits (TOpaque name _ _ _) \<longleftrightarrow> fits (length name)"
| "type_fits _ \<longleftrightarrow> True"

fun is_container :: "rule_type \<Rightarrow> bool" where
  "is_container (TList _) \<longleftrightarrow> True"
| "is_container (TObject _ _) \<longleftrightarrow> True"
| "is_container _ \<longleftrightarrow> False"

fun plain_nullable :: "rule_type \<Rightarrow> bool" where
  "plain_nullable (TList t) \<longleftrightarrow> plain_nullable t"
| "plain_nullable (TObject _ fs) \<longleftrightarrow> list_all (\<lambda>(f, t). plain_nullable t) fs"
| "plain_nullable (TNullable t) \<longleftrightarrow> \<not> is_container t \<and> plain_nullable t"
| "plain_nullable _ \<longleftrightarrow> True"

fun json_fits :: "json \<Rightarrow> bool" where
  "json_fits (JNumber n) \<longleftrightarrow> fits (length n)"
| "json_fits (JString s) \<longleftrightarrow> fits (length s)"
| "json_fits (JArray xs) \<longleftrightarrow> fits (length xs) \<and> list_all json_fits xs"
| "json_fits (JObject fs) \<longleftrightarrow> fits (length fs) \<and> list_all (\<lambda>(k, v). fits (length k) \<and> json_fits v) fs"
| "json_fits _ \<longleftrightarrow> True"

fun value_fits :: "runtime_value \<Rightarrow> bool" where
  "value_fits (VStr s) \<longleftrightarrow> fits (length s)"
| "value_fits (VUuid s) \<longleftrightarrow> fits (length s)"
| "value_fits (VDate s) \<longleftrightarrow> fits (length s)"
| "value_fits (VTimestamp s) \<longleftrightarrow> fits (length s)"
| "value_fits (VEnum n s) \<longleftrightarrow> fits (length n) \<and> fits (length s)"
| "value_fits (VList vs) \<longleftrightarrow> fits (length vs) \<and> list_all value_fits vs"
| "value_fits (VObject fs) \<longleftrightarrow> list_all (\<lambda>(k, v). value_fits v) fs"
| "value_fits (VOpaque j) \<longleftrightarrow> json_fits j"
| "value_fits _ \<longleftrightarrow> True"

lemma encode_string_total: "fits (length s) \<Longrightarrow> \<exists>a. encode_string s = Some a"
  by (simp add: encode_string_def encode_count_Some)

lemma emit_total: "(\<And>p. p \<in> set ps \<Longrightarrow> \<exists>a. p = Some a) \<Longrightarrow> \<exists>a. emit ps = Some a"
  by (induction ps) fastforce+

lemma encode_count_total: "fits n \<Longrightarrow> \<exists>a. encode_count n = Some a"
  by (simp add: encode_count_Some)

lemma encode_type_total: "type_fits t \<Longrightarrow> \<exists>a. encode_type t = Some a"
  and encode_type_map_total: "fits (length fs) \<Longrightarrow> list_all (\<lambda>(f, t). fits (length f) \<and> type_fits t) fs \<Longrightarrow>
    \<exists>a. encode_type_map fs = Some a"
proof (induction t and fs rule: encode_type_encode_type_map.induct)
  case (9 name symbols)
  then show ?case
    unfolding encode_type.simps encode_symbols_def
    by (intro emit_total) (auto simp: list_all_iff encode_string_total encode_count_total intro!: emit_total)
next
  case (12 name b d n)
  then show ?case by (auto simp: encode_opaque_type_def encode_string_total)
next
  case (13 inner)
  have "type_fits t \<Longrightarrow> type_fits (strip_nullable t)" for t by (induction t rule: strip_nullable.induct) auto
  then show ?case using 13 by auto
next
  case (14 types)
  have "\<exists>a. emit [encode_string name, encode_type t] = Some a" if "(name, t) \<in> set types" for name t
    using 14 that by (fastforce simp: list_all_iff intro: encode_string_total)
  then show ?case
    unfolding encode_type_map.simps using 14 by (intro emit_total) (auto simp: encode_count_total)
qed (auto simp: encode_string_total)

lemma encode_opaque_total: "json_fits j \<Longrightarrow> \<exists>a. encode_opaque_json j = Some a"
proof (induction j rule: encode_opaque_json.induct)
  case (5 items)
  then show ?case unfolding encode_opaque_json.simps
    by (intro emit_total) (auto simp: list_all_iff encode_count_total)
next
  case (6 fs)
  have "\<exists>a. emit [encode_string k, encode_opaque_json v] = Some a" if "(k, v) \<in> set fs" for k v
    using "6.IH"[of "(k, v)" k v] "6.prems" that encode_string_total[of k] by (fastforce simp: list_all_iff)
  then show ?case
    unfolding encode_opaque_json.simps using "6.prems" by (intro emit_total) (auto simp: encode_count_total)
qed (auto simp: encode_string_total)

lemma small_fits: "n \<le> 40 \<Longrightarrow> fits n"
  by (simp add: fits_def)

lemma int_to_string_fits: "\<bar>i\<bar> < 10 ^ 39 \<Longrightarrow> fits (length (int_to_string i))"
proof -
  assume i: "\<bar>i\<bar> < 10 ^ 39"
  have "nat \<bar>i\<bar> < 10 ^ 39" using i by (simp add: nat_less_iff)
  then have "length (nat_to_string (nat \<bar>i\<bar>)) \<le> 39" by (intro nat_to_string_length) simp_all
  then show ?thesis by (auto simp: int_to_string_def intro!: small_fits)
qed

lemma encode_decimal_total: "dec_wf d \<Longrightarrow> \<exists>a. encode_decimal d = Some a"
proof -
  assume d: "dec_wf d"
  have n: "normalized d = d" using d by (simp add: dec_wf_def normalized_id)
  have "\<bar>coefficient d\<bar> < 10 ^ 39" using d by (auto simp: dec_wf_def abs_less_iff)
  then have "nat \<bar>coefficient d\<bar> < 10 ^ 39" by (simp add: nat_less_iff)
  then have "length (nat_to_string (nat \<bar>coefficient d\<bar>)) \<le> 39" by (intro nat_to_string_length) simp_all
  then have "\<exists>a. encode_string (nat_to_string (nat \<bar>coefficient d\<bar>)) = Some a" "\<exists>a. encode_string ''0'' = Some a"
    by (auto intro!: encode_string_total small_fits)
  then show ?thesis by (auto simp: encode_decimal_def n Let_def)
qed

lemma member_type_fits [simp]: "type_fits t \<Longrightarrow> type_fits (member_type t v)"
  by (simp add: member_type_def nullable_eq)

lemma runtime_map_total:
  assumes "fits (length types)" "list_all (\<lambda>(f, t). fits (length f) \<and> type_fits t) types"
    and "\<And>k t. (k, t) \<in> set types \<Longrightarrow> \<exists>v a. map_of vs k = Some v \<and> (v = VNull \<or> encode_value t v = Some a)"
  shows "\<exists>a. encode_runtime_map types vs = Some a"
proof -
  have "\<exists>a. emit [encode_string k, Option.bind (map_of vs k) (\<lambda>v. encode_typed_value (member_type t v) v)] = Some a"
    if kt: "(k, t) \<in> set types" for k t
  proof -
    obtain v where v: "map_of vs k = Some v" "v = VNull \<or> (\<exists>a. encode_value t v = Some a)" using assms(3)[OF kt] by blast
    have "\<exists>a. encode_value (member_type t v) v = Some a" using v(2) by (auto simp: member_type_def)
    moreover have "\<exists>a. encode_type (member_type t v) = Some a" "\<exists>a. encode_string k = Some a"
      using assms(2) kt by (auto simp: list_all_iff intro!: encode_type_total encode_string_total)
    ultimately show ?thesis using v(1) by (auto simp: encode_typed_value.simps)
  qed
  then show ?thesis
    unfolding encode_runtime_map_eq using assms(1) by (intro emit_total) (auto simp: encode_count_total)
qed

lemma container_type: "has_type v t \<Longrightarrow> plain_nullable t \<Longrightarrow> value_tag v \<in> {57, 58} \<Longrightarrow> is_container t"
  by (induction t) auto

lemma encode_value_total:
  "has_type v t \<Longrightarrow> type_fits t \<Longrightarrow> plain_nullable t \<Longrightarrow> value_fits v \<Longrightarrow> \<exists>a. encode_value t v = Some a"
proof (induction v arbitrary: t)
  case (VList vs)
  have "is_container t" using container_type VList.prems by simp
  then obtain item where t: "t = TList item" using VList.prems(1) by (cases t) auto
  have "\<exists>a. encode_typed_value item x = Some a" if x: "x \<in> set vs" for x
    using VList.IH[OF x, of item] VList.prems t x encode_type_total[of item]
    by (auto simp: list_all_iff encode_typed_value.simps)
  then have "\<exists>a. emit (map (encode_typed_value item) vs) = Some a" by (intro emit_total) auto
  moreover have "\<exists>a. encode_count (length vs) = Some a" using VList.prems(4) by (simp add: encode_count_total)
  ultimately show ?case using t by auto
next
  case (VObject vs)
  have "is_container t" using container_type VObject.prems by simp
  then obtain n ts where t: "t = TObject n ts" using VObject.prems(1) by (cases t) auto
  have "\<exists>a. encode_runtime_map ts vs = Some a"
  proof (rule runtime_map_total)
    show "fits (length ts)" "list_all (\<lambda>(f, t). fits (length f) \<and> type_fits t) ts" using VObject.prems(2) t by auto
    fix k u assume k: "(k, u) \<in> set ts"
    obtain x where x: "map_of vs k = Some x" "x = VNull \<or> has_type x u"
      using VObject.prems(1) t k by (fastforce simp: list_all_iff)
    have mem: "(k, x) \<in> set vs" using x(1) by (rule map_of_SomeD)
    have "type_fits u" "plain_nullable u" "value_fits x" using VObject.prems(2-4) t k mem by (auto simp: list_all_iff)
    then show "\<exists>v a. map_of vs k = Some v \<and> (v = VNull \<or> encode_value u v = Some a)"
      using VObject.IH[OF mem, of x u] x by auto
  qed
  then show ?case using t by auto
next
  case (VInt i)
  have "\<bar>i\<bar> < 10 ^ 39" using VInt.prems(1) by (induction t) (auto simp: rust_defs)
  then show ?case using encode_string_total[OF int_to_string_fits] by simp
next
  case (VInt64 i)
  have "\<bar>i\<bar> < 10 ^ 39" using VInt64.prems(1) by (induction t) (auto simp: rust_defs)
  then show ?case using encode_string_total[OF int_to_string_fits] by simp
next
  case (VDec d)
  have "dec_wf d" using VDec.prems(1) by (induction t) auto
  then show ?case using encode_decimal_total by simp
next
  case VNull
  have "accepts_null t" using VNull.prems(1) by (cases t) auto
  then show ?case by simp
next
  case (VEnum n s)
  then show ?case using encode_string_total[of n] encode_string_total[of s] by auto
next
  case (VOpaque j)
  then show ?case using encode_opaque_total by simp
qed (auto simp: encode_string_total)

text \<open>The inputs of a table whose encoding is total.\<close>

definition inputs_fit :: "type_map \<Rightarrow> eval_context \<Rightarrow> bool" where
  "inputs_fit types ctx \<longleftrightarrow> fits (length types) \<and>
     list_all (\<lambda>(n, t). fits (length n) \<and> type_fits t \<and> plain_nullable t \<and> type_wf t) types \<and>
     list_all (\<lambda>(_, v). value_fits v \<and> timestamps_canonical v) ctx"

lemma decoded_input_bytes_total:
  assumes "bt_wf types" "inputs_fit types ctx" "decode_bindings ext types bindings = Ok ctx"
  shows "\<exists>w. canonical_decoded_input_bytes types ctx = Some w"
proof -
  have e: "decode_entries ext types bindings = Ok ctx" using assms(3) by (simp add: decode_bindings_Ok)
  have wf: "list_all (\<lambda>(_, t). type_wf t) types" and ts: "list_all (\<lambda>(_, v). timestamps_canonical v) ctx"
    and fit: "fits (length types)" "list_all (\<lambda>(f, t). fits (length f) \<and> type_fits t) types"
    using assms(2) by (auto simp: inputs_fit_def list_all_iff)
  have typed: "context_typed ctx types" using decode_entries_typed[OF e _ ts] wf by auto
  have "\<exists>a. encode_runtime_map types ctx = Some a"
  proof (rule runtime_map_total[OF fit])
    fix k t assume k: "(k, t) \<in> set types"
    have "bt_get types k = Some t" using k bt_wf_distinct[OF assms(1)] by simp
    then obtain v where v: "map_of ctx k = Some v" "has_type v t" using typed by (auto simp: context_typed_def)
    have "value_fits v" using assms(2) v(1) by (fastforce simp: inputs_fit_def list_all_iff dest: map_of_SomeD)
    moreover have "type_fits t" "plain_nullable t" using assms(2) k by (auto simp: inputs_fit_def list_all_iff)
    ultimately show "\<exists>v a. map_of ctx k = Some v \<and> (v = VNull \<or> encode_value t v = Some a)"
      using encode_value_total[OF v(2)] v(1) by blast
  qed
  then show ?thesis by (auto simp: canonical_decoded_input_bytes_def)
qed

lemma opt_caseE: "(case x of Some a \<Rightarrow> Q a | None \<Rightarrow> False) \<Longrightarrow> (\<And>a. x = Some a \<Longrightarrow> Q a \<Longrightarrow> thesis) \<Longrightarrow> thesis"
  by (cases x) auto

section \<open>Properties\<close>

text \<open>
  The canonical bytes of a type determine the type: \<open>encode_type\<close> is injective on the well-formed
  types, also inside a longer record, so that the digest of a definition covers its declared types.
\<close>

theorem type_encoding_injective:
  assumes "type_wf t" "type_wf t'" "encode_type t = Some a" "encode_type t' = Some b" "a @ r = b @ s"
  shows "t = t' \<and> r = s"
  using type_code.decode[OF assms] type_code.rest[OF assms] by simp

theorem type_encoding_injective_witness:
  "\<exists>a. encode_type (TObject ''o'' [(''f'', TNullable TInt)]) = Some a \<and>
     encode_type (TObject ''o'' [(''f'', nullable (nullable TInt))]) = Some a \<and>
     TObject ''o'' [(''f'', TNullable TInt)] = TObject ''o'' [(''f'', nullable (nullable TInt))]"
proof -
  have "case encode_type (TObject ''o'' [(''f'', TNullable TInt)]) of
      Some a \<Rightarrow> encode_type (TObject ''o'' [(''f'', nullable (nullable TInt))]) = Some a | None \<Rightarrow> False" by code_simp
  then obtain a where a: "encode_type (TObject ''o'' [(''f'', TNullable TInt)]) = Some a"
    "encode_type (TObject ''o'' [(''f'', nullable (nullable TInt))]) = Some a"
    by (rule opt_caseE)
  have w: "type_wf (TObject ''o'' [(''f'', TNullable TInt)])" "type_wf (TObject ''o'' [(''f'', nullable (nullable TInt))])"
    by (simp_all add: bt_wf_def)
  show ?thesis using type_encoding_injective[OF w a refl] a by blast
qed

text \<open>
  The canonical bytes of a decoded input determine it: two inputs of a table that decode and have
  the same bytes bind every name to the same value, up to the order of entries inside opaque JSON
  objects. So an equal \<open>input_digest\<close> of two traces means equal inputs, as far as the digest separates.
\<close>

theorem input_encoding_injective:
  assumes "bt_wf types" "list_all (\<lambda>(_, t). type_wf t) types"
    and "decode_bindings ext types bindings = Ok ctx" "list_all (\<lambda>(_, v). timestamps_canonical v) ctx"
    and "decode_bindings ext types bindings' = Ok ctx'" "list_all (\<lambda>(_, v). timestamps_canonical v) ctx'"
    and "canonical_decoded_input_bytes types ctx = Some w" "canonical_decoded_input_bytes types ctx' = Some w"
  shows "map (\<lambda>(k, v). (k, rv_norm v)) ctx = map (\<lambda>(k, v). (k, rv_norm v)) ctx'"
  using assms by (rule decoded_input_bytes_decode)

theorem input_encoding_injective_witness:
  "\<exists>w. decode_bindings text_externs [(''a'', TInt)] [(''a'', JNumber ''7'')] = Ok [(''a'', VInt 7)] \<and>
     decode_bindings text_externs [(''a'', TInt)] [(''a'', JNumber ''+7'')] = Ok [(''a'', VInt 7)] \<and>
     canonical_decoded_input_bytes [(''a'', TInt)] [(''a'', VInt 7)] = Some w \<and>
     map (\<lambda>(k, v). (k, rv_norm v)) [(''a'', VInt 7)] = map (\<lambda>(k, v). (k, rv_norm v)) [(''a'', VInt 7)]"
proof -
  have d: "decode_bindings text_externs [(''a'', TInt)] [(''a'', JNumber ''7'')] = Ok [(''a'', VInt 7)]"
    "decode_bindings text_externs [(''a'', TInt)] [(''a'', JNumber ''+7'')] = Ok [(''a'', VInt 7)]" by code_simp+
  have "case canonical_decoded_input_bytes [(''a'', TInt)] [(''a'', VInt 7)] of Some w \<Rightarrow> True | None \<Rightarrow> False" by code_simp
  then obtain w where w: "canonical_decoded_input_bytes [(''a'', TInt)] [(''a'', VInt 7)] = Some w" by (rule opt_caseE)
  have "map (\<lambda>(k, v). (k, rv_norm v)) [(''a'', VInt 7)] = map (\<lambda>(k, v). (k, rv_norm v)) [(''a'', VInt 7)]"
    by (rule input_encoding_injective[OF _ _ d(1) _ d(2) _ w w]) (simp_all add: bt_wf_def)
  then show ?thesis using d w by blast
qed

text \<open>
  (C29) Evaluating a decision table never panics on inputs that decode, whose texts and counts fit \<open>u32\<close>
  and whose declared types do not make a list or an object nullable: the trace is always written.
\<close>

theorem decision_evaluation_never_panics:
  assumes "bt_wf (cdt_inputs table)" "decode_bindings ext (cdt_inputs table) bindings = Ok ctx"
    and "inputs_fit (cdt_inputs table) ctx"
  shows "evaluate_decision_table ext table bindings \<noteq> None"
proof -
  obtain w where w: "canonical_decoded_input_bytes (cdt_inputs table) ctx = Some w"
    using decoded_input_bytes_total[OF assms(1,3,2)] by blast
  then have trace: "decision_trace_of ext table i rj ts ctx \<noteq> None" for i rj ts by (simp add: decision_trace_of_def)
  have "select_row ext table matched traces ctx \<noteq> None" for matched traces
    using trace by (auto simp: select_row_def split: hit_policy.splits list.splits)
  then show ?thesis
    using assms(2) trace by (auto simp: evaluate_decision_table_def run_bind_None unpanic_def)
qed

theorem decision_evaluation_never_panics_witness:
  "\<exists>table. compile_decision_table text_externs (sample_table Unique) [] [] None = Some (Ok table) \<and>
     inputs_fit (cdt_inputs table) [(''score'', VInt 9)] \<and>
     evaluate_decision_table text_externs table [(''score'', JNumber ''9'')] \<noteq> None"
proof -
  have "case compile_decision_table text_externs (sample_table Unique) [] [] None of
      Some (Ok table) \<Rightarrow> True | _ \<Rightarrow> False" by code_simp
  then obtain table where t: "compile_decision_table text_externs (sample_table Unique) [] [] None = Some (Ok table)"
    by (elim run_caseE)
  have i: "cdt_inputs table = [(''score'', TInt)]"
    using compile_decision_table_Ok[OF t] by (auto simp: table_compiled_def sample_table_def)
  have b: "decode_bindings text_externs [(''score'', TInt)] [(''score'', JNumber ''9'')] = Ok [(''score'', VInt 9)]"
    by code_simp
  have f: "inputs_fit (cdt_inputs table) [(''score'', VInt 9)]" by (simp add: inputs_fit_def i fits_def)
  have w: "bt_wf (cdt_inputs table)" by (simp add: i bt_wf_def)
  show ?thesis using decision_evaluation_never_panics[OF w b[folded i] f] t f by blast
qed

text \<open>A table with a nullable list as its input; both rows are well typed and the default row is present.\<close>

definition nullable_list_table :: decision_table_definition where
  "nullable_list_table = \<lparr>dt_name = ''lists'', dt_revision = [], dt_inputs = [(''xs'', TNullable (TList TInt))],
     dt_output = [(''ok'', TBool)], dt_hit_policy = First,
     dt_rows = [\<lparr>row_id = ''missing'', row_description = None, row_when = [(''xs'', ''is_null(xs)'')],
                 row_output = JObject [(''ok'', JBool False)]\<rparr>,
               \<lparr>row_id = ''present'', row_description = None, row_when = [(''xs'', ''true'')],
                 row_output = JObject [(''ok'', JBool True)]\<rparr>],
     dt_test_cases = [\<lparr>dtc_name = ''null'', dtc_input = JObject [(''xs'', JNull)],
       dtc_expect_output = JObject [(''ok'', JBool False)], dtc_expect_row = ''missing''\<rparr>]\<rparr>"


end
