(* ===== verification/Rules_Records.thy ===== *)
theory Rules_Records
  imports Rules_Encoding
begin

text \<open>
  Compilation never panics: the canonical record of a checked rule can always be written. The encoder
  recomputes the type of every node on its own (\<open>expression_type\<close>); it agrees with the checker on what
  the encoder needs, up to a narrower integer type, and it is defined on every checked expression.
\<close>

section \<open>The recomputed types\<close>

text \<open>Agreement of a recomputed type with the checked one: the same containers and nullability.\<close>

fun agrees :: "rule_type \<Rightarrow> rule_type \<Rightarrow> bool" where
  "agrees (TList t) t' \<longleftrightarrow> (\<exists>u. t' = TList u \<and> agrees t u)"
| "agrees (TNullable t) t' \<longleftrightarrow> (\<exists>u. t' = TNullable u \<and> agrees t u)"
| "agrees (TObject n fs) t' \<longleftrightarrow> t' = TObject n fs"
| "agrees _ t' \<longleftrightarrow> \<not> accepts_null t' \<and> \<not> is_container t'"

lemma agrees_refl [simp]: "agrees t t"
  by (induction t) auto

lemma agrees_accepts_null: "agrees t t' \<Longrightarrow> accepts_null t' \<longleftrightarrow> accepts_null t"
  by (cases t) auto

lemma agrees_nullable: "agrees t t' \<Longrightarrow> agrees (nullable t) (nullable t')"
  using agrees_accepts_null[of t t'] by (auto simp: nullable_eq accepts_null_iff)

lemma agrees_scalar: "\<not> accepts_null t \<Longrightarrow> \<not> is_container t \<Longrightarrow> agrees t t' \<longleftrightarrow> \<not> accepts_null t' \<and> \<not> is_container t'"
  by (cases t) auto

lemma numeric_scalar: "is_numeric t \<Longrightarrow> \<not> accepts_null t \<and> \<not> is_container t"
  by (cases t) auto

text \<open>An expected type that the null literals and the list items of an expression can take.\<close>

fun expectable :: "rule_type \<Rightarrow> rule_type \<Rightarrow> bool" where
  "expectable (TList t) e \<longleftrightarrow> (\<forall>u. e = TList u \<longrightarrow> expectable t u)"
| "expectable (TNullable t) e \<longleftrightarrow> accepts_null e"
| "expectable _ e \<longleftrightarrow> True"

lemma agrees_expectable: "agrees t t' \<Longrightarrow> expectable t t'"
  by (induction t arbitrary: t') auto

lemma expectable_refl [simp]: "expectable t t"
  by (rule agrees_expectable) simp

definition expected_ok :: "checked_type \<Rightarrow> rule_type option \<Rightarrow> bool" where
  "expected_ok t expected \<longleftrightarrow>
     (case t of
        NullType \<Rightarrow> (\<exists>e. expected = Some e \<and> accepts_null e)
      | Concrete t \<Rightarrow> (\<forall>e. expected = Some e \<longrightarrow> expectable t e))"

lemma expected_ok_simps [simp]:
  "expected_ok (Concrete t) None" "expected_ok (Concrete t) (Some e) \<longleftrightarrow> expectable t e"
  "expected_ok NullType (Some e) \<longleftrightarrow> accepts_null e" "\<not> expected_ok NullType None"
  by (auto simp: expected_ok_def)

lemma check_binary_Concrete: "check_binary rn op l r = Ok t \<Longrightarrow> t \<noteq> NullType"
  by (cases op) (auto simp: check_binary.simps check_ordering_def check_arithmetic_def split: if_splits)

lemma merge_Concrete: "merge_branch_types rn l r = Ok t \<Longrightarrow> t \<noteq> NullType"
  by (auto simp: merge_branch_types_def split: checked_type.splits if_splits)

lemma required_concrete_Ok:
  "required_concrete rn t = Ok u \<Longrightarrow> (t = Concrete u \<Longrightarrow> \<not> accepts_null u \<Longrightarrow> thesis) \<Longrightarrow> thesis"
  by (cases t) (auto split: if_splits)

lemma check_member_Ok:
  assumes "check_member rn ct field = Ok t"
  shows "\<exists>n fs u. ct = Concrete (TObject n fs) \<and> bt_get fs field = Some u \<and> t = Concrete (access_result_type u)"
proof -
  from assms obtain object where "required_concrete rn ct = Ok object"
    and m: "(case object of TObject _ fs \<Rightarrow> res_map (\<lambda>t. Concrete (access_result_type t)) (ok_or (UnknownField rn field) (bt_get fs field))
       | other \<Rightarrow> Err (type_mismatch rn ''object'' (display_name other))) = Ok t"
    by (auto simp: check_member_def)
  then show ?thesis by (cases object) (auto elim: required_concrete_Ok)
qed

lemma check_index_Ok:
  assumes "check_index rn ct = Ok t"
  shows "\<exists>u. ct = Concrete (TList u) \<and> t = Concrete (access_result_type u)"
proof -
  from assms obtain v where "required_concrete rn ct = Ok v"
    and m: "(case v of TList item \<Rightarrow> Ok (Concrete (access_result_type item))
       | other \<Rightarrow> Err (type_mismatch rn ''list'' (display_name other))) = Ok t"
    by (auto simp: check_index_def)
  then show ?thesis by (cases v) (auto elim: required_concrete_Ok)
qed

lemma check_unary_Ok:
  "check_unary rn op u = Ok t \<Longrightarrow> op = NotOp \<and> t = Concrete TBool \<or> op = NegateOp \<and> is_numeric u \<and> t = Concrete u"
  by (cases op) (auto simp: check_unary_def split: if_splits)

lemma check_size_Concrete:
  assumes "check_size rn ts = Ok t"
  shows "t = Concrete TInt"
proof -
  from assms obtain t0 u where "ts = [t0]" "required_concrete rn t0 = Ok u"
    and r: "(case u of TStr \<Rightarrow> Ok (Concrete TInt) | TList _ \<Rightarrow> Ok (Concrete TInt)
      | other \<Rightarrow> Err (type_mismatch rn ''string or list'' (display_name other))) = Ok t"
    by (auto simp: check_size_def split: list.splits)
  from r show ?thesis by (cases u) auto
qed

lemma check_call_Concrete: "check_call_types rn f ts = Ok t \<Longrightarrow> t = Concrete (if f = Size then TInt else TBool)"
  by (cases f) (auto simp: check_call_types_def check_is_null_def check_string_test_def
      dest: check_size_Concrete split: list.splits checked_type.splits if_splits)

lemma check_kind_null:
  assumes "check_kind c rn k bindings declared = Ok NullType"
  shows "k = Literal LNull"
proof (cases k)
  case (Literal lit)
  then show ?thesis using assms by (cases lit) (auto split: if_splits)
next
  case (ListOf items)
  then show ?thesis using assms check_list_Ok[of c rn items bindings declared NullType] by auto
next
  case (Call f arguments)
  then show ?thesis using assms check_call_Concrete by fastforce
next
  case (Member target field)
  then show ?thesis using assms check_member_Ok by fastforce
next
  case (Index target index)
  then show ?thesis using assms check_index_Ok by fastforce
next
  case (Unary op operand)
  then show ?thesis using assms check_unary_Ok by fastforce
next
  case (Binary op l r)
  then show ?thesis using assms check_binary_Concrete by (fastforce split: if_splits)
next
  case (Conditional a b d)
  then show ?thesis using assms merge_Concrete by fastforce
next
  case (EnumSymbol n s)
  then show ?thesis using assms by (auto simp: check_enum_symbol_def split: option.splits rule_type.splits if_splits)
qed (use assms in \<open>auto simp: check_name_def\<close>)

lemma null_checked:
  "check_expression c rn e bindings declared = Ok ce \<Longrightarrow> ce_type ce = NullType \<longleftrightarrow> is_null_literal e"
proof -
  obtain sp k where e: "e = Expr sp k" by (cases e)
  assume "check_expression c rn e bindings declared = Ok ce"
  then have k: "check_kind c rn k bindings declared = Ok (ce_type ce)" by (auto simp: e checked_def)
  have "is_null_literal e \<longleftrightarrow> k = Literal LNull" by (cases e rule: is_null_literal.cases) (auto simp: e)
  then show ?thesis using k check_kind_null[of c rn k bindings declared] by auto
qed

text \<open>The declarations that the encoder sees hold every declared type.\<close>

definition covers :: "canonical_expression_context \<Rightarrow> type_map \<Rightarrow> type_map \<Rightarrow> bool" where
  "covers ctx bindings declared \<longleftrightarrow> cec_bindings ctx = bindings \<and> snd ` set declared \<subseteq> set (cec_declared_types ctx)"

lemma find_enum_declared:
  "TEnum n symbols \<in> set types \<Longrightarrow> \<exists>t'. find_enum n types = Some t' \<and> (\<exists>m s. t' = TEnum m s)"
  by (induction types) (auto simp: find_enum_def split: rule_type.splits)

definition recomputed :: "checked_type \<Rightarrow> rule_type option \<Rightarrow> rule_type option \<Rightarrow> bool" where
  "recomputed ct expected result \<longleftrightarrow>
     (\<exists>t'. result = Some t' \<and> (\<forall>t. ct = Concrete t \<longrightarrow> expectable t t' \<and> (expected = None \<longrightarrow> agrees t t')))"

lemma recomputed_scalar:
  "result = Some t' \<Longrightarrow> \<not> accepts_null t' \<Longrightarrow> \<not> is_container t' \<Longrightarrow> \<not> accepts_null t \<Longrightarrow> \<not> is_container t \<Longrightarrow>
   recomputed (Concrete t) expected result"
  by (simp add: recomputed_def agrees_scalar agrees_expectable)

lemma recomputed_agrees: "recomputed (Concrete t) None result \<Longrightarrow> \<exists>t'. result = Some t' \<and> agrees t t'"
  by (auto simp: recomputed_def)

lemma recomputedI: "result = Some t' \<Longrightarrow> agrees t t' \<Longrightarrow> recomputed (Concrete t) expected result"
  by (simp add: recomputed_def agrees_expectable)

lemma check_binary_bool: "check_binary rn op l r = Ok t \<Longrightarrow> \<not> is_arithmetic op \<Longrightarrow> t = Concrete TBool"
  by (cases op) (auto simp: check_binary.simps check_ordering_def split: if_splits)

lemma check_binary_arithmetic:
  assumes "check_binary rn op l r = Ok t" "is_arithmetic op"
  shows "\<exists>a b u. l = Concrete a \<and> r = Concrete b \<and> is_numeric a \<and> is_numeric b \<and> t = Concrete u \<and> is_numeric u"
proof -
  have "check_arithmetic rn l r = Ok t" using assms by (cases op) (auto simp: check_binary.simps)
  then show ?thesis
    by (auto simp: check_arithmetic_def is_mixed_integer_pair_def elim!: required_concrete_Ok split: if_splits)
qed

text \<open>The branches of a conditional agree with the merged type.\<close>

lemma merge_agrees:
  assumes "merge_branch_types rn l r = Ok t"
  shows "\<exists>u. t = Concrete u \<and> (\<forall>a t'. (l = Concrete a \<or> r = Concrete a) \<longrightarrow> agrees a t' \<longrightarrow> agrees u t') \<and>
    (l \<noteq> NullType \<or> r \<noteq> NullType)"
  using assms by (auto simp: merge_branch_types_def is_mixed_integer_pair_def split: checked_type.splits if_splits)

lemma expression_type_recomputed:
  "check_expression c rn e bindings declared = Ok ce \<Longrightarrow> covers ctx bindings declared \<Longrightarrow>
     \<forall>expected. expected_ok (ce_type ce) expected \<longrightarrow> recomputed (ce_type ce) expected (expression_type e ctx expected)"
  "check_kind c rn k bindings declared = Ok t \<Longrightarrow> covers ctx bindings declared \<Longrightarrow>
     \<forall>expected. expected_ok t expected \<longrightarrow> recomputed t expected (expression_type (Expr sp k) ctx expected)"
  "check_items c rn item_type es bindings declared = Ok u \<Longrightarrow> True"
  "check_arguments c rn es bindings declared = Ok ts \<Longrightarrow> True"
proof (induction c rn e bindings declared and c rn k bindings declared
    and c rn item_type es bindings declared and c rn es bindings declared
    arbitrary: ce and t sp and u and ts
    rule: check_expression_check_kind_check_items_check_arguments.induct)
  case (1 c rn sp kind bindings declared)
  then show ?case by (fastforce simp: checked_def)
next
  case (2 c rn lit bindings declared)
  then show ?case
    by (cases lit) (auto simp: recomputed_def expected_ok_def split: if_splits)
next
  case (3 c rn name bindings declared)
  then show ?case by (auto simp: check_name_def covers_def recomputed_def)
next
  case (4 c rn enum_name symbol bindings declared)
  then obtain symbols where t: "t = Concrete (TEnum enum_name symbols)" "bt_get declared enum_name = Some (TEnum enum_name symbols)"
    by (auto simp: check_enum_symbol_def split: option.splits rule_type.splits if_splits)
  have "TEnum enum_name symbols \<in> set (cec_declared_types ctx)"
    using "4.prems"(2) map_of_SomeD[OF t(2)] by (force simp: covers_def)
  then obtain t' where "find_enum enum_name (cec_declared_types ctx) = Some t'" "\<exists>n s. t' = TEnum n s"
    using find_enum_declared by blast
  then show ?case using t(1) by (auto simp: recomputed_def)
next
  case (5 c rn items bindings declared)
  from "5.prems"(1) obtain first rest ce item_type where items: "items = first # rest"
    and first: "check_expression c rn first bindings declared = Ok ce" "ce_type ce = Concrete item_type"
    and t: "t = Concrete (TList item_type)"
    using check_list_Ok by blast
  show ?case
  proof (intro allI impI)
    fix expected assume e: "expected_ok t expected"
    let ?item = "case expected of Some (TList t) \<Rightarrow> Some t | _ \<Rightarrow> None"
    have "expected_ok (ce_type ce) ?item" using e t first(2) by (auto simp: expected_ok_def split: option.splits rule_type.splits)
    then have "recomputed (Concrete item_type) ?item (expression_type first ctx ?item)"
      using "5.IH"(1)[OF items first(1) "5.prems"(2)] first(2) by auto
    then obtain t' where "expression_type first ctx ?item = Some t'" "expectable item_type t'" "?item = None \<longrightarrow> agrees item_type t'"
      by (auto simp: recomputed_def)
    then show "recomputed t expected (expression_type (Expr sp (ListOf items)) ctx expected)"
      using t by (auto simp: items recomputed_def)
  qed
next
  case (6 c rn target field bindings declared)
  from "6.prems"(1) obtain ce where ce: "check_expression c rn target bindings declared = Ok ce"
    and m: "check_member rn (ce_type ce) field = Ok t" by auto
  then obtain n fs u where o: "ce_type ce = Concrete (TObject n fs)" "bt_get fs field = Some u" "t = Concrete (access_result_type u)"
    using check_member_Ok by blast
  have "expression_type target ctx None = Some (TObject n fs)"
    using spec[OF "6.IH"[OF ce "6.prems"(2)], of None] o(1) by (auto simp: recomputed_def)
  then show ?case using o(2,3) by (auto simp: recomputed_def access_result_type_def)
next
  case (7 c rn target index bindings declared)
  from "7.prems"(1) obtain ce where ce: "check_expression c rn target bindings declared = Ok ce"
    and m: "check_index rn (ce_type ce) = Ok t" by auto
  then obtain u where o: "ce_type ce = Concrete (TList u)" "t = Concrete (access_result_type u)"
    using check_index_Ok by blast
  obtain u' where "expression_type target ctx None = Some (TList u')" "agrees u u'"
    using spec[OF "7.IH"[OF ce "7.prems"(2)], of None] o(1) by (auto simp: recomputed_def)
  then show ?case using o(2) agrees_nullable by (auto simp: access_result_type_def intro!: recomputedI)
next
  case (8 c rn f arguments bindings declared)
  then show ?case using check_call_Concrete by (fastforce simp: recomputed_def)
next
  case (9 c rn op operand bindings declared)
  from "9.prems"(1) obtain ce u where ce: "check_expression c rn operand bindings declared = Ok ce"
    and u: "ce_type ce = Concrete u" "check_unary rn op u = Ok t"
    by (auto elim!: required_concrete_Ok)
  show ?case
  proof (cases op)
    case NotOp
    then show ?thesis using u(2) by (auto simp: check_unary_def intro!: recomputed_scalar split: if_splits)
  next
    case NegateOp
    then have n: "is_numeric u" "t = Concrete u" using u(2) by (auto simp: check_unary_def split: if_splits)
    have "recomputed (Concrete u) None (expression_type operand ctx None)"
      using spec[OF "9.IH"[OF ce "9.prems"(2)], of None] u(1) by simp
    then obtain t' where "expression_type operand ctx None = Some t'" "agrees u t'" using recomputed_agrees by blast
    then show ?thesis using NegateOp n(2) by (auto simp: recomputedI)
  qed
next
  case (10 c rn op left right bindings declared)
  from "10.prems"(1) obtain l r where l: "check_expression c rn left bindings declared = Ok l"
    and r: "check_expression c rn right bindings declared = Ok r"
    and t: "check_binary rn op (ce_type l) (ce_type r) = Ok t"
    by (auto split: if_splits)
  show ?case
  proof (cases "is_arithmetic op")
    case False
    then show ?thesis using check_binary_bool[OF t] by (auto intro!: recomputed_scalar)
  next
    case True
    obtain tl0 tr0 where c: "ce_type l = Concrete tl0" "ce_type r = Concrete tr0" "is_numeric tl0" "is_numeric tr0"
      "\<exists>u. t = Concrete u \<and> is_numeric u"
      using check_binary_arithmetic[OF t True] by blast
    obtain a b where "expression_type left ctx None = Some a" "agrees tl0 a" "expression_type right ctx None = Some b" "agrees tr0 b"
      using spec[OF "10.IH"(1)[OF l "10.prems"(2)], of None] spec[OF "10.IH"(2)[OF l r "10.prems"(2)], of None] c(1,2) by (auto simp: recomputed_def)
    then show ?thesis
      using True c(3,4,5) numeric_scalar[OF c(3)] agrees_scalar[of tl0 a]
      by (auto simp: numeric_scalar intro!: recomputed_scalar)
  qed
next
  case (11 c rn condition when_true when_false bindings declared)
  from "11.prems"(1) obtain cc ct cf where cond: "check_expression c rn condition bindings declared = Ok cc"
      "expect_bool rn (ce_type cc) = Ok ()"
    and tr: "check_expression c rn when_true bindings declared = Ok ct"
    and fa: "check_expression c rn when_false bindings declared = Ok cf"
    and t: "merge_branch_types rn (ce_type ct) (ce_type cf) = Ok t"
    by auto
  note IH = spec[OF "11.IH"(2)[OF cond tr "11.prems"(2)], of None] spec[OF "11.IH"(3)[OF cond tr fa "11.prems"(2)], of None]
  show ?case
  proof (intro allI impI)
    fix expected assume e: "expected_ok t expected"
    show "recomputed t expected (expression_type (Expr sp (Conditional condition when_true when_false)) ctx expected)"
    proof (cases expected)
      case (Some x)
      then show ?thesis using e by (auto simp: recomputed_def expected_ok_def)
    next
      case None
      then show ?thesis
        using IH merge_agrees[OF t] null_checked[OF tr] null_checked[OF fa]
        by (cases "ce_type ct"; cases "ce_type cf") (auto simp: recomputed_def dest: agrees_expectable)
    qed
  qed
qed simp_all

section \<open>Encoding a checked expression\<close>

text \<open>Texts, counts and list indices of an expression fit \<open>u32\<close>.\<close>

fun expr_fits :: "expr \<Rightarrow> bool" and kind_fits :: "expr_kind \<Rightarrow> bool" where
  "expr_fits (Expr _ kind) \<longleftrightarrow> kind_fits kind"
| "kind_fits (Literal lit) \<longleftrightarrow> (case lit of LString s \<Rightarrow> fits (length s) | _ \<Rightarrow> True)"
| "kind_fits (Name n) \<longleftrightarrow> fits (length n)"
| "kind_fits (EnumSymbol n s) \<longleftrightarrow> fits (length n) \<and> fits (length s)"
| "kind_fits (ListOf items) \<longleftrightarrow> fits (length items) \<and> list_all expr_fits items"
| "kind_fits (Member target field) \<longleftrightarrow> expr_fits target \<and> fits (length field)"
| "kind_fits (Index target index) \<longleftrightarrow> expr_fits target \<and> fits index"
| "kind_fits (Call _ arguments) \<longleftrightarrow> fits (length arguments) \<and> list_all expr_fits arguments"
| "kind_fits (Unary _ operand) \<longleftrightarrow> expr_fits operand"
| "kind_fits (Binary _ left right) \<longleftrightarrow> expr_fits left \<and> expr_fits right"
| "kind_fits (Conditional condition when_true when_false) \<longleftrightarrow>
     expr_fits condition \<and> expr_fits when_true \<and> expr_fits when_false"

definition context_fits :: "canonical_expression_context \<Rightarrow> bool" where
  "context_fits ctx \<longleftrightarrow> list_all (\<lambda>(_, t). type_fits t) (cec_bindings ctx) \<and> list_all type_fits (cec_declared_types ctx)"

lemma find_enum_fits: "list_all type_fits types \<Longrightarrow> find_enum n types = Some t \<Longrightarrow> type_fits t"
  by (induction types) (auto simp: find_enum_def split: if_splits rule_type.splits)

lemma nullable_fits [simp]: "type_fits t \<Longrightarrow> type_fits (nullable t)"
  by (simp add: nullable_eq)

lemma bt_get_fits: "list_all (\<lambda>(_, t). type_fits t) m \<Longrightarrow> bt_get m n = Some t \<Longrightarrow> type_fits t"
  by (auto simp: list_all_iff dest!: map_of_SomeD)

lemma expression_type_fits:
  "expression_type e ctx expected = Some t \<Longrightarrow> context_fits ctx \<Longrightarrow> pred_option type_fits expected \<Longrightarrow> type_fits t"
proof (induction e ctx expected arbitrary: t rule: expression_type.induct)
  case (1 sp lit ctx expected)
  then show ?case by (cases lit) (auto split: option.splits if_splits)
next
  case (2 sp name ctx expected)
  then show ?case by (auto simp: context_fits_def dest: bt_get_fits)
next
  case (3 sp n s ctx expected)
  then show ?case by (auto simp: context_fits_def dest: find_enum_fits)
next
  case (4 sp items ctx expected)
  then show ?case by (auto split: list.splits option.splits rule_type.splits)
next
  case (5 sp target field ctx expected)
  then obtain n fs u where "expression_type target ctx None = Some (TObject n fs)" "bt_get fs field = Some u" "t = nullable u"
    by (auto split: option.splits rule_type.splits)
  then show ?case using "5.IH" "5.prems"(2) by (auto simp: list_all_iff dest!: map_of_SomeD)
next
  case (6 sp target index ctx expected)
  then show ?case by (auto split: option.splits rule_type.splits)
next
  case (8 sp op operand ctx expected)
  then show ?case by (auto split: unary_op.splits)
next
  case (9 sp op left right ctx expected)
  then show ?case by (auto simp: bind_eq_Some_conv split: if_splits)
next
  case (10 sp c a b ctx expected)
  then show ?case by (auto split: option.splits if_splits)
qed auto

lemma parse_signed_wider: "parse_signed lo hi s = Some i \<Longrightarrow> lo' \<le> lo \<Longrightarrow> hi \<le> hi' \<Longrightarrow> parse_signed lo' hi' s = Some i"
  by (cases s) (auto simp: bind_eq_Some_conv split: if_splits)

lemma encode_literal_total:
  assumes "check_literal rn lit = Ok t" "kind_fits (Literal lit)"
  shows "\<exists>a. encode_literal lit = Some a"
proof (cases lit)
  case (LInt v)
  then obtain i where "parse_signed i64_min i64_max v = Some i"
    using assms(1) parse_signed_wider[of i32_min i32_max v _ i64_min i64_max] by (auto split: if_splits)
  then have i: "parse_signed i128_min i128_max v = Some i" "\<bar>i\<bar> < 10 ^ 39"
    using parse_signed_wider[of i64_min i64_max v i i128_min i128_max] parse_signed_bounds[of i64_min i64_max v i] by auto
  obtain a where "encode_string (int_to_string i) = Some a" using encode_string_total[OF int_to_string_fits[OF i(2)]] by blast
  then show ?thesis using LInt i(1) by simp
next
  case (LDecimal v)
  then obtain d where d: "decimal_parse v = Some d" using assms(1) by auto
  then obtain a where "encode_decimal d = Some a" using encode_decimal_total decimal_parse_value by blast
  then show ?thesis using LDecimal d by simp
next
  case (LString s)
  then show ?thesis using assms(2) encode_string_total[of s] by auto
qed simp_all

lemma check_binary_null:
  "check_binary rn op NullType r = Ok t \<Longrightarrow> \<exists>u. r = Concrete u \<and> accepts_null u"
  "check_binary rn op l NullType = Ok t \<Longrightarrow> \<exists>u. l = Concrete u \<and> accepts_null u"
  by (cases op; auto simp: check_binary.simps check_equality_def check_ordering_def check_arithmetic_def expect_bool_def
      split: checked_type.splits if_splits)+

lemma recomputed_fits:
  assumes "check_expression c rn e bindings declared = Ok ce" "ce_type ce = Concrete u"
    and "covers ctx bindings declared" "context_fits ctx"
  shows "\<exists>t'. expression_type e ctx None = Some t' \<and> agrees u t' \<and> type_fits t'"
proof -
  have "recomputed (Concrete u) None (expression_type e ctx None)"
    using spec[OF expression_type_recomputed(1)[OF assms(1,3)], of None] assms(2) by simp
  then obtain t' where "expression_type e ctx None = Some t'" "agrees u t'" using recomputed_agrees by blast
  then show ?thesis using expression_type_fits[of e ctx None t'] assms(4) by simp
qed

lemma equality_expected_ok:
  assumes l: "check_expression c rn l bindings declared = Ok cl" and r: "check_expression c rn r bindings declared = Ok cr"
    and t: "check_binary rn op (ce_type cl) (ce_type cr) = Ok t" and ctx: "covers ctx bindings declared" "context_fits ctx"
  shows "\<exists>el er. equality_expected_types l r ctx = Some (el, er) \<and> expected_ok (ce_type cl) el \<and> expected_ok (ce_type cr) er \<and>
    pred_option type_fits el \<and> pred_option type_fits er"
proof (cases "is_null_literal l")
  case True
  then have n: "ce_type cl = NullType" using null_checked[OF l] by simp
  then obtain u where u: "ce_type cr = Concrete u" "accepts_null u" using check_binary_null(1) t by metis
  obtain t' where t': "expression_type r ctx None = Some t'" "agrees u t'" "type_fits t'" using recomputed_fits[OF r u(1) ctx] by blast
  then show ?thesis
    using True n u agrees_accepts_null[OF t'(2)] agrees_expectable[OF t'(2)] by (simp add: equality_expected_types_def)
next
  case False
  then obtain a where a: "ce_type cl = Concrete a" using null_checked[OF l] by (cases "ce_type cl") auto
  show ?thesis
  proof (cases "is_null_literal r")
    case True
    then have n: "ce_type cr = NullType" using null_checked[OF r] by simp
    then have "accepts_null a" using check_binary_null(2) t a by (metis checked_type.inject)
    moreover obtain t' where t': "expression_type l ctx None = Some t'" "agrees a t'" "type_fits t'" using recomputed_fits[OF l a ctx] by blast
    ultimately show ?thesis
      using True False n a agrees_accepts_null[OF t'(2)] agrees_expectable[OF t'(2)] by (simp add: equality_expected_types_def)
  next
    case r0: False
    then obtain b where "ce_type cr = Concrete b" using null_checked[OF r] by (cases "ce_type cr") auto
    then show ?thesis using r0 False a by (simp add: equality_expected_types_def)
  qed
qed

lemma merge_expected:
  assumes "merge_branch_types rn l r = Ok t" "expected_ok t (Some x)"
  shows "expected_ok l (Some x)" "expected_ok r (Some x)"
  using assms by (auto simp: merge_branch_types_def is_mixed_integer_pair_def accepts_null_iff split: checked_type.splits if_splits)

lemma check_call_arguments: "check_call_types rn f ts = Ok t \<Longrightarrow> NullType \<notin> set ts"
proof (cases f)
  case Size
  assume "check_call_types rn f ts = Ok t"
  then show ?thesis using Size by (auto simp: check_call_types_def check_size_def split: list.splits)
next
  case IsNull
  assume "check_call_types rn f ts = Ok t"
  then show ?thesis using IsNull by (auto simp: check_call_types_def check_is_null_def split: list.splits checked_type.splits)
qed (auto simp: check_call_types_def check_string_test_def length_Suc_conv eval_nat_numeral split: if_splits)

text \<open>The node is encoded with its recomputed type.\<close>

lemma encode_expressionI:
  assumes "expression_type (Expr sp k) ctx expected = Some t'" "\<exists>a. encode_node k ctx t' = Some a" "type_fits t'"
  shows "\<exists>a. encode_expression (Expr sp k) ctx expected = Some a"
  using assms encode_type_total[of t'] by auto

lemma encode_items_total:
  "fits (length es) \<Longrightarrow> (\<And>e. e \<in> set es \<Longrightarrow> \<exists>a. enc e = Some a) \<Longrightarrow>
   \<exists>a. emit ([Some x, encode_count (length es)] @ map enc es) = Some a"
  by (intro emit_total) (auto simp: encode_count_total)

lemma encode_expression_total:
  "check_expression c rn e bindings declared = Ok ce \<Longrightarrow> covers ctx bindings declared \<Longrightarrow> context_fits ctx \<Longrightarrow>
     \<forall>expected. expected_ok (ce_type ce) expected \<longrightarrow> pred_option type_fits expected \<longrightarrow> expr_fits e \<longrightarrow>
       (\<exists>a. encode_expression e ctx expected = Some a)"
  "check_kind c rn k bindings declared = Ok t \<Longrightarrow> covers ctx bindings declared \<Longrightarrow> context_fits ctx \<Longrightarrow>
     \<forall>expected t'. expected_ok t expected \<longrightarrow> pred_option type_fits expected \<longrightarrow> kind_fits k \<longrightarrow>
       expression_type (Expr sp k) ctx expected = Some t' \<longrightarrow> (\<exists>a. encode_node k ctx t' = Some a)"
  "check_items c rn item_type es bindings declared = Ok u \<Longrightarrow> covers ctx bindings declared \<Longrightarrow> context_fits ctx \<Longrightarrow>
     \<forall>x e. e \<in> set es \<longrightarrow> expectable item_type x \<longrightarrow> type_fits x \<longrightarrow> expr_fits e \<longrightarrow>
       (\<exists>a. encode_expression e ctx (Some x) = Some a)"
  "check_arguments c rn es bindings declared = Ok ts \<Longrightarrow> covers ctx bindings declared \<Longrightarrow> context_fits ctx \<Longrightarrow>
     NullType \<notin> set ts \<longrightarrow> (\<forall>e \<in> set es. expr_fits e \<longrightarrow> (\<exists>a. encode_expression e ctx None = Some a))"
proof (induction c rn e bindings declared and c rn k bindings declared
    and c rn item_type es bindings declared and c rn es bindings declared
    arbitrary: ce and t sp and u and ts
    rule: check_expression_check_kind_check_items_check_arguments.induct)
  case (1 c rn sp kind bindings declared)
  from "1.prems"(1) have k: "check_kind c rn kind bindings declared = Ok (ce_type ce)" by (auto simp: checked_def)
  show ?case
  proof (intro allI impI)
    fix expected assume e: "expected_ok (ce_type ce) expected" "pred_option type_fits expected" "expr_fits (Expr sp kind)"
    obtain t' where t': "expression_type (Expr sp kind) ctx expected = Some t'"
      using expression_type_recomputed(1)[OF "1.prems"(1,2)] e(1) by (auto simp: recomputed_def)
    have "\<exists>a. encode_node kind ctx t' = Some a" using "1.IH"[OF k "1.prems"(2,3)] e t' by auto
    then show "\<exists>a. encode_expression (Expr sp kind) ctx expected = Some a"
      by (rule encode_expressionI[OF t' _ expression_type_fits[OF t' "1.prems"(3) e(2)]])
  qed
next
  case (2 c rn lit bindings declared)
  then show ?case using encode_literal_total[of rn lit] by auto
next
  case (3 c rn name bindings declared)
  then show ?case using encode_string_total[of name] by auto
next
  case (4 c rn enum_name symbol bindings declared)
  then show ?case using encode_string_total[of enum_name] encode_string_total[of symbol] by auto
next
  case (5 c rn items bindings declared)
  from "5.prems"(1) obtain first rest ce item_type where items: "items = first # rest"
    and first: "check_expression c rn first bindings declared = Ok ce" "ce_type ce = Concrete item_type"
    and rest: "check_items c rn item_type rest bindings declared = Ok ()" "t = Concrete (TList item_type)"
    using check_list_Ok by blast
  show ?case
  proof (intro allI impI)
    fix expected t'
    assume e: "expected_ok t expected" "pred_option type_fits expected" "kind_fits (ListOf items)"
      "expression_type (Expr sp (ListOf items)) ctx expected = Some t'"
    let ?item = "case expected of Some (TList t) \<Rightarrow> Some t | _ \<Rightarrow> None"
    obtain x where x: "t' = TList x" "expression_type first ctx ?item = Some x" using e(4) items by auto
    have i: "expected_ok (ce_type ce) ?item" "pred_option type_fits ?item"
      using e(1,2) rest(2) first(2) by (auto simp: expected_ok_def split: option.splits rule_type.splits)
    have ex: "expectable item_type x"
      using expression_type_recomputed(1)[OF first(1) "5.prems"(2)] i(1) x(2) first(2) by (auto simp: recomputed_def)
    have fx: "type_fits x" by (rule expression_type_fits[OF x(2) "5.prems"(3) i(2)])
    have fe: "expr_fits item" if "item \<in> set items" for item using e(3) that by (auto simp: list_all_iff)
    have "\<exists>a. encode_expression item ctx (Some x) = Some a" if "item \<in> set items" for item
    proof (cases "item = first")
      case True
      then show ?thesis
        using spec[OF "5.IH"(1)[OF items first(1) "5.prems"(2,3)], of "Some x"] ex fx first(2) fe[OF that] by simp
    next
      case False
      then have "item \<in> set rest" using that items by simp
      then show ?thesis using "5.IH"(2)[OF items first rest(1) "5.prems"(2,3)] ex fx fe[OF that] by blast
    qed
    then have "\<exists>a. emit ([Some (byte 35), encode_count (length items)] @ map (\<lambda>item. encode_expression item ctx (Some x)) items) = Some a"
      using e(3) by (intro encode_items_total) auto
    then show "\<exists>a. encode_node (ListOf items) ctx t' = Some a" by (simp only: x(1) encode_node.simps rule_type.case)
  qed
next
  case (6 c rn target field bindings declared)
  from "6.prems"(1) obtain ce where ce: "check_expression c rn target bindings declared = Ok ce"
    and m: "check_member rn (ce_type ce) field = Ok t" by auto
  obtain u where "ce_type ce = Concrete u" using check_member_Ok[OF m] by blast
  then have "expr_fits target \<Longrightarrow> \<exists>a. encode_expression target ctx None = Some a"
    using spec[OF "6.IH"[OF ce "6.prems"(2,3)], of None] by simp
  then show ?case using encode_string_total[of field] by auto
next
  case (7 c rn target index bindings declared)
  from "7.prems"(1) obtain ce where ce: "check_expression c rn target bindings declared = Ok ce"
    and m: "check_index rn (ce_type ce) = Ok t" by auto
  obtain u where "ce_type ce = Concrete u" using check_index_Ok[OF m] by blast
  then have "expr_fits target \<Longrightarrow> \<exists>a. encode_expression target ctx None = Some a"
    using spec[OF "7.IH"[OF ce "7.prems"(2,3)], of None] by simp
  then show ?case using encode_count_total[of index] by auto
next
  case (8 c rn f arguments bindings declared)
  from "8.prems"(1) obtain ts where ts: "check_arguments c rn arguments bindings declared = Ok ts"
    and f: "check_call_types rn f ts = Ok t" by auto
  have args: "\<exists>a. encode_expression e ctx None = Some a" if "e \<in> set arguments" "expr_fits e" for e
    using "8.IH"[OF ts "8.prems"(2,3)] check_call_arguments[OF f] that by blast
  show ?case
  proof (intro allI impI)
    fix expected t' assume "kind_fits (Call f arguments)"
    then have "\<exists>a. emit ([Some (byte (function_tag f)), encode_count (length arguments)] @
        map (\<lambda>argument. encode_expression argument ctx None) arguments) = Some a"
      using args by (intro encode_items_total) (auto simp: list_all_iff)
    then show "\<exists>a. encode_node (Call f arguments) ctx t' = Some a" by auto
  qed
next
  case (9 c rn op operand bindings declared)
  from "9.prems"(1) obtain ce u where ce: "check_expression c rn operand bindings declared = Ok ce"
    and u: "ce_type ce = Concrete u" by (auto elim!: required_concrete_Ok)
  then have "expr_fits operand \<Longrightarrow> \<exists>a. encode_expression operand ctx None = Some a"
    using spec[OF "9.IH"[OF ce "9.prems"(2,3)], of None] by simp
  then show ?case by auto
next
  case (10 c rn op left right bindings declared)
  from "10.prems"(1) obtain l r where l: "check_expression c rn left bindings declared = Ok l"
    and r: "check_expression c rn right bindings declared = Ok r"
    and t: "check_binary rn op (ce_type l) (ce_type r) = Ok t"
    by (auto split: if_splits)
  obtain el er where e: "equality_expected_types left right ctx = Some (el, er)" "expected_ok (ce_type l) el"
      "expected_ok (ce_type r) er" "pred_option type_fits el" "pred_option type_fits er"
    using equality_expected_ok[OF l r t "10.prems"(2,3)] by blast
  have "expr_fits left \<Longrightarrow> \<exists>a. encode_expression left ctx el = Some a" "expr_fits right \<Longrightarrow> \<exists>a. encode_expression right ctx er = Some a"
    using spec[OF "10.IH"(1)[OF l "10.prems"(2,3)], of el] spec[OF "10.IH"(2)[OF l r "10.prems"(2,3)], of er] e by auto
  then show ?case using e(1) by auto
next
  case (11 c rn condition when_true when_false bindings declared)
  from "11.prems"(1) obtain cc ct cf where cond: "check_expression c rn condition bindings declared = Ok cc"
      "expect_bool rn (ce_type cc) = Ok ()"
    and tr: "check_expression c rn when_true bindings declared = Ok ct"
    and fa: "check_expression c rn when_false bindings declared = Ok cf"
    and t: "merge_branch_types rn (ce_type ct) (ce_type cf) = Ok t"
    by auto
  have bool: "ce_type cc = Concrete TBool" using cond(2) by (auto simp: expect_bool_def elim!: required_concrete_Ok split: if_splits)
  show ?case
  proof (intro allI impI)
    fix expected t'
    assume e: "expected_ok t expected" "pred_option type_fits expected" "kind_fits (Conditional condition when_true when_false)"
      and t': "expression_type (Expr sp (Conditional condition when_true when_false)) ctx expected = Some t'"
    have f: "type_fits t'" by (rule expression_type_fits[OF t' "11.prems"(3) e(2)])
    have "recomputed t expected (Some t')"
      using expression_type_recomputed(2)[OF "11.prems"(1,2), of sp] e(1) t' by auto
    then have "expected_ok t (Some t')" using merge_Concrete[OF t] by (cases t) (auto simp: recomputed_def)
    note ok = merge_expected[OF t this]
    have "\<exists>a. encode_expression condition ctx (Some TBool) = Some a"
      using spec[OF "11.IH"(1)[OF cond(1) "11.prems"(2,3)], of "Some TBool"] bool e(3) by simp
    moreover have "\<exists>a. encode_expression when_true ctx (Some t') = Some a"
      using spec[OF "11.IH"(2)[OF cond tr "11.prems"(2,3)], of "Some t'"] ok(1) f e(3) by simp
    moreover have "\<exists>a. encode_expression when_false ctx (Some t') = Some a"
      using spec[OF "11.IH"(3)[OF cond tr fa "11.prems"(2,3)], of "Some t'"] ok(2) f e(3) by simp
    ultimately show "\<exists>a. encode_node (Conditional condition when_true when_false) ctx t' = Some a" by auto
  qed
next
  case (12 c rn item_type bindings declared)
  then show ?case by simp
next
  case (13 c rn item_type item rest bindings declared)
  from "13.prems"(1) obtain ce where item: "check_expression c rn item bindings declared = Ok ce"
      "ce_type ce = Concrete item_type"
    and rest: "check_items c rn item_type rest bindings declared = Ok u"
    by (auto split: if_splits)
  have "\<exists>a. encode_expression item ctx (Some x) = Some a" if "expectable item_type x" "type_fits x" "expr_fits item" for x
    using spec[OF "13.IH"(1)[OF item(1) "13.prems"(2,3)], of "Some x"] item(2) that by simp
  then show ?case using "13.IH"(2)[OF item(1) _ rest "13.prems"(2,3)] item(2) by auto
next
  case (14 c rn bindings declared)
  then show ?case by simp
next
  case (15 c rn argument rest bindings declared)
  from "15.prems"(1) obtain ce ts' where argument: "check_expression c rn argument bindings declared = Ok ce"
    and rest: "check_arguments c rn rest bindings declared = Ok ts'" "ts = ce_type ce # ts'" by auto
  have "\<exists>a. encode_expression argument ctx None = Some a" if "ce_type ce \<noteq> NullType" "expr_fits argument"
    using spec[OF "15.IH"(1)[OF argument "15.prems"(2,3)], of None] that by (cases "ce_type ce") auto
  then show ?case using "15.IH"(2)[OF argument rest(1) "15.prems"(2,3)] rest(2) by auto
qed

section \<open>Compiling a rule\<close>

lemma fits_code [code]: "fits n \<longleftrightarrow> int n \<le> 4294967295"
  by (simp add: fits_def)

text \<open>The texts and counts of a definition fit \<open>u32\<close>.\<close>

definition map_fits :: "type_map \<Rightarrow> bool" where
  "map_fits m \<longleftrightarrow> fits (length m) \<and> list_all (\<lambda>(n, t). fits (length n) \<and> type_fits t) m"

definition rule_fits :: "rule_definition \<Rightarrow> bool" where
  "rule_fits defn \<longleftrightarrow> fits (length (rd_name defn)) \<and> map_fits (rd_bindings defn) \<and> type_fits (rd_result defn)"

lemma assignable_expected: "is_assignable ct r \<Longrightarrow> expected_ok ct (Some r)"
  by (cases ct) auto

lemma rule_record_total:
  assumes "accepted (cr_bindings rule) declared source (cr_expression rule)"
    and "is_assignable (ce_type (cr_expression rule)) (cr_result rule)" "expr_fits (ce_expression (cr_expression rule))"
    and "fits (length (cr_name rule))" "map_fits (cr_bindings rule)" "type_fits (cr_result rule)"
    and "snd ` set declared \<subseteq> set (cr_declared_types rule)" "list_all type_fits (cr_declared_types rule)"
  shows "\<exists>a. encode_rule_record rule = Some a"
proof -
  let ?ctx = "\<lparr>cec_bindings = cr_bindings rule, cec_declared_types = cr_declared_types rule\<rparr>"
  obtain c rn where ch: "check_expression c rn (ce_expression (cr_expression rule)) (cr_bindings rule) declared = Ok (cr_expression rule)"
    using assms(1) by (auto simp: accepted_def)
  have "covers ?ctx (cr_bindings rule) declared" "context_fits ?ctx"
    using assms(5,7,8) by (auto simp: covers_def context_fits_def map_fits_def list_all_iff)
  from spec[OF encode_expression_total(1)[OF ch this], of "Some (cr_result rule)"]
  have "\<exists>a. encode_expression (ce_expression (cr_expression rule)) ?ctx (Some (cr_result rule)) = Some a"
    using assignable_expected[OF assms(2)] assms(3,6) by simp
  moreover have "\<exists>a. encode_string (cr_name rule) = Some a" "\<exists>a. encode_type (cr_result rule) = Some a"
      "\<exists>a. encode_type_map (cr_bindings rule) = Some a"
    using assms(4-6) encode_string_total encode_type_total encode_type_map_total by (auto simp: map_fits_def)
  ultimately show ?thesis unfolding encode_rule_record_def by (intro emit_total) auto
qed

lemma compiled_source:
  assumes "(if contexts \<noteq> None then run_bind (Some (ok_or err location)) (\<lambda>ctx.
      compile_expression_in_context_with_declared_types ctx source bindings declared)
    else compile_expression name source bindings declared) = r"
  shows "r \<noteq> None \<and> (\<forall>checked. r = Some (Ok checked) \<longrightarrow> accepted bindings declared source checked)"
  using assms compile_expression_accepted compile_expression_total
  by (cases contexts; cases location) auto

section \<open>Properties\<close>

text \<open>
  (C30) Compiling a rule never panics: every expression that the checker accepts can be written as a
  canonical record, and a rejected one gives an error value. The texts, counts and list indices of the
  definition are assumed to fit \<open>u32\<close>, and the declarations to hold the declared types.
\<close>

theorem rule_compilation_never_panics:
  assumes "rule_fits defn" "\<And>rn e. parse_expression rn (rd_expression defn) = Ok e \<Longrightarrow> expr_fits e"
    and "snd ` set declared \<subseteq> set declarations" "list_all type_fits declarations"
  shows "compile_rule ext declared declarations contexts i defn \<noteq> None"
proof -
  let ?location = "Option.bind contexts (\<lambda>cs. nth_opt cs i)"
  obtain r where r: "(if contexts \<noteq> None then run_bind (Some (ok_or (InternalInvariant (rd_name defn)) ?location)) (\<lambda>ctx.
      compile_expression_in_context_with_declared_types ctx (rd_expression defn) (rd_bindings defn) declared)
    else compile_expression (rd_name defn) (rd_expression defn) (rd_bindings defn) declared) = r" by blast
  note c = compiled_source[OF r]
  show ?thesis
  proof (cases "\<exists>checked. r = Some (Ok checked)")
    case False
    then have "\<exists>e. r = Some (Err e)" using c by (cases r) (auto intro: result.exhaust)
    then show ?thesis unfolding compile_rule_def Let_def r by auto
  next
    case True
    then obtain checked where k: "r = Some (Ok checked)" by blast
    have acc: "accepted (rd_bindings defn) declared (rd_expression defn) checked" using c k by simp
    then have fit: "expr_fits (ce_expression checked)" using assms(2) by (auto simp: accepted_def)
    have "encode_rule_record rule \<noteq> None"
      if "cr_name rule = rd_name defn" "cr_bindings rule = rd_bindings defn" "cr_result rule = rd_result defn"
        "cr_expression rule = checked" "cr_declared_types rule = declarations" "is_assignable (ce_type checked) (rd_result defn)" for rule
      using rule_record_total[of rule declared "rd_expression defn"] that acc fit assms(1,3,4) by (simp add: rule_fits_def)
    then have bytes: "unpanic (canonical_bytes ext TypedRuleAst (CvTypedRule rule)) \<noteq> None"
      if "cr_name rule = rd_name defn" "cr_bindings rule = rd_bindings defn" "cr_result rule = rd_result defn"
        "cr_expression rule = checked" "cr_declared_types rule = declarations" "is_assignable (ce_type checked) (rd_result defn)"
      for rule
      using that by (simp add: canonical_bytes_def emit_Cons unpanic_def del: not_None_eq)
    show ?thesis
      unfolding compile_rule_def Let_def r k
      by (cases "is_assignable (ce_type checked) (rd_result defn)") (simp_all add: bytes del: not_None_eq)
  qed
qed

theorem rule_compilation_never_panics_witness:
  "rule_fits sample_rule \<and> compile_rule text_externs [] [] None 0 sample_rule \<noteq> None"
proof -
  have p: "case parse_expression rn ''age >= 18'' of Ok e \<Rightarrow> expr_fits e | Err _ \<Rightarrow> True" for rn
    by code_simp
  have f: "rule_fits sample_rule" by code_simp
  have "expr_fits e" if "parse_expression rn (rd_expression sample_rule) = Ok e" for rn e
    using p[of rn] that by (simp add: sample_rule_def)
  from rule_compilation_never_panics[OF f this, where declared = "[]" and declarations = "[]"] f show ?thesis by simp
qed

text \<open>
  The bound on list indices is needed: the checker accepts an index of \<open>2 ^ 32\<close>, and writing the
  canonical record of the expression panics.
\<close>

theorem large_index_panics:
  "let e = Expr (Span 0 14) (Index (Expr (Span 0 2) (Name ''xs'')) 4294967296) in
   check_expression None ''r'' e [(''xs'', TList TInt)] [] = Ok (checked e (Concrete (TNullable TInt))) \<and>
   encode_expression e \<lparr>cec_bindings = [(''xs'', TList TInt)], cec_declared_types = []\<rparr> (Some (TNullable TInt)) = None"
proof -
  have "\<not> fits 4294967296" by (simp add: fits_def)
  then have "encode_count 4294967296 = None" by (cases "encode_count 4294967296") (auto simp: encode_count_Some)
  then show ?thesis
    by (simp add: Let_def checked_def check_name_def check_index_def access_result_type_def emit_Cons)
qed

end
