(* ===== verification/Rate_Limit.thy ===== *)
theory Rate_Limit
  imports Prelude "HOL-Library.Word"
begin

text \<open>
  The rate limiter of the server (\<open>crates/server/src/ratelimit.rs\<close>): fixed windows of a minute,
  counted per role and tenant, in a map that is swept when it grows. The mutex makes every call of
  \<open>admit\<close> one atomic step, so a run of the limiter is a sequence of calls; the clock reading of each
  call is part of it. A build without overflow checks wraps the counter of a window at 32 bits.

  The map is a \<open>HashMap\<close>, modelled by an association list with distinct keys; what \<open>admit\<close> relies on
  is the contract \<open>hash_map\<close>, and the counting argument is carried out in it.
\<close>

section \<open>The map\<close>

text \<open>\<open>HashMap::insert\<close> (an \<open>entry\<close> written through), \<open>retain\<close> and \<open>len\<close>.\<close>

fun hm_insert :: "'k \<Rightarrow> 'v \<Rightarrow> ('k \<times> 'v) list \<Rightarrow> ('k \<times> 'v) list" where
  "hm_insert k v [] = [(k, v)]"
| "hm_insert k v ((k', v') # m) = (if k = k' then (k, v) # m else (k', v') # hm_insert k v m)"

definition hm_retain :: "('v \<Rightarrow> bool) \<Rightarrow> ('k \<times> 'v) list \<Rightarrow> ('k \<times> 'v) list" where
  "hm_retain P m = filter (\<lambda>(_, v). P v) m"

definition hm_wf :: "('k \<times> 'v) list \<Rightarrow> bool" where
  "hm_wf m \<longleftrightarrow> distinct (map fst m)"

section \<open>The limiter\<close>

type_synonym key = "string \<times> string"

record window =
  minute :: nat
  count :: "32 word"

record rate_limiter =
  windows :: "(key \<times> window) list"
  poisoned :: bool

definition SWEEP_ABOVE :: nat where
  "SWEEP_ABOVE = 4096"

definition default_limiter :: rate_limiter where
  "default_limiter = \<lparr>windows = [], poisoned = False\<rparr>"

text \<open>\<open>SystemTime::now()\<close> in seconds relative to the epoch; a clock before the epoch reads as minute 0.\<close>

definition current_minute :: "int \<Rightarrow> nat" where
  "current_minute now = (if now < 0 then 0 else nat now div 60)"

definition sweep :: "nat \<Rightarrow> (key \<times> window) list \<Rightarrow> (key \<times> window) list" where
  "sweep m ws = (if length ws > SWEEP_ABOVE then hm_retain (\<lambda>w. minute w \<ge> m) ws else ws)"

text \<open>The window of a key at a minute: a fresh one for a new key or for a window of another minute.\<close>

definition window_at :: "nat \<Rightarrow> window option \<Rightarrow> window" where
  "window_at m w =
     (case w of
        None \<Rightarrow> \<lparr>minute = m, count = 0\<rparr>
      | Some w \<Rightarrow> if minute w \<noteq> m then \<lparr>minute = m, count = 0\<rparr> else w)"

definition admit :: "int \<Rightarrow> string \<Rightarrow> string \<Rightarrow> 32 word \<Rightarrow> rate_limiter \<Rightarrow> bool \<times> rate_limiter" where
  "admit now role tenant per_minute st =
     (let m = current_minute now; key = (role, tenant) in
      if poisoned st then (True, st)
      else
        let ws = sweep m (windows st);
            w = window_at m (map_of ws key);
            w' = w\<lparr>count := count w + 1\<rparr>
        in (count w' \<le> per_minute, st\<lparr>windows := hm_insert key w' ws\<rparr>))"

section \<open>Runs\<close>

record request =
  at_time :: int
  role :: string
  tenant :: string
  ceiling :: "32 word"

definition request_key :: "request \<Rightarrow> key" where
  "request_key r = (role r, tenant r)"

definition request_minute :: "request \<Rightarrow> nat" where
  "request_minute r = current_minute (at_time r)"

fun serve :: "rate_limiter \<Rightarrow> request list \<Rightarrow> bool list \<times> rate_limiter" where
  "serve st [] = ([], st)"
| "serve st (r # rs) =
     (let (b, st') = admit (at_time r) (role r) (tenant r) (ceiling r) st;
          (bs, st'') = serve st' rs
      in (b # bs, st''))"

text \<open>The states a limiter can reach: it starts empty and every step is a call of \<open>admit\<close>.\<close>

inductive reachable :: "rate_limiter \<Rightarrow> request list \<Rightarrow> bool" where
  start: "reachable default_limiter []"
| step: "reachable st rs \<Longrightarrow> admit (at_time r) (role r) (tenant r) (ceiling r) st = (b, st') \<Longrightarrow>
     reachable st' (rs @ [r])"

section \<open>The contract of the map\<close>

locale hash_map =
  fixes empty :: "'m"
    and insert :: "'k \<Rightarrow> 'v \<Rightarrow> 'm \<Rightarrow> 'm"
    and lookup :: "'m \<Rightarrow> 'k \<Rightarrow> 'v option"
    and retain :: "('v \<Rightarrow> bool) \<Rightarrow> 'm \<Rightarrow> 'm"
    and size_of :: "'m \<Rightarrow> nat"
    and valid :: "'m \<Rightarrow> bool"
  assumes lookup_empty: "lookup empty k = None"
    and lookup_insert: "valid m \<Longrightarrow> lookup (insert k v m) k' = (if k' = k then Some v else lookup m k')"
    and lookup_retain: "valid m \<Longrightarrow> lookup (retain P m) k =
      (case lookup m k of None \<Rightarrow> None | Some v \<Rightarrow> if P v then Some v else None)"
    and size_is_card: "valid m \<Longrightarrow> size_of m = card {k. lookup m k \<noteq> None}"
    and keys_finite: "valid m \<Longrightarrow> finite {k. lookup m k \<noteq> None}"
    and valid_empty: "valid empty"
    and valid_insert: "valid m \<Longrightarrow> valid (insert k v m)"
    and valid_retain: "valid m \<Longrightarrow> valid (retain P m)"
begin

text \<open>Dropping entries that do not count for a test changes no answer of the test.\<close>

lemma retain_keeps: "valid m \<Longrightarrow> (\<And>v. lookup m k = Some v \<Longrightarrow> Q v \<Longrightarrow> P v) \<Longrightarrow>
  (\<exists>v. lookup (retain P m) k = Some v \<and> Q v) \<longleftrightarrow> (\<exists>v. lookup m k = Some v \<and> Q v)"
  by (auto simp: lookup_retain split: option.splits)

lemma retain_all: "valid m \<Longrightarrow> lookup (retain P m) k = Some v \<Longrightarrow> P v"
  by (auto simp: lookup_retain split: option.splits if_splits)

lemma insert_size: "valid m \<Longrightarrow> size_of (insert k v m) \<le> Suc (size_of m)"
proof -
  assume m: "valid m"
  have "{k'. lookup (insert k v m) k' \<noteq> None} = Set.insert k {k'. lookup m k' \<noteq> None}"
    using m by (auto simp: lookup_insert)
  then show ?thesis
    using m card_insert_le_m1 card_insert_if[OF keys_finite[OF m]] by (simp add: size_is_card valid_insert)
qed

lemma size_within: "valid m \<Longrightarrow> finite K \<Longrightarrow> (\<And>k v. lookup m k = Some v \<Longrightarrow> k \<in> K) \<Longrightarrow> size_of m \<le> card K"
  by (auto simp: size_is_card intro!: card_mono)

end

lemma map_of_hm_insert: "map_of (hm_insert k v m) k' = (if k' = k then Some v else map_of m k')"
  by (induction m) auto

lemma keys_hm_insert: "fst ` set (hm_insert k v m) = insert k (fst ` set m)"
  by (induction k v m rule: hm_insert.induct) (simp_all add: insert_commute)

lemma distinct_hm_insert: "distinct (map fst m) \<Longrightarrow> distinct (map fst (hm_insert k v m))"
  by (induction m) (auto simp: keys_hm_insert)

lemma map_of_hm_retain:
  "distinct (map fst m) \<Longrightarrow> map_of (hm_retain P m) k =
     (case map_of m k of None \<Rightarrow> None | Some v \<Rightarrow> if P v then Some v else None)"
  by (induction m) (auto simp: hm_retain_def split: option.splits dest!: map_of_SomeD intro: rev_image_eqI)

lemma distinct_hm_retain: "distinct (map fst m) \<Longrightarrow> distinct (map fst (hm_retain P m))"
  by (induction m) (auto simp: hm_retain_def)

interpretation hm: hash_map "[] :: ('k \<times> 'v) list" hm_insert map_of hm_retain length hm_wf
proof unfold_locales
  fix m :: "('k \<times> 'v) list"
  assume m: "hm_wf m"
  have keys: "{k. map_of m k \<noteq> None} = set (map fst m)"
    by (auto simp: map_of_eq_None_iff image_iff)
  show "length m = card {k. map_of m k \<noteq> None}"
    unfolding keys using m distinct_card[of "map fst m"] by (simp add: hm_wf_def)
  show "finite {k. map_of m k \<noteq> None}" unfolding keys by simp
qed (auto simp: hm_wf_def map_of_hm_insert map_of_hm_retain distinct_hm_insert distinct_hm_retain)

section \<open>Counting\<close>

definition hits :: "key \<Rightarrow> nat \<Rightarrow> request list \<Rightarrow> nat" where
  "hits k m rs = length (filter (\<lambda>r. request_key r = k \<and> request_minute r = m) rs)"

lemma hits_Nil [simp]: "hits k m [] = 0"
  by (simp add: hits_def)

lemma hits_append [simp]: "hits k m (rs @ rs') = hits k m rs + hits k m rs'"
  by (simp add: hits_def)

lemma hits_Cons: "hits k m (r # rs) = (if request_key r = k \<and> request_minute r = m then 1 else 0) + hits k m rs"
  by (simp add: hits_def)

lemma hits_le: "hits k m rs \<le> length rs"
  by (simp add: hits_def)

text \<open>What the map counts for a key in a minute.\<close>

definition counted :: "rate_limiter \<Rightarrow> key \<Rightarrow> nat \<Rightarrow> 32 word" where
  "counted st k m = count (window_at m (map_of (windows st) k))"

text \<open>
  The invariant: the map is well formed, no window lies in the future of the last clock reading, and
  for the minutes that can still be asked about it counts the calls so far.
\<close>

definition limiter_inv :: "nat \<Rightarrow> rate_limiter \<Rightarrow> request list \<Rightarrow> bool" where
  "limiter_inv now st rs \<longleftrightarrow>
     \<not> poisoned st \<and> hm_wf (windows st) \<and> (\<forall>k m. now \<le> m \<longrightarrow> counted st k m = of_nat (hits k m rs)) \<and>
     (\<forall>r \<in> set rs. request_minute r \<le> now)"

lemma minute_window_at [simp]: "minute (window_at m w) = m"
  by (simp add: window_at_def split: option.splits)

lemma window_at_idem [simp]: "window_at m (Some (window_at m w)) = window_at m w"
  by (simp add: window_at_def split: option.splits)

lemma window_at_same: "minute w = m \<Longrightarrow> window_at m (Some w) = w"
  by (simp add: window_at_def)

lemma window_at_other: "minute w \<noteq> m \<Longrightarrow> count (window_at m (Some w)) = 0"
  by (simp add: window_at_def)

lemma hm_wf_sweep: "hm_wf ws \<Longrightarrow> hm_wf (sweep m ws)"
  by (simp add: sweep_def hm.valid_retain)

text \<open>Sweeping is invisible to the current minute and to later ones.\<close>

lemma sweep_invisible:
  assumes "hm_wf ws" "m \<le> m'"
  shows "window_at m' (map_of (sweep m ws) k) = window_at m' (map_of ws k)"
  using assms by (auto simp: sweep_def hm.lookup_retain window_at_def split: option.splits)

lemma admit_open:
  assumes "\<not> poisoned st"
  shows "admit now rl tn c st =
    (let m = current_minute now; w = window_at m (map_of (sweep m (windows st)) (rl, tn)) in
     (count w + 1 \<le> c, st\<lparr>windows := hm_insert (rl, tn) (w\<lparr>count := count w + 1\<rparr>) (sweep m (windows st))\<rparr>))"
  using assms by (simp add: admit_def Let_def)

lemma admit_windows:
  assumes "\<not> poisoned st" "admit now rl tn c st = (b, st')"
  defines "m \<equiv> current_minute now"
  defines "w \<equiv> window_at m (map_of (sweep m (windows st)) (rl, tn))"
  shows "windows st' = hm_insert (rl, tn) (w\<lparr>count := count w + 1\<rparr>) (sweep m (windows st))"
    "poisoned st' = poisoned st" "minute (w\<lparr>count := count w + 1\<rparr>) = m"
  using assms(2) unfolding admit_open[OF assms(1)] by (auto simp: Let_def m_def w_def)

lemma admit_step:
  assumes inv: "limiter_inv now st rs" and le: "now \<le> request_minute r"
    and "admit (at_time r) (role r) (tenant r) (ceiling r) st = (b, st')"
  shows "limiter_inv (request_minute r) st' (rs @ [r]) \<and>
    b = (of_nat (hits (request_key r) (request_minute r) (rs @ [r])) \<le> ceiling r)"
proof -
  let ?m = "request_minute r" and ?k = "request_key r"
  let ?ws = "sweep ?m (windows st)"
  let ?w = "window_at ?m (map_of ?ws ?k)"
  have st: "\<not> poisoned st" and wf: "hm_wf (windows st)" using inv by (auto simp: limiter_inv_def)
  have res: "b = (count ?w + 1 \<le> ceiling r)"
    "st' = st\<lparr>windows := hm_insert ?k (?w\<lparr>count := count ?w + 1\<rparr>) ?ws\<rparr>"
    using assms(3) unfolding admit_open[OF st] by (auto simp: Let_def request_key_def request_minute_def)
  have seen: "count (window_at m (map_of ?ws k)) = of_nat (hits k m rs)" if "?m \<le> m" for k m
    using sweep_invisible[OF wf that, of k] inv le that by (cases k) (simp add: limiter_inv_def counted_def)
  have "counted st' k m = of_nat (hits k m (rs @ [r]))" if m: "?m \<le> m" for k m
  proof (cases "k = ?k \<and> m = ?m")
    case True
    then show ?thesis using seen[of ?m ?k]
      by (simp add: counted_def res hm.lookup_insert hm_wf_sweep wf hits_Cons window_at_same)
  next
    case False
    then have "window_at m (map_of (windows st') k) = window_at m (map_of ?ws k) \<or>
        count (window_at m (map_of (windows st') k)) = 0 \<and> k = ?k \<and> m \<noteq> ?m"
      by (auto simp: res hm.lookup_insert hm_wf_sweep wf window_at_other)
    moreover have "hits ?k m rs = 0" if "m \<noteq> ?m"
      using m le inv that by (auto simp: hits_def filter_empty_conv limiter_inv_def)
    ultimately show ?thesis using seen[OF m, of k] False by (auto simp: counted_def hits_Cons)
  qed
  then have "limiter_inv ?m st' (rs @ [r])"
    using inv le by (auto simp: limiter_inv_def res hm.valid_insert hm_wf_sweep)
  moreover have "b = (of_nat (hits ?k ?m (rs @ [r])) \<le> ceiling r)"
    using seen[of ?m ?k] by (simp add: res hits_Cons add.commute)
  ultimately show ?thesis by blast
qed

lemma current_minute_mono: "s \<le> t \<Longrightarrow> current_minute s \<le> current_minute t"
  by (auto simp: current_minute_def intro!: div_le_mono)

lemma default_inv: "limiter_inv 0 default_limiter []"
  by (simp add: limiter_inv_def default_limiter_def counted_def window_at_def hm_wf_def)

text \<open>The reference: a call is admitted when the calls of its key in its minute, itself included, do
  not exceed its ceiling.\<close>

fun decisions :: "request list \<Rightarrow> request list \<Rightarrow> bool list" where
  "decisions past [] = []"
| "decisions past (r # rs) =
     (hits (request_key r) (request_minute r) (past @ [r]) \<le> unat (ceiling r)) # decisions (past @ [r]) rs"

lemma of_nat_le_word: "n < 2 ^ 32 \<Longrightarrow> (of_nat n \<le> (c :: 32 word)) = (n \<le> unat c)"
  by (simp add: word_le_nat_alt unat_of_nat)

lemma serve_decisions:
  assumes "limiter_inv now st past" "sorted (map at_time rs)" "rs \<noteq> [] \<Longrightarrow> now \<le> request_minute (hd rs)"
    "length past + length rs < 2 ^ 32"
  shows "fst (serve st rs) = decisions past rs \<and> (\<exists>now'. limiter_inv now' (snd (serve st rs)) (past @ rs))"
  using assms
proof (induction rs arbitrary: st past now)
  case (Cons r rs)
  obtain b st' where a: "admit (at_time r) (role r) (tenant r) (ceiling r) st = (b, st')" by fastforce
  have st': "limiter_inv (request_minute r) st' (past @ [r])"
    and b: "b = (of_nat (hits (request_key r) (request_minute r) (past @ [r])) \<le> ceiling r)"
    using admit_step[OF Cons.prems(1) _ a] Cons.prems(3) by auto
  have "request_minute r \<le> request_minute (hd rs)" if "rs \<noteq> []"
    using Cons.prems(2) that by (cases rs) (auto simp: request_minute_def intro: current_minute_mono)
  moreover have "b = (hits (request_key r) (request_minute r) (past @ [r]) \<le> unat (ceiling r))"
    unfolding b by (rule of_nat_le_word) (rule le_less_trans[OF hits_le], use Cons.prems(4) in simp)
  ultimately show ?case
    using Cons.IH[OF st'] Cons.prems(2,4) a by (simp add: split_beta)
qed auto

section \<open>Admitted calls\<close>

definition admitted :: "(request \<Rightarrow> bool) \<Rightarrow> request list \<Rightarrow> bool list \<Rightarrow> nat" where
  "admitted P rs bs = length (filter (\<lambda>(r, b). b \<and> P r) (zip rs bs))"

lemma length_decisions [simp]: "length (decisions past rs) = length rs"
  by (induction past rs rule: decisions.induct) auto

lemma admitted_Cons [simp]: "admitted P (r # rs) (b # bs) = (if b \<and> P r then 1 else 0) + admitted P rs bs"
  by (simp add: admitted_def)

lemma admitted_Nil [simp]: "admitted P [] bs = 0"
  by (simp add: admitted_def)

lemma admitted_decisions:
  assumes "\<forall>r \<in> set rs. request_key r = k \<longrightarrow> ceiling r = c"
  shows "min (unat c) (hits k m past) + admitted (\<lambda>r. request_key r = k \<and> request_minute r = m) rs (decisions past rs) =
    min (unat c) (hits k m (past @ rs))"
  using assms
proof (induction past rs rule: decisions.induct)
  case (2 past r rs)
  then show ?case by (auto simp: hits_Cons)
qed simp

lemma admitted_mono: "(\<And>r. r \<in> set rs \<Longrightarrow> P r \<Longrightarrow> Q r) \<Longrightarrow> admitted P rs bs \<le> admitted Q rs bs"
proof (induction rs arbitrary: bs)
  case (Cons r rs)
  then show ?case by (cases bs) (auto simp: admitted_def intro: le_SucI)
qed simp

lemma admitted_disj: "admitted (\<lambda>r. P r \<or> Q r) rs bs \<le> admitted P rs bs + admitted Q rs bs"
proof (induction rs arbitrary: bs)
  case (Cons r rs)
  then show ?case by (cases bs) (auto simp: admitted_def intro: le_SucI)
qed simp

lemma interval_minutes:
  assumes "0 \<le> t" "t \<le> s" "s < t + 60"
  shows "current_minute s = current_minute t \<or> current_minute s = Suc (current_minute t)"
proof -
  have "s = int (nat s)" "t = int (nat t)" using assms by auto
  with assms have "nat t \<le> nat s" "nat s < nat t + 60" by linarith+
  moreover have "a div 60 = b div 60 \<or> a div 60 = Suc (b div 60)" if "b \<le> a" "a < b + 60" for a b :: nat
    using div_le_mono[OF that(1), of 60] div_le_mono[of a "b + 60" 60] that(2) by fastforce
  ultimately have "nat s div 60 = nat t div 60 \<or> nat s div 60 = Suc (nat t div 60)" by blast
  then show ?thesis using assms by (simp add: current_minute_def)
qed

section \<open>Size\<close>

lemma admit_size:
  assumes wf: "hm_wf (windows st)" and a: "admit now rl tn c st = (b, st')" and "\<not> poisoned st"
  shows "length (windows st') \<le> Suc SWEEP_ABOVE \<or>
    (\<forall>k w. map_of (windows st') k = Some w \<longrightarrow> current_minute now \<le> minute w)"
proof (cases "length (windows st) > SWEEP_ABOVE")
  case True
  have swept: "current_minute now \<le> minute w" if "map_of (sweep (current_minute now) (windows st)) k = Some w" for k w
    by (rule hm.retain_all[OF wf, of "\<lambda>w. current_minute now \<le> minute w" k]) (use True that in \<open>simp add: sweep_def\<close>)
  show ?thesis
  proof (intro disjI2 allI impI)
    fix k w
    assume "map_of (windows st') k = Some w"
    then show "current_minute now \<le> minute w"
      unfolding admit_windows(1)[OF assms(3) a] hm.lookup_insert[OF hm_wf_sweep[OF wf]]
      using swept admit_windows(3)[OF assms(3) a] by (auto split: if_splits)
  qed
next
  case False
  then show ?thesis
    unfolding admit_windows(1)[OF assms(3) a]
    by (intro disjI1) (auto simp: sweep_def intro!: order_trans[OF hm.insert_size[OF wf]])
qed

text \<open>Every window is the trace of a call at its minute.\<close>

definition windows_called :: "rate_limiter \<Rightarrow> request list \<Rightarrow> bool" where
  "windows_called st rs \<longleftrightarrow>
     (\<forall>k w. map_of (windows st) k = Some w \<longrightarrow> (\<exists>r \<in> set rs. request_key r = k \<and> request_minute r = minute w))"

lemma sweep_lookup: "hm_wf ws \<Longrightarrow> map_of (sweep m ws) k = Some w \<Longrightarrow> map_of ws k = Some w"
  by (auto simp: sweep_def hm.lookup_retain split: option.splits if_splits)

lemma reachable_wf: "reachable st rs \<Longrightarrow> \<not> poisoned st \<and> hm_wf (windows st) \<and> windows_called st rs"
proof (induction rule: reachable.induct)
  case (step st rs r b st')
  then have st: "\<not> poisoned st" and wf: "hm_wf (windows st)" and called: "windows_called st rs" by auto
  note step_windows = admit_windows[OF st step(2)]
  have "windows_called st' (rs @ [r])"
    unfolding windows_called_def step_windows(1) hm.lookup_insert[OF hm_wf_sweep[OF wf]]
    using called sweep_lookup[OF wf] step_windows(3)
    by (fastforce simp: windows_called_def request_key_def request_minute_def split: if_splits)
  then show ?case using step_windows(1,2) st by (simp add: hm.valid_insert hm_wf_sweep wf)
qed (simp add: default_limiter_def hm_wf_def windows_called_def)

inductive_cases reachable_snocE: "reachable st (rs @ [r])"

lemma reachable_serve: "snd (serve st rs) = st' \<Longrightarrow> reachable st past \<Longrightarrow> reachable st' (past @ rs)"
proof (induction rs arbitrary: st past)
  case (Cons r rs)
  obtain b st1 where a: "admit (at_time r) (role r) (tenant r) (ceiling r) st = (b, st1)" by fastforce
  then show ?case using Cons.IH[of st1 "past @ [r]"] Cons.prems reachable.step[OF Cons.prems(2) a]
    by (simp add: split_beta)
qed simp

text \<open>The calls of one key decide the answers to that key.\<close>

lemma hits_filter: "hits k m (filter (\<lambda>r. request_key r = k) rs) = hits k m rs"
  unfolding hits_def filter_filter by (rule arg_cong[of _ _ length]) (auto intro: filter_cong)

lemma decisions_filter:
  "decisions (filter (\<lambda>r. request_key r = k) past) (filter (\<lambda>r. request_key r = k) rs) =
   map snd (filter (\<lambda>(r, b). request_key r = k) (zip rs (decisions past rs)))"
proof (induction past rs rule: decisions.induct)
  case (2 past r rs)
  then show ?case by (auto simp: hits_filter)
qed simp

lemma serve_default:
  "sorted (map at_time rs) \<Longrightarrow> length rs < 2 ^ 32 \<Longrightarrow> fst (serve default_limiter rs) = decisions [] rs"
  using serve_decisions[OF default_inv, of rs] by simp

lemma sorted_filter_map: "sorted (map f rs) \<Longrightarrow> sorted (map f (filter P rs))"
  by (rule sorted_wrt_filter[of "\<lambda>x y. f x \<le> f y" rs P, folded sorted_wrt_map]) simp

section \<open>Properties\<close>

text \<open>
  (C35) The limiter counts: as long as the clock does not run backwards, each call is admitted exactly
  when the calls of its role and tenant in its minute, itself included, do not exceed the ceiling the
  call carries. The sweep, the reset of old windows and the 32-bit counter do not show.
\<close>

theorem limiter_counts_calls:
  assumes "sorted (map at_time rs)" "length rs < 2 ^ 32"
  shows "fst (serve default_limiter rs) = decisions [] rs"
  using assms by (rule serve_default)

definition sample_requests :: "request list" where
  "sample_requests =
     map (\<lambda>(s, t). \<lparr>at_time = s, role = ''customer'', tenant = t, ceiling = 2\<rparr>)
       [(10, ''alpha''), (20, ''alpha''), (30, ''alpha''), (40, ''beta''), (61, ''alpha'')]"

theorem limiter_counts_calls_witness:
  "fst (serve default_limiter sample_requests) = [True, True, False, True, True]"
proof -
  have "decisions [] sample_requests = [True, True, False, True, True]" by code_simp
  then show ?thesis using limiter_counts_calls[of sample_requests] by (simp add: sample_requests_def)
qed

text \<open>
  One role and tenant does not spend the allowance of another: the answers a key gets are those it
  would get if the other keys made no calls at all.
\<close>

theorem tenants_do_not_interfere:
  assumes "sorted (map at_time rs)" "length rs < 2 ^ 32"
  shows "map snd (filter (\<lambda>(r, b). request_key r = k) (zip rs (fst (serve default_limiter rs)))) =
    fst (serve default_limiter (filter (\<lambda>r. request_key r = k) rs))"
proof -
  have "length (filter (\<lambda>r. request_key r = k) rs) < 2 ^ 32"
    using assms(2) length_filter_le le_less_trans by blast
  then show ?thesis
    using decisions_filter[of k "[]" rs] assms by (simp add: serve_default sorted_filter_map)
qed

theorem tenants_do_not_interfere_witness:
  "fst (serve default_limiter (filter (\<lambda>r. request_key r = (''customer'', ''beta'')) sample_requests)) = [True]"
proof -
  have "map snd (filter (\<lambda>(r, b). request_key r = (''customer'', ''beta''))
      (zip sample_requests (fst (serve default_limiter sample_requests)))) = [True]"
    by code_simp
  then show ?thesis
    using tenants_do_not_interfere[of sample_requests "(''customer'', ''beta'')"]
    by (simp add: sample_requests_def)
qed

text \<open>
  The ceiling: of the calls a key makes in one minute exactly as many are admitted as the ceiling
  allows, and no stretch of sixty seconds, wherever it starts, sees more than twice the ceiling.
\<close>

theorem limiter_bounds_bursts:
  assumes "sorted (map at_time rs)" "length rs < 2 ^ 32"
    and "\<forall>r \<in> set rs. request_key r = k \<longrightarrow> ceiling r = c" and "0 \<le> t"
  shows "admitted (\<lambda>r. request_key r = k \<and> request_minute r = m) rs (fst (serve default_limiter rs)) =
      min (unat c) (hits k m rs) \<and>
    admitted (\<lambda>r. request_key r = k \<and> t \<le> at_time r \<and> at_time r < t + 60) rs (fst (serve default_limiter rs))
      \<le> 2 * unat c"
proof -
  define answers where "answers = fst (serve default_limiter rs)"
  have answers: "answers = decisions [] rs" using assms(1,2) by (simp add: answers_def serve_default)
  let ?in = "\<lambda>m r. request_key r = k \<and> request_minute r = m"
  have exact: "admitted (?in m) rs answers = min (unat c) (hits k m rs)" for m
    using admitted_decisions[OF assms(3), of m "[]"] by (simp add: answers)
  let ?m = "current_minute t"
  have "admitted (\<lambda>r. request_key r = k \<and> t \<le> at_time r \<and> at_time r < t + 60) rs answers
      \<le> admitted (\<lambda>r. ?in ?m r \<or> ?in (Suc ?m) r) rs answers"
    using interval_minutes[OF assms(4)] by (intro admitted_mono) (auto simp: request_minute_def)
  also have "\<dots> \<le> admitted (?in ?m) rs answers + admitted (?in (Suc ?m)) rs answers"
    by (rule admitted_disj)
  finally show ?thesis
    using exact[of ?m] exact[of "Suc ?m"] exact[of m] unfolding answers_def by simp
qed

theorem limiter_bounds_bursts_witness:
  "admitted (\<lambda>r. request_key r = (''customer'', ''alpha'') \<and> request_minute r = 0) sample_requests
     (fst (serve default_limiter sample_requests)) = 2 \<and>
   admitted (\<lambda>r. request_key r = (''customer'', ''alpha'') \<and> 15 \<le> at_time r \<and> at_time r < 15 + 60) sample_requests
     (fst (serve default_limiter sample_requests)) \<le> 4"
proof -
  have h: "hits (''customer'', ''alpha'') 0 sample_requests = 3" by code_simp
  have "unat (2 :: 32 word) = 2" by simp
  then show ?thesis
    using limiter_bounds_bursts[of sample_requests "(''customer'', ''alpha'')" 2 15 0] h
    by (simp add: sample_requests_def request_key_def)
qed

text \<open>
  The map does not keep every tenant the deployment ever had: after a call it holds at most one
  entry more than the sweeping threshold, or only keys that called in the current minute.
\<close>

theorem limiter_stays_small:
  assumes "reachable st (rs @ [r])" "\<forall>r' \<in> set rs. at_time r' \<le> at_time r"
  shows "length (windows st) \<le>
    max (Suc SWEEP_ABOVE) (card {k. \<exists>r' \<in> set (rs @ [r]). request_key r' = k \<and> request_minute r' = request_minute r})"
proof -
  let ?K = "{k. \<exists>r' \<in> set (rs @ [r]). request_key r' = k \<and> request_minute r' = request_minute r}"
  from assms(1) obtain st0 b where prev: "reachable st0 rs"
    and a: "admit (at_time r) (role r) (tenant r) (ceiling r) st0 = (b, st)"
    by (auto elim: reachable_snocE)
  have wf: "hm_wf (windows st)" and called: "windows_called st (rs @ [r])"
    using reachable_wf[OF assms(1)] by auto
  have "length (windows st) \<le> Suc SWEEP_ABOVE \<or>
      (\<forall>k w. map_of (windows st) k = Some w \<longrightarrow> request_minute r \<le> minute w)"
    using reachable_wf[OF prev] admit_size[OF _ a] by (auto simp: request_minute_def)
  then show ?thesis
  proof
    assume late: "\<forall>k w. map_of (windows st) k = Some w \<longrightarrow> request_minute r \<le> minute w"
    have "k \<in> ?K" if w: "map_of (windows st) k = Some w" for k w
    proof -
      obtain r' where r': "r' \<in> set (rs @ [r])" "request_key r' = k" "request_minute r' = minute w"
        using called w unfolding windows_called_def by blast
      have "request_minute r' \<le> request_minute r"
        unfolding request_minute_def by (rule current_minute_mono) (use r'(1) assms(2) in auto)
      then show ?thesis using late w r' by (metis (mono_tags, lifting) mem_Collect_eq order_antisym)
    qed
    moreover have "finite ?K" by (rule finite_subset[of _ "request_key ` set (rs @ [r])"]) (blast, simp)
    ultimately have "length (windows st) \<le> card ?K" by (intro hm.size_within[OF wf]) auto
    then show ?thesis by simp
  qed simp
qed

theorem limiter_stays_small_witness:
  "length (windows (snd (serve default_limiter sample_requests))) \<le> 4097"
proof -
  let ?rs = "butlast sample_requests" and ?r = "last sample_requests"
  have rs: "?rs @ [?r] = sample_requests" by (simp add: sample_requests_def)
  have reach: "reachable (snd (serve default_limiter sample_requests)) (?rs @ [?r])"
    unfolding rs using reachable_serve[OF refl reachable.start, of sample_requests] by simp
  have "card {k. \<exists>r' \<in> set (?rs @ [?r]). request_key r' = k \<and> request_minute r' = request_minute ?r} \<le> 5"
    (is "card ?K \<le> 5")
  proof -
    have "card ?K \<le> card (request_key ` set sample_requests)"
      unfolding rs by (rule card_mono) (auto intro: rev_image_eqI)
    also have "\<dots> \<le> length sample_requests" using card_image_le[of "set sample_requests" request_key] card_length by (metis List.finite_set le_trans)
    finally show ?thesis by (simp add: sample_requests_def)
  qed
  then show ?thesis
    using limiter_stays_small[OF reach] by (simp add: sample_requests_def SWEEP_ABOVE_def)
qed

end
