(* ===== verification/Kriti_Syntax.thy ===== *)
theory Kriti_Syntax
  imports Json
begin

text \<open>
  Templates of the Kriti language (\<open>crates/kriti\<close>): JSON with holes. The syntax of templates and
  their expressions (\<open>Node\<close>, \<open>StrPart\<close>, \<open>Expr\<close>, \<open>Step\<close>, \<open>BinOp\<close> of \<open>parser.rs\<close>).
\<close>

datatype bin_op = DefaultOp | OrElse | AndAlso | EqOp | NeOp | LtOp | LeOp | GtOp | GeOp | InOp

datatype step_kind = Field string | At int | Key string

record path_step =
  step_kind :: step_kind
  step_optional :: bool

datatype node =
    NJson json
  | NStr "str_part list"
  | NArray "node list"
  | NObject "(str_part list \<times> node) list"
  | NExpr kexpr
  | NIf "(kexpr \<times> node) list" "node option"
  | NRange "string option" string kexpr node
and str_part = Text string | Hole kexpr
and kexpr =
    Lit json
  | EStr "str_part list"
  | EArray "kexpr list"
  | EObject "(str_part list \<times> kexpr) list"
  | Var string bool
  | Path kexpr "path_step list"
  | BinaryOf bin_op kexpr kexpr
  | NotOf kexpr
  | CallOf string "kexpr list"
  | Template node

text \<open>
  What the crate takes from other code: \<open>serde_json\<close> reads a scalar from its text, prints a value and
  gives numbers as floating-point values, and the Unicode tables give the case of characters. A
  number is its printed text. \<open>f64_cmp\<close> is \<open>partial_cmp\<close> of the two \<open>as_f64\<close>, \<open>f64_is_zero\<close> compares
  \<open>as_f64\<close> with zero and \<open>f64_recip\<close> prints the reciprocal, if it is a number of JSON.
\<close>

record kriti_externs =
  json_from_str :: "string \<Rightarrow> json option"
  json_to_string :: "json \<Rightarrow> string"
  f64_cmp :: "string \<Rightarrow> string \<Rightarrow> ordering option"
  f64_is_zero :: "string \<Rightarrow> bool"
  f64_recip :: "string \<Rightarrow> string option"
  str_lowercase :: "string \<Rightarrow> string"
  str_uppercase :: "string \<Rightarrow> string"
  char_alphabetic :: "string \<Rightarrow> bool"
  char_lowercase :: "string \<Rightarrow> string"
  char_uppercase :: "string \<Rightarrow> string"

text \<open>An instance for unsigned integers and ASCII letters.\<close>

definition digit_externs :: kriti_externs where
  "digit_externs = \<lparr>
     json_from_str = (\<lambda>s. if s \<noteq> [] \<and> list_all is_ascii_digit s then Some (JNumber s) else None),
     json_to_string = (\<lambda>v. case v of JNumber n \<Rightarrow> n | JBool b \<Rightarrow> if b then ''true'' else ''false'' | _ \<Rightarrow> ''null''),
     f64_cmp = (\<lambda>a b. Some (cmp (digits_val a) (digits_val b))),
     f64_is_zero = (\<lambda>a. digits_val a = 0),
     f64_recip = (\<lambda>a. if digits_val a = 1 then Some ''1.0'' else None),
     str_lowercase = map to_ascii_lowercase,
     str_uppercase = (\<lambda>s. s),
     char_alphabetic = list_all is_ascii_alphabetic,
     char_lowercase = map to_ascii_lowercase,
     char_uppercase = (\<lambda>s. s)\<rparr>"

text \<open>\<open>serde_json::Map::insert\<close> with insertion order kept: a present key keeps its place.\<close>

fun map_insert :: "string \<Rightarrow> json \<Rightarrow> (string \<times> json) list \<Rightarrow> (string \<times> json) list" where
  "map_insert k v [] = [(k, v)]"
| "map_insert k v ((k', v') # m) = (if k = k' then (k', v) # m else (k', v') # map_insert k v m)"

lemma map_of_map_insert: "map_of (map_insert k v m) k' = (if k' = k then Some v else map_of m k')"
  by (induction m) auto

lemma keys_map_insert:
  "map fst (map_insert k v m) = (if k \<in> fst ` set m then map fst m else map fst m @ [k])"
  by (induction k v m rule: map_insert.induct) (simp_all split: if_splits)

lemma distinct_map_insert: "distinct (map fst m) \<Longrightarrow> distinct (map fst (map_insert k v m))"
  by (auto simp: keys_map_insert)

lemma map_insert_new: "k \<notin> fst ` set m \<Longrightarrow> map_insert k v m = m @ [(k, v)]"
  by (induction m) auto

end
