(* ===== verification/Kriti_Parser.thy ===== *)
theory Kriti_Parser
  imports Kriti_Syntax
begin

text \<open>
  The template parser (\<open>crates/kriti/src/parser.rs\<close>): one recursive descent over the bytes of the
  source. Each method of the parser is a definition; the grammar recurses through \<open>node\<close>, \<open>expr\<close> and
  \<open>unary_expr\<close>, which the other methods take as arguments, and those three recurse on a budget of
  nested calls. The loops run on a budget of iterations. Running out of a budget is the outcome
  \<open>NoFuel\<close>; a property below shows that it never occurs with the budgets that \<open>parse\<close> gives.

  The source is a \<open>&str\<close>, so the slices the parser cuts at ASCII bytes are valid UTF-8 and their
  conversion to strings changes nothing.
\<close>

section \<open>State and errors\<close>

record kparse_error =
  kpe_message :: string
  kpe_offset :: nat

datatype kstop = Refused kparse_error | NoFuel

record kparser =
  src :: string
  pos :: nat

type_synonym 'a kparse = "('a \<times> kparser, kstop) result"

definition kerror_at :: "string \<Rightarrow> nat \<Rightarrow> ('a, kstop) result" where
  "kerror_at message offset = Err (Refused \<lparr>kpe_message = message, kpe_offset = offset\<rparr>)"

definition kerror :: "kparser \<Rightarrow> string \<Rightarrow> ('a, kstop) result" where
  "kerror p message = kerror_at message (pos p)"

definition rest :: "kparser \<Rightarrow> string" where
  "rest p = drop (pos p) (src p)"

definition skip :: "nat \<Rightarrow> kparser \<Rightarrow> kparser" where
  "skip n p = p\<lparr>pos := pos p + n\<rparr>"

definition peek :: "kparser \<Rightarrow> char option" where
  "peek p = (case rest p of [] \<Rightarrow> None | c # _ \<Rightarrow> Some c)"

definition src_starts_with :: "string \<Rightarrow> kparser \<Rightarrow> bool" where
  "src_starts_with s p \<longleftrightarrow> take (length s) (rest p) = s"

text \<open>\<open>eat\<close> and \<open>keyword\<close> return the state after the text, if it is there.\<close>

definition eat :: "string \<Rightarrow> kparser \<Rightarrow> kparser option" where
  "eat s p = (if src_starts_with s p then Some (skip (length s) p) else None)"

text \<open>\<open>format!("{text:?}")\<close> of the ASCII texts the parser names.\<close>

definition debug_text :: "string \<Rightarrow> string" where
  "debug_text s =
     [CHR 0x22] @ concat (map (\<lambda>c. if c = CHR 0x22 \<or> c = CHR 0x5C then [CHR 0x5C, c] else [c]) s) @ [CHR 0x22]"

definition expect :: "string \<Rightarrow> kparser \<Rightarrow> (kparser, kstop) result" where
  "expect s p = (case eat s p of Some p' \<Rightarrow> Ok p' | None \<Rightarrow> kerror p (''expected '' @ debug_text s))"

definition is_ident_byte :: "char \<Rightarrow> bool" where
  "is_ident_byte c \<longleftrightarrow> is_ascii_digit c \<or> is_ascii_alphabetic c \<or> c = CHR ''_'' \<or> c = CHR ''$''"

definition keyword :: "string \<Rightarrow> kparser \<Rightarrow> kparser option" where
  "keyword word p =
     (if \<not> src_starts_with word p then None
      else case drop (length word) (rest p) of
             b # _ \<Rightarrow> if is_ident_byte b then None else Some (skip (length word) p)
           | [] \<Rightarrow> Some (skip (length word) p))"

section \<open>Trivia\<close>

fun comment_length :: "string \<Rightarrow> nat" where
  "comment_length [] = 0"
| "comment_length (c # cs) = (if c = CHR 0x0A then 1 else Suc (comment_length cs))"

definition is_blank :: "char \<Rightarrow> bool" where
  "is_blank c \<longleftrightarrow> c = CHR '' '' \<or> c = CHR 0x09 \<or> c = CHR 0x0D \<or> c = CHR 0x0A"

function trivia_length :: "string \<Rightarrow> nat" where
  "trivia_length [] = 0"
| "trivia_length (c # cs) =
     (if is_blank c then Suc (trivia_length cs)
      else if c = CHR ''#'' then comment_length (c # cs) + trivia_length (drop (comment_length (c # cs)) (c # cs))
      else 0)"
  by pat_completeness auto
termination
  by (relation "measure length") auto

definition skip_trivia :: "kparser \<Rightarrow> kparser" where
  "skip_trivia p = skip (trivia_length (rest p)) p"

section \<open>Scalars, identifiers and keys\<close>

definition is_number_byte :: "char \<Rightarrow> bool" where
  "is_number_byte c \<longleftrightarrow> is_ascii_digit c \<or> c \<in> set ''-+.eE''"

definition json_scalar :: "kriti_externs \<Rightarrow> kparser \<Rightarrow> json kparse" where
  "json_scalar ext p =
     (case keyword ''true'' p of
        Some p' \<Rightarrow> Ok (JBool True, p')
      | None \<Rightarrow>
      (case keyword ''false'' p of
         Some p' \<Rightarrow> Ok (JBool False, p')
       | None \<Rightarrow>
       (case keyword ''null'' p of
          Some p' \<Rightarrow> Ok (JNull, p')
        | None \<Rightarrow>
            let text = takeWhile is_number_byte (rest p) in
            if text = [] then kerror p ''expected a value''
            else case json_from_str ext text of
                   Some v \<Rightarrow> Ok (v, skip (length text) p)
                 | None \<Rightarrow> kerror_at (debug_text text @ '' is not a number'') (pos p))))"

definition ident :: "kparser \<Rightarrow> string kparse" where
  "ident p =
     (let dollar = (if peek p = Some (CHR ''$'') then 1 else 0);
          n = dollar + length (takeWhile is_ident_byte (drop dollar (rest p)))
      in if n = 0 then kerror p ''expected an identifier'' else Ok (take n (rest p), skip n p))"

definition quoted_key :: "kparser \<Rightarrow> string kparse" where
  "quoted_key p =
     (let quote = hd (rest p); text = takeWhile (\<lambda>c. c \<noteq> quote) (tl (rest p)) in
      if length text < length (tl (rest p)) then Ok (text, skip (length text + 2) p)
      else kerror (skip (length (rest p)) p) ''unterminated key'')"

section \<open>Strings\<close>

text \<open>\<open>u32::from_str_radix(_, 16)\<close>: an optional plus sign and at least one hexadecimal digit.\<close>

definition hex_val :: "char \<Rightarrow> nat" where
  "hex_val c =
     (if is_ascii_digit c then byte_of c - 48
      else if byte_of c \<ge> 97 then byte_of c - 87 else byte_of c - 55)"

definition parse_hex :: "string \<Rightarrow> nat option" where
  "parse_hex s =
     (let ds = (case s of c # cs \<Rightarrow> if c = CHR ''+'' then cs else s | [] \<Rightarrow> s) in
      if ds \<noteq> [] \<and> list_all is_ascii_hexdigit ds
      then Some (foldl (\<lambda>acc c. acc * 16 + hex_val c) 0 ds) else None)"

text \<open>\<open>char::from_u32\<close> of a 16-bit code, as UTF-8; a surrogate becomes U+FFFD.\<close>

definition utf8_of_code :: "nat \<Rightarrow> string" where
  "utf8_of_code n =
     (if n < 0x80 then [char_of n]
      else if n < 0x800 then [char_of (0xC0 + n div 64), char_of (0x80 + n mod 64)]
      else if 0xD800 \<le> n \<and> n < 0xE000 then [char_of (0xEF :: nat), char_of (0xBF :: nat), char_of (0xBD :: nat)]
      else [char_of (0xE0 + n div 4096), char_of (0x80 + n div 64 mod 64), char_of (0x80 + n mod 64)])"

text \<open>The four bytes after \<open>\u\<close>: there are four and they end at a character boundary.\<close>

definition hex_slice :: "kparser \<Rightarrow> string option" where
  "hex_slice p =
     (if length (rest p) < 4 then None
      else case drop 4 (rest p) of
             b # _ \<Rightarrow> if is_continuation b then None else Some (take 4 (rest p))
           | [] \<Rightarrow> Some (take 4 (rest p)))"

text \<open>One escape after its backslash: the text it stands for and the state after it.\<close>

definition simple_escape :: "char \<Rightarrow> string option" where
  "simple_escape c =
     (if c = CHR 0x22 then Some [CHR 0x22]
      else if c = CHR 0x5C then Some [CHR 0x5C]
      else if c = CHR ''/'' then Some ''/''
      else if c = CHR ''b'' then Some [CHR 0x08]
      else if c = CHR ''f'' then Some [CHR 0x0C]
      else if c = CHR ''n'' then Some [CHR 0x0A]
      else if c = CHR ''r'' then Some [CHR 0x0D]
      else if c = CHR ''t'' then Some [CHR 0x09]
      else None)"

text \<open>A byte read as a character (\<open>other as char\<close>), as UTF-8.\<close>

definition byte_as_char :: "char \<Rightarrow> string" where
  "byte_as_char c = utf8_of_code (byte_of c)"

definition escape :: "kparser \<Rightarrow> string kparse" where
  "escape p =
     (case peek p of
        None \<Rightarrow> kerror p ''unterminated escape''
      | Some c \<Rightarrow>
          let p = skip 1 p in
          (case simple_escape c of
             Some text \<Rightarrow> Ok (text, p)
           | None \<Rightarrow>
               if c = CHR ''u'' then
                 (case hex_slice p of
                    None \<Rightarrow> kerror p (''truncated '' @ [CHR 0x5C] @ ''u escape'')
                  | Some hex \<Rightarrow>
                      (case parse_hex hex of
                         None \<Rightarrow> kerror p (''invalid '' @ [CHR 0x5C] @ ''u escape'')
                       | Some code \<Rightarrow> Ok (utf8_of_code code, skip 4 p)))
               else kerror p (''unknown escape '' @ [CHR 0x5C] @ byte_as_char c)))"

fun string_loop ::
  "nat \<Rightarrow> (kparser \<Rightarrow> kexpr kparse) \<Rightarrow> str_part list \<Rightarrow> string \<Rightarrow> kparser \<Rightarrow> str_part list kparse" where
  "string_loop 0 expr parts text p = Err NoFuel"
| "string_loop (Suc n) expr parts text p =
     (if src_starts_with ''{{'' p then
        let parts = (if text \<noteq> [] then parts @ [Text text] else parts) in
        res_bind (expr (skip 2 p)) (\<lambda>(e, p1).
        res_bind (expect ''}}'' (skip_trivia p1)) (\<lambda>p2.
        string_loop n expr (parts @ [Hole e]) [] p2))
      else case rest p of
          [] \<Rightarrow> kerror p ''unterminated string''
        | c # cs \<Rightarrow>
            if c = CHR 0x22 then
              Ok (if text \<noteq> [] \<or> parts = [] then parts @ [Text text] else parts, skip 1 p)
            else if c = CHR 0x5C then
              res_bind (escape (skip 1 p)) (\<lambda>(t, p1). string_loop n expr parts (text @ t) p1)
            else
              let t = c # takeWhile is_continuation cs in
              string_loop n expr parts (text @ t) (skip (length t) p))"

definition remaining :: "kparser \<Rightarrow> nat" where
  "remaining p = length (rest p)"

definition string_parts :: "(kparser \<Rightarrow> kexpr kparse) \<Rightarrow> kparser \<Rightarrow> str_part list kparse" where
  "string_parts expr p =
     res_bind (expect [CHR 0x22] p) (\<lambda>p1. string_loop (Suc (remaining p1)) expr [] [] p1)"

section \<open>Sequences\<close>

text \<open>
  The loop the bracketed forms share: items separated by commas, a comma allowed before the closing
  text. It starts before the first item and ends after the closing text.
\<close>

fun sequence_loop :: "nat \<Rightarrow> (kparser \<Rightarrow> 'a kparse) \<Rightarrow> string \<Rightarrow> 'a list \<Rightarrow> kparser \<Rightarrow> 'a list kparse" where
  "sequence_loop 0 item close items p = Err NoFuel"
| "sequence_loop (Suc n) item close items p =
     (let p = skip_trivia p in
      case eat close p of
        Some p' \<Rightarrow> Ok (items, p')
      | None \<Rightarrow>
          res_bind (item p) (\<lambda>(x, p1).
            let items = items @ [x]; p1 = skip_trivia p1 in
            case eat '','' p1 of
              Some p2 \<Rightarrow> sequence_loop n item close items p2
            | None \<Rightarrow> res_map (\<lambda>p2. (items, p2)) (expect close p1)))"

definition sequence :: "(kparser \<Rightarrow> 'a kparse) \<Rightarrow> string \<Rightarrow> kparser \<Rightarrow> 'a list kparse" where
  "sequence item close p = sequence_loop (Suc (remaining p)) item close [] p"

text \<open>A member of an object: a string as the key, a colon and a value.\<close>

definition member_of ::
  "(kparser \<Rightarrow> kexpr kparse) \<Rightarrow> (kparser \<Rightarrow> 'a kparse) \<Rightarrow> kparser \<Rightarrow> (str_part list \<times> 'a) kparse" where
  "member_of expr val p =
     res_bind (string_parts expr p) (\<lambda>(key, p1).
     res_bind (expect '':'' (skip_trivia p1)) (\<lambda>p2.
     res_map (\<lambda>(v, p3). ((key, v), p3)) (val p2)))"

definition array_node :: "(kparser \<Rightarrow> node kparse) \<Rightarrow> kparser \<Rightarrow> node kparse" where
  "array_node node p =
     res_bind (expect ''['' p) (\<lambda>p1. res_map (map_prod NArray id) (sequence node '']'' p1))"

definition object_node :: "(kparser \<Rightarrow> node kparse) \<Rightarrow> (kparser \<Rightarrow> kexpr kparse) \<Rightarrow> kparser \<Rightarrow> node kparse" where
  "object_node node expr p =
     res_bind (expect ''{'' p) (\<lambda>p1. res_map (map_prod NObject id) (sequence (member_of expr node) ''}'' p1))"

section \<open>Conditionals and loops\<close>

definition if_end ::
  "(kparser \<Rightarrow> node kparse) \<Rightarrow> (kexpr \<times> node) list \<Rightarrow> kparser \<Rightarrow> node kparse" where
  "if_end node arms p =
     res_bind
       (case keyword ''else'' p of
          None \<Rightarrow> Ok (None, p)
        | Some p1 \<Rightarrow>
            res_bind (expect ''}}'' (skip_trivia p1)) (\<lambda>p2.
            res_bind (node p2) (\<lambda>(body, p3).
            res_map (\<lambda>p4. (Some body, skip_trivia p4)) (expect ''{{'' (skip_trivia p3)))))
       (\<lambda>(otherwise, p1).
          case keyword ''end'' p1 of
            Some p2 \<Rightarrow> res_map (\<lambda>p3. (NIf arms otherwise, p3)) (expect ''}}'' (skip_trivia p2))
          | None \<Rightarrow> kerror p1 (''expected 'elif', 'else' or 'end'' @ [CHR 0x27]))"

fun if_loop ::
  "nat \<Rightarrow> (kparser \<Rightarrow> node kparse) \<Rightarrow> (kparser \<Rightarrow> kexpr kparse) \<Rightarrow> (kexpr \<times> node) list \<Rightarrow> kparser \<Rightarrow> node kparse" where
  "if_loop 0 node expr arms p = Err NoFuel"
| "if_loop (Suc n) node expr arms p =
     res_bind (expr p) (\<lambda>(condition, p1).
     res_bind (expect ''}}'' (skip_trivia p1)) (\<lambda>p2.
     res_bind (node p2) (\<lambda>(body, p3).
     res_bind (expect ''{{'' (skip_trivia p3)) (\<lambda>p4.
       let arms = arms @ [(condition, body)]; p5 = skip_trivia p4 in
       case keyword ''elif'' p5 of
         Some p6 \<Rightarrow> if_loop n node expr arms p6
       | None \<Rightarrow> if_end node arms p5))))"

definition if_block :: "(kparser \<Rightarrow> node kparse) \<Rightarrow> (kparser \<Rightarrow> kexpr kparse) \<Rightarrow> kparser \<Rightarrow> node kparse" where
  "if_block node expr p = if_loop (Suc (remaining p)) node expr [] p"

definition range_names :: "kparser \<Rightarrow> (string option \<times> string) kparse" where
  "range_names p =
     res_bind (ident (skip_trivia p)) (\<lambda>(first, p1).
       case eat '','' (skip_trivia p1) of
         Some p2 \<Rightarrow>
           res_map (\<lambda>(second, p3). ((if first = ''_'' then None else Some first, second), p3))
             (ident (skip_trivia p2))
       | None \<Rightarrow> Ok ((None, first), skip_trivia p1))"

definition range_block :: "(kparser \<Rightarrow> node kparse) \<Rightarrow> (kparser \<Rightarrow> kexpr kparse) \<Rightarrow> kparser \<Rightarrow> node kparse" where
  "range_block node expr p =
     res_bind (range_names p) (\<lambda>((index, val), p1).
     res_bind (expect '':='' (skip_trivia p1)) (\<lambda>p2.
     res_bind (expr p2) (\<lambda>(source, p3).
     res_bind (expect ''}}'' (skip_trivia p3)) (\<lambda>p4.
     res_bind (node p4) (\<lambda>(body, p5).
     res_bind (expect ''{{'' (skip_trivia p5)) (\<lambda>p6.
       case keyword ''end'' (skip_trivia p6) of
         None \<Rightarrow> kerror (skip_trivia p6) (''expected 'end' to close 'range'' @ [CHR 0x27])
       | Some p7 \<Rightarrow>
           res_map (\<lambda>p8. (NRange index val source body, p8)) (expect ''}}'' (skip_trivia p7))))))))"

text \<open>What stands after \<open>{{\<close>: a conditional, a loop, or an expression that is then closed.\<close>

definition block_body ::
  "(kparser \<Rightarrow> node kparse) \<Rightarrow> (kparser \<Rightarrow> kexpr kparse) \<Rightarrow> (node \<Rightarrow> 'a) \<Rightarrow> (kexpr \<Rightarrow> 'a) \<Rightarrow> kparser \<Rightarrow> 'a kparse" where
  "block_body node expr as_node as_expr p =
     (case keyword ''if'' p of
        Some p1 \<Rightarrow> res_map (map_prod as_node id) (if_block node expr p1)
      | None \<Rightarrow>
      (case keyword ''range'' p of
         Some p1 \<Rightarrow> res_map (map_prod as_node id) (range_block node expr p1)
       | None \<Rightarrow>
           res_bind (expr p) (\<lambda>(e, p1).
           res_map (\<lambda>p2. (as_expr e, p2)) (expect ''}}'' (skip_trivia p1)))))"

definition block :: "(kparser \<Rightarrow> node kparse) \<Rightarrow> (kparser \<Rightarrow> kexpr kparse) \<Rightarrow> kparser \<Rightarrow> node kparse" where
  "block node expr p =
     res_bind (expect ''{{'' p) (\<lambda>p1. block_body node expr id NExpr (skip_trivia p1))"

definition node_step ::
  "kriti_externs \<Rightarrow> (kparser \<Rightarrow> node kparse) \<Rightarrow> (kparser \<Rightarrow> kexpr kparse) \<Rightarrow> kparser \<Rightarrow> node kparse" where
  "node_step ext node expr p =
     (let p = skip_trivia p in
      if src_starts_with ''{{'' p then block node expr p
      else case peek p of
             Some c \<Rightarrow>
               if c = CHR ''{'' then object_node node expr p
               else if c = CHR ''['' then array_node node p
               else if c = CHR 0x22 then res_map (map_prod NStr id) (string_parts expr p)
               else res_map (map_prod NJson id) (json_scalar ext p)
           | None \<Rightarrow> kerror p ''expected a value'')"

section \<open>Expressions\<close>

definition call_or_var :: "(kparser \<Rightarrow> kexpr kparse) \<Rightarrow> kparser \<Rightarrow> kexpr kparse" where
  "call_or_var expr p =
     res_bind (ident p) (\<lambda>(name, p1).
       if peek p1 = Some (CHR ''('') then res_map (map_prod (CallOf name) id) (sequence expr '')'' (skip 1 p1))
       else
         let optional = (src_starts_with ''?'' p1 \<and> \<not> src_starts_with ''?.'' p1 \<and> \<not> src_starts_with ''?['' p1) in
         Ok (Var name optional, if optional then skip 1 p1 else p1))"

definition starts_name :: "char \<Rightarrow> bool" where
  "starts_name c \<longleftrightarrow> c = CHR ''$'' \<or> is_ascii_alphabetic c \<or> c = CHR ''_''"

definition parenthesized :: "(kparser \<Rightarrow> kexpr kparse) \<Rightarrow> kparser \<Rightarrow> kexpr kparse" where
  "parenthesized expr p =
     res_bind (expr (skip 1 p)) (\<lambda>(inner, p1). res_map (\<lambda>p2. (inner, p2)) (expect '')'' (skip_trivia p1)))"

definition atom ::
  "kriti_externs \<Rightarrow> (kparser \<Rightarrow> node kparse) \<Rightarrow> (kparser \<Rightarrow> kexpr kparse) \<Rightarrow> kparser \<Rightarrow> kexpr kparse" where
  "atom ext node expr p =
     (let p = skip_trivia p in
      if src_starts_with ''{{'' p then block_body node expr Template id (skip_trivia (skip 2 p))
      else case peek p of
             None \<Rightarrow> kerror p ''expected an expression''
           | Some c \<Rightarrow>
               if c = CHR ''('' then parenthesized expr p
               else if c = CHR 0x22 then res_map (map_prod EStr id) (string_parts expr p)
               else if c = CHR ''['' then res_map (map_prod EArray id) (sequence expr '']'' (skip 1 p))
               else if c = CHR ''{'' then
                 res_map (map_prod EObject id) (sequence (member_of expr expr) ''}'' (skip 1 p))
               else if starts_name c \<and>
                 \<not> (src_starts_with ''true'' p \<or> src_starts_with ''false'' p \<or> src_starts_with ''null'' p)
               then call_or_var expr p
               else res_map (map_prod Lit id) (json_scalar ext p))"

definition bracket_step :: "kparser \<Rightarrow> step_kind kparse" where
  "bracket_step p =
     (let p = skip_trivia p in
      res_bind
        (if peek p = Some (CHR 0x22) \<or> peek p = Some (CHR 0x27) then res_map (map_prod Key id) (quoted_key p)
         else
           let text = takeWhile (\<lambda>c. is_ascii_digit c \<or> c = CHR ''-'') (rest p) in
           case parse_signed i64_min i64_max text of
             None \<Rightarrow> kerror_at ''expected an array index'' (pos p)
           | Some i \<Rightarrow> Ok (At i, skip (length text) p))
        (\<lambda>(kind, p1). res_map (\<lambda>p2. (kind, p2)) (expect '']'' (skip_trivia p1))))"

fun postfix_steps :: "nat \<Rightarrow> kexpr \<Rightarrow> path_step list \<Rightarrow> kparser \<Rightarrow> kexpr kparse" where
  "postfix_steps 0 base steps p = Err NoFuel"
| "postfix_steps (Suc n) base steps p =
     (let optional = (src_starts_with ''?.'' p \<or> src_starts_with ''?['' p);
          p = (if optional then skip 1 p else p)
      in case eat ''.'' p of
           Some p1 \<Rightarrow>
             res_bind (ident p1) (\<lambda>(name, p2).
               postfix_steps n base (steps @ [\<lparr>step_kind = Field name, step_optional = optional\<rparr>]) p2)
         | None \<Rightarrow>
         (case eat ''['' p of
            Some p1 \<Rightarrow>
              res_bind (bracket_step p1) (\<lambda>(kind, p2).
                postfix_steps n base (steps @ [\<lparr>step_kind = kind, step_optional = optional\<rparr>]) p2)
          | None \<Rightarrow>
              if optional then kerror p (''expected '.' or '[' after '?'' @ [CHR 0x27])
              else Ok (if steps = [] then base else Path base steps, p)))"

definition postfix_expr ::
  "kriti_externs \<Rightarrow> (kparser \<Rightarrow> node kparse) \<Rightarrow> (kparser \<Rightarrow> kexpr kparse) \<Rightarrow> kparser \<Rightarrow> kexpr kparse" where
  "postfix_expr ext node expr p =
     res_bind (atom ext node expr p) (\<lambda>(base, p1). postfix_steps (Suc (remaining p1)) base [] p1)"

definition unary_expr_step ::
  "kriti_externs \<Rightarrow> (kparser \<Rightarrow> node kparse) \<Rightarrow> (kparser \<Rightarrow> kexpr kparse) \<Rightarrow> (kparser \<Rightarrow> kexpr kparse) \<Rightarrow>
   kparser \<Rightarrow> kexpr kparse" where
  "unary_expr_step ext node expr unary p =
     (let p = skip_trivia p in
      case keyword ''not'' p of
        Some p1 \<Rightarrow> res_map (map_prod NotOf id) (unary p1)
      | None \<Rightarrow> postfix_expr ext node expr p)"

definition compare_op :: "kparser \<Rightarrow> (bin_op \<times> kparser) option" where
  "compare_op p =
     (case eat ''=='' p of Some p' \<Rightarrow> Some (EqOp, p') | None \<Rightarrow>
     (case eat ''!='' p of Some p' \<Rightarrow> Some (NeOp, p') | None \<Rightarrow>
     (case eat ''<='' p of Some p' \<Rightarrow> Some (LeOp, p') | None \<Rightarrow>
     (case eat ''>='' p of Some p' \<Rightarrow> Some (GeOp, p') | None \<Rightarrow>
     (case eat ''<'' p of Some p' \<Rightarrow> Some (LtOp, p') | None \<Rightarrow>
     (case eat ''>'' p of Some p' \<Rightarrow> Some (GtOp, p') | None \<Rightarrow>
     (case keyword ''in'' p of Some p' \<Rightarrow> Some (InOp, p') | None \<Rightarrow> None)))))))"

definition compare_expr :: "(kparser \<Rightarrow> kexpr kparse) \<Rightarrow> kparser \<Rightarrow> kexpr kparse" where
  "compare_expr unary p =
     res_bind (unary p) (\<lambda>(lhs, p1).
       let p1 = skip_trivia p1 in
       case compare_op p1 of
         None \<Rightarrow> Ok (lhs, p1)
       | Some (op, p2) \<Rightarrow> res_map (\<lambda>(rhs, p3). (BinaryOf op lhs rhs, p3)) (unary p2))"

text \<open>The three levels of left-associative operators share one loop.\<close>

fun operator_loop :: "nat \<Rightarrow> (kparser \<Rightarrow> kexpr kparse) \<Rightarrow> string \<Rightarrow> bin_op \<Rightarrow> kexpr \<Rightarrow> kparser \<Rightarrow> kexpr kparse" where
  "operator_loop 0 operand text op lhs p = Err NoFuel"
| "operator_loop (Suc n) operand text op lhs p =
     (let p = skip_trivia p in
      case eat text p of
        None \<Rightarrow> Ok (lhs, p)
      | Some p1 \<Rightarrow> res_bind (operand p1) (\<lambda>(rhs, p2). operator_loop n operand text op (BinaryOf op lhs rhs) p2))"

definition operator_level :: "(kparser \<Rightarrow> kexpr kparse) \<Rightarrow> string \<Rightarrow> bin_op \<Rightarrow> kparser \<Rightarrow> kexpr kparse" where
  "operator_level operand text op p =
     res_bind (operand p) (\<lambda>(lhs, p1). operator_loop (Suc (remaining p1)) operand text op lhs p1)"

definition and_expr :: "(kparser \<Rightarrow> kexpr kparse) \<Rightarrow> kparser \<Rightarrow> kexpr kparse" where
  "and_expr unary = operator_level (compare_expr unary) ''&&'' AndAlso"

definition or_expr :: "(kparser \<Rightarrow> kexpr kparse) \<Rightarrow> kparser \<Rightarrow> kexpr kparse" where
  "or_expr unary = operator_level (and_expr unary) ''||'' OrElse"

definition default_expr :: "(kparser \<Rightarrow> kexpr kparse) \<Rightarrow> kparser \<Rightarrow> kexpr kparse" where
  "default_expr unary = operator_level (or_expr unary) ''??'' DefaultOp"

section \<open>The recursion of the grammar\<close>

fun parse_node :: "kriti_externs \<Rightarrow> nat \<Rightarrow> kparser \<Rightarrow> node kparse"
  and parse_expr :: "kriti_externs \<Rightarrow> nat \<Rightarrow> kparser \<Rightarrow> kexpr kparse"
  and parse_unary_expr :: "kriti_externs \<Rightarrow> nat \<Rightarrow> kparser \<Rightarrow> kexpr kparse" where
  "parse_node ext 0 p = Err NoFuel"
| "parse_node ext (Suc d) p = node_step ext (parse_node ext d) (parse_expr ext d) p"
| "parse_expr ext 0 p = Err NoFuel"
| "parse_expr ext (Suc d) p =
     default_expr (unary_expr_step ext (parse_node ext d) (parse_expr ext d) (parse_unary_expr ext d)) p"
| "parse_unary_expr ext 0 p = Err NoFuel"
| "parse_unary_expr ext (Suc d) p =
     unary_expr_step ext (parse_node ext d) (parse_expr ext d) (parse_unary_expr ext d) p"

text \<open>\<open>parse\<close>: a template is a node with nothing but trivia around it.\<close>

definition parse_template :: "kriti_externs \<Rightarrow> string \<Rightarrow> (node, kstop) result" where
  "parse_template ext source =
     res_bind (parse_node ext (Suc (length source)) (skip_trivia \<lparr>src = source, pos = 0\<rparr>)) (\<lambda>(node, p1).
       let p1 = skip_trivia p1 in
       if pos p1 < length (src p1) then kerror p1 ''trailing input after the template'' else Ok node)"

section \<open>Progress\<close>

text \<open>Positions of one source that do not go back, and positions strictly ahead.\<close>

definition after :: "kparser \<Rightarrow> kparser \<Rightarrow> bool" where
  "after p p' \<longleftrightarrow> src p' = src p \<and> pos p \<le> pos p' \<and> pos p' \<le> length (src p)"

definition ahead :: "kparser \<Rightarrow> kparser \<Rightarrow> bool" where
  "ahead p p' \<longleftrightarrow> after p p' \<and> pos p < pos p'"

text \<open>A result is settled: not out of fuel, errors inside the source, values as described.\<close>

definition concludes :: "kparser \<Rightarrow> ('a \<Rightarrow> bool) \<Rightarrow> ('a, kstop) result \<Rightarrow> bool" where
  "concludes p Q r \<longleftrightarrow>
     (case r of Ok x \<Rightarrow> Q x | Err (Refused e) \<Rightarrow> kpe_offset e \<le> length (src p) | Err NoFuel \<Rightarrow> False)"

lemma concludes_Ok [simp]: "concludes p Q (Ok x) \<longleftrightarrow> Q x"
  by (simp add: concludes_def)

lemma concludes_bind: "concludes p Q r \<Longrightarrow> (\<And>x. Q x \<Longrightarrow> concludes p R (f x)) \<Longrightarrow> concludes p R (res_bind r f)"
  by (cases r) (auto simp: concludes_def)

lemma concludes_map: "concludes p Q r \<Longrightarrow> (\<And>x. Q x \<Longrightarrow> R (f x)) \<Longrightarrow> concludes p R (res_map f r)"
  by (cases r) (auto simp: concludes_def)

lemma concludes_mono: "concludes p Q r \<Longrightarrow> (\<And>x. Q x \<Longrightarrow> R x) \<Longrightarrow> concludes p R r"
  by (cases r) (auto simp: concludes_def)

lemma concludes_src: "src p' = src p \<Longrightarrow> concludes p' Q r = concludes p Q r"
  by (auto simp: concludes_def split: result.splits kstop.splits)

lemma after_refl: "pos p \<le> length (src p) \<Longrightarrow> after p p"
  by (simp add: after_def)

lemma after_trans: "after p q \<Longrightarrow> after q r \<Longrightarrow> after p r"
  by (auto simp: after_def)

lemma ahead_after: "ahead p q \<Longrightarrow> after p q"
  by (simp add: ahead_def)

lemma ahead_after_trans: "ahead p q \<Longrightarrow> after q r \<Longrightarrow> ahead p r"
  by (auto simp: ahead_def after_def)

lemma after_ahead_trans: "after p q \<Longrightarrow> ahead q r \<Longrightarrow> ahead p r"
  by (auto simp: ahead_def after_def)

lemma after_self: "after p q \<Longrightarrow> after q q"
  by (auto simp: after_def)

lemma concludes_after: "after b p \<Longrightarrow> concludes p Q r \<Longrightarrow> concludes b Q r"
  by (simp add: after_def concludes_src[of p b])

lemma remaining_alt: "remaining p = length (src p) - pos p"
  by (simp add: remaining_def rest_def)

lemma remaining_after: "after p q \<Longrightarrow> remaining q \<le> remaining p"
  by (auto simp: after_def remaining_alt)

lemma remaining_ahead: "ahead p q \<Longrightarrow> remaining q < remaining p"
  by (auto simp: ahead_def after_def remaining_alt)

lemma concludes_kerror_at: "offset \<le> length (src b) \<Longrightarrow> concludes b Q (kerror_at m offset)"
  by (simp add: concludes_def kerror_at_def)

lemma concludes_kerror: "after b p \<Longrightarrow> concludes b Q (kerror p m)"
  by (simp add: kerror_def concludes_kerror_at after_def)

section \<open>Tokens\<close>

lemma after_skip: "after p p \<Longrightarrow> n \<le> length (rest p) \<Longrightarrow> after p (skip n p)"
  by (auto simp: after_def skip_def rest_def)

lemma ahead_skip: "after p p \<Longrightarrow> n \<le> length (rest p) \<Longrightarrow> 0 < n \<Longrightarrow> ahead p (skip n p)"
  by (auto simp: after_def ahead_def skip_def rest_def)

lemma rest_skip [simp]: "rest (skip n p) = drop n (rest p)"
  by (simp add: rest_def skip_def add.commute)

lemma comment_length_le: "comment_length s \<le> length s"
  by (induction s) auto

lemma trivia_length_le: "trivia_length s \<le> length s"
proof (induction s rule: trivia_length.induct)
  case (2 c cs)
  have "comment_length (c # cs) \<le> length (c # cs)" by (rule comment_length_le)
  then show ?case using 2 by (auto simp del: comment_length.simps)
qed simp

lemma after_trivia: "after p p \<Longrightarrow> after p (skip_trivia p)"
  by (simp add: skip_trivia_def after_skip trivia_length_le)

lemma starts_with_length: "src_starts_with s p \<Longrightarrow> length s \<le> length (rest p)"
  unfolding src_starts_with_def using length_take[of "length s" "rest p"] by (metis min.cobounded1)

lemma eat_ahead: "eat s p = Some p' \<Longrightarrow> s \<noteq> [] \<Longrightarrow> after p p \<Longrightarrow> ahead p p'"
  by (auto simp: eat_def starts_with_length ahead_skip split: if_splits)

lemma keyword_ahead: "keyword s p = Some p' \<Longrightarrow> s \<noteq> [] \<Longrightarrow> after p p \<Longrightarrow> ahead p p'"
  by (auto simp: keyword_def starts_with_length ahead_skip split: if_splits list.splits)

lemma expect_concludes: "after b p \<Longrightarrow> s \<noteq> [] \<Longrightarrow> concludes b (ahead p) (expect s p)"
  by (auto simp: expect_def concludes_kerror after_self intro: eat_ahead split: option.splits)

lemma expect_trivia: "after b p \<Longrightarrow> s \<noteq> [] \<Longrightarrow> concludes b (ahead p) (expect s (skip_trivia p))"
  by (rule concludes_mono[OF expect_concludes[of b "skip_trivia p"]])
     (auto intro: after_trans after_trivia after_self after_ahead_trans)

lemma json_scalar_concludes: "after b p \<Longrightarrow> concludes b (\<lambda>(x, p'). ahead p p') (json_scalar ext p)"
proof -
  assume p: "after b p"
  have "length (takeWhile P (rest p)) \<le> length (rest p)" for P by (rule length_takeWhile_le)
  then show ?thesis
    using p after_self[OF p]
    by (auto simp: json_scalar_def Let_def concludes_kerror concludes_kerror_at after_def[of b]
        intro: keyword_ahead ahead_skip split: option.splits)
qed

lemma ident_concludes: "after b p \<Longrightarrow> concludes b (\<lambda>(x, p'). ahead p p') (ident p)"
proof -
  assume p: "after b p"
  define d :: nat where "d = (if peek p = Some (CHR ''$'') then 1 else 0)"
  have "d \<le> length (rest p)" by (auto simp: d_def peek_def split: list.splits)
  moreover have "length (takeWhile is_ident_byte (drop d (rest p))) \<le> length (rest p) - d"
    using length_takeWhile_le[of is_ident_byte "drop d (rest p)"] by simp
  ultimately show ?thesis
    using p after_self[OF p] unfolding ident_def d_def[symmetric]
    by (auto simp: Let_def concludes_kerror intro!: ahead_skip)
qed

lemma quoted_key_concludes: "after b p \<Longrightarrow> concludes b (\<lambda>(x, p'). ahead p p') (quoted_key p)"
proof -
  assume p: "after b p"
  have "after b (skip (length (rest p)) p)" using after_trans[OF p after_skip[OF after_self[OF p] order_refl]] .
  then show ?thesis using p after_self[OF p]
    by (auto simp: quoted_key_def Let_def concludes_kerror intro!: ahead_skip)
qed

lemma escape_concludes: "after b p \<Longrightarrow> concludes b (\<lambda>(x, p'). ahead p p') (escape p)"
proof -
  assume p: "after b p"
  have one: "ahead p (skip 1 p)" if "peek p = Some c" for c
    using that after_self[OF p] by (intro ahead_skip) (auto simp: peek_def split: list.splits)
  have four: "ahead p (skip 4 (skip 1 p))" if "peek p = Some c" "hex_slice (skip 1 p) = Some h" for c h
    using that one[OF that(1)] after_skip[of "skip 1 p" 4] after_self[OF ahead_after]
    by (auto simp: hex_slice_def intro: ahead_after_trans split: if_splits)
  have "after b (skip 1 p)" if "peek p = Some c" for c
    using one[OF that] p by (auto intro: after_trans ahead_after)
  then show ?thesis
    using p one four by (auto simp: escape_def Let_def concludes_kerror split: option.splits)
qed

section \<open>Loops\<close>

text \<open>
  A parser of the grammar consumes something wherever it is called from \<open>b\<close> on, or it refuses. The
  definitions that take such parsers as arguments are again of this kind.
\<close>

definition works :: "kparser \<Rightarrow> (kparser \<Rightarrow> 'a kparse) \<Rightarrow> bool" where
  "works b run \<longleftrightarrow> (\<forall>q. after b q \<longrightarrow> concludes b (\<lambda>(x, q'). ahead q q') (run q))"

lemma worksD: "works b run \<Longrightarrow> after b q \<Longrightarrow> concludes b (\<lambda>(x, q'). ahead q q') (run q)"
  by (simp add: works_def)

lemma works_later: "works b run \<Longrightarrow> after b q \<Longrightarrow> works q run"
  by (auto simp: works_def concludes_src[of q b] after_def)

text \<open>Chaining: what comes after a parser starts strictly ahead.\<close>

lemma concludes_then:
  assumes "concludes b (\<lambda>(x, q'). ahead q q') r" "after b q"
    and "\<And>x q'. ahead q q' \<Longrightarrow> after b q' \<Longrightarrow> concludes b R (f (x, q'))"
  shows "concludes b R (res_bind r f)"
  by (rule concludes_bind[OF assms(1)]) (auto intro!: assms(3) intro: after_trans[OF assms(2)] ahead_after)

lemma concludes_then_state:
  assumes "concludes b (ahead q) r" "after b q" and "\<And>q'. ahead q q' \<Longrightarrow> after b q' \<Longrightarrow> concludes b R (f q')"
  shows "concludes b R (res_bind r f)"
  by (rule concludes_bind[OF assms(1)]) (auto intro!: assms(3) intro: after_trans[OF assms(2)] ahead_after)

lemma ahead_trans: "ahead p q \<Longrightarrow> ahead q r \<Longrightarrow> ahead p r"
  by (rule ahead_after_trans[OF _ ahead_after])

lemma ahead_trivia: "ahead p q \<Longrightarrow> ahead p (skip_trivia q)"
  by (rule ahead_after_trans[OF _ after_trivia[OF after_self[OF ahead_after]]])

lemma after_trivia_trans: "after b q \<Longrightarrow> after b (skip_trivia q)"
  by (rule after_trans[OF _ after_trivia[OF after_self]])

lemma concludes_weaken: "concludes b (\<lambda>(x, q'). ahead q q') r \<Longrightarrow> after p q \<Longrightarrow> concludes b (\<lambda>(x, q'). ahead p q') r"
  by (erule concludes_mono) (auto intro: after_ahead_trans)

lemma concludes_map_prod: "concludes b (\<lambda>(x, q'). ahead p q') r \<Longrightarrow> concludes b (\<lambda>(x, q'). ahead p q') (res_map (map_prod f id) r)"
  by (erule concludes_map) auto

lemma concludes_expect_map:
  "after b q \<Longrightarrow> s \<noteq> [] \<Longrightarrow> after p q \<Longrightarrow> concludes b (\<lambda>(x, q'). ahead p q') (res_map (\<lambda>p2. (f p2, p2)) (expect s (skip_trivia q)))"
  by (rule concludes_map[OF expect_trivia]) (auto intro: after_ahead_trans)

lemma string_loop_concludes:
  "(\<And>q. ahead b q \<Longrightarrow> concludes b (\<lambda>(x, q'). ahead q q') (expr q)) \<Longrightarrow> after b p \<Longrightarrow> remaining p < n \<Longrightarrow>
   concludes b (\<lambda>(x, q'). ahead p q') (string_loop n expr parts text p)"
proof (induction n arbitrary: parts "text" p)
  case (Suc n)
  have self: "after p p" using Suc.prems(2) by (rule after_self)
  have again: "concludes b (\<lambda>(x, q'). ahead p q') (string_loop n expr parts' text' q)" if "ahead p q" for parts' text' q
  proof -
    have "after b q" using that Suc.prems(2) by (auto intro: after_trans ahead_after)
    moreover have "remaining q < n" using remaining_ahead[OF that] Suc.prems(3) by simp
    ultimately show ?thesis
      using Suc.IH[OF Suc.prems(1), of q] that by (auto intro: concludes_weaken ahead_after)
  qed
  show ?case
  proof (cases "src_starts_with ''{{'' p")
    case True
    let ?q = "skip 2 p"
    have q: "ahead p ?q" using starts_with_length[OF True] self by (intro ahead_skip) auto
    then have bq: "after b ?q" "ahead b ?q" using Suc.prems(2) by (auto intro: after_trans ahead_after after_ahead_trans)
    have "concludes b (\<lambda>(x, q'). ahead p q') (res_bind (expr ?q) (\<lambda>(e, p1).
        res_bind (expect ''}}'' (skip_trivia p1)) (string_loop n expr (parts' @ [Hole e]) [])))" for parts'
      by (rule concludes_then[OF Suc.prems(1)[OF bq(2)] bq(1)], simp, rule concludes_then_state[OF expect_trivia])
         (auto intro!: again intro: ahead_trans q)
    then show ?thesis using True by (auto simp: Let_def)
  next
    case False
    show ?thesis
    proof (cases "rest p")
      case Nil
      then show ?thesis using False Suc.prems(2) by (simp add: concludes_kerror)
    next
      case (Cons c cs)
      have one: "ahead p (skip 1 p)" using Cons self by (intro ahead_skip) auto
      have more: "ahead p (skip (Suc (length (takeWhile is_continuation cs))) p)"
        using Cons self length_takeWhile_le[of is_continuation cs] by (intro ahead_skip) auto
      have "after b (skip 1 p)" using one Suc.prems(2) by (auto intro: after_trans ahead_after)
      then have esc: "concludes b (\<lambda>(x, q'). ahead p q') (res_bind (escape (skip 1 p)) (\<lambda>(t, p1). string_loop n expr parts (text @ t) p1))"
        by (intro concludes_then[OF escape_concludes]) (auto intro!: again intro: ahead_trans one)
      show ?thesis using False Cons one more esc by (auto simp: Let_def intro: again)
    qed
  qed
qed simp

lemma string_parts_concludes:
  assumes "\<And>q. ahead b q \<Longrightarrow> concludes b (\<lambda>(x, q'). ahead q q') (expr q)" "after b p"
  shows "concludes b (\<lambda>(x, q'). ahead p q') (string_parts expr p)"
proof -
  have "concludes b (\<lambda>(x, q'). ahead p q') (string_loop (Suc (remaining q)) expr [] [] q)" if "ahead p q" "after b q" for q
    by (rule concludes_weaken[OF string_loop_concludes[OF assms(1) that(2)] ahead_after[OF that(1)]]) auto
  then show ?thesis
    unfolding string_parts_def using assms(2) by (intro concludes_then_state[OF expect_concludes]) auto
qed

lemma sequence_loop_concludes:
  "works b item \<Longrightarrow> close \<noteq> [] \<Longrightarrow> after b p \<Longrightarrow> remaining p < n \<Longrightarrow>
   concludes b (\<lambda>(x, q'). ahead p q') (sequence_loop n item close items p)"
proof (induction n arbitrary: items p)
  case (Suc n)
  let ?p = "skip_trivia p"
  have p: "after p ?p" "after b ?p" "after ?p ?p"
    using after_trivia[OF after_self[OF Suc.prems(3)]] after_trivia_trans[OF Suc.prems(3)] after_self by auto
  show ?case
  proof (cases "eat close ?p")
    case (Some q)
    then show ?thesis using eat_ahead[OF Some Suc.prems(2) p(3)] p(1) by (auto simp: Let_def intro: after_ahead_trans)
  next
    case None
    have "concludes b (\<lambda>(x, q'). ahead p q') (res_bind (item ?p) (\<lambda>(x, p1).
        case eat '','' (skip_trivia p1) of
          Some p2 \<Rightarrow> sequence_loop n item close (items @ [x]) p2
        | None \<Rightarrow> res_map (\<lambda>p2. (items @ [x], p2)) (expect close (skip_trivia p1))))"
    proof (rule concludes_then[OF worksD[OF Suc.prems(1) p(2)] p(2)], simp)
      fix x q
      assume q: "ahead ?p q" "after b q"
      have pq: "ahead p q" using q(1) p(1) by (rule after_ahead_trans[rotated])
      show "concludes b (\<lambda>(x, q'). ahead p q') (case eat '','' (skip_trivia q) of
          Some p2 \<Rightarrow> sequence_loop n item close (items @ [x]) p2
        | None \<Rightarrow> res_map (\<lambda>p2. (items @ [x], p2)) (expect close (skip_trivia q)))"
      proof (cases "eat '','' (skip_trivia q)")
        case None
        then show ?thesis using q pq Suc.prems(2) by (auto intro!: concludes_expect_map ahead_after)
      next
        case (Some r)
        have r: "ahead p r"
          using eat_ahead[OF Some] after_self[OF after_trivia_trans[OF q(2)]] ahead_trivia[OF pq] by (auto intro: ahead_trans)
        have "remaining r < n" using remaining_ahead[OF r] Suc.prems(4) by simp
        moreover have "after b r" using r Suc.prems(3) by (auto intro: after_trans ahead_after)
        ultimately show ?thesis
          using Some Suc.IH[OF Suc.prems(1,2), of r] r by (auto intro: concludes_weaken ahead_after)
      qed
    qed
    then show ?thesis using None by (simp add: Let_def)
  qed
qed simp

lemma sequence_concludes:
  "works b item \<Longrightarrow> close \<noteq> [] \<Longrightarrow> after b p \<Longrightarrow> concludes b (\<lambda>(x, q'). ahead p q') (sequence item close p)"
  unfolding sequence_def by (rule sequence_loop_concludes) auto

section \<open>Value positions\<close>

text \<open>A parser one level down: it works strictly ahead of the position the level starts at.\<close>

definition works_ahead :: "kparser \<Rightarrow> (kparser \<Rightarrow> 'a kparse) \<Rightarrow> bool" where
  "works_ahead b run \<longleftrightarrow> (\<forall>q. ahead b q \<longrightarrow> concludes b (\<lambda>(x, q'). ahead q q') (run q))"

lemma works_aheadD: "works_ahead b run \<Longrightarrow> ahead b q \<Longrightarrow> concludes b (\<lambda>(x, q'). ahead q q') (run q)"
  by (simp add: works_ahead_def)

lemma works_ahead_at: "works_ahead b run \<Longrightarrow> ahead b q \<Longrightarrow> works q run"
  unfolding works_def works_ahead_def
  by (auto intro: ahead_after_trans simp: concludes_src[of q b] ahead_def after_def)

lemma works_weaken: "works b run \<Longrightarrow> works_ahead b run"
  by (simp add: works_def works_ahead_def ahead_def)

lemma member_of_works: "works b expr \<Longrightarrow> works b val \<Longrightarrow> works b (member_of expr val)"
  unfolding works_def[of b "member_of expr val"] member_of_def
proof (intro allI impI)
  fix q
  assume w: "works b expr" "works b val" and q: "after b q"
  have "concludes b (\<lambda>(x, q'). ahead q q') (string_parts expr q)"
    by (rule string_parts_concludes[OF _ q]) (use w(1) in \<open>auto intro: worksD ahead_after\<close>)
  then show "concludes b (\<lambda>(x, q'). ahead q q') (res_bind (string_parts expr q) (\<lambda>(key, p1).
      res_bind (expect '':'' (skip_trivia p1)) (\<lambda>p2. res_map (\<lambda>(v, p3). ((key, v), p3)) (val p2))))"
    by (rule concludes_then[OF _ q], simp, intro concludes_then_state[OF expect_trivia] concludes_map[OF worksD[OF w(2)]])
       (auto intro: ahead_trans)
qed

lemma array_node_concludes:
  assumes "works_ahead b node" "after b p"
  shows "concludes b (\<lambda>(x, q'). ahead p q') (array_node node p)"
  unfolding array_node_def
proof (rule concludes_then_state[OF expect_concludes[OF assms(2)] assms(2)], simp)
  fix q assume q: "ahead p q" "after b q"
  have "works q node" using works_ahead_at[OF assms(1)] after_ahead_trans[OF assms(2) q(1)] .
  then have "concludes q (\<lambda>(x, q'). ahead q q') (sequence node '']'' q)"
    by (rule sequence_concludes) (use after_self[OF q(2)] in auto)
  then show "concludes b (\<lambda>(x, q'). ahead p q') (res_map (map_prod NArray id) (sequence node '']'' q))"
    using concludes_after[OF q(2)] q(1) by (intro concludes_map_prod) (auto intro: concludes_weaken ahead_after)
qed

lemma object_node_concludes:
  assumes "works_ahead b node" "works_ahead b expr" "after b p"
  shows "concludes b (\<lambda>(x, q'). ahead p q') (object_node node expr p)"
  unfolding object_node_def
proof (rule concludes_then_state[OF expect_concludes[OF assms(3)] assms(3)], simp)
  fix q assume q: "ahead p q" "after b q"
  have "works q (member_of expr node)"
    using works_ahead_at[OF assms(1)] works_ahead_at[OF assms(2)] after_ahead_trans[OF assms(3) q(1)]
    by (intro member_of_works) auto
  then have "concludes q (\<lambda>(x, q'). ahead q q') (sequence (member_of expr node) ''}'' q)"
    by (rule sequence_concludes) (use after_self[OF q(2)] in auto)
  then show "concludes b (\<lambda>(x, q'). ahead p q') (res_map (map_prod NObject id) (sequence (member_of expr node) ''}'' q))"
    using concludes_after[OF q(2)] q(1) by (intro concludes_map_prod) (auto intro: concludes_weaken ahead_after)
qed

lemma if_end_concludes:
  assumes "works b node" "after b p"
  shows "concludes b (\<lambda>(x, q'). ahead p q') (if_end node arms p)"
proof -
  have close: "concludes b (\<lambda>(x, q'). ahead p q')
      (case keyword ''end'' q of
         Some p2 \<Rightarrow> res_map (\<lambda>p3. (NIf arms otherwise, p3)) (expect ''}}'' (skip_trivia p2))
       | None \<Rightarrow> kerror q m)" if q: "after p q" for otherwise q m
  proof -
    have bq: "after b q" using assms(2) q by (rule after_trans)
    show ?thesis
    proof (cases "keyword ''end'' q")
      case (Some r)
      have "ahead q r" using keyword_ahead[OF Some] after_self[OF bq] by simp
      then have "ahead p r" "after b r" using q bq by (auto intro: after_ahead_trans after_trans ahead_after)
      then show ?thesis using Some by (auto intro!: concludes_expect_map ahead_after)
    qed (simp add: concludes_kerror[OF bq])
  qed
  show ?thesis
  proof (cases "keyword ''else'' p")
    case None
    then show ?thesis
      using close[OF after_self[OF assms(2)]] by (simp add: if_end_def)
  next
    case (Some q)
    have q: "ahead p q" "after b q"
      using keyword_ahead[OF Some] after_self[OF assms(2)] assms(2) by (auto intro: after_trans ahead_after)
    have "concludes b (\<lambda>(x, q'). after p q') (res_bind (expect ''}}'' (skip_trivia q)) (\<lambda>p2.
            res_bind (node p2) (\<lambda>(body, p3).
            res_map (\<lambda>p4. (Some body, skip_trivia p4)) (expect ''{{'' (skip_trivia p3)))))"
      by (rule concludes_then_state[OF expect_trivia[OF q(2)] q(2)], simp, rule concludes_then[OF worksD[OF assms(1)]],
          assumption, assumption, simp, rule concludes_map[OF expect_trivia], assumption, simp, simp)
         (meson ahead_trans ahead_trivia ahead_after q(1))
    then show ?thesis using Some unfolding if_end_def
      by (simp, elim concludes_bind) (auto intro: close)
  qed
qed

lemma if_loop_concludes:
  "works b node \<Longrightarrow> works b expr \<Longrightarrow> after b p \<Longrightarrow> remaining p < n \<Longrightarrow>
   concludes b (\<lambda>(x, q'). ahead p q') (if_loop n node expr arms p)"
proof (induction n arbitrary: arms p)
  case (Suc n)
  note w = Suc.prems(1,2) and p = Suc.prems(3)
  have tail: "concludes b (\<lambda>(x, q'). ahead p q') (let arms = arms'; p5 = skip_trivia q in
       case keyword ''elif'' p5 of
         Some p6 \<Rightarrow> if_loop n node expr arms p6
       | None \<Rightarrow> if_end node arms p5)" if q: "ahead p q" for arms' q
  proof -
    have q5: "ahead p (skip_trivia q)" using q by (rule ahead_trivia)
    then have b5: "after b (skip_trivia q)" using p by (auto intro: after_trans ahead_after)
    show ?thesis
    proof (cases "keyword ''elif'' (skip_trivia q)")
      case None
      then show ?thesis using if_end_concludes[OF w(1) b5] q5 by (auto intro: concludes_weaken ahead_after)
    next
      case (Some r)
      have r: "ahead p r" using keyword_ahead[OF Some] after_self[OF b5] q5 by (auto intro: ahead_trans)
      then have "after b r" "remaining r < n"
        using p Suc.prems(4) remaining_ahead[OF r] by (auto intro: after_trans ahead_after)
      then show ?thesis using Some Suc.IH[OF w, of r] r by (auto intro: concludes_weaken ahead_after)
    qed
  qed
  show ?case unfolding if_loop.simps
    by (rule concludes_then[OF worksD[OF w(2) p] p], simp, rule concludes_then_state[OF expect_trivia],
        assumption, simp, assumption, rule concludes_then[OF worksD[OF w(1)]], assumption, assumption, simp,
        rule concludes_then_state[OF expect_trivia], assumption, simp, assumption, rule tail)
       (meson ahead_trans)
qed simp

lemma range_names_concludes: "after b p \<Longrightarrow> concludes b (\<lambda>(x, q'). ahead p q') (range_names p)"
proof -
  assume p: "after b p"
  note p' = after_trivia_trans[OF p] and pp = after_trivia[OF after_self[OF p]]
  show ?thesis unfolding range_names_def
  proof (rule concludes_then[OF ident_concludes[OF p'] p'], unfold prod.case)
    fix first q assume q: "ahead (skip_trivia p) q" "after b q"
    have pq: "ahead p (skip_trivia q)" using q(1) pp by (auto intro: ahead_trivia after_ahead_trans)
    show "concludes b (\<lambda>(x, q'). ahead p q') (case eat '','' (skip_trivia q) of
         Some p2 \<Rightarrow>
           res_map (\<lambda>(second, p3). ((if first = ''_'' then None else Some first, second), p3))
             (ident (skip_trivia p2))
       | None \<Rightarrow> Ok ((None, first), skip_trivia q))"
    proof (cases "eat '','' (skip_trivia q)")
      case (Some r)
      have "ahead p r" using eat_ahead[OF Some] after_self[OF after_trivia_trans[OF q(2)]] pq by (auto intro: ahead_trans)
      then have r: "ahead p (skip_trivia r)" by (rule ahead_trivia)
      then have "after b (skip_trivia r)" using p by (auto intro: after_trans ahead_after)
      then show ?thesis using Some r by (auto intro!: concludes_map[OF ident_concludes] intro: ahead_trans)
    qed (use pq in simp)
  qed
qed

lemma range_block_concludes:
  assumes w: "works b node" "works b expr" and p: "after b p"
  shows "concludes b (\<lambda>(x, q'). ahead p q') (range_block node expr p)"
proof -
  have last: "concludes b (\<lambda>(x, q'). ahead p q')
      (case keyword ''end'' (skip_trivia q) of
         None \<Rightarrow> kerror (skip_trivia q) m
       | Some p7 \<Rightarrow> res_map (\<lambda>p8. (NRange index val source body, p8)) (expect ''}}'' (skip_trivia p7)))"
    if q: "ahead p q" for q m index val source body
  proof -
    have b: "after b (skip_trivia q)" using p q by (auto intro: after_trivia_trans after_trans ahead_after)
    show ?thesis
    proof (cases "keyword ''end'' (skip_trivia q)")
      case (Some r)
      have "ahead p r" using keyword_ahead[OF Some] after_self[OF b] ahead_trivia[OF q] by (auto intro: ahead_trans)
      then show ?thesis using Some p by (auto intro!: concludes_expect_map intro: after_trans ahead_after)
    qed (simp add: concludes_kerror[OF b])
  qed
  show ?thesis unfolding range_block_def
    by (rule concludes_then[OF range_names_concludes[OF p] p], simp add: split_beta, rule concludes_then_state[OF expect_trivia],
        assumption, simp, assumption, rule concludes_then[OF worksD[OF w(2)]], assumption, assumption, simp,
        rule concludes_then_state[OF expect_trivia], assumption, simp, assumption,
        rule concludes_then[OF worksD[OF w(1)]], assumption, assumption, simp,
        rule concludes_then_state[OF expect_trivia], assumption, simp, assumption, rule last)
       (meson ahead_trans)
qed

lemma if_block_concludes:
  "works b node \<Longrightarrow> works b expr \<Longrightarrow> after b p \<Longrightarrow> concludes b (\<lambda>(x, q'). ahead p q') (if_block node expr p)"
  unfolding if_block_def by (rule if_loop_concludes) auto

lemma block_body_concludes:
  assumes w: "works b node" "works b expr" and p: "after b p"
  shows "concludes b (\<lambda>(x, q'). ahead p q') (block_body node expr as_node as_expr p)"
proof -
  have keyw: "concludes b (\<lambda>(x, q'). ahead p q') (res_map (map_prod as_node id) r)"
    if "keyword s p = Some q" "s \<noteq> []" "after b q \<Longrightarrow> concludes b (\<lambda>(x, q'). ahead q q') r" for s q r
  proof -
    have "ahead p q" using keyword_ahead[OF that(1,2) after_self[OF p]] .
    then show ?thesis using that(3) p by (auto intro!: concludes_map_prod intro: concludes_weaken ahead_after after_trans)
  qed
  have plain: "concludes b (\<lambda>(x, q'). ahead p q') (res_bind (expr p) (\<lambda>(e, p1).
      res_map (\<lambda>p2. (as_expr e, p2)) (expect ''}}'' (skip_trivia p1))))"
    by (rule concludes_then[OF worksD[OF w(2) p] p]) (auto intro!: concludes_expect_map ahead_after)
  show ?thesis
  proof (cases "keyword ''if'' p")
    case (Some q)
    then show ?thesis using keyw[OF Some _ if_block_concludes[OF w]] by (simp add: block_body_def)
  next
    case if_none: None
    show ?thesis
    proof (cases "keyword ''range'' p")
      case (Some q)
      then show ?thesis using keyw[OF Some _ range_block_concludes[OF w]] if_none by (simp add: block_body_def)
    qed (use plain if_none in \<open>simp add: block_body_def\<close>)
  qed
qed

lemma block_concludes:
  assumes w: "works_ahead b node" "works_ahead b expr" and p: "after b p"
  shows "concludes b (\<lambda>(x, q'). ahead p q') (block node expr p)"
  unfolding block_def
proof (rule concludes_then_state[OF expect_concludes[OF p] p], simp)
  fix q assume q: "ahead p q" "after b q"
  have q': "ahead p (skip_trivia q)" using q(1) by (rule ahead_trivia)
  let ?q = "skip_trivia q"
  have "works ?q node" "works ?q expr" using works_ahead_at w after_ahead_trans[OF p q'] by blast+
  then have "concludes ?q (\<lambda>(x, q'). ahead ?q q') (block_body node expr id NExpr ?q)"
    by (rule block_body_concludes) (rule after_self[OF ahead_after[OF q']])
  then show "concludes b (\<lambda>(x, q'). ahead p q') (block_body node expr id NExpr ?q)"
    using concludes_after[OF after_trivia_trans[OF q(2)]] q' by (auto intro: concludes_weaken ahead_after)
qed

lemma node_step_concludes:
  assumes w: "works_ahead p node" "works_ahead p expr" and p: "after p p"
  shows "concludes p (\<lambda>(x, q'). ahead p q') (node_step ext node expr p)"
proof -
  let ?p = "skip_trivia p"
  have p': "after p ?p" using p by (rule after_trivia)
  have parts: "concludes p (\<lambda>(x, q'). ahead ?p q') (string_parts expr ?p)"
    by (rule string_parts_concludes[OF _ p']) (rule works_aheadD[OF w(2)])
  note parsers = block_concludes[OF w p'] object_node_concludes[OF w p'] array_node_concludes[OF w(1) p']
    concludes_map_prod[OF parts] concludes_map_prod[OF json_scalar_concludes[OF p']]
  show ?thesis
    unfolding node_step_def Let_def
    using parsers[THEN concludes_weaken[OF _ p']] by (auto simp: concludes_kerror[OF p'] split: option.splits)
qed

section \<open>Expressions\<close>

lemma call_or_var_concludes:
  assumes w: "works_ahead b expr" and p: "after b p"
  shows "concludes b (\<lambda>(x, q'). ahead p q') (call_or_var expr p)"
  unfolding call_or_var_def
proof (rule concludes_then[OF ident_concludes[OF p] p], unfold prod.case)
  fix name q assume q: "ahead p q" "after b q"
  have one: "ahead p (skip 1 q)" if "rest q \<noteq> []"
    using that ahead_skip[OF after_self[OF q(2)], of 1] q(1) by (auto simp: Suc_le_eq intro: ahead_trans)
  have call: "concludes b (\<lambda>(x, q'). ahead p q') (sequence expr '')'' (skip 1 q))" if "rest q \<noteq> []"
  proof -
    have b: "after b (skip 1 q)" using one[OF that] p by (auto intro: after_trans ahead_after)
    have "works (skip 1 q) expr" using works_ahead_at[OF w] after_ahead_trans[OF p one[OF that]] .
    then have "concludes (skip 1 q) (\<lambda>(x, q'). ahead (skip 1 q) q') (sequence expr '')'' (skip 1 q))"
      by (rule sequence_concludes) (use after_self[OF b] in auto)
    then show ?thesis using concludes_after[OF b] one[OF that] by (auto intro: concludes_weaken ahead_after)
  qed
  show "concludes b (\<lambda>(x, q'). ahead p q')
     (if peek q = Some (CHR ''('') then res_map (map_prod (CallOf name) id) (sequence expr '')'' (skip 1 q))
       else
         let optional = (src_starts_with ''?'' q \<and> \<not> src_starts_with ''?.'' q \<and> \<not> src_starts_with ''?['' q) in
         Ok (Var name optional, if optional then skip 1 q else q))"
    using q(1) one call
    by (auto simp: Let_def peek_def src_starts_with_def intro!: concludes_map_prod split: list.splits)
qed

lemma parenthesized_concludes:
  assumes w: "works_ahead b expr" and p: "after b p" "rest p \<noteq> []"
  shows "concludes b (\<lambda>(x, q'). ahead p q') (parenthesized expr p)"
proof -
  have one: "ahead p (skip 1 p)" using p ahead_skip[OF after_self[OF p(1)], of 1] by (auto simp: Suc_le_eq)
  then have b: "ahead b (skip 1 p)" using p(1) by (rule after_ahead_trans[rotated])
  show ?thesis unfolding parenthesized_def
    by (rule concludes_then[OF works_aheadD[OF w b] ahead_after[OF b]], unfold prod.case, rule concludes_expect_map)
       (assumption, simp, rule ahead_after[OF ahead_trans[OF one]])
qed

text \<open>A sequence after an opening byte.\<close>

lemma bracketed_concludes:
  assumes w: "\<And>q. ahead b q \<Longrightarrow> works q item" and p: "after b p" "rest p \<noteq> []" and "close \<noteq> []"
  shows "concludes b (\<lambda>(x, q'). ahead p q') (sequence item close (skip 1 p))"
proof -
  have one: "ahead p (skip 1 p)" using p ahead_skip[OF after_self[OF p(1)], of 1] by (auto simp: Suc_le_eq)
  then have b: "ahead b (skip 1 p)" using p(1) by (rule after_ahead_trans[rotated])
  have "concludes (skip 1 p) (\<lambda>(x, q'). ahead (skip 1 p) q') (sequence item close (skip 1 p))"
    by (rule sequence_concludes[OF w[OF b] assms(4)]) (rule after_self[OF ahead_after[OF b]])
  then show ?thesis using concludes_after[OF ahead_after[OF b]] one by (auto intro: concludes_weaken ahead_after)
qed

lemma atom_concludes:
  assumes w: "works_ahead b node" "works_ahead b expr" and p: "after b p"
  shows "concludes b (\<lambda>(x, q'). ahead p q') (atom ext node expr p)"
proof -
  let ?p = "skip_trivia p"
  have p': "after b ?p" "after p ?p" using p after_trivia_trans after_trivia after_self by blast+
  have hole: "concludes b (\<lambda>(x, q'). ahead ?p q') (block_body node expr Template id (skip_trivia (skip 2 ?p)))"
    if "src_starts_with ''{{'' ?p"
  proof -
    let ?q = "skip_trivia (skip 2 ?p)"
    have q: "ahead ?p ?q"
      using starts_with_length[OF that] after_self[OF p'(1)] by (intro ahead_trivia ahead_skip) auto
    have bq: "ahead b ?q" using p'(1) q by (rule after_ahead_trans)
    have "concludes ?q (\<lambda>(x, q'). ahead ?q q') (block_body node expr Template id ?q)"
      using works_ahead_at[OF w(1) bq] works_ahead_at[OF w(2) bq] after_self[OF ahead_after[OF bq]]
      by (rule block_body_concludes)
    then show ?thesis using concludes_after[OF ahead_after[OF bq]] q by (auto intro: concludes_weaken ahead_after)
  qed
  have parts: "concludes b (\<lambda>(x, q'). ahead ?p q') (string_parts expr ?p)"
    by (rule string_parts_concludes[OF _ p'(1)]) (rule works_aheadD[OF w(2)])
  have seqs: "concludes b (\<lambda>(x, q'). ahead ?p q') (sequence expr '']'' (skip 1 ?p))"
    "concludes b (\<lambda>(x, q'). ahead ?p q') (sequence (member_of expr expr) ''}'' (skip 1 ?p))" if "rest ?p \<noteq> []"
    by (rule bracketed_concludes[OF _ p'(1) that]; simp add: works_ahead_at[OF w(2)] member_of_works)+
  have "concludes b (\<lambda>(x, q'). ahead ?p q') (atom ext node expr p)"
    unfolding atom_def Let_def
    using hole parts seqs parenthesized_concludes[OF w(2) p'(1)] call_or_var_concludes[OF w(2) p'(1)]
      json_scalar_concludes[OF p'(1)]
    by (auto simp: concludes_kerror[OF p'(1)] peek_def intro!: concludes_map_prod split: option.splits list.splits)
  then show ?thesis using p'(2) by (rule concludes_weaken)
qed

lemma bracket_step_concludes: "after b p \<Longrightarrow> concludes b (\<lambda>(x, q'). after p q') (bracket_step p)"
proof -
  assume p: "after b p"
  let ?p = "skip_trivia p"
  have p': "after b ?p" "after p ?p" using p after_trivia_trans after_trivia after_self by blast+
  have index: "after ?p (skip (length (takeWhile P (rest ?p))) ?p)" for P
    by (rule after_skip[OF after_self[OF p'(1)] length_takeWhile_le])
  have "concludes b (\<lambda>(x, q'). after ?p q')
      (if peek ?p = Some (CHR 0x22) \<or> peek ?p = Some (CHR 0x27) then res_map (map_prod Key id) (quoted_key ?p)
       else
         let text = takeWhile (\<lambda>c. is_ascii_digit c \<or> c = CHR ''-'') (rest ?p) in
         case parse_signed i64_min i64_max text of
           None \<Rightarrow> kerror_at m (pos ?p)
         | Some i \<Rightarrow> Ok (At i, skip (length text) ?p))" for m
    using concludes_mono[OF concludes_map_prod[OF quoted_key_concludes[OF p'(1)]], of "\<lambda>(x, q'). after ?p q'"] index p'(1)
    by (auto simp: Let_def concludes_kerror_at after_def[of b] ahead_after split: option.splits)
  then show ?thesis unfolding bracket_step_def Let_def
  proof (rule concludes_bind)
    fix x :: "step_kind \<times> kparser" assume "case x of (x, q') \<Rightarrow> after ?p q'"
    then have q: "after p (snd x)" "after b (snd x)" using p' by (auto simp: split_beta intro: after_trans)
    show "concludes b (\<lambda>(x, q'). after p q') (case x of (kind, p1) \<Rightarrow> res_map (\<lambda>p2. (kind, p2)) (expect '']'' (skip_trivia p1)))"
      using concludes_mono[OF concludes_expect_map[OF q(2) _ q(1), of "'']''" "\<lambda>_. fst x"], of "\<lambda>(x, q'). after p q'"]
      by (auto simp: split_beta intro: ahead_after)
  qed
qed

lemma postfix_steps_concludes:
  "after b p \<Longrightarrow> remaining p < n \<Longrightarrow> concludes b (\<lambda>(x, q'). after p q') (postfix_steps n base steps p)"
proof (induction n arbitrary: steps p)
  case (Suc n)
  let ?o = "src_starts_with ''?.'' p \<or> src_starts_with ''?['' p"
  let ?p = "if ?o then skip 1 p else p"
  have self: "after p p" using Suc.prems(1) by (rule after_self)
  have p: "after p ?p" using self starts_with_length[of _ p] by (fastforce intro!: after_skip)
  have b: "after b ?p" using Suc.prems(1) p by (rule after_trans)
  have again: "concludes b (\<lambda>(x, q'). after p q') (postfix_steps n base steps' q)" if q: "ahead ?p q" for steps' q
  proof -
    have pq: "ahead p q" using p q by (rule after_ahead_trans)
    then have "after b q" "remaining q < n"
      using Suc.prems remaining_ahead[OF pq] by (auto intro: after_trans ahead_after)
    then show ?thesis
      by (rule concludes_mono[OF Suc.IH]) (use pq in \<open>auto intro: after_trans ahead_after\<close>)
  qed
  have field: "concludes b (\<lambda>(x, q'). after p q') (res_bind (ident q) (\<lambda>(name, p2). postfix_steps n base (f name) p2))"
    if "eat ''.'' ?p = Some q" for q f
  proof -
    have q: "ahead ?p q" using eat_ahead[OF that] after_self[OF b] by simp
    then have bq: "after b q" using b by (auto intro: after_trans ahead_after)
    show ?thesis
      by (rule concludes_then[OF ident_concludes[OF bq] bq]) (use again ahead_trans[OF q] in simp)
  qed
  have bracket: "concludes b (\<lambda>(x, q'). after p q') (res_bind (bracket_step q) (\<lambda>(kind, p2). postfix_steps n base (f kind) p2))"
    if "eat ''['' ?p = Some q" for q f
  proof -
    have q: "ahead ?p q" using eat_ahead[OF that] after_self[OF b] by simp
    then have bq: "after b q" using b by (auto intro: after_trans ahead_after)
    show ?thesis
      by (rule concludes_bind[OF bracket_step_concludes[OF bq]]) (use again ahead_after_trans[OF q] in auto)
  qed
  show ?case unfolding postfix_steps.simps Let_def
    using field bracket p concludes_kerror[OF b] self by (auto split: option.splits)
qed simp

lemma postfix_expr_concludes:
  assumes w: "works_ahead b node" "works_ahead b expr" and p: "after b p"
  shows "concludes b (\<lambda>(x, q'). ahead p q') (postfix_expr ext node expr p)"
  unfolding postfix_expr_def
proof (rule concludes_then[OF atom_concludes[OF w p] p], unfold prod.case)
  fix base q assume q: "ahead p q" "after b q"
  show "concludes b (\<lambda>(x, q'). ahead p q') (postfix_steps (Suc (remaining q)) base [] q)"
    by (rule concludes_mono[OF postfix_steps_concludes[OF q(2)]]) (use ahead_after_trans[OF q(1)] in auto)
qed

lemma unary_expr_step_concludes:
  assumes w: "works_ahead b node" "works_ahead b expr" "works_ahead b unary" and p: "after b p"
  shows "concludes b (\<lambda>(x, q'). ahead p q') (unary_expr_step ext node expr unary p)"
proof -
  let ?p = "skip_trivia p"
  have p': "after b ?p" "after p ?p" using p after_trivia_trans after_trivia after_self by blast+
  show ?thesis
  proof (cases "keyword ''not'' ?p")
    case None
    then show ?thesis
      using concludes_weaken[OF postfix_expr_concludes[OF w(1,2) p'(1)] p'(2)] by (simp add: unary_expr_step_def Let_def)
  next
    case (Some q)
    have q: "ahead ?p q" using keyword_ahead[OF Some] after_self[OF p'(1)] by simp
    then have "ahead b q" "ahead p q" using p' by (auto intro: after_ahead_trans)
    then show ?thesis
      using Some works_aheadD[OF w(3)] by (auto simp: unary_expr_step_def Let_def intro!: concludes_map_prod intro: concludes_weaken ahead_after)
  qed
qed

lemma compare_op_ahead: "compare_op p = Some (op, q) \<Longrightarrow> after p p \<Longrightarrow> ahead p q"
  by (auto simp: compare_op_def split: option.splits intro: eat_ahead keyword_ahead)

text \<open>The operator levels over a parser that works from \<open>b\<close> on.\<close>

locale operand_level =
  fixes b :: kparser and operand :: "kparser \<Rightarrow> kexpr kparse"
  assumes operand_works: "works b operand"
begin

lemma compare_works: "works b (compare_expr operand)"
  unfolding works_def compare_expr_def
proof (intro allI impI)
  fix p assume p: "after b p"
  show "concludes b (\<lambda>(x, q'). ahead p q') (res_bind (operand p) (\<lambda>(lhs, p1).
       let p1 = skip_trivia p1 in
       case compare_op p1 of
         None \<Rightarrow> Ok (lhs, p1)
       | Some (op, p2) \<Rightarrow> res_map (\<lambda>(rhs, p3). (BinaryOf op lhs rhs, p3)) (operand p2)))"
  proof (rule concludes_then[OF worksD[OF operand_works p] p], unfold prod.case Let_def)
    fix lhs q assume q: "ahead p q" "after b q"
    have q': "ahead p (skip_trivia q)" "after b (skip_trivia q)" using q ahead_trivia after_trivia_trans by blast+
    have rhs: "concludes b (\<lambda>(x, q'). ahead p q') (res_map (\<lambda>(rhs, p3). (BinaryOf op lhs rhs, p3)) (operand r))"
      if "compare_op (skip_trivia q) = Some (op, r)" for op r
    proof -
      have r: "ahead p r" using compare_op_ahead[OF that after_self[OF q'(2)]] q'(1) by (auto intro: ahead_trans)
      then have "after b r" using p by (auto intro: after_trans ahead_after)
      then show ?thesis using r by (auto intro!: concludes_map[OF worksD[OF operand_works]] intro: ahead_trans)
    qed
    show "concludes b (\<lambda>(x, q'). ahead p q') (case compare_op (skip_trivia q) of
         None \<Rightarrow> Ok (lhs, skip_trivia q)
       | Some (op, p2) \<Rightarrow> res_map (\<lambda>(rhs, p3). (BinaryOf op lhs rhs, p3)) (operand p2))"
      using q'(1) rhs by (auto split: option.splits)
  qed
qed

lemma operator_loop_concludes:
  "symb \<noteq> [] \<Longrightarrow> after b p \<Longrightarrow> remaining p < n \<Longrightarrow>
   concludes b (\<lambda>(x, q'). after p q') (operator_loop n operand symb op lhs p)"
proof (induction n arbitrary: lhs p)
  case (Suc n)
  let ?p = "skip_trivia p"
  have p': "after b ?p" "after p ?p" using Suc.prems(2) after_trivia_trans after_trivia after_self by blast+
  have rhs: "concludes b (\<lambda>(x, q'). after p q') (res_bind (operand q) (\<lambda>(rhs, p2). operator_loop n operand symb op (BinaryOf op lhs rhs) p2))"
    if "eat symb ?p = Some q" for q
  proof -
    have q: "ahead p q" using eat_ahead[OF that Suc.prems(1) after_self[OF p'(1)]] p'(2) by (auto intro: after_ahead_trans)
    then have bq: "after b q" using Suc.prems(2) by (auto intro: after_trans ahead_after)
    show ?thesis
    proof (rule concludes_then[OF worksD[OF operand_works bq] bq], unfold prod.case)
      fix rhs r assume r: "ahead q r" "after b r"
      have "remaining r < n" using remaining_ahead[OF ahead_trans[OF q r(1)]] Suc.prems(3) by simp
      then show "concludes b (\<lambda>(x, q'). after p q') (operator_loop n operand symb op (BinaryOf op lhs rhs) r)"
        by (rule concludes_mono[OF Suc.IH[OF Suc.prems(1) r(2)]])
           (use ahead_trans[OF q r(1)] in \<open>auto intro: after_trans ahead_after\<close>)
    qed
  qed
  show ?case using p'(2) rhs by (auto simp: Let_def split: option.splits)
qed simp

lemma operator_works: "symb \<noteq> [] \<Longrightarrow> works b (operator_level operand symb op)"
  unfolding works_def operator_level_def
proof (intro allI impI)
  fix p assume symb: "symb \<noteq> []" and p: "after b p"
  show "concludes b (\<lambda>(x, q'). ahead p q') (res_bind (operand p) (\<lambda>(lhs, p1). operator_loop (Suc (remaining p1)) operand symb op lhs p1))"
  proof (rule concludes_then[OF worksD[OF operand_works p] p], unfold prod.case)
    fix lhs q assume q: "ahead p q" "after b q"
    show "concludes b (\<lambda>(x, q'). ahead p q') (operator_loop (Suc (remaining q)) operand symb op lhs q)"
      by (rule concludes_mono[OF operator_loop_concludes[OF symb q(2)]]) (use ahead_after_trans[OF q(1)] in auto)
  qed
qed

end

section \<open>The whole grammar\<close>

lemma default_expr_works: "works b unary \<Longrightarrow> works b (default_expr unary)"
  unfolding default_expr_def or_expr_def and_expr_def
  by (intro operand_level.operator_works operand_level.compare_works operand_level.intro) auto

text \<open>A level of the grammar: a parser that works wherever fewer than \<open>d\<close> bytes remain.\<close>

locale grammar_level =
  fixes run :: "kparser \<Rightarrow> 'a kparse" and d :: nat
  assumes run_concludes: "after p p \<Longrightarrow> remaining p < d \<Longrightarrow> concludes p (\<lambda>(x, q'). ahead p q') (run p)"
begin

lemma run_works_ahead: "after b b \<Longrightarrow> remaining b \<le> d \<Longrightarrow> works_ahead b run"
  unfolding works_ahead_def
proof (intro allI impI)
  fix q assume b: "after b b" "remaining b \<le> d" and q: "ahead b q"
  have "concludes q (\<lambda>(x, q'). ahead q q') (run q)"
    using run_concludes[of q] after_self[OF ahead_after[OF q]] remaining_ahead[OF q] b(2) by simp
  then show "concludes b (\<lambda>(x, q'). ahead q q') (run q)" by (rule concludes_after[OF ahead_after[OF q]])
qed

lemma run_answers: "after p p \<Longrightarrow> remaining p < d \<Longrightarrow> run p \<noteq> Err NoFuel"
  using run_concludes[of p] by (auto simp: concludes_def)

end

lemma grammar_levels:
  "grammar_level (parse_node ext d) d \<and> grammar_level (parse_expr ext d) d \<and> grammar_level (parse_unary_expr ext d) d"
proof (induction d)
  case 0
  then show ?case by (auto simp: grammar_level_def)
next
  case (Suc d)
  have w: "works_ahead p (parse_node ext d)" "works_ahead p (parse_expr ext d)" "works_ahead p (parse_unary_expr ext d)"
    if "after p p" "remaining p < Suc d" for p
    using Suc.IH that by (auto intro: grammar_level.run_works_ahead)
  have unary: "concludes p (\<lambda>(x, q'). ahead p q')
      (unary_expr_step ext (parse_node ext d) (parse_expr ext d) (parse_unary_expr ext d) p)"
    if "after p p" "remaining p < Suc d" for p
    using unary_expr_step_concludes[OF w[OF that] that(1)] .
  have "works p (unary_expr_step ext (parse_node ext d) (parse_expr ext d) (parse_unary_expr ext d))"
    if "after p p" "remaining p < Suc d" for p
    unfolding works_def using that unary remaining_after[of p] after_self[of p]
    by (metis (no_types, lifting) le_less_trans concludes_after)
  from default_expr_works[OF this]
  have "concludes p (\<lambda>(x, q'). ahead p q') (parse_expr ext (Suc d) p)" if "after p p" "remaining p < Suc d" for p
    using worksD that by fastforce
  then show ?case using unary node_step_concludes w by (auto simp: grammar_level_def)
qed

interpretation node_level: grammar_level "parse_node ext d" d for ext d
  using grammar_levels by blast

interpretation expr_level: grammar_level "parse_expr ext d" d for ext d
  using grammar_levels by blast

interpretation unary_level: grammar_level "parse_unary_expr ext d" d for ext d
  using grammar_levels by blast

interpretation operands: operand_level b "parse_unary_expr ext (Suc (remaining b))" for ext b
proof
  show "works b (parse_unary_expr ext (Suc (remaining b)))"
    unfolding works_def
  proof (intro allI impI)
    fix q assume q: "after b q"
    show "concludes b (\<lambda>(x, q'). ahead q q') (parse_unary_expr ext (Suc (remaining b)) q)"
      using unary_level.run_concludes[OF after_self[OF q]] remaining_after[OF q]
      by (intro concludes_after[OF q]) (simp add: less_Suc_eq_le del: parse_unary_expr.simps)
  qed
qed

lemma parse_template_concludes: "concludes \<lparr>src = source, pos = 0\<rparr> (\<lambda>_. True) (parse_template ext source)"
proof -
  let ?b = "\<lparr>src = source, pos = 0\<rparr>"
  let ?p = "skip_trivia ?b"
  have b: "after ?b ?b" by (simp add: after_def)
  then have p: "after ?b ?p" by (rule after_trivia)
  have "remaining ?p < Suc (length source)"
    using remaining_after[OF p] by (simp add: remaining_alt)
  then have "concludes ?p (\<lambda>(x, q'). ahead ?p q') (parse_node ext (Suc (length source)) ?p)"
    by (intro node_level.run_concludes) (rule after_self[OF p])
  from concludes_after[OF p this] show ?thesis
    unfolding parse_template_def
    by (rule concludes_then[OF _ p]) (auto simp: Let_def intro!: concludes_kerror after_trivia_trans simp del: parse_node.simps)
qed

text \<open>
  (C33) The template parser answers every source: with a template or with an error whose offset lies in
  the source. The budgets of the model are never exhausted.
\<close>

theorem parse_template_answers:
  "case parse_template ext source of
     Ok node \<Rightarrow> True
   | Err (Refused e) \<Rightarrow> kpe_offset e \<le> length source
   | Err NoFuel \<Rightarrow> False"
  using parse_template_concludes[of source ext] by (auto simp: concludes_def split: result.splits kstop.splits)

end
