(* ===== verification/Kriti_Functions.thy ===== *)
theory Kriti_Functions
  imports Kriti_Parser
begin

text \<open>
  The functions of templates (\<open>crates/kriti/src/functions.rs\<close>): each takes one value and returns a
  value or a message.
\<close>

type_synonym function_result = "(json, string) result"

definition with_text :: "string \<Rightarrow> json \<Rightarrow> (string \<Rightarrow> string) \<Rightarrow> function_result" where
  "with_text name argument f =
     (case argument of JString s \<Rightarrow> Ok (JString (f s)) | _ \<Rightarrow> Err (name @ '' expects a string''))"

text \<open>\<open>empty\<close>; a string is empty when \<open>trim\<close> leaves nothing.\<close>

fun empty_fn :: "kriti_externs \<Rightarrow> json \<Rightarrow> function_result" where
  "empty_fn ext (JObject m) = Ok (JBool (m = []))"
| "empty_fn ext (JArray xs) = Ok (JBool (xs = []))"
| "empty_fn ext (JString s) = Ok (JBool (is_space_only s))"
| "empty_fn ext (JNumber n) = Ok (JBool (f64_is_zero ext n))"
| "empty_fn ext (JBool b) = Err ''Cannot define emptiness for a boolean''"
| "empty_fn ext JNull = Ok (JBool True)"

definition json_of_nat :: "nat \<Rightarrow> json" where
  "json_of_nat n = JNumber (nat_to_string n)"

fun size_fn :: "json \<Rightarrow> function_result" where
  "size_fn (JObject m) = Ok (json_of_nat (length m))"
| "size_fn (JArray xs) = Ok (json_of_nat (length xs))"
| "size_fn (JString s) = Ok (json_of_nat (length (chars s)))"
| "size_fn (JNumber n) = Ok (JNumber n)"
| "size_fn (JBool b) = Ok (json_of_nat (if b then 1 else 0))"
| "size_fn JNull = Ok (json_of_nat 0)"

fun inverse_fn :: "kriti_externs \<Rightarrow> json \<Rightarrow> function_result" where
  "inverse_fn ext (JObject m) = Ok (JObject m)"
| "inverse_fn ext (JArray xs) = Ok (JArray (rev xs))"
| "inverse_fn ext (JString s) = Ok (JString (concat (rev (chars s))))"
| "inverse_fn ext (JNumber n) = Ok (case f64_recip ext n of Some r \<Rightarrow> JNumber r | None \<Rightarrow> JNull)"
| "inverse_fn ext (JBool b) = Ok (JBool (\<not> b))"
| "inverse_fn ext JNull = Ok JNull"

definition head_fn :: "json \<Rightarrow> function_result" where
  "head_fn argument =
     (case argument of
        JArray xs \<Rightarrow> (case xs of [] \<Rightarrow> Err ''Empty array'' | x # _ \<Rightarrow> Ok x)
      | JString s \<Rightarrow> (case chars s of [] \<Rightarrow> Err ''Empty string'' | c # _ \<Rightarrow> Ok (JString c))
      | _ \<Rightarrow> Err ''Expected an array or string'')"

definition tail_fn :: "json \<Rightarrow> function_result" where
  "tail_fn argument =
     (case argument of
        JArray xs \<Rightarrow> if xs = [] then Err ''Empty array'' else Ok (JArray (drop 1 xs))
      | JString s \<Rightarrow> if s = [] then Err ''Empty string'' else Ok (JString (concat (drop 1 (chars s))))
      | _ \<Rightarrow> Err ''Expected an array or string'')"

text \<open>Title case: the loop over the characters with the flag \<open>at_word_start\<close>.\<close>

fun to_title :: "kriti_externs \<Rightarrow> bool \<Rightarrow> string list \<Rightarrow> string" where
  "to_title ext at_word_start [] = []"
| "to_title ext at_word_start (c # cs) =
     (if char_alphabetic ext c
      then (if at_word_start then char_uppercase ext c else char_lowercase ext c) @ to_title ext False cs
      else c @ to_title ext True cs)"

definition upper_hex :: "nat \<Rightarrow> char" where
  "upper_hex n = (if n < 10 then char_of (48 + n) else char_of (55 + n))"

definition is_unreserved :: "char \<Rightarrow> bool" where
  "is_unreserved c \<longleftrightarrow> is_ascii_alphabetic c \<or> is_ascii_digit c \<or> c \<in> set ''-_.~''"

definition escape_uri :: "string \<Rightarrow> string" where
  "escape_uri s =
     concat (map (\<lambda>c. if is_unreserved c then [c]
                      else [CHR ''%'', upper_hex (byte_of c div 16), upper_hex (byte_of c mod 16)]) s)"

definition pairs_shape :: string where
  "pairs_shape = ''Expected an array of shape [ [k1,v1], [k2,v2] ... ] - With String keys.''"

fun insert_pairs :: "json list \<Rightarrow> (string \<times> json) list \<Rightarrow> ((string \<times> json) list, string) result" where
  "insert_pairs [] m = Ok m"
| "insert_pairs (pair # pairs) m =
     (case pair of
        JArray [JString key, v] \<Rightarrow> insert_pairs pairs (map_insert key v m)
      | _ \<Rightarrow> Err pairs_shape)"

definition from_pairs :: "json \<Rightarrow> function_result" where
  "from_pairs argument =
     (case argument of
        JArray pairs \<Rightarrow> res_map JObject (insert_pairs pairs [])
      | _ \<Rightarrow> Err ''fromPairs expects an array'')"

definition to_pairs :: "json \<Rightarrow> function_result" where
  "to_pairs argument =
     (case argument of
        JObject m \<Rightarrow> Ok (JArray (map (\<lambda>(k, v). JArray [JString k, v]) m))
      | _ \<Rightarrow> Err ''toPairs expects an object'')"

definition remove_nulls :: "json \<Rightarrow> function_result" where
  "remove_nulls argument =
     (case argument of
        JArray xs \<Rightarrow> Ok (JArray (filter (\<lambda>x. \<not> is_null x) xs))
      | _ \<Rightarrow> Err ''removeNulls expects an array'')"

definition insert_all :: "(string \<times> json) list \<Rightarrow> (string \<times> json) list \<Rightarrow> (string \<times> json) list" where
  "insert_all m entries = foldl (\<lambda>m (k, v). map_insert k v m) m entries"

definition concat_fn :: "json \<Rightarrow> function_result" where
  "concat_fn argument =
     (case argument of
        JArray xs \<Rightarrow>
          if list_all (\<lambda>x. as_array x \<noteq> None) xs
          then Ok (JArray (concat (List.map_filter as_array xs)))
          else if list_all (\<lambda>x. as_str x \<noteq> None) xs
          then Ok (JString (concat (List.map_filter as_str xs)))
          else if list_all (\<lambda>x. as_object x \<noteq> None) xs
          then Ok (JObject (foldl insert_all [] (List.map_filter as_object xs)))
          else Err ''concat expects an array of arrays, of strings, or of objects''
      | _ \<Rightarrow> Err ''concat expects an array'')"

definition not_fn :: "json \<Rightarrow> function_result" where
  "not_fn argument = (case argument of JBool b \<Rightarrow> Ok (JBool (\<not> b)) | _ \<Rightarrow> Err ''not expects a boolean'')"

definition call :: "kriti_externs \<Rightarrow> string \<Rightarrow> json \<Rightarrow> function_result" where
  "call ext name argument =
     (if name = ''empty'' then empty_fn ext argument
      else if name = ''size'' then size_fn argument
      else if name = ''inverse'' then inverse_fn ext argument
      else if name = ''head'' then head_fn argument
      else if name = ''tail'' then tail_fn argument
      else if name = ''toCaseFold'' then with_text name argument (str_lowercase ext)
      else if name = ''toLower'' then with_text name argument (str_lowercase ext)
      else if name = ''toUpper'' then with_text name argument (str_uppercase ext)
      else if name = ''toTitle'' then with_text name argument (\<lambda>s. to_title ext True (chars s))
      else if name = ''escapeUri'' then with_text name argument escape_uri
      else if name = ''fromPairs'' then from_pairs argument
      else if name = ''toPairs'' then to_pairs argument
      else if name = ''removeNulls'' then remove_nulls argument
      else if name = ''concat'' then concat_fn argument
      else if name = ''not'' then not_fn argument
      else Err (''no such function: '' @ name))"

section \<open>Characters\<close>

text \<open>One character: a byte with continuation bytes after it; a boundary before the rest.\<close>

definition is_char :: "string \<Rightarrow> bool" where
  "is_char ch \<longleftrightarrow> ch \<noteq> [] \<and> list_all is_continuation (tl ch)"

definition boundary :: "string \<Rightarrow> bool" where
  "boundary s \<longleftrightarrow> (case s of [] \<Rightarrow> True | c # _ \<Rightarrow> \<not> is_continuation c)"

lemma chars_append: "is_char ch \<Longrightarrow> boundary s \<Longrightarrow> chars (ch @ s) = ch # chars s"
proof (cases ch)
  case (Cons c cs)
  assume "is_char ch" "boundary s"
  then have "takeWhile is_continuation (cs @ s) = cs" "dropWhile is_continuation (cs @ s) = s"
    using Cons by (auto simp: is_char_def boundary_def list_all_iff takeWhile_append dropWhile_append split: list.splits)
  then show ?thesis using Cons by simp
qed (simp add: is_char_def)

lemma chars_concat:
  "list_all (\<lambda>ch. is_char ch \<and> boundary ch) cs \<Longrightarrow> chars (concat cs) = cs"
proof (induction cs)
  case (Cons ch cs)
  then have "boundary (concat cs)"
    by (cases cs) (auto simp: boundary_def is_char_def split: list.splits)
  then show ?case using Cons chars_append by simp
qed simp

lemma chars_are_chars: "boundary s \<Longrightarrow> list_all (\<lambda>ch. is_char ch \<and> boundary ch) (chars s)"
proof (induction s rule: chars.induct)
  case (2 c cs)
  have "boundary (dropWhile is_continuation cs)" by (induction cs) (auto simp: boundary_def)
  moreover have "list_all is_continuation (takeWhile is_continuation cs)"
    by (auto simp: list_all_iff dest: set_takeWhileD)
  ultimately show ?case using 2 by (simp add: is_char_def boundary_def)
qed simp

lemma chars_reversed: "boundary s \<Longrightarrow> chars (concat (rev (chars s))) = rev (chars s)"
  using chars_concat[of "rev (chars s)"] chars_are_chars[of s] by (simp add: list_all_iff)

section \<open>Pairs\<close>

lemma insert_pairs_new:
  "distinct (map fst (m @ m')) \<Longrightarrow> insert_pairs (map (\<lambda>(k, v). JArray [JString k, v]) m') m = Ok (m @ m')"
proof (induction m' arbitrary: m)
  case (Cons e m')
  obtain k v where e: "e = (k, v)" by fastforce
  with Cons.prems have "map_insert k v m = m @ [(k, v)]" by (intro map_insert_new) auto
  then show ?case using Cons.IH[of "m @ [(k, v)]"] Cons.prems e by simp
qed simp

section \<open>Percent encoding\<close>

text \<open>The reference decoder: a percent sign and two hexadecimal digits stand for a byte.\<close>

fun percent_decode :: "string \<Rightarrow> string" where
  "percent_decode (c # h # l # cs) =
     (if c = CHR ''%'' then char_of (hex_val h * 16 + hex_val l) # percent_decode cs
      else c # percent_decode (h # l # cs))"
| "percent_decode cs = cs"

lemma hex_val_digit: "n < 16 \<Longrightarrow> hex_val (upper_hex n) = n"
  by (auto simp: hex_val_def upper_hex_def is_ascii_digit_def)

lemma percent_decode_plain: "c \<noteq> CHR ''%'' \<Longrightarrow> percent_decode (c # cs) = c # percent_decode cs"
  by (cases cs rule: percent_decode.cases) auto

lemma byte_of_less: "byte_of c < (256 :: nat)"
  by (rule nat_of_char_less_256)

lemma is_unreserved_not_percent: "is_unreserved c \<Longrightarrow> c \<noteq> CHR ''%''"
  by (auto simp: is_unreserved_def is_ascii_alphabetic_def is_ascii_digit_def)

lemma percent_decode_escape: "percent_decode (escape_uri s) = s"
proof (induction s)
  case (Cons c s)
  have "char_of (byte_of c div 16 * 16 + byte_of c mod 16) = c" by simp
  moreover have "byte_of c div 16 < (16 :: nat)" using byte_of_less[of c] by linarith
  ultimately show ?case
    using Cons by (auto simp: escape_uri_def percent_decode_plain is_unreserved_not_percent hex_val_digit)
qed (simp add: escape_uri_def)

lemma hex_digit_unreserved: "n < 16 \<Longrightarrow> is_unreserved (upper_hex n)"
  by (auto simp: is_unreserved_def upper_hex_def is_ascii_digit_def is_ascii_alphabetic_def)

lemma escape_uri_bytes: "c \<in> set (escape_uri s) \<Longrightarrow> is_unreserved c \<or> c = CHR ''%''"
proof -
  have "byte_of x div 16 < (16 :: nat)" for x :: char using byte_of_less[of x] by linarith
  moreover assume "c \<in> set (escape_uri s)"
  ultimately show ?thesis
    by (auto simp: escape_uri_def hex_digit_unreserved split: if_splits)
qed

section \<open>Properties\<close>

text \<open>
  The functions that take values apart and put them together agree: an object is its list of
  pairs, reversing twice gives arrays, strings, objects, truth values and null back, and a non-empty
  array or string is its head and its tail. Reversal works on characters, not on bytes.
\<close>

theorem functions_round_trip:
  assumes "distinct (map fst m)" "boundary s" "s \<noteq> []" "xs \<noteq> []"
  shows "res_bind (call ext ''toPairs'' (JObject m)) (call ext ''fromPairs'') = Ok (JObject m) \<and>
    res_bind (call ext ''inverse'' (JString s)) (call ext ''inverse'') = Ok (JString s) \<and>
    res_bind (call ext ''inverse'' (JArray xs)) (call ext ''inverse'') = Ok (JArray xs) \<and>
    res_bind (call ext ''head'' (JString s)) (\<lambda>h. res_bind (call ext ''tail'' (JString s)) (\<lambda>t.
      call ext ''concat'' (JArray [h, t]))) = Ok (JString s) \<and>
    res_bind (call ext ''head'' (JArray xs)) (\<lambda>h. res_bind (call ext ''tail'' (JArray xs)) (\<lambda>t.
      call ext ''concat'' (JArray [JArray [h], t]))) = Ok (JArray xs)"
proof -
  have pairs: "insert_pairs (map (\<lambda>(k, v). JArray [JString k, v]) m) [] = Ok m"
    using insert_pairs_new[of "[]" m] assms(1) by simp
  obtain c cs where s: "s = c # cs" using assms(3) by (cases s) auto
  obtain y ys where xs: "xs = y # ys" using assms(4) by (cases xs) auto
  show ?thesis
    unfolding call_def
    using chars_reversed[OF assms(2)] pairs
    by (simp add: to_pairs_def from_pairs_def head_fn_def tail_fn_def concat_fn_def s xs map_filter_def)
qed

theorem functions_round_trip_witness:
  "res_bind (call digit_externs ''toPairs'' (JObject [(''b'', JNull), (''a'', JBool True)]))
     (call digit_externs ''fromPairs'') = Ok (JObject [(''b'', JNull), (''a'', JBool True)]) \<and>
   res_bind (call digit_externs ''inverse'' (JString [CHR 0xC3, CHR 0xA9, CHR ''x''])) (call digit_externs ''inverse'') =
     Ok (JString [CHR 0xC3, CHR 0xA9, CHR ''x''])"
proof -
  have "boundary [CHR 0xC3, CHR 0xA9, CHR ''x'']" by code_simp
  then show ?thesis
    using functions_round_trip[of "[(''b'', JNull), (''a'', JBool True)]" "[CHR 0xC3, CHR 0xA9, CHR ''x'']" "[JNull]" digit_externs]
    by simp
qed

text \<open>
  \<open>escapeUri\<close> is faithful and safe: its output consists of unreserved characters and percent
  signs only, and decoding it gives the text back, so two texts never share an escaped form.
\<close>

theorem escape_uri_round_trip:
  "call ext ''escapeUri'' (JString s) = Ok (JString (escape_uri s)) \<and>
   percent_decode (escape_uri s) = s \<and>
   list_all (\<lambda>c. is_unreserved c \<or> c = CHR ''%'') (escape_uri s)"
  using escape_uri_bytes[of _ s] percent_decode_escape[of s] by (auto simp: call_def with_text_def list_all_iff)

end
