(* ===== verification/Kriti_Eval.thy ===== *)
theory Kriti_Eval
  imports Kriti_Functions
begin

text \<open>
  The evaluator of templates (\<open>crates/kriti/src/eval.rs\<close>). The scope is threaded through: \<open>range\<close>
  pushes its bindings on \<open>locals\<close> and truncates the vector after each element, also when the body
  fails. Numbers and values are those of the JSON model; equality is \<open>Value\<close>'s.
\<close>

section \<open>Scope\<close>

record scope =
  context_map :: "(string \<times> json) list"
  locals :: "(string \<times> json) list"

definition scope_get :: "scope \<Rightarrow> string \<Rightarrow> json option" where
  "scope_get sc name =
     (case map_of (rev (locals sc)) name of Some v \<Rightarrow> Some v | None \<Rightarrow> map_of (context_map sc) name)"

definition push_local :: "string \<Rightarrow> json \<Rightarrow> scope \<Rightarrow> scope" where
  "push_local name v sc = sc\<lparr>locals := locals sc @ [(name, v)]\<rparr>"

definition truncate_locals :: "nat \<Rightarrow> scope \<Rightarrow> scope" where
  "truncate_locals depth sc = sc\<lparr>locals := take depth (locals sc)\<rparr>"

text \<open>A computation on the scope that may fail, and its sequencing by \<open>?\<close>.\<close>

type_synonym 'a eval = "scope \<Rightarrow> ('a, string) result \<times> scope"

definition ev_bind :: "('a, string) result \<times> scope \<Rightarrow> ('a \<Rightarrow> 'b eval) \<Rightarrow> ('b, string) result \<times> scope" where
  "ev_bind r f = (case r of (Ok x, sc) \<Rightarrow> f x sc | (Err e, sc) \<Rightarrow> (Err e, sc))"

section \<open>Values\<close>

fun json_type_name :: "json \<Rightarrow> string" where
  "json_type_name JNull = ''null''"
| "json_type_name (JBool b) = ''a boolean''"
| "json_type_name (JNumber n) = ''a number''"
| "json_type_name (JString s) = ''a string''"
| "json_type_name (JArray xs) = ''an array''"
| "json_type_name (JObject m) = ''an object''"

definition truthy :: "json \<Rightarrow> (bool, string) result" where
  "truthy v =
     (case v of JBool b \<Rightarrow> Ok b | _ \<Rightarrow> Err (''expected a boolean condition, got '' @ json_type_name v))"

definition compare :: "kriti_externs \<Rightarrow> json \<Rightarrow> json \<Rightarrow> (ordering, string) result" where
  "compare ext left right =
     (case (left, right) of
        (JNumber a, JNumber b) \<Rightarrow> ok_or ''cannot order these numbers'' (f64_cmp ext a b)
      | (JString a, JString b) \<Rightarrow> Ok (cmp a b)
      | _ \<Rightarrow> Err (''cannot compare '' @ json_type_name left @ '' with '' @ json_type_name right))"

definition contains :: "json \<Rightarrow> json \<Rightarrow> (bool, string) result" where
  "contains left right =
     (case (left, right) of
        (JString key, JObject m) \<Rightarrow> Ok (map_of m key \<noteq> None)
      | (_, JArray items) \<Rightarrow> Ok (list_ex (\<lambda>item. json_eq item left) items)
      | _ \<Rightarrow> Err ([CHR 0x27] @ ''in' expects an object with a string key, or an array''))"

text \<open>The operators that look at both sides, after the short-circuiting ones have decided.\<close>

definition strict_binary :: "kriti_externs \<Rightarrow> bin_op \<Rightarrow> json \<Rightarrow> json \<Rightarrow> (json, string) result" where
  "strict_binary ext op left right =
     (case op of
        DefaultOp \<Rightarrow> Ok right
      | AndAlso \<Rightarrow> res_map JBool (truthy right)
      | OrElse \<Rightarrow> res_map JBool (truthy right)
      | EqOp \<Rightarrow> Ok (JBool (json_eq left right))
      | NeOp \<Rightarrow> Ok (JBool (\<not> json_eq left right))
      | LtOp \<Rightarrow> res_map (\<lambda>c. JBool (is_lt c)) (compare ext left right)
      | LeOp \<Rightarrow> res_map (\<lambda>c. JBool (is_le c)) (compare ext left right)
      | GtOp \<Rightarrow> res_map (\<lambda>c. JBool (is_gt c)) (compare ext left right)
      | GeOp \<Rightarrow> res_map (\<lambda>c. JBool (is_ge c)) (compare ext left right)
      | InOp \<Rightarrow> res_map JBool (contains left right))"

text \<open>Whether the left operand decides: \<open>Some v\<close> ends the evaluation with \<open>v\<close>.\<close>

definition left_decides :: "bin_op \<Rightarrow> json \<Rightarrow> (json option, string) result" where
  "left_decides op left =
     (case op of
        DefaultOp \<Rightarrow> Ok (if is_null left then None else Some left)
      | AndAlso \<Rightarrow> res_map (\<lambda>b. if b then None else Some (JBool False)) (truthy left)
      | OrElse \<Rightarrow> res_map (\<lambda>b. if b then Some (JBool True) else None) (truthy left)
      | _ \<Rightarrow> Ok None)"

section \<open>Paths\<close>

datatype lookup = Found json | Missing

definition apply_step :: "json \<Rightarrow> path_step \<Rightarrow> (lookup, string) result" where
  "apply_step v st =
     (let found =
        (case (step_kind st, v) of
           (Field name, JObject m) \<Rightarrow> Ok (map_of m name)
         | (Key name, JObject m) \<Rightarrow> Ok (map_of m name)
         | (At i, JArray items) \<Rightarrow>
             Ok (if 0 \<le> i \<and> nat i < length items then Some (items ! nat i) else None)
         | (kind, other) \<Rightarrow>
             if step_optional st then Ok None
             else Err (case kind of
                         Field name \<Rightarrow> ''cannot look up '' @ [CHR 0x27] @ name @ [CHR 0x27] @ '' in '' @ json_type_name other
                       | Key name \<Rightarrow> ''cannot look up '' @ [CHR 0x27] @ name @ [CHR 0x27] @ '' in '' @ json_type_name other
                       | At i \<Rightarrow> ''cannot index '' @ json_type_name other @ '' with '' @ int_to_string i))
      in res_bind found (\<lambda>found.
           case found of
             Some v \<Rightarrow> Ok (Found v)
           | None \<Rightarrow>
               if step_optional st then Ok Missing
               else Err (case step_kind st of
                           Field name \<Rightarrow> [CHR 0x27] @ name @ [CHR 0x27] @ '' is not bound''
                         | Key name \<Rightarrow> [CHR 0x27] @ name @ [CHR 0x27] @ '' is not bound''
                         | At i \<Rightarrow> ''index '' @ int_to_string i @ '' is out of range'')))"

fun walk :: "json \<Rightarrow> path_step list \<Rightarrow> (json, string) result" where
  "walk current [] = Ok current"
| "walk current (st # steps) =
     res_bind (apply_step current st) (\<lambda>found.
       case found of Found v \<Rightarrow> walk v steps | Missing \<Rightarrow> Ok JNull)"

section \<open>Evaluation\<close>

text \<open>What a hole contributes to a string.\<close>

definition interpolate :: "kriti_externs \<Rightarrow> json \<Rightarrow> string" where
  "interpolate ext v = (case v of JString s \<Rightarrow> s | _ \<Rightarrow> json_to_string ext v)"

definition ev_lift :: "('a, string) result \<Rightarrow> 'a eval" where
  "ev_lift r sc = (r, sc)"

lemma ev_bind_cong [fundef_cong]:
  "r = r' \<Longrightarrow> (\<And>x sc. r' = (Ok x, sc) \<Longrightarrow> f x sc = g x sc) \<Longrightarrow> ev_bind r f = ev_bind r' g"
  by (auto simp: ev_bind_def split: prod.splits result.splits)

function (sequential) eval_node :: "kriti_externs \<Rightarrow> node \<Rightarrow> json eval"
  and eval_nodes :: "kriti_externs \<Rightarrow> node list \<Rightarrow> json list eval"
  and eval_node_members :: "kriti_externs \<Rightarrow> (str_part list \<times> node) list \<Rightarrow> (string \<times> json) list \<Rightarrow> (string \<times> json) list eval"
  and eval_arms :: "kriti_externs \<Rightarrow> (kexpr \<times> node) list \<Rightarrow> node option \<Rightarrow> json eval"
  and eval_range :: "kriti_externs \<Rightarrow> string option \<Rightarrow> string \<Rightarrow> node \<Rightarrow> nat \<Rightarrow> json list \<Rightarrow> json list eval"
  and eval_string :: "kriti_externs \<Rightarrow> str_part list \<Rightarrow> string eval"
  and eval_expr :: "kriti_externs \<Rightarrow> kexpr \<Rightarrow> json eval"
  and eval_exprs :: "kriti_externs \<Rightarrow> kexpr list \<Rightarrow> json list eval"
  and eval_expr_members :: "kriti_externs \<Rightarrow> (str_part list \<times> kexpr) list \<Rightarrow> (string \<times> json) list \<Rightarrow> (string \<times> json) list eval"
where
  "eval_node ext (NJson v) sc = (Ok v, sc)"
| "eval_node ext (NStr parts) sc = ev_bind (eval_string ext parts sc) (\<lambda>s. ev_lift (Ok (JString s)))"
| "eval_node ext (NArray items) sc = ev_bind (eval_nodes ext items sc) (\<lambda>xs. ev_lift (Ok (JArray xs)))"
| "eval_node ext (NObject members) sc = ev_bind (eval_node_members ext members [] sc) (\<lambda>m. ev_lift (Ok (JObject m)))"
| "eval_node ext (NExpr e) sc = eval_expr ext e sc"
| "eval_node ext (NIf arms otherwise) sc = eval_arms ext arms otherwise sc"
| "eval_node ext (NRange index val source body) sc =
     ev_bind (eval_expr ext source sc) (\<lambda>v sc.
       case v of
         JArray items \<Rightarrow> ev_bind (eval_range ext index val body 0 items sc) (\<lambda>xs. ev_lift (Ok (JArray xs)))
       | other \<Rightarrow> (Err (''range expects an array, got '' @ json_type_name other), sc))"
| "eval_nodes ext [] sc = (Ok [], sc)"
| "eval_nodes ext (item # items) sc =
     ev_bind (eval_node ext item sc) (\<lambda>x sc. ev_bind (eval_nodes ext items sc) (\<lambda>xs. ev_lift (Ok (x # xs))))"
| "eval_node_members ext [] m sc = (Ok m, sc)"
| "eval_node_members ext ((key, item) # members) m sc =
     ev_bind (eval_string ext key sc) (\<lambda>k sc.
     ev_bind (eval_node ext item sc) (\<lambda>v sc. eval_node_members ext members (map_insert k v m) sc))"
| "eval_arms ext [] None sc = (Ok JNull, sc)"
| "eval_arms ext [] (Some body) sc = eval_node ext body sc"
| "eval_arms ext ((condition, body) # arms) otherwise sc =
     ev_bind (eval_expr ext condition sc) (\<lambda>v sc.
     ev_bind (ev_lift (truthy v) sc) (\<lambda>b sc.
       if b then eval_node ext body sc else eval_arms ext arms otherwise sc))"
| "eval_range ext index val body position [] sc = (Ok [], sc)"
| "eval_range ext index val body position (item # items) sc =
     (let depth = length (locals sc);
          sc1 = (case index of Some i \<Rightarrow> push_local i (json_of_nat position) sc | None \<Rightarrow> sc);
          (evaluated, sc2) = eval_node ext body (push_local val item sc1);
          sc3 = truncate_locals depth sc2
      in ev_bind (evaluated, sc3) (\<lambda>x sc.
         ev_bind (eval_range ext index val body (Suc position) items sc) (\<lambda>xs. ev_lift (Ok (x # xs)))))"
| "eval_string ext [] sc = (Ok [], sc)"
| "eval_string ext (Text s # parts) sc = ev_bind (eval_string ext parts sc) (\<lambda>t. ev_lift (Ok (s @ t)))"
| "eval_string ext (Hole e # parts) sc =
     ev_bind (eval_expr ext e sc) (\<lambda>v sc.
     ev_bind (eval_string ext parts sc) (\<lambda>t. ev_lift (Ok (interpolate ext v @ t))))"
| "eval_expr ext (Lit v) sc = (Ok v, sc)"
| "eval_expr ext (EStr parts) sc = ev_bind (eval_string ext parts sc) (\<lambda>s. ev_lift (Ok (JString s)))"
| "eval_expr ext (EArray items) sc = ev_bind (eval_exprs ext items sc) (\<lambda>xs. ev_lift (Ok (JArray xs)))"
| "eval_expr ext (EObject members) sc = ev_bind (eval_expr_members ext members [] sc) (\<lambda>m. ev_lift (Ok (JObject m)))"
| "eval_expr ext (Var name optional) sc =
     ((case scope_get sc name of
         Some v \<Rightarrow> Ok v
       | None \<Rightarrow> if optional then Ok JNull else Err (name @ '' is not bound'')), sc)"
| "eval_expr ext (Path base steps) sc = ev_bind (eval_expr ext base sc) (\<lambda>v. ev_lift (walk v steps))"
| "eval_expr ext (NotOf inner) sc =
     ev_bind (eval_expr ext inner sc) (\<lambda>v. ev_lift (res_map (\<lambda>b. JBool (\<not> b)) (truthy v)))"
| "eval_expr ext (CallOf name [argument]) sc =
     ev_bind (eval_expr ext argument sc) (\<lambda>v. ev_lift (call ext name v))"
| "eval_expr ext (CallOf name arguments) sc = (Err (name @ '' takes exactly one argument''), sc)"
| "eval_expr ext (Template node) sc = eval_node ext node sc"
| "eval_expr ext (BinaryOf op lhs rhs) sc =
     ev_bind (eval_expr ext lhs sc) (\<lambda>left sc.
     ev_bind (ev_lift (left_decides op left) sc) (\<lambda>decided sc.
       case decided of
         Some v \<Rightarrow> (Ok v, sc)
       | None \<Rightarrow> ev_bind (eval_expr ext rhs sc) (\<lambda>right. ev_lift (strict_binary ext op left right))))"
| "eval_exprs ext [] sc = (Ok [], sc)"
| "eval_exprs ext (item # items) sc =
     ev_bind (eval_expr ext item sc) (\<lambda>x sc. ev_bind (eval_exprs ext items sc) (\<lambda>xs. ev_lift (Ok (x # xs))))"
| "eval_expr_members ext [] m sc = (Ok m, sc)"
| "eval_expr_members ext ((key, item) # members) m sc =
     ev_bind (eval_string ext key sc) (\<lambda>k sc.
     ev_bind (eval_expr ext item sc) (\<lambda>v sc. eval_expr_members ext members (map_insert k v m) sc))"
  by pat_completeness auto
termination
  by (relation "measures
      [\<lambda>x. case x of
         Inl (Inl (Inl (_, n, _))) \<Rightarrow> size n
       | Inl (Inl (Inr (_, ns, _))) \<Rightarrow> size_list size ns
       | Inl (Inr (Inl (_, ms, _, _))) \<Rightarrow> size_list (size_prod (size_list size) size) ms
       | Inl (Inr (Inr (_, arms, otherwise, _))) \<Rightarrow> size_list (size_prod size size) arms + size_option size otherwise
       | Inr (Inl (Inl (_, _, _, body, _, _, _))) \<Rightarrow> size body
       | Inr (Inl (Inr (_, parts, _))) \<Rightarrow> size_list size parts
       | Inr (Inr (Inl (_, e, _))) \<Rightarrow> size e
       | Inr (Inr (Inr (Inl (_, es, _)))) \<Rightarrow> size_list size es
       | Inr (Inr (Inr (Inr (_, ms, _, _)))) \<Rightarrow> size_list (size_prod (size_list size) size) ms,
       \<lambda>x. case x of Inr (Inl (Inl (_, _, _, _, _, items, _))) \<Rightarrow> length items | _ \<Rightarrow> 0]") auto

section \<open>The scope is left as it was\<close>

lemma ev_bind_scope: "snd r = sc \<Longrightarrow> (\<And>x. r = (Ok x, sc) \<Longrightarrow> snd (f x sc) = sc) \<Longrightarrow> snd (ev_bind r f) = sc"
  by (cases r) (auto simp: ev_bind_def split: result.splits)

lemma ev_lift_scope [simp]: "snd (ev_lift r sc) = sc"
  by (simp add: ev_lift_def)

lemma locals_push [simp]: "locals (push_local n v sc) = locals sc @ [(n, v)]"
  by (simp add: push_local_def)

lemma truncate_push [simp]:
  "truncate_locals (length (locals sc)) (push_local n v sc) = sc"
  "truncate_locals (length (locals sc)) (push_local n v (push_local n' v' sc)) = sc"
  by (simp_all add: truncate_locals_def push_local_def)

lemma scope_restored:
  "snd (eval_node ext n sc) = sc"
  "snd (eval_nodes ext ns sc) = sc"
  "snd (eval_node_members ext nms m sc) = sc"
  "snd (eval_arms ext arms otherwise sc) = sc"
  "snd (eval_range ext index val body position items sc) = sc"
  "snd (eval_string ext parts sc) = sc"
  "snd (eval_expr ext e sc) = sc"
  "snd (eval_exprs ext es sc) = sc"
  "snd (eval_expr_members ext ems m sc) = sc"
proof (induction ext n sc and ext ns sc and ext nms m sc and ext arms otherwise sc and
    ext index val body position items sc and ext parts sc and ext e sc and ext es sc and ext ems m sc
    rule: eval_node_eval_nodes_eval_node_members_eval_arms_eval_range_eval_string_eval_expr_eval_exprs_eval_expr_members.induct)
  case (7 ext index val source body sc)
  then show ?case by (auto intro!: ev_bind_scope split: json.splits)
next
  case (16 ext index val body position item items sc)
  let ?sc1 = "case index of Some i \<Rightarrow> push_local i (json_of_nat position) sc | None \<Rightarrow> sc"
  obtain r sc2 where r: "eval_node ext body (push_local val item ?sc1) = (r, sc2)" by fastforce
  then have "sc2 = push_local val item ?sc1" using 16(1)[OF refl refl] by simp
  then have "truncate_locals (length (locals sc)) sc2 = sc" by (simp split: option.splits)
  then show ?case using 16(2)[OF refl refl] r by (auto simp: Let_def intro!: ev_bind_scope)
qed (auto intro!: ev_bind_scope split: option.splits)

section \<open>Evaluation as a function of the bindings\<close>

text \<open>What a template and an expression evaluate to in a scope.\<close>

abbreviation node_value :: "kriti_externs \<Rightarrow> node \<Rightarrow> scope \<Rightarrow> (json, string) result" where
  "node_value ext n sc \<equiv> fst (eval_node ext n sc)"

abbreviation expr_value :: "kriti_externs \<Rightarrow> kexpr \<Rightarrow> scope \<Rightarrow> (json, string) result" where
  "expr_value ext e sc \<equiv> fst (eval_expr ext e sc)"

lemma ev_bind_value: "snd r = sc \<Longrightarrow> fst (ev_bind r f) = res_bind (fst r) (\<lambda>x. fst (f x sc))"
  by (cases r; cases "fst r") (auto simp: ev_bind_def)

lemma ev_lift_value [simp]: "fst (ev_lift r sc) = r"
  by (simp add: ev_lift_def)

lemma res_bind_Ok_map: "res_bind r (\<lambda>x. Ok (f x)) = res_map f r"
  by (cases r) auto

text \<open>The scope of one turn of a loop.\<close>

definition range_scope :: "string option \<Rightarrow> string \<Rightarrow> nat \<Rightarrow> json \<Rightarrow> scope \<Rightarrow> scope" where
  "range_scope index val position item sc =
     push_local val item (case index of Some i \<Rightarrow> push_local i (json_of_nat position) sc | None \<Rightarrow> sc)"

lemma eval_range_value:
  "fst (eval_range ext index val body position items sc) =
   collect_res (\<lambda>(i, item). node_value ext body (range_scope index val i item sc)) (enumerate position items)"
proof (induction items arbitrary: position)
  case (Cons item items)
  let ?sc = "range_scope index val position item sc"
  have "truncate_locals (length (locals sc)) ?sc = sc" by (simp add: range_scope_def split: option.splits)
  then have "fst (eval_range ext index val body position (item # items) sc) =
      res_bind (node_value ext body ?sc) (\<lambda>x. res_map (Cons x) (fst (eval_range ext index val body (Suc position) items sc)))"
    using scope_restored(1)[of ext body ?sc]
    by (simp add: Let_def range_scope_def[symmetric] split_beta ev_bind_value scope_restored res_bind_Ok_map)
  then show ?case by (simp add: Cons.IH)
qed simp

section \<open>Paths\<close>

text \<open>Where a step leads, if it leads anywhere.\<close>

fun step_target :: "json \<Rightarrow> step_kind \<Rightarrow> json option" where
  "step_target (JObject m) (Field name) = map_of m name"
| "step_target (JObject m) (Key name) = map_of m name"
| "step_target (JArray items) (At i) = (if 0 \<le> i \<and> nat i < length items then Some (items ! nat i) else None)"
| "step_target _ _ = None"

fun path_target :: "json \<Rightarrow> step_kind list \<Rightarrow> json option" where
  "path_target v [] = Some v"
| "path_target v (k # ks) = Option.bind (step_target v k) (\<lambda>w. path_target w ks)"

lemma apply_step_target:
  "(\<exists>e. step_target v (step_kind st) = None \<and> \<not> step_optional st \<and> apply_step v st = Err e) \<or>
   step_target v (step_kind st) = None \<and> step_optional st \<and> apply_step v st = Ok Missing \<or>
   (\<exists>w. step_target v (step_kind st) = Some w \<and> apply_step v st = Ok (Found w))"
  by (cases "step_kind st"; cases v) (auto simp: apply_step_def Let_def split: option.splits)

lemma path_target_append: "path_target v (ks @ ks') = Option.bind (path_target v ks) (\<lambda>w. path_target w ks')"
  by (induction ks arbitrary: v) (auto split: Option.bind_splits)

lemma walk_target:
  "walk v steps = Ok w \<longleftrightarrow>
     path_target v (map step_kind steps) = Some w \<or>
     w = JNull \<and> (\<exists>before st rest. steps = before @ st # rest \<and> step_optional st \<and>
       (\<exists>u. path_target v (map step_kind before) = Some u \<and> step_target u (step_kind st) = None))"
proof (induction steps arbitrary: v)
  case (Cons st steps)
  have split: "(\<exists>before st' rest. st # steps = before @ st' # rest \<and> Q before st') \<longleftrightarrow>
      Q [] st \<or> (\<exists>before st' rest. steps = before @ st' # rest \<and> Q (st # before) st')" for Q
    by (auto simp: Cons_eq_append_conv)
  consider e where "step_target v (step_kind st) = None" "\<not> step_optional st" "apply_step v st = Err e"
    | "step_target v (step_kind st) = None" "step_optional st" "apply_step v st = Ok Missing"
    | u where "step_target v (step_kind st) = Some u" "apply_step v st = Ok (Found u)"
    using apply_step_target[of v st] by auto
  then show ?case
  proof cases
    case 1
    then show ?thesis unfolding split by simp
  next
    case 2
    then show ?thesis unfolding split by auto
  next
    case 3
    then show ?thesis unfolding split by (simp add: Cons.IH)
  qed
qed auto

section \<open>Properties\<close>

text \<open>
  (C34) Evaluation leaves the scope as it was, also when it fails inside a loop, and a loop maps its
  body over the elements: the result is the array of the body's values, each computed with the
  element (and its index, if named) bound on top of the surrounding scope, and the first failure is
  the failure of the loop.
\<close>

theorem range_maps_its_body:
  "snd (eval_node ext n sc) = sc \<and>
   node_value ext (NRange index val source body) sc =
     res_bind (expr_value ext source sc) (\<lambda>v.
       case v of
         JArray items \<Rightarrow>
           res_map JArray (collect_res (\<lambda>(i, item). node_value ext body (range_scope index val i item sc)) (enumerate 0 items))
       | _ \<Rightarrow> Err (''range expects an array, got '' @ json_type_name v))"
proof
  show "snd (eval_node ext n sc) = sc" by (rule scope_restored)
  show "node_value ext (NRange index val source body) sc =
     res_bind (expr_value ext source sc) (\<lambda>v.
       case v of
         JArray items \<Rightarrow>
           res_map JArray (collect_res (\<lambda>(i, item). node_value ext body (range_scope index val i item sc)) (enumerate 0 items))
       | _ \<Rightarrow> Err (''range expects an array, got '' @ json_type_name v))"
    unfolding eval_node.simps ev_bind_value[OF scope_restored(7)]
    by (intro arg_cong[where f = "res_bind _"] ext)
       (auto simp: ev_bind_value scope_restored eval_range_value res_bind_Ok_map split: json.splits)
qed

text \<open>
  A path finds a value exactly where the steps lead. The only other value it has is null, and it
  has it only if one of its optional steps leads nowhere: the steps after it are not looked at. In
  every other case the path fails.
\<close>

theorem path_finds_its_target:
  "expr_value ext (Path base steps) sc = Ok w \<longleftrightarrow>
     (\<exists>v. expr_value ext base sc = Ok v \<and>
        (path_target v (map step_kind steps) = Some w \<or>
         w = JNull \<and> (\<exists>before st rest. steps = before @ st # rest \<and> step_optional st \<and>
           (\<exists>u. path_target v (map step_kind before) = Some u \<and> step_target u (step_kind st) = None))))"
  unfolding eval_expr.simps ev_bind_value[OF scope_restored(7)] res_bind_Ok ev_lift_value walk_target
  by (rule refl)

end
