(* ===== verification/Kriti_Render.thy ===== *)
theory Kriti_Render
  imports Kriti_Eval
begin

text \<open>
  Rendering (\<open>crates/kriti/src/lib.rs\<close>): parse and evaluate in one step, and the form for templates
  that stand where a string is expected. The properties of templates end to end: JSON without holes
  renders to itself, plain text renders to itself.
\<close>

section \<open>Operations\<close>

datatype kriti_error = ParseFailed kparse_error | EvalFailed string | RanDry

definition eval_template :: "kriti_externs \<Rightarrow> node \<Rightarrow> (string \<times> json) list \<Rightarrow> (json, string) result" where
  "eval_template ext node context = fst (eval_node ext node \<lparr>context_map = context, locals = []\<rparr>)"

definition stop_error :: "kstop \<Rightarrow> kriti_error" where
  "stop_error stop = (case stop of Refused e \<Rightarrow> ParseFailed e | NoFuel \<Rightarrow> RanDry)"

definition render :: "kriti_externs \<Rightarrow> string \<Rightarrow> (string \<times> json) list \<Rightarrow> (json, kriti_error) result" where
  "render ext source context =
     res_bind (map_err stop_error (parse_template ext source)) (\<lambda>node.
       map_err EvalFailed (eval_template ext node context))"

definition render_unescaped :: "kriti_externs \<Rightarrow> string \<Rightarrow> (string \<times> json) list \<Rightarrow> (string, kriti_error) result" where
  "render_unescaped ext source context =
     res_map (interpolate ext) (render ext ([CHR 0x22] @ source @ [CHR 0x22]) context)"

fun kriti_error_to_string :: "kriti_error \<Rightarrow> string" where
  "kriti_error_to_string (ParseFailed e) = kpe_message e @ '' (at byte '' @ nat_to_string (kpe_offset e) @ '')''"
| "kriti_error_to_string (EvalFailed message) = message"
| "kriti_error_to_string RanDry = []"

section \<open>JSON text\<close>

text \<open>
  The compact text of a JSON value, as \<open>serde_json\<close> prints it.
\<close>

fun json_text :: "json \<Rightarrow> string" where
  "json_text JNull = ''null''"
| "json_text (JBool b) = (if b then ''true'' else ''false'')"
| "json_text (JNumber n) = n"
| "json_text (JString s) = quote_text s"
| "json_text (JArray xs) = ''['' @ commas (map json_text xs) @ '']''"
| "json_text (JObject m) = ''{'' @ commas (map (\<lambda>(k, v). quote_text k @ '':'' @ json_text v) m) @ ''}''"

text \<open>The template that a JSON value is.\<close>

fun node_of :: "json \<Rightarrow> node" where
  "node_of (JString s) = NStr [Text s]"
| "node_of (JArray xs) = NArray (map node_of xs)"
| "node_of (JObject m) = NObject (map (\<lambda>(k, v). ([Text k], node_of v)) m)"
| "node_of v = NJson v"

text \<open>
  Text that may stand in a template: characters are not cut, and no hole opens. A value all of whose
  strings are such texts and whose numbers are read back as they are printed.
\<close>

fun sound_text :: "string \<Rightarrow> bool" where
  "sound_text [] \<longleftrightarrow> True"
| "sound_text (c # cs) \<longleftrightarrow>
     (byte_of c < (128 :: nat) \<longrightarrow> boundary cs) \<and> \<not> (c = CHR ''{'' \<and> take 1 cs = ''{'') \<and> sound_text cs"

definition reads_number :: "kriti_externs \<Rightarrow> string \<Rightarrow> bool" where
  "reads_number ext n \<longleftrightarrow> n \<noteq> [] \<and> list_all is_number_byte n \<and> json_from_str ext n = Some (JNumber n)"

fun plain_json :: "kriti_externs \<Rightarrow> json \<Rightarrow> bool" where
  "plain_json ext (JNumber n) \<longleftrightarrow> reads_number ext n"
| "plain_json ext (JString s) \<longleftrightarrow> sound_text s"
| "plain_json ext (JArray xs) \<longleftrightarrow> list_all (plain_json ext) xs"
| "plain_json ext (JObject m) \<longleftrightarrow> distinct (map fst m) \<and> list_all (\<lambda>(k, v). sound_text k \<and> plain_json ext v) m"
| "plain_json ext _ \<longleftrightarrow> True"

section \<open>Literal text in strings\<close>

text \<open>\<open>spells raw s\<close>: inside a string literal the bytes \<open>raw\<close> stand for the text \<open>s\<close>.\<close>

inductive spells :: "string \<Rightarrow> string \<Rightarrow> bool" where
  nothing: "spells [] []"
| plain: "spells raw s \<Longrightarrow> c \<noteq> CHR 0x22 \<Longrightarrow> c \<noteq> CHR 0x5C \<Longrightarrow> \<not> (c = CHR ''{'' \<and> take 1 raw = ''{'') \<Longrightarrow>
    spells (c # raw) (c # s)"
| short: "spells raw s \<Longrightarrow> simple_escape c = Some t \<Longrightarrow> spells (CHR 0x5C # c # raw) (t @ s)"
| coded: "spells raw s \<Longrightarrow> length h = 4 \<Longrightarrow> parse_hex h = Some n \<Longrightarrow> boundary raw \<Longrightarrow>
    spells (CHR 0x5C # CHR ''u'' # h @ raw) (utf8_of_code n @ s)"

lemma spells_char:
  "spells raw s \<Longrightarrow> \<exists>raw' s'. raw = takeWhile is_continuation raw @ raw' \<and> s = takeWhile is_continuation raw @ s' \<and>
     spells raw' s'"
proof (induction rule: spells.induct)
  case (plain raw s c)
  then show ?case by (cases "is_continuation c") (auto intro: spells.plain)
next
  case (short raw s c t)
  have "\<not> is_continuation (CHR 0x5C)" by code_simp
  then show ?case using spells.short[OF short(1,2)] by auto
next
  case (coded raw s h n)
  have "\<not> is_continuation (CHR 0x5C)" by code_simp
  then show ?case using spells.coded[OF coded(1-4)] by auto
qed (auto intro: spells.nothing)

lemma peek_rest: "rest p = c # cs \<Longrightarrow> peek p = Some c"
  by (simp add: peek_def)

lemma escape_short: "rest p = c # cs \<Longrightarrow> simple_escape c = Some t \<Longrightarrow> escape p = Ok (t, skip 1 p)"
  by (simp add: escape_def peek_rest Let_def)

lemma escape_coded:
  assumes "rest p = CHR ''u'' # h @ raw" "length h = 4" "parse_hex h = Some n" "boundary raw"
  shows "escape p = Ok (utf8_of_code n, skip 4 (skip 1 p))"
proof -
  have "simple_escape (CHR ''u'') = None" by code_simp
  moreover have "hex_slice (skip 1 p) = Some h"
    using assms by (auto simp: hex_slice_def boundary_def split: list.splits)
  ultimately show ?thesis using assms by (simp add: escape_def peek_rest Let_def)
qed

lemma skip_skip [simp]: "skip m (skip n p) = skip (n + m) p"
  by (simp add: skip_def)

lemma skip_0 [simp]: "skip 0 p = p"
  by (simp add: skip_def)

lemma starts_hole: "src_starts_with ''{{'' p \<longleftrightarrow> take 2 (rest p) = ''{{''"
  by (simp add: src_starts_with_def numeral_2_eq_2)

lemma string_loop_spells:
  "spells raw s \<Longrightarrow> rest p = raw @ CHR 0x22 # t \<Longrightarrow> length raw < n \<Longrightarrow>
   string_loop n expr [] acc p = Ok ([Text (acc @ s)], skip (length raw + 1) p)"
proof (induction n arbitrary: raw s acc p)
  case (Suc n)
  from Suc.prems(1) show ?case
  proof (cases rule: spells.cases)
    case nothing
    then show ?thesis using Suc.prems(2) by (simp add: starts_hole)
  next
    case (plain cs s' c)
    let ?u = "takeWhile is_continuation cs"
    obtain raw' s'' where split: "cs = ?u @ raw'" "s' = ?u @ s''" "spells raw' s''"
      using spells_char[OF plain(3)] by blast
    have "\<not> is_continuation (CHR 0x22)" by code_simp
    then have chunk: "takeWhile is_continuation (cs @ CHR 0x22 # t) = ?u"
      by (induction cs) auto
    have hole: "\<not> src_starts_with ''{{'' p"
      using Suc.prems(2) plain(1,6) by (cases cs) (auto simp: starts_hole numeral_2_eq_2)
    have "string_loop n expr [] (acc @ c # ?u) (skip (Suc (length ?u)) p) =
        Ok ([Text ((acc @ c # ?u) @ s'')], skip (length raw' + 1) (skip (Suc (length ?u)) p))"
    proof (rule Suc.IH[OF split(3)])
      have "drop (length ?u) cs = raw'" using split(1) by (metis append_eq_conv_conj)
      then show "rest (skip (Suc (length ?u)) p) = raw' @ CHR 0x22 # t"
        using Suc.prems(2) plain(1) length_takeWhile_le[of is_continuation cs] by simp
      show "length raw' < n" using Suc.prems(3) plain(1) arg_cong[OF split(1), of length] by simp
    qed
    moreover have "length raw' + 1 + Suc (length ?u) = length raw + 1"
      using plain(1) arg_cong[OF split(1), of length] by simp
    moreover have "(acc @ c # ?u) @ s'' = acc @ s" using plain(2) split(2) by (metis append.assoc append_Cons)
    ultimately show ?thesis
      using hole Suc.prems(2) plain(1,4,5) chunk by (simp add: Let_def add.commute)
  next
    case (short raw' s' e t')
    have hole: "\<not> src_starts_with ''{{'' p" using Suc.prems(2) short(1) by (simp add: starts_hole numeral_2_eq_2)
    have esc: "escape (skip 1 p) = Ok (t', skip 1 (skip 1 p))"
      using escape_short[of "skip 1 p" e _ t'] Suc.prems(2) short by simp
    have "string_loop n expr [] (acc @ t') (skip 2 p) = Ok ([Text ((acc @ t') @ s')], skip (length raw' + 1) (skip 2 p))"
      by (rule Suc.IH) (use Suc.prems(2,3) short in \<open>auto simp: numeral_2_eq_2\<close>)
    then show ?thesis using hole esc Suc.prems(2) short by (simp add: numeral_2_eq_2)
  next
    case (coded raw' s' h m)
    have hole: "\<not> src_starts_with ''{{'' p" using Suc.prems(2) coded(1) by (simp add: starts_hole numeral_2_eq_2)
    have "boundary (raw' @ CHR 0x22 # t)"
      using coded(6) by (cases raw') (auto simp: boundary_def is_continuation_def)
    then have esc: "escape (skip 1 p) = Ok (utf8_of_code m, skip 4 (skip 1 (skip 1 p)))"
      using escape_coded[of "skip 1 p" h _ m] Suc.prems(2) coded by simp
    have "string_loop n expr [] (acc @ utf8_of_code m) (skip 6 p) =
        Ok ([Text ((acc @ utf8_of_code m) @ s')], skip (length raw' + 1) (skip 6 p))"
      by (rule Suc.IH) (use Suc.prems(2,3) coded in auto)
    then show ?thesis using hole esc Suc.prems(2) coded by simp
  qed
qed simp

lemma sound_text_brace: "sound_text (c # s) \<Longrightarrow> \<not> (c = CHR ''{'' \<and> take 1 s = ''{'')"
  by (simp only: sound_text.simps simp_thms)

lemma sound_text_rest: "sound_text (c # s) \<Longrightarrow> sound_text s"
  by (simp only: sound_text.simps simp_thms)

lemma spells_plain:
  "CHR 0x22 \<notin> set s \<Longrightarrow> CHR 0x5C \<notin> set s \<Longrightarrow> sound_text s \<Longrightarrow> spells s s"
proof (induction s)
  case (Cons c s)
  have "spells s s" using Cons.IH Cons.prems(1,2) sound_text_rest[OF Cons.prems(3)] by simp
  then show ?case
    by (rule spells.plain[OF _ _ _ sound_text_brace[OF Cons.prems(3)]]) (use Cons.prems(1,2) in auto)
qed (rule spells.nothing)

lemma hex_val_lower: "n < 16 \<Longrightarrow> hex_val (hex_lower n) = n \<and> is_ascii_hexdigit (hex_lower n)"
  by (auto simp: hex_val_def hex_lower_def is_ascii_digit_def is_ascii_hexdigit_def)

lemma parse_control:
  assumes "n < 32"
  shows "parse_hex [CHR ''0'', CHR ''0'', hex_lower (n div 16), hex_lower (n mod 16)] = Some n"
proof -
  have zero: "is_ascii_hexdigit (CHR ''0'')" "hex_val (CHR ''0'') = 0" by code_simp+
  have "n div 16 < 16" "n mod 16 < 16" using assms by auto
  then show ?thesis using hex_val_lower zero by (simp add: parse_hex_def)
qed

text \<open>The bytes that have a short escape.\<close>

lemma escape_char_short:
  "c \<in> {CHR 0x22, CHR 0x5C, CHR 0x08, CHR 0x09, CHR 0x0A, CHR 0x0C, CHR 0x0D} \<Longrightarrow>
   \<exists>t. escape_char c = [CHR 0x5C, t] \<and> simple_escape t = Some [c]"
  by (auto simp: escape_char_def simple_escape_def)

lemma escape_char_other:
  "c \<notin> {CHR 0x22, CHR 0x5C, CHR 0x08, CHR 0x09, CHR 0x0A, CHR 0x0C, CHR 0x0D} \<Longrightarrow>
   escape_char c = (if byte_of c < (32 :: nat)
      then [CHR 0x5C, CHR ''u'', CHR ''0'', CHR ''0'', hex_lower (byte_of c div 16), hex_lower (byte_of c mod 16)]
      else [c])"
  by (simp add: escape_char_def)

lemma escape_char_head: "escape_char c = [c] \<or> (\<exists>cs. escape_char c = CHR 0x5C # cs)"
  using escape_char_short[of c] escape_char_other[of c] by (cases "byte_of c < (32 :: nat)") auto

lemma boundary_escaped: "boundary s \<Longrightarrow> boundary (concat (map escape_char s))"
proof (cases s)
  case (Cons c cs)
  have "\<not> is_continuation (CHR 0x5C)" by code_simp
  moreover assume "boundary s"
  ultimately show ?thesis using Cons escape_char_head[of c] by (auto simp: boundary_def)
qed (simp add: boundary_def)

lemma brace_escaped: "take 1 (concat (map escape_char s)) = ''{'' \<Longrightarrow> take 1 s = ''{''"
proof (cases s)
  case (Cons c cs)
  assume "take 1 (concat (map escape_char s)) = ''{''"
  then show ?thesis using Cons escape_char_head[of c] by auto
qed simp

lemma spells_escaped: "sound_text s \<Longrightarrow> spells (concat (map escape_char s)) s"
proof (induction s)
  case (Cons c s)
  let ?raw = "concat (map escape_char s)"
  have raw: "spells ?raw s" using Cons by simp
  show ?case
  proof (cases "c \<in> {CHR 0x22, CHR 0x5C, CHR 0x08, CHR 0x09, CHR 0x0A, CHR 0x0C, CHR 0x0D}")
    case True
    then obtain t where t: "escape_char c = [CHR 0x5C, t]" "simple_escape t = Some [c]" using escape_char_short by blast
    show ?thesis using spells.short[OF raw t(2)] t(1) by simp
  next
    case other: False
    show ?thesis
    proof (cases "byte_of c < (32 :: nat)")
      case True
      have "utf8_of_code (byte_of c) = [c]" using True by (simp add: utf8_of_code_def)
      moreover have "boundary ?raw" using Cons.prems True by (simp add: boundary_escaped)
      ultimately show ?thesis
        using spells.coded[OF raw _ parse_control[OF True]] escape_char_other[OF other] True by simp
    next
      case False
      have "c \<noteq> CHR 0x22" "c \<noteq> CHR 0x5C" using other by simp_all
      moreover have "\<not> (c = CHR ''{'' \<and> take 1 ?raw = ''{'')"
        by (rule contrapos_nn[OF sound_text_brace[OF Cons.prems]], elim conjE, rule conjI, assumption, rule brace_escaped)
      ultimately have "spells (c # ?raw) (c # s)" by (rule spells.plain[OF raw])
      then show ?thesis using escape_char_other[OF other] False by simp
    qed
  qed
qed (auto intro: spells.nothing)

lemma string_parts_quoted:
  assumes "sound_text s" "rest p = quote_text s @ t"
  shows "string_parts expr p = Ok ([Text s], skip (length (quote_text s)) p)"
proof -
  let ?raw = "concat (map escape_char s)"
  have e: "expect [CHR 0x22] p = Ok (skip 1 p)"
    using assms(2) by (simp add: expect_def eat_def src_starts_with_def quote_text_def)
  have "string_loop (Suc (remaining (skip 1 p))) expr [] [] (skip 1 p) = Ok ([Text ([] @ s)], skip (length ?raw + 1) (skip 1 p))"
    by (rule string_loop_spells[OF spells_escaped[OF assms(1)]])
       (use assms(2) in \<open>simp_all add: quote_text_def remaining_def\<close>)
  then show ?thesis by (simp add: string_parts_def e quote_text_def del: string_loop.simps)
qed

section \<open>Scalars\<close>

text \<open>What may follow a value: nothing, a comma, or a closing bracket.\<close>

definition closes :: "string \<Rightarrow> bool" where
  "closes t \<longleftrightarrow> (case t of [] \<Rightarrow> True | c # _ \<Rightarrow> c \<in> {CHR '','', CHR '']'', CHR ''}''})"

lemma closes_ident: "closes (c # t) \<Longrightarrow> \<not> is_ident_byte c \<and> \<not> is_number_byte c"
  by (auto simp: closes_def is_ident_byte_def is_number_byte_def is_ascii_digit_def is_ascii_alphabetic_def)

lemma keyword_there: "rest p = w @ t \<Longrightarrow> closes t \<Longrightarrow> keyword w p = Some (skip (length w) p)"
  using closes_ident by (auto simp: keyword_def src_starts_with_def split: list.splits)

lemma keyword_not: "take (length w) (rest p) \<noteq> w \<Longrightarrow> keyword w p = None"
  by (simp add: keyword_def src_starts_with_def)

lemma number_head: "is_number_byte c \<Longrightarrow> c \<noteq> CHR ''t'' \<and> c \<noteq> CHR ''f'' \<and> c \<noteq> CHR ''n''"
  by (auto simp: is_number_byte_def is_ascii_digit_def)

lemma scalar_number:
  assumes "reads_number ext n" "rest p = n @ t" "closes t"
  shows "json_scalar ext p = Ok (JNumber n, skip (length n) p)"
proof -
  obtain c cs where n: "n = c # cs" "is_number_byte c" using assms(1) by (cases n) (auto simp: reads_number_def)
  have no_keyword: "keyword ''true'' p = None" "keyword ''false'' p = None" "keyword ''null'' p = None"
    using number_head[OF n(2)] assms(2) n(1) by (auto intro!: keyword_not)
  have "takeWhile is_number_byte (n @ t) = n"
    using assms(1,3) closes_ident
    by (cases t) (auto simp: reads_number_def list_all_iff takeWhile_append takeWhile_eq_all_conv)
  then show ?thesis
    using assms no_keyword by (simp add: json_scalar_def Let_def reads_number_def)
qed

section \<open>Sequences\<close>

text \<open>A text that begins a value: not with trivia and not with a closing bracket.\<close>

definition opens :: "string \<Rightarrow> bool" where
  "opens s \<longleftrightarrow> s \<noteq> [] \<and> \<not> is_blank (hd s) \<and> hd s \<notin> {CHR ''#'', CHR '']'', CHR ''}'', CHR '','', CHR '')''}"

lemma opens_trivia: "opens s \<Longrightarrow> rest p = s @ t \<Longrightarrow> skip_trivia p = p"
  by (cases s) (auto simp: opens_def skip_trivia_def)

lemma closes_trivia: "closes t \<Longrightarrow> rest p = t \<Longrightarrow> skip_trivia p = p"
  by (cases t) (auto simp: closes_def skip_trivia_def is_blank_def)

text \<open>A parser that reads each of the given texts as the given value, wherever it stands.\<close>

definition reads :: "(kparser \<Rightarrow> 'a kparse) \<Rightarrow> string \<times> 'a \<Rightarrow> bool" where
  "reads item sx \<longleftrightarrow> opens (fst sx) \<and>
     (\<forall>p t. rest p = fst sx @ t \<longrightarrow> closes t \<longrightarrow> item p = Ok (snd sx, skip (length (fst sx)) p))"

lemma sequence_loop_reads:
  "list_all (reads item) sxs \<Longrightarrow> close \<in> {'']'', ''}''} \<Longrightarrow> rest p = commas (map fst sxs) @ close @ t \<Longrightarrow>
   length sxs < n \<Longrightarrow>
   sequence_loop n item close acc p = Ok (acc @ map snd sxs, skip (length (commas (map fst sxs)) + 1) p)"
proof (induction n arbitrary: sxs acc p)
  case (Suc n)
  show ?case
  proof (cases sxs)
    case Nil
    then have "skip_trivia p = p" "eat close p = Some (skip 1 p)"
      using Suc.prems(2,3) by (auto intro!: closes_trivia[OF _ refl] simp: closes_def eat_def src_starts_with_def)
    then show ?thesis using Nil by (simp add: Let_def)
  next
    case (Cons sx sxs')
    obtain s x where sx: "sx = (s, x)" by fastforce
    have r: "reads item (s, x)" using Suc.prems(1) Cons sx by simp
    define t' where "t' = (if sxs' = [] then close @ t else '','' @ commas (map fst sxs') @ close @ t)"
    have rest: "rest p = s @ t'" using Suc.prems(3) Cons sx by (cases sxs') (auto simp: t'_def)
    have closes': "closes t'" using Suc.prems(2) by (auto simp: t'_def closes_def)
    have item: "item p = Ok (x, skip (length s) p)" using r rest closes' by (auto simp: reads_def)
    have head: "skip_trivia p = p" "eat close p = None"
      using r rest Suc.prems(2) opens_trivia[of s p t']
      by (cases s; auto simp: reads_def opens_def eat_def src_starts_with_def)+
    have trivia: "skip_trivia (skip (length s) p) = skip (length s) p"
      using closes_trivia[OF closes'] rest by simp
    show ?thesis
    proof (cases "sxs' = []")
      case True
      then have "eat '','' (skip (length s) p) = None" "expect close (skip (length s) p) = Ok (skip 1 (skip (length s) p))"
        using rest Suc.prems(2) by (auto simp: eat_def expect_def src_starts_with_def t'_def)
      then show ?thesis using Cons sx True item head trivia by (simp add: Let_def)
    next
      case False
      then have comma: "eat '','' (skip (length s) p) = Some (skip 1 (skip (length s) p))"
        using rest by (auto simp: eat_def src_starts_with_def t'_def)
      have "sequence_loop n item close (acc @ [x]) (skip 1 (skip (length s) p)) =
          Ok ((acc @ [x]) @ map snd sxs', skip (length (commas (map fst sxs')) + 1) (skip 1 (skip (length s) p)))"
        by (rule Suc.IH) (use Suc.prems Cons rest False in \<open>auto simp: t'_def\<close>)
      moreover have "length (commas (map fst sxs)) = length s + 1 + length (commas (map fst sxs'))"
        using Cons sx False by (cases sxs') auto
      ultimately show ?thesis using Cons sx item head trivia comma by (simp add: Let_def add.commute)
    qed
  qed
qed simp

section \<open>Values\<close>

lemma commas_member: "s \<in> set ss \<Longrightarrow> length s \<le> length (commas ss)"
  by (induction ss rule: commas.induct) auto

lemma commas_length: "list_all (\<lambda>s. s \<noteq> []) ss \<Longrightarrow> length ss \<le> length (commas ss)"
  by (induction ss rule: commas.induct) (auto simp: Suc_le_eq)

lemma sequence_reads:
  assumes "list_all (reads item) sxs" "close \<in> {'']'', ''}''}" "rest p = commas (map fst sxs) @ close @ t"
  shows "sequence item close p = Ok (map snd sxs, skip (length (commas (map fst sxs)) + 1) p)"
proof -
  have "list_all (\<lambda>s. s \<noteq> []) (map fst sxs)" using assms(1) by (auto simp: list_all_iff reads_def opens_def)
  then have "length sxs \<le> length (commas (map fst sxs))" using commas_length by fastforce
  then have "length sxs < Suc (remaining p)" using assms(3) by (simp add: remaining_def)
  from sequence_loop_reads[OF assms this] show ?thesis by (simp add: sequence_def)
qed

lemma reads_member:
  assumes "sound_text k" "reads val (s, v)"
  shows "reads (member_of expr val) (quote_text k @ '':'' @ s, ([Text k], v))"
  unfolding reads_def
proof (intro conjI allI impI)
  show "opens (fst (quote_text k @ '':'' @ s, ([Text k], v)))" by (simp add: opens_def quote_text_def is_blank_def)
  fix p t
  assume r: "rest p = fst (quote_text k @ '':'' @ s, ([Text k], v)) @ t" "closes t"
  let ?q = "skip (length (quote_text k)) p"
  have key: "string_parts expr p = Ok ([Text k], ?q)" using string_parts_quoted[OF assms(1)] r(1) by simp
  have q: "rest ?q = '':'' @ s @ t" using r(1) by simp
  then have "skip_trivia ?q = ?q" by (simp add: skip_trivia_def is_blank_def)
  then have colon: "expect '':'' (skip_trivia ?q) = Ok (skip 1 ?q)"
    using q by (simp add: expect_def eat_def src_starts_with_def)
  have "rest (skip 1 ?q) = s @ t" using r(1) by simp
  then have "val (skip 1 ?q) = Ok (v, skip (length s) (skip 1 ?q))"
    using assms(2) r(2) unfolding reads_def fst_conv snd_conv by blast
  then show "member_of expr val p = Ok (snd (quote_text k @ '':'' @ s, ([Text k], v)),
      skip (length (fst (quote_text k @ '':'' @ s, ([Text k], v)))) p)"
    using key colon by (simp add: member_of_def add.assoc)
qed

text \<open>The head of a value's text decides what \<open>node\<close> does.\<close>

lemma node_step_at:
  assumes "opens s" "rest p = s @ t" "\<not> src_starts_with ''{{'' p"
  shows "node_step ext node expr p =
    (let c = hd s in
     if c = CHR ''{'' then object_node node expr p
     else if c = CHR ''['' then array_node node p
     else if c = CHR 0x22 then res_map (map_prod NStr id) (string_parts expr p)
     else res_map (map_prod NJson id) (json_scalar ext p))"
  using assms opens_trivia[OF assms(1,2)] by (cases s) (auto simp: node_step_def peek_def opens_def Let_def)

lemma node_scalar:
  assumes "opens s" "hd s \<notin> {CHR ''{'', CHR ''['', CHR 0x22}"
    and "\<And>p t. rest p = s @ t \<Longrightarrow> closes t \<Longrightarrow> json_scalar ext p = Ok (v, skip (length s) p)"
  shows "reads (parse_node ext (Suc d)) (s, NJson v)"
proof -
  have "node_step ext node expr p = Ok (NJson v, skip (length s) p)" if r: "rest p = s @ t" "closes t" for p t node expr
  proof -
    have "\<not> src_starts_with ''{{'' p" using assms(1,2) r(1) by (cases s) (auto simp: starts_hole numeral_2_eq_2 opens_def)
    then show ?thesis using node_step_at[OF assms(1) r(1)] assms(2,3) r by (simp add: Let_def)
  qed
  then show ?thesis using assms(1) by (simp add: reads_def)
qed

lemma number_opens: "reads_number ext n \<Longrightarrow> opens n \<and> hd n \<notin> {CHR ''{'', CHR ''['', CHR 0x22}"
  by (cases n) (auto simp: reads_number_def opens_def is_number_byte_def is_blank_def is_ascii_digit_def)

lemma scalar_keyword:
  assumes "(w, v) \<in> {(''true'', JBool True), (''false'', JBool False), (''null'', JNull)}" "rest p = w @ t" "closes t"
  shows "json_scalar ext p = Ok (v, skip (length w) p)"
  using assms keyword_there[OF assms(2,3)] by (auto simp: json_scalar_def keyword_not)

lemma node_string:
  assumes "sound_text s"
  shows "reads (parse_node ext (Suc d)) (quote_text s, NStr [Text s])"
proof -
  have o: "opens (quote_text s)" by (simp add: opens_def quote_text_def is_blank_def)
  have "node_step ext node expr p = Ok (NStr [Text s], skip (length (quote_text s)) p)"
    if r: "rest p = quote_text s @ t" for p t node expr
  proof -
    have "\<not> src_starts_with ''{{'' p" using r by (simp add: starts_hole numeral_2_eq_2 quote_text_def)
    then show ?thesis
      using node_step_at[OF o r] string_parts_quoted[OF assms r] by (simp add: Let_def) (simp add: quote_text_def)
  qed
  then show ?thesis using o by (simp add: reads_def)
qed

lemma node_array:
  assumes "list_all (reads (parse_node ext d)) sns"
  shows "reads (parse_node ext (Suc d)) (''['' @ commas (map fst sns) @ '']'', NArray (map snd sns))" (is "reads _ (?s, _)")
proof -
  have o: "opens ?s" by (simp add: opens_def is_blank_def)
  have "node_step ext (parse_node ext d) expr p = Ok (NArray (map snd sns), skip (length ?s) p)"
    if r: "rest p = ?s @ t" for p t expr
  proof -
    have "\<not> src_starts_with ''{{'' p" using r by (simp add: starts_hole numeral_2_eq_2)
    then have "node_step ext (parse_node ext d) expr p = array_node (parse_node ext d) p"
      using node_step_at[OF o r] by (simp add: Let_def)
    moreover have "expect ''['' p = Ok (skip 1 p)" using r by (simp add: expect_def eat_def src_starts_with_def)
    moreover have "sequence (parse_node ext d) '']'' (skip 1 p) =
        Ok (map snd sns, skip (length (commas (map fst sns)) + 1) (skip 1 p))"
      by (rule sequence_reads[OF assms]) (use r in simp_all)
    ultimately show ?thesis by (simp add: array_node_def)
  qed
  then show ?thesis using o by (simp add: reads_def)
qed

lemma node_object:
  assumes "list_all (\<lambda>(k, s, n). sound_text k \<and> reads (parse_node ext d) (s, n)) ksns"
  defines "texts \<equiv> map (\<lambda>(k, s, n). quote_text k @ '':'' @ s) ksns"
  shows "reads (parse_node ext (Suc d)) (''{'' @ commas texts @ ''}'', NObject (map (\<lambda>(k, s, n). ([Text k], n)) ksns))"
    (is "reads _ (?s, ?n)")
proof -
  let ?sxs = "map (\<lambda>(k, s, n). (quote_text k @ '':'' @ s, ([Text k], n))) ksns"
  have texts: "map fst ?sxs = texts" "map snd ?sxs = map (\<lambda>(k, s, n). ([Text k], n)) ksns"
    by (auto simp: texts_def)
  have items: "list_all (reads (member_of (parse_expr ext d) (parse_node ext d))) ?sxs"
    using assms(1) reads_member by (fastforce simp: list_all_iff)
  have o: "opens ?s" by (simp add: opens_def is_blank_def)
  have second: "take 1 (commas texts @ ''}'' @ t) \<noteq> ''{''" for t
    by (cases texts rule: commas.cases) (auto simp: texts_def quote_text_def)
  have "node_step ext (parse_node ext d) (parse_expr ext d) p = Ok (?n, skip (length ?s) p)" if r: "rest p = ?s @ t" for p t
  proof -
    have "\<not> src_starts_with ''{{'' p" using r second[of t] by (simp add: starts_hole numeral_2_eq_2)
    then have "node_step ext (parse_node ext d) (parse_expr ext d) p = object_node (parse_node ext d) (parse_expr ext d) p"
      using node_step_at[OF o r] by (simp add: Let_def)
    moreover have "expect ''{'' p = Ok (skip 1 p)" using r by (simp add: expect_def eat_def src_starts_with_def)
    moreover have "sequence (member_of (parse_expr ext d) (parse_node ext d)) ''}'' (skip 1 p) =
        Ok (map snd ?sxs, skip (length (commas (map fst ?sxs)) + 1) (skip 1 p))"
      by (rule sequence_reads[OF items]) (use r texts(1) in simp_all)
    ultimately show ?thesis unfolding texts by (simp add: object_node_def)
  qed
  then show ?thesis using o by (simp add: reads_def)
qed

section \<open>JSON is a template\<close>

declare parse_node.simps [simp del]

lemma node_reads_json:
  "plain_json ext j \<Longrightarrow> length (json_text j) < d \<Longrightarrow> reads (parse_node ext d) (json_text j, node_of j)"
proof (induction j arbitrary: d)
  case JNull
  then show ?case using node_scalar[of "''null''" ext JNull] scalar_keyword[of "''null''" JNull]
    by (cases d) (simp_all add: opens_def is_blank_def)
next
  case (JBool b)
  then show ?case
    using node_scalar[of "''true''" ext "JBool True"] scalar_keyword[of "''true''" "JBool True"]
      node_scalar[of "''false''" ext "JBool False"] scalar_keyword[of "''false''" "JBool False"]
    by (cases d; cases b) (simp_all add: opens_def is_blank_def)
next
  case (JNumber n)
  then show ?case
    using node_scalar[of n ext "JNumber n"] number_opens[of ext n] scalar_number[of ext n] by (cases d) simp_all
next
  case (JString s)
  then show ?case using node_string by (cases d) simp_all
next
  case (JArray xs)
  then obtain d' where d: "d = Suc d'" by (cases d) auto
  have "reads (parse_node ext d') (json_text x, node_of x)" if x: "x \<in> set xs" for x
  proof (rule JArray.IH[OF x])
    show "plain_json ext x" using JArray.prems(1) x by (auto simp: list_all_iff)
    show "length (json_text x) < d'" using commas_member[of "json_text x" "map json_text xs"] x JArray.prems(2) d by simp
  qed
  then have "list_all (reads (parse_node ext d')) (map (\<lambda>x. (json_text x, node_of x)) xs)" by (auto simp: list_all_iff)
  from node_array[OF this] show ?case by (simp add: d comp_def)
next
  case (JObject m)
  then obtain d' where d: "d = Suc d'" by (cases d) auto
  have "sound_text k \<and> reads (parse_node ext d') (json_text v, node_of v)" if kv: "(k, v) \<in> set m" for k v
  proof
    show "sound_text k" using JObject.prems(1) kv by (auto simp: list_all_iff)
    show "reads (parse_node ext d') (json_text v, node_of v)"
    proof (rule JObject.IH[OF kv])
      show "plain_json ext v" using JObject.prems(1) kv by (auto simp: list_all_iff)
      have "quote_text k @ '':'' @ json_text v \<in> set (map (\<lambda>(k, v). quote_text k @ '':'' @ json_text v) m)"
        using kv by force
      from commas_member[OF this] show "length (json_text v) < d'" using JObject.prems(2) d by simp
    qed simp
  qed
  then have "list_all (\<lambda>(k, s, n). sound_text k \<and> reads (parse_node ext d') (s, n))
      (map (\<lambda>(k, v). (k, json_text v, node_of v)) m)" by (auto simp: list_all_iff)
  from node_object[OF this] show ?case by (simp add: d comp_def case_prod_unfold)
qed

lemma eval_json:
  "plain_json ext j \<Longrightarrow> eval_node ext (node_of j) sc = (Ok j, sc)"
proof (induction j)
  case (JArray xs)
  have "eval_nodes ext (map node_of ys) sc = (Ok ys, sc)" if "set ys \<subseteq> set xs" for ys
    using that
  proof (induction ys)
    case (Cons y ys)
    then have "eval_node ext (node_of y) sc = (Ok y, sc)" using JArray by (auto simp: list_all_iff)
    then show ?case using Cons by (simp add: ev_bind_def ev_lift_def)
  qed simp
  then show ?case by (simp add: ev_bind_def ev_lift_def)
next
  case (JObject m)
  have "eval_node_members ext (map (\<lambda>(k, v). ([Text k], node_of v)) ms) acc sc = (Ok (acc @ ms), sc)"
    if "set ms \<subseteq> set m" "distinct (map fst (acc @ ms))" for ms acc
    using that
  proof (induction ms arbitrary: acc)
    case (Cons kv ms)
    obtain k v where kv: "kv = (k, v)" by fastforce
    have "plain_json ext v" using JObject.prems Cons.prems(1) kv by (auto simp: list_all_iff)
    moreover have "(k, v) \<in> set m" using Cons.prems(1) kv by auto
    ultimately have "eval_node ext (node_of v) sc = (Ok v, sc)" using JObject.IH[of "(k, v)" v] by simp
    moreover have "map_insert k v acc = acc @ [(k, v)]" using Cons.prems(2) kv by (intro map_insert_new) auto
    ultimately show ?case
      using Cons.IH[of "acc @ [(k, v)]"] Cons.prems kv by (simp add: ev_bind_def ev_lift_def)
  qed simp
  from this[of m "[]"] show ?case using JObject.prems by (simp add: ev_bind_def ev_lift_def)
qed (simp_all add: ev_bind_def ev_lift_def)

lemma template_reads:
  assumes "reads (parse_node ext (Suc (length s))) (s, n)"
  shows "parse_template ext s = Ok n"
proof -
  let ?p = "\<lparr>src = s, pos = 0\<rparr>"
  have rest: "rest ?p = s @ []" by (simp add: rest_def)
  have "skip_trivia ?p = ?p" using assms rest by (intro opens_trivia[of s]) (auto simp: reads_def)
  moreover have "parse_node ext (Suc (length s)) ?p = Ok (n, skip (length s) ?p)"
    using assms rest by (simp add: reads_def closes_def del: parse_node.simps)
  moreover have "skip_trivia (skip (length s) ?p) = skip (length s) ?p"
    using rest by (simp add: skip_trivia_def)
  ultimately show ?thesis
    unfolding parse_template_def by (simp add: Let_def skip_def del: parse_node.simps)
qed

lemma node_plain_string:
  assumes "spells raw s"
  shows "reads (parse_node ext (Suc d)) ([CHR 0x22] @ raw @ [CHR 0x22], NStr [Text s])" (is "reads _ (?s, _)")
proof -
  have o: "opens ?s" by (simp add: opens_def is_blank_def)
  have "node_step ext node expr p = Ok (NStr [Text s], skip (length ?s) p)" if r: "rest p = ?s @ t" for p t node expr
  proof -
    have e: "expect [CHR 0x22] p = Ok (skip 1 p)" using r by (simp add: expect_def eat_def src_starts_with_def)
    have "string_loop (Suc (remaining (skip 1 p))) expr [] [] (skip 1 p) = Ok ([Text ([] @ s)], skip (length raw + 1) (skip 1 p))"
      by (rule string_loop_spells[OF assms]) (use r in \<open>simp_all add: remaining_def\<close>)
    then have "string_parts expr p = Ok ([Text s], skip (length ?s) p)"
      by (simp add: string_parts_def e del: string_loop.simps)
    moreover have "\<not> src_starts_with ''{{'' p" using r by (simp add: starts_hole numeral_2_eq_2)
    ultimately show ?thesis using node_step_at[OF o r] by (simp add: Let_def)
  qed
  then show ?thesis using o by (simp add: reads_def parse_node.simps)
qed

section \<open>Properties\<close>

text \<open>
  (C32) A template without holes is JSON: the compact text of a value renders to that value in every
  context, with the order of the members kept. What is asked of the value is that its objects have
  distinct keys, that no string opens a hole, and that the JSON library reads the numbers it prints.
\<close>

theorem json_renders_to_itself:
  assumes "plain_json ext j"
  shows "render ext (json_text j) context = Ok j"
proof -
  have "parse_template ext (json_text j) = Ok (node_of j)"
    by (rule template_reads[OF node_reads_json[OF assms]]) simp
  then show ?thesis by (simp add: render_def eval_template_def eval_json[OF assms])
qed

definition sample_json :: json where
  "sample_json =
     JObject [(''id'', JNumber ''17''), (''tags'', JArray [JString [CHR 0x22, CHR 0x0A], JNull, JBool True]), ([], JObject [])]"

theorem json_renders_to_itself_witness:
  "plain_json digit_externs sample_json \<and> render digit_externs (json_text sample_json) [] = Ok sample_json"
proof -
  have "plain_json digit_externs sample_json" by code_simp
  then show ?thesis using json_renders_to_itself by blast
qed

text \<open>
  In a place where a string is expected, text without holes, quotes and backslashes renders to
  itself: \<open>/users\<close> stays \<open>/users\<close>.
\<close>

theorem plain_text_renders_to_itself:
  assumes "sound_text s" "CHR 0x22 \<notin> set s" "CHR 0x5C \<notin> set s"
  shows "render_unescaped ext s context = Ok s"
proof -
  have "parse_template ext ([CHR 0x22] @ s @ [CHR 0x22]) = Ok (NStr [Text s])"
    by (rule template_reads[OF node_plain_string[OF spells_plain[OF assms(2,3,1)]]])
  then show ?thesis
    by (simp add: render_unescaped_def render_def eval_template_def ev_bind_def ev_lift_def interpolate_def)
qed

theorem plain_text_renders_to_itself_witness:
  "render_unescaped digit_externs ''/users?page=2'' [] = Ok ''/users?page=2''"
proof -
  have "sound_text ''/users?page=2''" by code_simp
  then show ?thesis using plain_text_renders_to_itself by simp
qed


end
