(* ===== verification/Value_Contract.thy ===== *)
theory Value_Contract
  imports Json "HOL-Library.Multiset"
begin

text \<open>
  Value contracts (\<open>crates/value-contract/src/lib.rs\<close>): the types of values that cross the connector
  boundary, the parser of type references, the scalar formats, validation of a value against a
  catalog, assignability of one catalog to another, and the size of canonical JSON. Vectors used as
  work lists are modelled by lists whose head is the end of the vector: \<open>pop\<close> takes the head.
\<close>

section \<open>Types and values\<close>

datatype value_scalar =
    SBoolean | SString | SInt32 | SInt64 | SUInt64 | SDecimal | SUuid | SDate | STimestamp | STimestampTz | SJson
  | SCustom string

datatype type_ref = TypeRef (tr_nullable: bool) (value_type: value_type)
and value_type =
    VScalar value_scalar
  | VEnum string "string list"
  | VObject "(string \<times> contract_field) list"
  | VList type_ref
  | VRef string
and contract_field = ContractField (required: bool) (field_type: type_ref)

record value_object_contract =
  object_fields :: "contract_field btree_map"

record value_contract_catalog =
  roots :: "contract_field btree_map"
  named_objects :: "value_object_contract btree_map"

datatype canonical_number = NI64 int | NU64 nat | NDecimal string

record bounded_inline_bytes =
  ib_bytes :: string
  ib_media_type :: string
  ib_file_name :: "string option"

datatype typed_value =
    CNull
  | CBoolean bool
  | CString string
  | CNumber canonical_number
  | CList "typed_value list"
  | CObject "(string \<times> typed_value) list"
  | CInlineBytes bounded_inline_bytes

datatype value_contract_error =
    InvalidTypeRef string
  | InvalidValue string
  | LimitExceeded string
  | SizeOverflow

fun contract_error_to_string :: "value_contract_error \<Rightarrow> string" where
  "contract_error_to_string (InvalidTypeRef message) = message"
| "contract_error_to_string (InvalidValue message) = message"
| "contract_error_to_string (LimitExceeded limit) = limit @ '' limit exceeded''"
| "contract_error_to_string SizeOverflow = ''canonical size overflow''"

definition MAXIMUM_DECODED_INLINE_BYTES :: nat where "MAXIMUM_DECODED_INLINE_BYTES = 131072"
definition MAXIMUM_INLINE_VALUES :: nat where "MAXIMUM_INLINE_VALUES = 16"
definition MAXIMUM_CANONICAL_BYTES :: nat where "MAXIMUM_CANONICAL_BYTES = 262144"
definition MAXIMUM_MEDIA_TYPE_BYTES :: nat where "MAXIMUM_MEDIA_TYPE_BYTES = 255"
definition MAXIMUM_FILE_NAME_BYTES :: nat where "MAXIMUM_FILE_NAME_BYTES = 255"

definition inline_bytes_try_new ::
  "string \<Rightarrow> string \<Rightarrow> string option \<Rightarrow> nat \<Rightarrow> (bounded_inline_bytes, value_contract_error) result" where
  "inline_bytes_try_new bytes media_type file_name maximum_decoded_bytes =
     (if maximum_decoded_bytes > MAXIMUM_DECODED_INLINE_BYTES then Err (LimitExceeded ''declared decoded inline bytes'')
      else if length bytes > maximum_decoded_bytes then Err (LimitExceeded ''decoded inline bytes'')
      else if length media_type > MAXIMUM_MEDIA_TYPE_BYTES \<or> \<not> is_ascii media_type
      then Err (InvalidValue ''media type must contain at most 255 ASCII bytes'')
      else if (case file_name of Some name \<Rightarrow> length name > MAXIMUM_FILE_NAME_BYTES | None \<Rightarrow> False)
      then Err (InvalidValue ''file name must contain at most 255 UTF-8 bytes'')
      else Ok \<lparr>ib_bytes = bytes, ib_media_type = media_type, ib_file_name = file_name\<rparr>)"

section \<open>Type references\<close>

definition canonical_named_type :: "string \<Rightarrow> value_type" where
  "canonical_named_type name =
     (if name \<in> {''Boolean'', ''bool'', ''boolean''} then VScalar SBoolean
      else if name \<in> {''String'', ''string'', ''ID''} then VScalar SString
      else if name \<in> {''Int'', ''int'', ''int32''} then VScalar SInt32
      else if name = ''int64'' then VScalar SInt64
      else if name = ''uint64'' then VScalar SUInt64
      else if name \<in> {''Float'', ''float'', ''decimal''} then VScalar SDecimal
      else if name = ''uuid'' then VScalar SUuid
      else if name = ''date'' then VScalar SDate
      else if name = ''timestamp'' then VScalar STimestamp
      else if name = ''timestamptz'' then VScalar STimestampTz
      else if name \<in> {''json'', ''jsonb''} then VScalar SJson
      else VRef name)"

definition type_ref_error :: "nat \<Rightarrow> string \<Rightarrow> value_contract_error" where
  "type_ref_error offset expectation =
     InvalidTypeRef (''invalid type reference at byte '' @ nat_to_string offset @ '': '' @ expectation)"

definition is_type_start :: "char \<Rightarrow> bool" where
  "is_type_start c \<longleftrightarrow> is_ascii_alphabetic c \<or> c = CHR ''_''"

definition is_name_byte :: "char \<Rightarrow> bool" where
  "is_name_byte c \<longleftrightarrow> is_ascii_alphabetic c \<or> is_ascii_digit c \<or> c = CHR ''_''"

text \<open>An optional exclamation mark: whether the type is nullable, and the offset after the mark.\<close>

definition bang :: "string \<Rightarrow> nat \<Rightarrow> bool \<times> nat" where
  "bang source offset = (if take 1 (drop offset source) = ''!'' then (False, offset + 1) else (True, offset))"

fun close_lists :: "nat \<Rightarrow> string \<Rightarrow> type_ref \<Rightarrow> nat \<Rightarrow> (type_ref \<times> nat, value_contract_error) result" where
  "close_lists 0 source parsed offset = Ok (parsed, offset)"
| "close_lists (Suc n) source parsed offset =
     (if take 1 (drop offset source) \<noteq> '']'' then Err (type_ref_error offset (''expected '' @ [CHR 0x60] @ '']'' @ [CHR 0x60]))
      else let (is_nullable, offset) = bang source (offset + 1) in
           close_lists n source (TypeRef is_nullable (VList parsed)) offset)"

definition type_ref_parse :: "string \<Rightarrow> (type_ref, value_contract_error) result" where
  "type_ref_parse source =
     (let list_depth = length (takeWhile (\<lambda>c. c = CHR ''['') source) in
      case drop list_depth source of
        [] \<Rightarrow> Err (type_ref_error list_depth ''expected a type name'')
      | first # after \<Rightarrow>
          if \<not> is_type_start first
          then Err (type_ref_error list_depth
                 (''type name must begin with an ASCII letter or '' @ [CHR 0x60] @ ''_'' @ [CHR 0x60]))
          else
            let name = first # takeWhile is_name_byte after;
                (is_nullable, offset) = bang source (list_depth + length name)
            in res_bind (close_lists list_depth source (TypeRef is_nullable (canonical_named_type name)) offset)
                 (\<lambda>(parsed, offset).
                    if offset \<noteq> length source then Err (type_ref_error offset ''unexpected trailing input'')
                    else Ok parsed))"

section \<open>Scalar formats\<close>

definition decimal_digits :: "string \<Rightarrow> nat" where
  "decimal_digits bytes = foldl (\<lambda>value byte. value * 10 + (byte_of byte - 48)) 0 bytes"

text \<open>\<open>CanonicalDecimal\<close>: the minimal fixed-point spelling.\<close>

definition valid_fraction :: "string \<Rightarrow> bool" where
  "valid_fraction s \<longleftrightarrow> s \<noteq> [] \<and> list_all is_ascii_digit s \<and> last s \<noteq> CHR ''0''"

definition valid_canonical_decimal :: "string \<Rightarrow> bool" where
  "valid_canonical_decimal s \<longleftrightarrow>
     (let body = (case s of c # cs \<Rightarrow> if c = CHR ''-'' then cs else s | [] \<Rightarrow> s);
          whole = (if take 1 body = ''0'' then ''0'' else takeWhile is_ascii_digit body);
          after = drop (length whole) body
      in whole \<noteq> [] \<and> \<not> (take 1 body = ''0'' \<and> (case after of c # _ \<Rightarrow> is_ascii_digit c | [] \<Rightarrow> False)) \<and>
         (case after of
            [] \<Rightarrow> True
          | c # fraction \<Rightarrow> c = CHR ''.'' \<and> valid_fraction fraction) \<and>
         s \<noteq> ''-0'')"

definition canonical_decimal_try_new :: "string \<Rightarrow> (canonical_number, value_contract_error) result" where
  "canonical_decimal_try_new s =
     (if valid_canonical_decimal s then Ok (NDecimal s)
      else Err (InvalidValue ''decimal must use minimal fixed-point JSON spelling''))"

definition valid_canonical_uuid :: "string \<Rightarrow> bool" where
  "valid_canonical_uuid s \<longleftrightarrow>
     length s = 36 \<and>
     list_all (\<lambda>(i, c). if i \<in> {8, 13, 18, 23} then c = CHR ''-''
        else is_ascii_digit c \<or> (97 \<le> byte_of c \<and> byte_of c \<le> (102 :: nat))) (enumerate 0 s)"

definition valid_date_bytes :: "string \<Rightarrow> bool" where
  "valid_date_bytes bytes \<longleftrightarrow>
     length bytes = 10 \<and> bytes ! 4 = CHR ''-'' \<and> bytes ! 7 = CHR ''-'' \<and>
     list_all (\<lambda>(i, c). i \<in> {4, 7} \<or> is_ascii_digit c) (enumerate 0 bytes) \<and>
     (let year = decimal_digits (take 4 bytes);
          month = decimal_digits (take 2 (drop 5 bytes));
          day = decimal_digits (take 2 (drop 8 bytes));
          leap = (4 dvd year \<and> (\<not> 100 dvd year \<or> 400 dvd year));
          maximum_day =
            (if month \<in> {1, 3, 5, 7, 8, 10, 12} then 31
             else if month \<in> {4, 6, 9, 11} then 30
             else if month = 2 then (if leap then 29 else 28)
             else 0)
      in 1 \<le> day \<and> day \<le> maximum_day)"

definition valid_clock :: "string \<Rightarrow> bool" where
  "valid_clock clock \<longleftrightarrow>
     length clock = 8 \<and> clock ! 2 = CHR '':'' \<and> clock ! 5 = CHR '':'' \<and>
     list_all (\<lambda>(i, c). i \<in> {2, 5} \<or> is_ascii_digit c) (enumerate 0 clock) \<and>
     decimal_digits (take 2 clock) \<le> 23 \<and> decimal_digits (take 2 (drop 3 clock)) \<le> 59 \<and>
     decimal_digits (take 2 (drop 6 clock)) \<le> 59"

definition valid_offset :: "string \<Rightarrow> bool" where
  "valid_offset off \<longleftrightarrow>
     (off ! 0 = CHR ''+'' \<or> off ! 0 = CHR ''-'') \<and> off ! 3 = CHR '':'' \<and>
     list_all is_ascii_digit (take 2 (drop 1 off)) \<and> list_all is_ascii_digit (take 2 (drop 4 off)) \<and>
     decimal_digits (take 2 (drop 1 off)) \<le> 23 \<and> decimal_digits (take 2 (drop 4 off)) \<le> 59"

text \<open>The bytes before the time zone, if the zone is there and valid.\<close>

definition local_part :: "bool \<Rightarrow> string \<Rightarrow> string option" where
  "local_part with_time_zone bytes =
     (if \<not> with_time_zone then Some bytes
      else if bytes \<noteq> [] \<and> last bytes = CHR ''Z'' then Some (butlast bytes)
      else if length bytes \<ge> 6 then
        (if valid_offset (drop (length bytes - 6) bytes) then Some (take (length bytes - 6) bytes) else None)
      else None)"

definition valid_timestamp :: "string \<Rightarrow> bool \<Rightarrow> bool" where
  "valid_timestamp bytes with_time_zone \<longleftrightarrow>
     (case local_part with_time_zone bytes of
        None \<Rightarrow> False
      | Some loc \<Rightarrow>
          length loc \<ge> 19 \<and> loc ! 10 = CHR ''T'' \<and> valid_date_bytes (take 10 loc) \<and>
          (let time = drop 11 loc; clock = takeWhile (\<lambda>c. c \<noteq> CHR ''.'') time in
           valid_clock clock \<and>
           (case drop (length clock) time of
              [] \<Rightarrow> True
            | _ # fraction \<Rightarrow> 1 \<le> length fraction \<and> length fraction \<le> 6 \<and> list_all is_ascii_digit fraction)))"

section \<open>Scalars\<close>

function (sequential) json_shape_loop :: "typed_value list \<Rightarrow> bool" where
  "json_shape_loop [] \<longleftrightarrow> True"
| "json_shape_loop (CList vs # pending) \<longleftrightarrow> json_shape_loop (rev vs @ pending)"
| "json_shape_loop (CObject vs # pending) \<longleftrightarrow> json_shape_loop (rev (map snd vs) @ pending)"
| "json_shape_loop (CInlineBytes b # pending) \<longleftrightarrow> False"
| "json_shape_loop (v # pending) \<longleftrightarrow> json_shape_loop pending"
  by pat_completeness auto

text \<open>The weight of a work list of values: every value counts with its size and one.\<close>

abbreviation weight :: "typed_value list \<Rightarrow> nat" where
  "weight vs \<equiv> size_list size vs"

lemma weight_append [simp]: "weight (vs @ ws) = weight vs + weight ws"
  by (induction vs) auto

lemma weight_rev [simp]: "weight (rev vs) = weight vs"
  by (induction vs) auto

lemma weight_members: "weight (map snd m) \<le> size_list (size_prod (\<lambda>_. 0) size) m"
  by (induction m) auto

termination json_shape_loop
proof (relation "measure weight", goal_cases)
  case (3 vs pending)
  then show ?case using weight_members[of vs] by simp
qed auto

definition valid_json_shape :: "typed_value \<Rightarrow> bool" where
  "valid_json_shape v = json_shape_loop [v]"

fun scalar_matches :: "value_scalar \<Rightarrow> typed_value \<Rightarrow> bool" where
  "scalar_matches SBoolean v = (case v of CBoolean _ \<Rightarrow> True | _ \<Rightarrow> False)"
| "scalar_matches SString v = (case v of CString _ \<Rightarrow> True | _ \<Rightarrow> False)"
| "scalar_matches SInt32 v =
     (case v of
        CNumber (NI64 n) \<Rightarrow> i32_min \<le> n \<and> n \<le> i32_max
      | CNumber (NU64 n) \<Rightarrow> int n \<le> i32_max
      | _ \<Rightarrow> False)"
| "scalar_matches SInt64 v =
     (case v of CNumber (NI64 n) \<Rightarrow> True | CNumber (NU64 n) \<Rightarrow> int n \<le> i64_max | _ \<Rightarrow> False)"
| "scalar_matches SUInt64 v =
     (case v of CNumber (NU64 n) \<Rightarrow> True | CNumber (NI64 n) \<Rightarrow> n \<ge> 0 | _ \<Rightarrow> False)"
| "scalar_matches SDecimal v = (case v of CNumber _ \<Rightarrow> True | _ \<Rightarrow> False)"
| "scalar_matches SUuid v = (case v of CString s \<Rightarrow> valid_canonical_uuid s | _ \<Rightarrow> False)"
| "scalar_matches SDate v = (case v of CString s \<Rightarrow> valid_date_bytes s | _ \<Rightarrow> False)"
| "scalar_matches STimestamp v = (case v of CString s \<Rightarrow> valid_timestamp s False | _ \<Rightarrow> False)"
| "scalar_matches STimestampTz v = (case v of CString s \<Rightarrow> valid_timestamp s True | _ \<Rightarrow> False)"
| "scalar_matches SJson v = valid_json_shape v"
| "scalar_matches (SCustom name) v = (case v of CBoolean _ \<Rightarrow> True | CString _ \<Rightarrow> True | CNumber _ \<Rightarrow> True | _ \<Rightarrow> False)"

definition validate_scalar :: "typed_value \<Rightarrow> value_scalar \<Rightarrow> (unit, value_contract_error) result" where
  "validate_scalar v scalar =
     (if scalar_matches scalar v then Ok () else Err (InvalidValue ''value does not match its declared scalar''))"

section \<open>Validation\<close>

text \<open>\<open>push_fields\<close>: every supplied name is declared, and every required field is supplied.\<close>

fun unknown_field :: "(string \<times> typed_value) list \<Rightarrow> contract_field btree_map \<Rightarrow> string option" where
  "unknown_field [] decls = None"
| "unknown_field ((name, v) # vs) decls = (if bt_contains decls name then unknown_field vs decls else Some name)"

fun push_declared ::
  "(string \<times> typed_value) list \<Rightarrow> contract_field btree_map \<Rightarrow> (typed_value \<times> type_ref) list \<Rightarrow>
   ((typed_value \<times> type_ref) list, value_contract_error) result" where
  "push_declared vs [] pending = Ok pending"
| "push_declared vs ((name, field) # decls) pending =
     (case map_of vs name of
        Some v \<Rightarrow> push_declared vs decls ((v, field_type field) # pending)
      | None \<Rightarrow>
          if required field
          then Err (InvalidValue (''required field '' @ [CHR 0x60] @ name @ [CHR 0x60] @ '' is missing''))
          else push_declared vs decls pending)"

definition push_fields ::
  "(string \<times> typed_value) list \<Rightarrow> contract_field btree_map \<Rightarrow> (typed_value \<times> type_ref) list \<Rightarrow>
   ((typed_value \<times> type_ref) list, value_contract_error) result" where
  "push_fields vs decls pending =
     (case unknown_field vs decls of
        Some name \<Rightarrow> Err (InvalidValue (''unknown field '' @ [CHR 0x60] @ name @ [CHR 0x60]))
      | None \<Rightarrow> push_declared vs decls pending)"

text \<open>One turn of the loop of \<open>validate\<close>: the work list after a value has been looked at.\<close>

definition validate_step ::
  "value_contract_catalog \<Rightarrow> typed_value \<Rightarrow> type_ref \<Rightarrow> (typed_value \<times> type_ref) list \<Rightarrow>
   ((typed_value \<times> type_ref) list, value_contract_error) result" where
  "validate_step catalog v type_ref pending =
     (if v = CNull then
        (if tr_nullable type_ref then Ok pending
         else Err (InvalidValue ''null is not accepted by a non-null type''))
      else case value_type type_ref of
        VScalar scalar \<Rightarrow> res_map (\<lambda>_. pending) (validate_scalar v scalar)
      | VEnum name symbols \<Rightarrow>
          (case v of
             CString symbol \<Rightarrow>
               if symbol \<in> set symbols then Ok pending
               else Err (InvalidValue (''value does not match enum '' @ [CHR 0x60] @ name @ [CHR 0x60]))
           | _ \<Rightarrow> Err (InvalidValue (''value does not match enum '' @ [CHR 0x60] @ name @ [CHR 0x60])))
      | VObject decls \<Rightarrow>
          (case v of CObject vs \<Rightarrow> push_fields vs decls pending | _ \<Rightarrow> Err (InvalidValue ''value is not an object''))
      | VList element \<Rightarrow>
          (case v of
             CList vs \<Rightarrow> Ok (rev (map (\<lambda>v. (v, element)) vs) @ pending)
           | _ \<Rightarrow> Err (InvalidValue ''value is not a list''))
      | VRef name \<Rightarrow>
          (case bt_get (named_objects catalog) name of
             None \<Rightarrow> Err (InvalidTypeRef (''unknown named object '' @ [CHR 0x60] @ name @ [CHR 0x60]))
           | Some object \<Rightarrow>
               (case v of
                  CObject vs \<Rightarrow> push_fields vs (object_fields object) pending
                | _ \<Rightarrow> Err (InvalidValue (''value is not object '' @ [CHR 0x60] @ name @ [CHR 0x60])))))"

text \<open>Looking at a value makes the work list lighter, if the object has distinct member names.\<close>

fun distinct_keys :: "typed_value \<Rightarrow> bool" where
  "distinct_keys (CList vs) \<longleftrightarrow> list_all distinct_keys vs"
| "distinct_keys (CObject m) \<longleftrightarrow> distinct (map fst m) \<and> list_all (\<lambda>(k, v). distinct_keys v) m"
| "distinct_keys _ \<longleftrightarrow> True"

text \<open>
  Work lists: a turn replaces the head by smaller items, so the loops end by the multiset order on
  the sizes of their items.
\<close>

definition smaller_worklist :: "('a \<Rightarrow> nat) \<Rightarrow> ('a list \<times> 'a list) set" where
  "smaller_worklist sz = inv_image (mult less_than) (\<lambda>pending. mset (map sz pending))"

lemma wf_smaller_worklist: "wf (smaller_worklist sz)"
  unfolding smaller_worklist_def by (intro wf_inv_image wf_mult wf_less_than)

lemma smaller_worklistI:
  assumes "\<And>x. x \<in> set new \<Longrightarrow> sz x < sz item"
  shows "(new @ pending, item # pending) \<in> smaller_worklist sz"
proof -
  have "(mset (map sz pending) + mset (map sz new), mset (map sz pending) + {#sz item#}) \<in> mult less_than"
    using assms by (intro one_step_implies_mult) auto
  then show ?thesis by (simp add: smaller_worklist_def add.commute)
qed

lemma member_size: "(k, v) \<in> set m \<Longrightarrow> size v < size_list (size_prod (\<lambda>_. 0) size) m"
  by (induction m) (auto simp: less_SucI trans_less_add2)

lemma item_size: "v \<in> set vs \<Longrightarrow> size v < size_list size vs"
  by (induction vs) auto

lemma push_declared_new:
  "push_declared vs decls pending = Ok pending' \<Longrightarrow>
   \<exists>new. pending' = new @ pending \<and> (\<forall>(v, t) \<in> set new. \<exists>k. (k, v) \<in> set vs)"
proof (induction decls arbitrary: pending)
  case (Cons d decls)
  obtain name field where d: "d = (name, field)" by fastforce
  show ?case
  proof (cases "map_of vs name")
    case None
    then show ?thesis using Cons d by (auto split: if_splits)
  next
    case (Some v)
    then obtain new where "pending' = new @ (v, field_type field) # pending" "\<forall>(v, t) \<in> set new. \<exists>k. (k, v) \<in> set vs"
      using Cons.IH[of "(v, field_type field) # pending"] Cons.prems d by auto
    then have "pending' = (new @ [(v, field_type field)]) @ pending"
      "\<forall>(v, t) \<in> set (new @ [(v, field_type field)]). \<exists>k. (k, v) \<in> set vs" using Some by (auto dest: map_of_SomeD)
    then show ?thesis by blast
  qed
qed simp

lemma push_fields_new:
  "push_fields vs decls pending = Ok pending' \<Longrightarrow>
   \<exists>new. pending' = new @ pending \<and> (\<forall>(v, t) \<in> set new. \<exists>k. (k, v) \<in> set vs)"
  by (auto simp: push_fields_def dest: push_declared_new split: option.splits)

lemma validate_step_new:
  assumes "validate_step catalog v t pending = Ok pending'"
  shows "\<exists>new. pending' = new @ pending \<and> (\<forall>(w, _) \<in> set new. size w < size v)"
proof -
  have obj: "\<exists>new. pending' = new @ pending \<and> (\<forall>(w, _) \<in> set new. size w < size v)"
    if "v = CObject vs" "push_fields vs decls pending = Ok pending'" for vs decls
    using push_fields_new[OF that(2)] that(1) by (fastforce dest: member_size)
  show ?thesis
  proof (cases "v = CNull")
    case True
    then show ?thesis using assms by (auto simp: validate_step_def split: if_splits)
  next
    case False
    show ?thesis
    proof (cases "value_type t")
      case (VList element)
      then obtain vs where "v = CList vs" "pending' = rev (map (\<lambda>v. (v, element)) vs) @ pending"
        using assms False by (auto simp: validate_step_def split: typed_value.splits)
      then show ?thesis
        by (intro exI[of _ "rev (map (\<lambda>v. (v, element)) vs)"]) (auto dest: item_size)
    next
      case (VObject decls)
      then show ?thesis using assms False obj by (auto simp: validate_step_def split: typed_value.splits)
    next
      case (VRef name)
      then show ?thesis using assms False obj by (auto simp: validate_step_def split: option.splits typed_value.splits)
    qed (use assms False in \<open>auto simp: validate_step_def split: typed_value.splits if_splits\<close>)
  qed
qed

function validate_loop :: "value_contract_catalog \<Rightarrow> (typed_value \<times> type_ref) list \<Rightarrow> (unit, value_contract_error) result" where
  "validate_loop catalog [] = Ok ()"
| "validate_loop catalog ((v, t) # pending) =
     res_bind (validate_step catalog v t pending) (validate_loop catalog)"
  by pat_completeness auto
termination
proof (relation "inv_image (smaller_worklist (size \<circ> fst)) snd", goal_cases)
  case (2 catalog v t pending pending')
  then obtain new where "pending' = new @ pending" "\<forall>(w, _) \<in> set new. size w < size v"
    using validate_step_new by blast
  then show ?case by (auto intro!: smaller_worklistI)
qed (simp add: wf_smaller_worklist)

section \<open>Definitions\<close>

fun first_duplicate :: "string list \<Rightarrow> string list \<Rightarrow> string option" where
  "first_duplicate seen [] = None"
| "first_duplicate seen (s # ss) = (if s \<in> set seen then Some s else first_duplicate (seen @ [s]) ss)"

definition definitions_step ::
  "value_contract_catalog \<Rightarrow> type_ref \<Rightarrow> type_ref list \<Rightarrow> (type_ref list, value_contract_error) result" where
  "definitions_step catalog t pending =
     (case value_type t of
        VScalar _ \<Rightarrow> Ok pending
      | VEnum name symbols \<Rightarrow>
          if symbols = []
          then Err (InvalidTypeRef (''enum '' @ [CHR 0x60] @ name @ [CHR 0x60] @ '' must declare at least one value''))
          else (case first_duplicate [] symbols of
                  Some symbol \<Rightarrow>
                    Err (InvalidTypeRef (''enum '' @ [CHR 0x60] @ name @ [CHR 0x60] @ '' contains duplicate value '' @
                      [CHR 0x60] @ symbol @ [CHR 0x60]))
                | None \<Rightarrow> Ok pending)
      | VObject decls \<Rightarrow> Ok (rev (map (\<lambda>(_, field). field_type field) decls) @ pending)
      | VList element \<Rightarrow> Ok (element # pending)
      | VRef name \<Rightarrow>
          if bt_contains (named_objects catalog) name then Ok pending
          else Err (InvalidTypeRef (''unknown named object '' @ [CHR 0x60] @ name @ [CHR 0x60])))"

lemma field_size: "(k, f) \<in> set decls \<Longrightarrow> size (field_type f) < size_list (size_prod (\<lambda>_. 0) size) decls"
  by (cases f) (induction decls, auto simp: less_SucI trans_less_add2)

lemma definitions_step_new:
  "definitions_step catalog t pending = Ok pending' \<Longrightarrow>
   \<exists>new. pending' = new @ pending \<and> (\<forall>w \<in> set new. size w < size t)"
proof (cases t)
  case (TypeRef n vt)
  assume a: "definitions_step catalog t pending = Ok pending'"
  show ?thesis
  proof (cases vt)
    case (VObject decls)
    then show ?thesis using a TypeRef field_size[of _ _ decls]
      by (intro exI[of _ "rev (map (\<lambda>(_, field). field_type field) decls)"])
         (fastforce simp: definitions_step_def less_Suc_eq)
  qed (use a TypeRef in \<open>auto simp: definitions_step_def split: if_splits option.splits\<close>)
qed

function definitions_loop :: "value_contract_catalog \<Rightarrow> type_ref list \<Rightarrow> (unit, value_contract_error) result" where
  "definitions_loop catalog [] = Ok ()"
| "definitions_loop catalog (t # pending) = res_bind (definitions_step catalog t pending) (definitions_loop catalog)"
  by pat_completeness auto
termination
proof (relation "inv_image (smaller_worklist size) snd", goal_cases)
  case (2 catalog t pending pending')
  then obtain new where "pending' = new @ pending" "\<forall>w \<in> set new. size w < size t"
    using definitions_step_new by blast
  then show ?case by (auto intro!: smaller_worklistI)
qed (simp add: wf_smaller_worklist)

definition field_types :: "contract_field btree_map \<Rightarrow> type_ref list" where
  "field_types decls = map (\<lambda>(_, field). field_type field) decls"

definition validate_definitions :: "value_contract_catalog \<Rightarrow> (unit, value_contract_error) result" where
  "validate_definitions catalog =
     definitions_loop catalog
       (rev (field_types (roots catalog) @ concat (map (\<lambda>(_, object). field_types (object_fields object)) (named_objects catalog))))"

section \<open>Assignability\<close>

fun assign_declared ::
  "contract_field btree_map \<Rightarrow> contract_field btree_map \<Rightarrow> (type_ref \<times> type_ref) list \<Rightarrow> (type_ref \<times> type_ref) list option" where
  "assign_declared [] source pending = Some pending"
| "assign_declared ((name, target_field) # target) source pending =
     (case map_of source name of
        None \<Rightarrow> None
      | Some source_field \<Rightarrow>
          if required target_field \<noteq> required source_field then None
          else assign_declared target source ((field_type target_field, field_type source_field) # pending))"

definition fields_assignable ::
  "contract_field btree_map \<Rightarrow> contract_field btree_map \<Rightarrow> (type_ref \<times> type_ref) list \<Rightarrow> (type_ref \<times> type_ref) list option" where
  "fields_assignable target source pending =
     (if length target \<noteq> length source then None else assign_declared target source pending)"

text \<open>One turn of the loop: the names of references seen so far and the work list, or refusal.\<close>

definition assign_step ::
  "value_contract_catalog \<Rightarrow> value_contract_catalog \<Rightarrow> (string \<times> string) list \<Rightarrow> type_ref \<Rightarrow> type_ref \<Rightarrow>
   (type_ref \<times> type_ref) list \<Rightarrow> ((string \<times> string) list \<times> (type_ref \<times> type_ref) list) option" where
  "assign_step self source visited target actual pending =
     (if tr_nullable target \<noteq> tr_nullable actual then None
      else case value_type target of
        VScalar s \<Rightarrow>
          if s = SJson \<or> value_type actual = VScalar s then Some (visited, pending) else None
      | VEnum name symbols \<Rightarrow> if value_type actual = VEnum name symbols then Some (visited, pending) else None
      | VList element \<Rightarrow>
          (case value_type actual of
             VList actual_element \<Rightarrow> Some (visited, (element, actual_element) # pending)
           | _ \<Rightarrow> None)
      | VObject decls \<Rightarrow>
          (case value_type actual of
             VObject actual_decls \<Rightarrow> map_option (Pair visited) (fields_assignable decls actual_decls pending)
           | _ \<Rightarrow> None)
      | VRef name \<Rightarrow>
          if value_type actual \<noteq> VRef name then None
          else if (name, name) \<in> set visited then Some (visited, pending)
          else (case (bt_get (named_objects self) name, bt_get (named_objects source) name) of
                  (Some target_object, Some actual_object) \<Rightarrow>
                    map_option (Pair ((name, name) # visited))
                      (fields_assignable (object_fields target_object) (object_fields actual_object) pending)
                | _ \<Rightarrow> None))"

lemma assign_declared_new:
  "assign_declared target source pending = Some pending' \<Longrightarrow>
   \<exists>new. pending' = new @ pending \<and> (\<forall>(t, a) \<in> set new. \<exists>k f. (k, f) \<in> set target \<and> t = field_type f)"
proof (induction target arbitrary: pending)
  case (Cons d target)
  obtain name f where d: "d = (name, f)" by fastforce
  then obtain g where g: "map_of source name = Some g" "required f = required g"
    "assign_declared target source ((field_type f, field_type g) # pending) = Some pending'"
    using Cons.prems by (auto split: option.splits if_splits)
  then obtain new where new: "pending' = new @ (field_type f, field_type g) # pending"
    "\<forall>(t, a) \<in> set new. \<exists>k f. (k, f) \<in> set target \<and> t = field_type f"
    using Cons.IH by blast
  have "pending' = (new @ [(field_type f, field_type g)]) @ pending" using new(1) by simp
  moreover have "\<forall>(t, a) \<in> set (new @ [(field_type f, field_type g)]). \<exists>k f. (k, f) \<in> set (d # target) \<and> t = field_type f"
    using new(2) d by fastforce
  ultimately show ?case by blast
qed simp

lemma fields_assignable_new:
  assumes "fields_assignable target source pending = Some pending'"
  shows "\<exists>new. pending' = new @ pending \<and>
    (\<forall>(t, a) \<in> set new. size t < size_list (size_prod (\<lambda>_. 0) size) target)"
proof -
  obtain new where "pending' = new @ pending" "\<forall>(t, a) \<in> set new. \<exists>k f. (k, f) \<in> set target \<and> t = field_type f"
    using assign_declared_new[of target source pending pending'] assms by (auto simp: fields_assignable_def split: if_splits)
  then show ?thesis using field_size by (intro exI[of _ new]) fastforce
qed

text \<open>The references that can still be entered.\<close>

definition open_refs :: "value_contract_catalog \<Rightarrow> (string \<times> string) list \<Rightarrow> (string \<times> string) set" where
  "open_refs self visited = (\<lambda>n. (n, n)) ` set (bt_keys (named_objects self)) - set visited"

lemma assign_step_progress:
  assumes "assign_step self source visited t a pending = Some (visited', pending')"
  shows "visited' = visited \<and> (\<exists>new. pending' = new @ pending \<and> (\<forall>(x, _) \<in> set new. size x < size t)) \<or>
    card (open_refs self visited') < card (open_refs self visited)"
proof (cases "value_type t")
  case (VObject decls)
  then obtain n where t: "t = TypeRef n (VObject decls)" by (cases t) auto
  obtain actual where "visited' = visited" "fields_assignable decls actual pending = Some pending'"
    using assms VObject by (auto simp: assign_step_def split: if_splits value_type.splits)
  then show ?thesis using fields_assignable_new[of decls actual pending pending'] t by (fastforce simp: less_Suc_eq)
next
  case (VRef name)
  show ?thesis
  proof (cases "(name, name) \<in> set visited")
    case True
    then show ?thesis using assms VRef by (auto simp: assign_step_def split: if_splits)
  next
    case False
    then have v: "visited' = (name, name) # visited" "name \<in> set (bt_keys (named_objects self))"
      using assms VRef by (auto simp: assign_step_def map_of_eq_None_iff split: if_splits option.splits dest!: map_of_SomeD intro: rev_image_eqI)
    have "open_refs self visited' \<subset> open_refs self visited" using v False by (auto simp: open_refs_def)
    moreover have "finite (open_refs self visited)" by (simp add: open_refs_def)
    ultimately show ?thesis using psubset_card_mono by blast
  qed
next
  case (VList element)
  then obtain n where "t = TypeRef n (VList element)" by (cases t) auto
  then show ?thesis using assms VList
    by (auto simp: assign_step_def split: if_splits value_type.splits)
qed (use assms in \<open>auto simp: assign_step_def split: if_splits\<close>)

function assign_loop ::
  "value_contract_catalog \<Rightarrow> value_contract_catalog \<Rightarrow> (string \<times> string) list \<Rightarrow> (type_ref \<times> type_ref) list \<Rightarrow> bool" where
  "assign_loop self source visited [] = True"
| "assign_loop self source visited ((t, a) # pending) =
     (case assign_step self source visited t a pending of
        None \<Rightarrow> False
      | Some next \<Rightarrow> assign_loop self source (fst next) (snd next))"
  by pat_completeness auto
termination
proof (relation "inv_image (less_than <*lex*> smaller_worklist (size \<circ> fst))
    (\<lambda>(self, source, visited, pending). (card (open_refs self visited), pending))", goal_cases)
  case (2 self source visited t a pending nxt)
  obtain visited' pending' where nxt: "nxt = (visited', pending')" by fastforce
  from assign_step_progress[OF 2[unfolded nxt]] show ?case by (auto simp: nxt intro!: smaller_worklistI)
qed (intro wf_inv_image wf_lex_prod wf_less_than wf_smaller_worklist)

fun assign_objects ::
  "value_object_contract btree_map \<Rightarrow> value_object_contract btree_map \<Rightarrow> (type_ref \<times> type_ref) list \<Rightarrow>
   (type_ref \<times> type_ref) list option" where
  "assign_objects [] source pending = Some pending"
| "assign_objects ((name, target_object) # target) source pending =
     (case map_of source name of
        None \<Rightarrow> None
      | Some source_object \<Rightarrow>
          Option.bind (fields_assignable (object_fields target_object) (object_fields source_object) pending)
            (assign_objects target source))"

definition is_assignable_from :: "value_contract_catalog \<Rightarrow> value_contract_catalog \<Rightarrow> bool" where
  "is_assignable_from self source \<longleftrightarrow>
     validate_definitions self = Ok () \<and> validate_definitions source = Ok () \<and>
     (case fields_assignable (roots self) (roots source) [] of
        None \<Rightarrow> False
      | Some pending \<Rightarrow>
          length (named_objects self) = length (named_objects source) \<and>
          (case assign_objects (named_objects self) (named_objects source) pending of
             None \<Rightarrow> False
           | Some pending \<Rightarrow> assign_loop self source [] pending))"

section \<open>Canonical size\<close>

definition checked_add :: "nat \<Rightarrow> nat \<Rightarrow> (nat, value_contract_error) result" where
  "checked_add acc additional = (if acc + additional \<le> u64_max then Ok (acc + additional) else Err SizeOverflow)"

definition add_canonical_size :: "nat \<Rightarrow> nat \<Rightarrow> (nat, value_contract_error) result" where
  "add_canonical_size acc additional =
     res_bind (checked_add acc additional) (\<lambda>acc.
       if acc > MAXIMUM_CANONICAL_BYTES then Err (LimitExceeded ''canonical bytes'') else Ok acc)"

definition jcs_char_size :: "string \<Rightarrow> nat" where
  "jcs_char_size ch =
     (if ch \<in> {[CHR 0x22], [CHR 0x5C], [CHR 0x08], [CHR 0x09], [CHR 0x0A], [CHR 0x0C], [CHR 0x0D]} then 2
      else if length ch = 1 \<and> byte_of (hd ch) < (32 :: nat) then 6
      else length ch)"

fun jcs_loop :: "nat \<Rightarrow> string list \<Rightarrow> (nat, value_contract_error) result" where
  "jcs_loop acc [] = Ok acc"
| "jcs_loop acc (ch # chs) = res_bind (checked_add acc (jcs_char_size ch)) (\<lambda>acc. jcs_loop acc chs)"

definition jcs_string_size :: "string \<Rightarrow> (nat, value_contract_error) result" where
  "jcs_string_size s = jcs_loop 2 (chars s)"

fun unsigned_decimal_size :: "nat \<Rightarrow> nat" where
  "unsigned_decimal_size n = (if n \<ge> 10 then Suc (unsigned_decimal_size (n div 10)) else 1)"

declare unsigned_decimal_size.simps [simp del]

definition signed_decimal_size :: "int \<Rightarrow> nat" where
  "signed_decimal_size n = unsigned_decimal_size (nat \<bar>n\<bar>) + (if n < 0 then 1 else 0)"

definition base64url_unpadded_size :: "nat \<Rightarrow> (nat, value_contract_error) result" where
  "base64url_unpadded_size decoded =
     res_bind (if decoded div 3 * 4 \<le> u64_max then Ok (decoded div 3 * 4) else Err SizeOverflow) (\<lambda>complete.
       checked_add complete ([0, 2, 3] ! (decoded mod 3)))"

text \<open>A sequence of \<open>checked_add\<close>s, each with an amount that may fail to be computed.\<close>

fun add_all :: "nat \<Rightarrow> (nat, value_contract_error) result list \<Rightarrow> (nat, value_contract_error) result" where
  "add_all acc [] = Ok acc"
| "add_all acc (amount # amounts) =
     res_bind amount (\<lambda>additional. res_bind (checked_add acc additional) (\<lambda>acc. add_all acc amounts))"

definition binary_canonical_size :: "bounded_inline_bytes \<Rightarrow> (nat, value_contract_error) result" where
  "binary_canonical_size b =
     add_all 2
       ([jcs_string_size ''$binary'', Ok 1, Ok 2, base64url_unpadded_size (length (ib_bytes b)), Ok 1] @
        (case ib_file_name b of
           None \<Rightarrow> []
         | Some file_name \<Rightarrow> [jcs_string_size ''file_name'', Ok 1, jcs_string_size file_name, Ok 1]) @
        [jcs_string_size ''media_type'', Ok 1, jcs_string_size (ib_media_type b)])"

record size_state =
  ss_size :: nat
  ss_inline :: nat
  ss_decoded :: nat

definition grow :: "size_state \<Rightarrow> nat \<Rightarrow> (size_state, value_contract_error) result" where
  "grow st additional = res_map (\<lambda>acc. st\<lparr>ss_size := acc\<rparr>) (add_canonical_size (ss_size st) additional)"

fun grow_members :: "size_state \<Rightarrow> (string \<times> typed_value) list \<Rightarrow> (size_state, value_contract_error) result" where
  "grow_members st [] = Ok st"
| "grow_members st ((name, v) # members) =
     res_bind (jcs_string_size name) (\<lambda>n.
     res_bind (grow st n) (\<lambda>st.
     res_bind (grow st 1) (\<lambda>st. grow_members st members)))"

definition grow_inline :: "size_state \<Rightarrow> bounded_inline_bytes \<Rightarrow> (size_state, value_contract_error) result" where
  "grow_inline st b =
     res_bind (checked_add (ss_inline st) 1) (\<lambda>inline_values.
       if inline_values > MAXIMUM_INLINE_VALUES then Err (LimitExceeded ''inline value count'')
       else res_bind (checked_add (ss_decoded st) (length (ib_bytes b))) (\<lambda>decoded_bytes.
         if decoded_bytes > MAXIMUM_DECODED_INLINE_BYTES then Err (LimitExceeded ''aggregate decoded inline bytes'')
         else res_bind (binary_canonical_size b) (\<lambda>n.
              grow (st\<lparr>ss_inline := inline_values, ss_decoded := decoded_bytes\<rparr>) n)))"

text \<open>What a value adds by itself, and the values it puts on the work list.\<close>

fun size_step :: "size_state \<Rightarrow> typed_value \<Rightarrow> (size_state, value_contract_error) result" where
  "size_step st CNull = grow st 4"
| "size_step st (CBoolean b) = grow st (if b then 4 else 5)"
| "size_step st (CString s) = res_bind (jcs_string_size s) (grow st)"
| "size_step st (CNumber (NI64 n)) = grow st (signed_decimal_size n)"
| "size_step st (CNumber (NU64 n)) = grow st (unsigned_decimal_size n)"
| "size_step st (CNumber (NDecimal s)) = grow st (length s)"
| "size_step st (CList vs) = res_bind (grow st 2) (\<lambda>st. grow st (length vs - 1))"
| "size_step st (CObject m) = res_bind (grow st 2) (\<lambda>st. res_bind (grow st (length m - 1)) (\<lambda>st. grow_members st m))"
| "size_step st (CInlineBytes b) = grow_inline st b"

fun parts_of :: "typed_value \<Rightarrow> typed_value list" where
  "parts_of (CList vs) = vs"
| "parts_of (CObject m) = map snd m"
| "parts_of _ = []"

lemma weight_parts: "weight (parts_of v) \<le> size v"
proof (cases v)
  case (CObject m)
  then show ?thesis using weight_members[of m] by simp
qed auto

function size_loop :: "size_state \<Rightarrow> typed_value list \<Rightarrow> (nat, value_contract_error) result" where
  "size_loop st [] = Ok (ss_size st)"
| "size_loop st (v # pending) = res_bind (size_step st v) (\<lambda>st. size_loop st (rev (parts_of v) @ pending))"
  by pat_completeness auto
termination
proof (relation "measure (weight \<circ> snd)", goal_cases)
  case (2 st v pending st')
  then show ?case using weight_parts[of v] by simp
qed simp

definition canonical_size :: "typed_value \<Rightarrow> (nat, value_contract_error) result" where
  "canonical_size v = size_loop \<lparr>ss_size = 0, ss_inline = 0, ss_decoded = 0\<rparr> [v]"

section \<open>Validation of a value\<close>

definition validate :: "value_contract_catalog \<Rightarrow> typed_value \<Rightarrow> (unit, value_contract_error) result" where
  "validate catalog v =
     res_bind (validate_definitions catalog) (\<lambda>_.
     res_bind (canonical_size v) (\<lambda>_.
       case v of
         CObject vs \<Rightarrow> res_bind (push_fields vs (roots catalog) []) (validate_loop catalog)
       | _ \<Rightarrow> Err (InvalidValue ''a value-contract catalog requires one root object'')))"

section \<open>The grammar of type references\<close>

text \<open>
  A type name, an exclamation mark for a type that is not nullable, and around it any number of
  brackets, each closed with an optional exclamation mark of its own, from the inside out.
\<close>

definition is_type_name :: "string \<Rightarrow> bool" where
  "is_type_name name \<longleftrightarrow> (case name of [] \<Rightarrow> False | c # cs \<Rightarrow> is_type_start c \<and> list_all is_name_byte cs)"

definition mark :: "bool \<Rightarrow> string" where
  "mark is_nullable = (if is_nullable then [] else ''!'')"

definition closings :: "bool list \<Rightarrow> string" where
  "closings marks = concat (map (\<lambda>b. '']'' @ mark b) marks)"

definition type_text :: "string \<Rightarrow> bool \<Rightarrow> bool list \<Rightarrow> string" where
  "type_text name is_nullable marks = replicate (length marks) CHR ''['' @ name @ mark is_nullable @ closings marks"

definition named_type :: "string \<Rightarrow> bool \<Rightarrow> bool list \<Rightarrow> type_ref" where
  "named_type name is_nullable marks =
     fold (\<lambda>b t. TypeRef b (VList t)) marks (TypeRef is_nullable (canonical_named_type name))"

lemma closings_simps [simp]: "closings [] = []" "closings (b # bs) = CHR '']'' # mark b @ closings bs"
  by (simp_all add: closings_def)

lemma closings_first: "take 1 (closings bs) \<noteq> ''!''" "take 1 (closings bs) \<noteq> ''[''"
  by (cases bs; simp)+

text \<open>Reading a mark before text that does not begin with one.\<close>

lemma bang_reads:
  assumes "bang source offset = (b, offset')"
  shows "drop offset source = mark b @ drop offset' source"
  using assms by (cases "drop offset source") (auto simp: bang_def mark_def drop_Suc drop_tl split: if_splits)

lemma bang_mark:
  assumes "drop offset source = mark b @ after" "take 1 after \<noteq> ''!''"
  shows "bang source offset = (b, offset + length (mark b))" "drop (offset + length (mark b)) source = after"
proof -
  show "drop (offset + length (mark b)) source = after"
    using assms(1) by (metis append_eq_conv_conj drop_drop add.commute)
  show "bang source offset = (b, offset + length (mark b))"
    using assms by (auto simp: bang_def mark_def)
qed

lemma bang_le: "offset \<le> length source \<Longrightarrow> bang source offset = (b, offset') \<Longrightarrow> offset' \<le> length source"
  by (cases "offset = length source") (auto simp: bang_def split: if_splits)

lemma close_lists_reads:
  "close_lists n source parsed offset = Ok (t, length source) \<Longrightarrow> offset \<le> length source \<Longrightarrow>
   \<exists>bs. length bs = n \<and> drop offset source = closings bs \<and> t = fold (\<lambda>b t. TypeRef b (VList t)) bs parsed"
proof (induction n source parsed offset rule: close_lists.induct)
  case (2 n source parsed offset)
  obtain b offset' where b: "bang source (offset + 1) = (b, offset')" by fastforce
  have bracket: "take 1 (drop offset source) = '']''" using "2.prems"(1) by (auto split: if_splits)
  then obtain after where after: "drop offset source = CHR '']'' # after" by (cases "drop offset source") auto
  then have "offset < length source" by (metis drop_all leI list.distinct(1))
  moreover have "after = drop (offset + 1) source" using after by (metis Suc_eq_plus1 drop_Suc list.sel(3) tl_drop)
  ultimately have offset: "offset + 1 \<le> length source" "drop offset source = CHR '']'' # drop (offset + 1) source"
    using after by simp_all
  obtain bs where "length bs = n" "drop offset' source = closings bs"
    "t = fold (\<lambda>b t. TypeRef b (VList t)) bs (TypeRef b (VList parsed))"
    using "2.IH"[OF _ b[symmetric] refl] "2.prems"(1) bracket b bang_le[OF offset(1) b] by auto
  then show ?case using offset(2) bang_reads[OF b] by (intro exI[of _ "b # bs"]) simp
qed auto

lemma close_lists_closings:
  "drop offset source = closings bs \<Longrightarrow> offset \<le> length source \<Longrightarrow>
   close_lists (length bs) source parsed offset = Ok (fold (\<lambda>b t. TypeRef b (VList t)) bs parsed, length source)"
proof (induction bs arbitrary: offset parsed)
  case (Cons b bs)
  have "drop (offset + 1) source = tl (drop offset source)" by (simp add: tl_drop drop_Suc)
  then have "drop (offset + 1) source = mark b @ closings bs" using Cons.prems(1) by simp
  note m = bang_mark[OF this closings_first(1)]
  have "drop offset source \<noteq> []" using Cons.prems(1) by simp
  then have "offset + 1 \<le> length source" by simp
  then have "offset + 1 + length (mark b) \<le> length source" using bang_le m(1) by blast
  then show ?case using Cons.IH[OF m(2)] m(1) Cons.prems(1) by simp
qed (simp add: le_antisym)

lemma named_not_closing: "is_name_byte c \<Longrightarrow> c \<noteq> CHR '']'' \<and> c \<noteq> CHR ''!''"
  by (auto simp: is_name_byte_def is_ascii_alphabetic_def is_ascii_digit_def)

lemma type_start_not_bracket: "is_type_start c \<Longrightarrow> c \<noteq> CHR ''[''"
  by (auto simp: is_type_start_def is_ascii_alphabetic_def)

lemma brackets_split: "s = replicate (length (takeWhile (\<lambda>c. c = a) s)) a @ drop (length (takeWhile (\<lambda>c. c = a) s)) s"
  by (induction s) auto

lemma takeWhile_brackets: "take 1 rest \<noteq> [a] \<Longrightarrow> takeWhile (\<lambda>c. c = a) (replicate n a @ rest) = replicate n a"
  by (induction n) (auto simp: takeWhile_eq_Nil_iff neq_Nil_conv)

lemma type_ref_parse_reads:
  assumes "type_ref_parse s = Ok t"
  shows "\<exists>name b marks. is_type_name name \<and> s = type_text name b marks \<and> t = named_type name b marks"
proof -
  define depth where "depth = length (takeWhile (\<lambda>c. c = CHR ''['') s)"
  obtain first after where body: "drop depth s = first # after" and start: "is_type_start first"
    using assms by (auto simp: type_ref_parse_def depth_def Let_def split: list.splits if_splits)
  define name where "name = first # takeWhile is_name_byte after"
  obtain b offset where b: "bang s (depth + length name) = (b, offset)" by fastforce
  have "bang s (Suc (depth + length (takeWhile is_name_byte after))) = (b, offset)" using b by (simp add: name_def)
  then have closed: "close_lists depth s (TypeRef b (canonical_named_type name)) offset = Ok (t, length s)"
    using assms body start by (auto simp: type_ref_parse_def depth_def[symmetric] name_def[symmetric] Let_def split: if_splits)
  have rest: "drop depth s = name @ drop (depth + length name) s"
    using body by (metis add.commute append_eq_conv_conj drop_drop name_def append_Cons takeWhile_dropWhile_id)
  then have "depth + length name \<le> length s"
    by (metis append_Nil2 body drop_all le_add_diff_inverse length_append length_drop linear list.distinct(1) nat_add_left_cancel_le le_add1)
  from close_lists_reads[OF closed bang_le[OF this b]] obtain marks where marks: "length marks = depth"
    "drop offset s = closings marks" "t = named_type name b marks"
    by (auto simp: named_type_def)
  have "s = replicate depth CHR ''['' @ drop depth s" unfolding depth_def by (rule brackets_split)
  then have "s = type_text name b marks" using rest bang_reads[OF b] marks(1,2) by (simp add: type_text_def)
  moreover have "is_type_name name" using start by (auto simp: is_type_name_def name_def list_all_iff dest: set_takeWhileD)
  ultimately show ?thesis using marks(3) by blast
qed

lemma type_ref_parse_text:
  assumes "is_type_name name"
  shows "type_ref_parse (type_text name b marks) = Ok (named_type name b marks)"
proof -
  let ?s = "type_text name b marks" and ?n = "length marks"
  let ?rest = "mark b @ closings marks"
  obtain c cs where name: "name = c # cs" "is_type_start c" "list_all is_name_byte cs"
    using assms by (auto simp: is_type_name_def split: list.splits)
  have depth: "takeWhile (\<lambda>c. c = CHR ''['') ?s = replicate ?n CHR ''[''"
    using name type_start_not_bracket by (auto simp: type_text_def intro!: takeWhile_brackets)
  have "takeWhile is_name_byte ?rest = []"
    using named_not_closing by (cases marks) (auto simp: mark_def)
  then have word: "takeWhile is_name_byte (cs @ ?rest) = cs"
    using name(3) by (simp add: takeWhile_append2 list_all_iff)
  have body: "drop ?n ?s = c # cs @ ?rest" by (simp add: type_text_def name(1))
  have rest: "drop (?n + length name) ?s = ?rest" by (simp add: type_text_def)
  note m = bang_mark[OF rest closings_first(1)]
  have "?n + length name + length (mark b) \<le> length ?s" by (simp add: type_text_def)
  from close_lists_closings[OF m(2) this] show ?thesis
    using m(1) body depth word name(1,2) by (simp add: type_ref_parse_def Let_def named_type_def)
qed

text \<open>
  (C40) The parser of type references accepts exactly the strings of this grammar and returns the type
  that the string denotes: marks, nesting and the spellings of the scalar types.
\<close>

theorem type_references_follow_their_grammar:
  "type_ref_parse s = Ok t \<longleftrightarrow>
   (\<exists>name is_nullable marks. is_type_name name \<and> s = type_text name is_nullable marks \<and> t = named_type name is_nullable marks)"
  using type_ref_parse_reads type_ref_parse_text by blast

end
