(* ===== verification/Value_Size.thy ===== *)
theory Value_Size
  imports Value_Contract
begin

text \<open>
  The size of canonical JSON (\<open>canonical_size\<close> of \<open>crates/value-contract/src/lib.rs\<close>) against the text
  itself: a printer of canonical JSON, base64url included, whose length is what the code computes.
\<close>

section \<open>The canonical text\<close>

text \<open>
  What \<open>canonical_size\<close> counts: the compact JSON text of a value, with inline bytes written as an
  object of their base64url encoding, their file name and their media type.
\<close>

definition base64url_char :: "nat \<Rightarrow> char" where
  "base64url_char n =
     (if n < 26 then char_of (65 + n)
      else if n < 52 then char_of (97 + (n - 26))
      else if n < 62 then char_of (48 + (n - 52))
      else if n = 62 then CHR ''-'' else CHR ''_'')"

fun base64url_text :: "string \<Rightarrow> string" where
  "base64url_text (a # b # c # bytes) =
     (let n = (byte_of a * 256 + byte_of b) * 256 + byte_of c in
      map base64url_char [n div 262144, n div 4096 mod 64, n div 64 mod 64, n mod 64] @ base64url_text bytes)"
| "base64url_text [a, b] =
     (let n = (byte_of a * 256 + byte_of b) * 4 in map base64url_char [n div 4096, n div 64 mod 64, n mod 64])"
| "base64url_text [a] = (let n = byte_of a * 16 in map base64url_char [n div 64, n mod 64])"
| "base64url_text [] = []"

definition quoted_member :: "string \<Rightarrow> string \<Rightarrow> string" where
  "quoted_member name written = quote_text name @ '':'' @ written"

definition inline_text :: "bounded_inline_bytes \<Rightarrow> string" where
  "inline_text b =
     ''{'' @ commas
       ([quoted_member ''$binary'' ([CHR 0x22] @ base64url_text (ib_bytes b) @ [CHR 0x22])] @
        (case ib_file_name b of None \<Rightarrow> [] | Some file_name \<Rightarrow> [quoted_member ''file_name'' (quote_text file_name)]) @
        [quoted_member ''media_type'' (quote_text (ib_media_type b))]) @ ''}''"

fun canonical_text :: "typed_value \<Rightarrow> string" where
  "canonical_text CNull = ''null''"
| "canonical_text (CBoolean b) = (if b then ''true'' else ''false'')"
| "canonical_text (CString s) = quote_text s"
| "canonical_text (CNumber (NI64 n)) = int_to_string n"
| "canonical_text (CNumber (NU64 n)) = nat_to_string n"
| "canonical_text (CNumber (NDecimal s)) = s"
| "canonical_text (CList vs) = ''['' @ commas (map canonical_text vs) @ '']''"
| "canonical_text (CObject m) = ''{'' @ commas (map (\<lambda>(k, v). quoted_member k (canonical_text v)) m) @ ''}''"
| "canonical_text (CInlineBytes b) = inline_text b"

text \<open>The inline values of a value and the bytes they decode to.\<close>

fun inline_values :: "typed_value \<Rightarrow> bounded_inline_bytes list" where
  "inline_values (CList vs) = concat (map inline_values vs)"
| "inline_values (CObject m) = concat (map (\<lambda>(k, v). inline_values v) m)"
| "inline_values (CInlineBytes b) = [b]"
| "inline_values _ = []"

abbreviation decoded_total :: "bounded_inline_bytes list \<Rightarrow> nat" where
  "decoded_total bs \<equiv> sum_list (map (length \<circ> ib_bytes) bs)"

text \<open>A Rust string: an ASCII byte is a character of its own.\<close>

definition well_encoded :: "string \<Rightarrow> bool" where
  "well_encoded s \<longleftrightarrow> list_all (\<lambda>ch. byte_of (hd ch) < (128 :: nat) \<longrightarrow> length ch = 1) (chars s)"

definition inline_encoded :: "bounded_inline_bytes \<Rightarrow> bool" where
  "inline_encoded b \<longleftrightarrow> well_encoded (ib_media_type b) \<and> (case ib_file_name b of None \<Rightarrow> True | Some s \<Rightarrow> well_encoded s)"

fun value_encoded :: "typed_value \<Rightarrow> bool" where
  "value_encoded (CString s) \<longleftrightarrow> well_encoded s"
| "value_encoded (CList vs) \<longleftrightarrow> list_all value_encoded vs"
| "value_encoded (CObject m) \<longleftrightarrow> list_all (\<lambda>(k, v). well_encoded k \<and> value_encoded v) m"
| "value_encoded (CInlineBytes b) \<longleftrightarrow> inline_encoded b"
| "value_encoded _ \<longleftrightarrow> True"

section \<open>Sizes of the parts\<close>

lemma checked_add_Ok: "checked_add acc k = Ok n \<longleftrightarrow> n = acc + k \<and> n \<le> u64_max"
  by (auto simp: checked_add_def)

lemma escape_char_high:
  assumes "128 \<le> (byte_of c :: nat)"
  shows "escape_char c = [c]"
proof -
  have "c \<noteq> CHR 0x22" "c \<noteq> CHR 0x5C" "c \<noteq> CHR 0x08" "c \<noteq> CHR 0x09" "c \<noteq> CHR 0x0A" "c \<noteq> CHR 0x0C" "c \<noteq> CHR 0x0D"
    using assms by auto
  then show ?thesis using assms unfolding escape_char_def by (simp only: if_False linorder_not_less[symmetric]) simp
qed

lemma escaped_high: "list_all (\<lambda>c. 128 \<le> (byte_of c :: nat)) s \<Longrightarrow> concat (map escape_char s) = s"
  by (induction s) (simp_all add: escape_char_high)

lemma chars_shape: "ch \<in> set (chars s) \<Longrightarrow> ch \<noteq> [] \<and> list_all is_continuation (tl ch)"
  by (induction s rule: chars.induct) (auto simp: list_all_iff dest: set_takeWhileD)

lemma jcs_char_size_escaped:
  assumes "ch \<in> set (chars s)" "byte_of (hd ch) < (128 :: nat) \<longrightarrow> length ch = 1"
  shows "jcs_char_size ch = length (concat (map escape_char ch))"
proof (cases "byte_of (hd ch) < (128 :: nat)")
  case True
  then obtain c where "ch = [c]" using assms(2) by (auto simp: length_Suc_conv)
  then show ?thesis by (simp add: jcs_char_size_def escape_char_def)
next
  case False
  then obtain c cs where ch: "ch = c # cs" "128 \<le> (byte_of c :: nat)" "list_all is_continuation cs"
    using chars_shape[OF assms(1)] by (cases ch) auto
  then have "list_all (\<lambda>c. 128 \<le> (byte_of c :: nat)) ch" by (auto simp: list_all_iff is_continuation_def)
  moreover have "jcs_char_size ch = length ch" using ch by (auto simp: jcs_char_size_def)
  ultimately show ?thesis by (simp add: escaped_high)
qed

lemma jcs_loop_Ok:
  "acc \<le> u64_max \<Longrightarrow> jcs_loop acc chs = Ok n \<longleftrightarrow> n = acc + sum_list (map jcs_char_size chs) \<and> n \<le> u64_max"
  by (induction acc chs rule: jcs_loop.induct) (auto simp: res_bind_Ok checked_add_Ok)

lemma escaped_concat: "concat (map escape_char (concat chs)) = concat (map (\<lambda>ch. concat (map escape_char ch)) chs)"
  by (induction chs) auto

lemma jcs_string_size_Ok:
  assumes "well_encoded s"
  shows "jcs_string_size s = Ok n \<longleftrightarrow> n = length (quote_text s) \<and> n \<le> u64_max"
proof -
  have "map jcs_char_size (chars s) = map (\<lambda>ch. length (concat (map escape_char ch))) (chars s)"
    using assms jcs_char_size_escaped by (auto simp: well_encoded_def list_all_iff)
  then have "sum_list (map jcs_char_size (chars s)) = length (concat (map (\<lambda>ch. concat (map escape_char ch)) (chars s)))"
    by (simp only: length_concat map_map comp_def)
  also have "\<dots> = length (concat (map escape_char s))" using escaped_concat[of "chars s"] by simp
  finally have "sum_list (map jcs_char_size (chars s)) = length (concat (map escape_char s))" .
  then show ?thesis by (simp add: jcs_string_size_def jcs_loop_Ok quote_text_def)
qed

lemma unsigned_decimal_size_text: "unsigned_decimal_size n = length (nat_to_string n)"
  by (induction n rule: unsigned_decimal_size.induct)
     (subst unsigned_decimal_size.simps, subst nat_to_string.simps, simp)

lemma signed_decimal_size_text: "signed_decimal_size n = length (int_to_string n)"
  by (simp add: signed_decimal_size_def int_to_string_def unsigned_decimal_size_text)

lemma length_base64url: "length (base64url_text s) = length s div 3 * 4 + [0, 2, 3] ! (length s mod 3)"
proof (induction s rule: base64url_text.induct)
  case (1 a b c bytes)
  have "(3 + length bytes) div 3 = Suc (length bytes div 3)" by simp
  then show ?case using 1 by (simp add: Let_def)
qed (simp_all add: Let_def)

lemma base64url_unpadded_size_Ok:
  "base64url_unpadded_size (length s) = Ok n \<longleftrightarrow> n = length (base64url_text s) \<and> n \<le> u64_max"
  by (auto simp: base64url_unpadded_size_def res_bind_Ok checked_add_Ok length_base64url split: if_splits)

section \<open>The size is the length of the text\<close>

lemma length_commas: "length (commas ss) = sum_list (map length ss) + (length ss - 1)"
  by (induction ss rule: commas.induct) auto

lemma well_encoded_literals:
  "well_encoded ''$binary''" "well_encoded ''file_name''" "well_encoded ''media_type''"
  by (simp_all add: well_encoded_def is_continuation_def)

lemma binary_canonical_size_Ok:
  assumes "inline_encoded b"
  shows "binary_canonical_size b = Ok n \<longleftrightarrow> n = length (inline_text b) \<and> n \<le> u64_max"
  using assms
  by (cases "ib_file_name b")
     (auto simp: binary_canonical_size_def res_bind_Ok checked_add_Ok jcs_string_size_Ok well_encoded_literals
       base64url_unpadded_size_Ok inline_text_def quoted_member_def inline_encoded_def)

lemma grow_Ok:
  "grow st k = Ok st' \<longleftrightarrow> st' = st\<lparr>ss_size := ss_size st + k\<rparr> \<and> ss_size st + k \<le> MAXIMUM_CANONICAL_BYTES"
  by (auto simp: grow_def add_canonical_size_def res_bind_Ok res_map_Ok checked_add_Ok MAXIMUM_CANONICAL_BYTES_def split: if_splits)

text \<open>What a value contributes by itself, next to the values inside it.\<close>

fun own_size :: "typed_value \<Rightarrow> nat" where
  "own_size (CList vs) = 2 + (length vs - 1)"
| "own_size (CObject m) = 2 + (length m - 1) + sum_list (map (\<lambda>(k, v). length (quote_text k) + 1) m)"
| "own_size v = length (canonical_text v)"

fun own_inline :: "typed_value \<Rightarrow> bounded_inline_bytes list" where
  "own_inline (CInlineBytes b) = [b]"
| "own_inline _ = []"

abbreviation text_sizes :: "typed_value list \<Rightarrow> nat" where
  "text_sizes vs \<equiv> sum_list (map (length \<circ> canonical_text) vs)"

lemma member_sizes:
  "sum_list (map (\<lambda>(k, v). length (quoted_member k (canonical_text v))) m) =
   sum_list (map (\<lambda>(k, v). length (quote_text k) + 1) m) + text_sizes (map snd m)"
  by (induction m) (auto simp: quoted_member_def)

lemma text_parts: "length (canonical_text v) = own_size v + text_sizes (parts_of v)"
  by (cases v) (simp_all add: length_commas comp_def split_def member_sizes[unfolded split_def comp_def])

lemma inline_parts: "inline_values v = own_inline v @ concat (map inline_values (parts_of v))"
  by (cases v) (simp_all add: comp_def split_def)

lemma encoded_parts: "value_encoded v \<Longrightarrow> list_all value_encoded (parts_of v)"
  by (cases v) (auto simp: list_all_iff)

definition within_limits :: "size_state \<Rightarrow> bool" where
  "within_limits st \<longleftrightarrow>
     ss_size st \<le> MAXIMUM_CANONICAL_BYTES \<and> ss_inline st \<le> MAXIMUM_INLINE_VALUES \<and>
     ss_decoded st \<le> MAXIMUM_DECODED_INLINE_BYTES"

definition grown :: "size_state \<Rightarrow> nat \<Rightarrow> bounded_inline_bytes list \<Rightarrow> size_state" where
  "grown st k bs =
     \<lparr>ss_size = ss_size st + k, ss_inline = ss_inline st + length bs, ss_decoded = ss_decoded st + decoded_total bs\<rparr>"

lemma decoded_concat: "decoded_total (concat bss) = sum_list (map decoded_total bss)"
  by (induction bss) auto

lemma grown_grown: "grown (grown st k bs) k' bs' = grown st (k + k') (bs @ bs')"
  by (simp add: grown_def)

lemma within_grown: "within_limits (grown st k bs) \<Longrightarrow> within_limits st"
  by (simp add: grown_def within_limits_def)

lemma grow_grown: "within_limits st \<Longrightarrow> grow st k = Ok st' \<longleftrightarrow> st' = grown st k [] \<and> within_limits st'"
  by (auto simp: grow_Ok grown_def within_limits_def)

lemma grow_then:
  "within_limits st \<Longrightarrow>
   res_bind (grow st k) f = Ok y \<longleftrightarrow> within_limits (grown st k []) \<and> f (grown st k []) = Ok y"
  by (auto simp: grow_grown)

lemma quoted_then:
  "within_limits st \<Longrightarrow> well_encoded s \<Longrightarrow>
   res_bind (jcs_string_size s) (\<lambda>n. res_bind (grow st n) f) = Ok y \<longleftrightarrow>
   within_limits (grown st (length (quote_text s)) []) \<and> f (grown st (length (quote_text s)) []) = Ok y"
  by (auto simp: jcs_string_size_Ok grow_grown)
     (auto simp: within_limits_def grown_def MAXIMUM_CANONICAL_BYTES_def)

lemma grown_zero [simp]: "grown st 0 [] = st"
  by (simp add: grown_def)

lemma grow_members_Ok:
  "within_limits st \<Longrightarrow> list_all (\<lambda>(k, v). well_encoded k) m \<Longrightarrow>
   grow_members st m = Ok st' \<longleftrightarrow>
   st' = grown st (sum_list (map (\<lambda>(k, v). length (quote_text k) + 1) m)) [] \<and> within_limits st'"
proof (induction m arbitrary: st)
  case (Cons p m)
  obtain name v where p: "p = (name, v)" by fastforce
  let ?s = "grown st (length (quote_text name)) []"
  have "grow_members st (p # m) = Ok st' \<longleftrightarrow>
    within_limits (grown ?s 1 []) \<and> grow_members (grown ?s 1 []) m = Ok st'"
    using Cons.prems p within_grown[of ?s 1 "[]"] by (auto simp del: res_bind_Ok simp: quoted_then grow_then cong: conj_cong)
  also have "\<dots> \<longleftrightarrow> within_limits (grown ?s 1 []) \<and> within_limits st' \<and>
      st' = grown st (sum_list (map (\<lambda>(k, v). length (quote_text k) + 1) (p # m))) []"
    using Cons p by (auto simp: grown_grown)
  also have "\<dots> \<longleftrightarrow> st' = grown st (sum_list (map (\<lambda>(k, v). length (quote_text k) + 1) (p # m))) [] \<and> within_limits st'"
    using p within_grown[of "grown ?s 1 []" "sum_list (map (\<lambda>(k, v). length (quote_text k) + 1) m)" "[]"]
    by (auto simp: grown_grown)
  finally show ?case .
qed auto

lemma grow_inline_Ok:
  assumes "within_limits st" "inline_encoded b"
  shows "grow_inline st b = Ok st' \<longleftrightarrow> st' = grown st (length (inline_text b)) [b] \<and> within_limits st'"
proof -
  have "grow_inline st b = Ok st' \<longleftrightarrow> ss_inline st + 1 \<le> MAXIMUM_INLINE_VALUES \<and>
    ss_decoded st + length (ib_bytes b) \<le> MAXIMUM_DECODED_INLINE_BYTES \<and>
    grow (st\<lparr>ss_inline := ss_inline st + 1, ss_decoded := ss_decoded st + length (ib_bytes b)\<rparr>) (length (inline_text b)) = Ok st'"
    using assms
    by (auto simp: grow_inline_def checked_add_Ok binary_canonical_size_Ok within_limits_def grow_Ok
        MAXIMUM_CANONICAL_BYTES_def MAXIMUM_INLINE_VALUES_def MAXIMUM_DECODED_INLINE_BYTES_def split: if_splits)
  then show ?thesis by (auto simp: grow_Ok grown_def within_limits_def)
qed

lemma size_step_Ok:
  assumes "within_limits st" "value_encoded v"
  shows "size_step st v = Ok st' \<longleftrightarrow> st' = grown st (own_size v) (own_inline v) \<and> within_limits st'"
proof (cases v)
  case (CString s)
  then show ?thesis using assms quoted_then[of st s Ok st'] by auto
next
  case (CNumber n)
  then show ?thesis using assms
    by (cases n) (auto simp: grow_grown signed_decimal_size_text unsigned_decimal_size_text)
next
  case (CList vs)
  let ?s = "grown st 2 []"
  have "size_step st v = Ok st' \<longleftrightarrow> within_limits ?s \<and> st' = grown ?s (length vs - 1) [] \<and> within_limits st'"
    using assms(1) CList by (simp del: res_bind_Ok add: grow_then grow_grown cong: conj_cong)
  then show ?thesis using CList within_grown[of ?s "length vs - 1" "[]"] by (auto simp: grown_grown)
next
  case (CObject m)
  let ?s = "grown st 2 []"
  let ?t = "grown ?s (length m - 1) []"
  let ?k = "sum_list (map (\<lambda>(k, v). length (quote_text k) + 1) m)"
  have "list_all (\<lambda>(k, v). well_encoded k) m" using assms(2) CObject by (auto simp: list_all_iff)
  then have "size_step st v = Ok st' \<longleftrightarrow> within_limits ?s \<and> within_limits ?t \<and> st' = grown ?t ?k [] \<and> within_limits st'"
    using assms(1) CObject by (simp del: res_bind_Ok add: grow_then grow_members_Ok cong: conj_cong)
  then show ?thesis using CObject within_grown[of ?s "length m - 1" "[]"] within_grown[of ?t ?k "[]"]
    by (auto simp: grown_grown add.assoc)
next
  case (CInlineBytes b)
  then show ?thesis using assms by (simp add: grow_inline_Ok)
qed (use assms in \<open>auto simp: grow_grown eval_nat_numeral\<close>)

lemma size_loop_Ok:
  "within_limits st \<Longrightarrow> list_all value_encoded pending \<Longrightarrow>
   size_loop st pending = Ok n \<longleftrightarrow>
   within_limits (grown st (text_sizes pending) (concat (map inline_values pending))) \<and> n = ss_size st + text_sizes pending"
proof (induction st pending arbitrary: n rule: size_loop.induct)
  case (1 st)
  then show ?case by auto
next
  case (2 st v pending)
  let ?st = "grown st (own_size v) (own_inline v)"
  let ?rest = "rev (parts_of v) @ pending"
  let ?final = "grown st (text_sizes (v # pending)) (concat (map inline_values (v # pending)))"
  have sums: "sum_list (map f (rev (parts_of v))) = sum_list (map f (parts_of v))" for f :: "typed_value \<Rightarrow> nat"
    by (metis rev_map sum_list_rev)
  have same: "grown ?st (text_sizes ?rest) (concat (map inline_values ?rest)) = ?final"
    by (simp add: grown_def text_parts[of v] inline_parts[of v] length_concat decoded_concat[unfolded comp_def] sums comp_def)
  have rest: "list_all value_encoded ?rest" using "2.prems"(2) encoded_parts[of v] by (auto simp: list_all_iff)
  have step: "size_step st v = Ok st' \<longleftrightarrow> st' = ?st \<and> within_limits ?st" for st'
    using size_step_Ok[OF "2.prems"(1), of v st'] "2.prems"(2) by auto
  have loop: "size_loop ?st ?rest = Ok n \<longleftrightarrow> within_limits ?final \<and> n = ss_size ?st + text_sizes ?rest" if "within_limits ?st"
    using "2.IH"[OF _ that rest, of n] step[of ?st] that unfolding same by blast
  have "size_loop st (v # pending) = Ok n \<longleftrightarrow> within_limits ?st \<and> size_loop ?st ?rest = Ok n"
    using step by auto
  also have "\<dots> \<longleftrightarrow> within_limits ?st \<and> within_limits ?final \<and> n = ss_size ?st + text_sizes ?rest"
    using loop by blast
  also have "\<dots> \<longleftrightarrow> within_limits ?final \<and> n = ss_size st + text_sizes (v # pending)"
  proof -
    have "ss_size ?st + text_sizes ?rest = ss_size st + text_sizes (v # pending)"
      by (simp add: grown_def text_parts[of v] sums)
    moreover have "within_limits ?final \<Longrightarrow> within_limits ?st"
      using within_grown[of ?st "text_sizes ?rest" "concat (map inline_values ?rest)"] unfolding same .
    ultimately show ?thesis by auto
  qed
  finally show ?case .
qed

lemma canonical_size_Ok:
  assumes "value_encoded v"
  shows "canonical_size v = Ok n \<longleftrightarrow>
    n = length (canonical_text v) \<and> n \<le> MAXIMUM_CANONICAL_BYTES \<and>
    length (inline_values v) \<le> MAXIMUM_INLINE_VALUES \<and> decoded_total (inline_values v) \<le> MAXIMUM_DECODED_INLINE_BYTES"
  using assms size_loop_Ok[of "\<lparr>ss_size = 0, ss_inline = 0, ss_decoded = 0\<rparr>" "[v]" n]
  by (auto simp: canonical_size_def within_limits_def grown_def)

text \<open>
  (C39) The size that is computed without writing the value out is the length of its canonical JSON
  text, in which inline bytes stand in unpadded base64url, and it is returned exactly when the text
  has at most 262144 bytes, with at most 16 inline values of together at most 131072 bytes; no sum
  on the way overflows.
\<close>

theorem canonical_size_measures_text:
  assumes "value_encoded v"
  shows "canonical_size v = Ok n \<longleftrightarrow>
    n = length (canonical_text v) \<and> n \<le> MAXIMUM_CANONICAL_BYTES \<and>
    length (inline_values v) \<le> MAXIMUM_INLINE_VALUES \<and>
    sum_list (map (length \<circ> ib_bytes) (inline_values v)) \<le> MAXIMUM_DECODED_INLINE_BYTES"
  using assms by (rule canonical_size_Ok)

definition sample_file :: typed_value where
  "sample_file =
     CObject [(''file'', CInlineBytes \<lparr>ib_bytes = ''hello'', ib_media_type = ''text/plain'', ib_file_name = None\<rparr>)]"

theorem canonical_size_measures_text_witness: "canonical_size sample_file = Ok 56"
proof -
  have "value_encoded sample_file"
    by (simp add: sample_file_def inline_encoded_def well_encoded_def is_continuation_def)
  moreover have "length (canonical_text sample_file) = 56"
    by (simp add: sample_file_def inline_text_def quoted_member_def quote_text_def escape_char_def Let_def)
  ultimately show ?thesis
    using canonical_size_measures_text[of sample_file 56]
    by (simp add: sample_file_def MAXIMUM_CANONICAL_BYTES_def MAXIMUM_INLINE_VALUES_def MAXIMUM_DECODED_INLINE_BYTES_def)
qed

end
