(* ===== verification/Value_Conformance.thy ===== *)
theory Value_Conformance
  imports Value_Size
begin

text \<open>
  What validation and assignability of value contracts mean: a recursive definition of conformance
  that the work list of \<open>validate\<close> decides, compatibility of types as \<open>is_assignable_from\<close> checks it, and
  the soundness of the latter for the former.
\<close>

text \<open>
  What validation and assignability mean. A value conforms to a type by recursion on the value;
  validation with its work list decides exactly conformance, and a catalog that is assignable from
  another accepts every value the other accepts.
\<close>

section \<open>Conformance\<close>

lemma member_value_size: "map_of vs name = Some w \<Longrightarrow> size w < size (CObject vs)"
  using member_size[of name w vs] by (auto dest: map_of_SomeD)

function value_conforms :: "value_contract_catalog \<Rightarrow> typed_value \<Rightarrow> type_ref \<Rightarrow> bool"
  and members_conform :: "value_contract_catalog \<Rightarrow> (string \<times> typed_value) list \<Rightarrow> contract_field btree_map \<Rightarrow> bool" where
  "value_conforms catalog v t \<longleftrightarrow>
     (if v = CNull then tr_nullable t
      else case value_type t of
        VScalar scalar \<Rightarrow> scalar_matches scalar v
      | VEnum name symbols \<Rightarrow> (case v of CString symbol \<Rightarrow> symbol \<in> set symbols | _ \<Rightarrow> False)
      | VObject decls \<Rightarrow> (case v of CObject vs \<Rightarrow> members_conform catalog vs decls | _ \<Rightarrow> False)
      | VList element \<Rightarrow> (case v of CList vs \<Rightarrow> list_all (\<lambda>w. value_conforms catalog w element) vs | _ \<Rightarrow> False)
      | VRef name \<Rightarrow>
          (case (bt_get (named_objects catalog) name, v) of
             (Some object, CObject vs) \<Rightarrow> members_conform catalog vs (object_fields object)
           | _ \<Rightarrow> False))"
| "members_conform catalog vs decls \<longleftrightarrow>
     list_all (\<lambda>(name, v). bt_contains decls name) vs \<and>
     list_all (\<lambda>(name, field).
       case map_of vs name of
         Some w \<Rightarrow> value_conforms catalog w (field_type field)
       | None \<Rightarrow> \<not> required field) decls"
  by pat_completeness auto
termination
  by (relation "measure (\<lambda>x. case x of Inl (_, v, _) \<Rightarrow> 2 * size v | Inr (_, vs, _) \<Rightarrow> 2 * size (CObject vs) - 1)")
     (auto dest: item_size dest!: map_of_SomeD member_size)

declare value_conforms.simps [simp del] members_conform.simps [simp del]

section \<open>Validation decides conformance\<close>

lemma unknown_field_None: "unknown_field vs decls = None \<longleftrightarrow> list_all (\<lambda>(name, v). bt_contains decls name) vs"
  by (induction vs decls rule: unknown_field.induct) auto

text \<open>A loop over the pushed items succeeds exactly if it does on each of them.\<close>

definition all_conform :: "value_contract_catalog \<Rightarrow> (typed_value \<times> type_ref) list \<Rightarrow> bool" where
  "all_conform catalog pending \<longleftrightarrow> list_all (\<lambda>(v, t). value_conforms catalog v t) pending"

lemma push_declared_conform:
  "(case push_declared vs decls pending of Ok pending' \<Rightarrow> all_conform catalog pending' | Err e \<Rightarrow> False) \<longleftrightarrow>
   all_conform catalog pending \<and>
   list_all (\<lambda>(name, field).
       case map_of vs name of
         Some w \<Rightarrow> value_conforms catalog w (field_type field)
       | None \<Rightarrow> \<not> required field) decls"
proof (induction decls arbitrary: pending)
  case (Cons d decls)
  obtain name field where "d = (name, field)" by fastforce
  then show ?case using Cons by (cases "map_of vs name") (auto simp: all_conform_def)
qed simp

lemma push_fields_conform:
  "(case push_fields vs decls pending of Ok pending' \<Rightarrow> all_conform catalog pending' | Err e \<Rightarrow> False) \<longleftrightarrow>
   all_conform catalog pending \<and> members_conform catalog vs decls"
  using push_declared_conform[of catalog vs decls pending] unknown_field_None[of vs decls]
  by (auto simp: push_fields_def members_conform.simps split: option.splits)

lemma validate_step_conform:
  "(case validate_step catalog v t pending of Ok pending' \<Rightarrow> all_conform catalog pending' | Err e \<Rightarrow> False) \<longleftrightarrow>
   all_conform catalog pending \<and> value_conforms catalog v t"
proof (cases "v = CNull")
  case True
  then show ?thesis by (simp add: validate_step_def value_conforms.simps)
next
  case False
  show ?thesis
  proof (cases "value_type t")
    case (VScalar s)
    then show ?thesis using False by (simp add: validate_step_def value_conforms.simps validate_scalar_def)
  next
    case (VEnum name symbols)
    then show ?thesis using False by (cases v) (simp_all add: validate_step_def value_conforms.simps)
  next
    case (VObject decls)
    then show ?thesis using False push_fields_conform[of catalog _ decls pending]
      by (cases v) (simp_all add: validate_step_def value_conforms.simps)
  next
    case (VList element)
    then show ?thesis using False
      by (cases v) (auto simp: validate_step_def value_conforms.simps[of catalog "CList _"] all_conform_def list_all_iff value_conforms.simps)
  next
    case (VRef name)
    then show ?thesis using False push_fields_conform[of catalog _ _ pending]
      by (cases "bt_get (named_objects catalog) name"; cases v) (simp_all add: validate_step_def value_conforms.simps)
  qed
qed

lemma validate_loop_conform: "validate_loop catalog pending = Ok () \<longleftrightarrow> all_conform catalog pending"
proof (induction catalog pending rule: validate_loop.induct)
  case (2 catalog v t pending)
  show ?case
  proof (cases "validate_step catalog v t pending")
    case (Ok pending')
    then show ?thesis using 2 validate_step_conform[of catalog v t pending] by (auto simp: all_conform_def)
  next
    case (Err e)
    then show ?thesis using validate_step_conform[of catalog v t pending] by (auto simp: all_conform_def)
  qed
qed (simp add: all_conform_def)

lemma validate_conform:
  "validate catalog v = Ok () \<longleftrightarrow>
     validate_definitions catalog = Ok () \<and> (\<exists>n. canonical_size v = Ok n) \<and>
     (\<exists>vs. v = CObject vs \<and> members_conform catalog vs (roots catalog))"
proof -
  have "(\<exists>p. push_fields vs (roots catalog) [] = Ok p \<and> validate_loop catalog p = Ok ()) \<longleftrightarrow>
      members_conform catalog vs (roots catalog)" for vs
    using push_fields_conform[of catalog vs "roots catalog" "[]"]
    by (auto simp: validate_loop_conform all_conform_def split: result.splits)
  then show ?thesis by (cases v) (auto simp: validate_def)
qed

section \<open>Compatible types\<close>

text \<open>Every value of the second type is one of the first: the relation the loop of assignability checks.\<close>

function compatible :: "type_ref \<Rightarrow> type_ref \<Rightarrow> bool"
  and fields_compatible :: "contract_field btree_map \<Rightarrow> contract_field btree_map \<Rightarrow> bool" where
  "compatible t a \<longleftrightarrow> tr_nullable t = tr_nullable a \<and>
     (case value_type t of
        VScalar s \<Rightarrow> s = SJson \<or> value_type a = VScalar s
      | VEnum name symbols \<Rightarrow> value_type a = VEnum name symbols
      | VList e \<Rightarrow> (case value_type a of VList e' \<Rightarrow> compatible e e' | _ \<Rightarrow> False)
      | VObject ds \<Rightarrow> (case value_type a of VObject ds' \<Rightarrow> fields_compatible ds ds' | _ \<Rightarrow> False)
      | VRef name \<Rightarrow> value_type a = VRef name)"
| "fields_compatible ds ds' \<longleftrightarrow> length ds = length ds' \<and>
     list_all (\<lambda>(name, f).
       case map_of ds' name of
         None \<Rightarrow> False
       | Some g \<Rightarrow> required f = required g \<and> compatible (field_type f) (field_type g)) ds"
  by pat_completeness auto
termination
proof (relation "measure (\<lambda>x. case x of Inl (t, _) \<Rightarrow> size t
    | Inr (ds, _) \<Rightarrow> size_list (size_prod (\<lambda>_. 0) size) ds)", goal_cases)
  case (2 t a e e')
  then show ?case by (cases t) auto
next
  case (3 t a ds ds')
  then show ?case by (cases t) auto
next
  case (4 ds ds' d name f g)
  then show ?case using field_size[of name f ds] by auto
qed auto

declare compatible.simps [simp del] fields_compatible.simps [simp del]

definition all_compatible :: "(type_ref \<times> type_ref) list \<Rightarrow> bool" where
  "all_compatible pending \<longleftrightarrow> list_all (\<lambda>(t, a). compatible t a) pending"

lemma assign_declared_compatible:
  "assign_declared ds ds' pending = Some pending' \<Longrightarrow> all_compatible pending' \<Longrightarrow>
   all_compatible pending \<and>
   list_all (\<lambda>(name, f).
       case map_of ds' name of
         None \<Rightarrow> False
       | Some g \<Rightarrow> required f = required g \<and> compatible (field_type f) (field_type g)) ds"
proof (induction ds arbitrary: pending)
  case (Cons d ds)
  obtain name f where d: "d = (name, f)" by fastforce
  then obtain g where g: "map_of ds' name = Some g" "required f = required g"
    "assign_declared ds ds' ((field_type f, field_type g) # pending) = Some pending'"
    using Cons.prems by (auto split: option.splits if_splits)
  then show ?case using Cons.IH[OF g(3) Cons.prems(2)] d by (simp add: all_compatible_def)
qed simp

lemma fields_assignable_compatible:
  assumes "fields_assignable ds ds' pending = Some pending'" "all_compatible pending'"
  shows "all_compatible pending \<and> fields_compatible ds ds'"
  using assms assign_declared_compatible[of ds ds' pending pending']
  by (auto simp: fields_assignable_def fields_compatible.simps split: if_splits)

lemma assign_step_compatible:
  assumes "assign_step self source visited t a pending = Some (visited', pending')" "all_compatible pending'"
  shows "all_compatible pending \<and> compatible t a"
proof (cases "value_type t")
  case (VObject ds)
  then obtain ds' where "value_type a = VObject ds'" "fields_assignable ds ds' pending = Some pending'" "tr_nullable t = tr_nullable a"
    using assms(1) by (auto simp: assign_step_def split: if_splits value_type.splits)
  then show ?thesis using VObject fields_assignable_compatible[OF _ assms(2)] by (simp add: compatible.simps[of t])
next
  case (VRef name)
  then show ?thesis using assms fields_assignable_compatible[OF _ assms(2), of _ _ pending]
    by (auto simp: assign_step_def compatible.simps[of t] split: if_splits option.splits)
next
  case (VList e)
  then show ?thesis using assms
    by (auto simp: assign_step_def compatible.simps[of t] all_compatible_def split: if_splits value_type.splits)
qed (use assms in \<open>auto simp: assign_step_def compatible.simps[of t] split: if_splits\<close>)

lemma assign_loop_compatible: "assign_loop self source visited pending \<Longrightarrow> all_compatible pending"
proof (induction self source visited pending rule: assign_loop.induct)
  case (2 self source visited t a pending)
  then obtain visited' pending' where s: "assign_step self source visited t a pending = Some (visited', pending')"
    by (auto split: option.splits)
  then have "all_compatible pending'" using 2 by simp
  then show ?case using assign_step_compatible[OF s] by (simp add: all_compatible_def)
qed (simp add: all_compatible_def)

lemma assign_objects_compatible:
  "assign_objects target source pending = Some pending' \<Longrightarrow> all_compatible pending' \<Longrightarrow>
   all_compatible pending \<and>
   list_all (\<lambda>(name, object). \<exists>object'. map_of source name = Some object' \<and>
     fields_compatible (object_fields object) (object_fields object')) target"
proof (induction target arbitrary: pending)
  case (Cons d target)
  obtain name object where d: "d = (name, object)" by fastforce
  then obtain object' p where o: "map_of source name = Some object'"
    "fields_assignable (object_fields object) (object_fields object') pending = Some p"
    "assign_objects target source p = Some pending'"
    using Cons.prems by (auto split: option.splits Option.bind_splits)
  then show ?case
    using Cons.IH[OF o(3) Cons.prems(2)] fields_assignable_compatible[OF o(2)] d by simp
qed simp

lemma assignable_compatible:
  assumes "is_assignable_from self source"
  shows "validate_definitions self = Ok ()" "fields_compatible (roots self) (roots source)"
    "bt_get (named_objects self) name = Some object \<Longrightarrow>
     \<exists>object'. bt_get (named_objects source) name = Some object' \<and>
       fields_compatible (object_fields object) (object_fields object')"
proof -
  obtain p p' where p: "fields_assignable (roots self) (roots source) [] = Some p"
    "assign_objects (named_objects self) (named_objects source) p = Some p'" "assign_loop self source [] p'"
    using assms by (auto simp: is_assignable_from_def split: option.splits)
  have objs: "all_compatible p \<and> list_all (\<lambda>(name, object). \<exists>object'. map_of (named_objects source) name = Some object' \<and>
     fields_compatible (object_fields object) (object_fields object')) (named_objects self)"
    using assign_objects_compatible[OF p(2) assign_loop_compatible[OF p(3)]] .
  show "validate_definitions self = Ok ()" using assms by (simp add: is_assignable_from_def)
  show "fields_compatible (roots self) (roots source)" using fields_assignable_compatible[OF p(1)] objs by blast
  show "\<exists>object'. bt_get (named_objects source) name = Some object' \<and>
       fields_compatible (object_fields object) (object_fields object')" if "bt_get (named_objects self) name = Some object"
    using objs map_of_SomeD[OF that] by (auto simp: list_all_iff)
qed

lemma in_keys: "name \<in> set (bt_keys m) \<longleftrightarrow> (\<exists>v. bt_get m name = Some v)"
  by (metis map_of_eq_None_iff not_None_eq set_map)

text \<open>Maps of the same length, one with all the names of the other.\<close>

lemma same_keys:
  assumes "length m = length m'" "distinct (bt_keys m)" "distinct (bt_keys m')" "set (bt_keys m) \<subseteq> set (bt_keys m')"
  shows "set (bt_keys m) = set (bt_keys m')"
proof (rule card_subset_eq)
  show "card (set (bt_keys m)) = card (set (bt_keys m'))"
    using assms(1-3) distinct_card[of "bt_keys m"] distinct_card[of "bt_keys m'"] by simp
qed (use assms(4) in auto)

lemma assignable_names:
  assumes "is_assignable_from self source" "distinct (bt_keys (named_objects self))" "distinct (bt_keys (named_objects source))"
    "bt_get (named_objects source) name = Some object'"
  shows "\<exists>object. bt_get (named_objects self) name = Some object"
proof -
  have "set (bt_keys (named_objects self)) = set (bt_keys (named_objects source))"
  proof (rule same_keys[OF _ assms(2,3)])
    show "length (named_objects self) = length (named_objects source)"
      using assms(1) by (auto simp: is_assignable_from_def split: option.splits)
    show "set (bt_keys (named_objects self)) \<subseteq> set (bt_keys (named_objects source))"
      using assignable_compatible(3)[OF assms(1)] unfolding subset_iff in_keys by blast
  qed
  then show ?thesis using assms(4) in_keys[of name] by metis
qed

section \<open>Well-formed maps\<close>

text \<open>A \<open>BTreeMap\<close> has distinct keys: in types, in catalogs and in the objects of a value.\<close>

fun distinct_type :: "type_ref \<Rightarrow> bool" and distinct_value_type :: "value_type \<Rightarrow> bool" and distinct_field :: "contract_field \<Rightarrow> bool" where
  "distinct_type (TypeRef n vt) \<longleftrightarrow> distinct_value_type vt"
| "distinct_value_type (VObject ds) \<longleftrightarrow> distinct (map fst ds) \<and> list_all (\<lambda>(k, f). distinct_field f) ds"
| "distinct_value_type (VList t) \<longleftrightarrow> distinct_type t"
| "distinct_value_type _ \<longleftrightarrow> True"
| "distinct_field (ContractField r t) \<longleftrightarrow> distinct_type t"

definition distinct_fields :: "contract_field btree_map \<Rightarrow> bool" where
  "distinct_fields ds \<longleftrightarrow> distinct (map fst ds) \<and> list_all (\<lambda>(k, f). distinct_field f) ds"

definition catalog_wf :: "value_contract_catalog \<Rightarrow> bool" where
  "catalog_wf catalog \<longleftrightarrow> distinct_fields (roots catalog) \<and> distinct (bt_keys (named_objects catalog)) \<and>
     list_all (\<lambda>(k, object). distinct_fields (object_fields object)) (named_objects catalog)"

section \<open>Soundness of assignability\<close>

fun inline_free :: "typed_value \<Rightarrow> bool" where
  "inline_free (CList vs) \<longleftrightarrow> list_all inline_free vs"
| "inline_free (CObject m) \<longleftrightarrow> list_all (\<lambda>(k, v). inline_free v) m"
| "inline_free (CInlineBytes b) \<longleftrightarrow> False"
| "inline_free _ \<longleftrightarrow> True"

lemma json_shape_loop_inline: "json_shape_loop pending \<longleftrightarrow> list_all inline_free pending"
  by (induction pending rule: json_shape_loop.induct) (auto simp: list_all_iff split_def)

lemma valid_json_shape_inline: "valid_json_shape v \<longleftrightarrow> inline_free v"
  by (simp add: valid_json_shape_def json_shape_loop_inline)

lemma scalar_inline: "scalar_matches s v \<Longrightarrow> inline_free v"
  by (cases s; cases v) (auto simp: valid_json_shape_inline)

text \<open>No type admits inline bytes, so a value that conforms to some type is a JSON value.\<close>

lemma conforms_inline:
  "value_conforms catalog v t \<Longrightarrow> distinct_keys v \<Longrightarrow> inline_free v"
  "members_conform catalog vs decls \<Longrightarrow> distinct_keys (CObject vs) \<Longrightarrow> inline_free (CObject vs)"
proof (induction catalog v t and catalog vs decls rule: value_conforms_members_conform.induct)
  case (1 catalog v t)
  show ?case
  proof (cases "value_type t")
    case (VScalar s)
    then show ?thesis using "1.prems"(1) scalar_inline by (cases "v = CNull") (auto simp: value_conforms.simps[of catalog v])
  next
    case (VEnum n ss)
    then show ?thesis using "1.prems"(1) by (cases v) (auto simp: value_conforms.simps[of catalog _ t])
  next
    case (VObject ds)
    then show ?thesis using "1.IH"(1) "1.prems" by (cases v) (auto simp: value_conforms.simps[of catalog _ t])
  next
    case (VList e)
    then show ?thesis using "1.IH"(2) "1.prems" by (cases v) (auto simp: value_conforms.simps[of catalog _ t] list_all_iff)
  next
    case (VRef name)
    then show ?thesis using "1.IH"(3) "1.prems" by (cases v) (auto simp: value_conforms.simps[of catalog _ t] split: option.splits)
  qed
next
  case (2 catalog vs decls)
  have "inline_free v" if kv: "(k, v) \<in> set vs" for k v
  proof -
    have v: "map_of vs k = Some v" "distinct_keys v" using 2(3) kv by (auto simp: list_all_iff)
    obtain f where f: "(k, f) \<in> set decls"
      using 2(2) kv by (auto simp: members_conform.simps list_all_iff bt_contains_def dest!: map_of_SomeD)
    then have "value_conforms catalog v (field_type f)" using 2(2) v(1) by (auto simp: members_conform.simps list_all_iff)
    then show ?thesis using 2(1)[OF f refl v(1)] v(2) by simp
  qed
  then show ?case by (auto simp: list_all_iff)
qed

lemma fields_compatible_keys:
  assumes "fields_compatible ds ds'" "distinct (map fst ds)" "distinct (map fst ds')"
  shows "set (map fst ds) = set (map fst ds')"
proof (rule same_keys[OF _ assms(2,3)])
  show "length ds = length ds'" using assms(1) by (simp add: fields_compatible.simps)
  show "set (map fst ds) \<subseteq> set (map fst ds')"
  proof
    fix name assume "name \<in> set (map fst ds)"
    then obtain f where "(name, f) \<in> set ds" by auto
    then obtain g where "map_of ds' name = Some g"
      using assms(1) by (fastforce simp: fields_compatible.simps list_all_iff split: option.splits)
    then show "name \<in> set (map fst ds')" by (force dest: map_of_SomeD)
  qed
qed

lemma compatible_members:
  assumes "members_conform source vs ds'" "fields_compatible ds ds'" "distinct_fields ds" "distinct_fields ds'"
    and member: "\<And>name w f g. map_of vs name = Some w \<Longrightarrow> (name, f) \<in> set ds \<Longrightarrow> (name, g) \<in> set ds' \<Longrightarrow>
      compatible (field_type f) (field_type g) \<Longrightarrow> value_conforms source w (field_type g) \<Longrightarrow> value_conforms self w (field_type f)"
  shows "members_conform self vs ds"
proof -
  have keys: "set (map fst ds) = set (map fst ds')"
    using fields_compatible_keys[OF assms(2)] assms(3,4) by (simp add: distinct_fields_def)
  have "case map_of vs name of Some w \<Rightarrow> value_conforms self w (field_type f) | None \<Rightarrow> \<not> required f" if f: "(name, f) \<in> set ds" for name f
  proof -
    obtain g where g: "map_of ds' name = Some g" "required f = required g" "compatible (field_type f) (field_type g)"
      using assms(2) f by (auto simp: fields_compatible.simps list_all_iff split: option.splits)
    have "case map_of vs name of Some w \<Rightarrow> value_conforms source w (field_type g) | None \<Rightarrow> \<not> required g"
      using assms(1) map_of_SomeD[OF g(1)] by (auto simp: members_conform.simps list_all_iff)
    then show ?thesis using g member[OF _ f map_of_SomeD[OF g(1)]] by (auto split: option.splits)
  qed
  moreover have "bt_contains ds name" if "(name, v) \<in> set vs" for name v
  proof -
    have "bt_contains ds' name" using assms(1) that by (auto simp: members_conform.simps list_all_iff)
    then show ?thesis using in_keys[of name ds'] in_keys[of name ds] keys by (simp only: bt_contains_def) blast
  qed
  ultimately show ?thesis by (auto simp: members_conform.simps list_all_iff)
qed

text \<open>The situation the soundness theorem is about: one catalog accepts another, and both are maps.\<close>

definition assignable :: "value_contract_catalog \<Rightarrow> value_contract_catalog \<Rightarrow> bool" where
  "assignable self source \<longleftrightarrow> is_assignable_from self source \<and> catalog_wf self \<and> catalog_wf source"

lemma members_accepted:
  assumes "members_conform source vs ds'" "fields_compatible ds ds'" "distinct_fields ds" "distinct_fields ds'"
    and IH: "\<And>w t a. size w < size (CObject vs) \<Longrightarrow> distinct_keys w \<Longrightarrow> value_conforms source w a \<Longrightarrow> compatible t a \<Longrightarrow>
      distinct_type t \<Longrightarrow> distinct_type a \<Longrightarrow> value_conforms self w t"
    and "distinct_keys (CObject vs)"
  shows "members_conform self vs ds"
proof (rule compatible_members[OF assms(1-4)])
  fix name w f g
  assume w: "map_of vs name = Some w" and fg: "(name, f) \<in> set ds" "(name, g) \<in> set ds'"
    and c: "compatible (field_type f) (field_type g)" "value_conforms source w (field_type g)"
  have "distinct_type (field_type f)" "distinct_type (field_type g)"
    using fg assms(3,4) by (cases f; cases g; force simp: distinct_fields_def list_all_iff)+
  moreover have "distinct_keys w" using assms(6) map_of_SomeD[OF w] by (auto simp: list_all_iff)
  ultimately show "value_conforms self w (field_type f)" using IH[OF member_value_size[OF w]] c by blast
qed

lemma named_distinct:
  "catalog_wf self \<Longrightarrow> bt_get (named_objects self) name = Some ob \<Longrightarrow> distinct_fields (object_fields ob)"
  by (auto simp: catalog_wf_def list_all_iff dest!: map_of_SomeD)

lemma value_accepted:
  assumes "assignable self source"
  shows "distinct_keys v \<Longrightarrow> value_conforms source v a \<Longrightarrow> compatible t a \<Longrightarrow> distinct_type t \<Longrightarrow> distinct_type a \<Longrightarrow> value_conforms self v t"
proof (induction v arbitrary: t a rule: measure_induct_rule[of size])
  case (less v)
  have accepts: "is_assignable_from self source" and wf: "catalog_wf self" "catalog_wf source"
    using assms by (simp_all add: assignable_def)
  have n: "tr_nullable t = tr_nullable a" using less.prems(3) by (simp add: compatible.simps)
  show ?case
  proof (cases "v = CNull")
    case True
    then show ?thesis using less.prems(2) n by (simp add: value_conforms.simps)
  next
    case notnull: False
    show ?thesis
    proof (cases "value_type t")
      case (VScalar s)
      then show ?thesis
        using less.prems(1-3) notnull conforms_inline(1)[OF less.prems(2,1)]
        by (auto simp: value_conforms.simps[of _ v] compatible.simps[of t] valid_json_shape_inline)
    next
      case (VEnum name symbols)
      then show ?thesis using less.prems(2,3) notnull by (auto simp: value_conforms.simps[of _ v] compatible.simps[of t])
    next
      case (VObject ds)
      then obtain ds' where ds': "value_type a = VObject ds'" "fields_compatible ds ds'"
        using less.prems(3) by (auto simp: compatible.simps[of t] split: value_type.splits)
      then obtain vs where vs: "v = CObject vs" "members_conform source vs ds'"
        using less.prems(2) notnull by (auto simp: value_conforms.simps[of _ v] split: typed_value.splits)
      have "distinct_fields ds" "distinct_fields ds'"
        using less.prems(4,5) VObject ds' by (cases t; cases a; auto simp: distinct_fields_def)+
      then have "members_conform self vs ds"
        using members_accepted[OF vs(2) ds'(2)] less.IH less.prems(1) vs(1) by blast
      then show ?thesis using VObject vs(1) by (simp add: value_conforms.simps)
    next
      case (VList e)
      then obtain e' where e': "value_type a = VList e'" "compatible e e'"
        using less.prems(3) by (auto simp: compatible.simps[of t] split: value_type.splits)
      then obtain vs where vs: "v = CList vs" "list_all (\<lambda>w. value_conforms source w e') vs"
        using less.prems(2) notnull by (auto simp: value_conforms.simps[of _ v] split: typed_value.splits)
      have "distinct_type e" "distinct_type e'" using less.prems(4,5) VList e' by (cases t; cases a; auto)+
      then have "value_conforms self w e" if "w \<in> set vs" for w
        using less.IH[of w e' e] that vs e'(2) less.prems(1) item_size[OF that] by (auto simp: list_all_iff)
      then show ?thesis using VList vs(1) by (simp add: value_conforms.simps[of self "CList vs" t] list_all_iff)
    next
      case (VRef name)
      then have a: "value_type a = VRef name" using less.prems(3) by (simp add: compatible.simps[of t])
      then obtain vs ob' where vs: "v = CObject vs" "bt_get (named_objects source) name = Some ob'"
        "members_conform source vs (object_fields ob')"
        using less.prems(2) notnull by (auto simp: value_conforms.simps[of _ v] split: option.splits typed_value.splits)
      obtain ob where ob: "bt_get (named_objects self) name = Some ob"
        using assignable_names[OF accepts _ _ vs(2)] wf by (auto simp: catalog_wf_def)
      then have "fields_compatible (object_fields ob) (object_fields ob')"
        using assignable_compatible(3)[OF accepts ob] vs(2) by auto
      then have "members_conform self vs (object_fields ob)"
        using members_accepted[OF vs(3)] named_distinct[OF wf(1) ob] named_distinct[OF wf(2) vs(2)] less.IH less.prems(1) vs(1)
        by blast
      then show ?thesis using VRef vs(1) ob by (simp add: value_conforms.simps)
    qed
  qed
qed

lemma root_accepted:
  assumes "assignable self source" "distinct_keys (CObject vs)" "members_conform source vs (roots source)"
  shows "members_conform self vs (roots self)"
  using members_accepted[OF assms(3) assignable_compatible(2)] value_accepted[OF assms(1)] assms(1,2)
  by (auto simp: assignable_def catalog_wf_def)

section \<open>What the contracts guarantee\<close>

lemma inline_free_values: "inline_free v \<Longrightarrow> inline_values v = []"
  by (induction v) (auto simp: list_all_iff)

lemma conforming_inline_values:
  "members_conform catalog vs decls \<Longrightarrow> distinct_keys (CObject vs) \<Longrightarrow> inline_values (CObject vs) = []"
  using conforms_inline(2) inline_free_values by blast

text \<open>A catalog of a recursive object type, and one that takes any JSON for its label.\<close>

definition sample_catalog :: "value_type \<Rightarrow> value_contract_catalog" where
  "sample_catalog label =
     \<lparr>roots = [(''tree'', ContractField True (TypeRef False (VRef ''Tree'')))],
      named_objects = [(''Tree'', \<lparr>object_fields =
        [(''label'', ContractField True (TypeRef False label)),
         (''parts'', ContractField False (TypeRef False (VList (TypeRef True (VRef ''Tree'')))))]\<rparr>)]\<rparr>"

definition sample_value :: typed_value where
  "sample_value =
     CObject [(''tree'', CObject
       [(''label'', CString ''2024-02-29''),
        (''parts'', CList [CNull, CObject [(''label'', CString ''1999-12-31'')]])])]"

lemma sample_definitions: "validate_definitions (sample_catalog (VScalar SDate)) = Ok ()"
  by code_simp

lemma sample_size: "length (canonical_text sample_value) \<le> MAXIMUM_CANONICAL_BYTES"
  by (simp add: sample_value_def quoted_member_def quote_text_def escape_char_def MAXIMUM_CANONICAL_BYTES_def)

lemma sample_encoded: "value_encoded sample_value" "distinct_keys sample_value" "inline_values sample_value = []"
  by (simp_all add: sample_value_def well_encoded_def is_continuation_def)

lemma sample_conforms:
  "\<exists>vs. sample_value = CObject vs \<and> members_conform (sample_catalog (VScalar SDate)) vs (roots (sample_catalog (VScalar SDate)))"
  by (simp add: sample_value_def sample_catalog_def members_conform.simps value_conforms.simps bt_contains_def valid_date_bytes_def
      decimal_digits_def is_ascii_digit_def)

lemma sample_valid: "validate (sample_catalog (VScalar SDate)) sample_value = Ok ()"
  using sample_definitions sample_size sample_encoded sample_conforms by (simp add: validate_conform canonical_size_Ok)

text \<open>
  (C38) Validation of a value against a catalog, a work list over the value and its types, accepts
  exactly the objects whose members conform to the declared types, recursively and through the named
  objects of a catalog whose definitions are valid, and whose canonical JSON text has at most 262144
  bytes.
\<close>

theorem validation_decides_conformance:
  assumes "distinct_keys v" "value_encoded v"
  shows "validate catalog v = Ok () \<longleftrightarrow>
    validate_definitions catalog = Ok () \<and> length (canonical_text v) \<le> MAXIMUM_CANONICAL_BYTES \<and>
    (\<exists>vs. v = CObject vs \<and> members_conform catalog vs (roots catalog))"
  using assms conforming_inline_values[of catalog _ "roots catalog"]
  by (auto simp: validate_conform canonical_size_Ok simp del: inline_values.simps distinct_keys.simps value_encoded.simps canonical_text.simps)

theorem validation_decides_conformance_witness:
  "validate (sample_catalog (VScalar SDate)) sample_value = Ok ()"
  using validation_decides_conformance[OF sample_encoded(2,1)] sample_definitions sample_size sample_conforms by blast

text \<open>
  (C37) Assignability is sound: when a catalog accepts another one, every value that is valid for the
  other is valid for it.
\<close>

theorem assignable_catalog_accepts:
  assumes "is_assignable_from self source" "catalog_wf self" "catalog_wf source" "distinct_keys v"
    "validate source v = Ok ()"
  shows "validate self v = Ok ()"
  using assms root_accepted[of self source] assignable_compatible(1)[OF assms(1)]
  by (auto simp: validate_conform assignable_def)

theorem assignable_catalog_accepts_witness:
  "validate (sample_catalog (VScalar SJson)) sample_value = Ok ()"
proof (rule assignable_catalog_accepts[of _ "sample_catalog (VScalar SDate)"])
  show "is_assignable_from (sample_catalog (VScalar SJson)) (sample_catalog (VScalar SDate))" by code_simp
  show "catalog_wf (sample_catalog (VScalar SJson))" "catalog_wf (sample_catalog (VScalar SDate))" by code_simp+
  show "distinct_keys sample_value" by (rule sample_encoded)
  show "validate (sample_catalog (VScalar SDate)) sample_value = Ok ()" by (rule sample_valid)
qed

end
