(* ===== verification/Plan_Error.thy ===== *)
theory Plan_Error
  imports Json
begin

text \<open>
  The error of the planner (\<open>PlanError\<close> of \<open>crates/schema/src/plan.rs\<close>), which the compiler of processes
  uses too, and the parts of its messages.
\<close>

record plan_error =
  pe_path :: string
  pe_code :: string
  pe_message :: string

definition validation :: "string \<Rightarrow> string \<Rightarrow> plan_error" where
  "validation path message = \<lparr>pe_path = path, pe_code = ''validation-failed'', pe_message = message\<rparr>"

definition ticked :: "string \<Rightarrow> string" where
  "ticked s = [CHR 0x60] @ s @ [CHR 0x60]"

definition at_index :: "string \<Rightarrow> nat \<Rightarrow> string" where
  "at_index path i = path @ ''['' @ nat_to_string i @ '']''"

end
