(* ===== verification/Process_Syntax.thy ===== *)
theory Process_Syntax
  imports Plan_Error
begin

text \<open>
  Durable processes as the metadata declares them (\<open>crates/metadata/src/types.rs\<close>): values, activities,
  states and the process itself, and the transitions a state can take
  (\<open>state_transitions\<close> of \<open>crates/processes/src/lib.rs\<close>).
\<close>

section \<open>Values\<close>

datatype process_value =
    PInput string "string option" bool
  | PState string string "string list option" "string option" bool
  | PItem string "string option"
  | PLiteral json
  | PActivityKey string "string option"
  | PActivityKeyForState string "string option"
  | PRun string
  | PWorkflowTime string
  | PSessionVariable string
  | PBoundedConcat "process_value list" nat nat
  | PBoundedFlatten process_value "string option" "(string \<times> string) list option" nat nat

type_synonym process_bindings = "process_value btree_map"

section \<open>Activities\<close>

datatype process_error_kind =
    Authentication | Transport | Timeout | Http429 | Http5xx | Validation | Permanent | Invariant | RetryExhausted

record process_error_route =
  er_kinds :: "process_error_kind list"
  er_next :: string

record process_error_routes =
  routes :: "process_error_route list"
  fallback_next :: string

record process_retry =
  retry_on :: "process_error_kind list"
  max_attempts :: nat
  initial_interval :: string
  max_interval :: string
  jitter :: string

record process_timeout =
  schedule_to_start :: string
  start_to_close :: string

record process_stable_activity_key =
  sk_run :: string
  sk_state :: string
  sk_item_key :: "string option"

record process_command_activity =
  ca_name :: string
  ca_run_as :: string
  ca_arguments :: process_bindings

record process_request_activity =
  ra_connector :: string
  ra_operation :: string
  ra_input :: process_bindings
  ra_idempotency_key :: "process_stable_activity_key option"
  ra_timeout :: process_timeout
  ra_retry :: process_retry
  ra_on_error :: "process_error_routes option"
  ra_at_most_once :: bool
  ra_on_ambiguous :: "string option"
  ra_template_pin :: "string option"

section \<open>States\<close>

record process_command_state =
  pc_name :: string
  pc_run_as :: string
  pc_arguments :: process_bindings
  pc_next :: string

record process_request_state =
  rs_connector :: string
  rs_operation :: string
  rs_input :: process_bindings
  rs_idempotency_key :: "process_stable_activity_key option"
  rs_timeout :: process_timeout
  rs_retry :: process_retry
  rs_next :: string
  rs_on_error :: "process_error_routes option"
  rs_at_most_once :: bool
  rs_on_ambiguous :: "string option"
  rs_template_pin :: "string option"

record process_when_case =
  wc_matches :: "json btree_map option"
  wc_rule :: "string option"
  wc_bindings :: process_bindings
  wc_next :: string

record process_when_state =
  when_cases :: "process_when_case list"
  when_default :: string
  decision_table :: "string option"
  when_input :: process_bindings

datatype process_deadline = DValue process_value | DDuration string

record process_signal_wait =
  sw_signal :: string
  sw_role :: string
  sw_verification :: string
  sw_persist_before_match :: bool
  sw_correlate :: process_bindings
  sw_deadline :: process_deadline
  sw_next :: string
  sw_on_timeout :: string

datatype process_webhook_guard_value = GEvent string | GProcess process_value

record process_webhook_guard =
  wg_rule :: string
  wg_bindings :: "process_webhook_guard_value btree_map"

record process_webhook_subscription =
  ws_connector :: string
  ws_trigger :: string
  ws_correlate :: process_bindings
  ws_guard :: "process_webhook_guard option"

record process_webhook_wait =
  webhook :: process_webhook_subscription
  ww_deadline :: process_deadline
  ww_next :: string
  ww_on_timeout :: string

record process_timer =
  pt_decision_table :: string
  pt_bindings :: process_bindings
  pt_output :: string

record process_timer_wait =
  timer :: process_timer
  tw_next :: string

datatype process_wait_state =
    WSignal process_signal_wait
  | WWebhook process_webhook_wait
  | WTimer process_timer_wait

record for_each_common =
  fe_input :: process_value
  fe_item_key :: string
  fe_max_items :: nat
  fe_max_concurrency :: nat
  fe_completion :: string
  fe_preserve_input :: bool
  fe_next :: string

datatype process_for_each_state =
    FCommand for_each_common process_command_activity
  | FRequest for_each_common process_request_activity

datatype process_state_operation =
    OCommand process_command_state
  | ORequest process_request_state
  | OWhen process_when_state
  | OWait process_wait_state
  | OForEach process_for_each_state
  | OOutput process_bindings
  | OFail string string

record process_state =
  state_id :: string
  operation :: process_state_operation

section \<open>Processes\<close>

datatype process_lifecycle = Active | Retired

record process_permission =
  pp_role :: string
  pp_owner_session_variable :: "string option"

record process_owner =
  po_type :: string
  po_capture :: process_value

record process_start =
  ps_command :: string
  ps_input :: "string btree_map"
  ps_idempotency_key :: string
  ps_process_key :: string

record process_field =
  pf_name :: string
  pf_type :: string

datatype process_idempotency_value = IdInput string | IdSessionVariable string

record process_idempotency =
  pi_key :: process_idempotency_value
  pi_scope :: "process_idempotency_value list"

record process_signal =
  sg_name :: string
  sg_role :: "string option"
  sg_correlation :: "string btree_map"
  sg_payload :: "string btree_map"

record process =
  p_name :: string
  p_version :: nat
  p_source :: string
  p_lifecycle :: process_lifecycle
  permissions :: "process_permission list"
  p_owner :: "process_owner option"
  p_start :: "process_start option"
  p_input :: "process_field list"
  p_output :: "process_field list"
  idempotency :: "process_idempotency option"
  signals :: "process_signal list"
  start_at :: string
  states :: "process_state list"

section \<open>Transitions\<close>

definition error_transitions :: "process_error_routes option \<Rightarrow> bool \<Rightarrow> (string \<times> bool) list" where
  "error_transitions declared output_available =
     (case declared of
        None \<Rightarrow> []
      | Some r \<Rightarrow> map (\<lambda>route. (er_next route, output_available)) (routes r) @ [(fallback_next r, output_available)])"

definition ambiguous_transition :: "string option \<Rightarrow> bool \<Rightarrow> (string \<times> bool) list" where
  "ambiguous_transition target output_available =
     (case target of None \<Rightarrow> [] | Some t \<Rightarrow> [(t, output_available)])"

definition state_transitions :: "process_state \<Rightarrow> (string \<times> bool) list" where
  "state_transitions state =
     (case operation state of
        OCommand c \<Rightarrow> [(pc_next c, True)]
      | ORequest r \<Rightarrow>
          [(rs_next r, True)] @ error_transitions (rs_on_error r) False @ ambiguous_transition (rs_on_ambiguous r) False
      | OWhen w \<Rightarrow> map (\<lambda>c. (wc_next c, True)) (when_cases w) @ [(when_default w, True)]
      | OWait (WSignal s) \<Rightarrow> [(sw_next s, True), (sw_on_timeout s, False)]
      | OWait (WWebhook w) \<Rightarrow> [(ww_next w, True), (ww_on_timeout w, False)]
      | OWait (WTimer t) \<Rightarrow> [(tw_next t, True)]
      | OForEach (FCommand c _) \<Rightarrow> [(fe_next c, True)]
      | OForEach (FRequest c r) \<Rightarrow>
          [(fe_next c, True)] @ error_transitions (ra_on_error r) True @ ambiguous_transition (ra_on_ambiguous r) True
      | OOutput _ \<Rightarrow> []
      | OFail _ _ \<Rightarrow> [])"

end
