(* ===== verification/Process_Types.thy ===== *)
theory Process_Types
  imports Rules_Types Value_Conformance Process_Syntax
begin

text \<open>
  The types of process values (\<open>crates/processes/src/lib.rs\<close>): construction, assignability and common
  types, translation of rule types, normalization of named types, the types of declared fields, and
  the JSON material from which fingerprints are computed. The declarations of the deployment that the
  trait \<open>ProcessDependencyCatalog\<close> gives access to are the parameter \<open>declared\<close>.
\<close>

section \<open>Construction\<close>

type_synonym declared_types = "string \<Rightarrow> rule_type option"

definition scalar_type :: "value_scalar \<Rightarrow> bool \<Rightarrow> type_ref" where
  "scalar_type scalar is_nullable = TypeRef is_nullable (VScalar scalar)"

definition list_type :: "type_ref \<Rightarrow> type_ref" where
  "list_type element = TypeRef False (VList element)"

definition required_field :: "type_ref \<Rightarrow> contract_field" where
  "required_field t = ContractField (\<not> tr_nullable t) t"

definition empty_contract :: value_contract_catalog where
  "empty_contract = \<lparr>roots = [], named_objects = []\<rparr>"

definition root_type :: "value_contract_catalog \<Rightarrow> string \<Rightarrow> type_ref option" where
  "root_type contract name = map_option field_type (bt_get (roots contract) name)"

definition type_object_fields :: "type_ref \<Rightarrow> contract_field btree_map option" where
  "type_object_fields t = (case value_type t of VObject decls \<Rightarrow> Some decls | _ \<Rightarrow> None)"

definition scalar_like :: "type_ref \<Rightarrow> bool" where
  "scalar_like t \<longleftrightarrow> (case value_type t of VScalar _ \<Rightarrow> True | VEnum _ _ \<Rightarrow> True | _ \<Rightarrow> False)"

definition catalog_root_object :: "value_contract_catalog \<Rightarrow> type_ref" where
  "catalog_root_object contract = TypeRef False (VObject (roots contract))"

section \<open>Assignability\<close>

function type_assignable :: "type_ref \<Rightarrow> type_ref \<Rightarrow> bool" where
  "type_assignable target source \<longleftrightarrow>
     (tr_nullable source \<longrightarrow> tr_nullable target) \<and>
     (case (value_type target, value_type source) of
        (VScalar t, s) \<Rightarrow> t = SJson \<or> s = VScalar t
      | (VEnum tn ts, VEnum sn ss) \<Rightarrow> tn = sn \<and> ts = ss
      | (VList te, VList se) \<Rightarrow> type_assignable te se
      | (VObject tfs, VObject sfs) \<Rightarrow>
          list_all (\<lambda>(name, tf).
            case map_of sfs name of
              None \<Rightarrow> False
            | Some sf \<Rightarrow> (required tf \<longrightarrow> required sf) \<and> type_assignable (field_type tf) (field_type sf)) tfs
      | _ \<Rightarrow> False)"
  by pat_completeness auto

lemma type_size:
  "value_type t = VList e \<Longrightarrow> size e < size t"
  "value_type t = VObject decls \<Longrightarrow> (k, f) \<in> set decls \<Longrightarrow> size (field_type f) < size t"
proof -
  show "value_type t = VList e \<Longrightarrow> size e < size t" by (cases t) auto
  show "value_type t = VObject decls \<Longrightarrow> (k, f) \<in> set decls \<Longrightarrow> size (field_type f) < size t"
    by (cases t) (auto dest: field_size)
qed

termination type_assignable
  by (relation "measure (size \<circ> fst)") (auto simp: type_size dest!: sym[of _ "value_type _"])

declare type_assignable.simps [simp del]

lemma map_filter_cong [fundef_cong]:
  "xs = ys \<Longrightarrow> (\<And>x. x \<in> set ys \<Longrightarrow> f x = g x) \<Longrightarrow> List.map_filter f xs = List.map_filter g ys"
  by (induction xs arbitrary: ys) (auto simp: List.map_filter_simps split: option.splits)

text \<open>A common type of two objects keeps the fields that have a common type.\<close>

function common_type :: "type_ref \<Rightarrow> type_ref \<Rightarrow> type_ref option" where
  "common_type left right =
     map_option (TypeRef (tr_nullable left \<or> tr_nullable right))
       (case (value_type left, value_type right) of
          (VScalar l, VScalar r) \<Rightarrow> if l = r then Some (VScalar l) else None
        | (VEnum ln ls, VEnum rn rs) \<Rightarrow> if ln = rn \<and> ls = rs then Some (VEnum ln ls) else None
        | (VList le, VList re) \<Rightarrow> map_option VList (common_type le re)
        | (VObject lfs, VObject rfs) \<Rightarrow>
            Some (VObject (List.map_filter (\<lambda>(name, lf).
              case map_of rfs name of
                None \<Rightarrow> None
              | Some rf \<Rightarrow>
                  map_option (\<lambda>t. (name, ContractField (required lf \<and> required rf) t))
                    (common_type (field_type lf) (field_type rf))) lfs))
        | _ \<Rightarrow> None)"
  by pat_completeness auto

termination common_type
  by (relation "measure (size \<circ> fst)") (auto simp: type_size dest!: sym[of _ "value_type _"])

declare common_type.simps [simp del]

section \<open>Rule types\<close>

fun rule_type_ref :: "rule_type \<Rightarrow> type_ref" where
  "rule_type_ref (TNullable t) = TypeRef True (value_type (rule_type_ref t))"
| "rule_type_ref TBool = scalar_type SBoolean False"
| "rule_type_ref TStr = scalar_type SString False"
| "rule_type_ref TInt = scalar_type SInt32 False"
| "rule_type_ref TInt64 = scalar_type SInt64 False"
| "rule_type_ref TDec = scalar_type SDecimal False"
| "rule_type_ref TUuid = scalar_type SUuid False"
| "rule_type_ref TDate = scalar_type SDate False"
| "rule_type_ref TTimestamp = scalar_type STimestampTz False"
| "rule_type_ref (TEnum name symbols) = TypeRef False (VEnum name symbols)"
| "rule_type_ref (TList t) = list_type (rule_type_ref t)"
| "rule_type_ref (TObject name decls) =
     TypeRef False (VObject (map (\<lambda>(n, t). (n, required_field (rule_type_ref t))) decls))"
| "rule_type_ref (TOpaque name bytes nodes depth) = scalar_type SJson False"

fun strip_rule_nullable :: "rule_type \<Rightarrow> rule_type" where
  "strip_rule_nullable (TNullable t) = strip_rule_nullable t"
| "strip_rule_nullable t = t"

definition contract_from_rule_types :: "type_map \<Rightarrow> value_contract_catalog" where
  "contract_from_rule_types decls =
     \<lparr>roots = map (\<lambda>(name, t). (name, required_field (rule_type_ref t))) decls, named_objects = []\<rparr>"

section \<open>Normalization\<close>

text \<open>
  Named types are replaced by what they name. The set of names being resolved is restored when a name
  has been resolved, and after an error nothing reads it, so it is passed down.
\<close>

definition normalize_object_fields ::
  "(string \<Rightarrow> type_ref \<Rightarrow> (type_ref, plan_error) result) \<Rightarrow> string \<Rightarrow> contract_field btree_map \<Rightarrow>
   (contract_field btree_map, plan_error) result" where
  "normalize_object_fields resolve path decls =
     collect_res (\<lambda>(name, f).
       res_map (\<lambda>t. (name, ContractField (required f) t)) (resolve (path @ ''.'' @ name) (field_type f))) decls"

lemma normalize_object_fields_cong [fundef_cong]:
  assumes "path = path'" "decls = decls'"
    "\<And>name f. (name, f) \<in> set decls' \<Longrightarrow> resolve (path' @ ''.'' @ name) (field_type f) = resolve' (path' @ ''.'' @ name) (field_type f)"
  shows "normalize_object_fields resolve path decls = normalize_object_fields resolve' path' decls'"
  unfolding normalize_object_fields_def assms(1,2) by (rule collect_res_cong) (auto simp: assms(3)[simplified])

function normalize_type ::
  "value_object_contract btree_map \<Rightarrow> declared_types \<Rightarrow> string list \<Rightarrow> string \<Rightarrow> type_ref \<Rightarrow> (type_ref, plan_error) result" where
  "normalize_type named declared resolving path t =
     res_map (TypeRef (tr_nullable t))
       (case value_type t of
          VScalar scalar \<Rightarrow> Ok (VScalar scalar)
        | VEnum name symbols \<Rightarrow> Ok (VEnum name symbols)
        | VObject decls \<Rightarrow>
            res_map VObject (normalize_object_fields (normalize_type named declared resolving) path decls)
        | VList element \<Rightarrow> res_map VList (normalize_type named declared resolving path element)
        | VRef name \<Rightarrow>
            if name \<in> set resolving
            then Err (validation path (''recursive value type '' @ ticked name @ '' is not executable''))
            else (case bt_get named name of
                    Some object \<Rightarrow>
                      res_map VObject
                        (normalize_object_fields (normalize_type named declared (name # resolving)) path (object_fields object))
                  | None \<Rightarrow>
                      (case declared name of
                         Some rule_type \<Rightarrow> Ok (value_type (rule_type_ref rule_type))
                       | None \<Rightarrow>
                           if name = ''bigint'' then Ok (VScalar SInt64)
                           else Err (validation path (''unknown named type '' @ ticked name)))))"
  by pat_completeness auto

lemma resolving_shrinks:
  assumes "name \<notin> set resolving" "bt_get named name = Some object"
  shows "card (set (bt_keys named) - set (name # resolving)) < card (set (bt_keys named) - set resolving)"
proof (rule psubset_card_mono)
  have "name \<in> set (bt_keys named)" using map_of_SomeD[OF assms(2)] by force
  then show "set (bt_keys named) - set (name # resolving) \<subset> set (bt_keys named) - set resolving" using assms(1) by auto
qed simp

termination normalize_type
proof (relation "inv_image (less_than <*lex*> less_than)
    (\<lambda>(named, declared, resolving, path, t). (card (set (bt_keys named) - set resolving), size t))", goal_cases)
  case 1
  show ?case by (intro wf_inv_image wf_lex_prod wf_less_than)
next
  case (2 named declared resolving path t decls name f)
  then show ?case using type_size(2) by fastforce
next
  case (3 named declared resolving path t element)
  then show ?case using type_size(1) by fastforce
next
  case (4 named declared resolving path t name object n f)
  then show ?case using resolving_shrinks by fastforce
qed

declare normalize_type.simps [simp del]

definition normalize_contract ::
  "value_contract_catalog \<Rightarrow> declared_types \<Rightarrow> string \<Rightarrow> (value_contract_catalog, plan_error) result" where
  "normalize_contract contract declared path =
     res_map (\<lambda>decls. \<lparr>roots = decls, named_objects = []\<rparr>)
       (normalize_object_fields (normalize_type (named_objects contract) declared []) path (roots contract))"

definition type_from_string :: "declared_types \<Rightarrow> string \<Rightarrow> string \<Rightarrow> (type_ref, plan_error) result" where
  "type_from_string declared source path =
     (case type_ref_parse source of
        Err e \<Rightarrow> Err (validation path (''invalid type '' @ ticked source @ '': '' @ contract_error_to_string e))
      | Ok parsed \<Rightarrow> normalize_type [] declared [] path parsed)"

section \<open>Declared fields\<close>

fun compile_fields_loop ::
  "declared_types \<Rightarrow> string \<Rightarrow> nat \<Rightarrow> process_field list \<Rightarrow> contract_field btree_map \<Rightarrow> (contract_field btree_map, plan_error) result" where
  "compile_fields_loop declared path i [] decls = Ok decls"
| "compile_fields_loop declared path i (field # later) decls =
     (if is_space_only (pf_name field) then Err (validation (at_index path i @ ''.name'') ''field name must not be empty'')
      else res_bind (type_from_string declared (pf_type field) (at_index path i @ ''.type'')) (\<lambda>t.
        if bt_contains decls (pf_name field)
        then Err (validation (at_index path i @ ''.name'') (''field '' @ ticked (pf_name field) @ '' is declared more than once''))
        else compile_fields_loop declared path (Suc i) later (bt_insert (pf_name field) (required_field t) decls)))"

definition compile_fields ::
  "process_field list \<Rightarrow> declared_types \<Rightarrow> string \<Rightarrow> (value_contract_catalog, plan_error) result" where
  "compile_fields decls declared path =
     res_map (\<lambda>m. \<lparr>roots = m, named_objects = []\<rparr>) (compile_fields_loop declared path 0 decls [])"

definition compile_type_map ::
  "string btree_map \<Rightarrow> declared_types \<Rightarrow> string \<Rightarrow> (value_contract_catalog, plan_error) result" where
  "compile_type_map decls declared path =
     res_map (\<lambda>m. \<lparr>roots = m, named_objects = []\<rparr>)
       (collect_res (\<lambda>(name, source).
          res_map (\<lambda>t. (name, required_field t)) (type_from_string declared source (path @ ''.'' @ name))) decls)"

section \<open>Assignability is an order\<close>

lemma assignable_trans: "type_assignable a b \<Longrightarrow> type_assignable b c \<Longrightarrow> type_assignable a c"
proof (induction a b arbitrary: c rule: type_assignable.induct)
  case (1 a b)
  have n: "tr_nullable c \<longrightarrow> tr_nullable a" using "1.prems" by (auto simp: type_assignable.simps[of a] type_assignable.simps[of b])
  show ?case
  proof (cases "value_type a")
    case (VScalar s)
    then show ?thesis using "1.prems" n by (auto simp: type_assignable.simps[of a] type_assignable.simps[of b])
  next
    case (VEnum name symbols)
    then show ?thesis using "1.prems" n
      by (auto simp: type_assignable.simps[of a] type_assignable.simps[of b] split: value_type.splits)
  next
    case (VList e)
    then obtain e' where e': "value_type b = VList e'" "type_assignable e e'"
      using "1.prems"(1) by (auto simp: type_assignable.simps[of a] split: value_type.splits)
    then obtain e'' where "value_type c = VList e''" "type_assignable e' e''"
      using "1.prems"(2) by (auto simp: type_assignable.simps[of b] split: value_type.splits)
    then show ?thesis using "1.IH"(2)[OF refl VList e'(1)] VList e' n by (simp add: type_assignable.simps[of a])
  next
    case (VObject ds)
    then obtain ds' where ds': "value_type b = VObject ds'"
      using "1.prems"(1) by (auto simp: type_assignable.simps[of a] split: value_type.splits)
    then obtain ds'' where ds'': "value_type c = VObject ds''"
      using "1.prems"(2) by (auto simp: type_assignable.simps[of b] split: value_type.splits)
    have "\<exists>h. map_of ds'' name = Some h \<and> (required f \<longrightarrow> required h) \<and> type_assignable (field_type f) (field_type h)"
      if f: "(name, f) \<in> set ds" for name f
    proof -
      obtain g where g: "map_of ds' name = Some g" "required f \<longrightarrow> required g" "type_assignable (field_type f) (field_type g)"
        using "1.prems"(1) f VObject ds' by (fastforce simp: type_assignable.simps[of a] list_all_iff split: option.splits)
      obtain h where h: "map_of ds'' name = Some h" "required g \<longrightarrow> required h" "type_assignable (field_type g) (field_type h)"
        using "1.prems"(2) map_of_SomeD[OF g(1)] ds' ds''
        by (fastforce simp: type_assignable.simps[of b] list_all_iff split: option.splits)
      have "type_assignable (field_type f) (field_type h)"
        using "1.IH"(1)[OF refl VObject ds' f refl g(1)] g(3) h(3) by blast
      then show ?thesis using g(2) h by blast
    qed
    then show ?thesis using VObject ds'' n by (fastforce simp: type_assignable.simps[of a] list_all_iff split: option.splits)
  next
    case (VRef name)
    then show ?thesis using "1.prems"(1) by (simp add: type_assignable.simps[of a])
  qed
qed

lemma map_filter_mem: "y \<in> set (List.map_filter f xs) \<longleftrightarrow> (\<exists>x \<in> set xs. f x = Some y)"
  by (induction xs) (auto simp: List.map_filter_simps split: option.splits)

lemma distinct_field_type: "distinct_field f \<longleftrightarrow> distinct_type (field_type f)"
  by (cases f) simp

lemma distinct_parts:
  "distinct_type t \<Longrightarrow> value_type t = VList e \<Longrightarrow> distinct_type e"
  "distinct_type t \<Longrightarrow> value_type t = VObject ds \<Longrightarrow> distinct (map fst ds) \<and> (\<forall>(k, f) \<in> set ds. distinct_type (field_type f))"
  by (cases t; auto simp: list_all_iff distinct_field_type)+

lemma common_type_bound:
  "common_type l r = Some c \<Longrightarrow> distinct_type l \<Longrightarrow> distinct_type r \<Longrightarrow> type_assignable c l \<and> type_assignable c r"
proof (induction l r arbitrary: c rule: common_type.induct)
  case (1 l r)
  from "1.prems"(1) have n: "tr_nullable c \<longleftrightarrow> tr_nullable l \<or> tr_nullable r"
    by (auto simp: common_type.simps[of l])
  show ?case
  proof (cases "value_type l")
    case (VScalar s)
    then show ?thesis using "1.prems"(1) n
      by (auto simp: common_type.simps[of l] type_assignable.simps[of c] split: value_type.splits if_splits)
  next
    case (VEnum name symbols)
    then show ?thesis using "1.prems"(1) n
      by (auto simp: common_type.simps[of l] type_assignable.simps[of c] split: value_type.splits if_splits)
  next
    case (VList e)
    then obtain e' d where d: "value_type r = VList e'" "common_type e e' = Some d" "value_type c = VList d"
      using "1.prems"(1) by (auto simp: common_type.simps[of l] split: value_type.splits)
    then show ?thesis using "1.IH"(2)[OF refl VList d(1,2)] distinct_parts(1) "1.prems"(2,3) VList n
      by (auto simp: type_assignable.simps[of c])
  next
    case (VObject ls)
    then obtain rs cs where rs: "value_type r = VObject rs" "value_type c = VObject cs" and
      cs: "cs = List.map_filter (\<lambda>(name, lf). case map_of rs name of None \<Rightarrow> None
        | Some rf \<Rightarrow> map_option (\<lambda>t. (name, ContractField (required lf \<and> required rf) t)) (common_type (field_type lf) (field_type rf))) ls"
      using "1.prems"(1) by (auto simp: common_type.simps[of l] split: value_type.splits)
    have dl: "distinct (map fst ls)" "\<And>k f. (k, f) \<in> set ls \<Longrightarrow> distinct_type (field_type f)"
      and dr: "\<And>k f. (k, f) \<in> set rs \<Longrightarrow> distinct_type (field_type f)"
      using distinct_parts(2)[OF "1.prems"(2) VObject] distinct_parts(2)[OF "1.prems"(3) rs(1)] by auto
    have "\<exists>lf rf. map_of ls name = Some lf \<and> map_of rs name = Some rf \<and> (required f \<longrightarrow> required lf \<and> required rf) \<and>
        type_assignable (field_type f) (field_type lf) \<and> type_assignable (field_type f) (field_type rf)"
      if f: "(name, f) \<in> set cs" for name f
    proof -
      obtain lf rf t where lf: "(name, lf) \<in> set ls" "map_of rs name = Some rf"
        "common_type (field_type lf) (field_type rf) = Some t" "f = ContractField (required lf \<and> required rf) t"
        using f unfolding cs map_filter_mem by (auto split: option.splits)
      have "type_assignable t (field_type lf) \<and> type_assignable t (field_type rf)"
        using "1.IH"(1)[OF refl VObject rs(1) lf(1) refl lf(2,3)] dl(2)[OF lf(1)] dr[OF map_of_SomeD[OF lf(2)]] by auto
      moreover have "map_of ls name = Some lf" using dl(1) lf(1) by simp
      ultimately show ?thesis using lf(2,4) by auto
    qed
    then show ?thesis using VObject rs n
      by (fastforce simp: type_assignable.simps[of c] list_all_iff split: option.splits)
  next
    case (VRef name)
    then show ?thesis using "1.prems"(1) by (simp add: common_type.simps[of l])
  qed
qed

section \<open>Normalization keeps the values\<close>

text \<open>Which catalogs have valid definitions: the work list of \<open>validate_definitions\<close> as a recursion.\<close>

fun type_defined :: "string list \<Rightarrow> type_ref \<Rightarrow> bool"
  and value_type_defined :: "string list \<Rightarrow> value_type \<Rightarrow> bool"
  and field_defined :: "string list \<Rightarrow> contract_field \<Rightarrow> bool" where
  "type_defined names (TypeRef n vt) \<longleftrightarrow> value_type_defined names vt"
| "value_type_defined names (VScalar s) \<longleftrightarrow> True"
| "value_type_defined names (VEnum name symbols) \<longleftrightarrow> symbols \<noteq> [] \<and> distinct symbols"
| "value_type_defined names (VObject ds) \<longleftrightarrow> list_all (\<lambda>(k, f). field_defined names f) ds"
| "value_type_defined names (VList t) \<longleftrightarrow> type_defined names t"
| "value_type_defined names (VRef name) \<longleftrightarrow> name \<in> set names"
| "field_defined names (ContractField r t) \<longleftrightarrow> type_defined names t"

lemma type_defined_value: "type_defined names t \<longleftrightarrow> value_type_defined names (value_type t)"
  by (cases t) simp

lemma field_defined_type: "field_defined names f \<longleftrightarrow> type_defined names (field_type f)"
  by (cases f) simp

lemma first_duplicate_None: "first_duplicate seen ss = None \<longleftrightarrow> distinct ss \<and> set ss \<inter> set seen = {}"
  by (induction seen ss rule: first_duplicate.induct) auto

lemma defined_fields: "list_all (type_defined names) (map (\<lambda>(_, f). field_type f) ds) \<longleftrightarrow> list_all (\<lambda>(k, f). field_defined names f) ds"
  by (induction ds) (auto simp: field_defined_type)

lemma definitions_step_defined:
  "case definitions_step catalog t pending of
     Ok pending' \<Rightarrow>
       (type_defined (bt_keys (named_objects catalog)) t \<and> list_all (type_defined (bt_keys (named_objects catalog))) pending \<longleftrightarrow>
        list_all (type_defined (bt_keys (named_objects catalog))) pending')
   | Err e \<Rightarrow> \<not> type_defined (bt_keys (named_objects catalog)) t"
proof (cases "value_type t")
  case (VObject ds)
  then show ?thesis by (simp add: definitions_step_def type_defined_value defined_fields)
next
  case (VEnum name symbols)
  then show ?thesis using first_duplicate_None[of "[]" symbols]
    by (auto simp: definitions_step_def type_defined_value split: option.splits)
next
  case (VRef name)
  then show ?thesis by (auto simp: definitions_step_def type_defined_value bt_contains_def map_of_eq_None_iff)
qed (simp_all add: definitions_step_def type_defined_value)

lemma definitions_loop_Ok:
  "definitions_loop catalog pending = Ok () \<longleftrightarrow> list_all (type_defined (bt_keys (named_objects catalog))) pending"
proof (induction catalog pending rule: definitions_loop.induct)
  case (2 catalog t pending)
  show ?case
  proof (cases "definitions_step catalog t pending")
    case (Ok pending')
    then show ?thesis using "2.IH"[OF Ok] definitions_step_defined[of catalog t pending] by simp
  next
    case (Err e)
    then show ?thesis using definitions_step_defined[of catalog t pending] by simp
  qed
qed simp

lemma validate_definitions_Ok:
  "validate_definitions catalog = Ok () \<longleftrightarrow>
   (\<forall>(k, f) \<in> set (roots catalog). type_defined (bt_keys (named_objects catalog)) (field_type f)) \<and>
   (\<forall>(n, ob) \<in> set (named_objects catalog). \<forall>(k, f) \<in> set (object_fields ob).
      type_defined (bt_keys (named_objects catalog)) (field_type f))"
  by (fastforce simp: validate_definitions_def definitions_loop_Ok field_types_def list_all_iff)

text \<open>A catalog whose named objects only refer to objects of the catalog, and a type of it.\<close>

definition closed_named :: "value_object_contract btree_map \<Rightarrow> bool" where
  "closed_named named \<longleftrightarrow>
     (\<forall>(n, ob) \<in> set named. \<forall>(k, f) \<in> set (object_fields ob). type_defined (bt_keys named) (field_type f))"

lemma normalized_fields:
  "normalize_object_fields resolve path ds = Ok ds' \<longleftrightarrow>
   list_all2 (\<lambda>(name, f) (name', f'). name' = name \<and> required f' = required f \<and>
     resolve (path @ ''.'' @ name) (field_type f) = Ok (field_type f')) ds ds'"
proof -
  have "res_map (\<lambda>t. (name, ContractField (required f) t)) (resolve (path @ ''.'' @ name) (field_type f)) = Ok (name', f') \<longleftrightarrow>
    name' = name \<and> required f' = required f \<and> resolve (path @ ''.'' @ name) (field_type f) = Ok (field_type f')" for name f name' f'
    by (cases f') (auto simp: res_map_Ok)
  then show ?thesis unfolding normalize_object_fields_def collect_res_Ok by (simp add: case_prod_beta' prod_eq_iff split_def)
qed

lemma members_conform_normalized:
  assumes "list_all2 (\<lambda>(name, f) (name', f'). name' = name \<and> required f' = required f \<and> R f f') ds ds'"
    "\<And>k f f' v. (k, f) \<in> set ds \<Longrightarrow> R f f' \<Longrightarrow> value_conforms c v (field_type f) \<longleftrightarrow> value_conforms c' v (field_type f')"
  shows "members_conform c vs ds \<longleftrightarrow> members_conform c' vs ds'"
proof -
  have names: "bt_contains ds name \<longleftrightarrow> bt_contains ds' name" for name
    using assms(1) by (induction ds ds' rule: list_all2_induct) (auto simp: bt_contains_def)
  have "list_all (\<lambda>(name, f). case map_of vs name of Some w \<Rightarrow> value_conforms c w (field_type f) | None \<Rightarrow> \<not> required f) ds \<longleftrightarrow>
    list_all (\<lambda>(name, f). case map_of vs name of Some w \<Rightarrow> value_conforms c' w (field_type f) | None \<Rightarrow> \<not> required f) ds'"
    using assms
  proof (induction ds ds' rule: list_all2_induct)
    case (Cons x xs y ys)
    obtain name f f' where xy: "x = (name, f)" "y = (name, f')" "required f' = required f" "R f f'"
      using Cons.hyps(1) by (cases x; cases y) auto
    have "value_conforms c v (field_type f) \<longleftrightarrow> value_conforms c' v (field_type f')" for v
      using Cons.prems[of name f f' v] xy by simp
    moreover have "list_all (\<lambda>(name, f). case map_of vs name of Some w \<Rightarrow> value_conforms c w (field_type f) | None \<Rightarrow> \<not> required f) xs \<longleftrightarrow>
      list_all (\<lambda>(name, f). case map_of vs name of Some w \<Rightarrow> value_conforms c' w (field_type f) | None \<Rightarrow> \<not> required f) ys"
      using Cons.IH Cons.prems by (meson list.set_intros(2))
    ultimately show ?case using xy by (simp split: option.split)
  qed simp
  then show ?thesis unfolding members_conform.simps[of c] members_conform.simps[of c'] names by simp
qed

text \<open>
  What holds of a type and its normal form: the same values conform, in whatever catalog the normal
  form is read, and the definitions of the normal form are valid without any named object.
\<close>

definition same_values :: "value_contract_catalog \<Rightarrow> type_ref \<Rightarrow> type_ref \<Rightarrow> bool" where
  "same_values c t t' \<longleftrightarrow>
     type_defined [] t' \<and> (\<forall>c' v. value_conforms c v t \<longleftrightarrow> value_conforms c' v t')"

lemma normalized_members:
  assumes "normalize_object_fields resolve path ds = Ok ds'"
    "\<And>k f f'. (k, f) \<in> set ds \<Longrightarrow> resolve (path @ ''.'' @ k) (field_type f) = Ok f' \<Longrightarrow> same_values c (field_type f) f'"
  shows "value_type_defined [] (VObject ds') \<and> (\<forall>c' vs. members_conform c vs ds \<longleftrightarrow> members_conform c' vs ds')"
proof
  have pairs: "list_all2 (\<lambda>(name, f) (name', f'). name' = name \<and> required f' = required f \<and> same_values c (field_type f) (field_type f')) ds ds'"
    using assms(1) unfolding normalized_fields
    by (rule list.rel_mono_strong) (use assms(2) in auto)
  then show "\<forall>c' vs. members_conform c vs ds \<longleftrightarrow> members_conform c' vs ds'"
    by (auto intro!: members_conform_normalized simp: same_values_def)
  show "value_type_defined [] (VObject ds')"
    using pairs by (induction ds ds' rule: list_all2_induct) (auto simp: same_values_def field_defined_type)
qed

lemma normalize_same_values:
  assumes "closed_named (named_objects c)"
  shows "normalize_type (named_objects c) declared resolving path t = Ok t' \<Longrightarrow>
    type_defined (bt_keys (named_objects c)) t \<Longrightarrow> same_values c t t'"
proof (induction "named_objects c" declared resolving path t arbitrary: t' rule: normalize_type.induct)
  case (1 declared resolving path t)
  let ?names = "bt_keys (named_objects c)"
  obtain vt where t': "t' = TypeRef (tr_nullable t) vt"
    using "1.prems"(1) by (auto simp: normalize_type.simps[of _ _ _ _ t] res_map_Ok)
  show ?case
  proof (cases "value_type t")
    case (VScalar s)
    then have "vt = VScalar s" using "1.prems"(1) t' by (auto simp: normalize_type.simps[of _ _ _ _ t])
    then show ?thesis using VScalar t' by (simp add: same_values_def value_conforms.simps)
  next
    case (VEnum name symbols)
    then have "vt = VEnum name symbols" using "1.prems"(1) t' by (auto simp: normalize_type.simps[of _ _ _ _ t])
    then show ?thesis using VEnum t' "1.prems"(2) by (simp add: same_values_def value_conforms.simps type_defined_value)
  next
    case (VObject ds)
    then obtain ds' where ds': "vt = VObject ds'"
      "normalize_object_fields (normalize_type (named_objects c) declared resolving) path ds = Ok ds'"
      using "1.prems"(1) t' by (auto simp: normalize_type.simps[of _ _ _ _ t])
    have "value_type_defined [] (VObject ds') \<and> (\<forall>c' vs. members_conform c vs ds \<longleftrightarrow> members_conform c' vs ds')"
    proof (rule normalized_members[OF ds'(2)])
      fix k f f' assume f: "(k, f) \<in> set ds"
        "normalize_type (named_objects c) declared resolving (path @ ''.'' @ k) (field_type f) = Ok f'"
      have "type_defined ?names (field_type f)" using "1.prems"(2) f(1) VObject
        by (auto simp: type_defined_value[of _ t] list_all_iff field_defined_type)
      then show "same_values c (field_type f) f'" using "1.hyps"(1)[OF VObject f(1)] f(2) by blast
    qed
    then show ?thesis using VObject ds'(1) t'
      by (auto simp: same_values_def value_conforms.simps[of _ _ t] value_conforms.simps[of _ _ "TypeRef (tr_nullable t) _"] split: typed_value.splits)
  next
    case (VList e)
    then obtain e' where e': "vt = VList e'" "normalize_type (named_objects c) declared resolving path e = Ok e'"
      using "1.prems"(1) t' by (auto simp: normalize_type.simps[of _ _ _ _ t])
    have "type_defined ?names e" using "1.prems"(2) VList by (simp add: type_defined_value[of _ t])
    then have "same_values c e e'" using "1.hyps"(2)[OF VList e'(2)] by blast
    then show ?thesis using VList e'(1) t'
      by (auto simp: same_values_def value_conforms.simps[of _ _ t] value_conforms.simps[of _ _ "TypeRef (tr_nullable t) _"] split: typed_value.splits)
  next
    case (VRef name)
    then obtain ob where ob: "bt_get (named_objects c) name = Some ob"
      using "1.prems"(2) by (auto simp: type_defined_value dest: weak_map_of_SomeI)
    then obtain ds' where ds': "vt = VObject ds'" "name \<notin> set resolving"
      "normalize_object_fields (normalize_type (named_objects c) declared (name # resolving)) path (object_fields ob) = Ok ds'"
      using "1.prems"(1) t' VRef by (auto simp: normalize_type.simps[of _ _ _ _ t] split: if_splits)
    have "value_type_defined [] (VObject ds') \<and> (\<forall>c' vs. members_conform c vs (object_fields ob) \<longleftrightarrow> members_conform c' vs ds')"
    proof (rule normalized_members[OF ds'(3)])
      fix k f f' assume f: "(k, f) \<in> set (object_fields ob)"
        "normalize_type (named_objects c) declared (name # resolving) (path @ ''.'' @ k) (field_type f) = Ok f'"
      have "type_defined ?names (field_type f)" using assms map_of_SomeD[OF ob] f(1) by (fastforce simp: closed_named_def)
      then show "same_values c (field_type f) f'" using "1.hyps"(3)[OF VRef ds'(2) ob f(1)] f(2) by blast
    qed
    then show ?thesis using VRef ds'(1) t' ob
      by (auto simp: same_values_def value_conforms.simps[of _ _ t] value_conforms.simps[of _ _ "TypeRef (tr_nullable t) _"] split: typed_value.splits)
  qed
qed

section \<open>Material of fingerprints\<close>

fun scalar_material :: "value_scalar \<Rightarrow> string" where
  "scalar_material SBoolean = ''boolean''"
| "scalar_material SString = ''string''"
| "scalar_material SInt32 = ''int32''"
| "scalar_material SInt64 = ''int64''"
| "scalar_material SUInt64 = ''uint64''"
| "scalar_material SDecimal = ''decimal''"
| "scalar_material SUuid = ''uuid''"
| "scalar_material SDate = ''date''"
| "scalar_material STimestamp = ''timestamp''"
| "scalar_material STimestampTz = ''timestamptz''"
| "scalar_material SJson = ''json''"
| "scalar_material (SCustom name) = name"

fun type_material :: "type_ref \<Rightarrow> json" and value_material :: "value_type \<Rightarrow> json" and field_material :: "contract_field \<Rightarrow> json" where
  "type_material (TypeRef n vt) = JObject [(''nullable'', JBool n), (''value'', value_material vt)]"
| "value_material (VScalar s) = JObject [(''kind'', JString ''scalar''), (''name'', JString (scalar_material s))]"
| "value_material (VEnum name symbols) =
     JObject [(''kind'', JString ''enum''), (''name'', JString name), (''values'', JArray (map JString symbols))]"
| "value_material (VObject ds) =
     JObject [(''kind'', JString ''object''), (''fields'', JObject (map (\<lambda>(name, f). (name, field_material f)) ds))]"
| "value_material (VList e) = JObject [(''kind'', JString ''list''), (''element'', type_material e)]"
| "value_material (VRef name) = JObject [(''kind'', JString ''ref''), (''name'', JString name)]"
| "field_material (ContractField r t) = JObject [(''required'', JBool r), (''type'', type_material t)]"

definition contract_material :: "value_contract_catalog \<Rightarrow> json" where
  "contract_material contract = JObject (map (\<lambda>(name, f). (name, field_material f)) (roots contract))"

fun canonical_json_keys :: "json \<Rightarrow> json" where
  "canonical_json_keys (JObject ms) = JObject (bt_collect (map (\<lambda>(name, v). (name, canonical_json_keys v)) ms))"
| "canonical_json_keys (JArray vs) = JArray (map canonical_json_keys vs)"
| "canonical_json_keys v = v"

text \<open>Types without custom scalars, whose names the material does not keep apart from the others.\<close>

fun plain_type :: "type_ref \<Rightarrow> bool" and plain_value_type :: "value_type \<Rightarrow> bool" and plain_field :: "contract_field \<Rightarrow> bool" where
  "plain_type (TypeRef n vt) \<longleftrightarrow> plain_value_type vt"
| "plain_value_type (VScalar s) \<longleftrightarrow> (case s of SCustom _ \<Rightarrow> False | _ \<Rightarrow> True)"
| "plain_value_type (VEnum _ _) \<longleftrightarrow> True"
| "plain_value_type (VObject ds) \<longleftrightarrow> list_all (\<lambda>(k, f). plain_field f) ds"
| "plain_value_type (VList t) \<longleftrightarrow> plain_type t"
| "plain_value_type (VRef _) \<longleftrightarrow> True"
| "plain_field (ContractField r t) \<longleftrightarrow> plain_type t"

lemma scalar_material_inject:
  "plain_value_type (VScalar s) \<Longrightarrow> plain_value_type (VScalar s') \<Longrightarrow> scalar_material s = scalar_material s' \<Longrightarrow> s = s'"
  by (cases s; cases s') simp_all

lemma map_pairs_inject:
  "map (\<lambda>(k, v). (k, g v)) xs = map (\<lambda>(k, v). (k, g v)) ys \<Longrightarrow> (\<And>k v w. (k, v) \<in> set xs \<Longrightarrow> (k, w) \<in> set ys \<Longrightarrow> g v = g w \<Longrightarrow> v = w) \<Longrightarrow> xs = ys"
  by (rule list.inj_map_strong[rotated], assumption) auto

lemma material_inject:
  "plain_type t \<Longrightarrow> plain_type t' \<Longrightarrow> type_material t = type_material t' \<Longrightarrow> t = t'"
  "plain_value_type vt \<Longrightarrow> plain_value_type vt' \<Longrightarrow> value_material vt = value_material vt' \<Longrightarrow> vt = vt'"
  "plain_field f \<Longrightarrow> plain_field f' \<Longrightarrow> field_material f = field_material f' \<Longrightarrow> f = f'"
proof (induction t and vt and f arbitrary: t' and vt' and f')
  case (TypeRef n vt)
  then show ?case by (cases t') auto
next
  case (VScalar s)
  then show ?case by (cases vt') (auto intro: scalar_material_inject)
next
  case (VEnum name symbols)
  then show ?case by (cases vt') (auto simp: inj_map_eq_map inj_def)
next
  case (VObject ds)
  then obtain ds' where ds': "vt' = VObject ds'" by (cases vt') auto
  have "ds = ds'"
  proof (rule map_pairs_inject)
    show "map (\<lambda>(k, v). (k, field_material v)) ds = map (\<lambda>(k, v). (k, field_material v)) ds'" using VObject.prems(3) ds' by simp
    fix k f g assume "(k, f) \<in> set ds" "(k, g) \<in> set ds'" "field_material f = field_material g"
    then show "f = g" using VObject ds' by (fastforce simp: list_all_iff)
  qed
  then show ?case using ds' by simp
next
  case (VList e)
  then show ?case by (cases vt') auto
next
  case (VRef name)
  then show ?case by (cases vt') auto
next
  case (ContractField r t)
  then show ?case by (cases f') auto
qed

section \<open>What the types guarantee\<close>

text \<open>
  The common type of two types is a bound of both: whatever the common type can be assigned to
  accepts values of either, because assignability composes.
\<close>

theorem common_type_is_bound:
  assumes "common_type left right = Some common" "distinct_type left" "distinct_type right" "type_assignable target common"
  shows "type_assignable target left \<and> type_assignable target right"
  using common_type_bound[OF assms(1-3)] assignable_trans[OF assms(4)] by blast

theorem common_type_is_bound_witness:
  "type_assignable (TypeRef True (VScalar SJson)) (list_type (scalar_type SInt32 True))"
proof -
  have "common_type (list_type (scalar_type SInt32 True)) (list_type (scalar_type SInt32 False)) =
      Some (TypeRef False (VList (TypeRef True (VScalar SInt32))))"
    by (simp add: common_type.simps list_type_def scalar_type_def)
  moreover have "type_assignable (TypeRef True (VScalar SJson)) (TypeRef False (VList (TypeRef True (VScalar SInt32))))"
    by (simp add: type_assignable.simps)
  ultimately show ?thesis
    using common_type_is_bound[of "list_type (scalar_type SInt32 True)" "list_type (scalar_type SInt32 False)"]
    by (simp add: list_type_def scalar_type_def)
qed



end
