(* ===== verification/Process_Dependencies.thy ===== *)
theory Process_Dependencies
  imports Process_Types "HOL-Library.Product_Lexorder"
begin

text \<open>
  What a process is compiled against (\<open>crates/processes/src/lib.rs\<close>): the descriptors of commands,
  rules, decision tables and connectors, the catalog that resolves them (the trait
  \<open>ProcessDependencyCatalog\<close>, a record of functions here), the closure of the dependencies that a
  compiled process pins, and the fingerprints computed from it. Of the connector specifications of
  \<open>crates/connector-catalog/src/model.rs\<close> the fields that processes read are kept.

  The record \<open>process_codecs\<close> holds code of other crates: the serializer, the digest, the derived
  serialization of a process, the hash of a connector contract (\<open>None\<close> where it panics) and the
  debugging text of a string.
\<close>

section \<open>Connector specifications\<close>

definition valid_id :: "string \<Rightarrow> bool" where
  "valid_id s \<longleftrightarrow>
     (let alphanumeric = (\<lambda>c. (CHR ''a'' \<le> c \<and> c \<le> CHR ''z'') \<or> is_ascii_digit c) in
      s \<noteq> [] \<and> length s \<le> 96 \<and>
      list_all (\<lambda>c. alphanumeric c \<or> c \<in> {CHR ''.'', CHR ''-'', CHR ''_''}) s \<and>
      alphanumeric (hd s) \<and> alphanumeric (last s))"

text \<open>Identifiers compare by their length before their bytes.\<close>

definition id_key :: "string \<Rightarrow> nat \<times> string" where
  "id_key s = (length s, s)"

record stable_semver =
  major :: nat
  minor :: nat
  patch :: nat

record provider_idempotent_step =
  step_id :: string
  minimum_retention_ms :: nat
  clock_safety_margin_ms :: nat

datatype operation_effect = ReadOnly | ProviderIdempotent "provider_idempotent_step list" | AtMostOnce

record operation_spec =
  os_connector :: string
  os_connector_version :: stable_semver
  os_operation :: string
  os_operation_version :: stable_semver
  os_runtime_abi_epoch :: nat
  os_value_language_epoch :: nat
  os_input :: value_contract_catalog
  os_input_contract_sha256 :: string
  os_output :: value_contract_catalog
  os_output_contract_sha256 :: string
  os_effect :: operation_effect
  os_deadline_ms :: nat

record processor_ref =
  ref_id :: string
  implementation_revision :: nat

datatype redaction_plan = Omit | Fixed string | PreserveLast nat

record subscription_operation_ids =
  so_create :: string
  so_delete :: string
  so_check :: "string option"

record webhook_trigger =
  wt_connector :: string
  wt_connector_version :: stable_semver
  wt_trigger :: string
  wt_trigger_version :: stable_semver
  wt_event_version :: stable_semver
  wt_runtime_abi_epoch :: nat
  authenticator :: processor_ref
  codec :: processor_ref
  normalizer :: processor_ref
  selected_headers :: "string list"
  raw_body_max_bytes :: nat
  timestamp_window_ms :: nat
  event_id :: value_contract_catalog
  wt_event_type :: value_contract_catalog
  wt_output :: value_contract_catalog
  redaction :: redaction_plan
  subscription_operations :: "subscription_operation_ids option"

record poll_trigger =
  pl_connector :: string
  pl_connector_version :: stable_semver
  pl_trigger :: string
  pl_trigger_version :: stable_semver
  pl_event_version :: stable_semver
  pl_runtime_abi_epoch :: nat
  checkpoint :: value_contract_catalog
  poll_processor :: processor_ref
  pl_event_type :: value_contract_catalog
  per_poll_event_limit :: nat

datatype trigger_spec = TWebhook webhook_trigger | TPoll poll_trigger

section \<open>Descriptors\<close>

record process_command_descriptor =
  cd_source :: string
  cd_name :: string
  cd_arguments :: value_contract_catalog
  cd_result :: value_contract_catalog
  allowed_roles :: "string set"
  required_session_variables :: "type_ref btree_map btree_map"
  cd_fingerprint :: string

record process_rule_descriptor =
  rl_name :: string
  rl_bindings :: type_map
  rl_result :: rule_type
  rl_fingerprint :: string

record process_decision_descriptor =
  dd_name :: string
  dd_inputs :: type_map
  dd_output :: type_map
  dd_fingerprint :: string

text \<open>A shared specification is its address and its contents; sharing is compared by address.\<close>

record resolved_operation =
  ro_spec :: operation_spec
  ro_address :: nat
  ro_fingerprint :: string
  ro_serialization_key_input :: "string option"

record resolved_trigger =
  rt_spec :: trigger_spec
  rt_fingerprint :: string

record process_dependencies =
  dep_declared :: declared_types
  dep_command :: "string \<Rightarrow> string \<Rightarrow> process_command_descriptor option"
  dep_rule :: "string \<Rightarrow> process_rule_descriptor option"
  dep_decision_table :: "string \<Rightarrow> process_decision_descriptor option"
  dep_operation :: "string \<Rightarrow> string \<Rightarrow> string \<Rightarrow> (resolved_operation option, string) result"
  dep_trigger :: "string \<Rightarrow> string \<Rightarrow> string \<Rightarrow> (resolved_trigger option, string) result"

record pinned_operation =
  po_source :: string
  po_instance :: string
  po_spec :: operation_spec
  po_address :: nat
  po_fingerprint :: string
  po_serialization_key_input :: "string option"

record pinned_trigger =
  pg_source :: string
  pg_instance :: string
  pg_spec :: trigger_spec
  pg_fingerprint :: string

record process_dependency_closure =
  cl_commands :: "((string \<times> string) \<times> process_command_descriptor) list"
  cl_rules :: "process_rule_descriptor btree_map"
  cl_decision_tables :: "process_decision_descriptor btree_map"
  cl_operations :: "((string \<times> string \<times> nat \<times> string) \<times> pinned_operation) list"
  cl_triggers :: "((string \<times> string \<times> nat \<times> string) \<times> pinned_trigger) list"

definition empty_closure :: process_dependency_closure where
  "empty_closure = \<lparr>cl_commands = [], cl_rules = [], cl_decision_tables = [], cl_operations = [], cl_triggers = []\<rparr>"

record compiled_signal =
  cs_role :: "string option"
  cs_correlation :: value_contract_catalog
  cs_payload :: value_contract_catalog
  cs_fingerprint :: string

record process_codecs =
  encode_json :: "json \<Rightarrow> (string, string) result"
  digest :: "string \<Rightarrow> string"
  process_json :: "process \<Rightarrow> json"
  contract_hash :: "value_contract_catalog \<Rightarrow> string option"
  debug_str :: "string \<Rightarrow> string"

section \<open>Fingerprints\<close>

definition hex_byte :: "char \<Rightarrow> string" where
  "hex_byte c = (let d = (\<lambda>n. if n < 10 then char_of (48 + n) else char_of (87 + n)) in
     [d (of_char c div 16 :: nat), d (of_char c mod 16 :: nat)])"

definition hex_hash :: "string \<Rightarrow> string" where
  "hex_hash bytes = concat (map hex_byte bytes)"

definition hash_json :: "process_codecs \<Rightarrow> string \<Rightarrow> json \<Rightarrow> (string, plan_error) result" where
  "hash_json codecs domain v =
     (case encode_json codecs (canonical_json_keys v) of
        Err e \<Rightarrow> Err (validation ''processes'' (''fingerprint serialization failed: '' @ e))
      | Ok bytes \<Rightarrow> Ok (hex_hash (digest codecs (domain @ bytes))))"

abbreviation zero_byte :: string where
  "zero_byte \<equiv> [CHR 0x00]"

definition json_nat :: "nat \<Rightarrow> json" where
  "json_nat n = JNumber (nat_to_string n)"

definition json_string :: "string option \<Rightarrow> json" where
  "json_string s = (case s of None \<Rightarrow> JNull | Some s \<Rightarrow> JString s)"

definition signal_fingerprint ::
  "process_codecs \<Rightarrow> process_signal \<Rightarrow> value_contract_catalog \<Rightarrow> value_contract_catalog \<Rightarrow> (string, plan_error) result" where
  "signal_fingerprint codecs signal correlation payload =
     hash_json codecs (''donat.process.signal-contract.v1'' @ zero_byte)
       (JObject [(''name'', JString (sg_name signal)), (''role'', json_string (sg_role signal)),
         (''correlation'', contract_material correlation), (''payload'', contract_material payload)])"

definition PROCESS_RUNTIME_ABI_EPOCH :: nat where
  "PROCESS_RUNTIME_ABI_EPOCH = 1"

definition VALUE_TYPE_LANGUAGE_VERSION :: nat where
  "VALUE_TYPE_LANGUAGE_VERSION = 1"

definition signal_material :: "compiled_signal \<Rightarrow> json" where
  "signal_material signal =
     JObject [(''role'', json_string (cs_role signal)), (''correlation'', contract_material (cs_correlation signal)),
       (''payload'', contract_material (cs_payload signal)), (''contract_fingerprint'', JString (cs_fingerprint signal))]"

definition definition_fingerprint ::
  "process_codecs \<Rightarrow> process \<Rightarrow> value_contract_catalog \<Rightarrow> value_contract_catalog \<Rightarrow> compiled_signal btree_map \<Rightarrow>
   (string, plan_error) result" where
  "definition_fingerprint codecs p inputs outputs compiled =
     hash_json codecs (''donat.process.definition.v1'' @ zero_byte)
       (JObject [(''runtime_abi_epoch'', json_nat PROCESS_RUNTIME_ABI_EPOCH), (''definition'', process_json codecs p),
         (''input'', contract_material inputs), (''output'', contract_material outputs),
         (''signals'', JObject (map (\<lambda>(name, signal). (name, signal_material signal)) compiled))])"

text \<open>A rule type as its derived serialization prints it.\<close>

fun rule_type_json :: "rule_type \<Rightarrow> json" where
  "rule_type_json TBool = JString ''Bool''"
| "rule_type_json TStr = JString ''String''"
| "rule_type_json TInt = JString ''Int''"
| "rule_type_json TInt64 = JString ''Int64''"
| "rule_type_json TDec = JString ''Decimal''"
| "rule_type_json TUuid = JString ''Uuid''"
| "rule_type_json TDate = JString ''Date''"
| "rule_type_json TTimestamp = JString ''Timestamp''"
| "rule_type_json (TEnum name symbols) =
     JObject [(''Enum'', JObject [(''name'', JString name), (''symbols'', JArray (map JString symbols))])]"
| "rule_type_json (TList t) = JObject [(''List'', rule_type_json t)]"
| "rule_type_json (TObject name decls) =
     JObject [(''Object'', JObject [(''name'', JString name), (''fields'', JObject (map (\<lambda>(n, t). (n, rule_type_json t)) decls))])]"
| "rule_type_json (TOpaque name bytes depth nodes) =
     JObject [(''OpaqueJson'', JObject [(''name'', JString name), (''maximum_bytes'', json_nat bytes),
       (''maximum_depth'', json_nat depth), (''maximum_nodes'', json_nat nodes)])]"
| "rule_type_json (TNullable t) = JObject [(''Nullable'', rule_type_json t)]"

definition rule_types_json :: "type_map \<Rightarrow> json" where
  "rule_types_json decls = JObject (map (\<lambda>(n, t). (n, rule_type_json t)) decls)"

definition semver_json :: "stable_semver \<Rightarrow> json" where
  "semver_json v = JArray [json_nat (major v), json_nat (minor v), json_nat (patch v)]"

definition processor_json :: "processor_ref \<Rightarrow> json" where
  "processor_json r =
     JObject [(''id'', JString (ref_id r)), (''implementation_revision'', json_nat (implementation_revision r))]"

fun redaction_dependency_material :: "redaction_plan \<Rightarrow> json" where
  "redaction_dependency_material Omit = JObject [(''kind'', JString ''omit'')]"
| "redaction_dependency_material (Fixed replacement) =
     JObject [(''kind'', JString ''fixed''), (''replacement'', JString replacement)]"
| "redaction_dependency_material (PreserveLast characters) =
     JObject [(''kind'', JString ''preserve_last''), (''characters'', json_nat characters)]"

definition command_material :: "(string \<times> string) \<times> process_command_descriptor \<Rightarrow> json" where
  "command_material entry = (case entry of ((source, name), descriptor) \<Rightarrow>
     JObject [(''source'', JString source), (''name'', JString name),
       (''arguments'', contract_material (cd_arguments descriptor)), (''result'', contract_material (cd_result descriptor)),
       (''allowed_roles'', JArray (map JString (sorted_list_of_set (allowed_roles descriptor)))),
       (''definition_fingerprint'', JString (cd_fingerprint descriptor))])"

definition rule_material :: "process_rule_descriptor \<Rightarrow> json" where
  "rule_material descriptor =
     JObject [(''name'', JString (rl_name descriptor)), (''bindings'', rule_types_json (rl_bindings descriptor)),
       (''result'', rule_type_json (rl_result descriptor)), (''definition_fingerprint'', JString (rl_fingerprint descriptor))]"

definition decision_material :: "process_decision_descriptor \<Rightarrow> json" where
  "decision_material descriptor =
     JObject [(''name'', JString (dd_name descriptor)), (''inputs'', rule_types_json (dd_inputs descriptor)),
       (''output'', rule_types_json (dd_output descriptor)), (''definition_fingerprint'', JString (dd_fingerprint descriptor))]"

definition operation_material :: "pinned_operation \<Rightarrow> json" where
  "operation_material dependency = (let spec = po_spec dependency in
     JObject [(''source'', JString (po_source dependency)), (''instance'', JString (po_instance dependency)),
       (''connector'', JString (os_connector spec)), (''connector_version'', semver_json (os_connector_version spec)),
       (''operation'', JString (os_operation spec)), (''operation_version'', semver_json (os_operation_version spec)),
       (''runtime_abi_epoch'', json_nat (os_runtime_abi_epoch spec)),
       (''value_language_epoch'', json_nat (os_value_language_epoch spec)),
       (''input_contract_sha256'', JString (hex_hash (os_input_contract_sha256 spec))),
       (''output_contract_sha256'', JString (hex_hash (os_output_contract_sha256 spec))),
       (''deployment_fingerprint'', JString (po_fingerprint dependency)),
       (''serialization_key_input'', json_string (po_serialization_key_input dependency))])"

definition subscription_json :: "subscription_operation_ids option \<Rightarrow> json" where
  "subscription_json ids =
     (case ids of
        None \<Rightarrow> JNull
      | Some ops \<Rightarrow>
          JObject [(''create'', JString (so_create ops)), (''delete'', JString (so_delete ops)), (''check'', json_string (so_check ops))])"

definition webhook_material ::
  "pinned_trigger \<Rightarrow> webhook_trigger \<Rightarrow> string \<Rightarrow> string \<Rightarrow> string \<Rightarrow> json" where
  "webhook_material dependency w event_id_hash event_type_hash output_hash =
     JObject [(''kind'', JString ''webhook''), (''source'', JString (pg_source dependency)),
       (''instance'', JString (pg_instance dependency)), (''connector'', JString (wt_connector w)),
       (''connector_version'', semver_json (wt_connector_version w)), (''trigger'', JString (wt_trigger w)),
       (''trigger_version'', semver_json (wt_trigger_version w)), (''event_version'', semver_json (wt_event_version w)),
       (''runtime_abi_epoch'', json_nat (wt_runtime_abi_epoch w)),
       (''value_language_epoch'', json_nat VALUE_TYPE_LANGUAGE_VERSION),
       (''authenticator'', processor_json (authenticator w)), (''codec'', processor_json (codec w)),
       (''normalizer'', processor_json (normalizer w)), (''selected_headers'', JArray (map JString (selected_headers w))),
       (''raw_body_max_bytes'', json_nat (raw_body_max_bytes w)),
       (''timestamp_window_ms'', JString (nat_to_string (timestamp_window_ms w))),
       (''event_id_contract_sha256'', JString event_id_hash), (''event_type_contract_sha256'', JString event_type_hash),
       (''output_contract_sha256'', JString output_hash), (''redaction'', redaction_dependency_material (redaction w)),
       (''subscription_operations'', subscription_json (subscription_operations w)),
       (''deployment_fingerprint'', JString (pg_fingerprint dependency))]"

definition poll_material :: "pinned_trigger \<Rightarrow> poll_trigger \<Rightarrow> string \<Rightarrow> string \<Rightarrow> json" where
  "poll_material dependency t checkpoint_hash event_type_hash =
     JObject [(''kind'', JString ''poll''), (''source'', JString (pg_source dependency)),
       (''instance'', JString (pg_instance dependency)), (''connector'', JString (pl_connector t)),
       (''connector_version'', semver_json (pl_connector_version t)), (''trigger'', JString (pl_trigger t)),
       (''trigger_version'', semver_json (pl_trigger_version t)), (''event_version'', semver_json (pl_event_version t)),
       (''runtime_abi_epoch'', json_nat (pl_runtime_abi_epoch t)),
       (''value_language_epoch'', json_nat VALUE_TYPE_LANGUAGE_VERSION),
       (''checkpoint_contract_sha256'', JString checkpoint_hash), (''event_type_contract_sha256'', JString event_type_hash),
       (''processor'', processor_json (poll_processor t)), (''per_poll_event_limit'', json_nat (per_poll_event_limit t)),
       (''deployment_fingerprint'', JString (pg_fingerprint dependency))]"

definition trigger_material :: "process_codecs \<Rightarrow> pinned_trigger \<Rightarrow> json option" where
  "trigger_material codecs dependency =
     (case pg_spec dependency of
        TWebhook w \<Rightarrow>
          Option.bind (contract_hash codecs (event_id w)) (\<lambda>a.
          Option.bind (contract_hash codecs (wt_event_type w)) (\<lambda>b.
          map_option (webhook_material dependency w a b) (contract_hash codecs (wt_output w))))
      | TPoll t \<Rightarrow>
          Option.bind (contract_hash codecs (checkpoint t)) (\<lambda>a.
          map_option (poll_material dependency t a) (contract_hash codecs (pl_event_type t))))"

definition process_dependency_descriptors ::
  "process_codecs \<Rightarrow> string \<Rightarrow> process_dependency_closure \<Rightarrow> json option" where
  "process_dependency_descriptors codecs fingerprint closure =
     map_option (\<lambda>triggers.
       JObject [(''definition_fingerprint'', JString fingerprint),
         (''commands'', JArray (map command_material (cl_commands closure))),
         (''rules'', JArray (map (rule_material \<circ> snd) (cl_rules closure))),
         (''decision_tables'', JArray (map (decision_material \<circ> snd) (cl_decision_tables closure))),
         (''connector_operations'', JArray (map (operation_material \<circ> snd) (cl_operations closure))),
         (''connector_triggers'', JArray triggers)])
       (collect_opt (trigger_material codecs) (map snd (cl_triggers closure)))"

definition revision_fingerprint ::
  "process_codecs \<Rightarrow> string \<Rightarrow> process_dependency_closure \<Rightarrow> (string, plan_error) result option" where
  "revision_fingerprint codecs fingerprint closure =
     map_option (hash_json codecs (''donat.process.revision.v1'' @ zero_byte))
       (process_dependency_descriptors codecs fingerprint closure)"

end
