(* ===== verification/Process_Graph.thy ===== *)
theory Process_Graph
  imports Process_Syntax
begin

text \<open>
  The state graph of a process (\<open>validate_graph\<close> of \<open>crates/processes/src/lib.rs\<close>): states by index,
  transitions, reachability, the topological order, and for every state its ancestors, the states on
  every way to it, and the states whose output is available on every way to it. A panic of the code,
  an index out of range, a counter below zero or a failing \<open>expect\<close>, is the value \<open>None\<close>.
\<close>

section \<open>The graph\<close>

record state_transition =
  st_target :: nat
  st_output :: bool

record validated_graph =
  state_indices :: "nat btree_map"
  topological_order :: "nat list"
  ancestors :: "nat set list"
  definite_ancestors :: "nat set list"
  available_outputs :: "nat set list"

type_synonym edges = "state_transition list list"

text \<open>The indices of the states; \<open>i\<close> is the index of the first state of the list.\<close>

fun index_states ::
  "string \<Rightarrow> nat \<Rightarrow> process_state list \<Rightarrow> nat btree_map \<Rightarrow> (nat btree_map, plan_error) result" where
  "index_states path i [] indices = Ok indices"
| "index_states path i (state # later) indices =
     (if is_space_only (state_id state)
      then Err (validation (at_index (path @ ''.states'') i @ ''.id'') ''state id must not be empty'')
      else if bt_contains indices (state_id state)
      then Err (validation (at_index (path @ ''.states'') i @ ''.id'')
             (''state '' @ ticked (state_id state) @ '' is declared more than once''))
      else index_states path (Suc i) later (bt_insert (state_id state) i indices))"

text \<open>The distinct transitions of one state, in the order of their first occurrence.\<close>

fun state_edges ::
  "string \<Rightarrow> nat \<Rightarrow> nat btree_map \<Rightarrow> (string \<times> bool) list \<Rightarrow> state_transition list \<Rightarrow>
   (state_transition list, plan_error) result" where
  "state_edges path i indices [] es = Ok es"
| "state_edges path i indices ((target, output_available) # ts) es =
     (case bt_get indices target of
        None \<Rightarrow> Err (validation (at_index (path @ ''.states'') i)
                  (''state transition target '' @ ticked target @ '' does not exist''))
      | Some j \<Rightarrow>
          let e = \<lparr>st_target = j, st_output = output_available\<rparr> in
          state_edges path i indices ts (if e \<in> set es then es else es @ [e]))"

fun graph_edges ::
  "string \<Rightarrow> nat \<Rightarrow> nat btree_map \<Rightarrow> process_state list \<Rightarrow> (edges, plan_error) result" where
  "graph_edges path i indices [] = Ok []"
| "graph_edges path i indices (state # later) =
     res_bind (state_edges path i indices (state_transitions state) []) (\<lambda>es.
       res_map (\<lambda>rest. es # rest) (graph_edges path (Suc i) indices later))"

section \<open>Reachability\<close>

function reach_loop :: "edges \<Rightarrow> bool list \<Rightarrow> nat list \<Rightarrow> bool list option" where
  "reach_loop es reachable [] = Some reachable"
| "reach_loop es reachable (i # pending) =
     (if i \<ge> length reachable \<or> i \<ge> length es then None
      else if reachable ! i then reach_loop es reachable pending
      else reach_loop es (reachable[i := True]) (rev (map st_target (es ! i)) @ pending))"
  by pat_completeness auto

lemma count_update_True:
  "i < length bs \<Longrightarrow> \<not> bs ! i \<Longrightarrow> length (filter Not (bs[i := True])) < length (filter Not bs)"
  by (induction bs arbitrary: i) (auto simp: nth_Cons split: nat.splits)

termination reach_loop
  by (relation "measures [\<lambda>(es, reachable, pending). length (filter Not reachable), \<lambda>(es, reachable, pending). length pending]")
     (auto simp: count_update_True)

section \<open>Topological order\<close>

fun count_edges :: "nat list \<Rightarrow> state_transition list \<Rightarrow> nat list option" where
  "count_edges degrees [] = Some degrees"
| "count_edges degrees (e # es) =
     (if st_target e < length degrees
      then count_edges (degrees[st_target e := Suc (degrees ! st_target e)]) es else None)"

fun release_edges :: "nat list \<Rightarrow> nat list \<Rightarrow> state_transition list \<Rightarrow> (nat list \<times> nat list) option" where
  "release_edges degrees queue [] = Some (degrees, queue)"
| "release_edges degrees queue (e # es) =
     (let t = st_target e in
      if t < length degrees \<and> 0 < degrees ! t then
        release_edges (degrees[t := degrees ! t - 1])
          (if degrees ! t - 1 = 0 then queue @ [t] else queue) es
      else None)"

lemma release_edges_measure:
  "release_edges degrees queue es = Some (degrees', queue') \<Longrightarrow>
   sum_list degrees' + length queue' \<le> sum_list degrees + length queue"
proof (induction degrees queue es rule: release_edges.induct)
  case (2 degrees queue e es)
  let ?t = "st_target e"
  have t: "?t < length degrees" "0 < degrees ! ?t" using "2.prems" by (auto simp: Let_def split: if_splits)
  then have "sum_list (degrees[?t := degrees ! ?t - 1]) = sum_list degrees - 1"
    using elem_le_sum_list[OF t(1)] by (simp add: sum_list_update)
  moreover have "0 < sum_list degrees" using t elem_le_sum_list[OF t(1)] by simp
  ultimately show ?case using "2.IH"[OF refl] "2.prems" t by (fastforce simp: Let_def split: if_splits)
qed simp

function order_loop :: "edges \<Rightarrow> nat list \<Rightarrow> nat list \<Rightarrow> nat list \<Rightarrow> (nat list \<times> nat list) option" where
  "order_loop es degrees [] order = Some (degrees, order)"
| "order_loop es degrees (i # queue) order =
     (if i \<ge> length es then None
      else case release_edges degrees queue (es ! i) of
             None \<Rightarrow> None
           | Some next \<Rightarrow> order_loop es (fst next) (snd next) (order @ [i]))"
  by pat_completeness auto
termination
proof (relation "measure (\<lambda>(es, degrees, queue, order). sum_list degrees + length queue)", goal_cases)
  case (2 es degrees i queue order nxt)
  then show ?case using release_edges_measure[of degrees queue "es ! i" "fst nxt" "snd nxt"] by simp
qed simp

definition initial_queue :: "nat list \<Rightarrow> nat list" where
  "initial_queue degrees = filter (\<lambda>i. degrees ! i = 0) [0..<length degrees]"

section \<open>What holds on the way to a state\<close>

fun add_ancestors :: "nat \<Rightarrow> state_transition list \<Rightarrow> nat set list \<Rightarrow> nat set list option" where
  "add_ancestors i [] anc = Some anc"
| "add_ancestors i (e # es) anc =
     (if i < length anc \<and> st_target e < length anc
      then add_ancestors i es (anc[st_target e := anc ! st_target e \<union> {i} \<union> anc ! i]) else None)"

fun ancestors_loop :: "edges \<Rightarrow> nat list \<Rightarrow> nat set list \<Rightarrow> nat set list option" where
  "ancestors_loop es [] anc = Some anc"
| "ancestors_loop es (i # order) anc =
     (if i < length es then Option.bind (add_ancestors i (es ! i) anc) (ancestors_loop es order) else None)"

fun intersect_path_guarantees :: "nat set option \<Rightarrow> nat set \<Rightarrow> nat set option" where
  "intersect_path_guarantees (Some current) candidate = Some (current \<inter> candidate)"
| "intersect_path_guarantees None candidate = Some candidate"

type_synonym guarantees = "nat set option list"

fun meet_edges ::
  "nat \<Rightarrow> nat set \<Rightarrow> nat set \<Rightarrow> state_transition list \<Rightarrow> guarantees \<Rightarrow> guarantees \<Rightarrow> (guarantees \<times> guarantees) option" where
  "meet_edges i ds outs [] definite available = Some (definite, available)"
| "meet_edges i ds outs (e # es) definite available =
     (let t = st_target e in
      if t < length definite \<and> t < length available then
        meet_edges i ds outs es
          (definite[t := intersect_path_guarantees (definite ! t) (insert i ds)])
          (available[t := intersect_path_guarantees (available ! t) (if st_output e then insert i outs else outs)])
      else None)"

fun guarantees_loop ::
  "edges \<Rightarrow> nat list \<Rightarrow> guarantees \<Rightarrow> guarantees \<Rightarrow> (guarantees \<times> guarantees) option" where
  "guarantees_loop es [] definite available = Some (definite, available)"
| "guarantees_loop es (i # order) definite available =
     (if i < length definite \<and> i < length available \<and> i < length es then
        (case (definite ! i, available ! i) of
           (Some ds, Some outs) \<Rightarrow>
             Option.bind (meet_edges i ds outs (es ! i) definite available)
               (\<lambda>(definite, available). guarantees_loop es order definite available)
         | _ \<Rightarrow> None)
      else None)"

section \<open>Validation\<close>

definition first_position :: "('a \<Rightarrow> bool) \<Rightarrow> 'a list \<Rightarrow> nat option" where
  "first_position P xs = (case filter (\<lambda>i. P (xs ! i)) [0..<length xs] of [] \<Rightarrow> None | i # _ \<Rightarrow> Some i)"

text \<open>The sets a validated graph carries, when the transitions have been found to be acyclic.\<close>

definition graph_sets :: "edges \<Rightarrow> nat \<Rightarrow> nat list \<Rightarrow> (nat set list \<times> nat set list \<times> nat set list) option" where
  "graph_sets es start order =
     (let n = length es; initial = (replicate n None)[start := Some {}] in
      Option.bind (ancestors_loop es order (replicate n {})) (\<lambda>anc.
      Option.bind (guarantees_loop es order initial initial) (\<lambda>(definite, available).
      Option.bind (collect_opt id definite) (\<lambda>ds.
      map_option (\<lambda>outs. (anc, ds, outs)) (collect_opt id available)))))"

definition validate_graph :: "process \<Rightarrow> string \<Rightarrow> (validated_graph, plan_error) result option" where
  "validate_graph process path =
     (let n = length (states process) in
      case index_states path 0 (states process) [] of
        Err e \<Rightarrow> Some (Err e)
      | Ok indices \<Rightarrow>
      (case bt_get indices (start_at process) of
        None \<Rightarrow> Some (Err (validation (path @ ''.start_at'')
                  (''initial state '' @ ticked (start_at process) @ '' does not exist'')))
      | Some start \<Rightarrow>
      (case graph_edges path 0 indices (states process) of
        Err e \<Rightarrow> Some (Err e)
      | Ok es \<Rightarrow>
      Option.bind (reach_loop es (replicate n False) [start]) (\<lambda>reachable.
      case first_position Not reachable of
        Some i \<Rightarrow> Some (Err (validation (at_index (path @ ''.states'') i @ ''.id'')
                    (''state '' @ ticked (state_id (states process ! i)) @ '' is unreachable from start_at'')))
      | None \<Rightarrow>
      Option.bind (count_edges (replicate n 0) (concat es)) (\<lambda>degrees.
      Option.bind (order_loop es degrees (initial_queue degrees) []) (\<lambda>(degrees, order).
        if length order \<noteq> n then
          Some (Err (validation
            (at_index (path @ ''.states'') (case first_position (\<lambda>d. 0 < d) degrees of Some i \<Rightarrow> i | None \<Rightarrow> 0))
            ''process transitions must form an acyclic graph''))
        else
          map_option (\<lambda>(anc, ds, outs).
            Ok \<lparr>state_indices = indices, topological_order = order, ancestors = anc,
                definite_ancestors = ds, available_outputs = outs\<rparr>)
            (graph_sets es start order)))))))"

section \<open>Graphs of edge lists\<close>

text \<open>The step relation of the edge lists, and the number of transitions to a state from states outside a set.\<close>

definition steps :: "edges \<Rightarrow> (nat \<times> nat) set" where
  "steps es = {(i, j). i < length es \<and> (\<exists>e \<in> set (es ! i). st_target e = j)}"

definition edges_wf :: "edges \<Rightarrow> bool" where
  "edges_wf es \<longleftrightarrow> list_all (list_all (\<lambda>e. st_target e < length es)) es"

definition arrivals :: "state_transition list \<Rightarrow> nat \<Rightarrow> nat" where
  "arrivals ts t = length (filter (\<lambda>e. st_target e = t) ts)"

definition indegree :: "edges \<Rightarrow> nat set \<Rightarrow> nat \<Rightarrow> nat" where
  "indegree es done t = (\<Sum>i \<in> {..<length es} - done. arrivals (es ! i) t)"

lemma edges_wfD: "edges_wf es \<Longrightarrow> i < length es \<Longrightarrow> e \<in> set (es ! i) \<Longrightarrow> st_target e < length es"
  by (auto simp: edges_wf_def list_all_iff dest: nth_mem)

lemma steps_range: "edges_wf es \<Longrightarrow> steps es \<subseteq> {..<length es} \<times> {..<length es}"
  by (auto simp: steps_def dest: edges_wfD)

lemma finite_steps: "edges_wf es \<Longrightarrow> finite (steps es)"
  using steps_range finite_subset by blast

lemma arrivals_0: "arrivals ts t = 0 \<longleftrightarrow> (\<forall>e \<in> set ts. st_target e \<noteq> t)"
  by (auto simp: arrivals_def filter_empty_conv)

lemma arrivals_simps [simp]:
  "arrivals [] t = 0" "arrivals (e # ts) t = (if st_target e = t then Suc (arrivals ts t) else arrivals ts t)"
  "arrivals (ts @ us) t = arrivals ts t + arrivals us t"
  by (auto simp: arrivals_def)

text \<open>No transition to a state is left exactly when all its predecessors are done.\<close>

lemma indegree_0: "indegree es done t = 0 \<longleftrightarrow> (\<forall>i. (i, t) \<in> steps es \<longrightarrow> i \<in> done)"
  by (auto simp: indegree_def steps_def arrivals_0)

lemma indegree_insert:
  assumes "i < length es" "i \<notin> done"
  shows "indegree es done t = arrivals (es ! i) t + indegree es (insert i done) t"
proof -
  have "{..<length es} - done - {i} = {..<length es} - insert i done" by auto
  then show ?thesis using assms sum.remove[of "{..<length es} - done" i "\<lambda>i. arrivals (es ! i) t"] by (simp add: indegree_def)
qed

section \<open>Reachability is found\<close>

definition marked :: "bool list \<Rightarrow> nat set" where
  "marked bs = {i. i < length bs \<and> bs ! i}"

lemma marked_update: "i < length bs \<Longrightarrow> marked (bs[i := True]) = insert i (marked bs)"
  by (auto simp: marked_def nth_list_update)

lemma reach_loop_correct:
  assumes "edges_wf es" "length reachable = length es" "set pending \<subseteq> {..<length es}"
    and "steps es `` marked reachable \<subseteq> marked reachable \<union> set pending"
  shows "\<exists>r. reach_loop es reachable pending = Some r \<and> length r = length es \<and>
    marked reachable \<union> set pending \<subseteq> marked r \<and> steps es `` marked r \<subseteq> marked r \<and>
    marked r \<subseteq> marked reachable \<union> (steps es)\<^sup>* `` set pending"
  using assms
proof (induction es reachable pending rule: reach_loop.induct)
  case (2 es reachable i pending)
  have i: "i < length es" "i < length reachable" using "2.prems" by auto
  show ?case
  proof (cases "reachable ! i")
    case True
    have seen: "i \<in> marked reachable" using True i by (simp add: marked_def)
    have "steps es `` marked reachable \<subseteq> marked reachable \<union> set pending" using "2.prems"(4) seen by auto
    moreover have "\<not> (length reachable \<le> i \<or> length es \<le> i)" using i by simp
    ultimately obtain r where r: "reach_loop es reachable pending = Some r" "length r = length es"
      "marked reachable \<union> set pending \<subseteq> marked r" "steps es `` marked r \<subseteq> marked r"
      "marked r \<subseteq> marked reachable \<union> (steps es)\<^sup>* `` set pending"
      using "2.IH"(1)[OF _ True] "2.prems"(1,2,3) by (metis (no_types, lifting) set_subset_Cons subset_trans)
    have "reach_loop es reachable (i # pending) = Some r" using r(1) i True by simp
    moreover have "marked reachable \<union> set (i # pending) \<subseteq> marked r" using r(3) seen by auto
    moreover have "marked r \<subseteq> marked reachable \<union> (steps es)\<^sup>* `` set (i # pending)"
      using r(5) by (rule order_trans) auto
    ultimately show ?thesis using r(2,4) by blast
  next
    case False
    let ?r = "reachable[i := True]" and ?p = "rev (map st_target (es ! i)) @ pending"
    have new: "set (map st_target (es ! i)) = steps es `` {i}" using i by (auto simp: steps_def)
    have "set ?p \<subseteq> {..<length es}" using "2.prems"(1,3) i edges_wfD by auto
    moreover have "steps es `` marked ?r \<subseteq> marked ?r \<union> set ?p"
      unfolding marked_update[OF i(2)] using "2.prems"(4) new by auto
    ultimately obtain r where r: "reach_loop es ?r ?p = Some r" "length r = length es"
      "marked ?r \<union> set ?p \<subseteq> marked r" "steps es `` marked r \<subseteq> marked r"
      "marked r \<subseteq> marked ?r \<union> (steps es)\<^sup>* `` set ?p"
      using "2.IH"(2)[OF _ False] "2.prems"(1,2) i by auto
    have "(steps es)\<^sup>* `` set ?p \<subseteq> (steps es)\<^sup>* `` set (i # pending)"
      using new by (auto intro: converse_rtrancl_into_rtrancl)
    moreover have "i \<in> (steps es)\<^sup>* `` set (i # pending)" by auto
    ultimately have "insert i ((steps es)\<^sup>* `` set ?p) \<subseteq> (steps es)\<^sup>* `` set (i # pending)" by blast
    then have "marked r \<subseteq> marked reachable \<union> (steps es)\<^sup>* `` set (i # pending)"
      using r(5) unfolding marked_update[OF i(2)] by blast
    moreover have "reach_loop es reachable (i # pending) = Some r" using r(1) i False by simp
    moreover have "marked reachable \<union> set (i # pending) \<subseteq> marked r"
      using r(3) unfolding marked_update[OF i(2)] by auto
    ultimately show ?thesis using r(2,4) by blast
  qed
qed auto

lemma reach_loop_reachable:
  assumes "edges_wf es" "start < length es"
  shows "\<exists>r. reach_loop es (replicate (length es) False) [start] = Some r \<and> length r = length es \<and>
    (\<forall>i < length es. r ! i \<longleftrightarrow> (start, i) \<in> (steps es)\<^sup>*)"
proof -
  have none: "marked (replicate (length es) False) = {}" by (auto simp: marked_def)
  obtain r where r: "reach_loop es (replicate (length es) False) [start] = Some r" "length r = length es"
    "start \<in> marked r" "steps es `` marked r \<subseteq> marked r" "marked r \<subseteq> (steps es)\<^sup>* `` {start}"
    using reach_loop_correct[OF assms(1), of "replicate (length es) False" "[start]"] assms(2) unfolding none by auto
  have "(steps es)\<^sup>* `` {start} \<subseteq> marked r" using Image_closed_trancl[OF r(4)] r(3) by blast
  then show ?thesis using r by (intro exI[of _ r]) (auto simp: marked_def)
qed

section \<open>The order is topological\<close>

lemma count_edges_Some:
  "list_all (\<lambda>e. st_target e < length degrees) ts \<Longrightarrow>
   \<exists>d. count_edges degrees ts = Some d \<and> length d = length degrees \<and>
     (\<forall>t < length degrees. d ! t = degrees ! t + arrivals ts t)"
proof (induction degrees ts rule: count_edges.induct)
  case (2 degrees e ts)
  then obtain d where "count_edges (degrees[st_target e := Suc (degrees ! st_target e)]) ts = Some d"
    "length d = length degrees"
    "\<forall>t < length degrees. d ! t = degrees[st_target e := Suc (degrees ! st_target e)] ! t + arrivals ts t"
    by auto
  then show ?case using "2.prems" by (auto simp: nth_list_update)
qed auto

lemma arrivals_concat: "arrivals (concat es) t = indegree es {} t"
proof (induction es rule: rev_induct)
  case (snoc ts es)
  have "indegree (es @ [ts]) {} t = (\<Sum>i<length es. arrivals ((es @ [ts]) ! i) t) + arrivals ts t"
    by (simp add: indegree_def)
  also have "(\<Sum>i<length es. arrivals ((es @ [ts]) ! i) t) = indegree es {} t"
    unfolding indegree_def by (intro sum.cong) (auto simp: nth_append)
  finally show ?case using snoc by simp
qed (simp add: indegree_def)

lemma release_edges_Some:
  "list_all (\<lambda>e. st_target e < length degrees) ts \<Longrightarrow> \<forall>t < length degrees. arrivals ts t \<le> degrees ! t \<Longrightarrow>
   \<exists>d new. release_edges degrees queue ts = Some (d, queue @ new) \<and> length d = length degrees \<and>
     (\<forall>t < length degrees. d ! t = degrees ! t - arrivals ts t) \<and> distinct new \<and>
     set new = {t. t < length degrees \<and> 0 < arrivals ts t \<and> degrees ! t = arrivals ts t}"
proof (induction degrees queue ts rule: release_edges.induct)
  case (2 degrees queue e ts)
  let ?t = "st_target e" and ?d = "degrees[st_target e := degrees ! st_target e - 1]"
  let ?q = "if degrees ! ?t - 1 = 0 then queue @ [?t] else queue"
  have t: "?t < length degrees" "Suc (arrivals ts ?t) \<le> degrees ! ?t" using "2.prems" by auto
  have "\<forall>u < length ?d. arrivals ts u \<le> ?d ! u" using "2.prems"(2) t by (auto simp: nth_list_update split: if_splits)
  then obtain d new where r: "release_edges ?d ?q ts = Some (d, ?q @ new)" "length d = length degrees"
    "\<forall>u < length degrees. d ! u = ?d ! u - arrivals ts u" "distinct new"
    "set new = {u. u < length degrees \<and> 0 < arrivals ts u \<and> ?d ! u = arrivals ts u}"
    using "2.IH"[OF refl] "2.prems"(1) t by auto
  let ?new = "(if degrees ! ?t - 1 = 0 then [?t] else []) @ new"
  have "release_edges degrees queue (e # ts) = Some (d, queue @ ?new)" using r(1) t by (auto simp: Let_def)
  moreover have "\<forall>u < length degrees. d ! u = degrees ! u - arrivals (e # ts) u"
    using r(3) t by (auto simp: nth_list_update)
  moreover have "distinct ?new" using r(4,5) t by auto
  moreover have "set ?new = {u. u < length degrees \<and> 0 < arrivals (e # ts) u \<and> degrees ! u = arrivals (e # ts) u}"
  proof (rule set_eqI)
    fix u
    show "u \<in> set ?new \<longleftrightarrow> u \<in> {u. u < length degrees \<and> 0 < arrivals (e # ts) u \<and> degrees ! u = arrivals (e # ts) u}"
      using t by (cases "u = ?t") (auto simp: r(5))
  qed
  ultimately show ?case using r(2) by blast
qed auto

text \<open>
  The invariant of the loop: the degrees count the transitions from states not yet in the order, the
  order and the queue hold the states without one, and predecessors come earlier in the order.
\<close>

definition topological :: "edges \<Rightarrow> nat list \<Rightarrow> bool" where
  "topological es order \<longleftrightarrow>
     distinct order \<and> (\<forall>k < length order. \<forall>i. (i, order ! k) \<in> steps es \<longrightarrow> i \<in> set (take k order))"

definition order_inv :: "edges \<Rightarrow> nat list \<Rightarrow> nat list \<Rightarrow> nat list \<Rightarrow> bool" where
  "order_inv es degrees queue order \<longleftrightarrow>
     length degrees = length es \<and> (\<forall>t < length es. degrees ! t = indegree es (set order) t) \<and>
     distinct (order @ queue) \<and> set (order @ queue) = {t. t < length es \<and> degrees ! t = 0} \<and> topological es order"

lemma topological_snoc:
  "topological es order \<Longrightarrow> i \<notin> set order \<Longrightarrow> (\<forall>j. (j, i) \<in> steps es \<longrightarrow> j \<in> set order) \<Longrightarrow> topological es (order @ [i])"
  by (auto simp: topological_def nth_append less_Suc_eq)

lemma order_step:
  assumes "edges_wf es" "order_inv es degrees (i # queue) order"
  shows "i < length es \<and> (\<exists>d q. release_edges degrees queue (es ! i) = Some (d, q) \<and> order_inv es d q (order @ [i]))"
proof -
  have i: "i < length es" "i \<notin> set order" "degrees ! i = 0" and n: "length degrees = length es"
    and deg: "\<And>t. t < length es \<Longrightarrow> degrees ! t = indegree es (set order) t"
    using assms(2) by (auto simp: order_inv_def)
  have zero: "insert i (set order \<union> set queue) = {t. t < length es \<and> degrees ! t = 0}"
    using assms(2) by (auto simp: order_inv_def)
  have split: "degrees ! t = arrivals (es ! i) t + indegree es (insert i (set order)) t" if "t < length es" for t
    using deg[OF that] indegree_insert[OF i(1,2)] by simp
  have "list_all (\<lambda>e. st_target e < length degrees) (es ! i)"
    using edges_wfD[OF assms(1) i(1)] n by (auto simp: list_all_iff)
  moreover have "\<forall>t < length degrees. arrivals (es ! i) t \<le> degrees ! t" using split n by simp
  ultimately obtain d new where r: "release_edges degrees queue (es ! i) = Some (d, queue @ new)" "length d = length es"
    "\<forall>t < length es. d ! t = degrees ! t - arrivals (es ! i) t" "distinct new"
    "set new = {t. t < length es \<and> 0 < arrivals (es ! i) t \<and> degrees ! t = arrivals (es ! i) t}"
    using release_edges_Some[of degrees "es ! i" queue] n by auto
  have dt: "d ! t = indegree es (insert i (set order)) t" if "t < length es" for t using r(3) split[OF that] that by simp
  have "0 < degrees ! t" if "t \<in> set new" for t using that unfolding r(5) by simp
  then have "set new \<inter> {t. t < length es \<and> degrees ! t = 0} = {}" by fastforce
  moreover have "distinct (order @ i # queue)" using assms(2) by (simp add: order_inv_def)
  ultimately have "distinct ((order @ [i]) @ queue @ new)" using r(4) unfolding zero[symmetric] by auto
  moreover have "set ((order @ [i]) @ queue @ new) = {t. t < length es \<and> d ! t = 0}"
  proof -
    have "set ((order @ [i]) @ queue @ new) = {t. t < length es \<and> degrees ! t = 0} \<union> set new" using zero by auto
    also have "\<dots> = {t. t < length es \<and> d ! t = 0}"
    proof (rule set_eqI)
      fix t
      show "t \<in> {t. t < length es \<and> degrees ! t = 0} \<union> set new \<longleftrightarrow> t \<in> {t. t < length es \<and> d ! t = 0}"
        using r(3) split[of t] unfolding r(5) by (cases "t < length es") auto
    qed
    finally show ?thesis .
  qed
  moreover have "topological es (order @ [i])"
    using topological_snoc[OF _ i(2)] assms(2) i(1,3) deg[OF i(1)] by (simp add: order_inv_def indegree_0)
  ultimately have "order_inv es d (queue @ new) (order @ [i])" using r(2) dt by (simp add: order_inv_def)
  then show ?thesis using i(1) r(1) by blast
qed

lemma order_loop_inv:
  "edges_wf es \<Longrightarrow> order_inv es degrees queue order \<Longrightarrow>
   \<exists>d order'. order_loop es degrees queue order = Some (d, order') \<and> order_inv es d [] order'"
proof (induction es degrees queue order rule: order_loop.induct)
  case (2 es degrees i queue order)
  from order_step[OF "2.prems"] obtain d q where
    "i < length es" "release_edges degrees queue (es ! i) = Some (d, q)" "order_inv es d q (order @ [i])" by blast
  then show ?case using "2.IH"[of "(d, q)"] "2.prems"(1) by auto
qed auto

definition position :: "nat list \<Rightarrow> nat \<Rightarrow> nat" where
  "position order i = length (takeWhile (\<lambda>j. j \<noteq> i) order)"

lemma position_nth: "distinct order \<Longrightarrow> k < length order \<Longrightarrow> position order (order ! k) = k"
proof -
  assume a: "distinct order" "k < length order"
  have "takeWhile (\<lambda>j. j \<noteq> order ! k) order = take k order"
    by (rule takeWhile_eq_take_P_nth) (use a in \<open>auto simp: nth_eq_iff_index_eq\<close>)
  then show ?thesis using a(2) by (simp add: position_def)
qed

lemma topological_position:
  assumes "topological es order" "j \<in> set order" "(i, j) \<in> steps es"
  shows "position order i < position order j"
proof -
  obtain k where k: "k < length order" "order ! k = j" using assms(2) by (auto simp: in_set_conv_nth)
  then obtain l where l: "l < k" "order ! l = i"
    using assms(1,3) by (fastforce simp: topological_def in_set_conv_nth)
  then show ?thesis using position_nth[of order] k assms(1) by (auto simp: topological_def)
qed

lemma topological_acyclic:
  assumes "topological es order" "edges_wf es" "set order = {..<length es}"
  shows "acyclic (steps es)"
proof (rule acyclic_subset)
  show "acyclic (measure (position order))" by (simp add: wf_acyclic)
  show "steps es \<subseteq> measure (position order)"
    using topological_position[OF assms(1)] steps_range[OF assms(2)] assms(3) by auto
qed

lemma order_complete:
  assumes "edges_wf es" "order_inv es degrees [] order"
  shows "length order = length es \<longleftrightarrow> acyclic (steps es)"
proof -
  have ord: "distinct order" "set order = {t. t < length es \<and> indegree es (set order) t = 0}" "topological es order"
    using assms(2) by (auto simp: order_inv_def)
  have full: "length order = length es \<longleftrightarrow> set order = {..<length es}"
  proof -
    have "set order \<subseteq> {..<length es}" using ord(2) by auto
    then show ?thesis using distinct_card[OF ord(1)] card_subset_eq[of "{..<length es}" "set order"] by auto
  qed
  show ?thesis unfolding full
  proof
    assume "set order = {..<length es}"
    then show "acyclic (steps es)" using topological_acyclic ord(3) assms(1) by blast
  next
    assume "acyclic (steps es)"
    then have wf: "wf (steps es)" using finite_acyclic_wf finite_steps[OF assms(1)] by blast
    show "set order = {..<length es}"
    proof (rule ccontr)
      assume "set order \<noteq> {..<length es}"
      then obtain x where "x \<in> {..<length es} - set order" using ord(2) by blast
      then obtain m where m: "m \<in> {..<length es} - set order" "\<And>i. (i, m) \<in> steps es \<Longrightarrow> i \<notin> {..<length es} - set order"
        using wfE_min[OF wf] by metis
      then have "indegree es (set order) m = 0" using steps_range[OF assms(1)] unfolding indegree_0 by auto
      then show False using m(1) ord(2) by auto
    qed
  qed
qed

lemma initial_order_inv:
  assumes "edges_wf es" "count_edges (replicate (length es) 0) (concat es) = Some degrees"
  shows "order_inv es degrees (initial_queue degrees) []"
proof -
  have "list_all (\<lambda>e. st_target e < length es) (concat es)" using assms(1) by (auto simp: edges_wf_def list_all_iff)
  then have "length degrees = length es" "\<forall>t < length es. degrees ! t = indegree es {} t"
    using count_edges_Some[of "replicate (length es) 0" "concat es"] assms(2) by (auto simp: arrivals_concat)
  then show ?thesis by (auto simp: order_inv_def initial_queue_def topological_def)
qed

lemma order_found:
  assumes "edges_wf es"
  shows "\<exists>degrees d order. count_edges (replicate (length es) 0) (concat es) = Some degrees \<and>
    order_loop es degrees (initial_queue degrees) [] = Some (d, order) \<and> topological es order \<and>
    (length order = length es \<longleftrightarrow> acyclic (steps es)) \<and> (length order = length es \<longrightarrow> set order = {..<length es})"
proof -
  have "list_all (\<lambda>e. st_target e < length es) (concat es)" using assms by (auto simp: edges_wf_def list_all_iff)
  then obtain degrees where degrees: "count_edges (replicate (length es) 0) (concat es) = Some degrees"
    using count_edges_Some[of "replicate (length es) 0" "concat es"] by auto
  obtain d order where o: "order_loop es degrees (initial_queue degrees) [] = Some (d, order)" "order_inv es d [] order"
    using order_loop_inv[OF assms initial_order_inv[OF assms degrees]] by blast
  have "set order = {..<length es}" if "length order = length es"
  proof (rule card_subset_eq)
    show "set order \<subseteq> {..<length es}" using o(2) by (auto simp: order_inv_def)
    have "distinct order" using o(2) by (simp add: order_inv_def)
    then show "card (set order) = card {..<length es}" using that distinct_card by fastforce
  qed simp
  then show ?thesis using degrees o order_complete[OF assms o(2)] by (auto simp: order_inv_def)
qed

section \<open>Ancestors\<close>

text \<open>The states from which a state outside is entered by a transition out of \<open>done\<close>.\<close>

definition entered :: "edges \<Rightarrow> nat set \<Rightarrow> nat \<Rightarrow> nat set" where
  "entered es done t = {j. \<exists>i \<in> done. (i, t) \<in> steps es \<and> (j, i) \<in> (steps es)\<^sup>*}"

lemma entered_all:
  assumes "\<And>i. (i, t) \<in> steps es \<Longrightarrow> i \<in> done"
  shows "entered es done t = {j. (j, t) \<in> (steps es)\<^sup>+}"
proof (rule set_eqI)
  fix j
  have "(\<exists>i. (j, i) \<in> (steps es)\<^sup>* \<and> (i, t) \<in> steps es) \<longleftrightarrow> (j, t) \<in> (steps es)\<^sup>+"
    by (auto simp: trancl_unfold_right)
  then show "j \<in> entered es done t \<longleftrightarrow> j \<in> {j. (j, t) \<in> (steps es)\<^sup>+}" using assms by (auto simp: entered_def)
qed

lemma add_ancestors_Some:
  assumes "i < length anc" "\<forall>e \<in> set ts. st_target e < length anc \<and> st_target e \<noteq> i"
  shows "\<exists>a. add_ancestors i ts anc = Some a \<and> length a = length anc \<and>
    (\<forall>t < length anc. a ! t = anc ! t \<union> (if \<exists>e \<in> set ts. st_target e = t then insert i (anc ! i) else {}))"
  using assms
proof (induction i ts anc rule: add_ancestors.induct)
  case (2 i e ts anc)
  let ?anc = "anc[st_target e := anc ! st_target e \<union> {i} \<union> anc ! i]"
  obtain a where a: "add_ancestors i ts ?anc = Some a" "length a = length anc"
    "\<forall>t < length anc. a ! t = ?anc ! t \<union> (if \<exists>e \<in> set ts. st_target e = t then insert i (?anc ! i) else {})"
    using "2.IH" "2.prems" by auto
  have "?anc ! i = anc ! i" using "2.prems" by (auto simp: nth_list_update)
  then show ?case using a "2.prems" by (auto simp: nth_list_update)
qed auto

lemma topological_step:
  assumes "topological es (done @ i # order)"
  shows "\<And>j. (j, i) \<in> steps es \<Longrightarrow> j \<in> set done" "(i, i) \<notin> steps es"
proof -
  show pre: "\<And>j. (j, i) \<in> steps es \<Longrightarrow> j \<in> set done"
    using assms[unfolded topological_def, THEN conjunct2, rule_format, of "length done"] by simp
  have "i \<notin> set done" using assms by (simp add: topological_def)
  then show "(i, i) \<notin> steps es" using pre by blast
qed

lemma ancestors_loop_Some:
  assumes "edges_wf es" "topological es (done @ order)" "set order \<subseteq> {..<length es}" "length anc = length es"
    "\<forall>t < length es. anc ! t = entered es (set done) t"
  shows "\<exists>a. ancestors_loop es order anc = Some a \<and> length a = length es \<and>
    (\<forall>t < length es. a ! t = entered es (set (done @ order)) t)"
  using assms
proof (induction order arbitrary: "done" anc)
  case (Cons i order)
  have i: "i < length es" using Cons.prems(3) by simp
  note topo = topological_step[OF Cons.prems(2)]
  have own: "anc ! i = {j. (j, i) \<in> (steps es)\<^sup>+}" using Cons.prems(5) i entered_all[OF topo(1)] by simp
  have targets: "\<forall>e \<in> set (es ! i). st_target e < length anc \<and> st_target e \<noteq> i"
    using edges_wfD[OF Cons.prems(1) i] topo(2) i Cons.prems(4) by (auto simp: steps_def)
  obtain a where a: "add_ancestors i (es ! i) anc = Some a" "length a = length es"
    "\<forall>t < length es. a ! t = anc ! t \<union> (if \<exists>e \<in> set (es ! i). st_target e = t then insert i (anc ! i) else {})"
    using add_ancestors_Some[OF _ targets] i Cons.prems(4) by auto
  have closure: "insert i (anc ! i) = {j. (j, i) \<in> (steps es)\<^sup>*}" unfolding own by (auto simp: rtrancl_eq_or_trancl)
  have "a ! t = entered es (set (done @ [i])) t" if "t < length es" for t
    using a(3) that Cons.prems(5) i unfolding closure by (auto simp: entered_def steps_def)
  then show ?case using Cons.IH[of "done @ [i]" a] Cons.prems(1-3) a(1,2) i by simp
qed simp

section \<open>Guarantees\<close>

text \<open>
  A way from the start to a state is the sequence of the states left on it, each with whether the
  transition taken makes its output available. A guarantee collects what every way passes: \<open>gen\<close> is
  what one step contributes.
\<close>

type_synonym way = "(nat \<times> bool) list"

inductive ways :: "edges \<Rightarrow> nat \<Rightarrow> way \<Rightarrow> nat \<Rightarrow> bool" for es start where
  ways_start: "ways es start [] start"
| ways_step: "ways es start w i \<Longrightarrow> i < length es \<Longrightarrow> e \<in> set (es ! i) \<Longrightarrow>
    ways es start (w @ [(i, st_output e)]) (st_target e)"

inductive_cases ways_NilE: "ways es start [] i"
inductive_cases ways_snocE: "ways es start (w @ [p]) i"

definition passed :: "(nat \<times> bool \<Rightarrow> nat set) \<Rightarrow> way \<Rightarrow> nat set" where
  "passed gen w = \<Union> (gen ` set w)"

definition on_all :: "(nat \<times> bool \<Rightarrow> nat set) \<Rightarrow> way set \<Rightarrow> nat set option" where
  "on_all gen ws = (if ws = {} then None else Some (\<Inter> (passed gen ` ws)))"

text \<open>The ways whose last transition leaves a state of \<open>done\<close>.\<close>

definition ways_from :: "edges \<Rightarrow> nat \<Rightarrow> nat set \<Rightarrow> nat \<Rightarrow> way set" where
  "ways_from es start done t = {w. ways es start w t \<and> (w \<noteq> [] \<longrightarrow> fst (last w) \<in> done)}"

definition ways_by :: "edges \<Rightarrow> nat \<Rightarrow> nat \<Rightarrow> state_transition list \<Rightarrow> nat \<Rightarrow> way set" where
  "ways_by es start i ts t = {w @ [(i, st_output e)] | w e. ways es start w i \<and> e \<in> set ts \<and> st_target e = t}"

lemma passed_snoc: "passed gen (w @ [p]) = passed gen w \<union> gen p"
  by (auto simp: passed_def)

lemma ways_reach: "(\<exists>w. ways es start w i) \<longleftrightarrow> (start, i) \<in> (steps es)\<^sup>*"
proof
  show "\<exists>w. ways es start w i \<Longrightarrow> (start, i) \<in> (steps es)\<^sup>*"
  proof (elim exE)
    fix w show "ways es start w i \<Longrightarrow> (start, i) \<in> (steps es)\<^sup>*"
      by (induction rule: ways.induct) (auto simp: steps_def intro: rtrancl_into_rtrancl)
  qed
  show "(start, i) \<in> (steps es)\<^sup>* \<Longrightarrow> \<exists>w. ways es start w i"
    by (induction rule: rtrancl_induct) (auto simp: steps_def intro: ways_start ways_step)
qed

lemma ways_last: "ways es start w t \<Longrightarrow> w \<noteq> [] \<Longrightarrow> (fst (last w), t) \<in> steps es"
  by (induction rule: ways.induct) (auto simp: steps_def)

lemma ways_from_all:
  assumes "\<And>j. (j, t) \<in> steps es \<Longrightarrow> j \<in> done"
  shows "ways_from es start done t = {w. ways es start w t}"
  using assms ways_last by (fastforce simp: ways_from_def)

lemma ways_from_insert:
  assumes "i < length es"
  shows "ways_from es start (insert i done) t = ways_from es start done t \<union> ways_by es start i (es ! i) t"
proof (intro set_eqI iffI)
  fix w assume w: "w \<in> ways_from es start (insert i done) t"
  show "w \<in> ways_from es start done t \<union> ways_by es start i (es ! i) t"
  proof (cases "w \<noteq> [] \<and> fst (last w) = i")
    case True
    then obtain v b where v: "w = v @ [(i, b)]" by (metis append_butlast_last_id prod.collapse)
    then have "ways es start (v @ [(i, b)]) t" using w by (simp add: ways_from_def)
    then obtain e where "ways es start v i" "e \<in> set (es ! i)" "b = st_output e" "t = st_target e"
      by (auto elim: ways_snocE)
    then show ?thesis using v by (auto simp: ways_by_def)
  qed (use w in \<open>auto simp: ways_from_def\<close>)
qed (use assms in \<open>auto simp: ways_from_def ways_by_def intro: ways_step\<close>)

lemma on_all_Un:
  assumes "vs \<noteq> {}"
  shows "intersect_path_guarantees (on_all gen ws) (\<Inter> (passed gen ` vs)) = on_all gen (ws \<union> vs)"
  using assms by (auto simp: on_all_def image_Un)

lemma passed_extended:
  assumes "ws \<noteq> {}"
  shows "\<Inter> (passed gen ` ws) \<union> gen p = \<Inter> (passed gen ` ((\<lambda>w. w @ [p]) ` ws))"
  using assms by (auto simp: passed_snoc)

text \<open>One component of the loop over the transitions of a state, with the set each transition carries on.\<close>

fun meet_all :: "(state_transition \<Rightarrow> nat set) \<Rightarrow> state_transition list \<Rightarrow> guarantees \<Rightarrow> guarantees" where
  "meet_all f [] gs = gs"
| "meet_all f (e # es) gs = meet_all f es (gs[st_target e := intersect_path_guarantees (gs ! st_target e) (f e)])"

lemma meet_edges_all:
  "list_all (\<lambda>e. st_target e < length definite) ts \<Longrightarrow> length available = length definite \<Longrightarrow>
   meet_edges i ds outs ts definite available =
     Some (meet_all (\<lambda>e. insert i ds) ts definite, meet_all (\<lambda>e. if st_output e then insert i outs else outs) ts available)"
  by (induction ts arbitrary: definite available) (auto simp: Let_def)

lemma meet_all_ways:
  assumes "\<exists>w. ways es start w i" "list_all (\<lambda>e. st_target e < length gs) ts"
    "\<forall>t < length gs. gs ! t = on_all gen (ws t)"
    "\<And>e. e \<in> set ts \<Longrightarrow> f e = \<Inter> (passed gen ` {w. ways es start w i}) \<union> gen (i, st_output e)"
  shows "length (meet_all f ts gs) = length gs \<and>
    (\<forall>t < length gs. meet_all f ts gs ! t = on_all gen (ws t \<union> ways_by es start i ts t))"
  using assms(2-4)
proof (induction ts arbitrary: gs ws)
  case Nil
  then show ?case by (simp add: ways_by_def)
next
  case (Cons e ts)
  let ?t = "st_target e" and ?new = "(\<lambda>w. w @ [(i, st_output e)]) ` {w. ways es start w i}"
  let ?gs = "gs[?t := intersect_path_guarantees (gs ! ?t) (f e)]"
  let ?ws = "ws(?t := ws ?t \<union> ?new)"
  have "f e = \<Inter> (passed gen ` ?new)"
    using Cons.prems(3)[of e] passed_extended[of "{w. ways es start w i}" gen "(i, st_output e)"] assms(1) by auto
  then have "intersect_path_guarantees (gs ! ?t) (f e) = on_all gen (?ws ?t)"
    using Cons.prems(1,2) on_all_Un[of ?new gen "ws ?t"] assms(1) by auto
  then have "\<forall>t < length ?gs. ?gs ! t = on_all gen (?ws t)" using Cons.prems(2) by (auto simp: nth_list_update)
  then have ih: "length (meet_all f ts ?gs) = length ?gs \<and>
    (\<forall>t < length ?gs. meet_all f ts ?gs ! t = on_all gen (?ws t \<union> ways_by es start i ts t))"
    using Cons.IH[of ?gs ?ws] Cons.prems(1,3) by simp
  have "?ws t \<union> ways_by es start i ts t = ws t \<union> ways_by es start i (e # ts) t" for t by (auto simp: ways_by_def)
  then show ?case using ih by simp
qed

definition left_states :: "nat \<times> bool \<Rightarrow> nat set" where
  "left_states p = {fst p}"

definition left_outputs :: "nat \<times> bool \<Rightarrow> nat set" where
  "left_outputs p = (if snd p then {fst p} else {})"

definition guaranteed :: "edges \<Rightarrow> nat \<Rightarrow> nat set \<Rightarrow> (nat \<times> bool \<Rightarrow> nat set) \<Rightarrow> guarantees \<Rightarrow> bool" where
  "guaranteed es start done gen gs \<longleftrightarrow>
     length gs = length es \<and> (\<forall>t < length es. gs ! t = on_all gen (ways_from es start done t))"

lemma guaranteed_step:
  assumes "edges_wf es" "i < length es" "guaranteed es start done gen gs" "\<exists>w. ways es start w i"
    "\<And>e. e \<in> set (es ! i) \<Longrightarrow> f e = \<Inter> (passed gen ` {w. ways es start w i}) \<union> gen (i, st_output e)"
  shows "guaranteed es start (insert i done) gen (meet_all f (es ! i) gs)"
proof -
  have "list_all (\<lambda>e. st_target e < length gs) (es ! i)"
    using edges_wfD[OF assms(1,2)] assms(3) by (auto simp: list_all_iff guaranteed_def)
  from meet_all_ways[OF assms(4) this, of gen "ways_from es start done" f] assms(3,5) show ?thesis
    by (simp add: guaranteed_def ways_from_insert[OF assms(2)])
qed

lemma guarantees_loop_Some:
  assumes "edges_wf es" "topological es (done @ order)" "set order \<subseteq> {..<length es}"
    "guaranteed es start (set done) left_states definite" "guaranteed es start (set done) left_outputs available"
    "\<forall>i \<in> set order. \<exists>w. ways es start w i"
  shows "\<exists>d a. guarantees_loop es order definite available = Some (d, a) \<and>
    guaranteed es start (set (done @ order)) left_states d \<and> guaranteed es start (set (done @ order)) left_outputs a"
  using assms
proof (induction order arbitrary: "done" definite available)
  case (Cons i order)
  let ?ws = "{w. ways es start w i}"
  have i: "i < length es" and reached: "\<exists>w. ways es start w i" using Cons.prems(3,6) by auto
  have len: "length definite = length es" "length available = length es" using Cons.prems(4,5) by (simp_all add: guaranteed_def)
  have all: "ways_from es start (set done) i = ?ws"
    by (rule ways_from_all) (use topological_step[OF Cons.prems(2)] in blast)
  have here: "definite ! i = Some (\<Inter> (passed left_states ` ?ws))" "available ! i = Some (\<Inter> (passed left_outputs ` ?ws))"
    using Cons.prems(4,5) i reached by (simp_all add: guaranteed_def all on_all_def)
  let ?d = "meet_all (\<lambda>e. insert i (\<Inter> (passed left_states ` ?ws))) (es ! i) definite"
  let ?a = "meet_all (\<lambda>e. if st_output e then insert i (\<Inter> (passed left_outputs ` ?ws)) else \<Inter> (passed left_outputs ` ?ws)) (es ! i) available"
  have meet: "meet_edges i (\<Inter> (passed left_states ` ?ws)) (\<Inter> (passed left_outputs ` ?ws)) (es ! i) definite available = Some (?d, ?a)"
    by (rule meet_edges_all) (use edges_wfD[OF Cons.prems(1) i] len in \<open>auto simp: list_all_iff\<close>)
  have "guaranteed es start (insert i (set done)) left_states ?d"
    by (rule guaranteed_step[OF Cons.prems(1) i Cons.prems(4) reached]) (auto simp: left_states_def[of "(i, _)"])
  moreover have "guaranteed es start (insert i (set done)) left_outputs ?a"
    by (rule guaranteed_step[OF Cons.prems(1) i Cons.prems(5) reached]) (auto simp: left_outputs_def[of "(i, _)"])
  ultimately obtain d a where "guarantees_loop es order ?d ?a = Some (d, a)"
    "guaranteed es start (set ((done @ [i]) @ order)) left_states d" "guaranteed es start (set ((done @ [i]) @ order)) left_outputs a"
    using Cons.IH[of "done @ [i]" ?d ?a] Cons.prems(1-3,6) by auto
  then show ?case using here i len meet by auto
qed simp

lemma initial_guaranteed:
  assumes "start < length es"
  shows "guaranteed es start {} gen ((replicate (length es) None)[start := Some {}])"
proof -
  have "ways_from es start {} t = (if t = start then {[]} else {})" for t
    by (auto simp: ways_from_def intro: ways_start elim: ways_NilE)
  then show ?thesis using assms by (simp add: guaranteed_def on_all_def passed_def nth_list_update)
qed

definition exact_sets :: "edges \<Rightarrow> nat \<Rightarrow> nat set list \<Rightarrow> nat set list \<Rightarrow> nat set list \<Rightarrow> bool" where
  "exact_sets es start anc ds outs \<longleftrightarrow>
     length anc = length es \<and> length ds = length es \<and> length outs = length es \<and>
     (\<forall>i < length es. anc ! i = {j. (j, i) \<in> (steps es)\<^sup>+} \<and>
        ds ! i = \<Inter> (passed left_states ` {w. ways es start w i}) \<and>
        outs ! i = \<Inter> (passed left_outputs ` {w. ways es start w i}))"

text \<open>The sets of the graph, once the order is complete and every state is reachable.\<close>

lemma graph_sets_Some:
  assumes "edges_wf es" "start < length es" "topological es order" "set order = {..<length es}"
    "\<forall>i < length es. (start, i) \<in> (steps es)\<^sup>*"
  shows "\<exists>anc ds outs. graph_sets es start order = Some (anc, ds, outs) \<and> exact_sets es start anc ds outs"
proof -
  let ?n = "length es" and ?init = "(replicate (length es) None)[start := Some {}] :: guarantees"
  have inside: "\<And>i j. (j, i) \<in> steps es \<Longrightarrow> j \<in> set order" using steps_range[OF assms(1)] assms(4) by blast
  have reached: "\<forall>i \<in> set order. \<exists>w. ways es start w i" using assms(4,5) ways_reach by auto
  have "\<forall>t < ?n. replicate ?n {} ! t = entered es (set []) t" by (simp add: entered_def)
  then obtain anc where anc: "ancestors_loop es order (replicate ?n {}) = Some anc" "length anc = ?n"
    "\<forall>t < ?n. anc ! t = entered es (set order) t"
    using ancestors_loop_Some[OF assms(1), of "[]" order "replicate ?n {}"] assms(3,4) by auto
  obtain d a where g: "guarantees_loop es order ?init ?init = Some (d, a)"
    "guaranteed es start (set order) left_states d" "guaranteed es start (set order) left_outputs a"
    using guarantees_loop_Some[OF assms(1), of "[]" order start ?init ?init] assms(2-4) reached initial_guaranteed[of start es]
    by auto
  have all: "ways_from es start (set order) t = {w. ways es start w t}" for t by (rule ways_from_all) (rule inside)
  have exact: "gs = map (\<lambda>i. Some (\<Inter> (passed gen ` {w. ways es start w i}))) [0..<?n]"
    if gs: "guaranteed es start (set order) gen gs" for gen gs
  proof (rule nth_equalityI)
    show "length gs = length (map (\<lambda>i. Some (\<Inter> (passed gen ` {w. ways es start w i}))) [0..<?n])"
      using gs by (simp add: guaranteed_def)
    fix i assume "i < length gs"
    then have i: "i < ?n" using gs by (simp add: guaranteed_def)
    then have "{w. ways es start w i} \<noteq> {}" using reached assms(4) by auto
    then show "gs ! i = map (\<lambda>i. Some (\<Inter> (passed gen ` {w. ways es start w i}))) [0..<?n] ! i"
      using gs i by (simp add: guaranteed_def all on_all_def)
  qed
  note d = exact[OF g(2)] and a = exact[OF g(3)]
  have collect: "collect_opt id (map (\<lambda>x. Some (f x)) xs) = Some (map f xs)" for f :: "nat \<Rightarrow> nat set" and xs
    by (induction xs) auto
  show ?thesis using anc entered_all[OF inside] g(1)
    by (auto simp: graph_sets_def exact_sets_def Let_def d a collect simp del: set_upt)
qed

end
