(* ===== verification/Process_Ways.thy ===== *)
theory Process_Ways
  imports Process_Graph
begin

text \<open>
  Validation of process graphs against the names of the states: which processes are accepted, and what
  the sets of a validated graph say about the ways an instance can take.
\<close>

section \<open>Processes by the names of their states\<close>

text \<open>
  What validation means without indices: the step relation on state names, processes that are sound,
  and the ways an instance can take through the states.
\<close>

definition leads_to :: "process \<Rightarrow> (string \<times> string) set" where
  "leads_to p = {(state_id s, t) | s t. s \<in> set (states p) \<and> t \<in> fst ` set (state_transitions s)}"

definition sound_process :: "process \<Rightarrow> bool" where
  "sound_process p \<longleftrightarrow>
     (\<forall>s \<in> set (states p). \<not> is_space_only (state_id s)) \<and> distinct (map state_id (states p)) \<and>
     start_at p \<in> state_id ` set (states p) \<and> snd ` leads_to p \<subseteq> state_id ` set (states p) \<and>
     (\<forall>s \<in> set (states p). (start_at p, state_id s) \<in> (leads_to p)\<^sup>*) \<and> acyclic (leads_to p)"

inductive takes :: "process \<Rightarrow> (string \<times> bool) list \<Rightarrow> string \<Rightarrow> bool" for p where
  takes_start: "takes p [] (start_at p)"
| takes_step: "takes p w (state_id s) \<Longrightarrow> s \<in> set (states p) \<Longrightarrow> (t, out) \<in> set (state_transitions s) \<Longrightarrow>
    takes p (w @ [(state_id s, out)]) t"

lemma index_states_Ok:
  "index_states path i ss idx = Ok m \<Longrightarrow>
   (\<forall>s \<in> set ss. \<not> is_space_only (state_id s) \<and> bt_get idx (state_id s) = None) \<and> distinct (map state_id ss) \<and>
   (\<forall>x k. bt_get m x = Some k \<longleftrightarrow> bt_get idx x = Some k \<or> (\<exists>j < length ss. k = i + j \<and> state_id (ss ! j) = x))"
proof (induction path i ss idx rule: index_states.induct)
  case (2 path i s ss idx)
  let ?idx = "bt_insert (state_id s) i idx"
  have s: "\<not> is_space_only (state_id s)" "bt_get idx (state_id s) = None" "index_states path (Suc i) ss ?idx = Ok m"
    using "2.prems" by (auto simp: bt_contains_def split: if_splits)
  have "\<not> bt_contains idx (state_id s)" using s(2) by (simp add: bt_contains_def)
  note ih = "2.IH"[OF s(1) this s(3)]
  have new: "(\<exists>j < length (s # ss). k = i + j \<and> state_id ((s # ss) ! j) = x) \<longleftrightarrow>
    k = i \<and> x = state_id s \<or> (\<exists>j < length ss. k = Suc i + j \<and> state_id (ss ! j) = x)" for k x
    by (auto simp: less_Suc_eq_0_disj)
  show ?case unfolding new using ih s(1,2) by (auto simp: bt_get_insert split: if_splits)
qed auto

lemma index_states_total:
  assumes "\<forall>s \<in> set ss. \<not> is_space_only (state_id s) \<and> bt_get idx (state_id s) = None" "distinct (map state_id ss)"
  shows "\<exists>m. index_states path i ss idx = Ok m"
  using assms
proof (induction path i ss idx rule: index_states.induct)
  case (2 path i s ss idx)
  have "state_id r \<noteq> state_id s" if "r \<in> set ss" for r using "2.prems"(2) that by (metis distinct.simps(2) image_eqI list.simps(9) set_map)
  then show ?case using 2 by (auto simp: bt_contains_def bt_get_insert)
qed simp

lemma state_edges_Ok:
  "state_edges path i idx ts es = Ok es' \<Longrightarrow>
   (\<forall>(t, out) \<in> set ts. bt_get idx t \<noteq> None) \<and>
   set es' = set es \<union> {\<lparr>st_target = j, st_output = out\<rparr> | t j out. (t, out) \<in> set ts \<and> bt_get idx t = Some j}"
proof (induction path i idx ts es rule: state_edges.induct)
  case (2 path i idx t out ts es)
  obtain j where j: "bt_get idx t = Some j" using "2.prems" by (auto split: option.splits)
  let ?e = "\<lparr>st_target = j, st_output = out\<rparr>"
  have "state_edges path i idx ts (if ?e \<in> set es then es else es @ [?e]) = Ok es'" using "2.prems" j by (simp add: Let_def)
  from "2.IH"[OF j refl this] j show ?case by (auto split: if_splits)
qed auto

lemma state_edges_total:
  "\<forall>(t, out) \<in> set ts. bt_get idx t \<noteq> None \<Longrightarrow> \<exists>es'. state_edges path i idx ts es = Ok es'"
  by (induction path i idx ts es rule: state_edges.induct) (auto simp: Let_def)

lemma graph_edges_Ok:
  "graph_edges path i idx ss = Ok es \<Longrightarrow>
   length es = length ss \<and>
   (\<forall>k < length ss. (\<forall>(t, out) \<in> set (state_transitions (ss ! k)). bt_get idx t \<noteq> None) \<and>
      set (es ! k) = {\<lparr>st_target = j, st_output = out\<rparr> | t j out. (t, out) \<in> set (state_transitions (ss ! k)) \<and> bt_get idx t = Some j})"
proof (induction path i idx ss arbitrary: es rule: graph_edges.induct)
  case (2 path i idx s ss)
  then obtain e rest where r: "es = e # rest" "state_edges path i idx (state_transitions s) [] = Ok e"
    "graph_edges path (Suc i) idx ss = Ok rest"
    by (auto simp: res_map_Ok)
  have "length (s # ss) = Suc (length ss)" by simp
  then show ?case using state_edges_Ok[OF r(2)] "2.IH"[OF r(2,3)] unfolding r(1) by (simp add: All_less_Suc2)
qed simp

lemma graph_edges_total:
  "\<forall>s \<in> set ss. \<forall>(t, out) \<in> set (state_transitions s). bt_get idx t \<noteq> None \<Longrightarrow> \<exists>es. graph_edges path i idx ss = Ok es"
proof (induction path i idx ss rule: graph_edges.induct)
  case (2 path i idx s ss)
  obtain e where e: "state_edges path i idx (state_transitions s) [] = Ok e"
    using state_edges_total[of "state_transitions s" idx] "2.prems" by fastforce
  then show ?case using "2.IH"[OF e] "2.prems" by (auto simp: res_map_Ok)
qed simp

text \<open>The edge lists of a process: what indexing its states and collecting its transitions establishes.\<close>

abbreviation state_name :: "process \<Rightarrow> nat \<Rightarrow> string" where
  "state_name p i \<equiv> state_id (states p ! i)"

definition indexed :: "process \<Rightarrow> edges \<Rightarrow> nat \<Rightarrow> bool" where
  "indexed p es start \<longleftrightarrow>
     distinct (map state_id (states p)) \<and> length es = length (states p) \<and>
     start < length es \<and> state_name p start = start_at p \<and> snd ` leads_to p \<subseteq> state_id ` set (states p) \<and>
     (\<forall>k < length es. set (es ! k) =
        {\<lparr>st_target = j, st_output = out\<rparr> | j out. j < length es \<and> (state_name p j, out) \<in> set (state_transitions (states p ! k))})"

lemma name_inject:
  "indexed p es start \<Longrightarrow> i < length es \<Longrightarrow> j < length es \<Longrightarrow> state_name p i = state_name p j \<Longrightarrow> i = j"
  using nth_eq_iff_index_eq[of "map state_id (states p)" i j] by (simp add: indexed_def)

lemma named_state: "indexed p es start \<Longrightarrow> s \<in> set (states p) \<Longrightarrow> \<exists>i < length es. states p ! i = s"
  by (metis in_set_conv_nth indexed_def)

lemma indexed_wf:
  assumes "indexed p es start"
  shows "edges_wf es"
proof -
  have "st_target e < length es" if k: "k < length es" "e \<in> set (es ! k)" for k e
  proof -
    have "set (es ! k) = {\<lparr>st_target = j, st_output = out\<rparr> | j out. j < length es \<and> (state_name p j, out) \<in> set (state_transitions (states p ! k))}"
      using assms k(1) unfolding indexed_def by blast
    then show ?thesis using k(2) by auto
  qed
  then show ?thesis unfolding edges_wf_def list_all_iff by (metis in_set_conv_nth)
qed

lemma indexed_steps:
  assumes "indexed p es start"
  shows "(i, j) \<in> steps es \<longleftrightarrow> i < length es \<and> j < length es \<and> (state_name p i, state_name p j) \<in> leads_to p"
proof (cases "i < length es")
  case True
  have mem: "e \<in> set (es ! i) \<longleftrightarrow> st_target e < length es \<and>
      (state_name p (st_target e), st_output e) \<in> set (state_transitions (states p ! i))" for e
    using assms True by (cases e) (auto simp: indexed_def)
  have "(state_name p i, state_name p j) \<in> leads_to p \<longleftrightarrow> state_name p j \<in> fst ` set (state_transitions (states p ! i))"
  proof -
    have "s = states p ! i" if "s \<in> set (states p)" "state_id s = state_name p i" for s
      using named_state[OF assms that(1)] name_inject[OF assms _ True] that(2) by auto
    moreover have "states p ! i \<in> set (states p)" using assms True by (simp add: indexed_def)
    ultimately show ?thesis unfolding leads_to_def by (smt (verit) CollectD CollectI Pair_inject)
  qed
  moreover have "(i, j) \<in> steps es \<longleftrightarrow> j < length es \<and> (\<exists>out. (state_name p j, out) \<in> set (state_transitions (states p ! i)))"
    using True by (auto simp: steps_def mem intro: bexI[of _ "\<lparr>st_target = j, st_output = _\<rparr>"])
  ultimately show ?thesis using True by force
qed (auto simp: steps_def)

lemma leads_to_image:
  assumes "indexed p es start" "(x, y) \<in> leads_to p"
  shows "\<exists>i j. x = state_name p i \<and> y = state_name p j \<and> (i, j) \<in> steps es"
proof -
  obtain s where s: "s \<in> set (states p)" "x = state_id s" using assms(2) by (auto simp: leads_to_def)
  have "y \<in> state_id ` set (states p)" using assms by (force simp: indexed_def)
  then obtain r where r: "r \<in> set (states p)" "y = state_id r" by blast
  obtain i j where "i < length es" "states p ! i = s" "j < length es" "states p ! j = r"
    using named_state[OF assms(1)] s(1) r(1) by meson
  then show ?thesis using indexed_steps[OF assms(1), of i j] assms(2) s(2) r(2) by blast
qed

lemma leads_to_trancl:
  assumes "indexed p es start" "i < length es" "j < length es"
  shows "(state_name p i, state_name p j) \<in> (leads_to p)\<^sup>+ \<longleftrightarrow> (i, j) \<in> (steps es)\<^sup>+"
proof
  have "\<exists>k < length es. y = state_name p k \<and> (i, k) \<in> (steps es)\<^sup>+" if "(state_name p i, y) \<in> (leads_to p)\<^sup>+" for y
    using that
  proof (induction rule: trancl_induct)
    case (base y)
    then obtain a k where "state_name p i = state_name p a" "y = state_name p k" "(a, k) \<in> steps es"
      using leads_to_image[OF assms(1)] by blast
    then show ?case using name_inject[OF assms(1,2)] indexed_steps[OF assms(1), of a k] by blast
  next
    case (step y z)
    then obtain k a l where "k < length es" "(i, k) \<in> (steps es)\<^sup>+" "y = state_name p k" "y = state_name p a"
      "z = state_name p l" "(a, l) \<in> steps es"
      using leads_to_image[OF assms(1) step(2)] by blast
    then show ?case using name_inject[OF assms(1), of k a] indexed_steps[OF assms(1), of a l] trancl_into_trancl by metis
  qed
  then show "(state_name p i, state_name p j) \<in> (leads_to p)\<^sup>+ \<Longrightarrow> (i, j) \<in> (steps es)\<^sup>+"
    using name_inject[OF assms(1)] assms(3) by metis
next
  show "(i, j) \<in> (steps es)\<^sup>+ \<Longrightarrow> (state_name p i, state_name p j) \<in> (leads_to p)\<^sup>+"
    by (induction rule: trancl_induct) (auto simp: indexed_steps[OF assms(1)] intro: trancl_into_trancl)
qed

lemma leads_to_rtrancl:
  assumes "indexed p es start" "i < length es" "j < length es"
  shows "(state_name p i, state_name p j) \<in> (leads_to p)\<^sup>* \<longleftrightarrow> (i, j) \<in> (steps es)\<^sup>*"
  using leads_to_trancl[OF assms] name_inject[OF assms] by (auto simp: rtrancl_eq_or_trancl)

lemma leads_to_acyclic:
  assumes "indexed p es start"
  shows "acyclic (leads_to p) \<longleftrightarrow> acyclic (steps es)"
proof -
  have "\<exists>i < length es. x = state_name p i" if cyc: "(x, x) \<in> (leads_to p)\<^sup>+" for x
  proof -
    obtain y where "(x, y) \<in> leads_to p" using tranclD[OF cyc] by blast
    then show ?thesis using leads_to_image[OF assms] indexed_steps[OF assms] by blast
  qed
  moreover have "i < length es" if "(i, i) \<in> (steps es)\<^sup>+" for i using tranclD[OF that] by (auto simp: steps_def)
  ultimately show ?thesis using leads_to_trancl[OF assms] unfolding acyclic_def by metis
qed

abbreviation named_way :: "process \<Rightarrow> way \<Rightarrow> (string \<times> bool) list" where
  "named_way p w \<equiv> map (\<lambda>(i, out). (state_name p i, out)) w"

lemma ways_take:
  assumes "indexed p es start" "ways es start w i"
  shows "takes p (named_way p w) (state_name p i) \<and> fst ` set w \<subseteq> {..<length es}"
  using assms(2)
proof (induction rule: ways.induct)
  case ways_start
  then show ?case using assms(1) takes_start[of p] by (simp add: indexed_def)
next
  case (ways_step w i e)
  then have "states p ! i \<in> set (states p)" "(state_name p (st_target e), st_output e) \<in> set (state_transitions (states p ! i))"
    using assms(1) by (auto simp: indexed_def)
  then show ?case using ways_step takes_step[of p "named_way p w" "states p ! i"] by simp
qed

lemma takes_ways:
  assumes "indexed p es start" "takes p w x"
  shows "\<exists>v i. i < length es \<and> x = state_name p i \<and> w = named_way p v \<and> ways es start v i"
  using assms(2)
proof (induction rule: takes.induct)
  case takes_start
  then show ?case using assms(1) ways_start[of es start] by (intro exI[of _ "[]"] exI[of _ start]) (simp add: indexed_def)
next
  case (takes_step w s t out)
  then obtain v i where v: "i < length es" "state_id s = state_name p i" "w = named_way p v" "ways es start v i" by blast
  then have s: "s = states p ! i" using named_state[OF assms(1) takes_step(2)] name_inject[OF assms(1)] by metis
  have "(state_id s, t) \<in> leads_to p" using takes_step(2,3) by (force simp: leads_to_def)
  then obtain j where j: "t = state_name p j" "j < length es"
    using leads_to_image[OF assms(1)] indexed_steps[OF assms(1)] by blast
  have "\<lparr>st_target = j, st_output = out\<rparr> \<in> set (es ! i)"
    using assms(1) v(1) j takes_step(3) s by (auto simp: indexed_def)
  from ways_step[OF v(4,1) this] show ?case
    using j v(2,3) by (intro exI[of _ "v @ [(i, out)]"] exI[of _ j]) simp
qed

lemma named_way_mem:
  assumes "indexed p es start" "ways es start w i" "j < length es"
  shows "(state_name p j, out) \<in> set (named_way p w) \<longleftrightarrow> (j, out) \<in> set w"
  using ways_take[OF assms(1,2)] name_inject[OF assms(1,3)] by force

section \<open>Validation is exact\<close>

lemma built_indexed:
  assumes "index_states path 0 (states p) [] = Ok m" "bt_get m (start_at p) = Some start"
    "graph_edges path 0 m (states p) = Ok es"
  shows "indexed p es start"
proof -
  have idx: "bt_get m x = Some k \<longleftrightarrow> k < length (states p) \<and> state_name p k = x" for x k
    using index_states_Ok[OF assms(1)] by auto
  have es: "length es = length (states p)"
    "\<And>k. k < length (states p) \<Longrightarrow> \<forall>(t, out) \<in> set (state_transitions (states p ! k)). bt_get m t \<noteq> None"
    "\<And>k. k < length (states p) \<Longrightarrow> set (es ! k) = {\<lparr>st_target = j, st_output = out\<rparr> | t j out.
      (t, out) \<in> set (state_transitions (states p ! k)) \<and> bt_get m t = Some j}"
    using graph_edges_Ok[OF assms(3)] by blast+
  have "t \<in> state_id ` set (states p)" if "(x, t) \<in> leads_to p" for x t
  proof -
    obtain s out where "s \<in> set (states p)" "(t, out) \<in> set (state_transitions s)" using \<open>(x, t) \<in> leads_to p\<close> by (auto simp: leads_to_def)
    then obtain j where "bt_get m t = Some j" using es(2) by (fastforce simp: in_set_conv_nth)
    then show ?thesis using idx by (metis image_eqI nth_mem)
  qed
  moreover have "set (es ! k) = {\<lparr>st_target = j, st_output = out\<rparr> | j out. j < length es \<and> (state_name p j, out) \<in> set (state_transitions (states p ! k))}"
    if "k < length es" for k
    using es(3)[of k] that es(1) by (auto simp: idx)
  ultimately show ?thesis
    using index_states_Ok[OF assms(1)] es(1) idx[of "start_at p" start] assms(2) by (auto simp: indexed_def)
qed

lemma sound_built:
  assumes "\<forall>s \<in> set (states p). \<not> is_space_only (state_id s)" "distinct (map state_id (states p))"
    "start_at p \<in> state_id ` set (states p)" "snd ` leads_to p \<subseteq> state_id ` set (states p)"
  shows "\<exists>m start es. index_states path 0 (states p) [] = Ok m \<and> bt_get m (start_at p) = Some start \<and>
    graph_edges path 0 m (states p) = Ok es"
proof -
  obtain m where m: "index_states path 0 (states p) [] = Ok m"
    using index_states_total[of "states p" "[]" path 0] assms(1,2) by auto
  have idx: "bt_get m x = Some k \<longleftrightarrow> k < length (states p) \<and> state_name p k = x" for x k
    using index_states_Ok[OF m] by auto
  then have known: "\<exists>k. bt_get m x = Some k" if "x \<in> state_id ` set (states p)" for x
    using that by (auto simp: in_set_conv_nth)
  have "bt_get m t \<noteq> None" if "s \<in> set (states p)" "(t, out) \<in> set (state_transitions s)" for s t out
  proof -
    have "(state_id s, t) \<in> leads_to p" using that by (force simp: leads_to_def)
    then show ?thesis using known[of t] assms(4) by force
  qed
  then show ?thesis using m known[OF assms(3)] graph_edges_total[of "states p" m path 0] by fastforce
qed

lemma first_position_None: "first_position P xs = None \<longleftrightarrow> (\<forall>i < length xs. \<not> P (xs ! i))"
  by (auto simp: first_position_def list.case_eq_if filter_empty_conv split: if_splits)

text \<open>What validation does with a process whose states and transitions could be indexed.\<close>

lemma validate_indexed:
  assumes "index_states path 0 (states p) [] = Ok m" "bt_get m (start_at p) = Some start"
    "graph_edges path 0 m (states p) = Ok es"
  shows "if (\<forall>i < length es. (start, i) \<in> (steps es)\<^sup>*) \<and> acyclic (steps es)
    then \<exists>order anc ds outs. validate_graph p path = Some (Ok \<lparr>state_indices = m, topological_order = order,
        ancestors = anc, definite_ancestors = ds, available_outputs = outs\<rparr>) \<and>
        topological es order \<and> set order = {..<length es} \<and> graph_sets es start order = Some (anc, ds, outs)
    else \<exists>e. validate_graph p path = Some (Err e)"
proof -
  have ix: "indexed p es start" using built_indexed[OF assms] .
  then have n: "length (states p) = length es" "start < length es" and wf: "edges_wf es"
    using indexed_wf by (auto simp: indexed_def)
  obtain r where r: "reach_loop es (replicate (length es) False) [start] = Some r" "length r = length es"
    "\<forall>i < length es. r ! i \<longleftrightarrow> (start, i) \<in> (steps es)\<^sup>*"
    using reach_loop_reachable[OF wf n(2)] by blast
  obtain degrees d order where o: "count_edges (replicate (length es) 0) (concat es) = Some degrees"
    "order_loop es degrees (initial_queue degrees) [] = Some (d, order)" "topological es order"
    "length order = length es \<longleftrightarrow> acyclic (steps es)" "length order = length es \<longrightarrow> set order = {..<length es}"
    using order_found[OF wf] by blast
  have none: "first_position Not r = None \<longleftrightarrow> (\<forall>i < length es. (start, i) \<in> (steps es)\<^sup>*)"
    using r(2,3) by (simp add: first_position_None)
  note unfold = validate_graph_def assms n r(1) o(1,2) Let_def
  show ?thesis
  proof (cases "first_position Not r")
    case (Some i)
    then show ?thesis using none by (simp add: unfold del: reach_loop.simps)
  next
    case None
    show ?thesis
    proof (cases "acyclic (steps es)")
      case True
      then have full: "length order = length es" "set order = {..<length es}" using o(4,5) by auto
      have reached: "\<forall>i < length es. (start, i) \<in> (steps es)\<^sup>*" using None none by simp
      obtain anc ds outs where sets: "graph_sets es start order = Some (anc, ds, outs)"
        using graph_sets_Some[OF wf n(2) o(3) full(2) reached] by blast
      have "validate_graph p path = Some (Ok \<lparr>state_indices = m, topological_order = order,
        ancestors = anc, definite_ancestors = ds, available_outputs = outs\<rparr>)"
        using None full(1) sets by (simp add: unfold del: reach_loop.simps)
      then show ?thesis using reached True full(2) o(3) sets by meson
    next
      case False
      then show ?thesis using None o(4) by (simp add: unfold del: reach_loop.simps)
    qed
  qed
qed

lemma sound_indexed:
  assumes "indexed p es start" "\<forall>s \<in> set (states p). \<not> is_space_only (state_id s)"
  shows "sound_process p \<longleftrightarrow> (\<forall>i < length es. (start, i) \<in> (steps es)\<^sup>*) \<and> acyclic (steps es)"
proof -
  have start: "start < length es" "start_at p = state_name p start" "length es = length (states p)"
    using assms(1) by (auto simp: indexed_def)
  have "(\<forall>s \<in> set (states p). (start_at p, state_id s) \<in> (leads_to p)\<^sup>*) \<longleftrightarrow> (\<forall>i < length es. (start, i) \<in> (steps es)\<^sup>*)"
    using leads_to_rtrancl[OF assms(1) start(1)] unfolding start(2,3) by (metis in_set_conv_nth)
  moreover have "state_name p start \<in> state_id ` set (states p)" using start(1,3) by simp
  ultimately show ?thesis using assms leads_to_acyclic[OF assms(1)] unfolding sound_process_def start(2) by (simp add: indexed_def)
qed

lemma rejected_unsound:
  assumes "\<And>m start es. index_states path 0 (states p) [] = Ok m \<Longrightarrow> bt_get m (start_at p) = Some start \<Longrightarrow>
    graph_edges path 0 m (states p) \<noteq> Ok es"
  shows "(\<exists>e. validate_graph p path = Some (Err e)) \<and> \<not> sound_process p"
proof
  show "\<exists>e. validate_graph p path = Some (Err e)"
    using assms by (auto simp: validate_graph_def Let_def split: result.splits option.splits)
  show "\<not> sound_process p" using sound_built[of p path] assms by (auto simp: sound_process_def)
qed

text \<open>
  (C14) Validation of a process graph never panics: no index is out of range, no counter drops below
  zero and every \<open>expect\<close> holds. It accepts exactly the processes whose state ids are distinct and not
  blank, whose start and transition targets exist, whose states are all reachable from the start, and
  whose transitions are acyclic.
\<close>

theorem graph_validation_exact:
  "\<exists>r. validate_graph p path = Some r \<and> ((\<exists>g. r = Ok g) \<longleftrightarrow> sound_process p)"
proof (cases "\<exists>m start es. index_states path 0 (states p) [] = Ok m \<and> bt_get m (start_at p) = Some start \<and>
    graph_edges path 0 m (states p) = Ok es")
  case True
  then obtain m start es where built: "index_states path 0 (states p) [] = Ok m" "bt_get m (start_at p) = Some start"
    "graph_edges path 0 m (states p) = Ok es" by blast
  have "\<forall>s \<in> set (states p). \<not> is_space_only (state_id s)" using index_states_Ok[OF built(1)] by blast
  from sound_indexed[OF built_indexed[OF built] this] validate_indexed[OF built] show ?thesis
    by (auto split: if_splits)
next
  case False
  then show ?thesis using rejected_unsound[of path p] by blast
qed

lemma validated_sets:
  assumes "validate_graph p path = Some (Ok g)"
  shows "\<exists>es start. indexed p es start \<and> topological es (topological_order g) \<and>
    set (topological_order g) = {..<length es} \<and>
    exact_sets es start (ancestors g) (definite_ancestors g) (available_outputs g)"
proof -
  obtain m start es where built: "index_states path 0 (states p) [] = Ok m" "bt_get m (start_at p) = Some start"
    "graph_edges path 0 m (states p) = Ok es"
    using rejected_unsound[of path p] assms by fastforce
  note ix = built_indexed[OF built]
  have ok: "\<forall>i < length es. (start, i) \<in> (steps es)\<^sup>*" "acyclic (steps es)"
    using validate_indexed[OF built] assms by (auto split: if_splits)
  then obtain order anc ds outs where
    g: "g = \<lparr>state_indices = m, topological_order = order, ancestors = anc, definite_ancestors = ds, available_outputs = outs\<rparr>"
      "topological es order" "set order = {..<length es}" "graph_sets es start order = Some (anc, ds, outs)"
    using validate_indexed[OF built] assms by auto
  have start: "start < length es" using ix by (simp add: indexed_def)
  have "exact_sets es start anc ds outs" using graph_sets_Some[OF indexed_wf[OF ix] start g(2,3) ok(1)] g(4) by auto
  then show ?thesis using ix g(2,3) unfolding g(1) validated_graph.simps by blast
qed

lemma all_ways_take:
  assumes "indexed p es start" "i < length es" "j < length es"
  shows "j \<in> \<Inter> (passed gen ` {w. ways es start w i}) \<longleftrightarrow> (\<forall>w. ways es start w i \<longrightarrow> (\<exists>q \<in> set w. j \<in> gen q))"
    "(\<forall>w. takes p w (state_name p i) \<longrightarrow> P w) \<longleftrightarrow> (\<forall>w. ways es start w i \<longrightarrow> P (named_way p w))"
proof -
  show "j \<in> \<Inter> (passed gen ` {w. ways es start w i}) \<longleftrightarrow> (\<forall>w. ways es start w i \<longrightarrow> (\<exists>q \<in> set w. j \<in> gen q))"
    by (auto simp: passed_def)
  show "(\<forall>w. takes p w (state_name p i) \<longrightarrow> P w) \<longleftrightarrow> (\<forall>w. ways es start w i \<longrightarrow> P (named_way p w))"
    using ways_take[OF assms(1)] takes_ways[OF assms(1)] name_inject[OF assms(1,2)] by metis
qed

lemma definite_on_ways:
  assumes "indexed p es start" "i < length es" "j < length es"
  shows "j \<in> \<Inter> (passed left_states ` {w. ways es start w i}) \<longleftrightarrow>
      (\<forall>w. takes p w (state_name p i) \<longrightarrow> state_name p j \<in> fst ` set w)"
    "j \<in> \<Inter> (passed left_outputs ` {w. ways es start w i}) \<longleftrightarrow>
      (\<forall>w. takes p w (state_name p i) \<longrightarrow> (state_name p j, True) \<in> set w)"
proof -
  have mem: "(state_name p j, out) \<in> set (named_way p w) \<longleftrightarrow> (j, out) \<in> set w" if "ways es start w i" for w out
    using named_way_mem[OF assms(1) that assms(3)] .
  have "state_name p j \<in> fst ` set (named_way p w) \<longleftrightarrow> (\<exists>q \<in> set w. j \<in> left_states q)" if "ways es start w i" for w
  proof -
    have "state_name p j \<in> fst ` set (named_way p w) \<longleftrightarrow> (\<exists>out. (state_name p j, out) \<in> set (named_way p w))" by force
    then show ?thesis unfolding mem[OF \<open>ways es start w i\<close>] by (force simp: left_states_def)
  qed
  then show "j \<in> \<Inter> (passed left_states ` {w. ways es start w i}) \<longleftrightarrow>
      (\<forall>w. takes p w (state_name p i) \<longrightarrow> state_name p j \<in> fst ` set w)"
    unfolding all_ways_take[OF assms] by blast
  have "(state_name p j, True) \<in> set (named_way p w) \<longleftrightarrow> (\<exists>q \<in> set w. j \<in> left_outputs q)" if "ways es start w i" for w
    unfolding mem[OF that] by (force simp: left_outputs_def)
  then show "j \<in> \<Inter> (passed left_outputs ` {w. ways es start w i}) \<longleftrightarrow>
      (\<forall>w. takes p w (state_name p i) \<longrightarrow> (state_name p j, True) \<in> set w)"
    unfolding all_ways_take[OF assms] by blast
qed

text \<open>
  (C13) The sets of a validated graph are exact. A state's ancestors are the states from which it can be
  reached; its definite ancestors are the states that every way from the start to it leaves; and the
  outputs available to it are those of the states that every way leaves by a transition that
  produces an output, so a reference that validation admits finds its value on whatever way the
  instance came. Every transition goes forward in the topological order.
\<close>

theorem graph_guarantees_exact:
  assumes "validate_graph p path = Some (Ok g)" "i < length (states p)" "j < length (states p)"
  shows "(j \<in> ancestors g ! i \<longleftrightarrow> (state_id (states p ! j), state_id (states p ! i)) \<in> (leads_to p)\<^sup>+) \<and>
    (j \<in> definite_ancestors g ! i \<longleftrightarrow>
      (\<forall>w. takes p w (state_id (states p ! i)) \<longrightarrow> state_id (states p ! j) \<in> fst ` set w)) \<and>
    (j \<in> available_outputs g ! i \<longleftrightarrow>
      (\<forall>w. takes p w (state_id (states p ! i)) \<longrightarrow> (state_id (states p ! j), True) \<in> set w)) \<and>
    ((state_id (states p ! i), state_id (states p ! j)) \<in> leads_to p \<longrightarrow>
      position (topological_order g) i < position (topological_order g) j)"
proof -
  obtain es start where ix: "indexed p es start" and order: "topological es (topological_order g)"
    "set (topological_order g) = {..<length es}"
    and sets: "exact_sets es start (ancestors g) (definite_ancestors g) (available_outputs g)"
    using validated_sets[OF assms(1)] by blast
  then have ij: "i < length es" "j < length es" using assms(2,3) by (simp_all add: indexed_def)
  have "j \<in> ancestors g ! i \<longleftrightarrow> (state_name p j, state_name p i) \<in> (leads_to p)\<^sup>+"
    using sets ij(1) leads_to_trancl[OF ix ij(2,1)] by (simp add: exact_sets_def)
  moreover have "j \<in> definite_ancestors g ! i \<longleftrightarrow> (\<forall>w. takes p w (state_name p i) \<longrightarrow> state_name p j \<in> fst ` set w)"
    using sets ij(1) definite_on_ways(1)[OF ix ij] by (simp add: exact_sets_def)
  moreover have "j \<in> available_outputs g ! i \<longleftrightarrow> (\<forall>w. takes p w (state_name p i) \<longrightarrow> (state_name p j, True) \<in> set w)"
    using sets ij(1) definite_on_ways(2)[OF ix ij] by (simp add: exact_sets_def)
  moreover have "position (topological_order g) i < position (topological_order g) j" if "(state_name p i, state_name p j) \<in> leads_to p"
    using topological_position[OF order(1), of j i] order(2) ij indexed_steps[OF ix, of i j] that by auto
  ultimately show ?thesis by blast
qed

text \<open>A request whose failure goes around the state that reads its output, and where the ways meet again.\<close>

definition sample_process :: process where
  "sample_process =
     \<lparr>p_name = ''order'', p_version = 1, p_source = ''default'', p_lifecycle = Active, permissions = [], p_owner = None,
      p_start = None, p_input = [], p_output = [], idempotency = None, signals = [], start_at = ''send'',
      states =
       [\<lparr>state_id = ''send'', operation = ORequest
          \<lparr>rs_connector = ''mail'', rs_operation = ''send'', rs_input = [], rs_idempotency_key = None,
           rs_timeout = \<lparr>schedule_to_start = ''1s'', start_to_close = ''1s''\<rparr>,
           rs_retry = \<lparr>retry_on = [Transport], max_attempts = 2, initial_interval = ''1s'', max_interval = ''1s'',
             jitter = ''deterministic_full''\<rparr>,
           rs_next = ''record'', rs_on_error = Some \<lparr>routes = [], fallback_next = ''done''\<rparr>, rs_at_most_once = False,
           rs_on_ambiguous = None, rs_template_pin = None\<rparr>\<rparr>,
        \<lparr>state_id = ''record'', operation = OCommand
          \<lparr>pc_name = ''record'', pc_run_as = ''user'', pc_arguments = [], pc_next = ''done''\<rparr>\<rparr>,
        \<lparr>state_id = ''done'', operation = OOutput []\<rparr>]\<rparr>"

definition sample_graph :: validated_graph where
  "sample_graph =
     \<lparr>state_indices = [(''done'', 2), (''record'', 1), (''send'', 0)], topological_order = [0, 1, 2],
      ancestors = [{}, {0}, {0, 1}], definite_ancestors = [{}, {0}, {0}], available_outputs = [{}, {0}, {}]\<rparr>"

lemma sample_validates: "validate_graph sample_process ''p'' = Some (Ok sample_graph)"
  by code_simp

theorem graph_guarantees_exact_witness:
  "{w. takes sample_process w ''done''} \<subseteq> {w. ''send'' \<in> fst ` set w} \<and>
   (\<exists>w. takes sample_process w ''done'' \<and> (''send'', True) \<notin> set w)"
proof -
  have n: "(2::nat) < length (states sample_process)" "(0::nat) < length (states sample_process)"
    and names: "state_name sample_process 2 = ''done''" "state_name sample_process 0 = ''send''"
    by (simp_all add: sample_process_def)
  have "(0::nat) \<in> definite_ancestors sample_graph ! 2" "(0::nat) \<notin> available_outputs sample_graph ! 2"
    by (simp_all add: sample_graph_def)
  then show ?thesis using graph_guarantees_exact[OF sample_validates n] unfolding names subset_iff mem_Collect_eq by blast
qed

end
