(* ===== verification/Process_Values.thy ===== *)
theory Process_Values
  imports Process_Dependencies Process_Ways
begin

text \<open>
  The values of process states (\<open>crates/processes/src/lib.rs\<close>): checking literals, inferring the types
  of references, literals and bounded collections, and checking them against what a target declares;
  the roles, the owner and the idempotency of a process. Text that the standard library prints for
  debugging a custom scalar is the parameter \<open>debug\<close> of \<open>display_type\<close>.
\<close>

section \<open>Messages\<close>

fun scalar_debug :: "(string \<Rightarrow> string) \<Rightarrow> value_scalar \<Rightarrow> string" where
  "scalar_debug debug SBoolean = ''Boolean''"
| "scalar_debug debug SString = ''String''"
| "scalar_debug debug SInt32 = ''Int32''"
| "scalar_debug debug SInt64 = ''Int64''"
| "scalar_debug debug SUInt64 = ''UInt64''"
| "scalar_debug debug SDecimal = ''Decimal''"
| "scalar_debug debug SUuid = ''Uuid''"
| "scalar_debug debug SDate = ''Date''"
| "scalar_debug debug STimestamp = ''Timestamp''"
| "scalar_debug debug STimestampTz = ''TimestampTz''"
| "scalar_debug debug SJson = ''Json''"
| "scalar_debug debug (SCustom name) = ''Custom { name: '' @ debug name @ '' }''"

fun display_type :: "(string \<Rightarrow> string) \<Rightarrow> type_ref \<Rightarrow> string"
  and display_value_type :: "(string \<Rightarrow> string) \<Rightarrow> value_type \<Rightarrow> string"
  and display_field :: "(string \<Rightarrow> string) \<Rightarrow> contract_field \<Rightarrow> string" where
  "display_type debug (TypeRef is_nullable vt) = (if is_nullable then ''nullable '' @ display_value_type debug vt else display_value_type debug vt)"
| "display_value_type debug (VScalar s) = scalar_debug debug s"
| "display_value_type debug (VEnum name symbols) = ''enum '' @ name"
| "display_value_type debug (VObject ds) = ''object{'' @ commas (map (\<lambda>(name, f). name @ display_field debug f) ds) @ ''}''"
| "display_value_type debug (VList e) = ''['' @ display_type debug e @ '']''"
| "display_value_type debug (VRef name) = name"
| "display_field debug (ContractField r t) = (if r then '':'' else ''?:'') @ display_type debug t"

definition plan_type_mismatch :: "(string \<Rightarrow> string) \<Rightarrow> string \<Rightarrow> type_ref \<Rightarrow> type_ref \<Rightarrow> plan_error" where
  "plan_type_mismatch debug path target source =
     validation path (display_type debug source @ '' is not assignable to '' @ display_type debug target)"

section \<open>Literals\<close>

definition number_i64 :: "string \<Rightarrow> int option" where
  "number_i64 = parse_signed i64_min i64_max"

definition number_u64 :: "string \<Rightarrow> nat option" where
  "number_u64 = parse_unsigned (int u64_max)"

fun scalar_accepts :: "value_scalar \<Rightarrow> json \<Rightarrow> bool" where
  "scalar_accepts SJson _ \<longleftrightarrow> True"
| "scalar_accepts SBoolean (JBool _) \<longleftrightarrow> True"
| "scalar_accepts SInt32 (JNumber n) \<longleftrightarrow> (case number_i64 n of Some i \<Rightarrow> i32_min \<le> i \<and> i \<le> i32_max | None \<Rightarrow> False)"
| "scalar_accepts SInt64 (JNumber n) \<longleftrightarrow> number_i64 n \<noteq> None"
| "scalar_accepts SUInt64 (JNumber n) \<longleftrightarrow> number_u64 n \<noteq> None"
| "scalar_accepts SDecimal (JNumber _) \<longleftrightarrow> True"
| "scalar_accepts s (JString _) \<longleftrightarrow> s \<notin> {SBoolean, SInt32, SInt64, SUInt64, SDecimal}"
| "scalar_accepts _ _ \<longleftrightarrow> False"

function validate_json_literal ::
  "(string \<Rightarrow> string) \<Rightarrow> json \<Rightarrow> type_ref \<Rightarrow> string \<Rightarrow> (unit, plan_error) result" where
  "validate_json_literal debug literal target path =
     (if literal = JNull then
        (if tr_nullable target then Ok () else Err (validation path ''null is not assignable to a non-null type''))
      else
        let refused = Err (validation path (''literal is not assignable to '' @ display_type debug target)) in
        case (value_type target, literal) of
          (VScalar s, _) \<Rightarrow> if scalar_accepts s literal then Ok () else refused
        | (VEnum _ symbols, JString s) \<Rightarrow> if s \<in> set symbols then Ok () else refused
        | (VList element, JArray vs) \<Rightarrow>
            res_map (\<lambda>_. ())
              (collect_res (\<lambda>(i, v). validate_json_literal debug v element (at_index path i)) (enumerate 0 vs))
        | (VObject ds, JObject ms) \<Rightarrow>
            res_bind
              (collect_res (\<lambda>(name, f).
                 case map_of ms name of
                   Some v \<Rightarrow> validate_json_literal debug v (field_type f) (path @ ''.'' @ name)
                 | None \<Rightarrow>
                     if required f
                     then Err (validation path (''object literal is missing required field '' @ ticked name)) else Ok ()) ds)
              (\<lambda>_. case filter (\<lambda>name. \<not> bt_contains ds name) (map fst ms) of
                      [] \<Rightarrow> Ok ()
                    | extra # _ \<Rightarrow>
                        Err (validation (path @ ''.'' @ extra) (''object literal contains unknown field '' @ ticked extra)))
        | _ \<Rightarrow> refused)"
  by pat_completeness auto
termination
  by (relation "measure (size \<circ> fst \<circ> snd \<circ> snd)") (auto simp: type_size dest!: sym[of _ "value_type _"])

declare validate_json_literal.simps [simp del]

datatype inferred_value = INull | Known type_ref

fun known :: "inferred_value \<Rightarrow> type_ref option" where
  "known INull = None"
| "known (Known t) = Some t"

definition combine_types :: "string \<Rightarrow> string \<Rightarrow> type_ref option \<Rightarrow> type_ref \<Rightarrow> (type_ref, plan_error) result" where
  "combine_types path message common t =
     (case common of
        None \<Rightarrow> Ok t
      | Some current \<Rightarrow> ok_or (validation path message) (common_type current t))"

fun infer_json_literal :: "json \<Rightarrow> string \<Rightarrow> (inferred_value, plan_error) result"
  and infer_elements :: "string \<Rightarrow> nat \<Rightarrow> json list \<Rightarrow> type_ref option \<Rightarrow> (type_ref option, plan_error) result"
  and infer_members :: "string \<Rightarrow> (string \<times> json) list \<Rightarrow> ((string \<times> contract_field) list, plan_error) result" where
  "infer_json_literal JNull path = Ok INull"
| "infer_json_literal (JBool _) path = Ok (Known (scalar_type SBoolean False))"
| "infer_json_literal (JString _) path = Ok (Known (scalar_type SString False))"
| "infer_json_literal (JNumber n) path =
     Ok (Known (case number_i64 n of
        Some i \<Rightarrow> scalar_type (if i32_min \<le> i \<and> i \<le> i32_max then SInt32 else SInt64) False
      | None \<Rightarrow> scalar_type (if number_u64 n \<noteq> None then SUInt64 else SDecimal) False))"
| "infer_json_literal (JArray vs) path =
     res_bind (infer_elements path 0 vs None) (\<lambda>common.
       res_map (\<lambda>t. Known (list_type t)) (ok_or (validation path ''empty list literal needs a typed destination'') common))"
| "infer_json_literal (JObject ms) path =
     res_map (\<lambda>ds. Known (TypeRef False (VObject (bt_collect ds)))) (infer_members path ms)"
| "infer_elements path i [] common = Ok common"
| "infer_elements path i (v # vs) common =
     res_bind (infer_json_literal v (at_index path i)) (\<lambda>inferred.
     res_bind (ok_or (validation (at_index path i) ''list literal null needs a typed destination'') (known inferred)) (\<lambda>t.
     res_bind (combine_types path ''list literal elements have incompatible types'' common t) (\<lambda>t.
       infer_elements path (Suc i) vs (Some t))))"
| "infer_members path [] = Ok []"
| "infer_members path ((name, v) # ms) =
     res_bind (infer_json_literal v (path @ ''.'' @ name)) (\<lambda>inferred.
     res_bind (ok_or (validation (path @ ''.'' @ name) ''object literal null needs a typed destination'') (known inferred)) (\<lambda>t.
       res_map (Cons (name, required_field t)) (infer_members path ms)))"

section \<open>Casts\<close>

definition refine_process_scalar ::
  "declared_types \<Rightarrow> type_ref \<Rightarrow> string \<Rightarrow> string \<Rightarrow> (type_ref, plan_error) result" where
  "refine_process_scalar declared source target path =
     (if target = ''string'' then
        (if \<not> scalar_like source then Err (validation path ''process scalar cast requires a scalar or enum source'')
         else Ok (scalar_type SString (tr_nullable source)))
      else if target = [] \<or> CHR ''!'' \<in> set target \<or> CHR ''['' \<in> set target \<or> CHR '']'' \<in> set target
      then Err (validation path
        (''process nominal refinement must name one declared enum; use '' @ ticked ''require_non_null'' @ '' separately''))
      else res_bind (type_from_string declared target path) (\<lambda>refined.
        case (value_type source, value_type refined) of
          (VScalar SString, VEnum name symbols) \<Rightarrow> Ok (TypeRef (tr_nullable source) (VEnum name symbols))
        | _ \<Rightarrow> Err (validation path ''process nominal refinement supports only string-to-declared-enum validation'')))"

definition cast_to :: "declared_types \<Rightarrow> string \<Rightarrow> string option \<Rightarrow> type_ref \<Rightarrow> (type_ref, plan_error) result" where
  "cast_to declared path target source =
     (case target of None \<Rightarrow> Ok source | Some t \<Rightarrow> refine_process_scalar declared source t path)"

definition non_null_if :: "bool \<Rightarrow> type_ref \<Rightarrow> type_ref" where
  "non_null_if require_non_null t = (if require_non_null then TypeRef False (value_type t) else t)"

section \<open>Fan-out items\<close>

definition failure_fields :: "(string \<times> type_ref) list" where
  "failure_fields =
     [(''item_key'', scalar_type SString False), (''stage'', scalar_type SString False), (''code'', scalar_type SString False),
      (''safe_message'', scalar_type SString False), (''requires_reconciliation'', scalar_type SBoolean False),
      (''activity_key'', scalar_type SString False)]"

definition failure_item_type :: "type_ref \<Rightarrow> type_ref" where
  "failure_item_type item =
     TypeRef False (VObject (foldl (\<lambda>ds (name, t). bt_insert name (required_field t) ds)
       (case type_object_fields item of Some ds \<Rightarrow> ds | None \<Rightarrow> []) failure_fields))"

fun merge_fields ::
  "string \<Rightarrow> contract_field btree_map \<Rightarrow> (string \<times> contract_field) list \<Rightarrow> (contract_field btree_map, plan_error) result" where
  "merge_fields path ds [] = Ok ds"
| "merge_fields path ds ((name, f) # fs) =
     (case bt_get ds name of
        Some existing \<Rightarrow>
          if field_type existing \<noteq> field_type f
          then Err (validation path (''fan-out result field '' @ ticked name @ '' conflicts with its input item type''))
          else merge_fields path ds fs
      | None \<Rightarrow> merge_fields path (bt_insert name f ds) fs)"

definition merge_object_types :: "type_ref \<Rightarrow> type_ref \<Rightarrow> string \<Rightarrow> (type_ref, plan_error) result" where
  "merge_object_types left right path =
     res_bind (ok_or (validation path ''fan-out item must be an object'') (type_object_fields left)) (\<lambda>ds.
     res_bind (ok_or (validation path ''fan-out activity result must be an object'') (type_object_fields right)) (\<lambda>fs.
       res_map (\<lambda>m. TypeRef False (VObject m)) (merge_fields path ds fs)))"

section \<open>References\<close>

text \<open>
  What a state is compiled in. The closure, which the code keeps in its context too, is passed beside it.
\<close>

record compile_context =
  cc_process :: process
  cc_input :: value_contract_catalog
  cc_state_types :: "value_contract_catalog btree_map"
  cc_ancestors :: "nat set"
  cc_definite_ancestors :: "nat set"
  cc_available_outputs :: "nat set"
  cc_state_indices :: "nat btree_map"
  cc_signals :: "compiled_signal btree_map"
  cc_dependencies :: process_dependencies
  cc_path :: string
  cc_item :: "type_ref option"
  cc_debug :: "string \<Rightarrow> string"

fun project_fields ::
  "string \<Rightarrow> contract_field btree_map \<Rightarrow> string list \<Rightarrow> contract_field btree_map \<Rightarrow> (contract_field btree_map, plan_error) result" where
  "project_fields path object [] projected = Ok projected"
| "project_fields path object (name # names) projected =
     (case bt_get object name of
        None \<Rightarrow> Err (validation path (''project references unknown field '' @ ticked name))
      | Some f \<Rightarrow>
          if bt_contains projected name then Err (validation path (''project field '' @ ticked name @ '' is duplicated''))
          else project_fields path object names (bt_insert name f projected))"

definition project_type :: "string \<Rightarrow> string list option \<Rightarrow> type_ref \<Rightarrow> (type_ref, plan_error) result" where
  "project_type path project source =
     (case project of
        None \<Rightarrow> Ok source
      | Some names \<Rightarrow>
          (case value_type source of
             VList element \<Rightarrow>
               res_bind (ok_or (validation path ''state project requires object list elements'') (type_object_fields element)) (\<lambda>object.
                 res_map (\<lambda>projected. list_type (TypeRef False (VObject projected))) (project_fields path object names []))
           | _ \<Rightarrow> Err (validation path ''state project requires a list value'')))"

definition infer_state ::
  "compile_context \<Rightarrow> string \<Rightarrow> string \<Rightarrow> string \<Rightarrow> string list option \<Rightarrow> string option \<Rightarrow> bool \<Rightarrow> (type_ref, plan_error) result" where
  "infer_state context path state field project as_type require_non_null =
     res_bind (ok_or (validation path (''state '' @ ticked state @ '' does not exist'')) (bt_get (cc_state_indices context) state)) (\<lambda>i.
     if i \<notin> cc_ancestors context
     then Err (validation path (''state reference '' @ ticked (state @ ''.'' @ field) @ '' must target a transition ancestor''))
     else if i \<notin> cc_available_outputs context
     then Err (validation path (''state output '' @ ticked (state @ ''.'' @ field) @ '' is not available on every transition path''))
     else
       res_bind (ok_or (validation path (''state '' @ ticked state @ '' output is not available at this transition'')) (bt_get (cc_state_types context) state)) (\<lambda>contract.
       res_bind (ok_or (validation path (''state '' @ ticked state @ '' has no output field '' @ ticked field)) (root_type contract field)) (\<lambda>source.
       res_bind (project_type path project source) (\<lambda>source.
         cast_to (dep_declared (cc_dependencies context)) path as_type (non_null_if require_non_null source)))))"

definition key_type :: "string \<Rightarrow> string \<Rightarrow> string option \<Rightarrow> (type_ref, plan_error) result" where
  "key_type path what as_type =
     (case as_type of
        None \<Rightarrow> Ok (scalar_type SString False)
      | Some t \<Rightarrow>
          if t = ''uuid'' then Ok (scalar_type SUuid False)
          else Err (validation path (what @ '' cast supports only deterministic '' @ ticked ''as: uuid'')))"

definition infer_state_key :: "compile_context \<Rightarrow> string \<Rightarrow> string \<Rightarrow> string option \<Rightarrow> (type_ref, plan_error) result" where
  "infer_state_key context path state as_type =
     res_bind (ok_or (validation path (''activity_key_for_state references unknown state '' @ ticked state)) (bt_get (cc_state_indices context) state)) (\<lambda>i.
     if i \<notin> cc_ancestors context
     then Err (validation path ''activity_key_for_state must reference a transition ancestor'')
     else if i \<notin> cc_definite_ancestors context
     then Err (validation path ''activity_key_for_state is not available on every transition path'')
     else key_type path ''activity_key_for_state'' as_type)"

definition flatten_element :: "string \<Rightarrow> string option \<Rightarrow> type_ref \<Rightarrow> (type_ref, plan_error) result" where
  "flatten_element path field element =
     (case field of
        Some name \<Rightarrow>
          res_bind (ok_or (validation (path @ ''.from'') ''bounded_flatten field requires object list elements'') (type_object_fields element)) (\<lambda>object.
          res_bind (ok_or (validation (path @ ''.field'') (''bounded_flatten source has no field '' @ ticked name)) (bt_get object name)) (\<lambda>nested.
            case value_type (field_type nested) of
              VList inner \<Rightarrow> Ok inner
            | _ \<Rightarrow> Err (validation (path @ ''.field'') ''bounded_flatten selected field must be a list'')))
      | None \<Rightarrow>
          (case value_type element of
             VList inner \<Rightarrow> Ok inner
           | _ \<Rightarrow> Err (validation (path @ ''.from'') ''bounded_flatten without field requires a list of lists'')))"

definition flatten_project :: "string \<Rightarrow> (string \<times> string) list option \<Rightarrow> type_ref \<Rightarrow> (type_ref, plan_error) result" where
  "flatten_project path project flattened =
     (case project of
        None \<Rightarrow> Ok flattened
      | Some names \<Rightarrow>
          res_bind (ok_or (validation path ''bounded_flatten project requires object items'') (type_object_fields flattened)) (\<lambda>object.
            res_map (\<lambda>ds. TypeRef False (VObject ds))
              (collect_res (\<lambda>(target, source).
                 res_map (Pair target) (ok_or (validation (path @ ''.project.'' @ target) (''bounded_flatten source has no field '' @ ticked source)) (bt_get object source))) names)))"

text \<open>
  The type of a value. A concatenation has at least one input when its type is taken, so the message
  of the code's \<open>expect\<close> is never produced.
\<close>

fun infer_value :: "compile_context \<Rightarrow> string \<Rightarrow> process_value \<Rightarrow> (inferred_value, plan_error) result"
  and infer_concat :: "compile_context \<Rightarrow> string \<Rightarrow> nat \<Rightarrow> process_value list \<Rightarrow> type_ref option \<Rightarrow> (type_ref option, plan_error) result" where
  "infer_value context path (PInput input as_type require_non_null) =
     res_bind (ok_or (validation path (''process input '' @ ticked input @ '' does not exist'')) (root_type (cc_input context) input)) (\<lambda>source.
       res_map Known (cast_to (dep_declared (cc_dependencies context)) path as_type (non_null_if require_non_null source)))"
| "infer_value context path (PState state field project as_type require_non_null) =
     res_map Known (infer_state context path state field project as_type require_non_null)"
| "infer_value context path (PItem item as_type) =
     res_bind (ok_or (validation path ''item references are valid only inside for_each'') (cc_item context)) (\<lambda>item_type.
     res_bind (ok_or (validation path (''for_each item has no field '' @ ticked item)) (Option.bind (type_object_fields item_type) (\<lambda>ds. map_option field_type (bt_get ds item)))) (\<lambda>source.
       res_map Known (cast_to (dep_declared (cc_dependencies context)) path as_type source)))"
| "infer_value context path (PLiteral literal) = infer_json_literal literal path"
| "infer_value context path (PActivityKey activity_key as_type) =
     (if activity_key = [] then Err (validation path ''activity key component must not be empty'')
      else res_map Known (key_type path ''activity key'' as_type))"
| "infer_value context path (PActivityKeyForState state as_type) = res_map Known (infer_state_key context path state as_type)"
| "infer_value context path (PRun run) =
     (if run \<noteq> ''id'' then Err (validation path (''run value supports only '' @ ticked ''{ run: id }''))
      else Ok (Known (scalar_type SUuid False)))"
| "infer_value context path (PWorkflowTime workflow_time) =
     (if workflow_time \<noteq> ''now'' then Err (validation path (''workflow_time supports only '' @ ticked ''{ workflow_time: now }''))
      else Ok (Known (scalar_type STimestampTz False)))"
| "infer_value context path (PSessionVariable name) =
     (if name = [] then Err (validation path ''session variable must not be empty'')
      else Ok (Known (scalar_type SString False)))"
| "infer_value context path (PBoundedConcat inputs maximum_lists maximum_items) =
     (if inputs = [] \<or> maximum_lists = 0 \<or> maximum_items = 0 \<or> length inputs > maximum_lists
      then Err (validation path ''bounded_concat limits must be positive and cover every input list'')
      else res_bind (infer_concat context path 0 inputs None) (\<lambda>common.
        res_map (\<lambda>t. Known (list_type t)) (ok_or (validation path ''non-empty checked above'') common)))"
| "infer_value context path (PBoundedFlatten from field project maximum_lists maximum_items) =
     (if maximum_lists = 0 \<or> maximum_items = 0 then Err (validation path ''bounded_flatten limits must be positive'')
      else res_bind (infer_value context (path @ ''.from'') from) (\<lambda>inferred.
        res_bind (ok_or (validation (path @ ''.from'') ''list cannot be null'') (known inferred)) (\<lambda>source.
          case value_type source of
            VList element \<Rightarrow>
              res_bind (flatten_element path field element) (\<lambda>flattened.
                res_map (\<lambda>t. Known (list_type t)) (flatten_project path project flattened))
          | _ \<Rightarrow> Err (validation (path @ ''.from'') ''bounded_flatten source must be a list''))))"
| "infer_concat context path i [] common = Ok common"
| "infer_concat context path i (v # vs) common =
     (let here = at_index (path @ ''.inputs'') i in
      res_bind (infer_value context here v) (\<lambda>inferred.
      res_bind (ok_or (validation here ''list cannot be null'') (known inferred)) (\<lambda>input_type.
        case value_type input_type of
          VList element \<Rightarrow>
            res_bind (combine_types path ''bounded_concat input lists have incompatible element types'' common element) (\<lambda>t.
              infer_concat context path (Suc i) vs (Some t))
        | _ \<Rightarrow> Err (validation here ''bounded_concat input must be a list''))))"

definition validate_value_against ::
  "compile_context \<Rightarrow> string \<Rightarrow> process_value \<Rightarrow> type_ref \<Rightarrow> (unit, plan_error) result" where
  "validate_value_against context path v target =
     (case v of
        PLiteral literal \<Rightarrow> validate_json_literal (cc_debug context) literal target path
      | _ \<Rightarrow>
          res_bind (infer_value context path v) (\<lambda>inferred.
            case known inferred of
              None \<Rightarrow>
                if tr_nullable target then Ok () else Err (validation path ''null is not assignable to a non-null type'')
            | Some actual \<Rightarrow>
                if type_assignable target actual then Ok () else Err (plan_type_mismatch (cc_debug context) path target actual)))"

definition validate_binding_map ::
  "compile_context \<Rightarrow> string \<Rightarrow> process_bindings \<Rightarrow> value_contract_catalog \<Rightarrow> (unit, plan_error) result" where
  "validate_binding_map context path values_map target =
     res_bind
       (collect_res (\<lambda>(name, f).
          case bt_get values_map name of
            None \<Rightarrow>
              if required f then Err (validation path (''required binding '' @ ticked name @ '' is missing'')) else Ok ()
          | Some v \<Rightarrow> validate_value_against context (path @ ''.'' @ name) v (field_type f)) (roots target))
       (\<lambda>_. case filter (\<lambda>name. \<not> bt_contains (roots target) name) (map fst values_map) of
              [] \<Rightarrow> Ok ()
            | extra # _ \<Rightarrow>
                Err (validation (path @ ''.'' @ extra) (''binding '' @ ticked extra @ '' is not declared by the target contract'')))"

section \<open>Roles, owner and idempotency\<close>

fun check_roles :: "string \<Rightarrow> nat \<Rightarrow> process_permission list \<Rightarrow> string list \<Rightarrow> (unit, plan_error) result" where
  "check_roles path i [] seen = Ok ()"
| "check_roles path i (permission # later) seen =
     (if is_space_only (pp_role permission) \<or> pp_role permission = ''admin''
      then Err (validation (at_index (path @ ''.permissions'') i @ ''.role'') ''process role must be a non-empty explicit non-admin role'')
      else if pp_role permission \<in> set seen
      then Err (validation (at_index (path @ ''.permissions'') i @ ''.role'')
             (''process role '' @ ticked (pp_role permission) @ '' is declared more than once''))
      else if pp_owner_session_variable permission = Some []
      then Err (validation (at_index (path @ ''.permissions'') i @ ''.owner_session_variable'') ''owner session variable must not be empty'')
      else check_roles path (Suc i) later (pp_role permission # seen))"

definition validate_process_roles :: "process \<Rightarrow> string \<Rightarrow> (unit, plan_error) result" where
  "validate_process_roles p path =
     (if permissions p = [] then Err (validation (path @ ''.permissions'') ''process must declare at least one explicit role'')
      else check_roles path 0 (permissions p) [])"

fun validate_idempotency_value ::
  "process_idempotency_value \<Rightarrow> value_contract_catalog \<Rightarrow> string \<Rightarrow> (unit, plan_error) result" where
  "validate_idempotency_value (IdInput field) input path =
     res_bind (ok_or (validation path (''idempotency references unknown input '' @ ticked field)) (root_type input field)) (\<lambda>t.
       if tr_nullable t \<or> \<not> scalar_like t
       then Err (validation path ''idempotency input must be a non-null scalar or enum'') else Ok ())"
| "validate_idempotency_value (IdSessionVariable name) input path =
     (if name = [] then Err (validation path ''idempotency session variable must not be empty'') else Ok ())"

fun check_scope ::
  "value_contract_catalog \<Rightarrow> string \<Rightarrow> nat \<Rightarrow> process_idempotency_value list \<Rightarrow> process_idempotency_value list \<Rightarrow> (unit, plan_error) result" where
  "check_scope input path i [] seen = Ok ()"
| "check_scope input path i (v # vs) seen =
     res_bind (validate_idempotency_value v input (at_index (path @ ''.idempotency.scope'') i)) (\<lambda>_.
       if v \<in> set seen
       then Err (validation (at_index (path @ ''.idempotency.scope'') i) ''process idempotency scope contains a duplicate value'')
       else check_scope input path (Suc i) vs (v # seen))"

definition validate_owner :: "(string \<Rightarrow> string) \<Rightarrow> declared_types \<Rightarrow> value_contract_catalog \<Rightarrow> string \<Rightarrow> process_owner \<Rightarrow> (unit, plan_error) result" where
  "validate_owner debug declared input path po =
     res_bind (type_from_string declared (po_type po) (path @ ''.owner.type'')) (\<lambda>owner_type.
       if tr_nullable owner_type then Err (validation (path @ ''.owner.type'') ''process owner type must be non-null'')
       else
         let refused = Err (validation (path @ ''.owner.capture'') ''process owner must capture one input or explicit session variable'') in
         case po_capture po of
           PInput field as_type require_non_null \<Rightarrow>
             if as_type \<noteq> None \<or> require_non_null then refused
             else res_bind (ok_or (validation (path @ ''.owner.capture'') (''owner capture references unknown input '' @ ticked field)) (root_type input field)) (\<lambda>source.
                    if type_assignable owner_type source then Ok ()
                    else Err (plan_type_mismatch debug (path @ ''.owner.capture'') owner_type source))
         | PSessionVariable name \<Rightarrow> if name \<noteq> [] then Ok () else refused
         | _ \<Rightarrow> refused)"

definition validate_owner_and_idempotency ::
  "(string \<Rightarrow> string) \<Rightarrow> process \<Rightarrow> declared_types \<Rightarrow> value_contract_catalog \<Rightarrow> string \<Rightarrow> (unit, plan_error) result" where
  "validate_owner_and_idempotency debug p declared input path =
     res_bind (case p_owner p of None \<Rightarrow> Ok () | Some po \<Rightarrow> validate_owner debug declared input path po) (\<lambda>_.
       case idempotency p of
         None \<Rightarrow> Ok ()
       | Some declaration \<Rightarrow>
           res_bind (validate_idempotency_value (pi_key declaration) input (path @ ''.idempotency.key'')) (\<lambda>_.
             check_scope input path 0 (pi_scope declaration) []))"

section \<open>What an admitted value refers to\<close>

text \<open>The states whose outputs a value reads, and those whose activity keys it names.\<close>

fun output_references :: "process_value \<Rightarrow> string set" where
  "output_references (PState state field project as_type require_non_null) = {state}"
| "output_references (PBoundedConcat inputs maximum_lists maximum_items) = (\<Union>v \<in> set inputs. output_references v)"
| "output_references (PBoundedFlatten from field project maximum_lists maximum_items) = output_references from"
| "output_references _ = {}"

fun key_references :: "process_value \<Rightarrow> string set" where
  "key_references (PActivityKeyForState state as_type) = {state}"
| "key_references (PBoundedConcat inputs maximum_lists maximum_items) = (\<Union>v \<in> set inputs. key_references v)"
| "key_references (PBoundedFlatten from field project maximum_lists maximum_items) = key_references from"
| "key_references _ = {}"

definition outputs_known :: "compile_context \<Rightarrow> string set \<Rightarrow> bool" where
  "outputs_known context names \<longleftrightarrow>
     (\<forall>s \<in> names. \<exists>i \<in> cc_available_outputs context. bt_get (cc_state_indices context) s = Some i)"

definition keys_known :: "compile_context \<Rightarrow> string set \<Rightarrow> bool" where
  "keys_known context names \<longleftrightarrow>
     (\<forall>s \<in> names. \<exists>i \<in> cc_definite_ancestors context. bt_get (cc_state_indices context) s = Some i)"

lemma outputs_known_simps [simp]:
  "outputs_known context {}"
  "outputs_known context (A \<union> B) \<longleftrightarrow> outputs_known context A \<and> outputs_known context B"
  by (auto simp: outputs_known_def)

lemma keys_known_simps [simp]:
  "keys_known context {}"
  "keys_known context (A \<union> B) \<longleftrightarrow> keys_known context A \<and> keys_known context B"
  by (auto simp: keys_known_def)

lemma infer_state_known:
  "infer_state context path state field project as_type non_null = Ok t \<Longrightarrow> outputs_known context {state}"
  by (auto simp: infer_state_def outputs_known_def split: if_splits)

lemma infer_state_key_known:
  "infer_state_key context path state as_type = Ok t \<Longrightarrow> keys_known context {state}"
  by (auto simp: infer_state_key_def keys_known_def split: if_splits)

lemma infer_concat_step:
  assumes "infer_concat cx path i (v # vs) common = Ok c"
  obtains r t where "infer_value cx (at_index (path @ ''.inputs'') i) v = Ok r"
    "infer_concat cx path (Suc i) vs (Some t) = Ok c"
  using assms
  apply (clarsimp simp: Let_def)
  subgoal for r t by (cases "value_type t") auto
  done

lemma infer_concat_some: "infer_concat cx path i vs common = Ok c \<Longrightarrow> common \<noteq> None \<or> vs \<noteq> [] \<Longrightarrow> c \<noteq> None"
proof (induction vs arbitrary: i common)
  case (Cons v vs)
  from Cons.prems(1) show ?case by (rule infer_concat_step) (auto dest: Cons.IH)
qed simp

lemma concat_references:
  assumes "infer_concat cx path i vs common = Ok c"
    and "\<And>v here r. v \<in> set vs \<Longrightarrow> infer_value cx here v = Ok r \<Longrightarrow>
      outputs_known cx (output_references v) \<and> keys_known cx (key_references v)"
  shows "outputs_known cx (\<Union>v \<in> set vs. output_references v) \<and> keys_known cx (\<Union>v \<in> set vs. key_references v)"
  using assms
proof (induction vs arbitrary: i common)
  case (Cons v vs)
  from Cons.prems(1) show ?case
    by (rule infer_concat_step) (use Cons.prems(2) Cons.IH in auto)
qed simp

text \<open>
  When the type of a value is inferred, every state whose output it reads is among the available
  ones, and every state whose activity key it names is a definite ancestor.
\<close>

lemma references_known:
  "infer_value cx path v = Ok r \<Longrightarrow> outputs_known cx (output_references v) \<and> keys_known cx (key_references v)"
proof (induction v arbitrary: path r)
  case (PBoundedConcat vs l m)
  then obtain c where "infer_concat cx path 0 vs None = Ok c" by (auto split: if_splits)
  from concat_references[OF this PBoundedConcat.IH] show ?case by simp
next
  case (PBoundedFlatten w field project l m)
  then obtain x where "infer_value cx (path @ ''.from'') w = Ok x" by (auto split: if_splits)
  from PBoundedFlatten.IH[OF this] show ?case by simp
qed (auto dest: infer_state_known infer_state_key_known)

end
