(* ===== verification/Process_Retry.thy ===== *)
theory Process_Retry
  imports Process_Syntax
begin

text \<open>
  The budgets of activities (\<open>crates/processes/src/lib.rs\<close>): durations, error routes, the rules for
  activities that may be sent once, and the horizon of the retries, a bound on the time until an
  activity is settled.
\<close>

section \<open>Durations\<close>

definition MAXIMUM_ACTIVITY_TAKEOVER_DELAY_MS :: nat where
  "MAXIMUM_ACTIVITY_TAKEOVER_DELAY_MS = 5000"

definition strip_suffix :: "string \<Rightarrow> string \<Rightarrow> string option" where
  "strip_suffix s suffix =
     (if length suffix \<le> length s \<and> drop (length s - length suffix) s = suffix
      then Some (take (length s - length suffix) s) else None)"

text \<open>The first unit that the text ends with, in the order in which they are tried.\<close>

fun split_unit :: "(string \<times> nat) list \<Rightarrow> string \<Rightarrow> (string \<times> nat) option" where
  "split_unit [] s = None"
| "split_unit ((suffix, multiplier) # units) s =
     (case strip_suffix s suffix of Some digits \<Rightarrow> Some (digits, multiplier) | None \<Rightarrow> split_unit units s)"

definition duration_units :: "(string \<times> nat) list" where
  "duration_units = [(''ms'', 1), (''s'', 1000), (''m'', 60000), (''h'', 3600000), (''d'', 86400000)]"

definition parse_duration :: "string \<Rightarrow> string \<Rightarrow> (nat, plan_error) result" where
  "parse_duration source path =
     (case split_unit duration_units source of
        None \<Rightarrow> Err (validation path ''duration must be a positive integer followed by ms, s, m, h, or d'')
      | Some (digits, multiplier) \<Rightarrow>
          if digits = [] \<or> (length digits > 1 \<and> hd digits = CHR ''0'') \<or> \<not> list_all is_ascii_digit digits
          then Err (validation path ''duration must use canonical positive base-10 spelling'')
          else if digits_val digits > u64_max \<or> digits_val digits * multiplier > u64_max \<or> digits_val digits * multiplier = 0
          then Err (validation path ''duration is zero or overflowed'')
          else Ok (digits_val digits * multiplier))"

text \<open>A number with commas between groups of three digits.\<close>

fun group_digits :: "string \<Rightarrow> string" where
  "group_digits [] = []"
| "group_digits (d # ds) = d # (if ds \<noteq> [] \<and> length ds mod 3 = 0 then CHR '','' # group_digits ds else group_digits ds)"

definition format_number :: "nat \<Rightarrow> string" where
  "format_number n = group_digits (nat_to_string n)"

section \<open>Error routes\<close>

fun route_kinds :: "string \<Rightarrow> nat \<Rightarrow> nat \<Rightarrow> process_error_kind list \<Rightarrow> process_error_kind list \<Rightarrow>
  (process_error_kind list, plan_error) result" where
  "route_kinds path i k [] seen = Ok seen"
| "route_kinds path i k (kind # kinds) seen =
     (if kind \<in> set seen
      then Err (validation (at_index (at_index (path @ ''.routes'') i @ ''.kinds'') k) ''an error kind may be routed only once'')
      else route_kinds path i (Suc k) kinds (kind # seen))"

fun check_routes :: "string \<Rightarrow> nat \<Rightarrow> process_error_route list \<Rightarrow> process_error_kind list \<Rightarrow> (unit, plan_error) result" where
  "check_routes path i [] seen = Ok ()"
| "check_routes path i (route # rs) seen =
     (if er_kinds route = []
      then Err (validation (at_index (path @ ''.routes'') i @ ''.kinds'') ''error route kinds must not be empty'')
      else res_bind (route_kinds path i 0 (er_kinds route) seen) (check_routes path (Suc i) rs))"

definition validate_error_routes :: "process_error_routes option \<Rightarrow> string \<Rightarrow> (unit, plan_error) result" where
  "validate_error_routes declared path =
     (case declared of
        None \<Rightarrow> Ok ()
      | Some r \<Rightarrow>
          if routes r = [] then Err (validation (path @ ''.routes'') ''on_error routes must not be empty'')
          else check_routes path 0 (routes r) [])"

section \<open>Activities that may be sent once\<close>

definition validate_at_most_once ::
  "bool \<Rightarrow> bool \<Rightarrow> string option \<Rightarrow> process_error_routes option \<Rightarrow> bool \<Rightarrow> process_retry \<Rightarrow> string \<Rightarrow> string \<Rightarrow> string \<Rightarrow>
   (unit, plan_error) result" where
  "validate_at_most_once at_most_once_effect at_most_once on_ambiguous on_error standalone_state retry connector op path =
     (if at_most_once \<and> \<not> at_most_once_effect
      then Err (validation (path @ ''.at_most_once'')
        (''connector operation '' @ ticked (connector @ ''.'' @ op) @
         '' publishes an idempotency contract, so an at-most-once opt-in would change nothing''))
      else if on_ambiguous \<noteq> None \<and> \<not> at_most_once
      then Err (validation (path @ ''.on_ambiguous'')
        ''an ambiguous-outcome route is reachable only for an at-most-once activity'')
      else if \<not> at_most_once_effect then Ok ()
      else if \<not> at_most_once
      then Err (validation (path @ ''.at_most_once'')
        (''connector operation '' @ ticked (connector @ ''.'' @ op) @
         '' publishes no idempotency mechanism; an activity may reference it only by declaring '' @ ticked ''at_most_once: true''))
      else if on_ambiguous = None
      then Err (validation (path @ ''.on_ambiguous'')
        (''an at-most-once activity must declare where an unknown outcome goes; '' @ ticked ''on_error'' @
         '' routes failures, and a send that may or may not have happened is not one''))
      else if standalone_state \<and> on_error = None
      then Err (validation (path @ ''.on_error'')
        (''an at-most-once activity must also declare '' @ ticked ''on_error'' @
         '': it retries nothing, so its first ordinary failure is terminal, and a failure with no declared route '' @
         ''leaves the instance running with nowhere to go''))
      else if retry_on retry \<noteq> []
      then Err (validation (path @ ''.retry.retry_on'')
        (''an at-most-once activity retries nothing: every retryable class is a second provider attempt, '' @
         ''and this operation may be sent once''))
      else if max_attempts retry \<noteq> 1
      then Err (validation (path @ ''.retry.max_attempts'')
        (''an at-most-once activity has exactly one attempt; '' @ ticked ''max_attempts'' @ '' is '' @
         nat_to_string (max_attempts retry)))
      else Ok ())"

section \<open>The horizon of the retries\<close>

definition retryable :: "process_error_kind \<Rightarrow> bool" where
  "retryable kind \<longleftrightarrow> kind \<in> {Transport, Timeout, Http429, Http5xx}"

fun check_retry_kinds ::
  "string \<Rightarrow> nat \<Rightarrow> process_error_kind list \<Rightarrow> process_error_kind list \<Rightarrow> (unit, plan_error) result" where
  "check_retry_kinds path i [] seen = Ok ()"
| "check_retry_kinds path i (kind # kinds) seen =
     (if \<not> retryable kind
      then Err (validation (at_index (path @ ''.retry_on'') i) ''only transport, timeout, http_429, and http_5xx are retryable'')
      else if kind \<in> set seen
      then Err (validation (at_index (path @ ''.retry_on'') i) ''retry_on contains a duplicate error kind'')
      else check_retry_kinds path (Suc i) kinds (kind # seen))"

definition horizon_checked :: "string \<Rightarrow> nat \<Rightarrow> (nat, plan_error) result" where
  "horizon_checked path n = (if n \<le> u64_max then Ok n else Err (validation path ''activity horizon overflowed''))"

fun horizon_loop :: "string \<Rightarrow> nat \<Rightarrow> nat \<Rightarrow> nat \<Rightarrow> nat \<Rightarrow> nat \<Rightarrow> (nat, plan_error) result" where
  "horizon_loop path maximum sts horizon bound 0 = Ok horizon"
| "horizon_loop path maximum sts horizon bound (Suc r) =
     res_bind (horizon_checked path (horizon + bound)) (\<lambda>h.
     res_bind (horizon_checked path (h + sts)) (\<lambda>horizon.
       if bound = maximum \<and> r > 0 then
         res_bind (horizon_checked path (maximum + sts)) (\<lambda>each.
         res_bind (horizon_checked path (each * r)) (\<lambda>saturated.
           horizon_checked path (horizon + saturated)))
       else horizon_loop path maximum sts horizon (min (min (bound * 2) u64_max) maximum) r))"

definition compile_retry_horizon ::
  "process_retry \<Rightarrow> bool \<Rightarrow> nat \<Rightarrow> nat \<Rightarrow> string \<Rightarrow> (nat, plan_error) result" where
  "compile_retry_horizon retry at_most_once schedule_to_start_ms start_to_close_ms path =
     (if max_attempts retry = 0
      then Err (validation (path @ ''.max_attempts'') ''retry max_attempts must be greater than zero'')
      else if retry_on retry = [] \<and> \<not> at_most_once
      then Err (validation (path @ ''.retry_on'') ''retry_on must not be empty'')
      else
        res_bind (check_retry_kinds path 0 (retry_on retry) []) (\<lambda>_.
        if jitter retry \<noteq> ''deterministic_full''
        then Err (validation (path @ ''.jitter'') (''retry jitter must be '' @ ticked ''deterministic_full''))
        else
          res_bind (parse_duration (initial_interval retry) (path @ ''.initial_interval'')) (\<lambda>initial.
          res_bind (parse_duration (max_interval retry) (path @ ''.max_interval'')) (\<lambda>maximum.
          if initial > maximum
          then Err (validation (path @ ''.max_interval'') ''retry max_interval must be at least initial_interval'')
          else
            res_bind (horizon_checked path (start_to_close_ms + MAXIMUM_ACTIVITY_TAKEOVER_DELAY_MS)) (\<lambda>per_attempt.
            res_bind (horizon_checked path (max_attempts retry * per_attempt)) (\<lambda>horizon.
              horizon_loop path maximum schedule_to_start_ms horizon initial (max_attempts retry - 1)))))))"

section \<open>Stable activity keys\<close>

definition validate_stable_activity_key ::
  "process_stable_activity_key \<Rightarrow> string \<Rightarrow> string option \<Rightarrow> string \<Rightarrow> (unit, plan_error) result" where
  "validate_stable_activity_key key owning item_key path =
     (if sk_run key \<noteq> ''id'' then Err (validation (path @ ''.run'') (''stable activity key run component must be '' @ ticked ''id''))
      else if sk_state key \<noteq> owning
      then Err (validation (path @ ''.state'')
        (''stable activity key state '' @ ticked (sk_state key) @ '' must equal owning state '' @ ticked owning))
      else if sk_item_key key \<noteq> item_key
      then Err (validation (path @ ''.item_key'')
        (case item_key of
           Some item_key \<Rightarrow> ''fan-out activity key must use item_key '' @ ticked item_key
         | None \<Rightarrow> ''scalar activity key must not declare item_key''))
      else Ok ())"

section \<open>What the budgets guarantee\<close>

lemma horizon_checked_Ok [simp]: "horizon_checked path n = Ok m \<longleftrightarrow> m = n \<and> n \<le> u64_max"
  by (auto simp: horizon_checked_def)

text \<open>The waits before the retries: they double from \<open>bound\<close> up to \<open>maximum\<close>.\<close>

definition waits :: "nat \<Rightarrow> nat \<Rightarrow> nat \<Rightarrow> nat" where
  "waits bound maximum r = (\<Sum>k<r. min (bound * 2 ^ k) maximum)"

lemma waits_Suc: "bound \<le> maximum \<Longrightarrow> waits bound maximum (Suc r) = bound + waits (min (bound * 2) maximum) maximum r"
proof -
  assume b: "bound \<le> maximum"
  have "min (bound * 2 ^ Suc k) maximum = min (min (bound * 2) maximum * 2 ^ k) maximum" for k
  proof (cases "bound * 2 \<le> maximum")
    case False
    have "maximum \<le> bound * 2 ^ Suc k" using False order_trans[of maximum "bound * 2" "bound * 2 ^ Suc k"] by simp
    moreover have "maximum \<le> maximum * 2 ^ k" by simp
    ultimately show ?thesis using False by (simp add: min_absorb2)
  qed (simp add: mult.assoc)
  then show ?thesis using b by (simp add: waits_def sum.lessThan_Suc_shift del: sum.lessThan_Suc)
qed

lemma waits_saturated: "waits maximum maximum r = maximum * r"
proof -
  have "min (maximum * 2 ^ k) maximum = maximum" for k by (simp add: min_absorb2)
  then show ?thesis by (simp add: waits_def)
qed

lemma horizon_loop_Ok:
  "bound \<le> maximum \<Longrightarrow> maximum \<le> u64_max \<Longrightarrow> horizon \<le> u64_max \<Longrightarrow>
   horizon_loop path maximum sts horizon bound r = Ok h \<longleftrightarrow>
   h = horizon + waits bound maximum r + r * sts \<and> h \<le> u64_max"
proof (induction path maximum sts horizon bound r rule: horizon_loop.induct)
  case (1 path maximum sts horizon bound)
  then show ?case by (auto simp: waits_def)
next
  case (2 path maximum sts horizon bound r)
  note split = waits_Suc[OF "2.prems"(1), of r]
  show ?case
  proof (cases "bound = maximum \<and> 0 < r")
    case True
    then have "(maximum + sts) * r = maximum * r + r * sts" by (simp add: algebra_simps)
    moreover have "maximum + sts \<le> (maximum + sts) * r" using True by simp
    ultimately show ?thesis using True split "2.prems" by (auto simp: waits_saturated)
  next
    case False
    let ?h = "horizon + bound + sts" and ?b = "min (bound * 2) maximum"
    have b: "min (min (bound * 2) u64_max) maximum = ?b" using "2.prems"(2) by linarith
    have "horizon_loop path maximum sts horizon bound (Suc r) = Ok h \<longleftrightarrow>
        ?h \<le> u64_max \<and> horizon_loop path maximum sts ?h ?b r = Ok h"
      using False unfolding horizon_loop.simps b by auto
    also have "\<dots> \<longleftrightarrow> ?h \<le> u64_max \<and> h = ?h + waits ?b maximum r + r * sts \<and> h \<le> u64_max"
      using "2.IH"[of "horizon + bound" ?h] False "2.prems"(2) unfolding b by auto
    also have "\<dots> \<longleftrightarrow> h = horizon + waits bound maximum (Suc r) + Suc r * sts \<and> h \<le> u64_max"
      unfolding split by auto
    finally show ?thesis .
  qed
qed

lemma check_retry_kinds_Ok:
  "check_retry_kinds path i kinds seen = Ok u \<longleftrightarrow> list_all retryable kinds \<and> distinct kinds \<and> set kinds \<inter> set seen = {}"
  by (induction path i kinds seen rule: check_retry_kinds.induct) auto

lemma parse_duration_bound: "parse_duration s path = Ok n \<Longrightarrow> 0 < n \<and> n \<le> u64_max"
  by (auto simp: parse_duration_def split: option.splits if_splits prod.splits)

text \<open>A retry declaration that validation accepts: what it waits for at first and at most.\<close>

definition retry_declared :: "process_retry \<Rightarrow> bool \<Rightarrow> string \<Rightarrow> nat \<Rightarrow> nat \<Rightarrow> bool" where
  "retry_declared retry at_most_once path initial maximum \<longleftrightarrow>
     0 < max_attempts retry \<and> (retry_on retry \<noteq> [] \<or> at_most_once) \<and> list_all retryable (retry_on retry) \<and>
     distinct (retry_on retry) \<and> jitter retry = ''deterministic_full'' \<and>
     parse_duration (initial_interval retry) (path @ ''.initial_interval'') = Ok initial \<and>
     parse_duration (max_interval retry) (path @ ''.max_interval'') = Ok maximum \<and> initial \<le> maximum"

text \<open>
  (C16) The horizon of an activity is exact: for a declaration that is accepted it is the time of all
  attempts, each with the delay of a takeover, and of the waits between them, which double up to the
  declared maximum, each followed by the time to start again. The loop adds the waits at the maximum
  in one multiplication; the result is the same, and it is refused exactly when the sum does not fit
  into 64 bits.
\<close>

theorem retry_horizon_exact:
  "compile_retry_horizon retry at_most_once sts stc path = Ok h \<longleftrightarrow>
   (\<exists>initial maximum. retry_declared retry at_most_once path initial maximum \<and>
      h = max_attempts retry * (stc + MAXIMUM_ACTIVITY_TAKEOVER_DELAY_MS) +
          (\<Sum>k<max_attempts retry - 1. min (initial * 2 ^ k) maximum + sts) \<and>
      h \<le> u64_max)"
proof -
  let ?each = "stc + MAXIMUM_ACTIVITY_TAKEOVER_DELAY_MS" and ?n = "max_attempts retry"
  have total: "?n * ?each + (\<Sum>k<?n - 1. min (initial * 2 ^ k) maximum + sts) =
      ?n * ?each + waits initial maximum (?n - 1) + (?n - 1) * sts" for initial maximum
    by (simp add: waits_def sum.distrib)
  have first: "?each \<le> ?n * ?each" if "0 < ?n" using that by simp
  show ?thesis unfolding total
  proof
    assume ok: "compile_retry_horizon retry at_most_once sts stc path = Ok h"
    then obtain initial maximum where d: "retry_declared retry at_most_once path initial maximum"
      and loop: "?n * ?each \<le> u64_max" "horizon_loop path maximum sts (?n * ?each) initial (?n - 1) = Ok h"
      by (auto simp: compile_retry_horizon_def retry_declared_def check_retry_kinds_Ok split: if_splits)
    have "initial \<le> maximum" "maximum \<le> u64_max" using d parse_duration_bound by (auto simp: retry_declared_def)
    then show "\<exists>initial maximum. retry_declared retry at_most_once path initial maximum \<and>
      h = ?n * ?each + waits initial maximum (?n - 1) + (?n - 1) * sts \<and> h \<le> u64_max"
      using d loop horizon_loop_Ok by blast
  next
    assume "\<exists>initial maximum. retry_declared retry at_most_once path initial maximum \<and>
      h = ?n * ?each + waits initial maximum (?n - 1) + (?n - 1) * sts \<and> h \<le> u64_max"
    then obtain initial maximum where d: "retry_declared retry at_most_once path initial maximum"
      and h: "h = ?n * ?each + waits initial maximum (?n - 1) + (?n - 1) * sts" "h \<le> u64_max" by blast
    have bounds: "initial \<le> maximum" "maximum \<le> u64_max" "0 < ?n" "?n * ?each \<le> u64_max"
      using d parse_duration_bound h by (auto simp: retry_declared_def)
    have "horizon_loop path maximum sts (?n * ?each) initial (?n - 1) = Ok h"
      using horizon_loop_Ok[OF bounds(1,2,4)] h by blast
    then show "compile_retry_horizon retry at_most_once sts stc path = Ok h"
      using d bounds(3,4) first order_trans[OF first[OF bounds(3)] bounds(4)]
      by (auto simp: compile_retry_horizon_def retry_declared_def check_retry_kinds_Ok)
  qed
qed

lemma route_kinds_Ok:
  "route_kinds path i k kinds seen = Ok out \<longleftrightarrow> distinct kinds \<and> set kinds \<inter> set seen = {} \<and> out = rev kinds @ seen"
  by (induction path i k kinds seen rule: route_kinds.induct) auto

lemma check_routes_Ok:
  "check_routes path i rs seen = Ok u \<longleftrightarrow>
   list_all (\<lambda>r. er_kinds r \<noteq> []) rs \<and> distinct (concat (map er_kinds rs)) \<and> set (concat (map er_kinds rs)) \<inter> set seen = {}"
  by (induction path i rs seen rule: check_routes.induct) (auto simp: route_kinds_Ok)

lemma validate_error_routes_Ok:
  "validate_error_routes (Some r) path = Ok u \<longleftrightarrow>
   routes r \<noteq> [] \<and> list_all (\<lambda>route. er_kinds route \<noteq> []) (routes r) \<and> distinct (concat (map er_kinds (routes r)))"
  by (simp add: validate_error_routes_def check_routes_Ok)

text \<open>
  An activity whose provider offers no protection against duplicates is accepted only when nothing
  can send it twice: it declares so, has a way for an unknown outcome and, as a state, one for
  failures, and its retry budget is a single attempt, so that its horizon is that of one attempt.
\<close>

lemma at_most_once_never_retries:
  assumes "validate_at_most_once True at_most_once on_ambiguous on_error standalone retry connector op path = Ok ()"
    "compile_retry_horizon retry at_most_once sts stc retry_path = Ok h"
  shows "at_most_once \<and> on_ambiguous \<noteq> None \<and> (standalone \<longrightarrow> on_error \<noteq> None) \<and> retry_on retry = [] \<and>
    max_attempts retry = 1 \<and> h = stc + MAXIMUM_ACTIVITY_TAKEOVER_DELAY_MS"
proof -
  have a: "at_most_once" "on_ambiguous \<noteq> None" "standalone \<longrightarrow> on_error \<noteq> None" "retry_on retry = []" "max_attempts retry = 1"
    using assms(1) by (auto simp: validate_at_most_once_def split: if_splits)
  then show ?thesis using assms(2) by (auto simp: compile_retry_horizon_def split: if_splits)
qed

end
