(* ===== verification/Process_Compile.thy ===== *)
theory Process_Compile
  imports Process_Values Process_Retry
begin

text \<open>
  Compilation of the states of a process (\<open>crates/processes/src/lib.rs\<close>): commands and the roles that
  run them, connector requests, conditions, waits, fan-outs, outputs and failures. Each function takes
  the closure of the dependencies pinned so far and returns it extended.
\<close>

section \<open>Compiled states\<close>

datatype compiled_command_role = Caller "string set btree_map" | FixedRole string

record compiled_command =
  cc_name :: string
  cc_role :: compiled_command_role
  cc_arguments :: process_bindings

record compiled_request_activity =
  cr_connector :: string
  cr_operation :: string
  cr_input :: process_bindings
  cr_provider_idempotent :: bool
  cr_at_most_once :: bool
  cr_on_ambiguous :: "string option"
  cr_schedule_to_start_ms :: nat
  cr_start_to_close_ms :: nat
  cr_retry :: process_retry
  cr_initial_retry_interval_ms :: nat
  cr_maximum_retry_interval_ms :: nat
  cr_on_error :: "process_error_routes option"

record compiled_request =
  cr_activity :: compiled_request_activity
  cr_next :: string

record compiled_decision_call =
  dc_name :: string
  dc_input :: process_bindings

datatype compiled_when_predicate = Matches "json btree_map" | RuleHolds string process_bindings

record compiled_when_case =
  cw_predicate :: compiled_when_predicate
  cw_next :: string

record compiled_when =
  cw_decision_table :: "compiled_decision_call option"
  cw_cases :: "compiled_when_case list"
  cw_default :: string
  cw_literal_output_state :: "string option"

datatype compiled_timestamp_kind = KTimestamp | KTimestampTz

datatype compiled_deadline = AfterMilliseconds nat | AtTime process_value compiled_timestamp_kind

record compiled_signal_wait =
  ks_signal :: string
  ks_role :: string
  ks_persist_before_match :: bool
  ks_correlate :: process_bindings
  ks_deadline :: compiled_deadline
  ks_next :: string
  ks_on_timeout :: string

record compiled_webhook_wait =
  kw_connector :: string
  kw_trigger :: string
  kw_correlate :: process_bindings
  kw_guard :: "process_webhook_guard option"
  kw_deadline :: compiled_deadline
  kw_next :: string
  kw_on_timeout :: string

record compiled_timer_wait =
  kt_decision :: compiled_decision_call
  kt_duration_output :: string
  kt_next :: string

datatype compiled_wait = KSignal compiled_signal_wait | KWebhook compiled_webhook_wait | KTimer compiled_timer_wait

datatype compiled_for_each_activity = FECommand compiled_command | FERequest compiled_request

record compiled_for_each =
  cf_input :: process_value
  cf_item_key :: string
  cf_max_items :: nat
  cf_max_concurrency :: nat
  cf_preserve_input :: bool
  cf_next :: string
  cf_activity :: compiled_for_each_activity

datatype compiled_operation =
    CCommand compiled_command string
  | CRequest compiled_request
  | CWhen compiled_when
  | CWait compiled_wait
  | CForEach compiled_for_each
  | COutput process_bindings
  | CFail string string

record compiled_state =
  ct_id :: string
  ct_output :: value_contract_catalog
  ct_maximum_send_horizons_ms :: "nat btree_map"
  ct_operation :: compiled_operation

section \<open>Commands\<close>

definition resolve_command ::
  "process_dependencies \<Rightarrow> string \<Rightarrow> string \<Rightarrow> string \<Rightarrow> (process_command_descriptor, plan_error) result" where
  "resolve_command deps source name path =
     res_bind (ok_or (validation path (''command '' @ ticked (source @ ''.'' @ name) @ '' does not exist''))
       (dep_command deps source name)) (\<lambda>descriptor.
     if cd_source descriptor \<noteq> source \<or> cd_name descriptor \<noteq> name
     then Err (validation path (''command descriptor '' @ ticked (cd_source descriptor) @ '' is not source-local to '' @
            ticked (source @ ''.'' @ name)))
     else Ok descriptor)"

definition validate_caller_role ::
  "process \<Rightarrow> process_command_descriptor \<Rightarrow> string \<Rightarrow> (unit, plan_error) result" where
  "validate_caller_role p descriptor path =
     (case filter (\<lambda>permission. pp_role permission \<notin> allowed_roles descriptor) (permissions p) of
        [] \<Rightarrow> Ok ()
      | permission # _ \<Rightarrow>
          Err (validation path (''command '' @ ticked (cd_name descriptor) @ '' is not executable by process caller role '' @
            ticked (pp_role permission))))"

definition validate_run_as ::
  "process \<Rightarrow> process_command_descriptor \<Rightarrow> string \<Rightarrow> string \<Rightarrow> (unit, plan_error) result" where
  "validate_run_as p descriptor run_as path =
     (if run_as = ''caller'' then validate_caller_role p descriptor path
      else if run_as = [] \<or> run_as = ''admin''
      then Err (validation path (''command run_as must be '' @ ticked ''caller'' @ '' or an explicit non-admin role''))
      else if run_as \<notin> allowed_roles descriptor
      then Err (validation path
        (''command '' @ ticked (cd_name descriptor) @ '' is not executable as role '' @ ticked run_as))
      else if (case bt_get (required_session_variables descriptor) run_as of None \<Rightarrow> False | Some variables \<Rightarrow> variables \<noteq> [])
      then Err (validation path (''fixed Process command role '' @ ticked run_as @
        '' requires session variables, but fixed roles have no ambient request session''))
      else Ok ())"

text \<open>The session variables a command needs for a role, in the lower case that sessions use.\<close>

definition session_variables_for :: "process_command_descriptor \<Rightarrow> string \<Rightarrow> string set" where
  "session_variables_for descriptor role =
     (case bt_get (required_session_variables descriptor) role of
        None \<Rightarrow> {}
      | Some variables \<Rightarrow> set (map (map to_ascii_lowercase) (bt_keys variables)))"

definition compile_command_role ::
  "process \<Rightarrow> process_command_descriptor \<Rightarrow> string \<Rightarrow> string \<Rightarrow> (compiled_command_role, plan_error) result" where
  "compile_command_role p descriptor run_as path =
     res_map (\<lambda>_.
       if run_as \<noteq> ''caller'' then FixedRole run_as
       else Caller (bt_collect (map (\<lambda>permission. (pp_role permission, session_variables_for descriptor (pp_role permission)))
              (permissions p))))
       (validate_run_as p descriptor run_as path)"

definition pin_command ::
  "string \<Rightarrow> string \<Rightarrow> process_command_descriptor \<Rightarrow> process_dependency_closure \<Rightarrow> process_dependency_closure" where
  "pin_command source name descriptor closure =
     closure\<lparr>cl_commands := bt_insert (source, name) descriptor (cl_commands closure)\<rparr>"

definition compile_command_activity ::
  "compile_context \<Rightarrow> process_dependency_closure \<Rightarrow> string \<Rightarrow> process_command_activity \<Rightarrow>
   (process_dependency_closure \<times> process_command_descriptor, plan_error) result" where
  "compile_command_activity context closure path activity =
     (let deps = cc_dependencies context; source = p_source (cc_process context) in
      res_bind (resolve_command deps source (ca_name activity) (path @ ''.name'')) (\<lambda>descriptor.
      res_bind (validate_run_as (cc_process context) descriptor (ca_run_as activity) (path @ ''.run_as'')) (\<lambda>_.
      res_bind (normalize_contract (cd_arguments descriptor) (dep_declared deps) (path @ ''.arguments'')) (\<lambda>arguments.
      res_bind (normalize_contract (cd_result descriptor) (dep_declared deps) (path @ ''.result'')) (\<lambda>outcome.
      res_map (\<lambda>_. let descriptor = descriptor\<lparr>cd_arguments := arguments, cd_result := outcome\<rparr> in
                 (pin_command source (ca_name activity) descriptor closure, descriptor))
        (validate_binding_map context (path @ ''.arguments'') (ca_arguments activity) arguments))))))"

text \<open>The command of a state or of a fan-out: the activity, then the role that runs it.\<close>

definition compile_command ::
  "compile_context \<Rightarrow> process_dependency_closure \<Rightarrow> string \<Rightarrow> process_command_activity \<Rightarrow>
   (process_dependency_closure \<times> value_contract_catalog \<times> compiled_command, plan_error) result" where
  "compile_command context closure path activity =
     res_bind (compile_command_activity context closure path activity) (\<lambda>(closure, descriptor).
     res_map (\<lambda>role. (closure, cd_result descriptor,
         \<lparr>cc_name = ca_name activity, cc_role = role, cc_arguments = ca_arguments activity\<rparr>))
       (compile_command_role (cc_process context) descriptor (ca_run_as activity) (path @ ''.run_as'')))"

section \<open>Requests\<close>

fun step_horizons ::
  "string \<Rightarrow> nat \<Rightarrow> provider_idempotent_step list \<Rightarrow> nat btree_map \<Rightarrow> (nat btree_map, plan_error) result" where
  "step_horizons path horizon [] horizons = Ok horizons"
| "step_horizons path horizon (step # remaining) horizons =
     (if minimum_retention_ms step < clock_safety_margin_ms step
      then Err (validation path (''connector step '' @ ticked (step_id step) @ '' has an invalid retention window''))
      else let usable = minimum_retention_ms step - clock_safety_margin_ms step in
        if horizon > usable
        then Err (validation path (''maximum send horizon '' @ format_number horizon @
          '' ms exceeds usable provider retention '' @ format_number usable @ '' ms for step '' @ ticked (step_id step)))
        else step_horizons path horizon remaining (bt_insert (step_id step) horizon horizons))"

definition request_effect ::
  "operation_effect \<Rightarrow> process_stable_activity_key option \<Rightarrow> string \<Rightarrow> string option \<Rightarrow> nat \<Rightarrow> string \<Rightarrow>
   (bool \<times> nat btree_map, plan_error) result" where
  "request_effect effect key owning item_key horizon path =
     (case effect of
        ReadOnly \<Rightarrow>
          if key \<noteq> None
          then Err (validation (path @ ''.idempotency_key'') ''read-only connector operations must remain headerless'')
          else Ok (False, [])
      | AtMostOnce \<Rightarrow>
          if key \<noteq> None
          then Err (validation (path @ ''.idempotency_key'')
            ''an at-most-once operation binds no provider key; its safety is the send that is never repeated'')
          else Ok (False, [])
      | ProviderIdempotent side_effect_steps \<Rightarrow>
          res_bind (ok_or (validation (path @ ''.idempotency_key'')
            ''provider-idempotent operation requires a stable activity key'') key) (\<lambda>stable.
          res_bind (validate_stable_activity_key stable owning item_key (path @ ''.idempotency_key.stable'')) (\<lambda>_.
            res_map (Pair True) (step_horizons (path @ ''.retry'') horizon side_effect_steps []))))"

definition pin_operation ::
  "string \<Rightarrow> string \<Rightarrow> resolved_operation \<Rightarrow> string \<Rightarrow> process_dependency_closure \<Rightarrow>
   (process_dependency_closure, plan_error) result" where
  "pin_operation source connector resolved path closure =
     (let key = (source, connector, id_key (os_operation (ro_spec resolved))) in
      case bt_get (cl_operations closure) key of
        Some existing \<Rightarrow>
          if po_fingerprint existing \<noteq> ro_fingerprint resolved
             \<or> po_serialization_key_input existing \<noteq> ro_serialization_key_input resolved
             \<or> po_address existing \<noteq> ro_address resolved
          then Err (validation (path @ ''.operation'') ''connector dependency changed during process compilation'')
          else Ok closure
      | None \<Rightarrow>
          Ok (closure\<lparr>cl_operations := bt_insert key
            \<lparr>po_source = source, po_instance = connector, po_spec = ro_spec resolved, po_address = ro_address resolved,
             po_fingerprint = ro_fingerprint resolved, po_serialization_key_input = ro_serialization_key_input resolved\<rparr>
            (cl_operations closure)\<rparr>))"

definition resolve_operation ::
  "compile_context \<Rightarrow> string \<Rightarrow> string \<Rightarrow> string \<Rightarrow> (resolved_operation, plan_error) result" where
  "resolve_operation context connector op path =
     (let source = p_source (cc_process context) in
      if is_space_only connector \<or> is_space_only op
      then Err (validation path ''request connector and operation must not be empty'')
      else
        res_bind (map_err (validation (path @ ''.operation'')) (dep_operation (cc_dependencies context) source connector op)) (\<lambda>found.
        res_bind (ok_or (validation (path @ ''.operation'')
          (''connector operation '' @ ticked (source @ ''.'' @ connector @ ''.'' @ op) @ '' is not executable'')) found) (\<lambda>resolved.
          if os_operation (ro_spec resolved) \<noteq> op
          then Err (validation (path @ ''.operation'') ''connector catalog returned a different operation identity'')
          else Ok resolved)))"

text \<open>The budgets of a request: its two timeouts and the horizon of its sends.\<close>

definition request_budgets ::
  "resolved_operation \<Rightarrow> process_request_activity \<Rightarrow> string \<Rightarrow> (nat \<times> nat \<times> nat, plan_error) result" where
  "request_budgets resolved activity path =
     res_bind (parse_duration (schedule_to_start (ra_timeout activity)) (path @ ''.timeout.schedule_to_start'')) (\<lambda>sts.
     res_bind (parse_duration (start_to_close (ra_timeout activity)) (path @ ''.timeout.start_to_close'')) (\<lambda>stc.
     if os_deadline_ms (ro_spec resolved) > stc
     then Err (validation (path @ ''.timeout.start_to_close'')
       (''connector operation deadline '' @ nat_to_string (os_deadline_ms (ro_spec resolved)) @
        '' ms exceeds start_to_close '' @ nat_to_string stc @ '' ms''))
     else res_map (\<lambda>horizon. (sts, stc, horizon))
       (compile_retry_horizon (ra_retry activity) (ra_at_most_once activity) sts stc (path @ ''.retry''))))"

definition compile_request ::
  "compile_context \<Rightarrow> process_dependency_closure \<Rightarrow> string \<Rightarrow> process_request_activity \<Rightarrow> string \<Rightarrow> string option \<Rightarrow>
   (process_dependency_closure \<times> value_contract_catalog \<times> nat btree_map \<times> compiled_request_activity, plan_error) result" where
  "compile_request context closure path activity owning item_key =
     res_bind (resolve_operation context (ra_connector activity) (ra_operation activity) path) (\<lambda>resolved.
     let spec = ro_spec resolved; declared = dep_declared (cc_dependencies context) in
     res_bind (normalize_contract (os_input spec) declared (path @ ''.input'')) (\<lambda>inputs.
     res_bind (normalize_contract (os_output spec) declared (path @ ''.output'')) (\<lambda>outputs.
     res_bind (validate_binding_map context (path @ ''.input'') (ra_input activity) inputs) (\<lambda>_.
     res_bind (validate_error_routes (ra_on_error activity) (path @ ''.on_error'')) (\<lambda>_.
     res_bind (validate_at_most_once (os_effect spec = AtMostOnce) (ra_at_most_once activity) (ra_on_ambiguous activity)
       (ra_on_error activity) (item_key = None) (ra_retry activity) (ra_connector activity) (ra_operation activity) path) (\<lambda>_.
     res_bind (request_budgets resolved activity path) (\<lambda>(sts, stc, horizon).
     res_bind (parse_duration (initial_interval (ra_retry activity)) (path @ ''.retry.initial_interval'')) (\<lambda>initial.
     res_bind (parse_duration (max_interval (ra_retry activity)) (path @ ''.retry.max_interval'')) (\<lambda>maximum.
     res_bind (request_effect (os_effect spec) (ra_idempotency_key activity) owning item_key horizon path) (\<lambda>(idempotent, horizons).
     res_map (\<lambda>closure. (closure, outputs, horizons,
         \<lparr>cr_connector = ra_connector activity, cr_operation = os_operation spec, cr_input = ra_input activity,
          cr_provider_idempotent = idempotent, cr_at_most_once = ra_at_most_once activity,
          cr_on_ambiguous = ra_on_ambiguous activity, cr_schedule_to_start_ms = sts, cr_start_to_close_ms = stc,
          cr_retry = ra_retry activity, cr_initial_retry_interval_ms = initial, cr_maximum_retry_interval_ms = maximum,
          cr_on_error = ra_on_error activity\<rparr>))
       (pin_operation (p_source (cc_process context)) (ra_connector activity) resolved path closure)))))))))))"

definition request_activity_of :: "process_request_state \<Rightarrow> process_request_activity" where
  "request_activity_of request =
     \<lparr>ra_connector = rs_connector request, ra_operation = rs_operation request, ra_input = rs_input request,
      ra_idempotency_key = rs_idempotency_key request, ra_timeout = rs_timeout request, ra_retry = rs_retry request,
      ra_on_error = rs_on_error request, ra_at_most_once = rs_at_most_once request,
      ra_on_ambiguous = rs_on_ambiguous request, ra_template_pin = rs_template_pin request\<rparr>"

definition compile_request_state ::
  "compile_context \<Rightarrow> process_dependency_closure \<Rightarrow> string \<Rightarrow> process_request_state \<Rightarrow> string \<Rightarrow>
   (process_dependency_closure \<times> value_contract_catalog \<times> nat btree_map \<times> compiled_request, plan_error) result" where
  "compile_request_state context closure path request owning =
     res_map (\<lambda>(closure, outputs, horizons, activity). (closure, outputs, horizons, \<lparr>cr_activity = activity, cr_next = rs_next request\<rparr>))
       (compile_request context closure path (request_activity_of request) owning None)"

definition compile_request_activity ::
  "compile_context \<Rightarrow> process_dependency_closure \<Rightarrow> string \<Rightarrow> process_request_activity \<Rightarrow> string \<Rightarrow> string \<Rightarrow> string \<Rightarrow>
   (process_dependency_closure \<times> value_contract_catalog \<times> nat btree_map \<times> compiled_request, plan_error) result" where
  "compile_request_activity context closure path request owning item_key next_state =
     res_map (\<lambda>(closure, outputs, horizons, activity). (closure, outputs, horizons, \<lparr>cr_activity = activity, cr_next = next_state\<rparr>))
       (compile_request context closure path request owning (Some item_key))"

section \<open>Conditions\<close>

definition validate_literal_matches ::
  "(string \<Rightarrow> string) \<Rightarrow> json btree_map \<Rightarrow> value_contract_catalog \<Rightarrow> string \<Rightarrow> (unit, plan_error) result" where
  "validate_literal_matches debug matched contract path =
     (if matched = [] then Err (validation path ''matches object must not be empty'')
      else res_map (\<lambda>_. ()) (collect_res (\<lambda>(field, literal).
        res_bind (ok_or (validation (path @ ''.'' @ field) (''matches references unknown output field '' @ ticked field))
          (root_type contract field)) (\<lambda>target.
          validate_json_literal debug literal target (path @ ''.'' @ field))) matched))"

text \<open>
  The available state with the greatest index whose output has every field that is matched; among
  equal indices, which distinct states do not have, \<open>max_by_key\<close> takes the last.
\<close>

fun latest_of :: "(nat \<times> 'a) list \<Rightarrow> (nat \<times> 'a) option" where
  "latest_of [] = None"
| "latest_of ((i, x) # xs) =
     (case latest_of xs of
        None \<Rightarrow> Some (i, x)
      | Some (j, y) \<Rightarrow> if i > j then Some (i, x) else Some (j, y))"

definition latest_matching_state_contract ::
  "compile_context \<Rightarrow> json btree_map \<Rightarrow> (string \<times> value_contract_catalog) option" where
  "latest_matching_state_contract context matched =
     map_option snd (latest_of (List.map_filter (\<lambda>(name, i).
       case bt_get (cc_state_types context) name of
         None \<Rightarrow> None
       | Some contract \<Rightarrow>
           if list_all (\<lambda>field. bt_contains (roots contract) field) (bt_keys matched) then Some (i, name, contract) else None)
       (filter (\<lambda>(name, i). i \<in> cc_available_outputs context) (cc_state_indices context))))"

definition compile_decision_case ::
  "(string \<Rightarrow> string) \<Rightarrow> value_contract_catalog \<Rightarrow> string \<Rightarrow> nat \<Rightarrow> process_when_case \<Rightarrow> (compiled_when_case, plan_error) result" where
  "compile_decision_case debug outputs path i branch =
     (case wc_matches branch of
        Some matched \<Rightarrow>
          if wc_rule branch \<noteq> None \<or> wc_bindings branch \<noteq> []
          then Err (validation (at_index (path @ ''.cases'') i) ''decision-table cases must contain only a matches object and next'')
          else res_map (\<lambda>_. \<lparr>cw_predicate = Matches matched, cw_next = wc_next branch\<rparr>)
            (validate_literal_matches debug matched outputs (at_index (path @ ''.cases'') i @ ''.matches''))
      | None \<Rightarrow>
          Err (validation (at_index (path @ ''.cases'') i) ''decision-table cases must contain only a matches object and next''))"

definition resolve_decision_table ::
  "compile_context \<Rightarrow> string \<Rightarrow> string \<Rightarrow> (process_decision_descriptor, plan_error) result" where
  "resolve_decision_table context name path =
     ok_or (validation (path @ ''.decision_table'') (''decision table '' @ ticked name @ '' does not exist''))
       (dep_decision_table (cc_dependencies context) name)"

text \<open>The state of the loop over the cases: what is pinned, the state and the output that literals are matched with.\<close>

record when_loop =
  wl_closure :: process_dependency_closure
  wl_contract :: "value_contract_catalog option"
  wl_output_state :: "string option"
  wl_cases :: "compiled_when_case list"

definition compile_literal_case ::
  "compile_context \<Rightarrow> string \<Rightarrow> process_when_case \<Rightarrow> json btree_map \<Rightarrow> when_loop \<Rightarrow> (when_loop, plan_error) result" where
  "compile_literal_case context path branch matched st =
     (if wc_bindings branch \<noteq> []
      then Err (validation (path @ ''.with'') ''literal match case must not declare rule bindings'')
      else
        res_bind (ok_or (validation (path @ ''.matches'') ''match fields do not resolve to one prior state output'')
          (latest_matching_state_contract context matched)) (\<lambda>(source_state, source).
        if (case wl_output_state st of None \<Rightarrow> False | Some existing \<Rightarrow> existing \<noteq> source_state)
        then Err (validation (path @ ''.matches'')
          ''all literal match cases in one when state must resolve to the same prior state output'')
        else
          res_map (\<lambda>_. st\<lparr>
              wl_output_state := Some (case wl_output_state st of None \<Rightarrow> source_state | Some s \<Rightarrow> s),
              wl_contract := Some (case wl_contract st of None \<Rightarrow> source | Some c \<Rightarrow> c),
              wl_cases := wl_cases st @ [\<lparr>cw_predicate = Matches matched, cw_next = wc_next branch\<rparr>]\<rparr>)
            (validate_literal_matches (cc_debug context) matched source (path @ ''.matches''))))"

definition pin_rule ::
  "string \<Rightarrow> process_rule_descriptor \<Rightarrow> process_dependency_closure \<Rightarrow> process_dependency_closure" where
  "pin_rule name descriptor closure = closure\<lparr>cl_rules := bt_insert name descriptor (cl_rules closure)\<rparr>"

definition compile_rule_case ::
  "compile_context \<Rightarrow> string \<Rightarrow> process_when_case \<Rightarrow> string \<Rightarrow> when_loop \<Rightarrow> (when_loop, plan_error) result" where
  "compile_rule_case context path branch rule_name st =
     res_bind (ok_or (validation (path @ ''.rule'') (''rule '' @ ticked rule_name @ '' does not exist''))
       (dep_rule (cc_dependencies context) rule_name)) (\<lambda>descriptor.
     if rl_result descriptor \<noteq> TBool
     then Err (validation (path @ ''.rule'') (''when rule '' @ ticked rule_name @ '' must return bool''))
     else
       res_map (\<lambda>_. st\<lparr>
           wl_closure := pin_rule rule_name descriptor (wl_closure st),
           wl_cases := wl_cases st @
             [\<lparr>cw_predicate = RuleHolds rule_name (wc_bindings branch), cw_next = wc_next branch\<rparr>]\<rparr>)
         (validate_binding_map context (path @ ''.with'') (wc_bindings branch) (contract_from_rule_types (rl_bindings descriptor))))"

definition compile_case ::
  "compile_context \<Rightarrow> string \<Rightarrow> process_when_case \<Rightarrow> when_loop \<Rightarrow> (when_loop, plan_error) result" where
  "compile_case context path branch st =
     (case (wc_matches branch, wc_rule branch) of
        (Some matched, None) \<Rightarrow> compile_literal_case context path branch matched st
      | (None, Some rule_name) \<Rightarrow> compile_rule_case context path branch rule_name st
      | _ \<Rightarrow> Err (validation path ''when case must declare exactly one of matches or rule''))"

fun compile_cases ::
  "compile_context \<Rightarrow> string \<Rightarrow> nat \<Rightarrow> process_when_case list \<Rightarrow> when_loop \<Rightarrow> (when_loop, plan_error) result" where
  "compile_cases context path i [] st = Ok st"
| "compile_cases context path i (branch # branches) st =
     res_bind (compile_case context (at_index (path @ ''.cases'') i) branch st) (compile_cases context path (Suc i) branches)"

definition pin_decision ::
  "string \<Rightarrow> process_decision_descriptor \<Rightarrow> process_dependency_closure \<Rightarrow> process_dependency_closure" where
  "pin_decision name descriptor closure =
     closure\<lparr>cl_decision_tables := bt_insert name descriptor (cl_decision_tables closure)\<rparr>"

definition compile_when_state ::
  "compile_context \<Rightarrow> process_dependency_closure \<Rightarrow> process_when_state \<Rightarrow>
   (process_dependency_closure \<times> value_contract_catalog \<times> compiled_when, plan_error) result" where
  "compile_when_state context closure branching =
     (let path = cc_path context @ ''.when'' in
      if when_cases branching = [] then Err (validation (path @ ''.cases'') ''when state must declare at least one case'')
      else
        case decision_table branching of
          Some name \<Rightarrow>
            res_bind (resolve_decision_table context name path) (\<lambda>descriptor.
            res_bind (validate_binding_map context (path @ ''.input'') (when_input branching)
              (contract_from_rule_types (dd_inputs descriptor))) (\<lambda>_.
            let outputs = contract_from_rule_types (dd_output descriptor) in
            res_map (\<lambda>branches.
                (pin_decision name descriptor closure, outputs,
                 \<lparr>cw_decision_table = Some \<lparr>dc_name = name, dc_input = when_input branching\<rparr>, cw_cases = branches,
                  cw_default = when_default branching, cw_literal_output_state = None\<rparr>))
              (collect_res (\<lambda>(i, branch). compile_decision_case (cc_debug context) outputs path i branch)
                (enumerate 0 (when_cases branching)))))
        | None \<Rightarrow>
            if when_input branching \<noteq> []
            then Err (validation (path @ ''.input'') ''when input is valid only with decision_table'')
            else
              res_map (\<lambda>st.
                  (wl_closure st, case wl_contract st of None \<Rightarrow> empty_contract | Some c \<Rightarrow> c,
                   \<lparr>cw_decision_table = None, cw_cases = wl_cases st, cw_default = when_default branching,
                    cw_literal_output_state = wl_output_state st\<rparr>))
                (compile_cases context path 0 (when_cases branching)
                  \<lparr>wl_closure = closure, wl_contract = None, wl_output_state = None, wl_cases = []\<rparr>))"

section \<open>Waits\<close>

definition compile_wait_deadline ::
  "compile_context \<Rightarrow> process_deadline \<Rightarrow> string \<Rightarrow> string \<Rightarrow> (compiled_deadline, plan_error) result" where
  "compile_wait_deadline context deadline path kind =
     (case deadline of
        DDuration duration \<Rightarrow> res_map AfterMilliseconds (parse_duration duration (path @ ''.deadline''))
      | DValue v \<Rightarrow>
          res_bind (infer_value context (path @ ''.deadline'') v) (\<lambda>inferred.
          res_bind (ok_or (validation (path @ ''.deadline'') (kind @ '' deadline cannot be an untyped null literal''))
            (known inferred)) (\<lambda>t.
            let refused = Err (validation (path @ ''.deadline'') (kind @ '' deadline must be a non-null timestamp'')) in
            if tr_nullable t then refused
            else case value_type t of
                VScalar STimestamp \<Rightarrow> Ok (AtTime v KTimestamp)
              | VScalar STimestampTz \<Rightarrow> Ok (AtTime v KTimestampTz)
              | _ \<Rightarrow> refused)))"

definition compile_timer_wait ::
  "compile_context \<Rightarrow> process_dependency_closure \<Rightarrow> process_timer_wait \<Rightarrow>
   (process_dependency_closure \<times> value_contract_catalog \<times> compiled_wait, plan_error) result" where
  "compile_timer_wait context closure wait =
     (let path = cc_path context @ ''.wait.timer''; declared = timer wait in
      res_bind (resolve_decision_table context (pt_decision_table declared) path) (\<lambda>descriptor.
      res_bind (validate_binding_map context (path @ ''.with'') (pt_bindings declared)
        (contract_from_rule_types (dd_inputs descriptor))) (\<lambda>_.
      res_bind (ok_or (validation (path @ ''.output'')
        (''decision table '' @ ticked (dd_name descriptor) @ '' has no output '' @ ticked (pt_output declared)))
        (bt_get (dd_output descriptor) (pt_output declared))) (\<lambda>output_type.
        if strip_rule_nullable output_type \<notin> {TInt, TInt64}
        then Err (validation (path @ ''.output'') ''timer decision output must be an integer duration in seconds'')
        else Ok (pin_decision (dd_name descriptor) descriptor closure, contract_from_rule_types (dd_output descriptor),
          KTimer \<lparr>kt_decision = \<lparr>dc_name = dd_name descriptor, dc_input = pt_bindings declared\<rparr>,
            kt_duration_output = pt_output declared, kt_next = tw_next wait\<rparr>)))))"

fun merge_signal_roots ::
  "string \<Rightarrow> contract_field btree_map \<Rightarrow> (string \<times> contract_field) list \<Rightarrow> (contract_field btree_map, plan_error) result" where
  "merge_signal_roots path merged [] = Ok merged"
| "merge_signal_roots path merged ((name, f) # fs) =
     (if bt_contains merged name
      then Err (validation (path @ ''.signal'') (''signal field '' @ ticked name @ '' collides across correlation and payload''))
      else merge_signal_roots path (bt_insert name f merged) fs)"

definition signal_role_refused :: "process \<Rightarrow> compiled_signal \<Rightarrow> process_signal_wait \<Rightarrow> string option" where
  "signal_role_refused p signal wait =
     (if sw_role wait = [] \<or> sw_role wait = ''admin''
      then Some ''signal wait role must be an explicit non-admin role''
      else case cs_role signal of
          Some role \<Rightarrow>
            if role \<noteq> sw_role wait
            then Some (''signal '' @ ticked (sw_signal wait) @ '' is restricted to role '' @ ticked role @ '', not '' @
                   ticked (sw_role wait))
            else None
        | None \<Rightarrow>
            if list_all (\<lambda>permission. pp_role permission \<noteq> sw_role wait) (permissions p)
            then Some ''an unrestricted signal wait role must be a process caller role''
            else None)"

definition compile_signal_wait ::
  "compile_context \<Rightarrow> process_dependency_closure \<Rightarrow> process_signal_wait \<Rightarrow>
   (process_dependency_closure \<times> value_contract_catalog \<times> compiled_wait, plan_error) result" where
  "compile_signal_wait context closure wait =
     (let path = cc_path context @ ''.wait'' in
      res_bind (ok_or (validation (path @ ''.signal'')
        (''signal '' @ ticked (sw_signal wait) @ '' is not declared by the process''))
        (bt_get (cc_signals context) (sw_signal wait))) (\<lambda>signal.
      case signal_role_refused (cc_process context) signal wait of
        Some message \<Rightarrow> Err (validation (path @ ''.role'') message)
      | None \<Rightarrow>
          if sw_verification wait \<noteq> ''required''
          then Err (validation (path @ ''.verification'') (''signal verification must be '' @ ticked ''required''))
          else
            res_bind (validate_binding_map context (path @ ''.correlate'') (sw_correlate wait) (cs_correlation signal)) (\<lambda>_.
            res_bind (compile_wait_deadline context (sw_deadline wait) path ''signal'') (\<lambda>deadline.
            res_map (\<lambda>merged.
                (closure, \<lparr>roots = merged, named_objects = []\<rparr>,
                 KSignal \<lparr>ks_signal = sw_signal wait, ks_role = sw_role wait,
                   ks_persist_before_match = sw_persist_before_match wait, ks_correlate = sw_correlate wait,
                   ks_deadline = deadline, ks_next = sw_next wait, ks_on_timeout = sw_on_timeout wait\<rparr>))
              (merge_signal_roots path (roots (cs_correlation signal)) (roots (cs_payload signal)))))))"

definition resolve_webhook ::
  "compile_context \<Rightarrow> process_webhook_subscription \<Rightarrow> string \<Rightarrow>
   (resolved_trigger \<times> value_contract_catalog, plan_error) result" where
  "resolve_webhook context subscription path =
     (let source = p_source (cc_process context); name = ws_trigger subscription; refused = validation (path @ ''.trigger'') in
      if \<not> valid_id name
      then Err (refused (''connector trigger '' @ ticked name @ '' is not a canonical ABI ID''))
      else
        res_bind (map_err refused (dep_trigger (cc_dependencies context) source (ws_connector subscription) name)) (\<lambda>found.
        res_bind (ok_or (refused (''connector trigger '' @
          ticked (source @ ''.'' @ ws_connector subscription @ ''.'' @ name) @ '' is not executable'')) found) (\<lambda>resolved.
          case rt_spec resolved of
            TWebhook w \<Rightarrow>
              if wt_trigger w = name then Ok (resolved, wt_output w)
              else Err (refused ''connector registry returned a different webhook trigger identity'')
          | TPoll _ \<Rightarrow> Err (refused ''a Process webhook wait cannot consume a poll trigger''))))"

definition check_correlation ::
  "compile_context \<Rightarrow> string \<Rightarrow> value_contract_catalog \<Rightarrow> string \<times> process_value \<Rightarrow> (unit, plan_error) result" where
  "check_correlation context path outputs entry =
     (case entry of (event_field, expected) \<Rightarrow>
        let here = path @ ''.correlate.'' @ event_field in
        res_bind (ok_or (validation here (''normalized event field '' @ ticked event_field @ '' does not exist''))
          (root_type outputs event_field)) (\<lambda>actual.
          if tr_nullable actual \<or> \<not> scalar_like actual
          then Err (validation here ''webhook correlation requires a non-null scalar or enum event field'')
          else validate_value_against context here expected actual))"

definition check_guard_binding ::
  "compile_context \<Rightarrow> string \<Rightarrow> value_contract_catalog \<Rightarrow> process_webhook_guard \<Rightarrow> string \<times> contract_field \<Rightarrow>
   (unit, plan_error) result" where
  "check_guard_binding context path outputs guard entry =
     (case entry of (name, target) \<Rightarrow>
        res_bind (ok_or (validation (path @ ''.guard.with'') (''required guard binding '' @ ticked name @ '' is missing''))
          (bt_get (wg_bindings guard) name)) (\<lambda>binding.
          case binding of
            GEvent event \<Rightarrow>
              let here = path @ ''.guard.with.'' @ name @ ''.event'' in
              res_bind (ok_or (validation here (''normalized event field '' @ ticked event @ '' does not exist''))
                (root_type outputs event)) (\<lambda>source.
                if type_assignable (field_type target) source then Ok ()
                else Err (plan_type_mismatch (cc_debug context) here (field_type target) source))
          | GProcess v \<Rightarrow> validate_value_against context (path @ ''.guard.with.'' @ name) v (field_type target)))"

definition compile_webhook_guard ::
  "compile_context \<Rightarrow> process_dependency_closure \<Rightarrow> string \<Rightarrow> value_contract_catalog \<Rightarrow> process_webhook_guard \<Rightarrow>
   (process_dependency_closure, plan_error) result" where
  "compile_webhook_guard context closure path outputs guard =
     res_bind (ok_or (validation (path @ ''.guard.rule'') (''rule '' @ ticked (wg_rule guard) @ '' does not exist''))
       (dep_rule (cc_dependencies context) (wg_rule guard))) (\<lambda>descriptor.
     if rl_result descriptor \<noteq> TBool
     then Err (validation (path @ ''.guard.rule'') ''webhook guard rule must return non-null bool'')
     else
       let contract = contract_from_rule_types (rl_bindings descriptor) in
       res_bind (collect_res (check_guard_binding context path outputs guard) (roots contract)) (\<lambda>_.
         case filter (\<lambda>name. \<not> bt_contains (roots contract) name) (bt_keys (wg_bindings guard)) of
           [] \<Rightarrow> Ok (pin_rule (rl_name descriptor) descriptor closure)
         | extra # _ \<Rightarrow>
             Err (validation (path @ ''.guard.with.'' @ extra)
               (''guard binding '' @ ticked extra @ '' is not declared by rule '' @ ticked (wg_rule guard)))))"

definition pin_trigger ::
  "string \<Rightarrow> string \<Rightarrow> string \<Rightarrow> resolved_trigger \<Rightarrow> process_dependency_closure \<Rightarrow> process_dependency_closure" where
  "pin_trigger source connector trigger resolved closure =
     closure\<lparr>cl_triggers := bt_insert (source, connector, id_key trigger)
       \<lparr>pg_source = source, pg_instance = connector, pg_spec = rt_spec resolved, pg_fingerprint = rt_fingerprint resolved\<rparr>
       (cl_triggers closure)\<rparr>"

definition compile_webhook_wait ::
  "compile_context \<Rightarrow> process_dependency_closure \<Rightarrow> process_webhook_wait \<Rightarrow>
   (process_dependency_closure \<times> value_contract_catalog \<times> compiled_wait, plan_error) result" where
  "compile_webhook_wait context closure wait =
     (let path = cc_path context @ ''.wait.webhook''; subscription = webhook wait in
      res_bind (resolve_webhook context subscription path) (\<lambda>(resolved, outputs).
      if ws_correlate subscription = []
      then Err (validation (path @ ''.correlate'') ''webhook correlation must contain at least one normalized event field'')
      else
        res_bind (collect_res (check_correlation context path outputs) (ws_correlate subscription)) (\<lambda>_.
        res_bind (case ws_guard subscription of
            None \<Rightarrow> Ok closure
          | Some guard \<Rightarrow> compile_webhook_guard context closure path outputs guard) (\<lambda>closure.
        res_map (\<lambda>deadline.
            (pin_trigger (p_source (cc_process context)) (ws_connector subscription) (ws_trigger subscription) resolved closure,
             outputs,
             KWebhook \<lparr>kw_connector = ws_connector subscription, kw_trigger = ws_trigger subscription,
               kw_correlate = ws_correlate subscription, kw_guard = ws_guard subscription, kw_deadline = deadline,
               kw_next = ww_next wait, kw_on_timeout = ww_on_timeout wait\<rparr>))
          (compile_wait_deadline context (ww_deadline wait) (cc_path context @ ''.wait'') ''webhook'')))))"

definition compile_wait_state ::
  "compile_context \<Rightarrow> process_dependency_closure \<Rightarrow> process_wait_state \<Rightarrow>
   (process_dependency_closure \<times> value_contract_catalog \<times> compiled_wait, plan_error) result" where
  "compile_wait_state context closure wait =
     (case wait of
        WSignal signal \<Rightarrow> compile_signal_wait context closure signal
      | WWebhook hook \<Rightarrow> compile_webhook_wait context closure hook
      | WTimer timed \<Rightarrow> compile_timer_wait context closure timed)"

section \<open>Fan-outs\<close>

definition for_each_item ::
  "compile_context \<Rightarrow> string \<Rightarrow> for_each_common \<Rightarrow> (type_ref, plan_error) result" where
  "for_each_item context path common =
     (if fe_max_items common = 0 \<or> fe_max_items common > 256
      then Err (validation (path @ ''.max_items'') ''for_each max_items must be between 1 and 256'')
      else if fe_max_concurrency common = 0 \<or> fe_max_concurrency common > fe_max_items common
      then Err (validation (path @ ''.max_concurrency'') ''for_each max_concurrency must be between 1 and max_items'')
      else if fe_completion common \<noteq> ''collect''
      then Err (validation (path @ ''.completion'') (''for_each completion must be '' @ ticked ''collect''))
      else
        res_bind (infer_value context (path @ ''.input'') (fe_input common)) (\<lambda>inferred.
        res_bind (ok_or (validation (path @ ''.input'') ''for_each input cannot be null'') (known inferred)) (\<lambda>input_type.
          case value_type input_type of
            VList item_type \<Rightarrow>
              res_bind (ok_or (validation (path @ ''.input'') ''for_each list elements must be objects'')
                (type_object_fields item_type)) (\<lambda>item_fields.
              res_bind (ok_or (validation (path @ ''.item_key'')
                (''item_key '' @ ticked (fe_item_key common) @ '' is not present on the input item''))
                (bt_get item_fields (fe_item_key common))) (\<lambda>item_key_field.
                if tr_nullable (field_type item_key_field) \<or> \<not> scalar_like (field_type item_key_field)
                then Err (validation (path @ ''.item_key'') ''for_each item_key must name a non-null scalar or enum'')
                else Ok item_type))
          | _ \<Rightarrow> Err (validation (path @ ''.input'') ''for_each input must be a bounded list''))))"

definition for_each_output ::
  "string \<Rightarrow> type_ref \<Rightarrow> value_contract_catalog \<Rightarrow> bool \<Rightarrow> (value_contract_catalog, plan_error) result" where
  "for_each_output path item_type activity_result preserve_input =
     (let activity_object = catalog_root_object activity_result in
      res_map (\<lambda>successful.
          \<lparr>roots = bt_collect
             [(''successful_items'', required_field (list_type successful)),
              (''failed_items'', required_field (list_type (failure_item_type item_type))),
              (''ordered_results'', required_field (list_type activity_object))],
           named_objects = []\<rparr>)
        (if preserve_input then merge_object_types item_type activity_object path else Ok activity_object))"

definition for_each_parts :: "process_for_each_state \<Rightarrow> for_each_common" where
  "for_each_parts fan_out = (case fan_out of FCommand common _ \<Rightarrow> common | FRequest common _ \<Rightarrow> common)"

text \<open>The activity is compiled with the item of the fan-out in place of the item around it.\<close>

definition compile_for_each_activity ::
  "compile_context \<Rightarrow> process_dependency_closure \<Rightarrow> string \<Rightarrow> process_for_each_state \<Rightarrow> string \<Rightarrow>
   (process_dependency_closure \<times> value_contract_catalog \<times> nat btree_map \<times> compiled_for_each_activity, plan_error) result" where
  "compile_for_each_activity context closure path fan_out owning =
     (case fan_out of
        FCommand common command \<Rightarrow>
          res_map (\<lambda>(closure, outputs, compiled). (closure, outputs, [], FECommand compiled))
            (compile_command context closure (path @ ''.command'') command)
      | FRequest common request \<Rightarrow>
          res_map (\<lambda>(closure, outputs, horizons, compiled). (closure, outputs, horizons, FERequest compiled))
            (compile_request_activity context closure (path @ ''.request'') request owning (fe_item_key common) (fe_next common)))"

definition compile_for_each_state ::
  "compile_context \<Rightarrow> process_dependency_closure \<Rightarrow> process_for_each_state \<Rightarrow> string \<Rightarrow>
   (process_dependency_closure \<times> value_contract_catalog \<times> nat btree_map \<times> compiled_for_each, plan_error) result" where
  "compile_for_each_state context closure fan_out owning =
     (let path = cc_path context @ ''.for_each''; common = for_each_parts fan_out in
      res_bind (for_each_item context path common) (\<lambda>item_type.
      res_bind (compile_for_each_activity (context\<lparr>cc_item := Some item_type\<rparr>) closure path fan_out owning)
        (\<lambda>(closure, activity_result, horizons, activity).
      res_map (\<lambda>outputs. (closure, outputs, horizons,
          \<lparr>cf_input = fe_input common, cf_item_key = fe_item_key common, cf_max_items = fe_max_items common,
           cf_max_concurrency = fe_max_concurrency common, cf_preserve_input = fe_preserve_input common,
           cf_next = fe_next common, cf_activity = activity\<rparr>))
        (for_each_output path item_type activity_result (fe_preserve_input common)))))"

section \<open>States\<close>

definition compile_output_state ::
  "compile_context \<Rightarrow> process_bindings \<Rightarrow> (value_contract_catalog, plan_error) result" where
  "compile_output_state context values_map =
     res_bind (compile_fields (p_output (cc_process context)) (dep_declared (cc_dependencies context)) (cc_path context @ ''.output'')) (\<lambda>outputs.
     res_map (\<lambda>_. outputs) (validate_binding_map context (cc_path context @ ''.output.values'') values_map outputs))"

definition command_activity_of :: "process_command_state \<Rightarrow> process_command_activity" where
  "command_activity_of command =
     \<lparr>ca_name = pc_name command, ca_run_as = pc_run_as command, ca_arguments = pc_arguments command\<rparr>"

definition compile_operation ::
  "compile_context \<Rightarrow> process_dependency_closure \<Rightarrow> process_state \<Rightarrow>
   (process_dependency_closure \<times> value_contract_catalog \<times> nat btree_map \<times> compiled_operation, plan_error) result" where
  "compile_operation context closure state =
     (case operation state of
        OCommand command \<Rightarrow>
          res_map (\<lambda>(closure, outputs, compiled). (closure, outputs, [], CCommand compiled (pc_next command)))
            (compile_command context closure (cc_path context @ ''.command'') (command_activity_of command))
      | ORequest request \<Rightarrow>
          res_map (\<lambda>(closure, outputs, horizons, compiled). (closure, outputs, horizons, CRequest compiled))
            (compile_request_state context closure (cc_path context @ ''.request'') request (state_id state))
      | OWhen branching \<Rightarrow>
          res_map (\<lambda>(closure, outputs, compiled). (closure, outputs, [], CWhen compiled)) (compile_when_state context closure branching)
      | OWait wait \<Rightarrow>
          res_map (\<lambda>(closure, outputs, compiled). (closure, outputs, [], CWait compiled)) (compile_wait_state context closure wait)
      | OForEach fan_out \<Rightarrow>
          res_map (\<lambda>(closure, outputs, horizons, compiled). (closure, outputs, horizons, CForEach compiled))
            (compile_for_each_state context closure fan_out (state_id state))
      | OOutput values_map \<Rightarrow>
          res_map (\<lambda>outputs. (closure, outputs, [], COutput values_map)) (compile_output_state context values_map)
      | OFail code message \<Rightarrow>
          if is_space_only code \<or> is_space_only message
          then Err (validation (cc_path context @ ''.fail'') ''fail state code and safe message must not be empty'')
          else Ok (closure, empty_contract, [], CFail code message))"

definition compile_state ::
  "compile_context \<Rightarrow> process_dependency_closure \<Rightarrow> process_state \<Rightarrow>
   (process_dependency_closure \<times> compiled_state, plan_error) result" where
  "compile_state context closure state =
     res_map (\<lambda>(closure, outputs, horizons, compiled).
         (closure, \<lparr>ct_id = state_id state, ct_output = outputs, ct_maximum_send_horizons_ms = horizons, ct_operation = compiled\<rparr>))
       (compile_operation context closure state)"

end
