(* ===== verification/Process_Definition.thy ===== *)
theory Process_Definition
  imports Process_Compile
begin

text \<open>
  Compilation of processes (\<open>crates/processes/src/lib.rs\<close>): the identity and the start of a process,
  its signals, the session variables its callers bring, the loop over its states, the catalogs of
  compiled processes and the contracts that commands see of them. \<open>None\<close> stands for a panic.
\<close>

section \<open>Metadata\<close>

datatype source_kind = Postgres | Sqlite | Mysql | Clickhouse

record metadata_source =
  ms_name :: string
  ms_kind :: source_kind

record tenancy_metadata =
  tm_source :: string
  tm_variable :: string

text \<open>Of a declared decision table: its name and the names of its output fields, in their order.\<close>

record metadata_decision_table =
  mt_name :: string
  mt_output_fields :: "string list"

record process_metadata =
  md_sources :: "metadata_source list"
  md_processes :: "process list"
  md_tenancy :: "tenancy_metadata option"
  md_decision_tables :: "metadata_decision_table list"

definition variable_key :: "tenancy_metadata \<Rightarrow> string" where
  "variable_key tenancy = map to_ascii_lowercase (tm_variable tenancy)"

section \<open>Results of code that may panic\<close>

fun checked_bind ::
  "('a, 'e) result option \<Rightarrow> ('a \<Rightarrow> ('b, 'e) result option) \<Rightarrow> ('b, 'e) result option" where
  "checked_bind None f = None"
| "checked_bind (Some (Err e)) f = Some (Err e)"
| "checked_bind (Some (Ok x)) f = f x"

lemma checked_bind_Ok [simp]:
  "checked_bind r f = Some (Ok y) \<longleftrightarrow> (\<exists>x. r = Some (Ok x) \<and> f x = Some (Ok y))"
  by (cases "(r, f)" rule: checked_bind.cases) auto

lemma checked_bind_None [simp]:
  "checked_bind r f = None \<longleftrightarrow> r = None \<or> (\<exists>x. r = Some (Ok x) \<and> f x = None)"
  by (cases "(r, f)" rule: checked_bind.cases) auto

section \<open>Identity\<close>

definition validate_identity :: "process_metadata \<Rightarrow> process \<Rightarrow> string \<Rightarrow> (unit, plan_error) result" where
  "validate_identity metadata p path =
     (if is_space_only (p_name p) then Err (validation (path @ ''.name'') ''process name must not be empty'')
      else if p_version p = 0 then Err (validation (path @ ''.version'') ''process version must be greater than zero'')
      else case filter (\<lambda>source. ms_name source = p_source p) (md_sources metadata) of
          [] \<Rightarrow> Err (validation (path @ ''.source'') (''process source '' @ ticked (p_source p) @ '' does not exist''))
        | source # _ \<Rightarrow>
            if ms_kind source \<noteq> Postgres
            then Err (validation (path @ ''.source'') (''durable process source '' @ ticked (p_source p) @ '' must be postgres''))
            else if states p = [] then Err (validation (path @ ''.states'') ''process must declare at least one state'')
            else Ok ())"

section \<open>Signals\<close>

definition compile_signal ::
  "process_codecs \<Rightarrow> declared_types \<Rightarrow> string \<Rightarrow> process_signal \<Rightarrow> (compiled_signal, plan_error) result" where
  "compile_signal codecs declared path signal =
     (if is_space_only (sg_name signal) then Err (validation (path @ ''.name'') ''signal name must not be empty'')
      else if sg_role signal = Some [] \<or> sg_role signal = Some ''admin''
      then Err (validation (path @ ''.role'') ''signal role must be an explicit non-admin role'')
      else
        res_bind (compile_type_map (sg_correlation signal) declared (path @ ''.correlation'')) (\<lambda>correlation.
        if roots correlation = [] then Err (validation (path @ ''.correlation'') ''signal correlation must not be empty'')
        else
          case filter (\<lambda>(name, f). tr_nullable (field_type f) \<or> \<not> scalar_like (field_type f)) (roots correlation) of
            (name, f) # _ \<Rightarrow>
              Err (validation (path @ ''.correlation.'' @ name) ''signal correlation must use non-null scalar or enum fields'')
          | [] \<Rightarrow>
              res_bind (compile_type_map (sg_payload signal) declared (path @ ''.payload'')) (\<lambda>payload.
              res_map (\<lambda>fingerprint. \<lparr>cs_role = sg_role signal, cs_correlation = correlation, cs_payload = payload,
                  cs_fingerprint = fingerprint\<rparr>)
                (signal_fingerprint codecs signal correlation payload))))"

fun compile_signals_loop ::
  "process_codecs \<Rightarrow> declared_types \<Rightarrow> string \<Rightarrow> nat \<Rightarrow> process_signal list \<Rightarrow> compiled_signal btree_map \<Rightarrow>
   (compiled_signal btree_map, plan_error) result" where
  "compile_signals_loop codecs declared path i [] compiled = Ok compiled"
| "compile_signals_loop codecs declared path i (signal # later) compiled =
     res_bind (compile_signal codecs declared (at_index (path @ ''.signals'') i) signal) (\<lambda>c.
       if bt_contains compiled (sg_name signal)
       then Err (validation (at_index (path @ ''.signals'') i @ ''.name'')
              (''signal '' @ ticked (sg_name signal) @ '' is declared more than once''))
       else compile_signals_loop codecs declared path (Suc i) later (bt_insert (sg_name signal) c compiled))"

definition compile_signals ::
  "process_codecs \<Rightarrow> process \<Rightarrow> declared_types \<Rightarrow> string \<Rightarrow> (compiled_signal btree_map, plan_error) result" where
  "compile_signals codecs p declared path = compile_signals_loop codecs declared path 0 (signals p) []"

section \<open>The start of a process\<close>

definition scalar_root ::
  "value_contract_catalog \<Rightarrow> string \<Rightarrow> string \<Rightarrow> string \<Rightarrow> string \<Rightarrow> (type_ref, plan_error) result" where
  "scalar_root contract name path missing refused =
     res_bind (ok_or (validation path missing) (root_type contract name)) (\<lambda>t.
       if tr_nullable t \<or> \<not> scalar_like t then Err (validation path refused) else Ok t)"

definition start_input_field ::
  "(string \<Rightarrow> string) \<Rightarrow> process_start \<Rightarrow> value_contract_catalog \<Rightarrow> string \<Rightarrow> string \<times> contract_field \<Rightarrow> (unit, plan_error) result" where
  "start_input_field debug start outcome path entry =
     (case entry of (field, target) \<Rightarrow>
        res_bind (ok_or (validation (path @ ''.input'') (''process start input is missing '' @ ticked field))
          (bt_get (ps_input start) field)) (\<lambda>reference.
        let here = path @ ''.input.'' @ field @ ''.command_result'' in
        res_bind (ok_or (validation here (''command '' @ ticked (ps_command start) @ '' has no result field '' @ ticked reference))
          (root_type outcome reference)) (\<lambda>source.
          if type_assignable (field_type target) source then Ok ()
          else Err (plan_type_mismatch debug here (field_type target) source))))"

definition validate_start_input ::
  "(string \<Rightarrow> string) \<Rightarrow> process_start \<Rightarrow> value_contract_catalog \<Rightarrow> value_contract_catalog \<Rightarrow> string \<Rightarrow> (unit, plan_error) result" where
  "validate_start_input debug start inputs outcome path =
     (if length (ps_input start) \<noteq> length (roots inputs)
      then Err (validation (path @ ''.input'') ''process start input must map every process input exactly once'')
      else
        res_bind (collect_res (start_input_field debug start outcome path) (roots inputs)) (\<lambda>_.
          case filter (\<lambda>field. \<not> bt_contains (roots inputs) field) (bt_keys (ps_input start)) of
            [] \<Rightarrow> Ok ()
          | extra # _ \<Rightarrow>
              Err (validation (path @ ''.input.'' @ extra)
                (''process start input contains undeclared field '' @ ticked extra))))"

definition validate_start ::
  "process_codecs \<Rightarrow> process \<Rightarrow> process_dependencies \<Rightarrow> value_contract_catalog \<Rightarrow> process_dependency_closure \<Rightarrow> string \<Rightarrow>
   (process_dependency_closure \<times> type_ref option, plan_error) result" where
  "validate_start codecs p deps inputs closure base =
     (case p_start p of
        None \<Rightarrow> Ok (closure, None)
      | Some start \<Rightarrow>
          let path = base @ ''.start''; at_command = path @ ''.command'' in
          res_bind (resolve_command deps (p_source p) (ps_command start) at_command) (\<lambda>descriptor.
          res_bind (validate_caller_role p descriptor at_command) (\<lambda>_.
          res_bind (normalize_contract (cd_arguments descriptor) (dep_declared deps) at_command) (\<lambda>arguments.
          res_bind (normalize_contract (cd_result descriptor) (dep_declared deps) at_command) (\<lambda>outcome.
          res_bind (validate_start_input (debug_str codecs) start inputs outcome path) (\<lambda>_.
          res_bind (scalar_root arguments (ps_idempotency_key start) (path @ ''.idempotency_key.command_argument'')
            (''command '' @ ticked (ps_command start) @ '' has no argument '' @ ticked (ps_idempotency_key start))
            ''process start idempotency argument must be a non-null scalar or enum'') (\<lambda>_.
          res_map (\<lambda>key.
              (pin_command (p_source p) (ps_command start) (descriptor\<lparr>cd_arguments := arguments, cd_result := outcome\<rparr>) closure,
               Some key))
            (scalar_root outcome (ps_process_key start) (path @ ''.process_key.command_result'')
              (''command '' @ ticked (ps_command start) @ '' has no result field '' @ ticked (ps_process_key start))
              ''process key must be a non-null scalar or enum''))))))))"

section \<open>Session variables\<close>

text \<open>The session variables that values read, in lower case.\<close>

fun value_session_variables :: "process_value \<Rightarrow> string set" where
  "value_session_variables (PSessionVariable name) = {map to_ascii_lowercase name}"
| "value_session_variables (PBoundedConcat inputs maximum_lists maximum_items) = (\<Union>v \<in> set inputs. value_session_variables v)"
| "value_session_variables (PBoundedFlatten from field project maximum_lists maximum_items) = value_session_variables from"
| "value_session_variables _ = {}"

definition value_map_session_variables :: "process_bindings \<Rightarrow> string set" where
  "value_map_session_variables values_map = (\<Union>(name, v) \<in> set values_map. value_session_variables v)"

fun deadline_session_variables :: "process_deadline \<Rightarrow> string set" where
  "deadline_session_variables (DValue v) = value_session_variables v"
| "deadline_session_variables (DDuration _) = {}"

definition guard_session_variables :: "process_webhook_guard option \<Rightarrow> string set" where
  "guard_session_variables guard =
     (case guard of
        None \<Rightarrow> {}
      | Some g \<Rightarrow> (\<Union>(name, binding) \<in> set (wg_bindings g). case binding of GProcess v \<Rightarrow> value_session_variables v | GEvent _ \<Rightarrow> {}))"

definition state_session_variables :: "process_state \<Rightarrow> string set" where
  "state_session_variables state =
     (case operation state of
        OCommand command \<Rightarrow> value_map_session_variables (pc_arguments command)
      | ORequest request \<Rightarrow> value_map_session_variables (rs_input request)
      | OWhen branching \<Rightarrow>
          value_map_session_variables (when_input branching) \<union>
          (\<Union>branch \<in> set (when_cases branching). value_map_session_variables (wc_bindings branch))
      | OWait (WSignal wait) \<Rightarrow>
          value_map_session_variables (sw_correlate wait) \<union> deadline_session_variables (sw_deadline wait)
      | OWait (WWebhook wait) \<Rightarrow>
          value_map_session_variables (ws_correlate (webhook wait)) \<union> guard_session_variables (ws_guard (webhook wait)) \<union>
          deadline_session_variables (ww_deadline wait)
      | OWait (WTimer wait) \<Rightarrow> value_map_session_variables (pt_bindings (timer wait))
      | OForEach (FCommand common command) \<Rightarrow>
          value_session_variables (fe_input common) \<union> value_map_session_variables (ca_arguments command)
      | OForEach (FRequest common request) \<Rightarrow>
          value_session_variables (fe_input common) \<union> value_map_session_variables (ra_input request)
      | OOutput values_map \<Rightarrow> value_map_session_variables values_map
      | OFail _ _ \<Rightarrow> {})"

definition state_command :: "process_state \<Rightarrow> (string \<times> string) option" where
  "state_command state =
     (case operation state of
        OCommand command \<Rightarrow> Some (pc_name command, pc_run_as command)
      | OForEach (FCommand common command) \<Rightarrow> Some (ca_name command, ca_run_as command)
      | _ \<Rightarrow> None)"

definition owner_ambient :: "process \<Rightarrow> string set" where
  "owner_ambient p =
     (case p_owner p of None \<Rightarrow> {} | Some po \<Rightarrow> value_session_variables (po_capture po)) \<union>
     (case idempotency p of
        None \<Rightarrow> {}
      | Some declaration \<Rightarrow>
          (\<Union>v \<in> set (pi_key declaration # pi_scope declaration).
             case v of IdSessionVariable name \<Rightarrow> {map to_ascii_lowercase name} | IdInput _ \<Rightarrow> {}))"

definition extend_role :: "string \<Rightarrow> string set \<Rightarrow> string set btree_map \<Rightarrow> string set btree_map option" where
  "extend_role role names by_role = map_option (\<lambda>old. bt_insert role (old \<union> names) by_role) (bt_get by_role role)"

fun extend_roles ::
  "(process_permission \<Rightarrow> string set) \<Rightarrow> process_permission list \<Rightarrow> string set btree_map \<Rightarrow> string set btree_map option" where
  "extend_roles names [] by_role = Some by_role"
| "extend_roles names (permission # later) by_role =
     Option.bind (extend_role (pp_role permission) (names permission) by_role) (extend_roles names later)"

definition owner_variable :: "process_permission \<Rightarrow> string set" where
  "owner_variable permission =
     (case pp_owner_session_variable permission of None \<Rightarrow> {} | Some name \<Rightarrow> {map to_ascii_lowercase name})"

definition collect_caller_command ::
  "process \<Rightarrow> process_dependency_closure \<Rightarrow> string \<Rightarrow> string \<Rightarrow> string \<Rightarrow> string set btree_map \<Rightarrow>
   (string set btree_map, plan_error) result option" where
  "collect_caller_command p closure command_name run_as path by_role =
     (if run_as \<noteq> ''caller'' then Some (Ok by_role)
      else case bt_get (cl_commands closure) (p_source p, command_name) of
          None \<Rightarrow> Some (Err (validation path
                    (''compiled caller command '' @ ticked command_name @ '' is absent from the dependency closure'')))
        | Some descriptor \<Rightarrow>
            map_option Ok (extend_roles (\<lambda>permission. session_variables_for descriptor (pp_role permission)) (permissions p) by_role))"

fun collect_states ::
  "process \<Rightarrow> process_dependency_closure \<Rightarrow> string \<Rightarrow> nat \<Rightarrow> process_state list \<Rightarrow> string set \<Rightarrow> string set btree_map \<Rightarrow>
   (string set \<times> string set btree_map, plan_error) result option" where
  "collect_states p closure path i [] ambient by_role = Some (Ok (ambient, by_role))"
| "collect_states p closure path i (state # later) ambient by_role =
     checked_bind
       (case state_command state of
          None \<Rightarrow> Some (Ok by_role)
        | Some (command_name, run_as) \<Rightarrow> collect_caller_command p closure command_name run_as (at_index path i) by_role)
       (collect_states p closure path (Suc i) later (ambient \<union> state_session_variables state))"

definition collect_caller_session_variables ::
  "process \<Rightarrow> process_dependency_closure \<Rightarrow> string option \<Rightarrow> string \<Rightarrow> (string set btree_map, plan_error) result option" where
  "collect_caller_session_variables p closure tenant_variable path =
     (let by_role = bt_collect (map (\<lambda>permission. (pp_role permission, {})) (permissions p));
          tenanted = (case tenant_variable of None \<Rightarrow> by_role | Some t \<Rightarrow> map (\<lambda>(role, names). (role, insert t names)) by_role) in
      Option.bind
        (extend_roles owner_variable (permissions p) tenanted)
        (\<lambda>owned. checked_bind (collect_states p closure path 0 (states p) (owner_ambient p) owned) (\<lambda>(ambient, by_role).
           Some (Ok (map (\<lambda>(role, names). (role, names \<union> ambient)) by_role)))))"

section \<open>Processes\<close>

record compiled_process =
  cp_source :: string
  cp_name :: string
  cp_version :: nat
  cp_definition :: process
  cp_input :: value_contract_catalog
  cp_output :: value_contract_catalog
  cp_process_key :: "type_ref option"
  cp_signals :: "compiled_signal btree_map"
  cp_states :: "compiled_state btree_map"
  cp_caller_session_variables :: "string set btree_map"
  cp_tenant_variable :: "string option"
  cp_dependencies :: process_dependency_closure
  cp_definition_fingerprint :: string
  cp_revision_fingerprint :: string

definition state_context ::
  "process_codecs \<Rightarrow> process_dependencies \<Rightarrow> process \<Rightarrow> string \<Rightarrow> value_contract_catalog \<Rightarrow> compiled_signal btree_map \<Rightarrow>
   validated_graph \<Rightarrow> value_contract_catalog btree_map \<Rightarrow> nat \<Rightarrow> compile_context option" where
  "state_context codecs deps p base inputs compiled graph state_types i =
     (if i < length (states p) \<and> i < length (ancestors graph) \<and> i < length (definite_ancestors graph)
         \<and> i < length (available_outputs graph)
      then Some \<lparr>cc_process = p, cc_input = inputs, cc_state_types = state_types, cc_ancestors = ancestors graph ! i,
        cc_definite_ancestors = definite_ancestors graph ! i, cc_available_outputs = available_outputs graph ! i,
        cc_state_indices = state_indices graph, cc_signals = compiled, cc_dependencies = deps,
        cc_path = at_index (base @ ''.states'') i, cc_item = None, cc_debug = debug_str codecs\<rparr>
      else None)"

text \<open>
  The loop over the states in topological order; \<open>context_at\<close> gives the context of a state from the
  outputs compiled before it.
\<close>

fun compile_states ::
  "(value_contract_catalog btree_map \<Rightarrow> nat \<Rightarrow> compile_context option) \<Rightarrow> process \<Rightarrow> nat list \<Rightarrow>
   process_dependency_closure \<Rightarrow> value_contract_catalog btree_map \<Rightarrow> compiled_state btree_map \<Rightarrow>
   (process_dependency_closure \<times> compiled_state btree_map, plan_error) result option" where
  "compile_states context_at p [] closure state_types compiled = Some (Ok (closure, compiled))"
| "compile_states context_at p (i # order) closure state_types compiled =
     Option.bind (context_at state_types i) (\<lambda>context.
     checked_bind (Some (compile_state context closure (states p ! i))) (\<lambda>(closure, c).
       compile_states context_at p order closure (bt_insert (state_id (states p ! i)) (ct_output c) state_types)
         (bt_insert (state_id (states p ! i)) c compiled)))"

definition tenant_variable_of :: "process_metadata \<Rightarrow> process \<Rightarrow> string option" where
  "tenant_variable_of metadata p =
     (case md_tenancy metadata of
        None \<Rightarrow> None
      | Some tenancy \<Rightarrow> if tm_source tenancy = p_source p then Some (variable_key tenancy) else None)"

definition compile_process ::
  "process_codecs \<Rightarrow> process_metadata \<Rightarrow> process_dependencies \<Rightarrow> nat \<Rightarrow> process \<Rightarrow> (compiled_process, plan_error) result option" where
  "compile_process codecs metadata deps process_index p =
     (let base = at_index ''processes'' process_index; declared = dep_declared deps in
      checked_bind (Some (validate_identity metadata p base)) (\<lambda>_.
      checked_bind (Some (compile_fields (p_input p) declared (base @ ''.input''))) (\<lambda>inputs.
      checked_bind (Some (compile_fields (p_output p) declared (base @ ''.output''))) (\<lambda>outputs.
      checked_bind (Some (validate_process_roles p base)) (\<lambda>_.
      checked_bind (Some (validate_owner_and_idempotency (debug_str codecs) p declared inputs base)) (\<lambda>_.
      checked_bind (Some (compile_signals codecs p declared base)) (\<lambda>compiled_signals.
      checked_bind (validate_graph p base) (\<lambda>graph.
      checked_bind (Some (validate_start codecs p deps inputs empty_closure base)) (\<lambda>(closure, process_key).
      checked_bind (compile_states (state_context codecs deps p base inputs compiled_signals graph) p
        (topological_order graph) closure [] []) (\<lambda>(closure, compiled).
      let tenant_variable = tenant_variable_of metadata p in
      checked_bind (collect_caller_session_variables p closure tenant_variable (base @ ''.states'')) (\<lambda>session_variables.
      checked_bind (Some (definition_fingerprint codecs p inputs outputs compiled_signals)) (\<lambda>fingerprint.
      checked_bind (revision_fingerprint codecs fingerprint closure) (\<lambda>revision.
        Some (Ok \<lparr>cp_source = p_source p, cp_name = p_name p, cp_version = p_version p, cp_definition = p,
          cp_input = inputs, cp_output = outputs, cp_process_key = process_key, cp_signals = compiled_signals,
          cp_states = compiled, cp_caller_session_variables = session_variables, cp_tenant_variable = tenant_variable,
          cp_dependencies = closure, cp_definition_fingerprint = fingerprint, cp_revision_fingerprint = revision\<rparr>))))))))))))))"

section \<open>The dependencies of a server\<close>

definition domain_hash :: "process_codecs \<Rightarrow> string \<Rightarrow> string \<Rightarrow> string" where
  "domain_hash codecs domain bytes = hex_hash (digest codecs (domain @ bytes))"

definition server_rule :: "process_codecs \<Rightarrow> rule_catalog \<Rightarrow> string \<Rightarrow> process_rule_descriptor option" where
  "server_rule codecs catalog name =
     map_option (\<lambda>rule.
       let artifact = cr_artifact rule in
       \<lparr>rl_name = cr_name rule, rl_bindings = cr_bindings rule, rl_result = cr_result rule,
        rl_fingerprint = domain_hash codecs (''donat.process.rule-dependency.v1'' @ zero_byte)
          (nat_to_string (ra_profile_version artifact) @ zero_byte @ ra_canonical_ast_sha256 artifact @ zero_byte @
           ra_source_sha256 artifact)\<rparr>)
       (bt_get (cat_rules catalog) name)"

definition server_decision_table ::
  "process_metadata \<Rightarrow> rule_catalog \<Rightarrow> string \<Rightarrow> process_decision_descriptor option" where
  "server_decision_table metadata catalog name =
     Option.bind (bt_get (cat_decision_tables catalog) name) (\<lambda>compiled.
     case filter (\<lambda>declared. mt_name declared = name) (md_decision_tables metadata) of
       [] \<Rightarrow> None
     | declared # _ \<Rightarrow>
         map_option (\<lambda>outputs.
           \<lparr>dd_name = name, dd_inputs = bt_collect (cdt_inputs compiled), dd_output = bt_collect outputs,
            dd_fingerprint = cdt_revision compiled\<rparr>)
           (collect_opt (\<lambda>field. map_option (\<lambda>f. (field, of_type f)) (output_field compiled field)) (mt_output_fields declared)))"

text \<open>
  The connectors of a server, and its compiled commands by source and name, are given; the rest comes
  from its rule catalog.
\<close>

record process_connectors =
  cn_operation :: "string \<Rightarrow> string \<Rightarrow> string \<Rightarrow> (resolved_operation option, string) result"
  cn_trigger :: "string \<Rightarrow> string \<Rightarrow> string \<Rightarrow> (resolved_trigger option, string) result"

definition no_connectors :: process_connectors where
  "no_connectors = \<lparr>cn_operation = \<lambda>_ _ _. Ok None, cn_trigger = \<lambda>_ _ _. Ok None\<rparr>"

definition server_dependencies ::
  "process_codecs \<Rightarrow> process_metadata \<Rightarrow> process_command_descriptor btree_map btree_map \<Rightarrow> rule_catalog \<Rightarrow>
   process_connectors \<Rightarrow> process_dependencies" where
  "server_dependencies codecs metadata commands catalog connectors =
     \<lparr>dep_declared = bt_get (cat_declared_types catalog),
      dep_command = (\<lambda>source name. Option.bind (bt_get commands source) (\<lambda>m. bt_get m name)),
      dep_rule = server_rule codecs catalog,
      dep_decision_table = server_decision_table metadata catalog,
      dep_operation = cn_operation connectors,
      dep_trigger = cn_trigger connectors\<rparr>"

section \<open>Catalogs\<close>

type_synonym process_catalog = "compiled_process btree_map btree_map"

definition declared_twice :: "nat \<Rightarrow> process \<Rightarrow> plan_error" where
  "declared_twice i p =
     validation (at_index ''processes'' i @ ''.name'')
       (''process '' @ ticked (p_name p) @ '' is declared more than once in source '' @ ticked (p_source p))"

fun compile_catalog_loop ::
  "process_codecs \<Rightarrow> process_metadata \<Rightarrow> process_dependencies \<Rightarrow> nat \<Rightarrow> process list \<Rightarrow> process_catalog \<Rightarrow>
   (process_catalog, plan_error) result option" where
  "compile_catalog_loop codecs metadata deps i [] catalog = Some (Ok catalog)"
| "compile_catalog_loop codecs metadata deps i (p # ps) catalog =
     checked_bind (compile_process codecs metadata deps i p) (\<lambda>compiled.
       let source = (case bt_get catalog (p_source p) of None \<Rightarrow> [] | Some m \<Rightarrow> m) in
       if bt_contains source (p_name p) then Some (Err (declared_twice i p))
       else compile_catalog_loop codecs metadata deps (Suc i) ps
         (bt_insert (p_source p) (bt_insert (p_name p) compiled source) catalog))"

definition compile_process_catalog ::
  "process_codecs \<Rightarrow> process_metadata \<Rightarrow> process_dependencies \<Rightarrow> (process_catalog, plan_error) result option" where
  "compile_process_catalog codecs metadata deps = compile_catalog_loop codecs metadata deps 0 (md_processes metadata) []"

fun compile_source_loop ::
  "process_codecs \<Rightarrow> process_metadata \<Rightarrow> process_dependencies \<Rightarrow> string \<Rightarrow> nat \<Rightarrow> process list \<Rightarrow> compiled_process btree_map \<Rightarrow>
   (compiled_process btree_map, plan_error) result option" where
  "compile_source_loop codecs metadata deps source_name i [] compiled = Some (Ok compiled)"
| "compile_source_loop codecs metadata deps source_name i (p # ps) compiled =
     (if p_source p \<noteq> source_name then compile_source_loop codecs metadata deps source_name (Suc i) ps compiled
      else checked_bind (compile_process codecs metadata deps i p) (\<lambda>c.
        if bt_contains compiled (p_name p) then Some (Err (declared_twice i p))
        else compile_source_loop codecs metadata deps source_name (Suc i) ps (bt_insert (p_name p) c compiled)))"

definition compile_process_source_catalog ::
  "process_codecs \<Rightarrow> process_metadata \<Rightarrow> string \<Rightarrow> process_command_descriptor btree_map \<Rightarrow> rule_catalog \<Rightarrow>
   process_connectors \<Rightarrow> (compiled_process btree_map, plan_error) result option" where
  "compile_process_source_catalog codecs metadata source_name commands rules connectors =
     (case filter (\<lambda>source. ms_name source = source_name) (md_sources metadata) of
        [] \<Rightarrow> Some (Err (validation ''processes'' (''process source '' @ ticked source_name @ '' does not exist'')))
      | source # _ \<Rightarrow>
          if ms_kind source \<noteq> Postgres
          then Some (Err (validation ''processes'' (''process source '' @ ticked source_name @ '' requires a Postgres source'')))
          else compile_source_loop codecs metadata
            (server_dependencies codecs metadata [(source_name, commands)] rules connectors) source_name 0 (md_processes metadata) [])"

section \<open>Effect contracts\<close>

datatype process_start_policy = StartEnabled | RejectRetired

record process_signal_effect_contract =
  se_signal_name :: string
  se_contract_revision :: string
  se_correlation :: value_contract_catalog
  se_payload :: value_contract_catalog
  se_compatible_revisions :: "string set"

record process_effect_contract =
  ec_process_name :: string
  ec_current_revision :: string
  ec_start_policy :: process_start_policy
  ec_start_input :: value_contract_catalog
  ec_process_key :: "type_ref option"
  ec_caller_session_variables :: "string set btree_map"
  ec_signals :: "process_signal_effect_contract btree_map"

definition signal_effect_contract :: "compiled_process \<Rightarrow> string \<Rightarrow> compiled_signal \<Rightarrow> process_signal_effect_contract" where
  "signal_effect_contract c name signal =
     \<lparr>se_signal_name = name, se_contract_revision = cp_revision_fingerprint c, se_correlation = cs_correlation signal,
      se_payload = cs_payload signal, se_compatible_revisions = {cp_revision_fingerprint c}\<rparr>"

definition process_effect_contract_of :: "string \<Rightarrow> compiled_process \<Rightarrow> process_effect_contract" where
  "process_effect_contract_of name c =
     \<lparr>ec_process_name = name, ec_current_revision = cp_revision_fingerprint c,
      ec_start_policy = (case p_lifecycle (cp_definition c) of Active \<Rightarrow> StartEnabled | Retired \<Rightarrow> RejectRetired),
      ec_start_input = cp_input c, ec_process_key = cp_process_key c,
      ec_caller_session_variables = cp_caller_session_variables c,
      ec_signals = map (\<lambda>(signal_name, signal). (signal_name, signal_effect_contract c signal_name signal)) (cp_signals c)\<rparr>"

fun effect_contracts_loop ::
  "string \<Rightarrow> (string \<times> compiled_process) list \<Rightarrow> process_effect_contract btree_map \<Rightarrow>
   (process_effect_contract btree_map, plan_error) result" where
  "effect_contracts_loop source_name [] contracts = Ok contracts"
| "effect_contracts_loop source_name ((name, c) # cs) contracts =
     (if bt_contains contracts name
      then Err (validation ''processes'' (''process effect contract '' @ ticked (source_name @ ''.'' @ name) @ '' is duplicated''))
      else effect_contracts_loop source_name cs (bt_insert name (process_effect_contract_of name c) contracts))"

definition build_process_effect_contract_catalog ::
  "process_catalog \<Rightarrow> (process_effect_contract btree_map btree_map, plan_error) result" where
  "build_process_effect_contract_catalog catalog =
     res_map bt_collect (collect_res (\<lambda>(source_name, m). res_map (Pair source_name) (effect_contracts_loop source_name m [])) catalog)"

end
