(* ===== verification/Process_Guarantees.thy ===== *)
theory Process_Guarantees
  imports Process_Definition
begin

text \<open>
  What a compiled process guarantees: the values it reads are there on every way to the state that
  reads them, its states are closed under their transitions, and its commands run under roles that
  may execute them.
\<close>

section \<open>The values of a state\<close>

text \<open>The values that a state reads, as the code looks them up in its maps.\<close>

definition deadline_values :: "process_deadline \<Rightarrow> process_value set" where
  "deadline_values deadline = (case deadline of DValue v \<Rightarrow> {v} | DDuration _ \<Rightarrow> {})"

definition guard_values :: "process_webhook_guard option \<Rightarrow> process_value set" where
  "guard_values guard = (case guard of None \<Rightarrow> {} | Some g \<Rightarrow> {v. GProcess v \<in> ran (map_of (wg_bindings g))})"

definition state_values :: "process_state \<Rightarrow> process_value set" where
  "state_values state =
     (case operation state of
        OCommand command \<Rightarrow> ran (map_of (pc_arguments command))
      | ORequest request \<Rightarrow> ran (map_of (rs_input request))
      | OWhen branching \<Rightarrow>
          ran (map_of (when_input branching)) \<union> (\<Union>branch \<in> set (when_cases branching). ran (map_of (wc_bindings branch)))
      | OWait (WSignal wait) \<Rightarrow> ran (map_of (sw_correlate wait)) \<union> deadline_values (sw_deadline wait)
      | OWait (WWebhook wait) \<Rightarrow>
          ran (map_of (ws_correlate (webhook wait))) \<union> guard_values (ws_guard (webhook wait)) \<union> deadline_values (ww_deadline wait)
      | OWait (WTimer wait) \<Rightarrow> ran (map_of (pt_bindings (timer wait)))
      | OForEach (FCommand common command) \<Rightarrow> insert (fe_input common) (ran (map_of (ca_arguments command)))
      | OForEach (FRequest common request) \<Rightarrow> insert (fe_input common) (ran (map_of (ra_input request)))
      | OOutput values_map \<Rightarrow> ran (map_of values_map)
      | OFail _ _ \<Rightarrow> {})"

definition value_known :: "compile_context \<Rightarrow> process_value \<Rightarrow> bool" where
  "value_known cx v \<longleftrightarrow> outputs_known cx (output_references v) \<and> keys_known cx (key_references v)"

definition values_known :: "compile_context \<Rightarrow> process_value set \<Rightarrow> bool" where
  "values_known cx vs \<longleftrightarrow> (\<forall>v \<in> vs. value_known cx v)"

lemma values_known_simps [simp]:
  "values_known cx {}"
  "values_known cx (insert v vs) \<longleftrightarrow> value_known cx v \<and> values_known cx vs"
  "values_known cx (vs \<union> ws) \<longleftrightarrow> values_known cx vs \<and> values_known cx ws"
  by (auto simp: values_known_def)

lemma value_known_item [simp]: "value_known (cx\<lparr>cc_item := item\<rparr>) = value_known cx"
  by (auto simp: value_known_def outputs_known_def keys_known_def fun_eq_iff)

lemma values_known_item [simp]: "values_known (cx\<lparr>cc_item := item\<rparr>) = values_known cx"
  by (auto simp: values_known_def fun_eq_iff)

lemma infer_value_known: "infer_value cx path v = Ok r \<Longrightarrow> value_known cx v"
  using references_known by (simp add: value_known_def)

lemma value_against_known: "validate_value_against cx path v target = Ok u \<Longrightarrow> value_known cx v"
  by (cases v) (auto simp: validate_value_against_def value_known_def[of _ "PLiteral _"] simp del: infer_value.simps intro: infer_value_known)

lemma collect_res_each: "collect_res f xs = Ok ys \<Longrightarrow> x \<in> set xs \<Longrightarrow> \<exists>y. f x = Ok y"
  by (auto simp: collect_res_Ok list_all2_conv_all_nth in_set_conv_nth)

lemma filter_case_Nil: "(case filter P xs of [] \<Rightarrow> Ok a | x # _ \<Rightarrow> Err (e x)) = Ok b \<longleftrightarrow> a = b \<and> (\<forall>x \<in> set xs. \<not> P x)"
  by (auto simp: filter_empty_conv split: list.splits) (auto dest: filter_eq_ConsD)

lemma binding_map_known:
  assumes "validate_binding_map cx path values_map target = Ok u"
  shows "values_known cx (ran (map_of values_map))"
  unfolding values_known_def
proof
  fix v assume "v \<in> ran (map_of values_map)"
  then obtain name where v: "map_of values_map name = Some v" by (auto simp: ran_def)
  have checked: "\<exists>y. validate_value_against cx (path @ ''.'' @ name) v (field_type f) = Ok y" if "(name, f) \<in> set (roots target)" for f
    using assms that v by (auto simp: validate_binding_map_def dest!: collect_res_each)
  have declared: "\<forall>name \<in> fst ` set values_map. bt_contains (roots target) name"
    using assms by (auto simp: validate_binding_map_def filter_case_Nil)
  have "name \<in> fst ` set values_map" using map_of_SomeD[OF v] by force
  then obtain f where "map_of (roots target) name = Some f" using declared by (auto simp: bt_contains_def)
  from checked[OF map_of_SomeD[OF this]] show "value_known cx v" by (auto dest: value_against_known)
qed

lemma command_known:
  "compile_command cx closure path activity = Ok r \<Longrightarrow> values_known cx (ran (map_of (ca_arguments activity)))"
  by (auto simp: compile_command_def compile_command_activity_def Let_def dest: binding_map_known)

lemma request_known:
  "compile_request cx closure path activity owning item_key = Ok r \<Longrightarrow> values_known cx (ran (map_of (ra_input activity)))"
  by (auto simp: compile_request_def Let_def dest: binding_map_known)

lemma deadline_known: "compile_wait_deadline cx deadline path kind = Ok r \<Longrightarrow> values_known cx (deadline_values deadline)"
  by (cases deadline) (auto simp: compile_wait_deadline_def deadline_values_def dest: infer_value_known)

lemma timer_known:
  "compile_timer_wait cx closure wait = Ok r \<Longrightarrow> values_known cx (ran (map_of (pt_bindings (timer wait))))"
  by (auto simp: compile_timer_wait_def Let_def dest: binding_map_known)

lemma signal_known:
  "compile_signal_wait cx closure wait = Ok r \<Longrightarrow>
   values_known cx (ran (map_of (sw_correlate wait)) \<union> deadline_values (sw_deadline wait))"
  by (auto simp: compile_signal_wait_def Let_def dest: binding_map_known deadline_known split: option.splits if_splits)

lemma guard_known:
  assumes "compile_webhook_guard cx closure path outputs guard = Ok r"
  shows "values_known cx (guard_values (Some guard))"
  unfolding values_known_def
proof
  fix v assume "v \<in> guard_values (Some guard)"
  then obtain name where v: "map_of (wg_bindings guard) name = Some (GProcess v)" by (auto simp: guard_values_def ran_def)
  obtain descriptor :: process_rule_descriptor and ys where d: "\<forall>name \<in> fst ` set (wg_bindings guard). bt_contains (roots (contract_from_rule_types (rl_bindings descriptor))) name"
    "collect_res (check_guard_binding cx path outputs guard) (roots (contract_from_rule_types (rl_bindings descriptor))) = Ok ys"
    using assms by (auto simp: compile_webhook_guard_def Let_def filter_case_Nil split: if_splits)
  have "name \<in> fst ` set (wg_bindings guard)" using map_of_SomeD[OF v] by force
  then obtain f where "map_of (roots (contract_from_rule_types (rl_bindings descriptor))) name = Some f"
    using d(1) by (auto simp: bt_contains_def)
  from collect_res_each[OF d(2) map_of_SomeD[OF this]] v show "value_known cx v"
    by (auto simp: check_guard_binding_def dest: value_against_known)
qed

lemma correlation_known:
  assumes "collect_res (check_correlation cx path outputs) bindings = Ok r"
  shows "values_known cx (ran (map_of bindings))"
  unfolding values_known_def
proof
  fix v assume "v \<in> ran (map_of bindings)"
  then obtain name where "(name, v) \<in> set bindings" by (auto simp: ran_def dest: map_of_SomeD)
  from collect_res_each[OF assms this] show "value_known cx v"
    by (auto simp: check_correlation_def Let_def split: if_splits dest: value_against_known)
qed

lemma webhook_known:
  assumes "compile_webhook_wait cx closure wait = Ok r"
  shows "values_known cx (ran (map_of (ws_correlate (webhook wait))) \<union> guard_values (ws_guard (webhook wait)) \<union> deadline_values (ww_deadline wait))"
proof -
  have "values_known cx (guard_values (ws_guard (webhook wait)))"
  proof (cases "ws_guard (webhook wait)")
    case (Some guard)
    then show ?thesis using assms guard_known by (auto simp: compile_webhook_wait_def Let_def split: if_splits)
  qed (simp add: guard_values_def)
  then show ?thesis using assms
    by (auto simp: compile_webhook_wait_def Let_def split: if_splits dest: correlation_known deadline_known)
qed

lemma case_known: "compile_case cx path branch st = Ok st' \<Longrightarrow> values_known cx (ran (map_of (wc_bindings branch)))"
  by (auto simp: compile_case_def compile_literal_case_def compile_rule_case_def split: option.splits if_splits dest: binding_map_known)

lemma cases_known:
  "compile_cases cx path i branches st = Ok r \<Longrightarrow> values_known cx (\<Union>branch \<in> set branches. ran (map_of (wc_bindings branch)))"
  by (induction branches arbitrary: i st) (auto dest: case_known)

lemma enumerate_member: "x \<in> set xs \<Longrightarrow> \<exists>i. (i, x) \<in> set (enumerate n xs)"
proof -
  assume "x \<in> set xs"
  then have "x \<in> snd ` set (enumerate n xs)" by (simp flip: list.set_map)
  then show ?thesis by auto
qed

lemma when_known:
  assumes "compile_when_state cx closure branching = Ok r"
  shows "values_known cx (ran (map_of (when_input branching)) \<union> (\<Union>branch \<in> set (when_cases branching). ran (map_of (wc_bindings branch))))"
proof (cases "decision_table branching")
  case None
  then show ?thesis using assms by (auto simp: compile_when_state_def Let_def split: if_splits dest: cases_known)
next
  case (Some table_name)
  obtain outputs path bs where input: "values_known cx (ran (map_of (when_input branching)))"
    and branches: "collect_res (\<lambda>(i, branch). compile_decision_case (cc_debug cx) outputs path i branch) (enumerate 0 (when_cases branching)) = Ok bs"
    using assms Some by (auto simp: compile_when_state_def Let_def split: if_splits dest: binding_map_known)
  have "wc_bindings branch = []" if "branch \<in> set (when_cases branching)" for branch
  proof -
    from enumerate_member[OF that] obtain i where "(i, branch) \<in> set (enumerate 0 (when_cases branching))" by blast
    from collect_res_each[OF branches this] show ?thesis
      by (auto simp: compile_decision_case_def split: option.splits if_splits)
  qed
  then show ?thesis using input by (auto simp: values_known_def)
qed

lemma for_each_item_known: "for_each_item cx path common = Ok t \<Longrightarrow> value_known cx (fe_input common)"
  by (auto simp: for_each_item_def split: if_splits dest: infer_value_known)

lemma for_each_known:
  assumes "compile_for_each_state cx closure fan_out owning = Ok r"
  shows "values_known cx (case fan_out of
      FCommand common command \<Rightarrow> insert (fe_input common) (ran (map_of (ca_arguments command)))
    | FRequest common request \<Rightarrow> insert (fe_input common) (ran (map_of (ra_input request))))"
  using assms
  by (cases fan_out) (auto simp: compile_for_each_state_def compile_for_each_activity_def compile_request_activity_def
      for_each_parts_def Let_def dest!: for_each_item_known command_known request_known)

text \<open>Whatever state compiles, the values it reads are known in its context.\<close>

lemma compile_state_known:
  assumes "compile_state cx closure state = Ok r"
  shows "values_known cx (state_values state)"
proof -
  obtain r where compiled: "compile_operation cx closure state = Ok r" using assms by (auto simp: compile_state_def)
  show ?thesis
  proof (cases "operation state")
    case (OCommand command)
    then show ?thesis using compiled by (auto simp: compile_operation_def state_values_def command_activity_of_def dest!: command_known)
  next
    case (ORequest request)
    then show ?thesis using compiled
      by (auto simp: compile_operation_def state_values_def compile_request_state_def request_activity_of_def dest!: request_known)
  next
    case (OWhen branching)
    then show ?thesis using compiled when_known by (fastforce simp: compile_operation_def state_values_def)
  next
    case (OWait wait)
    then show ?thesis using compiled
      by (cases wait) (auto simp: compile_operation_def state_values_def compile_wait_state_def dest!: signal_known webhook_known timer_known)
  next
    case (OForEach fan_out)
    then show ?thesis using compiled for_each_known
      by (cases fan_out) (fastforce simp: compile_operation_def state_values_def)+
  next
    case (OOutput values_map)
    then show ?thesis using compiled by (auto simp: compile_operation_def state_values_def compile_output_state_def dest!: binding_map_known)
  qed (simp add: state_values_def)
qed

section \<open>Commands and roles\<close>

definition run_as_permitted :: "process \<Rightarrow> process_command_descriptor \<Rightarrow> string \<Rightarrow> bool" where
  "run_as_permitted p d run_as \<longleftrightarrow>
     (if run_as = ''caller'' then (\<forall>permission \<in> set (permissions p). pp_role permission \<in> allowed_roles d)
      else run_as \<noteq> [] \<and> run_as \<noteq> ''admin'' \<and> run_as \<in> allowed_roles d \<and> session_variables_for d run_as = {})"

definition pinned_from :: "process_dependencies \<Rightarrow> string \<times> string \<Rightarrow> process_command_descriptor \<Rightarrow> bool" where
  "pinned_from deps key d' \<longleftrightarrow>
     (\<exists>d arguments outcome. dep_command deps (fst key) (snd key) = Some d \<and> d' = d\<lparr>cd_arguments := arguments, cd_result := outcome\<rparr>)"

lemma pinned_fromI [intro]:
  "dep_command deps source name = Some d \<Longrightarrow> pinned_from deps (source, name) (d\<lparr>cd_arguments := a, cd_result := b\<rparr>)"
  by (auto simp: pinned_from_def)

lemma permitted_update [simp]:
  "run_as_permitted p (d\<lparr>cd_arguments := a, cd_result := b\<rparr>) run_as = run_as_permitted p d run_as"
  by (simp add: run_as_permitted_def session_variables_for_def)

lemma validate_caller_role_Ok:
  "validate_caller_role p d path = Ok u \<longleftrightarrow> (\<forall>permission \<in> set (permissions p). pp_role permission \<in> allowed_roles d)"
  by (auto simp: validate_caller_role_def filter_case_Nil)

lemma validate_run_as_Ok: "validate_run_as p d run_as path = Ok u \<longleftrightarrow> run_as_permitted p d run_as"
  by (auto simp: validate_run_as_def run_as_permitted_def validate_caller_role_Ok session_variables_for_def split: option.splits)

lemma resolve_command_Ok: "resolve_command deps source name path = Ok d \<Longrightarrow> dep_command deps source name = Some d"
  by (auto simp: resolve_command_def split: if_splits)

lemma command_pinned:
  assumes "compile_command cx closure path activity = Ok (closure', outputs, c)"
  shows "\<exists>d. cl_commands closure' = bt_insert (p_source (cc_process cx), ca_name activity) d (cl_commands closure) \<and>
    pinned_from (cc_dependencies cx) (p_source (cc_process cx), ca_name activity) d \<and>
    run_as_permitted (cc_process cx) d (ca_run_as activity)"
proof -
  let ?key = "(p_source (cc_process cx), ca_name activity)"
  obtain d a b where "dep_command (cc_dependencies cx) (fst ?key) (snd ?key) = Some d"
    "run_as_permitted (cc_process cx) d (ca_run_as activity)"
    "cl_commands closure' = bt_insert ?key (d\<lparr>cd_arguments := a, cd_result := b\<rparr>) (cl_commands closure)"
    using assms
    by (auto simp: compile_command_def compile_command_activity_def pin_command_def Let_def
        validate_run_as_Ok dest!: resolve_command_Ok)
  then show ?thesis
    by (intro exI[of _ "d\<lparr>cd_arguments := a, cd_result := b\<rparr>"]) auto
qed

text \<open>Compiling anything but a command leaves the pinned commands as they are.\<close>

lemma pins_keep_commands [simp]:
  "cl_commands (pin_rule n r closure) = cl_commands closure"
  "cl_commands (pin_decision n d closure) = cl_commands closure"
  "cl_commands (pin_trigger source connector trigger t closure) = cl_commands closure"
  by (simp_all add: pin_rule_def pin_decision_def pin_trigger_def)

lemma pin_operation_commands:
  "pin_operation source connector resolved path closure = Ok closure' \<Longrightarrow> cl_commands closure' = cl_commands closure"
  by (auto simp: pin_operation_def Let_def split: option.splits if_splits)

lemma request_commands:
  "compile_request cx closure path activity owning item_key = Ok (closure', r) \<Longrightarrow> cl_commands closure' = cl_commands closure"
  by (auto simp: compile_request_def Let_def dest!: pin_operation_commands)

lemma case_commands: "compile_case cx path branch st = Ok st' \<Longrightarrow> cl_commands (wl_closure st') = cl_commands (wl_closure st)"
  by (auto simp: compile_case_def compile_literal_case_def compile_rule_case_def split: option.splits if_splits)

lemma cases_commands:
  "compile_cases cx path i branches st = Ok st' \<Longrightarrow> cl_commands (wl_closure st') = cl_commands (wl_closure st)"
  by (induction branches arbitrary: i st) (auto dest!: case_commands)

lemma when_commands: "compile_when_state cx closure branching = Ok (closure', r) \<Longrightarrow> cl_commands closure' = cl_commands closure"
  by (auto simp: compile_when_state_def Let_def split: option.splits if_splits dest!: cases_commands)

lemma guard_commands:
  "compile_webhook_guard cx closure path outputs guard = Ok closure' \<Longrightarrow> cl_commands closure' = cl_commands closure"
  by (auto simp: compile_webhook_guard_def Let_def filter_case_Nil split: if_splits)

lemma wait_commands: "compile_wait_state cx closure wait = Ok (closure', r) \<Longrightarrow> cl_commands closure' = cl_commands closure"
  by (auto simp: compile_wait_state_def compile_signal_wait_def compile_webhook_wait_def compile_timer_wait_def Let_def
      split: process_wait_state.splits option.splits if_splits dest!: guard_commands)

lemma for_each_pinned:
  assumes "compile_for_each_state cx closure fan_out owning = Ok (closure', r)"
  shows "case fan_out of
      FCommand common activity \<Rightarrow>
        \<exists>d. cl_commands closure' = bt_insert (p_source (cc_process cx), ca_name activity) d (cl_commands closure) \<and>
          pinned_from (cc_dependencies cx) (p_source (cc_process cx), ca_name activity) d \<and>
          run_as_permitted (cc_process cx) d (ca_run_as activity)
    | FRequest common activity \<Rightarrow> cl_commands closure' = cl_commands closure"
  using assms
  by (cases fan_out) (auto simp: compile_for_each_state_def compile_for_each_activity_def compile_request_activity_def Let_def
      dest!: request_commands command_pinned)

lemma state_pinned:
  assumes "compile_state cx closure state = Ok (closure', c)"
  shows "case state_command state of
      None \<Rightarrow> cl_commands closure' = cl_commands closure
    | Some (name, run_as) \<Rightarrow>
        \<exists>d. cl_commands closure' = bt_insert (p_source (cc_process cx), name) d (cl_commands closure) \<and>
          pinned_from (cc_dependencies cx) (p_source (cc_process cx), name) d \<and> run_as_permitted (cc_process cx) d run_as"
proof -
  obtain r where compiled: "compile_operation cx closure state = Ok (closure', r)"
    using assms by (auto simp: compile_state_def)
  show ?thesis
  proof (cases "operation state")
    case (OCommand command)
    then show ?thesis using compiled
      by (auto simp: compile_operation_def state_command_def command_activity_of_def dest!: command_pinned)
  next
    case (ORequest request)
    then show ?thesis using compiled
      by (auto simp: compile_operation_def state_command_def compile_request_state_def dest!: request_commands)
  next
    case (OForEach fan_out)
    then show ?thesis using compiled
      by (cases fan_out) (auto simp: compile_operation_def state_command_def dest!: for_each_pinned)
  qed (use compiled in \<open>auto simp: compile_operation_def state_command_def compile_output_state_def split: if_splits
      dest!: when_commands wait_commands\<close>)
qed

section \<open>The loop over the states\<close>

lemma compile_states_step:
  assumes "compile_states context_at p (i # order) closure types compiled = Some (Ok out)"
  obtains cx closure' c where "context_at types i = Some cx" "compile_state cx closure (states p ! i) = Ok (closure', c)"
    "compile_states context_at p order closure' (bt_insert (state_name p i) (ct_output c) types)
       (bt_insert (state_name p i) c compiled) = Some (Ok out)"
  using assms by (auto simp: bind_eq_Some_conv)

lemma compile_states_keep:
  "compile_states context_at p order closure types compiled = Some (Ok (closure', compiled')) \<Longrightarrow>
   n \<notin> state_name p ` set order \<Longrightarrow> bt_get compiled' n = bt_get compiled n"
proof (induction order arbitrary: closure types compiled)
  case (Cons i order)
  from Cons.prems(1) show ?case
    by (rule compile_states_step) (use Cons.IH Cons.prems(2) in \<open>auto simp: bt_get_insert\<close>)
qed simp

text \<open>Every state of the order is compiled in a context of its own, and its result is kept under its identifier.\<close>

lemma compile_states_each:
  assumes "compile_states context_at p order closure types compiled = Some (Ok (closure', compiled'))"
    "distinct order" "inj_on (state_name p) (set order)" "i \<in> set order"
  shows "\<exists>types cx cl cl' c. context_at types i = Some cx \<and> compile_state cx cl (states p ! i) = Ok (cl', c) \<and>
    bt_get compiled' (state_name p i) = Some c"
  using assms
proof (induction order arbitrary: closure types compiled)
  case (Cons j order)
  from Cons.prems(1) obtain cx closure1 c where step: "context_at types j = Some cx"
    "compile_state cx closure (states p ! j) = Ok (closure1, c)"
    "compile_states context_at p order closure1 (bt_insert (state_name p j) (ct_output c) types)
       (bt_insert (state_name p j) c compiled) = Some (Ok (closure', compiled'))"
    by (rule compile_states_step)
  show ?case
  proof (cases "i = j")
    case True
    have "state_name p j \<notin> state_name p ` set order" using Cons.prems(2,3) by (auto simp: inj_on_def)
    from compile_states_keep[OF step(3) this] step(1,2) True show ?thesis by (auto simp: bt_get_insert)
  next
    case False
    then show ?thesis using Cons.IH[OF step(3)] Cons.prems(2-4) by (auto simp: inj_on_def)
  qed
qed simp

definition commands_pinned :: "process_dependencies \<Rightarrow> process_dependency_closure \<Rightarrow> bool" where
  "commands_pinned deps closure \<longleftrightarrow> (\<forall>k d. bt_get (cl_commands closure) k = Some d \<longrightarrow> pinned_from deps k d)"

lemma pinned_same:
  assumes "pinned_from deps k d" "pinned_from deps k d'"
  shows "run_as_permitted p d run_as = run_as_permitted p d' run_as" "session_variables_for d = session_variables_for d'"
  using assms by (auto simp: pinned_from_def session_variables_for_def)

lemma compile_states_commands:
  assumes "compile_states context_at p order closure types compiled = Some (Ok (closure', compiled'))"
    "commands_pinned deps closure"
    "\<And>types i cx. context_at types i = Some cx \<Longrightarrow> cc_process cx = p \<and> cc_dependencies cx = deps"
  shows "commands_pinned deps closure' \<and> dom (bt_get (cl_commands closure)) \<subseteq> dom (bt_get (cl_commands closure')) \<and>
    (\<forall>i \<in> set order. \<forall>name run_as. state_command (states p ! i) = Some (name, run_as) \<longrightarrow>
      (\<exists>d. bt_get (cl_commands closure') (p_source p, name) = Some d \<and> run_as_permitted p d run_as))"
  using assms(1,2)
proof (induction order arbitrary: closure types compiled)
  case (Cons j order)
  from Cons.prems(1) obtain cx closure1 c where step: "context_at types j = Some cx"
    "compile_state cx closure (states p ! j) = Ok (closure1, c)"
    "compile_states context_at p order closure1 (bt_insert (state_name p j) (ct_output c) types)
       (bt_insert (state_name p j) c compiled) = Some (Ok (closure', compiled'))"
    by (rule compile_states_step)
  have cx: "cc_process cx = p" "cc_dependencies cx = deps" using assms(3)[OF step(1)] by auto
  note pinned = state_pinned[OF step(2), unfolded cx]
  have ok: "commands_pinned deps closure1" "dom (bt_get (cl_commands closure)) \<subseteq> dom (bt_get (cl_commands closure1))"
    using pinned Cons.prems(2) by (auto simp: commands_pinned_def bt_get_insert split: option.splits if_splits)
  note ih = Cons.IH[OF step(3) ok(1)]
  have here: "\<exists>d. bt_get (cl_commands closure') (p_source p, name) = Some d \<and> run_as_permitted p d run_as"
    if command: "state_command (states p ! j) = Some (name, run_as)" for name run_as
  proof -
    obtain d where d: "bt_get (cl_commands closure1) (p_source p, name) = Some d" "pinned_from deps (p_source p, name) d"
      "run_as_permitted p d run_as"
      using pinned command by (auto simp: bt_get_insert)
    then obtain d' where d': "bt_get (cl_commands closure') (p_source p, name) = Some d'" using ih by blast
    then have "pinned_from deps (p_source p, name) d'" using ih by (simp add: commands_pinned_def)
    from pinned_same(1)[OF d(2) this] d(3) d' show ?thesis by auto
  qed
  have "dom (bt_get (cl_commands closure)) \<subseteq> dom (bt_get (cl_commands closure'))" using ok(2) ih by (meson subset_trans)
  then show ?case using ih here by simp
qed simp

section \<open>A compiled process\<close>

lemma compile_process_parts:
  assumes "compile_process codecs metadata deps k p = Some (Ok c)"
  obtains base graph closure key inputs sigs where "base = at_index ''processes'' k"
    "validate_graph p base = Some (Ok graph)"
    "validate_process_roles p base = Ok ()"
    "validate_start codecs p deps inputs empty_closure base = Ok (closure, key)"
    "compile_states (state_context codecs deps p base inputs sigs graph) p (topological_order graph) closure [] [] =
       Some (Ok (cp_dependencies c, cp_states c))"
    "collect_caller_session_variables p (cp_dependencies c) (tenant_variable_of metadata p) (base @ ''.states'') =
       Some (Ok (cp_caller_session_variables c))"
  using assms by (auto simp: compile_process_def Let_def)

lemma validated_indices:
  assumes "validate_graph p path = Some (Ok g)"
  shows "bt_get (state_indices g) x = Some k \<longleftrightarrow> k < length (states p) \<and> state_name p k = x"
proof -
  obtain m start es where built: "index_states path 0 (states p) [] = Ok m" "bt_get m (start_at p) = Some start"
    "graph_edges path 0 m (states p) = Ok es"
    using rejected_unsound[of path p] assms by fastforce
  have "state_indices g = m" using validate_indexed[OF built] assms by (auto split: if_splits)
  then show ?thesis using index_states_Ok[OF built(1)] by auto
qed

lemma validate_graph_total: "validate_graph p path \<noteq> None"
proof (cases "\<exists>m start es. index_states path 0 (states p) [] = Ok m \<and> bt_get m (start_at p) = Some start \<and>
    graph_edges path 0 m (states p) = Ok es")
  case True
  then obtain m start es where built: "index_states path 0 (states p) [] = Ok m" "bt_get m (start_at p) = Some start"
    "graph_edges path 0 m (states p) = Ok es" by blast
  from validate_indexed[OF this] show ?thesis by (auto split: if_splits)
next
  case False
  then have "\<exists>e. validate_graph p path = Some (Err e)" using rejected_unsound[of path p] by blast
  then show ?thesis by auto
qed

text \<open>The order of a validated graph, and the context in which it has each state compiled.\<close>

lemma validated_order:
  assumes "validate_graph p path = Some (Ok g)"
  shows "distinct (topological_order g)" "set (topological_order g) = {..<length (states p)}"
    "inj_on (state_name p) (set (topological_order g))" "length (ancestors g) = length (states p)"
    "length (definite_ancestors g) = length (states p)" "length (available_outputs g) = length (states p)"
proof -
  obtain es start where ix: "indexed p es start" and order: "topological es (topological_order g)"
    "set (topological_order g) = {..<length es}"
    and sets: "exact_sets es start (ancestors g) (definite_ancestors g) (available_outputs g)"
    using validated_sets[OF assms] by blast
  have n: "length es = length (states p)" using ix by (simp add: indexed_def)
  show "distinct (topological_order g)" "set (topological_order g) = {..<length (states p)}"
    using order n by (simp_all add: topological_def)
  show "inj_on (state_name p) (set (topological_order g))" using order(2) name_inject[OF ix] by (auto simp: inj_on_def)
  show "length (ancestors g) = length (states p)" "length (definite_ancestors g) = length (states p)"
    "length (available_outputs g) = length (states p)"
    using sets n by (simp_all add: exact_sets_def)
qed

lemma known_on_ways:
  assumes graph: "validate_graph p path = Some (Ok g)" and i: "i < length (states p)"
    and cx: "state_context codecs deps p base inputs sigs g types i = Some cx" and known: "value_known cx v"
  shows "n \<in> output_references v \<Longrightarrow> takes p w (state_name p i) \<Longrightarrow> (n, True) \<in> set w"
    "n \<in> key_references v \<Longrightarrow> takes p w (state_name p i) \<Longrightarrow> n \<in> fst ` set w"
proof -
  obtain es start where ix: "indexed p es start"
    and sets: "exact_sets es start (ancestors g) (definite_ancestors g) (available_outputs g)"
    using validated_sets[OF graph] by blast
  have es: "length es = length (states p)" using ix by (simp add: indexed_def)
  have cx': "cc_available_outputs cx = available_outputs g ! i" "cc_definite_ancestors cx = definite_ancestors g ! i"
    "cc_state_indices cx = state_indices g"
    using cx by (auto simp: state_context_def split: if_splits)
  note way = definite_on_ways[OF ix, of i]
  show "(n, True) \<in> set w" if n: "n \<in> output_references v" "takes p w (state_name p i)"
  proof -
    obtain j where "j \<in> available_outputs g ! i" "j < length (states p)" "state_name p j = n"
      using known n(1) cx' validated_indices[OF graph] by (auto simp: value_known_def outputs_known_def)
    then show ?thesis using sets way(2)[of j] i es n(2) by (auto simp: exact_sets_def)
  qed
  show "n \<in> fst ` set w" if n: "n \<in> key_references v" "takes p w (state_name p i)"
  proof -
    obtain j where "j \<in> definite_ancestors g ! i" "j < length (states p)" "state_name p j = n"
      using known n(1) cx' validated_indices[OF graph] by (auto simp: value_known_def keys_known_def)
    then show ?thesis using sets way(1)[of j] i es n(2) by (auto simp: exact_sets_def)
  qed
qed


text \<open>A compiled process holds exactly its states, and its start and every transition lead to one of them.\<close>

theorem compiled_process_is_closed:
  assumes "compile_process codecs metadata deps k p = Some (Ok c)"
  shows "bt_contains (cp_states c) n \<longleftrightarrow> n \<in> state_id ` set (states p)" "bt_contains (cp_states c) (start_at p)"
    "s \<in> set (states p) \<Longrightarrow> (t, out) \<in> set (state_transitions s) \<Longrightarrow> bt_contains (cp_states c) t"
proof -
  from assms(1) obtain base graph closure key inputs sigs where parts: "validate_graph p base = Some (Ok graph)"
    "compile_states (state_context codecs deps p base inputs sigs graph) p (topological_order graph) closure [] [] =
       Some (Ok (cp_dependencies c, cp_states c))"
    by (rule compile_process_parts)
  note order = validated_order[OF parts(1)]
  have names: "state_name p ` set (topological_order graph) = state_id ` set (states p)"
    unfolding order(2) by (force simp: in_set_conv_nth)
  show held: "bt_contains (cp_states c) n \<longleftrightarrow> n \<in> state_id ` set (states p)" for n
  proof
    show "bt_contains (cp_states c) n \<Longrightarrow> n \<in> state_id ` set (states p)"
      using compile_states_keep[OF parts(2), of n] names by (auto simp: bt_contains_def)
    assume "n \<in> state_id ` set (states p)"
    then have "n \<in> state_name p ` set (topological_order graph)" unfolding names .
    then obtain i where "i \<in> set (topological_order graph)" "state_name p i = n" by blast
    from compile_states_each[OF parts(2) order(1,3) this(1)] this(2) show "bt_contains (cp_states c) n"
      by (auto simp: bt_contains_def)
  qed
  obtain es start where ix: "indexed p es start" using validated_sets[OF parts(1)] by blast
  then have "start_at p = state_name p start" "start < length (states p)" and targets: "snd ` leads_to p \<subseteq> state_id ` set (states p)"
    by (simp_all add: indexed_def)
  then have start: "start_at p \<in> state_id ` set (states p)" by simp
  show "bt_contains (cp_states c) (start_at p)" unfolding held by (rule start)
  assume "s \<in> set (states p)" "(t, out) \<in> set (state_transitions s)"
  then have "(state_id s, t) \<in> leads_to p" by (force simp: leads_to_def)
  then show "bt_contains (cp_states c) t" unfolding held using targets by force
qed

section \<open>A sample\<close>

text \<open>A customer reserves stock; a fixed role then ships the order that the reservation returned.\<close>

definition sample_codecs :: process_codecs where
  "sample_codecs = \<lparr>encode_json = \<lambda>_. Ok [], digest = \<lambda>_. [], process_json = \<lambda>_. JNull, contract_hash = \<lambda>_. Some [],
     debug_str = \<lambda>s. s\<rparr>"

definition order_contract :: value_contract_catalog where
  "order_contract = \<lparr>roots = [(''order'', ContractField True (TypeRef False (VScalar SUuid)))], named_objects = []\<rparr>"

definition sample_dependencies :: process_dependencies where
  "sample_dependencies =
     \<lparr>dep_declared = \<lambda>_. None,
      dep_command = (\<lambda>source name.
        if name = ''reserve'' then
          Some \<lparr>cd_source = ''default'', cd_name = ''reserve'', cd_arguments = \<lparr>roots = [], named_objects = []\<rparr>,
            cd_result = order_contract, allowed_roles = {''customer''},
            required_session_variables = [(''customer'', [(''X-User'', TypeRef False (VScalar SString))])], cd_fingerprint = []\<rparr>
        else if name = ''ship'' then
          Some \<lparr>cd_source = ''default'', cd_name = ''ship'', cd_arguments = order_contract,
            cd_result = \<lparr>roots = [], named_objects = []\<rparr>, allowed_roles = {''worker''},
            required_session_variables = [], cd_fingerprint = []\<rparr>
        else None),
      dep_rule = \<lambda>_. None, dep_decision_table = \<lambda>_. None, dep_operation = \<lambda>_ _ _. Ok None, dep_trigger = \<lambda>_ _ _. Ok None\<rparr>"

definition reserve_state :: process_state where
  "reserve_state = \<lparr>state_id = ''reserve'', operation = OCommand
     \<lparr>pc_name = ''reserve'', pc_run_as = ''caller'', pc_arguments = [], pc_next = ''ship''\<rparr>\<rparr>"

definition ship_state :: process_state where
  "ship_state = \<lparr>state_id = ''ship'', operation = OCommand
     \<lparr>pc_name = ''ship'', pc_run_as = ''worker'', pc_arguments = [(''order'', PState ''reserve'' ''order'' None None False)],
      pc_next = ''done''\<rparr>\<rparr>"

definition order_process :: process where
  "order_process =
     \<lparr>p_name = ''order'', p_version = 1, p_source = ''default'', p_lifecycle = Active,
      permissions = [\<lparr>pp_role = ''customer'', pp_owner_session_variable = None\<rparr>], p_owner = None,
      p_start = None, p_input = [], p_output = [], idempotency = None, signals = [], start_at = ''reserve'',
      states = [reserve_state, ship_state, \<lparr>state_id = ''done'', operation = OOutput []\<rparr>]\<rparr>"

definition sample_metadata :: process_metadata where
  "sample_metadata = \<lparr>md_sources = [\<lparr>ms_name = ''default'', ms_kind = Postgres\<rparr>], md_processes = [order_process],
     md_tenancy = Some \<lparr>tm_source = ''default'', tm_variable = ''X-Tenant''\<rparr>, md_decision_tables = []\<rparr>"

definition sample_compiled :: "compiled_process option" where
  "sample_compiled =
     (case compile_process sample_codecs sample_metadata sample_dependencies 0 order_process of Some (Ok c) \<Rightarrow> Some c | _ \<Rightarrow> None)"

lemma order_compiles: "map_option (map fst \<circ> cp_states) sample_compiled = Some [''done'', ''reserve'', ''ship'']"
  by code_simp

lemma sample_ok: "\<exists>c. compile_process sample_codecs sample_metadata sample_dependencies 0 order_process = Some (Ok c)"
  using order_compiles by (auto simp: sample_compiled_def split: option.splits result.splits)


section \<open>Roles of a compiled process\<close>

lemma check_roles_Ok:
  "check_roles path i ps seen = Ok u \<longleftrightarrow>
   (\<forall>q \<in> set ps. \<not> is_space_only (pp_role q) \<and> pp_role q \<noteq> ''admin'' \<and> pp_owner_session_variable q \<noteq> Some [] \<and> pp_role q \<notin> set seen) \<and>
   distinct (map pp_role ps)"
  by (induction ps arbitrary: i seen) (auto simp: image_iff)

lemma process_roles_Ok:
  "validate_process_roles p path = Ok u \<Longrightarrow>
   permissions p \<noteq> [] \<and> distinct (map pp_role (permissions p)) \<and> (\<forall>q \<in> set (permissions p). pp_role q \<noteq> ''admin'')"
  by (auto simp: validate_process_roles_def check_roles_Ok split: if_splits)

lemma start_pinned:
  "validate_start codecs p deps inputs empty_closure base = Ok (closure, key) \<Longrightarrow> commands_pinned deps closure"
  by (auto simp: validate_start_def Let_def commands_pinned_def empty_closure_def pin_command_def bt_get_insert
      split: option.splits if_splits dest!: resolve_command_Ok)

lemma compiled_commands:
  assumes "compile_process codecs metadata deps k p = Some (Ok c)"
  shows "commands_pinned deps (cp_dependencies c)"
    "s \<in> set (states p) \<Longrightarrow> state_command s = Some (name, run_as) \<Longrightarrow>
     \<exists>d. bt_get (cl_commands (cp_dependencies c)) (p_source p, name) = Some d \<and> run_as_permitted p d run_as"
proof -
  from assms(1) obtain base graph closure key inputs sigs where parts: "validate_graph p base = Some (Ok graph)"
    "validate_start codecs p deps inputs empty_closure base = Ok (closure, key)"
    "compile_states (state_context codecs deps p base inputs sigs graph) p (topological_order graph) closure [] [] =
       Some (Ok (cp_dependencies c, cp_states c))"
    by (rule compile_process_parts)
  have "cc_process cx = p \<and> cc_dependencies cx = deps"
    if "state_context codecs deps p base inputs sigs graph types i = Some cx" for types i cx
    using that by (auto simp: state_context_def split: if_splits)
  then have all: "commands_pinned deps (cp_dependencies c)" "\<forall>i \<in> set (topological_order graph). \<forall>name run_as.
      state_command (states p ! i) = Some (name, run_as) \<longrightarrow>
      (\<exists>d. bt_get (cl_commands (cp_dependencies c)) (p_source p, name) = Some d \<and> run_as_permitted p d run_as)"
    using compile_states_commands[OF parts(3) start_pinned[OF parts(2)]] by blast+
  then show "commands_pinned deps (cp_dependencies c)" by blast
  assume "s \<in> set (states p)" "state_command s = Some (name, run_as)"
  moreover from this(1) obtain i where "i < length (states p)" "states p ! i = s" by (auto simp: in_set_conv_nth)
  ultimately show "\<exists>d. bt_get (cl_commands (cp_dependencies c)) (p_source p, name) = Some d \<and> run_as_permitted p d run_as"
    using all(2) validated_order(2)[OF parts(1)] by auto
qed

text \<open>
  (C10) Every command of a process that compiles, in a state or in a fan-out, exists in the source of the
  process and is pinned there. It runs either as the caller, and then every role that may call the
  process may execute it, or as a named role that may execute it and needs no session; in neither case
  does it run as the administrator.
\<close>

theorem compiled_commands_are_permitted:
  assumes "compile_process codecs metadata deps k p = Some (Ok c)" "s \<in> set (states p)" "state_command s = Some (name, run_as)"
    "role = run_as \<or> (run_as = ''caller'' \<and> (\<exists>permission \<in> set (permissions p). role = pp_role permission))"
    "role \<noteq> ''caller''"
  shows "\<exists>d. dep_command deps (p_source p) name = Some d \<and> role \<in> allowed_roles d \<and> role \<noteq> ''admin'' \<and>
    (run_as \<noteq> ''caller'' \<longrightarrow> session_variables_for d role = {}) \<and>
    (\<exists>arguments outcome. bt_get (cl_commands (cp_dependencies c)) (p_source p, name) =
       Some (d\<lparr>cd_arguments := arguments, cd_result := outcome\<rparr>))"
proof -
  obtain d where d: "bt_get (cl_commands (cp_dependencies c)) (p_source p, name) = Some d" "run_as_permitted p d run_as"
    using compiled_commands(2)[OF assms(1-3)] by blast
  moreover have "pinned_from deps (p_source p, name) d"
    using compiled_commands(1)[OF assms(1)] d(1) by (simp add: commands_pinned_def)
  ultimately obtain d' a b where d': "dep_command deps (p_source p) name = Some d'" "run_as_permitted p d' run_as"
    "d = d'\<lparr>cd_arguments := a, cd_result := b\<rparr>"
    by (auto simp: pinned_from_def)
  have "\<forall>q \<in> set (permissions p). pp_role q \<noteq> ''admin''"
    by (rule compile_process_parts[OF assms(1)]) (auto dest!: process_roles_Ok)
  then show ?thesis using d(1) d' assms(4,5) by (auto simp: run_as_permitted_def split: if_splits)
qed

theorem compiled_commands_are_permitted_witness:
  "\<exists>d. dep_command sample_dependencies ''default'' ''reserve'' = Some d \<and> ''customer'' \<in> allowed_roles d"
proof -
  obtain c where c: "compile_process sample_codecs sample_metadata sample_dependencies 0 order_process = Some (Ok c)"
    using sample_ok by blast
  have s: "reserve_state \<in> set (states order_process)" "state_command reserve_state = Some (''reserve'', ''caller'')"
    "''customer'' = ''caller'' \<or> ''caller'' = ''caller'' \<and> (\<exists>permission \<in> set (permissions order_process). ''customer'' = pp_role permission)"
    "''customer'' \<noteq> ''caller''" "p_source order_process = ''default''"
    by (simp_all add: order_process_def reserve_state_def state_command_def)
  from compiled_commands_are_permitted[OF c s(1-4)] show ?thesis unfolding s(5) by blast
qed

end
