(* ===== verification/Process_Sessions.thy ===== *)
theory Process_Sessions
  imports Process_Guarantees
begin

text \<open>
  The session variables that a compiled process keeps for its callers, and the absence of panics in
  its compilation.
\<close>

section \<open>Session variables of a compiled process\<close>

lemma extend_roles_get:
  "extend_roles names qs m = Some m' \<Longrightarrow>
   bt_get m' r = map_option (\<lambda>old. old \<union> \<Union> (names ` {q \<in> set qs. pp_role q = r})) (bt_get m r)"
proof (induction qs arbitrary: m)
  case (Cons q qs)
  then obtain old where old: "bt_get m (pp_role q) = Some old"
    "extend_roles names qs (bt_insert (pp_role q) (old \<union> names q) m) = Some m'"
    by (auto simp: extend_role_def bind_eq_Some_conv)
  have set: "{x \<in> set (q # qs). pp_role x = r} = (if pp_role q = r then {q} else {}) \<union> {x \<in> set qs. pp_role x = r}" by auto
  show ?case unfolding Cons.IH[OF old(2)] set by (auto simp: bt_get_insert old(1))
qed (simp add: option.map_ident)

lemma extend_roles_total:
  "pp_role ` set qs \<subseteq> dom (map_of m) \<Longrightarrow> \<exists>m'. extend_roles names qs m = Some m'"
proof (induction qs arbitrary: m)
  case (Cons q qs)
  then obtain old where "bt_get m (pp_role q) = Some old" by auto
  moreover have "pp_role ` set qs \<subseteq> dom (map_of (bt_insert (pp_role q) (old \<union> names q) m))"
    using Cons.prems by (auto simp: bt_get_insert)
  ultimately show ?case using Cons.IH by (simp add: extend_role_def)
qed simp

text \<open>The session variables of a role that the commands run for the caller need.\<close>

definition caller_needs :: "process \<Rightarrow> process_dependency_closure \<Rightarrow> process_state set \<Rightarrow> string \<Rightarrow> string set" where
  "caller_needs p closure ss r =
     \<Union> {session_variables_for d r | d s name. s \<in> ss \<and> state_command s = Some (name, ''caller'') \<and>
          bt_get (cl_commands closure) (p_source p, name) = Some d}"

lemma caller_needs_insert:
  "caller_needs p closure (insert s ss) r =
     (case state_command s of
        Some (name, run_as) \<Rightarrow>
          if run_as = ''caller'' then
            (case bt_get (cl_commands closure) (p_source p, name) of Some d \<Rightarrow> session_variables_for d r | None \<Rightarrow> {})
          else {}
      | None \<Rightarrow> {}) \<union> caller_needs p closure ss r"
  by (auto simp: caller_needs_def split: option.splits)

lemma caller_command_get:
  assumes "collect_caller_command p closure name run_as path m = Some (Ok m')" "r \<in> pp_role ` set (permissions p)"
  shows "bt_get m' r = map_option (\<lambda>old. old \<union> (if run_as = ''caller'' then
      (case bt_get (cl_commands closure) (p_source p, name) of Some d \<Rightarrow> session_variables_for d r | None \<Rightarrow> {}) else {})) (bt_get m r)"
proof (cases "run_as = ''caller''")
  case True
  then obtain d where d: "bt_get (cl_commands closure) (p_source p, name) = Some d"
    "extend_roles (\<lambda>q. session_variables_for d (pp_role q)) (permissions p) m = Some m'"
    using assms(1) by (auto simp: collect_caller_command_def split: option.splits)
  have "\<Union> ((\<lambda>q. session_variables_for d (pp_role q)) ` {q \<in> set (permissions p). pp_role q = r}) = session_variables_for d r"
    using assms(2) by auto
  then show ?thesis using extend_roles_get[OF d(2), of r] d(1) True by simp
qed (use assms(1) in \<open>auto simp: collect_caller_command_def option.map_ident\<close>)

lemma collect_states_get:
  assumes "collect_states p closure path i ss ambient m = Some (Ok (ambient', m'))" "r \<in> pp_role ` set (permissions p)"
  shows "ambient' = ambient \<union> (\<Union>s \<in> set ss. state_session_variables s) \<and>
    bt_get m' r = map_option (\<lambda>old. old \<union> caller_needs p closure (set ss) r) (bt_get m r)"
  using assms(1)
proof (induction ss arbitrary: i ambient m)
  case Nil
  then show ?case by (auto simp: caller_needs_def option.map_ident)
next
  case (Cons s ss)
  then obtain m1 where step: "(case state_command s of None \<Rightarrow> Some (Ok m)
      | Some (name, run_as) \<Rightarrow> collect_caller_command p closure name run_as (at_index path i) m) = Some (Ok m1)"
    "collect_states p closure path (Suc i) ss (ambient \<union> state_session_variables s) m1 = Some (Ok (ambient', m'))"
    by auto
  have "bt_get m1 r = map_option (\<lambda>old. old \<union> (case state_command s of
      Some (name, run_as) \<Rightarrow>
        if run_as = ''caller'' then
          (case bt_get (cl_commands closure) (p_source p, name) of Some d \<Rightarrow> session_variables_for d r | None \<Rightarrow> {})
        else {}
    | None \<Rightarrow> {})) (bt_get m r)"
    using step(1) caller_command_get[OF _ assms(2)] by (auto simp: option.map_ident split: option.splits)
  then show ?case using Cons.IH[OF step(2)]
    by (simp add: caller_needs_insert option.map_comp comp_def Un_assoc)
qed

lemma bt_get_map: "map_of (map (\<lambda>(k, v). (k, f v)) m) k = map_option f (map_of m k)"
  by (induction m) auto

lemma initial_roles:
  "distinct (map pp_role qs) \<Longrightarrow> bt_get (bt_collect (map (\<lambda>q. (pp_role q, {} :: string set)) qs)) r = (if r \<in> pp_role ` set qs then Some {} else None)"
proof -
  assume "distinct (map pp_role qs)"
  then have "bt_get (bt_collect (map (\<lambda>q. (pp_role q, {} :: string set)) qs)) = bt_get (map (\<lambda>q. (pp_role q, {} :: string set)) qs)"
    by (intro bt_get_collect) (simp add: comp_def)
  moreover have "bt_get (map (\<lambda>q. (pp_role q, {} :: string set)) qs) r = (if r \<in> pp_role ` set qs then Some {} else None)"
    by (induction qs) auto
  ultimately show ?thesis by simp
qed

lemma collected_variables:
  assumes "collect_caller_session_variables p closure tenant path = Some (Ok m)" "q \<in> set (permissions p)"
    "distinct (map pp_role (permissions p))"
  shows "bt_get m (pp_role q) = Some ((case tenant of None \<Rightarrow> {} | Some t \<Rightarrow> {t}) \<union> owner_variable q \<union> owner_ambient p \<union>
    (\<Union>s \<in> set (states p). state_session_variables s) \<union> caller_needs p closure (set (states p)) (pp_role q))"
proof -
  define by_role where "by_role = bt_collect (map (\<lambda>q. (pp_role q, {} :: string set)) (permissions p))"
  define tenanted where "tenanted = (case tenant of None \<Rightarrow> by_role | Some t \<Rightarrow> map (\<lambda>(role, names). (role, insert t names)) by_role)"
  obtain owned ambient m1 where parts: "extend_roles owner_variable (permissions p) tenanted = Some owned"
    "collect_states p closure path 0 (states p) (owner_ambient p) owned = Some (Ok (ambient, m1))"
    "m = map (\<lambda>(role, names). (role, names \<union> ambient)) m1"
    using assms(1) unfolding collect_caller_session_variables_def Let_def by_role_def[symmetric] tenanted_def[symmetric]
    by (auto simp: bind_eq_Some_conv)
  have "bt_get by_role (pp_role q) = Some {}" using initial_roles[OF assms(3)] assms(2) by (simp add: by_role_def)
  then have "bt_get tenanted (pp_role q) = Some (case tenant of None \<Rightarrow> {} | Some t \<Rightarrow> {t})"
    by (simp add: tenanted_def bt_get_map split: option.splits)
  moreover have "{x \<in> set (permissions p). pp_role x = pp_role q} = {q}"
    using assms(2,3) by (auto simp: distinct_map inj_on_def)
  ultimately have "bt_get owned (pp_role q) = Some ((case tenant of None \<Rightarrow> {} | Some t \<Rightarrow> {t}) \<union> owner_variable q)"
    using extend_roles_get[OF parts(1), of "pp_role q"] by simp
  with collect_states_get[OF parts(2), of "pp_role q"] assms(2) show ?thesis
    unfolding parts(3) bt_get_map by (auto simp: Un_ac)
qed

lemma compiled_needs:
  assumes "compile_process codecs metadata deps k p = Some (Ok c)"
  shows "caller_needs p (cp_dependencies c) (set (states p)) r =
    \<Union> {session_variables_for d r | d s name. s \<in> set (states p) \<and> state_command s = Some (name, ''caller'') \<and>
      dep_command deps (p_source p) name = Some d}"
proof -
  have same: "(\<exists>d. bt_get (cl_commands (cp_dependencies c)) (p_source p, name) = Some d \<and> x \<in> session_variables_for d r) \<longleftrightarrow>
      (\<exists>d. dep_command deps (p_source p) name = Some d \<and> x \<in> session_variables_for d r)"
    if s: "s \<in> set (states p)" "state_command s = Some (name, ''caller'')" for s name x
  proof -
    obtain d where d: "bt_get (cl_commands (cp_dependencies c)) (p_source p, name) = Some d"
      using compiled_commands(2)[OF assms s] by blast
    then have "pinned_from deps (p_source p, name) d" using compiled_commands(1)[OF assms] by (simp add: commands_pinned_def)
    then show ?thesis using d by (auto simp: pinned_from_def session_variables_for_def)
  qed
  show ?thesis
  proof (rule set_eqI)
    fix x
    have "x \<in> caller_needs p (cp_dependencies c) (set (states p)) r \<longleftrightarrow>
        (\<exists>s name. (s \<in> set (states p) \<and> state_command s = Some (name, ''caller'')) \<and>
          (\<exists>d. bt_get (cl_commands (cp_dependencies c)) (p_source p, name) = Some d \<and> x \<in> session_variables_for d r))"
      by (auto simp: caller_needs_def)
    also have "\<dots> \<longleftrightarrow> (\<exists>s name. (s \<in> set (states p) \<and> state_command s = Some (name, ''caller'')) \<and>
        (\<exists>d. dep_command deps (p_source p) name = Some d \<and> x \<in> session_variables_for d r))"
      by (intro ex_cong1) (rule conj_cong, rule refl, rule same, auto)
    finally show "x \<in> caller_needs p (cp_dependencies c) (set (states p)) r \<longleftrightarrow> x \<in> \<Union> {session_variables_for d r | d s name.
        s \<in> set (states p) \<and> state_command s = Some (name, ''caller'') \<and> dep_command deps (p_source p) name = Some d}"
      by auto
  qed
qed



section \<open>Panics\<close>

lemma compile_states_total:
  "(\<And>types i. i \<in> set order \<Longrightarrow> context_at types i \<noteq> None) \<Longrightarrow> compile_states context_at p order closure types compiled \<noteq> None"
proof (induction order arbitrary: closure types compiled)
  case (Cons i order)
  obtain cx where "context_at types i = Some cx" using Cons.prems[of i types] by auto
  moreover have "compile_states context_at p order cl ts cs \<noteq> None" for cl ts cs
    by (rule Cons.IH) (use Cons.prems in auto)
  ultimately show ?case by (auto split: prod.splits)
qed simp

lemma extend_roles_dom: "extend_roles names qs m = Some m' \<Longrightarrow> dom (map_of m') = dom (map_of m)"
  by (auto simp: extend_roles_get dom_def)

lemma collect_states_total:
  "pp_role ` set (permissions p) \<subseteq> dom (map_of m) \<Longrightarrow> collect_states p closure path i ss ambient m \<noteq> None"
proof (induction ss arbitrary: i ambient m)
  case (Cons s ss)
  have "collect_caller_command p closure name run_as (at_index path i) m \<noteq> None" for name run_as
    using extend_roles_total[OF Cons.prems] by (auto simp: collect_caller_command_def split: option.splits)
  moreover have "dom (map_of m1) = dom (map_of m)"
    if "collect_caller_command p closure name run_as (at_index path i) m = Some (Ok m1)" for name run_as m1
    using that extend_roles_dom by (fastforce simp: collect_caller_command_def split: if_splits option.splits)
  ultimately show ?case using Cons.IH Cons.prems by (auto split: option.splits)
qed simp

lemma collect_total:
  assumes "distinct (map pp_role (permissions p))"
  shows "collect_caller_session_variables p closure tenant path \<noteq> None"
proof -
  define by_role where "by_role = bt_collect (map (\<lambda>q. (pp_role q, {} :: string set)) (permissions p))"
  define tenanted where "tenanted = (case tenant of None \<Rightarrow> by_role | Some t \<Rightarrow> map (\<lambda>(role, names). (role, insert t names)) by_role)"
  have "dom (map_of by_role) = pp_role ` set (permissions p)"
    using initial_roles[OF assms] by (auto simp: by_role_def dom_def split: if_splits)
  then have dom: "pp_role ` set (permissions p) \<subseteq> dom (map_of tenanted)"
    by (auto simp: tenanted_def bt_get_map dom_def split: option.splits)
  obtain owned where owned: "extend_roles owner_variable (permissions p) tenanted = Some owned"
    using extend_roles_total[OF dom] by blast
  then have "pp_role ` set (permissions p) \<subseteq> dom (map_of owned)" using dom extend_roles_dom by blast
  from collect_states_total[OF this] show ?thesis
    unfolding collect_caller_session_variables_def Let_def by_role_def[symmetric] tenanted_def[symmetric]
    by (simp add: owned split: prod.splits)
qed

lemma revision_total:
  assumes "\<And>contract. contract_hash codecs contract \<noteq> None"
  shows "revision_fingerprint codecs fingerprint closure \<noteq> None"
proof -
  have "\<forall>contract. \<exists>h. contract_hash codecs contract = Some h" using assms by auto
  then obtain h where "\<forall>contract. contract_hash codecs contract = Some (h contract)" by metis
  then have each: "\<exists>j. trigger_material codecs t = Some j" for t
    by (simp add: trigger_material_def split: trigger_spec.splits)
  have "\<exists>js. collect_opt (trigger_material codecs) ts = Some js" for ts
  proof (induction ts)
    case (Cons t ts)
    then show ?case using each[of t] by auto
  qed simp
  then show ?thesis by (simp add: revision_fingerprint_def process_dependency_descriptors_def)
qed



end
