(* ===== verification/Process_Requests.thy ===== *)
theory Process_Requests
  imports Process_Guarantees
begin

text \<open>
  The connector requests of a compiled process: how often they may be sent, and under which protection
  against duplicates.
\<close>

section \<open>Requests\<close>

lemma step_horizons_Ok:
  "step_horizons path h ss m = Ok m' \<Longrightarrow>
   (\<forall>s \<in> set ss. bt_get m' (step_id s) = Some h \<and> h + clock_safety_margin_ms s \<le> minimum_retention_ms s) \<and>
   (\<forall>n. bt_get m n = Some h \<longrightarrow> bt_get m' n = Some h)"
proof (induction ss arbitrary: m)
  case (Cons s ss)
  then have s: "clock_safety_margin_ms s \<le> minimum_retention_ms s" "h \<le> minimum_retention_ms s - clock_safety_margin_ms s"
    "step_horizons path h ss (bt_insert (step_id s) h m) = Ok m'"
    by (auto simp: Let_def split: if_splits)
  from Cons.IH[OF s(3)] s(1,2) show ?case by (auto simp: bt_get_insert split: if_splits)
qed simp

lemma stable_key_Ok:
  "validate_stable_activity_key key owning item_key path = Ok u \<longleftrightarrow> key = \<lparr>sk_run = ''id'', sk_state = owning, sk_item_key = item_key\<rparr>"
  by (cases key) (auto simp: validate_stable_activity_key_def)

lemma request_effect_Ok:
  assumes "request_effect effect key owning item_key h path = Ok (idempotent, horizons)"
  shows "case effect of
      ProviderIdempotent ss \<Rightarrow> idempotent \<and> key = Some \<lparr>sk_run = ''id'', sk_state = owning, sk_item_key = item_key\<rparr> \<and>
        (\<forall>s \<in> set ss. bt_get horizons (step_id s) = Some h \<and> h + clock_safety_margin_ms s \<le> minimum_retention_ms s)
    | _ \<Rightarrow> \<not> idempotent \<and> key = None \<and> horizons = []"
  using assms by (cases effect) (auto simp: request_effect_def stable_key_Ok split: if_splits dest: step_horizons_Ok)

lemma at_most_once_declared:
  "validate_at_most_once False declared on_ambiguous on_error standalone retry connector op path = Ok u \<Longrightarrow> \<not> declared \<and> on_ambiguous = None"
  by (auto simp: validate_at_most_once_def split: if_splits)

text \<open>
  (C12) A connector request that compiles can be sent as often as its retry policy sends it. A read-only
  operation carries no key. A provider-idempotent one is sent under the key of its run, state and item,
  and for each of its steps the last possible send, with the clock margin, is within the time the
  provider keeps the key. An operation without protection against duplicates is sent once, with
  declared ways for failures and for unknown outcomes. The connector's deadline is within the timeout.
\<close>

theorem compiled_requests_are_safe:
  assumes "compile_request cx closure path activity owning item_key = Ok (closure', outputs, horizons, r)"
  shows "\<exists>resolved h.
    dep_operation (cc_dependencies cx) (p_source (cc_process cx)) (ra_connector activity) (ra_operation activity) = Ok (Some resolved) \<and>
    os_deadline_ms (ro_spec resolved) \<le> cr_start_to_close_ms r \<and>
    compile_retry_horizon (cr_retry r) (cr_at_most_once r) (cr_schedule_to_start_ms r) (cr_start_to_close_ms r) (path @ ''.retry'') = Ok h \<and>
    (case os_effect (ro_spec resolved) of
       ReadOnly \<Rightarrow> ra_idempotency_key activity = None \<and> \<not> cr_at_most_once r
     | ProviderIdempotent ss \<Rightarrow>
         cr_provider_idempotent r \<and> \<not> cr_at_most_once r \<and>
         ra_idempotency_key activity = Some \<lparr>sk_run = ''id'', sk_state = owning, sk_item_key = item_key\<rparr> \<and>
         (\<forall>s \<in> set ss. bt_get horizons (step_id s) = Some h \<and> h + clock_safety_margin_ms s \<le> minimum_retention_ms s)
     | AtMostOnce \<Rightarrow>
         ra_idempotency_key activity = None \<and> cr_at_most_once r \<and> max_attempts (cr_retry r) = 1 \<and> retry_on (cr_retry r) = [] \<and>
         cr_on_ambiguous r \<noteq> None \<and> (item_key = None \<longrightarrow> cr_on_error r \<noteq> None) \<and>
         h = cr_start_to_close_ms r + MAXIMUM_ACTIVITY_TAKEOVER_DELAY_MS)"
proof -
  obtain resolved h idempotent where parts:
    "dep_operation (cc_dependencies cx) (p_source (cc_process cx)) (ra_connector activity) (ra_operation activity) = Ok (Some resolved)"
    "os_deadline_ms (ro_spec resolved) \<le> cr_start_to_close_ms r"
    "compile_retry_horizon (cr_retry r) (cr_at_most_once r) (cr_schedule_to_start_ms r) (cr_start_to_close_ms r) (path @ ''.retry'') = Ok h"
    "request_effect (os_effect (ro_spec resolved)) (ra_idempotency_key activity) owning item_key h path = Ok (idempotent, horizons)"
    "validate_at_most_once (os_effect (ro_spec resolved) = AtMostOnce) (cr_at_most_once r) (cr_on_ambiguous r)
       (cr_on_error r) (item_key = None) (cr_retry r) (ra_connector activity) (ra_operation activity) path = Ok ()"
    "cr_provider_idempotent r = idempotent"
    using assms by (auto simp: compile_request_def resolve_operation_def request_budgets_def Let_def split: if_splits)
  show ?thesis
  proof (cases "os_effect (ro_spec resolved)")
    case AtMostOnce
    then show ?thesis using parts(1-3) request_effect_Ok[OF parts(4)]
        at_most_once_never_retries[OF parts(5)[unfolded AtMostOnce simp_thms] parts(3)] by auto
  qed (use parts request_effect_Ok[OF parts(4)] at_most_once_declared in \<open>force\<close>)+
qed

text \<open>A charge that the provider protects for a day, tried twice.\<close>

definition charge_operation :: resolved_operation where
  "charge_operation =
     \<lparr>ro_spec = \<lparr>os_connector = ''pay'', os_connector_version = \<lparr>major = 1, minor = 0, patch = 0\<rparr>, os_operation = ''charge'',
        os_operation_version = \<lparr>major = 1, minor = 0, patch = 0\<rparr>, os_runtime_abi_epoch = 1, os_value_language_epoch = 1,
        os_input = \<lparr>roots = [], named_objects = []\<rparr>, os_input_contract_sha256 = [],
        os_output = \<lparr>roots = [], named_objects = []\<rparr>, os_output_contract_sha256 = [],
        os_effect = ProviderIdempotent
          [\<lparr>step_id = ''post'', minimum_retention_ms = 86400000, clock_safety_margin_ms = 60000\<rparr>],
        os_deadline_ms = 20000\<rparr>,
      ro_address = 0, ro_fingerprint = [], ro_serialization_key_input = None\<rparr>"

definition charge_activity :: process_request_activity where
  "charge_activity =
     \<lparr>ra_connector = ''pay'', ra_operation = ''charge'', ra_input = [],
      ra_idempotency_key = Some \<lparr>sk_run = ''id'', sk_state = ''charge'', sk_item_key = None\<rparr>,
      ra_timeout = \<lparr>schedule_to_start = ''5s'', start_to_close = ''30s''\<rparr>,
      ra_retry = \<lparr>retry_on = [Transport], max_attempts = 2, initial_interval = ''1s'', max_interval = ''2s'',
        jitter = ''deterministic_full''\<rparr>,
      ra_on_error = None, ra_at_most_once = False, ra_on_ambiguous = None, ra_template_pin = None\<rparr>"

definition charge_context :: compile_context where
  "charge_context =
     \<lparr>cc_process = order_process, cc_input = empty_contract, cc_state_types = [], cc_ancestors = {}, cc_definite_ancestors = {},
      cc_available_outputs = {}, cc_state_indices = [], cc_signals = [],
      cc_dependencies = sample_dependencies\<lparr>dep_operation := \<lambda>_ _ _. Ok (Some charge_operation)\<rparr>, cc_path = ''p'',
      cc_item = None, cc_debug = \<lambda>s. s\<rparr>"

lemmas duration_eval =
  parse_duration_def duration_units_def strip_suffix_def digits_val_def is_ascii_digit_def digit_val_def

lemma charge_horizon:
  "compile_retry_horizon (ra_retry charge_activity) False 5000 30000 path = Ok 76000"
  by (simp add: compile_retry_horizon_def charge_activity_def duration_eval MAXIMUM_ACTIVITY_TAKEOVER_DELAY_MS_def
      horizon_checked_def retryable_def)

lemma charge_durations:
  "parse_duration (schedule_to_start (ra_timeout charge_activity)) path = Ok 5000"
  "parse_duration (start_to_close (ra_timeout charge_activity)) path = Ok 30000"
  "parse_duration (initial_interval (ra_retry charge_activity)) path = Ok 1000"
  "parse_duration (max_interval (ra_retry charge_activity)) path = Ok 2000"
  by (simp_all add: charge_activity_def duration_eval)

lemma charge_budgets: "request_budgets charge_operation charge_activity path = Ok (5000, 30000, 76000)"
proof -
  have "os_deadline_ms (ro_spec charge_operation) = 20000" "\<not> ra_at_most_once charge_activity"
    by (simp_all add: charge_operation_def charge_activity_def)
  then show ?thesis by (simp add: request_budgets_def charge_horizon charge_durations)
qed

lemma charge_compiles: "\<exists>out. compile_request charge_context empty_closure path charge_activity ''charge'' None = Ok out"
proof -
  have "\<not> is_space_only ''pay''" "\<not> is_space_only ''charge''" by code_simp+
  then have "resolve_operation charge_context (ra_connector charge_activity) (ra_operation charge_activity) path = Ok charge_operation"
    by (simp add: resolve_operation_def charge_context_def charge_activity_def charge_operation_def Let_def)
  moreover have "normalize_contract (os_input (ro_spec charge_operation)) declared p1 = Ok empty_contract"
    "normalize_contract (os_output (ro_spec charge_operation)) declared p1 = Ok empty_contract"
    "validate_binding_map charge_context p1 (ra_input charge_activity) empty_contract = Ok ()" for declared p1
    by (simp_all add: normalize_contract_def normalize_object_fields_def charge_operation_def empty_contract_def
        validate_binding_map_def charge_activity_def)
  moreover have "validate_error_routes (ra_on_error charge_activity) p1 = Ok ()"
    "validate_at_most_once (os_effect (ro_spec charge_operation) = AtMostOnce) (ra_at_most_once charge_activity)
       (ra_on_ambiguous charge_activity) (ra_on_error charge_activity) True (ra_retry charge_activity)
       (ra_connector charge_activity) (ra_operation charge_activity) path = Ok ()"
    "request_effect (os_effect (ro_spec charge_operation)) (ra_idempotency_key charge_activity) ''charge'' None 76000 path =
       Ok (True, [(''post'', 76000)])"
    "\<exists>closure. pin_operation source (ra_connector charge_activity) charge_operation path empty_closure = Ok closure" for p1 source
    by (simp_all add: validate_error_routes_def validate_at_most_once_def request_effect_def validate_stable_activity_key_def
        pin_operation_def empty_closure_def Let_def charge_activity_def charge_operation_def)
  ultimately show ?thesis by (auto simp: compile_request_def Let_def charge_budgets charge_durations)
qed

theorem compiled_requests_are_safe_witness:
  "\<exists>closure' outputs horizons r h. compile_request charge_context empty_closure ''p'' charge_activity ''charge'' None =
     Ok (closure', outputs, horizons, r) \<and> bt_get horizons ''post'' = Some h \<and> h + 60000 \<le> 86400000"
proof -
  obtain closure' outputs horizons r where
    r: "compile_request charge_context empty_closure ''p'' charge_activity ''charge'' None = Ok (closure', outputs, horizons, r)"
    using charge_compiles[of "''p''"] by (metis prod_cases4)
  have "dep_operation (cc_dependencies charge_context) a b d = Ok (Some charge_operation)" for a b d
    by (simp add: charge_context_def)
  moreover have "os_effect (ro_spec charge_operation) =
      ProviderIdempotent [\<lparr>step_id = ''post'', minimum_retention_ms = 86400000, clock_safety_margin_ms = 60000\<rparr>]"
    by (simp add: charge_operation_def)
  ultimately show ?thesis using compiled_requests_are_safe[OF r] r by auto
qed

end
