(* ===== verification/Plan_Catalog.thy ===== *)
theory Plan_Catalog
  imports Plan_Error
begin

text \<open>
  What the planner knows of a source: names of tables (\<open>crates/metadata/src/types.rs\<close>), the catalog
  that was read from the database (\<open>crates/catalog-types/src/lib.rs\<close>), the tracked tables of the
  metadata, and the public names of tables, columns and roots (\<open>crates/schema/src/naming.rs\<close>).
\<close>

section \<open>Failures\<close>

text \<open>A request that the planner refuses, or a failed \<open>expect\<close> or \<open>unwrap\<close> with its message.\<close>

datatype plan_failure = Refused plan_error | Panicked string

type_synonym 'a planned = "('a, plan_failure) result"

definition plan_error_new :: "string \<Rightarrow> string \<Rightarrow> string \<Rightarrow> plan_failure" where
  "plan_error_new path code message = Refused \<lparr>pe_path = path, pe_code = code, pe_message = message\<rparr>"

definition invalid :: "string \<Rightarrow> string \<Rightarrow> plan_failure" where
  "invalid path message = Refused (validation path message)"

section \<open>Table names\<close>

datatype qualified_table = Name string | Qualified string string | Parts "string list"

fun schema_of :: "qualified_table \<Rightarrow> string" where
  "schema_of (Name name) = (case split_once CHR ''.'' name of Some (schema, _) \<Rightarrow> schema | None \<Rightarrow> ''public'')"
| "schema_of (Qualified schema name) = schema"
| "schema_of (Parts parts) = (case parts of [] \<Rightarrow> ''public'' | schema # _ \<Rightarrow> schema)"

fun name_of :: "qualified_table \<Rightarrow> string" where
  "name_of (Name name) = (case split_once CHR ''.'' name of Some (_, relation) \<Rightarrow> relation | None \<Rightarrow> name)"
| "name_of (Qualified schema name) = name"
| "name_of (Parts parts) = (if parts = [] then [] else last parts)"

definition table_to_string :: "qualified_table \<Rightarrow> string" where
  "table_to_string t = schema_of t @ ''.'' @ name_of t"

definition same_table :: "qualified_table \<Rightarrow> qualified_table \<Rightarrow> bool" where
  "same_table l r \<longleftrightarrow> schema_of l = schema_of r \<and> name_of l = name_of r"

text \<open>
  Deserialization of a table name: a string with at most one dot, which has text on both sides, an
  object with the two names, or an array of strings. The text of the error belongs to the deserializer.
\<close>

definition well_formed_name :: "string \<Rightarrow> bool" where
  "well_formed_name name \<longleftrightarrow>
     (case split_once CHR ''.'' name of
        None \<Rightarrow> True
      | Some (schema, relation) \<Rightarrow> schema \<noteq> [] \<and> relation \<noteq> [] \<and> CHR ''.'' \<notin> set relation)"

fun qualified_table_of_json :: "json \<Rightarrow> qualified_table option" where
  "qualified_table_of_json (JString name) = (if well_formed_name name then Some (Name name) else None)"
| "qualified_table_of_json (JObject ms) =
     (case (Option.bind (map_of ms ''schema'') as_str, Option.bind (map_of ms ''name'') as_str) of
        (Some schema, Some name) \<Rightarrow> Some (Qualified schema name)
      | _ \<Rightarrow> None)"
| "qualified_table_of_json (JArray items) = map_option Parts (collect_opt as_str items)"
| "qualified_table_of_json _ = None"

section \<open>The catalog\<close>

record column_info =
  ci_name :: string
  ci_pg_type :: string
  ci_pg_typmod :: int
  ci_native_type :: "string option"
  ci_nullable :: bool
  ci_has_default :: bool

definition sql_type :: "column_info \<Rightarrow> string" where
  "sql_type c = (case ci_native_type c of Some t \<Rightarrow> t | None \<Rightarrow> ci_pg_type c)"

record foreign_key =
  fk_constraint_name :: string
  fk_column_mapping :: "string btree_map"
  fk_referenced_schema :: string
  fk_referenced_table :: string

datatype relation_kind = RTable | RView | RMaterializedView | RForeignTable | RPartitionedTable

record table_info =
  ti_schema :: string
  ti_name :: string
  ti_relation_kind :: relation_kind
  ti_columns :: "column_info list"
  ti_primary_key :: "string list"
  ti_unique_keys :: "string list list"
  ti_foreign_keys :: "foreign_key list"

definition column :: "table_info \<Rightarrow> string \<Rightarrow> column_info option" where
  "column info name = find (\<lambda>c. ci_name c = name) (ti_columns info)"

record function_arg =
  fa_name :: "string option"
  fa_has_default :: bool
  fa_pg_type :: string
  fa_composite_of :: "(string \<times> string) option"

record function_info =
  fi_schema :: string
  fi_name :: string
  fi_args :: "function_arg list"
  fi_returns_table :: "(string \<times> string) option"
  fi_returns_set :: bool
  fi_returns_scalar :: "string option"

record db_catalog =
  cg_tables :: "table_info btree_map"
  cg_functions :: "function_info btree_map"

definition catalog_table :: "db_catalog \<Rightarrow> string \<Rightarrow> string \<Rightarrow> table_info option" where
  "catalog_table c schema name = bt_get (cg_tables c) (schema @ ''.'' @ name)"

definition catalog_function :: "db_catalog \<Rightarrow> string \<Rightarrow> string \<Rightarrow> function_info option" where
  "catalog_function c schema name = bt_get (cg_functions c) (schema @ ''.'' @ name)"

section \<open>Tracked tables\<close>

record column_config =
  custom_name :: "string option"

record table_configuration =
  tc_custom_name :: "string option"
  custom_root_fields :: "string btree_map"
  custom_column_names :: "string btree_map"
  tc_column_config :: "column_config btree_map"

record manual_configuration =
  remote_table :: qualified_table
  column_mapping :: "string btree_map"

record remote_key =
  rk_table :: qualified_table
  rk_column :: "string option"
  rk_columns :: "string list option"

datatype object_key = Single string | Multiple "string list" | RemoteKey remote_key

record object_relationship =
  or_name :: string
  or_foreign_key :: "object_key option"
  or_manual :: "manual_configuration option"

record array_relationship =
  ar_name :: string
  ar_foreign_key :: "remote_key option"
  ar_manual :: "manual_configuration option"

record computed_field =
  cf_name :: string
  cf_function :: qualified_table
  cf_table_argument :: "string option"
  cf_session_argument :: "string option"

datatype permitted_columns = Star | Columns "string list"

record select_permission =
  sp_columns :: permitted_columns
  sp_filter :: json
  sp_limit :: "nat option"
  sp_allow_aggregations :: bool
  sp_computed_fields :: "string list"

record table_entry =
  te_table :: qualified_table
  te_configuration :: "table_configuration option"
  te_object_relationships :: "object_relationship list"
  te_array_relationships :: "array_relationship list"
  te_computed_fields :: "computed_field list"
  te_select_permissions :: "(string \<times> select_permission) list"

section \<open>Names\<close>

definition default_base_name :: "qualified_table \<Rightarrow> string" where
  "default_base_name t = (if schema_of t = ''public'' then name_of t else schema_of t @ ''_'' @ name_of t)"

definition table_base_name :: "table_entry \<Rightarrow> string" where
  "table_base_name entry =
     (case Option.bind (te_configuration entry) tc_custom_name of
        Some name \<Rightarrow> name
      | None \<Rightarrow> default_base_name (te_table entry))"

definition column_graphql_name :: "table_entry \<Rightarrow> string \<Rightarrow> string" where
  "column_graphql_name entry db_name =
     (case te_configuration entry of
        None \<Rightarrow> db_name
      | Some config \<Rightarrow>
          (case bt_get (custom_column_names config) db_name of
             Some name \<Rightarrow> name
           | None \<Rightarrow>
               (case Option.bind (bt_get (tc_column_config config) db_name) custom_name of
                  Some name \<Rightarrow> name
                | None \<Rightarrow> db_name)))"

definition column_db_name :: "table_entry \<Rightarrow> string \<Rightarrow> string" where
  "column_db_name entry graphql_name =
     (case te_configuration entry of
        None \<Rightarrow> graphql_name
      | Some config \<Rightarrow>
          (case find (\<lambda>(db, name). name = graphql_name) (custom_column_names config) of
             Some (db, _) \<Rightarrow> db
           | None \<Rightarrow>
               (case find (\<lambda>(db, c). custom_name c = Some graphql_name) (tc_column_config config) of
                  Some (db, _) \<Rightarrow> db
                | None \<Rightarrow> graphql_name)))"

record root_names =
  rn_select :: string
  rn_select_by_pk :: string
  rn_select_aggregate :: string

record crud_roots =
  cr_query :: string
  cr_insert :: string
  cr_update :: string
  cr_delete :: string

definition custom_root :: "table_entry \<Rightarrow> string \<Rightarrow> string \<Rightarrow> string" where
  "custom_root entry key fallback =
     (case Option.bind (te_configuration entry) (\<lambda>c. bt_get (custom_root_fields c) key) of
        Some name \<Rightarrow> name
      | None \<Rightarrow> fallback)"

definition root_names_of :: "table_entry \<Rightarrow> root_names" where
  "root_names_of entry =
     (let base = table_base_name entry in
      \<lparr>rn_select = custom_root entry ''select'' base,
       rn_select_by_pk = custom_root entry ''select_by_pk'' (base @ ''_by_pk''),
       rn_select_aggregate = custom_root entry ''select_aggregate'' (base @ ''_aggregate'')\<rparr>)"

definition crud_roots_of :: "table_entry \<Rightarrow> crud_roots" where
  "crud_roots_of entry =
     (let base = table_base_name entry in
      \<lparr>cr_query = custom_root entry ''select'' base,
       cr_insert = custom_root entry ''insert'' (''insert_'' @ base),
       cr_update = custom_root entry ''update'' (''update_'' @ base),
       cr_delete = custom_root entry ''delete'' (''delete_'' @ base)\<rparr>)"

text \<open>
  A column that the database has, and whose public name no other column carries, is found again from
  its public name.
\<close>

lemma column_names_round_trip:
  assumes "\<And>c. te_configuration entry = Some c \<Longrightarrow>
    distinct (map fst (custom_column_names c)) \<and> distinct (map fst (tc_column_config c))"
    and "\<And>db'. column_graphql_name entry db' = column_graphql_name entry db \<Longrightarrow> db' = db"
    and "\<And>c k name. te_configuration entry = Some c \<Longrightarrow> bt_get (tc_column_config c) k = Some \<lparr>custom_name = Some name\<rparr> \<Longrightarrow>
      bt_get (custom_column_names c) k = None"
  shows "column_db_name entry (column_graphql_name entry db) = db"
proof (cases "te_configuration entry")
  case (Some c)
  let ?n = "column_graphql_name entry db"
  have named: "k = db" if "(k, ?n) \<in> set (custom_column_names c)" for k
    using that assms(1)[OF Some] by (intro assms(2)) (simp add: column_graphql_name_def Some)
  show ?thesis
  proof (cases "find (\<lambda>(k, name). name = ?n) (custom_column_names c)")
    case found: (Some kn)
    then obtain k where kn: "kn = (k, ?n)" "kn \<in> set (custom_column_names c)" by (cases kn) (auto dest: find_SomeD)
    then show ?thesis using named[of k] found by (simp add: column_db_name_def Some)
  next
    case none: None
    have cfg: "k = db" if "(k, x) \<in> set (tc_column_config c)" "custom_name x = Some ?n" for k x
    proof -
      have k: "bt_get (tc_column_config c) k = Some x" using that(1) assms(1)[OF Some] by simp
      moreover have "bt_get (custom_column_names c) k = None"
        using assms(3)[OF Some] k that(2) by (cases x) simp
      ultimately show ?thesis using that(2) by (intro assms(2)) (simp add: column_graphql_name_def Some)
    qed
    show ?thesis
    proof (cases "find (\<lambda>(k, x). custom_name x = Some ?n) (tc_column_config c)")
      case found: (Some kx)
      then obtain k x where "kx = (k, x)" "kx \<in> set (tc_column_config c)" "custom_name x = Some ?n"
        by (cases kx) (auto dest: find_SomeD)
      then show ?thesis using cfg[of k x] none found by (simp add: column_db_name_def Some)
    next
      case cnone: None
      have unnamed: "bt_get (custom_column_names c) db = None"
      proof (rule ccontr)
        assume "bt_get (custom_column_names c) db \<noteq> None"
        then obtain m where "bt_get (custom_column_names c) db = Some m" by blast
        then have "(db, ?n) \<in> set (custom_column_names c)"
          by (simp add: column_graphql_name_def Some map_of_SomeD)
        then show False using none by (auto simp: find_None_iff)
      qed
      have "Option.bind (bt_get (tc_column_config c) db) custom_name = None"
      proof (rule ccontr)
        assume "Option.bind (bt_get (tc_column_config c) db) custom_name \<noteq> None"
        then obtain x m where "bt_get (tc_column_config c) db = Some x" "custom_name x = Some m"
          by (cases "bt_get (tc_column_config c) db") auto
        moreover from this have "?n = m" by (simp add: column_graphql_name_def Some unnamed)
        ultimately show False using cnone by (auto simp: find_None_iff dest: map_of_SomeD)
      qed
      with unnamed have "?n = db" by (simp add: column_graphql_name_def Some)
      then show ?thesis using none cnone by (simp add: column_db_name_def Some)
    qed
  qed
qed (simp add: column_db_name_def column_graphql_name_def)

end
