(* ===== verification/Plan_Context.thy ===== *)
theory Plan_Context
  imports Plan_Catalog
begin

text \<open>
  Sessions, the declarations of tenants and grants (\<open>crates/metadata/src/tenancy.rs\<close> and \<open>iam.rs\<close>), the
  planner, permissions of roles with their inheritance, the context of a table for a role, and the
  targets of relationships (\<open>crates/schema/src/plan.rs\<close>).
\<close>

section \<open>Sessions\<close>

text \<open>The variables of a session in the order in which its hash map is iterated.\<close>

record session =
  se_role :: string
  se_vars :: "(string \<times> string) list"
  se_backend_request :: bool

definition lowercase :: "string \<Rightarrow> string" where
  "lowercase s = map to_ascii_lowercase s"

definition session_var :: "session \<Rightarrow> string \<Rightarrow> string option" where
  "session_var s name = map_of (se_vars s) (lowercase name)"

text \<open>
  The prefix is cut at a byte position. In a string of UTF-8 a prefix of ASCII bytes ends at a
  character, so the check of the boundary decides nothing.
\<close>

definition is_session_var_name :: "string \<Rightarrow> bool" where
  "is_session_var_name name \<longleftrightarrow> lowercase (take 8 name) = ''x-donat-'' \<or> lowercase (take 9 name) = ''x-hasura-''"

text \<open>
  What other crates provide: the text and the parser of JSON, the calendar check of a date and the
  text of a deserialization error.
\<close>

record plan_externs =
  json_display :: "json \<Rightarrow> string"
  parse_json :: "string \<Rightarrow> json option"
  valid_naive_date :: "string \<Rightarrow> bool"
  table_error :: "json \<Rightarrow> string"

definition session_json :: "plan_externs \<Rightarrow> session \<Rightarrow> string" where
  "session_json ext s = json_display ext (JObject (map (\<lambda>(k, v). (k, JString v)) (se_vars s)))"

section \<open>Tenancy and grants\<close>

record tenant_registry =
  tr_table :: qualified_table
  tr_key :: string
  tr_status_column :: string
  tr_serving :: "string list"

record subject_binding =
  sb_column :: string
  sb_variable :: string

record tenant_exemption =
  ex_table :: qualified_table
  ex_shared :: bool
  ex_scope_via :: "string option"

record cross_tenant_read =
  ct_table :: qualified_table
  ct_role :: string
  ct_scoped_by :: subject_binding

record tenancy =
  tn_source :: string
  tn_variable :: string
  tn_key :: string
  tn_registry :: tenant_registry
  tn_keys :: "(qualified_table \<times> string) list"
  tn_exempt :: "tenant_exemption list"
  tn_cross_tenant_reads :: "cross_tenant_read list"

datatype table_scope = ScopeKey string | ScopeShared | ScopeVia string

definition table_scope_of :: "tenancy \<Rightarrow> qualified_table \<Rightarrow> table_scope" where
  "table_scope_of t relation =
     (case find (\<lambda>(r, key). same_table r relation) (tn_keys t) of
        Some (_, key) \<Rightarrow> ScopeKey key
      | None \<Rightarrow>
          (case find (\<lambda>e. same_table (ex_table e) relation) (tn_exempt t) of
             Some e \<Rightarrow> (case ex_scope_via e of Some relationship \<Rightarrow> ScopeVia relationship | None \<Rightarrow> ScopeShared)
           | None \<Rightarrow> ScopeKey (tn_key t)))"

definition cross_tenant_read_of :: "tenancy \<Rightarrow> qualified_table \<Rightarrow> string \<Rightarrow> subject_binding option" where
  "cross_tenant_read_of t relation role =
     map_option ct_scoped_by (find (\<lambda>e. ct_role e = role \<and> same_table (ct_table e) relation) (tn_cross_tenant_reads t))"

record grant_relation =
  gr_table :: qualified_table
  gr_subject :: subject_binding
  gr_tenant :: string
  gr_action :: string
  gr_written_via :: "(qualified_table \<times> string) option"

record action_templates =
  at_select :: string
  at_insert :: string
  at_update :: string
  at_delete :: string

record iam =
  ia_grants :: grant_relation
  ia_governed_roles :: "string list"
  ia_wildcards :: "string list"
  ia_templates :: action_templates
  ia_overrides :: "(qualified_table list \<times> string) list"
  ia_command_default :: string
  ia_command_overrides :: "(string \<times> string) list"
  ia_reserved_actions :: "string list"

datatype iam_operation = ISelect | IInsert | IUpdate | IDelete

text \<open>\<open>str::replace\<close> with a pattern that is not empty.\<close>

function replace :: "string \<Rightarrow> string \<Rightarrow> string \<Rightarrow> string" where
  "replace pat by [] = []"
| "replace pat by (c # s) =
     (if pat \<noteq> [] \<and> take (length pat) (c # s) = pat then by @ replace pat by (drop (length pat) (c # s))
      else c # replace pat by s)"
  by pat_completeness auto
termination
  by (relation "measure (\<lambda>(pat, by, s). length s)") auto

definition governs :: "iam \<Rightarrow> string \<Rightarrow> bool" where
  "governs i role \<longleftrightarrow> role \<in> set (ia_governed_roles i)"

definition resource_for :: "iam \<Rightarrow> qualified_table \<Rightarrow> string" where
  "resource_for i relation =
     (case find (\<lambda>(rs, resource). list_ex (\<lambda>r. same_table r relation) rs) (ia_overrides i) of
        Some (_, resource) \<Rightarrow> resource
      | None \<Rightarrow> name_of relation)"

definition template_of :: "iam \<Rightarrow> iam_operation \<Rightarrow> string" where
  "template_of i operation =
     (case operation of
        ISelect \<Rightarrow> at_select (ia_templates i)
      | IInsert \<Rightarrow> at_insert (ia_templates i)
      | IUpdate \<Rightarrow> at_update (ia_templates i)
      | IDelete \<Rightarrow> at_delete (ia_templates i))"

text \<open>The elements of a set of strings in the order of \<open>BTreeSet\<close>.\<close>

definition sorted_set :: "string list \<Rightarrow> string list" where
  "sorted_set xs = map fst (bt_collect (map (\<lambda>x. (x, ())) xs))"

definition accepted_actions :: "iam \<Rightarrow> qualified_table \<Rightarrow> iam_operation \<Rightarrow> string list" where
  "accepted_actions i relation operation =
     (let resource = resource_for i relation;
          exact = replace ''{resource}'' resource (replace ''{table}'' resource (template_of i operation));
          verb = (case split_once CHR '':'' exact of Some (_, v) \<Rightarrow> v | None \<Rightarrow> []) in
      sorted_set (exact # map (\<lambda>w. replace ''{verb}'' verb (replace ''{table}'' resource (replace ''{resource}'' resource w)))
        (ia_wildcards i)))"

definition accepted_command_actions :: "iam \<Rightarrow> string \<Rightarrow> string list" where
  "accepted_command_actions i command =
     (let exact = (case find (\<lambda>(c, action). c = command) (ia_command_overrides i) of
            Some (_, action) \<Rightarrow> action
          | None \<Rightarrow> replace ''{command}'' command (ia_command_default i));
          (resource, verb) = (case split_once CHR '':'' exact of Some p \<Rightarrow> p | None \<Rightarrow> (exact, [])) in
      sorted_set (exact # map (\<lambda>w. replace ''{verb}'' verb (replace ''{command}'' resource
        (replace ''{table}'' resource (replace ''{resource}'' resource w)))) (ia_wildcards i)))"

section \<open>The planner\<close>

datatype json_ops = NoJson | JsonText | Jsonb

text \<open>Of a backend's capabilities, those that filters depend on.\<close>

record capabilities =
  json_operators :: json_ops
  geo :: bool
  relationships :: bool
  regex_ops :: bool

record planner =
  pl_inherited_roles :: "(string \<times> string list) list"
  pl_catalog :: db_catalog
  pl_tables :: "table_entry list"
  pl_capabilities :: capabilities
  pl_tenancy :: "tenancy option"
  pl_iam :: "iam option"

text \<open>The index of tables by name: of two entries for one name the later one counts.\<close>

definition by_table :: "planner \<Rightarrow> qualified_table \<Rightarrow> table_entry option" where
  "by_table pl relation =
     map_of (rev (map (\<lambda>entry. (table_to_string (te_table entry), entry)) (pl_tables pl))) (table_to_string relation)"

section \<open>Roles\<close>

text \<open>
  The permissions of a role: its own, or those of the roles it inherits from. The set of roles being
  visited is restored when a role has been visited, so it is passed down and not on.
\<close>

function role_select_perms_from ::
  "(string \<times> string list) list \<Rightarrow> (string \<times> select_permission) list \<Rightarrow> string \<Rightarrow> string set \<Rightarrow> select_permission list" where
  "role_select_perms_from inherited perms role visiting =
     (case map_of perms role of
        Some permission \<Rightarrow> [permission]
      | None \<Rightarrow>
          if role \<in> visiting then []
          else (case map_of inherited role of
                  None \<Rightarrow> []
                | Some parents \<Rightarrow>
                    concat (map (\<lambda>parent. role_select_perms_from inherited perms parent (insert role visiting)) parents)))"
  by pat_completeness auto
termination
proof (relation "measure (\<lambda>(inherited, perms, role, visiting). card (fst ` set inherited - visiting))")
  fix inherited perms role visiting and parents :: "string list" and parent
  assume "role \<notin> visiting" "map_of inherited role = Some parents"
  then have "role \<in> fst ` set inherited - visiting" by (auto dest: map_of_SomeD intro: rev_image_eqI)
  then have "card (fst ` set inherited - insert role visiting) < card (fst ` set inherited - visiting)"
    by (intro psubset_card_mono) auto
  then show "((inherited, perms, parent, insert role visiting), inherited, perms, role, visiting)
      \<in> measure (\<lambda>(inherited, perms, role, visiting). card (fst ` set inherited - visiting))" by simp
qed simp

declare role_select_perms_from.simps [simp del]

definition role_select_perms :: "planner \<Rightarrow> table_entry \<Rightarrow> string \<Rightarrow> select_permission list" where
  "role_select_perms pl entry role = role_select_perms_from (pl_inherited_roles pl) (te_select_permissions entry) role {}"

section \<open>Contexts of a table\<close>

text \<open>No permissions mean the context of a filter from the metadata, which may read every column.\<close>

record table_ctx =
  tx_entry :: table_entry
  tx_info :: table_info
  tx_perms :: "select_permission list"
  tx_type_name :: string

fun perm_grants_column :: "string \<Rightarrow> select_permission \<Rightarrow> bool" where
  "perm_grants_column name p = (case sp_columns p of Star \<Rightarrow> True | Columns cols \<Rightarrow> name \<in> set cols)"

definition column_allowed :: "table_ctx \<Rightarrow> string \<Rightarrow> bool" where
  "column_allowed ctx name \<longleftrightarrow>
     column (tx_info ctx) name \<noteq> None \<and> (tx_perms ctx = [] \<or> list_ex (perm_grants_column name) (tx_perms ctx))"

definition ctx_column_db_name :: "table_ctx \<Rightarrow> string \<Rightarrow> string option" where
  "ctx_column_db_name ctx name =
     (let db_name = column_db_name (tx_entry ctx) name in
      map_option (\<lambda>_. db_name) (column (tx_info ctx) db_name))"

definition column_db_name_for_filter :: "table_ctx \<Rightarrow> string \<Rightarrow> bool \<Rightarrow> string option" where
  "column_db_name_for_filter ctx name is_permission =
     (if is_permission \<and> column (tx_info ctx) name \<noteq> None then Some name else ctx_column_db_name ctx name)"

definition column_allowed_for_filter :: "table_ctx \<Rightarrow> string \<Rightarrow> bool \<Rightarrow> bool" where
  "column_allowed_for_filter ctx name is_permission \<longleftrightarrow>
     (case column_db_name_for_filter ctx name is_permission of
        None \<Rightarrow> False
      | Some db_name \<Rightarrow> if is_permission then column (tx_info ctx) db_name \<noteq> None else column_allowed ctx db_name)"

text \<open>A column that a filter may name has a database name and a description.\<close>

lemma filter_column_known:
  assumes "column_allowed_for_filter ctx name is_permission"
  obtains db info where "column_db_name_for_filter ctx name is_permission = Some db" "column (tx_info ctx) db = Some info"
    "\<not> is_permission \<Longrightarrow> column_allowed ctx db"
  using assms by (cases is_permission) (auto simp: column_allowed_for_filter_def column_allowed_def split: option.splits)

definition filter_ctx :: "planner \<Rightarrow> table_entry \<Rightarrow> table_ctx option" where
  "filter_ctx pl entry =
     map_option (\<lambda>info. \<lparr>tx_entry = entry, tx_info = info, tx_perms = [], tx_type_name = table_base_name entry\<rparr>)
       (catalog_table (pl_catalog pl) (schema_of (te_table entry)) (name_of (te_table entry)))"

definition table_ctx_of :: "planner \<Rightarrow> table_entry \<Rightarrow> string \<Rightarrow> table_ctx option" where
  "table_ctx_of pl entry role =
     Option.bind (catalog_table (pl_catalog pl) (schema_of (te_table entry)) (name_of (te_table entry))) (\<lambda>info.
       let perms = role_select_perms pl entry role in
       if perms = [] then None
       else Some \<lparr>tx_entry = entry, tx_info = info, tx_perms = perms, tx_type_name = table_base_name entry\<rparr>)"

definition filter_ctx_of :: "table_ctx \<Rightarrow> table_ctx" where
  "filter_ctx_of ctx = ctx\<lparr>tx_perms := []\<rparr>"

definition relationship_ctx :: "planner \<Rightarrow> session \<Rightarrow> bool \<Rightarrow> qualified_table \<Rightarrow> table_ctx option" where
  "relationship_ctx pl s is_permission relation =
     Option.bind (by_table pl relation) (\<lambda>entry.
       if is_permission then filter_ctx pl entry else table_ctx_of pl entry (se_role s))"

section \<open>Relationships\<close>

type_synonym join = "(string \<times> string) list"

definition comma_separated :: "string list \<Rightarrow> string" where
  "comma_separated xs = concat (map (\<lambda>x. '', '' @ x) xs)"

fun join_names :: "string list \<Rightarrow> string" where
  "join_names [] = []"
| "join_names (x # xs) = x @ comma_separated xs"

definition quoted :: "string \<Rightarrow> string" where
  "quoted s = [CHR 0x27] @ s @ [CHR 0x27]"

definition key_covers :: "string list \<Rightarrow> foreign_key \<Rightarrow> bool" where
  "key_covers cols fk \<longleftrightarrow>
     length (fk_column_mapping fk) = length cols \<and> list_all (\<lambda>c. bt_contains (fk_column_mapping fk) c) cols"

definition remote_key_columns :: "remote_key \<Rightarrow> string list" where
  "remote_key_columns k = (case rk_column k of Some c \<Rightarrow> [c] | None \<Rightarrow> []) @ (case rk_columns k of Some cs \<Rightarrow> cs | None \<Rightarrow> [])"

definition remote_info ::
  "planner \<Rightarrow> qualified_table \<Rightarrow> string \<Rightarrow> string \<Rightarrow> table_info planned" where
  "remote_info pl relation rel_name path =
     ok_or (invalid path (''table '' @ quoted (table_to_string relation) @ '' not found for relationship '' @ quoted rel_name))
       (catalog_table (pl_catalog pl) (schema_of relation) (name_of relation))"

definition flip_join :: "string btree_map \<Rightarrow> join" where
  "flip_join mapping = map (\<lambda>(remote, local_column). (local_column, remote)) mapping"

definition remote_fk_object_rel_target ::
  "planner \<Rightarrow> table_ctx \<Rightarrow> remote_key \<Rightarrow> string \<Rightarrow> string \<Rightarrow> (qualified_table \<times> join) planned" where
  "remote_fk_object_rel_target pl ctx key rel_name path =
     (let cols = remote_key_columns key; relation = te_table (tx_entry ctx) in
      res_bind (remote_info pl (rk_table key) rel_name path) (\<lambda>info.
      res_map (\<lambda>fk. (rk_table key, flip_join (fk_column_mapping fk)))
        (ok_or (invalid path (''no foreign key from '' @ quoted (table_to_string (rk_table key)) @ '' on ('' @ join_names cols @
            '') to '' @ quoted (table_to_string relation) @ '' for relationship '' @ quoted rel_name))
          (find (\<lambda>fk. fk_referenced_schema fk = schema_of relation \<and> fk_referenced_table fk = name_of relation \<and>
             key_covers cols fk) (ti_foreign_keys info)))))"

definition object_rel_target ::
  "planner \<Rightarrow> table_ctx \<Rightarrow> object_relationship \<Rightarrow> string \<Rightarrow> (qualified_table \<times> join) planned" where
  "object_rel_target pl ctx rel path =
     (let local_target = (\<lambda>cols.
        res_map (\<lambda>fk. (Qualified (fk_referenced_schema fk) (fk_referenced_table fk), fk_column_mapping fk))
          (ok_or (invalid path (''no foreign key constraint on ('' @ join_names cols @ '') for relationship '' @ quoted (or_name rel)))
            (find (key_covers cols) (ti_foreign_keys (tx_info ctx))))) in
      case or_manual rel of
        Some manual \<Rightarrow> Ok (remote_table manual, column_mapping manual)
      | None \<Rightarrow>
          (case or_foreign_key rel of
             Some (Single c) \<Rightarrow> local_target [c]
           | Some (Multiple cs) \<Rightarrow> local_target cs
           | Some (RemoteKey key) \<Rightarrow> remote_fk_object_rel_target pl ctx key (or_name rel) path
           | None \<Rightarrow> Err (invalid path (''relationship '' @ quoted (or_name rel) @ '' has no using clause''))))"

definition array_rel_target ::
  "planner \<Rightarrow> table_ctx \<Rightarrow> array_relationship \<Rightarrow> string \<Rightarrow> (qualified_table \<times> join) planned" where
  "array_rel_target pl ctx rel path =
     (case ar_manual rel of
        Some manual \<Rightarrow> Ok (remote_table manual, column_mapping manual)
      | None \<Rightarrow>
          (case ar_foreign_key rel of
             Some key \<Rightarrow>
               (let cols = remote_key_columns key in
                res_bind (remote_info pl (rk_table key) (ar_name rel) path) (\<lambda>info.
                res_map (\<lambda>fk. (rk_table key, flip_join (fk_column_mapping fk)))
                  (ok_or (invalid path (''no foreign key constraint on '' @ table_to_string (rk_table key) @ ''('' @ join_names cols @
                      '') for relationship '' @ quoted (ar_name rel)))
                    (find (\<lambda>fk. fk_referenced_schema fk = ti_schema (tx_info ctx) \<and> fk_referenced_table fk = ti_name (tx_info ctx) \<and>
                       key_covers cols fk) (ti_foreign_keys info)))))
           | None \<Rightarrow> Err (invalid path (''relationship '' @ quoted (ar_name rel) @ '' has no using clause''))))"

fun res_ok :: "('a, 'e) result \<Rightarrow> 'a option" where
  "res_ok (Ok x) = Some x"
| "res_ok (Err e) = None"

lemma res_ok_simps [simp]:
  "res_ok (res_bind r f) = Option.bind (res_ok r) (\<lambda>x. res_ok (f x))"
  "res_ok (res_map g r) = map_option g (res_ok r)"
  "res_ok (ok_or e x) = x"
  by (cases r; simp)+ (cases x; simp)

definition relationship_target :: "planner \<Rightarrow> table_ctx \<Rightarrow> string \<Rightarrow> string \<Rightarrow> (qualified_table \<times> join) option" where
  "relationship_target pl ctx name path =
     (if \<not> relationships (pl_capabilities pl) then None
      else case find (\<lambda>r. or_name r = name) (te_object_relationships (tx_entry ctx)) of
        Some rel \<Rightarrow> res_ok (object_rel_target pl ctx rel path)
      | None \<Rightarrow>
          (case find (\<lambda>r. ar_name r = name) (te_array_relationships (tx_entry ctx)) of
             Some rel \<Rightarrow> res_ok (array_rel_target pl ctx rel path)
           | None \<Rightarrow> None))"

text \<open>The path of a request appears in errors only.\<close>

lemma relationship_target_path: "relationship_target pl ctx name path = relationship_target pl ctx name path'"
  by (simp add: relationship_target_def object_rel_target_def array_rel_target_def remote_fk_object_rel_target_def
      remote_info_def Let_def split: option.splits object_key.splits)

end
