(* ===== verification/Plan_Predicate.thy ===== *)
theory Plan_Predicate
  imports Plan_Context
begin

text \<open>
  Filters: the predicates of the intermediate representation (\<open>crates/ir/src/lib.rs\<close>) and the parser of
  boolean expressions of \<open>crates/schema/src/predicate.rs\<close>, for the filters of users and for those of the
  metadata.
\<close>

section \<open>Predicates\<close>

record ir_table =
  it_schema :: string
  it_name :: string

datatype scalar = ScalarJson json

fun scalar_json :: "scalar \<Rightarrow> json" where
  "scalar_json (ScalarJson v) = v"

datatype compare_operator =
    OpEq scalar | OpNeq scalar | OpGt scalar | OpLt scalar | OpGte scalar | OpLte scalar
  | OpIn "scalar list" | OpNin "scalar list"
  | OpLike scalar | OpNlike scalar | OpIlike scalar | OpNilike scalar | OpSimilar scalar | OpNsimilar scalar
  | OpRegex scalar | OpIregex scalar | OpNregex scalar | OpNiregex scalar
  | OpIsNull bool
  | OpCompareColumn string string bool
  | OpCompareColumnRel string ir_table join string
  | OpCompareStepColumn string string
  | OpHasKey scalar | OpHasKeysAny "string list" | OpHasKeysAll "string list"
  | OpContains scalar | OpContainedIn scalar
  | OpSt string scalar | OpStDWithin scalar scalar bool

datatype row_function_arg = ArgRow | ArgSessionJson string | ArgValue scalar string

datatype bool_exp =
    BAnd "bool_exp list"
  | BOr "bool_exp list"
  | BNot bool_exp
  | BCompare string string compare_operator
  | BRelationship ir_table join bool_exp
  | BComputedCompare string string "row_function_arg list" string compare_operator
  | BRowFunctionExists string string "row_function_arg list" bool_exp
  | BExists ir_table bool_exp

definition table_of :: "qualified_table \<Rightarrow> ir_table" where
  "table_of t = \<lparr>it_schema = schema_of t, it_name = name_of t\<rparr>"

text \<open>A list of conjuncts, where one of them stands for itself.\<close>

fun conjunction :: "bool_exp list \<Rightarrow> bool_exp" where
  "conjunction [e] = e"
| "conjunction es = BAnd es"

section \<open>Operators\<close>

datatype predicate_operator =
    PEq | PNeq | PGt | PLt | PGte | PLte | PIn | PNin | PLike | PNlike | PIlike | PNilike | PSimilar | PNsimilar
  | PRegex | PIregex | PNregex | PNiregex | PIsNull | PCeq | PCne | PCgt | PClt | PCgte | PClte
  | PHasKey | PHasKeysAny | PHasKeysAll | PContains | PContainedIn
  | PStContains | PStCrosses | PStEquals | PStIntersects | PStOverlaps | PStTouches | PStWithin | PSt3dIntersects
  | PStDWithin bool

datatype operand_kind = KScalar | KList | KBoolean | KString | KStringList | KNone | KDistance

fun session_operand_kind :: "predicate_operator \<Rightarrow> operand_kind" where
  "session_operand_kind PIn = KList"
| "session_operand_kind PNin = KList"
| "session_operand_kind PIsNull = KBoolean"
| "session_operand_kind PHasKey = KString"
| "session_operand_kind PHasKeysAny = KStringList"
| "session_operand_kind PHasKeysAll = KStringList"
| "session_operand_kind PCeq = KNone"
| "session_operand_kind PCne = KNone"
| "session_operand_kind PCgt = KNone"
| "session_operand_kind PClt = KNone"
| "session_operand_kind PCgte = KNone"
| "session_operand_kind PClte = KNone"
| "session_operand_kind (PStDWithin _) = KDistance"
| "session_operand_kind _ = KScalar"

definition normalize_logical_operator :: "string \<Rightarrow> string" where
  "normalize_logical_operator name =
     (if name = ''$and'' then ''_and'' else if name = ''$or'' then ''_or'' else if name = ''$not'' then ''_not'' else name)"

fun normalize_predicate_operator :: "string \<Rightarrow> string" where
  "normalize_predicate_operator (c # rest) = (if c = CHR ''$'' then CHR ''_'' # rest else c # rest)"
| "normalize_predicate_operator [] = []"

definition basic_operators :: "(string \<times> predicate_operator) list" where
  "basic_operators =
     [(''_eq'', PEq), (''_neq'', PNeq), (''_ne'', PNeq), (''_gt'', PGt), (''_lt'', PLt), (''_gte'', PGte), (''_lte'', PLte),
      (''_in'', PIn), (''_nin'', PNin), (''_like'', PLike), (''_nlike'', PNlike), (''_ilike'', PIlike), (''_nilike'', PNilike),
      (''_is_null'', PIsNull), (''_ceq'', PCeq), (''_cne'', PCne), (''_cneq'', PCne), (''_cgt'', PCgt), (''_clt'', PClt),
      (''_cgte'', PCgte), (''_clte'', PClte)]"

definition regex_operators :: "(string \<times> predicate_operator) list" where
  "regex_operators =
     [(''_similar'', PSimilar), (''_nsimilar'', PNsimilar), (''_regex'', PRegex), (''_iregex'', PIregex),
      (''_nregex'', PNregex), (''_niregex'', PNiregex)]"

definition jsonb_operators :: "(string \<times> predicate_operator) list" where
  "jsonb_operators =
     [(''_has_key'', PHasKey), (''_has_keys_any'', PHasKeysAny), (''_has_keys_all'', PHasKeysAll),
      (''_contains'', PContains), (''_contained_in'', PContainedIn)]"

definition geo_operators :: "(string \<times> predicate_operator) list" where
  "geo_operators =
     [(''_st_contains'', PStContains), (''_st_crosses'', PStCrosses), (''_st_equals'', PStEquals),
      (''_st_intersects'', PStIntersects), (''_st_overlaps'', PStOverlaps), (''_st_touches'', PStTouches),
      (''_st_within'', PStWithin), (''_st_3d_intersects'', PSt3dIntersects), (''_st_d_within'', PStDWithin False),
      (''_st_3d_d_within'', PStDWithin True)]"

definition classify_predicate_operator :: "capabilities \<Rightarrow> string \<Rightarrow> predicate_operator option" where
  "classify_predicate_operator caps name =
     map_of (basic_operators @ (if regex_ops caps then regex_operators else []) @
       (if json_operators caps = Jsonb then jsonb_operators else []) @ (if geo caps then geo_operators else [])) name"

section \<open>Operands\<close>

text \<open>What all the calls for one filter share: whether it is one of the metadata, and the path of errors.\<close>

record filter_env =
  fv_planner :: planner
  fv_externs :: plan_externs
  fv_session :: session
  fv_is_permission :: bool
  fv_path :: string

definition double_quoted :: "string \<Rightarrow> string" where
  "double_quoted s = [CHR 0x22] @ s @ [CHR 0x22]"

definition resolve_session :: "session \<Rightarrow> bool \<Rightarrow> json \<Rightarrow> json planned" where
  "resolve_session s is_permission v =
     (if \<not> is_permission then Ok v
      else case v of
        JString name \<Rightarrow>
          if is_session_var_name name then
            (case session_var s name of
               Some text \<Rightarrow> Ok (JString text)
             | None \<Rightarrow> Err (plan_error_new ''$'' ''not-found'' (''missing session variable: '' @ double_quoted (lowercase name))))
          else Ok v
      | _ \<Rightarrow> Ok v)"

definition validate_comparison_scalar :: "plan_externs \<Rightarrow> string \<Rightarrow> string \<Rightarrow> json \<Rightarrow> scalar planned" where
  "validate_comparison_scalar ext scalar_name path v =
     (let valid_date = (case v of JNull \<Rightarrow> True | JString text \<Rightarrow> valid_naive_date ext text | _ \<Rightarrow> False) in
      if scalar_name = ''date'' \<and> \<not> valid_date
      then Err (invalid path (''expected a date, but found '' @ json_display ext v))
      else Ok (ScalarJson v))"

definition trim :: "string \<Rightarrow> string" where
  "trim s = concat (rev (dropWhile is_whitespace (rev (dropWhile is_whitespace (chars s)))))"

definition trim_quotes :: "string \<Rightarrow> string" where
  "trim_quotes s = rev (dropWhile (\<lambda>c. c = CHR 0x22) (rev (dropWhile (\<lambda>c. c = CHR 0x22) s)))"

fun split_on :: "char \<Rightarrow> string \<Rightarrow> string list" where
  "split_on sep [] = [[]]"
| "split_on sep (c # s) =
     (if c = sep then [] # split_on sep s
      else case split_on sep s of [] \<Rightarrow> [[c]] | part # parts \<Rightarrow> (c # part) # parts)"

definition braced :: "string \<Rightarrow> string option" where
  "braced s = (if 2 \<le> length s \<and> hd s = CHR 0x7B \<and> last s = CHR 0x7D then Some (butlast (tl s)) else None)"

definition parse_array_literal :: "plan_externs \<Rightarrow> string \<Rightarrow> json list option" where
  "parse_array_literal ext s =
     (case parse_json ext s of
        Some (JArray items) \<Rightarrow> Some items
      | _ \<Rightarrow>
          map_option (\<lambda>inner. if trim inner = [] then []
              else map (\<lambda>part. JString (trim_quotes (trim part))) (split_on CHR '','' inner)) (braced (trim s)))"

definition scalar_operand :: "filter_env \<Rightarrow> string \<Rightarrow> string \<Rightarrow> json \<Rightarrow> scalar planned" where
  "scalar_operand env scalar_name op_path v =
     res_bind (resolve_session (fv_session env) (fv_is_permission env) v)
       (validate_comparison_scalar (fv_externs env) scalar_name op_path)"

definition list_operand :: "filter_env \<Rightarrow> string \<Rightarrow> string \<Rightarrow> json \<Rightarrow> scalar list planned" where
  "list_operand env scalar_name op_path v =
     res_bind (resolve_session (fv_session env) (fv_is_permission env) v) (\<lambda>resolved.
     res_bind (case resolved of
         JArray items \<Rightarrow> Ok items
       | JString s \<Rightarrow> ok_or (invalid op_path ''expected an array of values'') (parse_array_literal (fv_externs env) s)
       | _ \<Rightarrow> Err (invalid op_path ''expected an array of values''))
       (collect_res (validate_comparison_scalar (fv_externs env) scalar_name op_path)))"

definition string_list_operand :: "filter_env \<Rightarrow> string \<Rightarrow> string \<Rightarrow> json \<Rightarrow> string list planned" where
  "string_list_operand env scalar_name op_path v =
     res_map (map (\<lambda>s. case scalar_json s of JString text \<Rightarrow> text | other \<Rightarrow> json_display (fv_externs env) other))
       (list_operand env scalar_name op_path v)"

definition parse_is_null_operand :: "json \<Rightarrow> json \<Rightarrow> bool \<Rightarrow> string \<Rightarrow> bool planned" where
  "parse_is_null_operand original resolved is_permission op_path =
     (case (as_bool resolved, original, resolved) of
        (Some b, _, _) \<Rightarrow> Ok b
      | (None, JString name, JString text) \<Rightarrow>
          if is_permission \<and> is_session_var_name name then
            (if lowercase text = ''true'' then Ok True
             else if lowercase text = ''false'' then Ok False
             else Err (invalid op_path ''expected a boolean''))
          else Ok False
      | _ \<Rightarrow> Ok False)"

text \<open>The operand of a comparison of columns: a column, a column of the root, or one of a related row.\<close>

definition column_compare :: "filter_env \<Rightarrow> table_ctx \<Rightarrow> string \<Rightarrow> string \<Rightarrow> json \<Rightarrow> compare_operator planned" where
  "column_compare env ctx path sql_op v =
     (let refused = Err (invalid path ''expected a column name'');
          db_name = (\<lambda>c. case ctx_column_db_name ctx c of Some db \<Rightarrow> db | None \<Rightarrow> c) in
      case v of
        JString c \<Rightarrow> Ok (OpCompareColumn sql_op (db_name c) False)
      | JArray items \<Rightarrow>
          (case collect_opt as_str items of
             None \<Rightarrow> refused
           | Some [c] \<Rightarrow> Ok (OpCompareColumn sql_op (db_name c) False)
           | Some [rel, c] \<Rightarrow>
               if rel = ''$'' then Ok (OpCompareColumn sql_op (db_name c) True)
               else (case relationship_target (fv_planner env) ctx rel path of
                       None \<Rightarrow> Err (invalid path (''relationship '' @ quoted rel @ '' not found''))
                     | Some (relation, pairs) \<Rightarrow> Ok (OpCompareColumnRel sql_op (table_of relation) pairs c))
           | Some _ \<Rightarrow> refused)
      | _ \<Rightarrow> refused)"

definition d_within_operands :: "string \<Rightarrow> json \<Rightarrow> (json \<times> json) planned" where
  "d_within_operands path v =
     res_bind (ok_or (invalid path ''expected { distance, from } for _st_d_within'') (as_object v)) (\<lambda>members.
     res_bind (ok_or (invalid path (''missing '' @ quoted ''distance'' @ '' in _st_d_within'')) (map_of members ''distance'')) (\<lambda>distance.
     res_map (\<lambda>from_value. (distance, from_value))
       (ok_or (invalid path (''missing '' @ quoted ''from'' @ '' in _st_d_within'')) (map_of members ''from''))))"

definition parse_operator ::
  "filter_env \<Rightarrow> table_ctx \<Rightarrow> string \<Rightarrow> string \<Rightarrow> string \<Rightarrow> predicate_operator \<Rightarrow> json \<Rightarrow> compare_operator planned" where
  "parse_operator env ctx scalar_name path op_path operator v =
     (let scalar_of = (\<lambda>f. res_map f (scalar_operand env scalar_name op_path v));
          list_of = (\<lambda>f. res_map f (list_operand env scalar_name op_path v));
          strings_of = (\<lambda>f. res_map f (string_list_operand env scalar_name op_path v));
          column_of = (\<lambda>sql_op. column_compare env ctx path sql_op v) in
      case operator of
        PEq \<Rightarrow> scalar_of OpEq | PNeq \<Rightarrow> scalar_of OpNeq | PGt \<Rightarrow> scalar_of OpGt | PLt \<Rightarrow> scalar_of OpLt
      | PGte \<Rightarrow> scalar_of OpGte | PLte \<Rightarrow> scalar_of OpLte | PIn \<Rightarrow> list_of OpIn | PNin \<Rightarrow> list_of OpNin
      | PLike \<Rightarrow> scalar_of OpLike | PNlike \<Rightarrow> scalar_of OpNlike | PIlike \<Rightarrow> scalar_of OpIlike | PNilike \<Rightarrow> scalar_of OpNilike
      | PSimilar \<Rightarrow> scalar_of OpSimilar | PNsimilar \<Rightarrow> scalar_of OpNsimilar | PRegex \<Rightarrow> scalar_of OpRegex
      | PIregex \<Rightarrow> scalar_of OpIregex | PNregex \<Rightarrow> scalar_of OpNregex | PNiregex \<Rightarrow> scalar_of OpNiregex
      | PIsNull \<Rightarrow>
          res_bind (resolve_session (fv_session env) (fv_is_permission env) v) (\<lambda>resolved.
            res_map OpIsNull (parse_is_null_operand v resolved (fv_is_permission env) op_path))
      | PCeq \<Rightarrow> column_of ''='' | PCne \<Rightarrow> column_of ''<>'' | PCgt \<Rightarrow> column_of ''>'' | PClt \<Rightarrow> column_of ''<''
      | PCgte \<Rightarrow> column_of ''>='' | PClte \<Rightarrow> column_of ''<=''
      | PHasKey \<Rightarrow> scalar_of OpHasKey | PHasKeysAny \<Rightarrow> strings_of OpHasKeysAny | PHasKeysAll \<Rightarrow> strings_of OpHasKeysAll
      | PContains \<Rightarrow> scalar_of OpContains | PContainedIn \<Rightarrow> scalar_of OpContainedIn
      | PStContains \<Rightarrow> scalar_of (OpSt ''ST_Contains'') | PStCrosses \<Rightarrow> scalar_of (OpSt ''ST_Crosses'')
      | PStEquals \<Rightarrow> scalar_of (OpSt ''ST_Equals'') | PStIntersects \<Rightarrow> scalar_of (OpSt ''ST_Intersects'')
      | PStOverlaps \<Rightarrow> scalar_of (OpSt ''ST_Overlaps'') | PStTouches \<Rightarrow> scalar_of (OpSt ''ST_Touches'')
      | PStWithin \<Rightarrow> scalar_of (OpSt ''ST_Within'') | PSt3dIntersects \<Rightarrow> scalar_of (OpSt ''ST_3DIntersects'')
      | PStDWithin three_d \<Rightarrow>
          res_bind (d_within_operands path v) (\<lambda>(distance, from_value).
          res_bind (scalar_operand env scalar_name op_path distance) (\<lambda>d.
          res_map (\<lambda>f. OpStDWithin d f three_d) (scalar_operand env scalar_name op_path from_value))))"

definition parse_ops ::
  "filter_env \<Rightarrow> table_ctx \<Rightarrow> string \<Rightarrow> string \<Rightarrow> string \<Rightarrow> json \<Rightarrow> compare_operator list planned" where
  "parse_ops env ctx column_name scalar_name path v =
     (case v of
        JObject ops \<Rightarrow>
          collect_res (\<lambda>(raw_name, operand).
            let op_name = normalize_predicate_operator raw_name in
            case classify_predicate_operator (pl_capabilities (fv_planner env)) op_name of
              None \<Rightarrow> Err (invalid path (''unexpected operator '' @ double_quoted op_name @ '' for column '' @ quoted column_name))
            | Some operator \<Rightarrow> parse_operator env ctx scalar_name path (path @ ''.'' @ op_name) operator operand) ops
      | _ \<Rightarrow> res_map (\<lambda>resolved. [OpEq (ScalarJson resolved)]) (resolve_session (fv_session env) (fv_is_permission env) v))"

section \<open>Filters\<close>

definition json_get :: "json \<Rightarrow> string \<Rightarrow> json option" where
  "json_get v key = Option.bind (as_object v) (\<lambda>members. map_of members key)"

lemma json_get_size: "json_get v key = Some w \<Longrightarrow> size w < size v"
proof -
  assume "json_get v key = Some w"
  then obtain ms where "v = JObject ms" "(key, w) \<in> set ms"
    by (cases v) (auto simp: json_get_def dest: map_of_SomeD)
  then show ?thesis using size_list_estimation'[of "(key, w)" ms "size w" "size_prod (\<lambda>_. 0) size"] by simp
qed

definition exists_target :: "filter_env \<Rightarrow> json \<Rightarrow> (qualified_table \<times> json \<times> table_ctx) planned" where
  "exists_target env v =
     (let path = fv_path env in
      res_bind (ok_or (invalid path ''_exists needs a _table'') (json_get v ''_table'')) (\<lambda>table_value.
      res_bind (ok_or (invalid path (''bad _exists table: '' @ table_error (fv_externs env) table_value))
        (qualified_table_of_json table_value)) (\<lambda>relation.
      res_bind (ok_or (invalid path ''_exists needs a _where'') (json_get v ''_where'')) (\<lambda>where_value.
      res_map (\<lambda>remote. (relation, where_value, remote))
        (ok_or (invalid path (''table '' @ double_quoted (table_to_string relation) @ '' not found in _exists''))
          (relationship_ctx (fv_planner env) (fv_session env) (fv_is_permission env) relation))))))"

definition field_not_found :: "filter_env \<Rightarrow> table_ctx \<Rightarrow> string \<Rightarrow> plan_failure" where
  "field_not_found env ctx name =
     invalid (fv_path env) (''field '' @ quoted name @ '' not found in type: '' @ quoted (tx_type_name ctx @ ''_bool_exp''))"

definition remote_ctx :: "filter_env \<Rightarrow> table_ctx \<Rightarrow> string \<Rightarrow> qualified_table \<Rightarrow> table_ctx planned" where
  "remote_ctx env ctx name relation =
     ok_or (field_not_found env ctx name) (relationship_ctx (fv_planner env) (fv_session env) (fv_is_permission env) relation)"

text \<open>What the name of a field that is not logical stands for. The two \<open>expect\<close> repeat the guard's lookups.\<close>

datatype filter_field = FieldColumn string column_info | FieldComputed computed_field | FieldRelationship

definition filter_field_of :: "filter_env \<Rightarrow> table_ctx \<Rightarrow> string \<Rightarrow> filter_field planned" where
  "filter_field_of env ctx name =
     (if column_allowed_for_filter ctx name (fv_is_permission env) then
        res_bind (ok_or (Panicked ''column existence checked by column_allowed_for_filter'')
          (column_db_name_for_filter ctx name (fv_is_permission env))) (\<lambda>db.
        res_map (FieldColumn db) (ok_or (Panicked ''unwrap on a None value'') (column (tx_info ctx) db)))
      else case find (\<lambda>c. cf_name c = name) (te_computed_fields (tx_entry ctx)) of
        Some computed \<Rightarrow> Ok (FieldComputed computed)
      | None \<Rightarrow> Ok FieldRelationship)"

lemma filter_field_total: "filter_field_of env ctx name \<noteq> Err e"
proof (cases "column_allowed_for_filter ctx name (fv_is_permission env)")
  case True
  then show ?thesis by (rule filter_column_known) (simp add: filter_field_of_def True)
qed (simp add: filter_field_of_def split: option.split)

definition relationship_of :: "filter_env \<Rightarrow> table_ctx \<Rightarrow> string \<Rightarrow> (qualified_table \<times> join \<times> table_ctx) planned" where
  "relationship_of env ctx name =
     res_bind (ok_or (field_not_found env ctx name) (relationship_target (fv_planner env) ctx name (fv_path env))) (\<lambda>(relation, pairs).
     res_map (\<lambda>remote. (relation, pairs, remote)) (remote_ctx env ctx name relation))"

definition computed_function :: "filter_env \<Rightarrow> computed_field \<Rightarrow> function_info planned" where
  "computed_function env computed =
     ok_or (invalid (fv_path env) (''function for computed field '' @ quoted (cf_name computed) @ '' not found''))
       (catalog_function (pl_catalog (fv_planner env)) (schema_of (cf_function computed)) (name_of (cf_function computed)))"

definition computed_args :: "filter_env \<Rightarrow> computed_field \<Rightarrow> function_info \<Rightarrow> row_function_arg list" where
  "computed_args env computed f =
     map (\<lambda>a. if fa_name a \<noteq> None \<and> fa_name a = cf_session_argument computed
              then ArgSessionJson (session_json (fv_externs env) (fv_session env)) else ArgRow) (fi_args f)"

definition scalar_result :: "function_info \<Rightarrow> string" where
  "scalar_result f = (case fi_returns_scalar f of Some t \<Rightarrow> t | None \<Rightarrow> ''text'')"

text \<open>
  In the filter of a user, the rows of another table are those that the user may see: the row filter
  of that table, which \<open>row_filter\<close> computes, is added to the condition on it.
\<close>

type_synonym row_filter = "table_ctx \<Rightarrow> bool_exp option planned"

definition restrict_rows :: "filter_env \<Rightarrow> row_filter \<Rightarrow> table_ctx \<Rightarrow> bool_exp \<Rightarrow> bool_exp planned" where
  "restrict_rows env row_filter remote inner =
     (if fv_is_permission env then Ok inner
      else res_map (\<lambda>permission. case permission of Some p \<Rightarrow> BAnd [inner, p] | None \<Rightarrow> inner) (row_filter remote))"

definition column_predicate :: "filter_env \<Rightarrow> table_ctx \<Rightarrow> string \<Rightarrow> string \<Rightarrow> column_info \<Rightarrow> json \<Rightarrow> bool_exp planned" where
  "column_predicate env ctx name db info v =
     res_map (\<lambda>ops. conjunction (map (BCompare db (sql_type info)) ops))
       (parse_ops env ctx db (ci_pg_type info) (fv_path env @ ''.'' @ name) v)"

text \<open>The predicate of one computed field; \<open>rec\<close> parses the filter of another table.\<close>

definition computed_field_predicate ::
  "(table_ctx \<Rightarrow> json \<Rightarrow> bool_exp planned) \<Rightarrow> filter_env \<Rightarrow> row_filter \<Rightarrow> table_ctx \<Rightarrow> computed_field \<Rightarrow> json \<Rightarrow> bool_exp planned" where
  "computed_field_predicate rec env row_filter ctx computed v =
     res_bind (computed_function env computed) (\<lambda>f.
     case fi_returns_table f of
       Some (schema, name) \<Rightarrow>
         res_bind (remote_ctx env ctx (cf_name computed) (Qualified schema name)) (\<lambda>remote.
         res_bind (rec remote v) (\<lambda>inner.
         res_map (BRowFunctionExists (fi_schema f) (fi_name f) (computed_args env computed f)) (restrict_rows env row_filter remote inner)))
     | None \<Rightarrow>
         res_map (\<lambda>ops. conjunction (map (BComputedCompare (fi_schema f) (fi_name f) (computed_args env computed f) (scalar_result f)) ops))
           (parse_ops env ctx (cf_name computed) (scalar_result f) (fv_path env @ ''.'' @ cf_name computed) v))"

definition parse_field ::
  "(table_ctx \<Rightarrow> json \<Rightarrow> bool_exp planned) \<Rightarrow> filter_env \<Rightarrow> row_filter \<Rightarrow> table_ctx \<Rightarrow> string \<Rightarrow> json \<Rightarrow> bool_exp planned" where
  "parse_field rec env row_filter ctx name v =
     res_bind (filter_field_of env ctx name) (\<lambda>field.
     case field of
       FieldColumn db info \<Rightarrow> column_predicate env ctx name db info v
     | FieldComputed computed \<Rightarrow> computed_field_predicate rec env row_filter ctx computed v
     | FieldRelationship \<Rightarrow>
         res_bind (relationship_of env ctx name) (\<lambda>(relation, pairs, remote).
         res_bind (rec remote v) (\<lambda>inner.
         res_map (BRelationship (table_of relation) pairs) (restrict_rows env row_filter remote inner))))"

definition parse_bool_member ::
  "(table_ctx \<Rightarrow> json \<Rightarrow> bool_exp planned) \<Rightarrow> filter_env \<Rightarrow> row_filter \<Rightarrow> table_ctx \<Rightarrow> string \<Rightarrow> json \<Rightarrow> bool_exp planned" where
  "parse_bool_member rec env row_filter ctx key v =
     (let logical = normalize_logical_operator key;
          items = ok_or (invalid (fv_path env) ''expected an array of bool expressions'') (as_array v) in
      if logical = ''_and'' then res_bind items (\<lambda>xs. res_map BAnd (collect_res (rec ctx) xs))
      else if logical = ''_or'' then res_bind items (\<lambda>xs. res_map BOr (collect_res (rec ctx) xs))
      else if logical = ''_not'' then res_map BNot (rec ctx v)
      else if logical = ''_exists'' then
        res_bind (exists_target env v) (\<lambda>(relation, where_value, remote). res_map (BExists (table_of relation)) (rec remote where_value))
      else parse_field rec env row_filter ctx logical v)"

lemma exists_target_size: "exists_target env v = Ok (relation, w, remote) \<Longrightarrow> size w < size v"
  by (auto simp: exists_target_def Let_def intro: json_get_size)

lemma array_item_size: "as_array v = Some xs \<Longrightarrow> x \<in> set xs \<Longrightarrow> size x < size v"
  using size_list_estimation'[of x xs "size x" size] by (cases v) auto

lemma parse_bool_member_cong [fundef_cong]:
  assumes "env = env'" "f = f'" "ctx = ctx'" "key = key'" "v = v'" and rec: "\<And>c w. size w \<le> size v' \<Longrightarrow> rec c w = rec' c w"
  shows "parse_bool_member rec env f ctx key v = parse_bool_member rec' env' f' ctx' key' v'"
proof -
  have "collect_res (rec ctx) xs = collect_res (rec' ctx) xs" if "as_array v = Some xs" for xs
    by (rule collect_res_cong) (use rec assms(5) array_item_size[OF that] in \<open>auto intro: less_imp_le\<close>)
  moreover have "rec c w = rec' c w" if "exists_target env v = Ok (relation, w, c)" for relation w c
    using rec exists_target_size[OF that] assms(5) by (simp add: less_imp_le)
  moreover have "parse_field rec env f ctx name v = parse_field rec' env f ctx name v" for name
    using rec assms(5)
    by (auto intro!: res_bind_cong simp: parse_field_def computed_field_predicate_def
        split: filter_field.splits option.splits prod.splits)
  ultimately show ?thesis
    unfolding assms(1-5)[symmetric] parse_bool_member_def Let_def
    using rec assms(5) by (auto intro!: res_bind_cong split: prod.splits)
qed

text \<open>\<open>parse_bool_exp\<close>, with the row filters that it adds for users.\<close>

function parse_filter :: "filter_env \<Rightarrow> row_filter \<Rightarrow> table_ctx \<Rightarrow> json \<Rightarrow> bool_exp planned" where
  "parse_filter env row_filter ctx v =
     res_bind (ok_or (invalid (fv_path env) ''expected a bool expression object'') (as_object v)) (\<lambda>members.
     res_map conjunction (collect_res (\<lambda>(key, w). parse_bool_member (parse_filter env row_filter) env row_filter ctx key w) members))"
  by pat_completeness auto
termination
proof (relation "measure (\<lambda>(env, row_filter, ctx, v). size v)", goal_cases)
  case (2 env row_filter ctx v members p key w c u)
  then have "v = JObject members" "(key, w) \<in> set members" by (cases v; auto)+
  then show ?case
    using 2 size_list_estimation'[of "(key, w)" members "size w" "size_prod (\<lambda>_. 0) size"] by auto
qed simp

declare parse_filter.simps [simp del]

end
