(* ===== verification/Plan_Permission.thy ===== *)
theory Plan_Permission
  imports Plan_Predicate
begin

text \<open>
  What the planner adds to reads and writes of a role: the declared row filters, the tenant
  (\<open>crates/schema/src/tenancy.rs\<close>), the grants (\<open>crates/schema/src/iam.rs\<close>), and their conjunction
  (\<open>predicate.rs\<close> and \<open>plan_mutation.rs\<close>).
\<close>

section \<open>Row filters of roles\<close>

definition filter_env_of :: "planner \<Rightarrow> plan_externs \<Rightarrow> session \<Rightarrow> bool \<Rightarrow> string \<Rightarrow> filter_env" where
  "filter_env_of pl ext s is_permission path =
     \<lparr>fv_planner = pl, fv_externs = ext, fv_session = s, fv_is_permission = is_permission, fv_path = path\<rparr>"

text \<open>A filter of the metadata adds no row filters of its own.\<close>

definition parse_permission ::
  "planner \<Rightarrow> plan_externs \<Rightarrow> session \<Rightarrow> string \<Rightarrow> table_ctx \<Rightarrow> json \<Rightarrow> bool_exp planned" where
  "parse_permission pl ext s path ctx v = parse_filter (filter_env_of pl ext s True path) (\<lambda>_. Ok None) ctx v"

definition unrestricted :: "json \<Rightarrow> bool" where
  "unrestricted v \<longleftrightarrow> v = JNull \<or> v = JObject []"

fun disjunction :: "bool_exp list \<Rightarrow> bool_exp" where
  "disjunction [e] = e"
| "disjunction es = BOr es"

text \<open>The loop over the permissions, which ends with \<open>None\<close> at the first one without a restriction.\<close>

fun combined_parts ::
  "(json \<Rightarrow> bool_exp planned) \<Rightarrow> select_permission list \<Rightarrow> bool_exp list option planned" where
  "combined_parts parse [] = Ok (Some [])"
| "combined_parts parse (p # ps) =
     (if unrestricted (sp_filter p) then Ok None
      else res_bind (parse (sp_filter p)) (\<lambda>e. res_map (map_option (Cons e)) (combined_parts parse ps)))"

definition combined_filter ::
  "planner \<Rightarrow> plan_externs \<Rightarrow> session \<Rightarrow> string \<Rightarrow> table_ctx \<Rightarrow> select_permission list \<Rightarrow> bool_exp option planned" where
  "combined_filter pl ext s path ctx perms =
     (if perms = [] then Ok None
      else res_map (map_option disjunction) (combined_parts (parse_permission pl ext s path (filter_ctx_of ctx)) perms))"

section \<open>The tenant\<close>

datatype tenant_ref = TenantSession | TenantStep string string | TenantEstablished string string

fun gated :: "tenant_ref \<Rightarrow> bool" where
  "gated (TenantEstablished _ _) \<longleftrightarrow> False"
| "gated _ \<longleftrightarrow> True"

definition the_tenancy :: "planner \<Rightarrow> tenancy planned" where
  "the_tenancy pl = ok_or (Panicked ''called only for a tenanted source'') (pl_tenancy pl)"

definition tenant_value :: "planner \<Rightarrow> session \<Rightarrow> string \<Rightarrow> string planned" where
  "tenant_value pl s path =
     res_bind (the_tenancy pl) (\<lambda>t.
       let key = lowercase (tn_variable t);
           refused = Err (plan_error_new path ''access-denied''
             (''this deployment is tenanted and the request carries no '' @ key @
              ''. A tenant is read from a verified token and from nothing else.'')) in
       case session_var s key of
         Some v \<Rightarrow> if v \<noteq> [] then Ok v else refused
       | None \<Rightarrow> refused)"

definition text_scalar :: "string \<Rightarrow> scalar" where
  "text_scalar text = ScalarJson (JString text)"

definition tenant_op :: "planner \<Rightarrow> session \<Rightarrow> tenant_ref \<Rightarrow> string \<Rightarrow> compare_operator planned" where
  "tenant_op pl s tenant path =
     (case tenant of
        TenantSession \<Rightarrow> res_map (\<lambda>v. OpEq (text_scalar v)) (tenant_value pl s path)
      | TenantStep cte col \<Rightarrow> Ok (OpCompareStepColumn cte col)
      | TenantEstablished cte col \<Rightarrow> Ok (OpCompareStepColumn cte col))"

definition column_type :: "table_info \<Rightarrow> string \<Rightarrow> plan_failure \<Rightarrow> string planned" where
  "column_type info name missing = res_map sql_type (ok_or missing (column info name))"

definition registry_serving :: "planner \<Rightarrow> session \<Rightarrow> tenant_ref \<Rightarrow> string \<Rightarrow> bool_exp planned" where
  "registry_serving pl s tenant path =
     res_bind (the_tenancy pl) (\<lambda>t.
       let registry = tn_registry t; relation = tr_table registry;
           no_column = (\<lambda>name. plan_error_new path ''unexpected''
             (''the registry '' @ ticked (table_to_string relation) @ '' has no column '' @ ticked name)) in
       res_bind (ok_or (plan_error_new path ''unexpected'' (''the tenant registry '' @ ticked (table_to_string relation) @ '' does not exist''))
         (catalog_table (pl_catalog pl) (schema_of relation) (name_of relation))) (\<lambda>info.
       res_bind (column_type info (tr_key registry) (no_column (tr_key registry))) (\<lambda>key_type.
       res_bind (tenant_op pl s tenant path) (\<lambda>op.
       res_map (\<lambda>status_type. BExists (table_of relation) (BAnd
           [BCompare (tr_key registry) key_type op,
            BCompare (tr_status_column registry) status_type (OpIn (map text_scalar (tr_serving registry)))]))
         (column_type info (tr_status_column registry) (no_column (tr_status_column registry)))))))"

definition subject_compare :: "table_ctx \<Rightarrow> subject_binding \<Rightarrow> session \<Rightarrow> string \<Rightarrow> bool_exp planned" where
  "subject_compare ctx subject s path =
     res_bind (ok_or (plan_error_new path ''unexpected'' (''table '' @ double_quoted (table_to_string (te_table (tx_entry ctx))) @
         '' has no column '' @ double_quoted (sb_column subject) @ '' to bound a cross-tenant read by''))
       (column (tx_info ctx) (sb_column subject))) (\<lambda>info.
       let key = lowercase (sb_variable subject);
           refused = Err (plan_error_new path ''access-denied''
             (''this read is bounded by '' @ key @ '', and the request carries none'')) in
       case session_var s key of
         Some v \<Rightarrow> if v \<noteq> [] then Ok (BCompare (sb_column subject) (sql_type info) (OpEq (text_scalar v))) else refused
       | None \<Rightarrow> refused)"

definition no_tenant_key :: "qualified_table \<Rightarrow> string \<Rightarrow> string \<Rightarrow> plan_failure" where
  "no_tenant_key relation name path =
     plan_error_new path ''unexpected'' (''table '' @ double_quoted (table_to_string relation) @ '' has no tenant key column '' @
       double_quoted name @ ''; this deployment cannot be served safely'')"

definition tenant_compare ::
  "planner \<Rightarrow> table_info \<Rightarrow> qualified_table \<Rightarrow> string \<Rightarrow> session \<Rightarrow> tenant_ref \<Rightarrow> string \<Rightarrow> bool_exp planned" where
  "tenant_compare pl info relation name s tenant path =
     res_bind (column_type info name (no_tenant_key relation name path)) (\<lambda>key_type.
     res_map (BCompare name key_type) (tenant_op pl s tenant path))"

definition tenant_via_relationship ::
  "planner \<Rightarrow> table_ctx \<Rightarrow> string \<Rightarrow> session \<Rightarrow> tenant_ref \<Rightarrow> string \<Rightarrow> bool_exp planned" where
  "tenant_via_relationship pl ctx relationship s tenant path =
     (let own = double_quoted (table_to_string (te_table (tx_entry ctx))); fails = plan_error_new path ''unexpected'' in
      res_bind (ok_or (fails (''table '' @ own @ '' declares no relationship '' @ double_quoted relationship @ '' to scope it by''))
        (relationship_target pl ctx relationship path)) (\<lambda>(remote, pairs).
      res_bind (ok_or (fails (''table '' @ double_quoted (table_to_string remote) @ '' does not exist''))
        (catalog_table (pl_catalog pl) (schema_of remote) (name_of remote))) (\<lambda>info.
      res_bind (the_tenancy pl) (\<lambda>t.
      case table_scope_of t remote of
        ScopeKey key \<Rightarrow> res_map (BRelationship (table_of remote) pairs) (tenant_compare pl info remote key s tenant path)
      | _ \<Rightarrow> Err (fails (''table '' @ own @ '' is scoped through '' @ double_quoted relationship @ '', but '' @
               double_quoted (table_to_string remote) @ '' carries no tenant key of its own''))))))"

definition tenant_predicate :: "planner \<Rightarrow> table_ctx \<Rightarrow> session \<Rightarrow> tenant_ref \<Rightarrow> string \<Rightarrow> bool_exp option planned" where
  "tenant_predicate pl ctx s tenant path =
     (let relation = te_table (tx_entry ctx);
          gate = (\<lambda>bound. if gated tenant then res_map (\<lambda>g. Some (BAnd [bound, g])) (registry_serving pl s tenant path)
                          else Ok (Some bound)) in
      case pl_tenancy pl of
        None \<Rightarrow> Ok None
      | Some t \<Rightarrow>
          (case cross_tenant_read_of t relation (se_role s) of
             Some subject \<Rightarrow> res_map Some (subject_compare ctx subject s path)
           | None \<Rightarrow>
               (case table_scope_of t relation of
                  ScopeShared \<Rightarrow> Ok None
                | ScopeKey key \<Rightarrow> res_bind (tenant_compare pl (tx_info ctx) relation key s tenant path) gate
                | ScopeVia relationship \<Rightarrow> res_bind (tenant_via_relationship pl ctx relationship s tenant path) gate)))"

section \<open>Grants\<close>

definition grant_exists :: "planner \<Rightarrow> iam \<Rightarrow> table_info \<Rightarrow> session \<Rightarrow> string list \<Rightarrow> string \<Rightarrow> bool_exp planned" where
  "grant_exists pl i info s actions path =
     (let grants = ia_grants i; relation = gr_table grants;
          subject_key = lowercase (sb_variable (gr_subject grants));
          refused = Err (plan_error_new path ''access-denied''
            (''this role is served through in-tenant grants and the request carries no '' @ subject_key));
          typed = (\<lambda>name. column_type info name (plan_error_new path ''unexpected''
            (''the grant relation '' @ ticked (table_to_string relation) @ '' has no column '' @ ticked name))) in
      res_bind (case session_var s subject_key of Some v \<Rightarrow> if v \<noteq> [] then Ok v else refused | None \<Rightarrow> refused) (\<lambda>subject.
      res_bind (tenant_value pl s path) (\<lambda>tenant.
      res_bind (typed (sb_column (gr_subject grants))) (\<lambda>subject_type.
      res_bind (typed (gr_tenant grants)) (\<lambda>tenant_type.
      res_map (\<lambda>action_type. BExists (table_of relation) (BAnd
          [BCompare (sb_column (gr_subject grants)) subject_type (OpEq (text_scalar subject)),
           BCompare (gr_tenant grants) tenant_type (OpEq (text_scalar tenant)),
           BCompare (gr_action grants) action_type (OpIn (map text_scalar actions))]))
        (typed (gr_action grants)))))))"

definition grant_info :: "planner \<Rightarrow> iam \<Rightarrow> string \<Rightarrow> table_info planned" where
  "grant_info pl i path =
     (let relation = gr_table (ia_grants i) in
      ok_or (plan_error_new path ''unexpected'' (''the grant relation '' @ ticked (table_to_string relation) @ '' does not exist''))
        (catalog_table (pl_catalog pl) (schema_of relation) (name_of relation)))"

definition shared_table :: "planner \<Rightarrow> qualified_table \<Rightarrow> bool" where
  "shared_table pl relation \<longleftrightarrow>
     (case pl_tenancy pl of None \<Rightarrow> False | Some t \<Rightarrow> table_scope_of t relation = ScopeShared)"

definition iam_predicate :: "planner \<Rightarrow> table_ctx \<Rightarrow> session \<Rightarrow> iam_operation \<Rightarrow> string \<Rightarrow> bool_exp option planned" where
  "iam_predicate pl ctx s operation path =
     (case pl_iam pl of
        None \<Rightarrow> Ok None
      | Some i \<Rightarrow>
          let relation = te_table (tx_entry ctx) in
          if \<not> governs i (se_role s) \<or> shared_table pl relation \<or> same_table (gr_table (ia_grants i)) relation then Ok None
          else res_bind (grant_info pl i path) (\<lambda>info.
            res_map Some (grant_exists pl i info s (accepted_actions i relation operation) path)))"

definition command_authorization :: "planner \<Rightarrow> string \<Rightarrow> session \<Rightarrow> string \<Rightarrow> bool_exp option planned" where
  "command_authorization pl command s path =
     (case pl_iam pl of
        None \<Rightarrow> Ok None
      | Some i \<Rightarrow>
          if \<not> governs i (se_role s) then Ok None
          else res_bind (grant_info pl i path) (\<lambda>info.
            res_map Some (grant_exists pl i info s (accepted_command_actions i command) path)))"

definition strip_wildcard :: "string \<Rightarrow> string option" where
  "strip_wildcard s = (if 2 \<le> length s \<and> drop (length s - 2) s = '':*'' then Some (take (length s - 2) s) else None)"

definition reserved_bound :: "string \<Rightarrow> string \<Rightarrow> string \<Rightarrow> bool_exp" where
  "reserved_bound name pg_type reserved =
     (case strip_wildcard reserved of
        Some service \<Rightarrow> BCompare name pg_type (OpNlike (text_scalar (service @ '':%'')))
      | None \<Rightarrow> BCompare name pg_type (OpNeq (text_scalar reserved)))"

definition reserved_action_bound :: "planner \<Rightarrow> table_ctx \<Rightarrow> string \<Rightarrow> bool_exp option planned" where
  "reserved_action_bound pl ctx path =
     (case pl_iam pl of
        None \<Rightarrow> Ok None
      | Some i \<Rightarrow>
          (case gr_written_via (ia_grants i) of
             None \<Rightarrow> Ok None
           | Some (relation, name) \<Rightarrow>
               if \<not> same_table relation (te_table (tx_entry ctx)) \<or> ia_reserved_actions i = [] then Ok None
               else res_map (\<lambda>info. Some (BAnd (map (reserved_bound name (sql_type info)) (ia_reserved_actions i))))
                 (ok_or (plan_error_new path ''unexpected'' (ticked (table_to_string relation) @ '' has no column '' @ ticked name @
                     '' to hold an action'')) (column (tx_info ctx) name))))"

text \<open>The conjunction of what is present.\<close>

definition conjoin :: "bool_exp option list \<Rightarrow> bool_exp option" where
  "conjoin parts = (case List.map_filter (\<lambda>p. p) parts of [] \<Rightarrow> None | [e] \<Rightarrow> Some e | es \<Rightarrow> Some (BAnd es))"

definition writes :: "iam_operation \<Rightarrow> bool" where
  "writes operation \<longleftrightarrow> operation = IInsert \<or> operation = IUpdate"

definition with_iam ::
  "planner \<Rightarrow> bool_exp option \<Rightarrow> table_ctx \<Rightarrow> session \<Rightarrow> iam_operation \<Rightarrow> string \<Rightarrow> bool_exp option planned" where
  "with_iam pl existing ctx s operation path =
     res_bind (iam_predicate pl ctx s operation path) (\<lambda>gate.
     res_map (\<lambda>reserved. conjoin [existing, gate, reserved])
       (if writes operation then reserved_action_bound pl ctx path else Ok None))"

section \<open>Reads\<close>

definition permission_predicate_full ::
  "planner \<Rightarrow> plan_externs \<Rightarrow> session \<Rightarrow> string \<Rightarrow> tenant_ref option \<Rightarrow> bool \<Rightarrow> table_ctx \<Rightarrow> bool_exp option planned" where
  "permission_predicate_full pl ext s path tenant apply_iam ctx =
     res_bind (combined_filter pl ext s path ctx (tx_perms ctx)) (\<lambda>declared.
       if tx_perms ctx = [] then Ok declared
       else res_bind (case tenant of Some t \<Rightarrow> tenant_predicate pl ctx s t path | None \<Rightarrow> Ok None) (\<lambda>bound.
         let bounded = conjoin [declared, bound] in
         if apply_iam then with_iam pl bounded ctx s ISelect path else Ok bounded))"

definition permission_predicate_scoped ::
  "planner \<Rightarrow> plan_externs \<Rightarrow> session \<Rightarrow> string \<Rightarrow> bool \<Rightarrow> table_ctx \<Rightarrow> bool_exp option planned" where
  "permission_predicate_scoped pl ext s path apply_tenant ctx =
     permission_predicate_full pl ext s path (if apply_tenant then Some TenantSession else None) True ctx"

definition permission_predicate :: "planner \<Rightarrow> plan_externs \<Rightarrow> session \<Rightarrow> string \<Rightarrow> table_ctx \<Rightarrow> bool_exp option planned" where
  "permission_predicate pl ext s path ctx = permission_predicate_scoped pl ext s path True ctx"

definition parse_bool_exp ::
  "planner \<Rightarrow> plan_externs \<Rightarrow> session \<Rightarrow> bool \<Rightarrow> string \<Rightarrow> table_ctx \<Rightarrow> json \<Rightarrow> bool_exp planned" where
  "parse_bool_exp pl ext s is_permission path ctx v =
     parse_filter (filter_env_of pl ext s is_permission path) (permission_predicate pl ext s path) ctx v"

section \<open>Writes\<close>

definition write_tenant_predicate_from ::
  "planner \<Rightarrow> table_ctx \<Rightarrow> session \<Rightarrow> tenant_ref \<Rightarrow> string \<Rightarrow> bool_exp option planned" where
  "write_tenant_predicate_from pl ctx s tenant path =
     (case pl_tenancy pl of
        None \<Rightarrow> Ok None
      | Some t \<Rightarrow>
          (case table_scope_of t (te_table (tx_entry ctx)) of
             ScopeKey key \<Rightarrow> res_map Some (tenant_compare pl (tx_info ctx) (te_table (tx_entry ctx)) key s tenant path)
           | _ \<Rightarrow> Ok None))"

definition serving_gate :: "planner \<Rightarrow> table_ctx \<Rightarrow> session \<Rightarrow> tenant_ref \<Rightarrow> string \<Rightarrow> bool_exp option planned" where
  "serving_gate pl ctx s tenant path =
     (if pl_tenancy pl = None \<or> shared_table pl (te_table (tx_entry ctx)) then Ok None
      else res_map Some (registry_serving pl s tenant path))"

definition declared_filter ::
  "planner \<Rightarrow> plan_externs \<Rightarrow> session \<Rightarrow> string \<Rightarrow> table_ctx \<Rightarrow> json \<Rightarrow> bool_exp option planned" where
  "declared_filter pl ext s path ctx v =
     (if unrestricted v then Ok None else res_map Some (parse_bool_exp pl ext s True path (filter_ctx_of ctx) v))"

definition write_permission_filter_bounded ::
  "planner \<Rightarrow> plan_externs \<Rightarrow> session \<Rightarrow> string \<Rightarrow> tenant_ref option \<Rightarrow> table_ctx \<Rightarrow> json \<Rightarrow> bool_exp option planned" where
  "write_permission_filter_bounded pl ext s path tenant ctx v =
     res_bind (declared_filter pl ext s path ctx v) (\<lambda>declared.
     res_map (\<lambda>bound. conjoin [declared, bound])
       (case tenant of Some t \<Rightarrow> write_tenant_predicate_from pl ctx s t path | None \<Rightarrow> Ok None))"

definition write_permission_filter ::
  "planner \<Rightarrow> plan_externs \<Rightarrow> session \<Rightarrow> string \<Rightarrow> table_ctx \<Rightarrow> json \<Rightarrow> bool_exp option planned" where
  "write_permission_filter pl ext s path ctx v =
     res_bind (declared_filter pl ext s path ctx v) (\<lambda>declared.
     res_map (\<lambda>bound. conjoin [declared, bound]) (write_tenant_predicate_from pl ctx s TenantSession path))"

datatype check_authorization = AuthTable iam_operation | AuthCommandStep iam_operation

datatype check_tenant = CheckSession | CheckSessionBoundElsewhere | CheckStep string string | CheckEstablishing

fun repeats_the_bound :: "check_tenant \<Rightarrow> bool" where
  "repeats_the_bound CheckSession \<longleftrightarrow> True"
| "repeats_the_bound _ \<longleftrightarrow> False"

fun gate_tenant :: "check_tenant \<Rightarrow> tenant_ref option" where
  "gate_tenant CheckSession = Some TenantSession"
| "gate_tenant CheckSessionBoundElsewhere = Some TenantSession"
| "gate_tenant (CheckStep cte col) = Some (TenantStep cte col)"
| "gate_tenant CheckEstablishing = None"

definition write_check_expression ::
  "planner \<Rightarrow> plan_externs \<Rightarrow> session \<Rightarrow> string \<Rightarrow> check_authorization \<Rightarrow> check_tenant \<Rightarrow> table_ctx \<Rightarrow> json \<Rightarrow> bool_exp option planned" where
  "write_check_expression pl ext s path authorization tenant ctx check =
     res_bind (declared_filter pl ext s path ctx check) (\<lambda>declared.
     res_bind (if repeats_the_bound tenant then write_tenant_predicate_from pl ctx s TenantSession path else Ok None) (\<lambda>bound.
     res_bind (case gate_tenant tenant of Some t \<Rightarrow> serving_gate pl ctx s t path | None \<Rightarrow> Ok None) (\<lambda>gate.
       let conjoined = conjoin [declared, bound, gate] in
       case authorization of
         AuthTable operation \<Rightarrow> with_iam pl conjoined ctx s operation path
       | AuthCommandStep operation \<Rightarrow>
           res_map (\<lambda>reserved. conjoin [conjoined, reserved])
             (if writes operation then reserved_action_bound pl ctx path else Ok None))))"

definition tenant_preset :: "planner \<Rightarrow> table_ctx \<Rightarrow> session \<Rightarrow> string \<Rightarrow> (string \<times> string \<times> string) option planned" where
  "tenant_preset pl ctx s path =
     (case pl_tenancy pl of
        None \<Rightarrow> Ok None
      | Some t \<Rightarrow>
          (case table_scope_of t (te_table (tx_entry ctx)) of
             ScopeKey key \<Rightarrow>
               res_bind (column_type (tx_info ctx) key (no_tenant_key (te_table (tx_entry ctx)) key path)) (\<lambda>key_type.
               res_map (\<lambda>v. Some (key, key_type, v)) (tenant_value pl s path))
           | _ \<Rightarrow> Ok None))"

end
