(* ===== verification/Plan_Isolation.thy ===== *)
theory Plan_Isolation
  imports Plan_Permission
begin

text \<open>
  The meaning of predicates on a database, and the isolation of tenants: reads and writes of a role
  stay in the tenant of the session, and in the grants that the tenant has given.
\<close>

section \<open>The meaning of predicates\<close>

text \<open>
  Truth values of SQL, where \<open>None\<close> is unknown. A database is given by the rows of its tables, the rows
  that functions return for a row, and the outcome of comparisons; a comparison with a column of
  related rows is decided by the set of those rows. A filter keeps the rows for which it is true.
\<close>

type_synonym truth = "bool option"

definition all_true :: "truth list \<Rightarrow> truth" where
  "all_true ts = (if Some False \<in> set ts then Some False else if None \<in> set ts then None else Some True)"

definition some_true :: "truth list \<Rightarrow> truth" where
  "some_true ts = (if Some True \<in> set ts then Some True else if None \<in> set ts then None else Some False)"

record 'r database =
  rows :: "ir_table \<Rightarrow> 'r set"
  joined :: "join \<Rightarrow> 'r \<Rightarrow> 'r \<Rightarrow> bool"
  compares :: "'r \<Rightarrow> 'r \<Rightarrow> 'r set \<Rightarrow> string \<Rightarrow> string \<Rightarrow> compare_operator \<Rightarrow> truth"
  function_rows :: "string \<Rightarrow> string \<Rightarrow> row_function_arg list \<Rightarrow> 'r \<Rightarrow> 'r set"
  function_compares :: "'r \<Rightarrow> 'r \<Rightarrow> 'r set \<Rightarrow> string \<Rightarrow> string \<Rightarrow> row_function_arg list \<Rightarrow> string \<Rightarrow> compare_operator \<Rightarrow> truth"

fun related_rows :: "'r database \<Rightarrow> 'r \<Rightarrow> compare_operator \<Rightarrow> 'r set" where
  "related_rows d row (OpCompareColumnRel sql_op t pairs c) = {r \<in> rows d t. joined d pairs row r}"
| "related_rows d row _ = {}"

fun holds :: "'r database \<Rightarrow> 'r \<Rightarrow> 'r \<Rightarrow> bool_exp \<Rightarrow> truth" where
  "holds d root row (BAnd es) = all_true (map (holds d root row) es)"
| "holds d root row (BOr es) = some_true (map (holds d root row) es)"
| "holds d root row (BNot e) = map_option Not (holds d root row e)"
| "holds d root row (BCompare c ty op) = compares d root row (related_rows d row op) c ty op"
| "holds d root row (BRelationship t pairs e) =
     Some (\<exists>r \<in> rows d t. joined d pairs row r \<and> holds d root r e = Some True)"
| "holds d root row (BComputedCompare schema name args ty op) =
     function_compares d root row (related_rows d row op) schema name args ty op"
| "holds d root row (BRowFunctionExists schema name args e) =
     Some (\<exists>r \<in> function_rows d schema name args row. holds d root r e = Some True)"
| "holds d root row (BExists t e) = Some (\<exists>r \<in> rows d t. holds d root r e = Some True)"

definition admits :: "'r database \<Rightarrow> 'r \<Rightarrow> 'r \<Rightarrow> bool_exp option \<Rightarrow> bool" where
  "admits d root row p \<longleftrightarrow> (case p of None \<Rightarrow> True | Some e \<Rightarrow> holds d root row e = Some True)"

lemma all_true_iff: "all_true ts = Some True \<longleftrightarrow> (\<forall>t \<in> set ts. t = Some True)"
  by (auto simp: all_true_def split: if_splits) (metis (full_types) option.exhaust)

lemma admits_simps [simp]:
  "admits d root row None"
  "admits d root row (Some (BAnd es)) \<longleftrightarrow> (\<forall>e \<in> set es. admits d root row (Some e))"
  "admits d root row (Some (BCompare c ty op)) \<longleftrightarrow> compares d root row (related_rows d row op) c ty op = Some True"
  "admits d root row (Some (BExists t e)) \<longleftrightarrow> (\<exists>r \<in> rows d t. admits d root r (Some e))"
  "admits d root row (Some (BRelationship t pairs e)) \<longleftrightarrow> (\<exists>r \<in> rows d t. joined d pairs row r \<and> admits d root r (Some e))"
  by (auto simp: admits_def all_true_iff)

lemma admits_conjoin [simp]: "admits d root row (conjoin ps) \<longleftrightarrow> (\<forall>p \<in> set ps. admits d root row p)"
proof -
  have "(\<forall>e \<in> set (List.map_filter (\<lambda>p. p) ps). admits d root row (Some e)) \<longleftrightarrow> (\<forall>p \<in> set ps. admits d root row p)"
    by (induction ps) (auto simp: map_filter_simps split: option.splits)
  then show ?thesis by (auto simp: conjoin_def split: list.splits)
qed

text \<open>A comparison of a column with a text.\<close>

definition equals :: "'r database \<Rightarrow> 'r \<Rightarrow> 'r \<Rightarrow> table_info \<Rightarrow> string \<Rightarrow> string \<Rightarrow> bool" where
  "equals d root row info c text \<longleftrightarrow>
     (\<exists>ci. column info c = Some ci \<and> compares d root row {} c (sql_type ci) (OpEq (text_scalar text)) = Some True)"

definition among :: "'r database \<Rightarrow> 'r \<Rightarrow> 'r \<Rightarrow> table_info \<Rightarrow> string \<Rightarrow> string list \<Rightarrow> bool" where
  "among d root row info c texts \<longleftrightarrow>
     (\<exists>ci. column info c = Some ci \<and> compares d root row {} c (sql_type ci) (OpIn (map text_scalar texts)) = Some True)"

lemma column_type_Ok [simp]: "column_type info name e = Ok ty \<longleftrightarrow> (\<exists>ci. column info name = Some ci \<and> ty = sql_type ci)"
  by (cases "column info name") (auto simp: column_type_def)

lemma the_tenancy_Ok [simp]: "the_tenancy pl = Ok t \<longleftrightarrow> pl_tenancy pl = Some t"
  by (cases "pl_tenancy pl") (auto simp: the_tenancy_def)

section \<open>Tenants\<close>

definition tenant_of :: "tenancy \<Rightarrow> session \<Rightarrow> string \<Rightarrow> bool" where
  "tenant_of t s v \<longleftrightarrow> session_var s (tn_variable t) = Some v \<and> v \<noteq> []"

text \<open>The registry serves a tenant: it has a row for it with a status that is served.\<close>

definition tenant_served :: "'r database \<Rightarrow> 'r \<Rightarrow> planner \<Rightarrow> tenancy \<Rightarrow> string \<Rightarrow> bool" where
  "tenant_served d root pl t v \<longleftrightarrow>
     (let registry = tn_registry t; relation = tr_table registry in
      \<exists>info r. catalog_table (pl_catalog pl) (schema_of relation) (name_of relation) = Some info \<and> r \<in> rows d (table_of relation) \<and>
        equals d root r info (tr_key registry) v \<and> among d root r info (tr_status_column registry) (tr_serving registry))"

text \<open>What it means that a row of a table belongs to a tenant, by the scope of the table.\<close>

definition row_of_tenant ::
  "'r database \<Rightarrow> 'r \<Rightarrow> 'r \<Rightarrow> planner \<Rightarrow> tenancy \<Rightarrow> table_ctx \<Rightarrow> string \<Rightarrow> bool" where
  "row_of_tenant d root row pl t ctx v \<longleftrightarrow>
     (case table_scope_of t (te_table (tx_entry ctx)) of
        ScopeShared \<Rightarrow> True
      | ScopeKey key \<Rightarrow> equals d root row (tx_info ctx) key v
      | ScopeVia relationship \<Rightarrow>
          (\<exists>remote pairs info key link. relationship_target pl ctx relationship [] = Some (remote, pairs) \<and>
             catalog_table (pl_catalog pl) (schema_of remote) (name_of remote) = Some info \<and>
             table_scope_of t remote = ScopeKey key \<and> link \<in> rows d (table_of remote) \<and> joined d pairs row link \<and>
             equals d root link info key v))"

lemma session_var_lowercase [simp]: "session_var s (lowercase name) = session_var s name"
proof -
  have "to_ascii_lowercase (to_ascii_lowercase c) = to_ascii_lowercase c" for c
    by (cases "byte_of c < 128") (auto simp: to_ascii_lowercase_def of_char_of)
  then show ?thesis by (simp add: session_var_def lowercase_def o_def)
qed

lemma tenant_value_Ok:
  "tenant_value pl s path = Ok v \<longleftrightarrow> (\<exists>t. pl_tenancy pl = Some t \<and> tenant_of t s v)"
  by (auto simp: tenant_value_def tenant_of_def Let_def split: option.splits if_splits)

lemma tenant_op_Ok:
  "tenant_op pl s TenantSession path = Ok op \<longleftrightarrow> (\<exists>t v. pl_tenancy pl = Some t \<and> tenant_of t s v \<and> op = OpEq (text_scalar v))"
  by (auto simp: tenant_op_def tenant_value_Ok)

lemma registry_serving_Ok:
  assumes "registry_serving pl s TenantSession path = Ok e" "pl_tenancy pl = Some t" "tenant_of t s v" "admits d root row (Some e)"
  shows "tenant_served d root pl t v"
  using assms by (auto simp: registry_serving_def tenant_served_def tenant_op_Ok equals_def among_def Let_def tenant_of_def)

lemma tenant_compare_Ok:
  assumes "tenant_compare pl info relation key s TenantSession path = Ok e" "pl_tenancy pl = Some t" "tenant_of t s v"
  shows "admits d root row (Some e) \<longleftrightarrow> equals d root row info key v"
  using assms by (auto simp: tenant_compare_def tenant_op_Ok equals_def tenant_of_def)

lemma gate_Ok:
  assumes "res_map (\<lambda>g. Some (BAnd [bound, g])) (registry_serving pl s TenantSession path) = Ok p" "admits d root row p"
    "pl_tenancy pl = Some t" "tenant_of t s v"
  shows "admits d root row (Some bound) \<and> tenant_served d root pl t v"
  using assms registry_serving_Ok[OF _ assms(3,4)] by auto

lemma tenant_compare_tenant:
  "tenant_compare pl info relation key s TenantSession path = Ok e \<Longrightarrow> \<exists>t v. pl_tenancy pl = Some t \<and> tenant_of t s v"
  by (auto simp: tenant_compare_def tenant_op_Ok)

lemma tenant_via_Ok:
  assumes "tenant_via_relationship pl ctx relationship s TenantSession path = Ok e" "pl_tenancy pl = Some t"
    "table_scope_of t (te_table (tx_entry ctx)) = ScopeVia relationship"
  shows "\<exists>v. tenant_of t s v \<and> (admits d root row (Some e) \<longrightarrow> row_of_tenant d root row pl t ctx v)"
proof -
  obtain remote pairs where target: "relationship_target pl ctx relationship path = Some (remote, pairs)"
    using assms(1) by (auto simp: tenant_via_relationship_def Let_def)
  obtain info where info: "catalog_table (pl_catalog pl) (schema_of remote) (name_of remote) = Some info"
    using assms(1) target by (auto simp: tenant_via_relationship_def Let_def)
  obtain key bound where parts: "relationship_target pl ctx relationship path = Some (remote, pairs)"
    "catalog_table (pl_catalog pl) (schema_of remote) (name_of remote) = Some info" "table_scope_of t remote = ScopeKey key"
    "tenant_compare pl info remote key s TenantSession path = Ok bound" "e = BRelationship (table_of remote) pairs bound"
    using assms(1,2) target info by (cases "table_scope_of t remote") (auto simp: tenant_via_relationship_def Let_def)
  obtain v where v: "tenant_of t s v" using tenant_compare_tenant[OF parts(4)] assms(2) by auto
  have "relationship_target pl ctx relationship [] = Some (remote, pairs)"
    using parts(1) relationship_target_path[of pl ctx relationship "[]" path] by simp
  then show ?thesis
    using v parts tenant_compare_Ok[OF parts(4) assms(2) v, of d root] by (auto simp: row_of_tenant_def assms(3) intro!: exI[of _ v])
qed

lemma tenant_predicate_confines:
  assumes "tenant_predicate pl ctx s TenantSession path = Ok p" "pl_tenancy pl = Some t" "admits d root row p"
    "cross_tenant_read_of t (te_table (tx_entry ctx)) (se_role s) = None" "\<not> shared_table pl (te_table (tx_entry ctx))"
  shows "\<exists>v. tenant_of t s v \<and> row_of_tenant d root row pl t ctx v \<and> tenant_served d root pl t v"
proof (cases "table_scope_of t (te_table (tx_entry ctx))")
  case ScopeShared
  then show ?thesis using assms(2,5) by (simp add: shared_table_def)
next
  case (ScopeKey key)
  then obtain bound where bound: "tenant_compare pl (tx_info ctx) (te_table (tx_entry ctx)) key s TenantSession path = Ok bound"
    "res_map (\<lambda>g. Some (BAnd [bound, g])) (registry_serving pl s TenantSession path) = Ok p"
    using assms(1,2,4) by (auto simp: tenant_predicate_def)
  obtain v where v: "tenant_of t s v" using tenant_compare_tenant[OF bound(1)] assms(2) by auto
  show ?thesis
    using gate_Ok[OF bound(2) assms(3,2) v] tenant_compare_Ok[OF bound(1) assms(2) v, of d root row] v by (auto simp: row_of_tenant_def ScopeKey)
next
  case (ScopeVia relationship)
  then obtain bound where bound: "tenant_via_relationship pl ctx relationship s TenantSession path = Ok bound"
    "res_map (\<lambda>g. Some (BAnd [bound, g])) (registry_serving pl s TenantSession path) = Ok p"
    using assms(1,2,4) by (auto simp: tenant_predicate_def)
  obtain v where v: "tenant_of t s v" "admits d root row (Some bound) \<longrightarrow> row_of_tenant d root row pl t ctx v"
    using tenant_via_Ok[OF bound(1) assms(2) ScopeVia, of d root row] by metis
  show ?thesis using gate_Ok[OF bound(2) assms(3,2) v(1)] v by metis
qed

section \<open>Grants\<close>

text \<open>The grant relation has a row for the subject and the tenant of the session with one of the actions.\<close>

definition granted :: "'r database \<Rightarrow> 'r \<Rightarrow> planner \<Rightarrow> iam \<Rightarrow> session \<Rightarrow> string list \<Rightarrow> bool" where
  "granted d root pl i s actions \<longleftrightarrow>
     (let grants = ia_grants i; relation = gr_table grants in
      \<exists>t v subject info r. pl_tenancy pl = Some t \<and> tenant_of t s v \<and>
        session_var s (sb_variable (gr_subject grants)) = Some subject \<and> subject \<noteq> [] \<and>
        catalog_table (pl_catalog pl) (schema_of relation) (name_of relation) = Some info \<and> r \<in> rows d (table_of relation) \<and>
        equals d root r info (sb_column (gr_subject grants)) subject \<and> equals d root r info (gr_tenant grants) v \<and>
        among d root r info (gr_action grants) actions)"

definition governed_by :: "planner \<Rightarrow> session \<Rightarrow> qualified_table \<Rightarrow> iam \<Rightarrow> bool" where
  "governed_by pl s relation i \<longleftrightarrow>
     pl_iam pl = Some i \<and> governs i (se_role s) \<and> \<not> shared_table pl relation \<and> \<not> same_table (gr_table (ia_grants i)) relation"

lemma grant_exists_Ok:
  assumes "grant_info pl i path = Ok info" "grant_exists pl i info s actions path = Ok e" "admits d root row (Some e)"
  shows "granted d root pl i s actions"
proof -
  have info: "catalog_table (pl_catalog pl) (schema_of (gr_table (ia_grants i))) (name_of (gr_table (ia_grants i))) = Some info"
    using assms(1) by (auto simp: grant_info_def Let_def)
  from assms(2) obtain subject v where s: "session_var s (sb_variable (gr_subject (ia_grants i))) = Some subject" "subject \<noteq> []"
    and v: "tenant_value pl s path = Ok v"
    and e: "\<exists>cs ct ca. column info (sb_column (gr_subject (ia_grants i))) = Some cs \<and> column info (gr_tenant (ia_grants i)) = Some ct \<and>
      column info (gr_action (ia_grants i)) = Some ca \<and> e = BExists (table_of (gr_table (ia_grants i))) (BAnd
        [BCompare (sb_column (gr_subject (ia_grants i))) (sql_type cs) (OpEq (text_scalar subject)),
         BCompare (gr_tenant (ia_grants i)) (sql_type ct) (OpEq (text_scalar v)),
         BCompare (gr_action (ia_grants i)) (sql_type ca) (OpIn (map text_scalar actions))])"
    by (auto simp: grant_exists_def Let_def split: option.splits if_splits)
  then obtain t where t: "pl_tenancy pl = Some t" "tenant_of t s v" by (auto simp: tenant_value_Ok)
  obtain r where "r \<in> rows d (table_of (gr_table (ia_grants i)))" "equals d root r info (sb_column (gr_subject (ia_grants i))) subject"
    "equals d root r info (gr_tenant (ia_grants i)) v" "among d root r info (gr_action (ia_grants i)) actions"
    using e assms(3) by (auto simp: equals_def among_def)
  then show ?thesis unfolding granted_def Let_def using s t info by blast
qed

lemma with_iam_admits:
  assumes "with_iam pl existing ctx s operation path = Ok p" "admits d root row p"
  shows "admits d root row existing"
    and "governed_by pl s (te_table (tx_entry ctx)) i \<Longrightarrow> granted d root pl i s (accepted_actions i (te_table (tx_entry ctx)) operation)"
    and "writes operation \<Longrightarrow> \<exists>b. reserved_action_bound pl ctx path = Ok b \<and> admits d root row b"
proof -
  from assms obtain gate reserved where parts: "iam_predicate pl ctx s operation path = Ok gate" "admits d root row gate"
    "(if writes operation then reserved_action_bound pl ctx path else Ok None) = Ok reserved" "admits d root row reserved"
    and existing: "admits d root row existing"
    by (auto simp: with_iam_def)
  show "admits d root row existing" by (rule existing)
  show "writes operation \<Longrightarrow> \<exists>b. reserved_action_bound pl ctx path = Ok b \<and> admits d root row b" using parts by auto
  show "granted d root pl i s (accepted_actions i (te_table (tx_entry ctx)) operation)"
    if governed: "governed_by pl s (te_table (tx_entry ctx)) i"
  proof -
    obtain info e where "grant_info pl i path = Ok info"
      "grant_exists pl i info s (accepted_actions i (te_table (tx_entry ctx)) operation) path = Ok e" "gate = Some e"
      using parts(1) governed by (auto simp: iam_predicate_def governed_by_def Let_def)
    then show ?thesis using grant_exists_Ok[of pl i path info s _ e d root row] parts(2) by simp
  qed
qed

section \<open>Reads and writes\<close>

text \<open>
  (C4) A role reads only rows of its tenant. Whatever its declared filters say, also when one of them is
  empty, the predicate that the planner adds to a read of a tenanted table admits a row only if the
  row belongs to the tenant of the session, directly or through the relationship that scopes the
  table, and only while the registry serves that tenant; for a declared cross-tenant read it admits a
  row only if it belongs to the caller. A role governed by grants needs a grant of the tenant for
  reading that table. Without a tenant in the session there is no predicate, but an error.
\<close>

theorem reads_stay_in_the_tenant:
  assumes "permission_predicate pl ext s path ctx = Ok p" "tx_perms ctx \<noteq> []" "pl_tenancy pl = Some t" "admits d root row p"
  shows "(case cross_tenant_read_of t (te_table (tx_entry ctx)) (se_role s) of
      Some subject \<Rightarrow> \<exists>v. session_var s (sb_variable subject) = Some v \<and> v \<noteq> [] \<and> equals d root row (tx_info ctx) (sb_column subject) v
    | None \<Rightarrow> shared_table pl (te_table (tx_entry ctx)) \<or>
        (\<exists>v. tenant_of t s v \<and> row_of_tenant d root row pl t ctx v \<and> tenant_served d root pl t v)) \<and>
    (\<forall>i. governed_by pl s (te_table (tx_entry ctx)) i \<longrightarrow>
       granted d root pl i s (accepted_actions i (te_table (tx_entry ctx)) ISelect))"
proof -
  from assms(1,2) obtain declared bound where parts: "tenant_predicate pl ctx s TenantSession path = Ok bound"
    "with_iam pl (conjoin [declared, bound]) ctx s ISelect path = Ok p"
    by (auto simp: permission_predicate_def permission_predicate_scoped_def permission_predicate_full_def Let_def)
  note iam = with_iam_admits[OF parts(2) assms(4)]
  have bound: "admits d root row bound" using iam(1) by simp
  show ?thesis
  proof (cases "cross_tenant_read_of t (te_table (tx_entry ctx)) (se_role s)")
    case None
    then show ?thesis using tenant_predicate_confines[OF parts(1) assms(3) bound None] iam(2) by auto
  next
    case (Some subject)
    then obtain e where "subject_compare ctx subject s path = Ok e" "bound = Some e"
      using parts(1) assms(3) by (auto simp: tenant_predicate_def)
    then show ?thesis
      using Some bound iam(2) by (auto simp: subject_compare_def equals_def Let_def split: option.splits if_splits)
  qed
qed

lemma write_bound_confines:
  assumes "write_tenant_predicate_from pl ctx s TenantSession path = Ok b" "admits d root row b" "pl_tenancy pl = Some t"
    "table_scope_of t (te_table (tx_entry ctx)) = ScopeKey key"
  shows "\<exists>v. tenant_of t s v \<and> equals d root row (tx_info ctx) key v"
proof -
  obtain e where e: "tenant_compare pl (tx_info ctx) (te_table (tx_entry ctx)) key s TenantSession path = Ok e" "b = Some e"
    using assms(1,3,4) by (auto simp: write_tenant_predicate_from_def)
  obtain v where "tenant_of t s v" using tenant_compare_tenant[OF e(1)] assms(3) by auto
  then show ?thesis using tenant_compare_Ok[OF e(1) assms(3), of _ d root row] assms(2) e(2) by blast
qed


text \<open>The rows that an update or a delete selects, and the value that an insert presets.\<close>

lemma write_filter_stays_in_the_tenant:
  assumes "write_permission_filter pl ext s path ctx declared = Ok p" "admits d root row p" "pl_tenancy pl = Some t"
    "table_scope_of t (te_table (tx_entry ctx)) = ScopeKey key"
  shows "\<exists>v. tenant_of t s v \<and> equals d root row (tx_info ctx) key v"
  using assms(1,2) write_bound_confines[OF _ _ assms(3,4), of s path _ d root row] by (auto simp: write_permission_filter_def)

lemma preset_is_the_tenant:
  assumes "tenant_preset pl ctx s path = Ok preset" "pl_tenancy pl = Some t" "table_scope_of t (te_table (tx_entry ctx)) = ScopeKey key"
  shows "\<exists>ci v. column (tx_info ctx) key = Some ci \<and> tenant_of t s v \<and> preset = Some (key, sql_type ci, v)"
  using assms by (auto simp: tenant_preset_def tenant_value_Ok)

end
