(* ===== verification/Plan_Visibility.thy ===== *)
theory Plan_Visibility
  imports Plan_Isolation
begin

text \<open>
  Filters of users see only rows that the user may read: a filter compiled with the row filters of the
  related tables means what the filter as written means on the database of visible rows.
\<close>

section \<open>Filters that reach other tables by relationships\<close>

text \<open>The functions of the catalog are found under their own names.\<close>

definition functions_keyed :: "db_catalog \<Rightarrow> bool" where
  "functions_keyed c \<longleftrightarrow> (\<forall>schema name f. catalog_function c schema name = Some f \<longrightarrow> fi_schema f = schema \<and> fi_name f = name)"

text \<open>A filter that reaches other tables by relationships only.\<close>

definition column_operators :: "string set" where
  "column_operators = {''_ceq'', ''_cne'', ''_cneq'', ''_cgt'', ''_clt'', ''_cgte'', ''_clte''}"

fun related_only :: "json \<Rightarrow> bool" where
  "related_only (JObject ms) \<longleftrightarrow>
     (\<forall>(k, v) \<in> set ms. k \<noteq> ''_exists'' \<and> (normalize_predicate_operator k \<in> column_operators \<longrightarrow> as_array v = None) \<and> related_only v)"
| "related_only (JArray vs) \<longleftrightarrow> (\<forall>v \<in> set vs. related_only v)"
| "related_only _ \<longleftrightarrow> True"

fun compares_related :: "compare_operator \<Rightarrow> bool" where
  "compares_related (OpCompareColumnRel _ _ _ _) \<longleftrightarrow> True"
| "compares_related _ \<longleftrightarrow> False"

lemma not_related [simp]: "\<not> compares_related op \<Longrightarrow> related_rows d row op = {}"
  by (cases op) auto

section \<open>Operators\<close>

lemma classify_column_operator:
  "classify_predicate_operator caps name = Some op \<Longrightarrow> op \<in> {PCeq, PCne, PCgt, PClt, PCgte, PClte} \<Longrightarrow> name \<in> column_operators"
  by (auto simp: classify_predicate_operator_def basic_operators_def regex_operators_def jsonb_operators_def geo_operators_def
      column_operators_def split: if_splits)

lemma column_compare_local:
  "column_compare env ctx path sql_op v = Ok op \<Longrightarrow> as_array v = None \<Longrightarrow> \<not> compares_related op"
  by (cases v) (auto simp: column_compare_def Let_def)

lemma parse_operator_local:
  assumes "parse_operator env ctx scalar_name path op_path operator v = Ok op"
    "operator \<in> {PCeq, PCne, PCgt, PClt, PCgte, PClte} \<Longrightarrow> as_array v = None"
  shows "\<not> compares_related op"
proof (cases "operator \<in> {PCeq, PCne, PCgt, PClt, PCgte, PClte}")
  case True
  then show ?thesis using assms column_compare_local[of env ctx path _ v op] by (auto simp: parse_operator_def Let_def)
next
  case False
  then show ?thesis using assms(1) by (cases operator) (auto simp: parse_operator_def Let_def)
qed

lemma collect_res_element: "collect_res f xs = Ok ys \<Longrightarrow> y \<in> set ys \<Longrightarrow> \<exists>x \<in> set xs. f x = Ok y"
  by (induction xs arbitrary: ys) auto

lemma parse_ops_local:
  assumes "parse_ops env ctx c scalar_name path v = Ok ops" "related_only v" "op \<in> set ops"
  shows "\<not> compares_related op"
proof (cases "as_object v")
  case None
  then show ?thesis using assms(1,3) by (cases v) (auto simp: parse_ops_def)
next
  case (Some ms)
  then have v: "v = JObject ms" by (cases v) auto
  from assms(1) have "collect_res (\<lambda>(raw_name, operand). let op_name = normalize_predicate_operator raw_name in
      case classify_predicate_operator (pl_capabilities (fv_planner env)) op_name of
        None \<Rightarrow> Err (invalid path (''unexpected operator '' @ double_quoted op_name @ '' for column '' @ quoted c))
      | Some operator \<Rightarrow> parse_operator env ctx scalar_name path (path @ ''.'' @ op_name) operator operand) ms = Ok ops"
    by (simp add: parse_ops_def v)
  from collect_res_element[OF this assms(3)] obtain k w operator where kw: "(k, w) \<in> set ms"
    "classify_predicate_operator (pl_capabilities (fv_planner env)) (normalize_predicate_operator k) = Some operator"
    "parse_operator env ctx scalar_name path (path @ ''.'' @ normalize_predicate_operator k) operator w = Ok op"
    by (auto simp: Let_def split: option.splits)
  have "normalize_predicate_operator k \<in> column_operators \<Longrightarrow> as_array w = None" using assms(2) v kw(1) by auto
  then show ?thesis using parse_operator_local[OF kw(3)] classify_column_operator[OF kw(2)] by blast
qed

section \<open>Filters of users\<close>

text \<open>
  Two parses of a filter agree if each of them answers and the one with row filters means on the
  database what the one without means on the visible database.
\<close>

definition means_alike :: "'r database \<Rightarrow> 'r database \<Rightarrow> 'r \<Rightarrow> bool_exp \<Rightarrow> bool_exp \<Rightarrow> bool" where
  "means_alike d d' root e e' \<longleftrightarrow> (\<forall>row. holds d root row e = holds d' root row e')"

lemma agrees_lists:
  assumes "list_all2 (means_alike d d' root) es es'"
  shows "means_alike d d' root (BAnd es) (BAnd es')" "means_alike d d' root (BOr es) (BOr es')"
    "means_alike d d' root (conjunction es) (conjunction es')"
proof -
  have same: "map (holds d root row) es = map (holds d' root row) es'" for row
    using assms by (auto simp: list_all2_conv_all_nth means_alike_def intro: nth_equalityI)
  then show "means_alike d d' root (BAnd es) (BAnd es')" "means_alike d d' root (BOr es) (BOr es')" by (auto simp: means_alike_def)
  show "means_alike d d' root (conjunction es) (conjunction es')"
  proof (cases "\<exists>e. es = [e]")
    case True
    then show ?thesis using assms by (auto simp: list_all2_Cons1)
  next
    case False
    then have "conjunction es = BAnd es" "conjunction es' = BAnd es'"
      using assms by (cases es rule: conjunction.cases; cases es' rule: conjunction.cases; simp)+
    then show ?thesis using same by (simp add: means_alike_def)
  qed
qed

lemma collect_agrees:
  assumes "collect_res f xs = Ok es" "\<And>x e. x \<in> set xs \<Longrightarrow> f x = Ok e \<Longrightarrow> \<exists>e'. g x = Ok e' \<and> R e e'"
  shows "\<exists>es'. collect_res g xs = Ok es' \<and> list_all2 R es es'"
  using assms
proof (induction xs arbitrary: es)
  case (Cons x xs)
  then obtain e rest where e: "f x = Ok e" "collect_res f xs = Ok rest" "es = e # rest" by auto
  obtain e' where "g x = Ok e'" "R e e'" using Cons.prems(2)[of x e] e(1) by auto
  moreover obtain rest' where "collect_res g xs = Ok rest'" "list_all2 R rest rest'"
    using Cons.IH[OF e(2)] Cons.prems(2) by (metis list.set_intros(2))
  ultimately show ?case by (simp add: e(3))
qed simp

text \<open>
  The interface between filters and permissions: the second database has the rows of the first that the
  row filters of the planner admit. Whatever computes the row filters, filters then mean on the first
  database what they mean without row filters on the second.
\<close>

locale restricted_view =
  fixes pl :: planner and s :: session and row_filter :: row_filter and d :: "'r database" and d' :: "'r database" and root :: 'r
  assumes rows_restricted: "relationship_ctx pl s False relation = Some remote \<Longrightarrow> row_filter remote = Ok p \<Longrightarrow>
      rows d' (table_of relation) = {r \<in> rows d (table_of relation). admits d root r p}"
    and function_rows_restricted: "relationship_ctx pl s False (Qualified sc n) = Some remote \<Longrightarrow> row_filter remote = Ok p \<Longrightarrow>
      catalog_function (pl_catalog pl) (fi_schema f) (fi_name f) = Some f \<Longrightarrow> fi_returns_table f = Some (sc, n) \<Longrightarrow>
      function_rows d' (fi_schema f) (fi_name f) args row = {r \<in> function_rows d (fi_schema f) (fi_name f) args row. admits d root r p}"
    and unchanged: "joined d' = joined d" "compares d' = compares d" "function_compares d' = function_compares d"
begin

lemma agrees_columns:
  assumes "\<And>op. op \<in> set ops \<Longrightarrow> \<not> compares_related op"
  shows "means_alike d d' root (conjunction (map (BCompare c ty) ops)) (conjunction (map (BCompare c ty) ops))"
  by (rule agrees_lists(3)) (use assms in \<open>auto simp: list_all2_conv_all_nth means_alike_def unchanged\<close>)

lemma agrees_computed:
  assumes "\<And>op. op \<in> set ops \<Longrightarrow> \<not> compares_related op"
  shows "means_alike d d' root (conjunction (map (BComputedCompare sc n args ty) ops))
      (conjunction (map (BComputedCompare sc n args ty) ops))"
  by (rule agrees_lists(3)) (use assms in \<open>auto simp: list_all2_conv_all_nth means_alike_def unchanged\<close>)

lemma restricted_relationship:
  assumes "relationship_ctx pl s False relation = Some remote" "row_filter remote = Ok p"
    "means_alike d d' root inner inner'"
  shows "means_alike d d' root
    (BRelationship (table_of relation) pairs (case p of Some q \<Rightarrow> BAnd [inner, q] | None \<Rightarrow> inner))
    (BRelationship (table_of relation) pairs inner')"
  using assms(3) by (auto simp: means_alike_def rows_restricted[OF assms(1,2)] unchanged admits_def all_true_iff split: option.splits)

lemma restricted_function:
  assumes "relationship_ctx pl s False (Qualified sc n) = Some remote" "row_filter remote = Ok p"
    "catalog_function (pl_catalog pl) (fi_schema f) (fi_name f) = Some f" "fi_returns_table f = Some (sc, n)"
    "means_alike d d' root inner inner'"
  shows "means_alike d d' root
    (BRowFunctionExists (fi_schema f) (fi_name f) args (case p of Some q \<Rightarrow> BAnd [inner, q] | None \<Rightarrow> inner))
    (BRowFunctionExists (fi_schema f) (fi_name f) args inner')"
  using assms(5)
  by (auto simp: means_alike_def function_rows_restricted[OF assms(1-4)] admits_def all_true_iff split: option.splits)

lemma computed_predicate_agrees:
  assumes "computed_field_predicate rec env row_filter ctx computed w = Ok e"
    "env = filter_env_of pl ext s False path" "functions_keyed (pl_catalog pl)" "related_only w"
    "\<And>c e. rec c w = Ok e \<Longrightarrow> \<exists>e'. rec' c w = Ok e' \<and> means_alike d d' root e e'"
  shows "\<exists>e'. computed_field_predicate rec' env (\<lambda>_. Ok None) ctx computed w = Ok e' \<and>
    means_alike d d' root e e'"
proof -
  have env: "fv_is_permission env = False" "fv_planner env = pl" "fv_session env = s" by (simp_all add: assms(2) filter_env_of_def)
  obtain f where f: "computed_function env computed = Ok f" using assms(1) by (auto simp: computed_field_predicate_def)
  then have known: "catalog_function (pl_catalog pl) (fi_schema f) (fi_name f) = Some f"
    using assms(3) by (auto simp: computed_function_def env functions_keyed_def)
  show ?thesis
  proof (cases "fi_returns_table f")
    case None
    then obtain ops where ops: "parse_ops env ctx (cf_name computed) (scalar_result f) (fv_path env @ ''.'' @ cf_name computed) w = Ok ops"
      "e = conjunction (map (BComputedCompare (fi_schema f) (fi_name f) (computed_args env computed f) (scalar_result f)) ops)"
      using assms(1) f by (auto simp: computed_field_predicate_def)
    then show ?thesis
      using agrees_computed[OF parse_ops_local[OF ops(1) assms(4)]] f None by (simp add: computed_field_predicate_def)
  next
    case (Some relation)
    obtain sc n where relation: "relation = (sc, n)" by (cases relation)
    then obtain remote inner p where r: "remote_ctx env ctx (cf_name computed) (Qualified sc n) = Ok remote" "rec remote w = Ok inner"
      "row_filter remote = Ok p"
      "e = BRowFunctionExists (fi_schema f) (fi_name f) (computed_args env computed f) (case p of Some q \<Rightarrow> BAnd [inner, q] | None \<Rightarrow> inner)"
      using assms(1) f Some by (auto simp: computed_field_predicate_def restrict_rows_def env)
    obtain inner' where inner': "rec' remote w = Ok inner'" "means_alike d d' root inner inner'"
      using assms(5)[OF r(2)] by blast
    have "relationship_ctx pl s False (Qualified sc n) = Some remote" using r(1) by (auto simp: remote_ctx_def env)
    from restricted_function[OF this r(3) known _ inner'(2)] Some relation show ?thesis
      using r f inner' by (simp add: computed_field_predicate_def restrict_rows_def env)
  qed
qed

lemma field_agrees:
  assumes "parse_field rec env row_filter ctx name w = Ok e"
    "env = filter_env_of pl ext s False path" "functions_keyed (pl_catalog pl)" "related_only w"
    "\<And>c e. rec c w = Ok e \<Longrightarrow> \<exists>e'. rec' c w = Ok e' \<and> means_alike d d' root e e'"
  shows "\<exists>e'. parse_field rec' env (\<lambda>_. Ok None) ctx name w = Ok e' \<and> means_alike d d' root e e'"
proof -
  have env: "fv_is_permission env = False" "fv_planner env = pl" "fv_session env = s" by (simp_all add: assms(2) filter_env_of_def)
  obtain field where field: "filter_field_of env ctx name = Ok field" using assms(1) by (auto simp: parse_field_def)
  show ?thesis
  proof (cases field)
    case (FieldColumn db info)
    then obtain ops where ops: "parse_ops env ctx db (ci_pg_type info) (fv_path env @ ''.'' @ name) w = Ok ops"
      "e = conjunction (map (BCompare db (sql_type info)) ops)"
      using assms(1) field by (auto simp: parse_field_def column_predicate_def)
    then show ?thesis
      using agrees_columns[OF parse_ops_local[OF ops(1) assms(4)]] field FieldColumn by (simp add: parse_field_def column_predicate_def)
  next
    case (FieldComputed computed)
    then have "computed_field_predicate rec env row_filter ctx computed w = Ok e"
      using assms(1) field by (simp add: parse_field_def)
    from computed_predicate_agrees[where rec' = rec', OF this assms(2-5)] show ?thesis
      using field FieldComputed by (simp add: parse_field_def)
  next
    case FieldRelationship
    then obtain relation pairs remote inner p where r: "relationship_of env ctx name = Ok (relation, pairs, remote)" "rec remote w = Ok inner"
      "row_filter remote = Ok p"
      "e = BRelationship (table_of relation) pairs (case p of Some q \<Rightarrow> BAnd [inner, q] | None \<Rightarrow> inner)"
      using assms(1) field by (auto simp: parse_field_def restrict_rows_def env)
    obtain inner' where inner': "rec' remote w = Ok inner'" "means_alike d d' root inner inner'"
      using assms(5)[OF r(2)] by blast
    have "relationship_ctx pl s False relation = Some remote" using r(1) by (auto simp: relationship_of_def remote_ctx_def env)
    from restricted_relationship[OF this r(3) inner'(2)] show ?thesis
      using r field FieldRelationship inner' by (simp add: parse_field_def restrict_rows_def env)
  qed
qed

lemma member_agrees:
  assumes "parse_bool_member rec env row_filter ctx key w = Ok e"
    "env = filter_env_of pl ext s False path" "functions_keyed (pl_catalog pl)" "related_only w" "key \<noteq> ''_exists''"
    "\<And>c u e. size u \<le> size w \<Longrightarrow> related_only u \<Longrightarrow> rec c u = Ok e \<Longrightarrow>
       \<exists>e'. rec' c u = Ok e' \<and> means_alike d d' root e e'"
  shows "\<exists>e'. parse_bool_member rec' env (\<lambda>_. Ok None) ctx key w = Ok e' \<and> means_alike d d' root e e'"
proof -
  let ?k = "normalize_logical_operator key"
  have items: "\<exists>es'. collect_res (rec' ctx) xs = Ok es' \<and> list_all2 (means_alike d d' root) es es'"
    if xs: "as_array w = Some xs" "collect_res (rec ctx) xs = Ok es" for xs es
  proof (rule collect_agrees[OF xs(2)])
    fix x e assume x: "x \<in> set xs" "rec ctx x = Ok e"
    have "w = JArray xs" using xs(1) by (cases w) auto
    then have "size x \<le> size w" "related_only x" using array_item_size[OF xs(1) x(1)] assms(4) x(1) by auto
    then show "\<exists>e'. rec' ctx x = Ok e' \<and> means_alike d d' root e e'" using assms(6) x(2) by blast
  qed
  have "?k \<noteq> ''_exists''" using assms(5) by (auto simp: normalize_logical_operator_def)
  then consider "?k = ''_and''" | "?k = ''_or''" | "?k = ''_not''" | "?k \<notin> {''_and'', ''_or'', ''_not'', ''_exists''}" by blast
  then show ?thesis
  proof cases
    case 1
    then show ?thesis using assms(1) items agrees_lists(1) by (fastforce simp: parse_bool_member_def)
  next
    case 2
    then show ?thesis using assms(1) items agrees_lists(2) by (fastforce simp: parse_bool_member_def)
  next
    case 3
    then obtain inner where inner: "rec ctx w = Ok inner" "e = BNot inner" using assms(1) by (auto simp: parse_bool_member_def)
    then show ?thesis using assms(4) assms(6)[OF order_refl] 3 by (fastforce simp: parse_bool_member_def means_alike_def)
  next
    case 4
    then have "parse_field rec env row_filter ctx ?k w = Ok e"
      using assms(1) by (simp add: parse_bool_member_def)
    from field_agrees[where rec' = rec', OF this assms(2-4) assms(6)[OF order_refl assms(4)]] show ?thesis
      using 4 by (simp add: parse_bool_member_def)
  qed
qed

lemma filter_agrees:
  assumes "functions_keyed (pl_catalog pl)" "env = filter_env_of pl ext s False path"
    and parsed: "parse_filter env row_filter ctx v = Ok e" "related_only v"
  shows "\<exists>e'. parse_filter env (\<lambda>_. Ok None) ctx v = Ok e' \<and> means_alike d d' root e e'"
  using parsed
proof (induction v arbitrary: ctx e rule: measure_induct_rule[of size])
  case (less v)
  from less.prems(1) obtain ms es where v: "v = JObject ms" and es: "e = conjunction es"
    "collect_res (\<lambda>(key, w). parse_bool_member (parse_filter env row_filter) env row_filter ctx key w) ms = Ok es"
    by (cases v) (auto simp: parse_filter.simps[of env row_filter ctx])
  have "\<exists>es'. collect_res (\<lambda>(key, w). parse_bool_member (parse_filter env (\<lambda>_. Ok None)) env (\<lambda>_. Ok None) ctx key w) ms = Ok es' \<and>
      list_all2 (means_alike d d' root) es es'"
  proof (rule collect_agrees[OF es(2)])
    fix m e assume m: "m \<in> set ms" "(case m of (key, w) \<Rightarrow>
      parse_bool_member (parse_filter env row_filter) env row_filter ctx key w) = Ok e"
    obtain key w where kw: "m = (key, w)" by (cases m)
    have small: "size w < size v" using m(1) size_list_estimation'[of "(key, w)" ms "size w" "size_prod (\<lambda>_. 0) size"] by (simp add: v kw)
    have w: "related_only w" "key \<noteq> ''_exists''" using less.prems(2) m(1) by (auto simp: v kw)
    have parsed: "parse_bool_member (parse_filter env row_filter) env row_filter ctx key w = Ok e"
      using m(2) by (simp add: kw)
    have "\<exists>e'. parse_filter env (\<lambda>_. Ok None) c u = Ok e' \<and> means_alike d d' root e e'"
      if "size u \<le> size w" "related_only u" "parse_filter env row_filter c u = Ok e" for c u e
      using less.IH[OF _ that(3,2)] that(1) small by simp
    from member_agrees[where rec' = "parse_filter env (\<lambda>_. Ok None)", OF parsed assms(2,1) w this]
    show "\<exists>e'. (case m of (key, w) \<Rightarrow> parse_bool_member (parse_filter env (\<lambda>_. Ok None)) env (\<lambda>_. Ok None) ctx key w) = Ok e' \<and>
        means_alike d d' root e e'"
      unfolding kw prod.case .
  qed
  then obtain es' where es': "collect_res (\<lambda>(key, w). parse_bool_member (parse_filter env (\<lambda>_. Ok None)) env (\<lambda>_. Ok None) ctx key w) ms = Ok es'"
    "list_all2 (means_alike d d' root) es es'" by blast
  have "parse_filter env (\<lambda>_. Ok None) ctx v = Ok (conjunction es')"
    using es'(1) by (simp add: v parse_filter.simps[of env "\<lambda>_. Ok None" ctx])
  then show ?case using agrees_lists(3)[OF es'(2)] es(1) by blast
qed

end

section \<open>The database as a user may see it\<close>

text \<open>
  A row of a table is visible to a session if the predicate of the role for that table admits it. The
  rows that a function returns are rows of the table whose type it has. The visible database has only
  the visible rows; nothing else differs.
\<close>

definition visible ::
  "'r database \<Rightarrow> 'r \<Rightarrow> planner \<Rightarrow> plan_externs \<Rightarrow> session \<Rightarrow> string \<Rightarrow> qualified_table \<Rightarrow> 'r \<Rightarrow> bool" where
  "visible d root pl ext s path relation r \<longleftrightarrow>
     (\<forall>ctx p. relationship_ctx pl s False relation = Some ctx \<and> permission_predicate pl ext s path ctx = Ok p \<longrightarrow> admits d root r p)"

definition visible_db ::
  "'r database \<Rightarrow> 'r \<Rightarrow> planner \<Rightarrow> plan_externs \<Rightarrow> session \<Rightarrow> string \<Rightarrow> 'r database" where
  "visible_db d root pl ext s path = d\<lparr>
     rows := (\<lambda>t. {r \<in> rows d t. visible d root pl ext s path (Qualified (it_schema t) (it_name t)) r}),
     function_rows := (\<lambda>schema name args row. {r \<in> function_rows d schema name args row.
       \<forall>f relation. catalog_function (pl_catalog pl) schema name = Some f \<and> fi_returns_table f = Some relation \<longrightarrow>
         visible d root pl ext s path (Qualified (fst relation) (snd relation)) r})\<rparr>"

lemma relationship_ctx_name:
  "relationship_ctx pl s b (Qualified (it_schema (table_of relation)) (it_name (table_of relation))) = relationship_ctx pl s b relation"
  by (simp add: relationship_ctx_def by_table_def table_to_string_def table_of_def)

lemma visible_rows:
  "rows (visible_db d root pl ext s path) (table_of relation) = {r \<in> rows d (table_of relation). visible d root pl ext s path relation r}"
  by (simp add: visible_db_def visible_def relationship_ctx_name)

lemma visible_admits:
  "relationship_ctx pl s False relation = Some ctx \<Longrightarrow> permission_predicate pl ext s path ctx = Ok p \<Longrightarrow>
   visible d root pl ext s path relation r \<longleftrightarrow> admits d root r p"
  by (auto simp: visible_def)

interpretation visible_view: restricted_view pl s "permission_predicate pl ext s path" d "visible_db d root pl ext s path" root
  for pl ext s path d root
proof
  fix relation remote p
  assume "relationship_ctx pl s False relation = Some remote" "permission_predicate pl ext s path remote = Ok p"
  from visible_admits[OF this, of d root]
  show "rows (visible_db d root pl ext s path) (table_of relation) = {r \<in> rows d (table_of relation). admits d root r p}"
    by (simp add: visible_rows)
next
  fix sc n remote p f args row
  assume "relationship_ctx pl s False (Qualified sc n) = Some remote" "permission_predicate pl ext s path remote = Ok p"
    and f: "catalog_function (pl_catalog pl) (fi_schema f) (fi_name f) = Some f" "fi_returns_table f = Some (sc, n)"
  from visible_admits[OF this(1,2), of d root]
  show "function_rows (visible_db d root pl ext s path) (fi_schema f) (fi_name f) args row =
      {r \<in> function_rows d (fi_schema f) (fi_name f) args row. admits d root r p}"
    by (simp add: visible_db_def f)
qed (simp_all add: visible_db_def)

text \<open>
  (C5) The filter of a user, \<open>where\<close>, sees only rows that the user may read. Compiled and evaluated on the
  whole database, a filter that reaches other tables through relationships means exactly what the
  filter as written means on the database that has only the visible rows: rows of related tables, and
  rows that functions return, count only when the predicate of the role for their table, with its
  filters, its tenant and its grants, admits them. So no answer depends on a related row that the
  user could not have read.
\<close>

theorem user_filters_see_visible_rows:
  assumes "parse_bool_exp pl ext s False path ctx v = Ok e" "related_only v" "functions_keyed (pl_catalog pl)"
  shows "\<exists>e'. parse_filter (filter_env_of pl ext s False path) (\<lambda>_. Ok None) ctx v = Ok e' \<and>
    holds d root row e = holds (visible_db d root pl ext s path) root row e'"
  using visible_view.filter_agrees[OF assms(3) refl assms(1)[unfolded parse_bool_exp_def] assms(2), of d root] by (auto simp: means_alike_def)

end
