(* ===== verification/Plan_Sessions.thy ===== *)
theory Plan_Sessions
  imports Plan_Permission
begin

text \<open>
  The session variables that a filter of the metadata reads (\<open>collect_permission_session_uses\<close> of
  \<open>crates/schema/src/predicate.rs\<close>), and that the collected contract is closed.
\<close>

section \<open>Session variables of filters\<close>

datatype session_operand = UScalar column_info | UList column_info | UBoolean | UString | UStringList | UDecimal

record session_use =
  su_name :: string
  su_operand :: session_operand

definition collect_permission_session_operand :: "json \<Rightarrow> session_operand \<Rightarrow> session_use list" where
  "collect_permission_session_operand v operand =
     (case v of
        JString name \<Rightarrow> if is_session_var_name name then [\<lparr>su_name = name, su_operand = operand\<rparr>] else []
      | _ \<Rightarrow> [])"

definition operator_session_uses :: "column_info \<Rightarrow> string \<Rightarrow> predicate_operator \<Rightarrow> json \<Rightarrow> session_use list planned" where
  "operator_session_uses c path operator v =
     (case session_operand_kind operator of
        KScalar \<Rightarrow> Ok (collect_permission_session_operand v (UScalar c))
      | KList \<Rightarrow> Ok (collect_permission_session_operand v (UList c))
      | KBoolean \<Rightarrow> Ok (collect_permission_session_operand v UBoolean)
      | KString \<Rightarrow> Ok (collect_permission_session_operand v UString)
      | KStringList \<Rightarrow> Ok (collect_permission_session_operand v UStringList)
      | KNone \<Rightarrow> Ok []
      | KDistance \<Rightarrow>
          res_map (\<lambda>(distance, from_value). collect_permission_session_operand distance UDecimal @
              collect_permission_session_operand from_value (UScalar c)) (d_within_operands path v))"

definition collect_operator_session_uses :: "planner \<Rightarrow> column_info \<Rightarrow> string \<Rightarrow> json \<Rightarrow> session_use list planned" where
  "collect_operator_session_uses pl c path v =
     (case v of
        JObject ops \<Rightarrow>
          res_map concat (collect_res (\<lambda>(raw_name, operand).
            let name = normalize_predicate_operator raw_name in
            case classify_predicate_operator (pl_capabilities pl) name of
              None \<Rightarrow> Err (invalid path (''unexpected operator '' @ double_quoted name @ '' for column '' @ quoted (ci_name c)))
            | Some operator \<Rightarrow> operator_session_uses c path operator operand) ops)
      | _ \<Rightarrow> Ok (collect_permission_session_operand v (UScalar c)))"

text \<open>
  The environment of the traversal is that of a filter of the metadata, for a session without role and
  variables. The result of a computed field is compared like a column of its type.
\<close>

definition permission_probe :: session where
  "permission_probe = \<lparr>se_role = [], se_vars = [], se_backend_request = False\<rparr>"

definition computed_column :: "computed_field \<Rightarrow> function_info \<Rightarrow> column_info" where
  "computed_column computed f = \<lparr>ci_name = cf_name computed, ci_pg_type = scalar_result f, ci_pg_typmod = -1, ci_native_type = None,
     ci_nullable = False, ci_has_default = False\<rparr>"

definition computed_session_uses ::
  "(table_ctx \<Rightarrow> json \<Rightarrow> session_use list planned) \<Rightarrow> filter_env \<Rightarrow> table_ctx \<Rightarrow> computed_field \<Rightarrow> json \<Rightarrow> session_use list planned" where
  "computed_session_uses rec env ctx computed v =
     (if cf_session_argument computed \<noteq> None then
        Err (invalid (fv_path env) (''computed field '' @ quoted (cf_name computed) @
          '' uses session_argument and cannot publish a closed session-variable contract''))
      else res_bind (computed_function env computed) (\<lambda>f.
        case fi_returns_table f of
          Some (schema, name) \<Rightarrow>
            res_bind (remote_ctx env ctx (cf_name computed) (Qualified schema name)) (\<lambda>remote. rec remote v)
        | None \<Rightarrow>
            collect_operator_session_uses (fv_planner env) (computed_column computed f) (fv_path env @ ''.'' @ cf_name computed) v))"

definition field_session_uses ::
  "(table_ctx \<Rightarrow> json \<Rightarrow> session_use list planned) \<Rightarrow> filter_env \<Rightarrow> table_ctx \<Rightarrow> string \<Rightarrow> json \<Rightarrow> session_use list planned" where
  "field_session_uses rec env ctx name v =
     res_bind (filter_field_of env ctx name) (\<lambda>field.
     case field of
       FieldColumn db info \<Rightarrow> collect_operator_session_uses (fv_planner env) info (fv_path env @ ''.'' @ name) v
     | FieldComputed computed \<Rightarrow> computed_session_uses rec env ctx computed v
     | FieldRelationship \<Rightarrow> res_bind (relationship_of env ctx name) (\<lambda>(relation, pairs, remote). rec remote v))"

definition member_session_uses ::
  "(table_ctx \<Rightarrow> json \<Rightarrow> session_use list planned) \<Rightarrow> filter_env \<Rightarrow> table_ctx \<Rightarrow> string \<Rightarrow> json \<Rightarrow> session_use list planned" where
  "member_session_uses rec env ctx key v =
     (let logical = normalize_logical_operator key in
      if logical = ''_and'' \<or> logical = ''_or'' then
        res_bind (ok_or (invalid (fv_path env) ''expected an array of bool expressions'') (as_array v))
          (\<lambda>xs. res_map concat (collect_res (rec ctx) xs))
      else if logical = ''_not'' then rec ctx v
      else if logical = ''_exists'' then
        res_bind (exists_target env v) (\<lambda>(relation, where_value, remote). rec remote where_value)
      else field_session_uses rec env ctx logical v)"

lemma member_session_uses_cong [fundef_cong]:
  assumes "env = env'" "ctx = ctx'" "key = key'" "v = v'" and rec: "\<And>c w. size w \<le> size v' \<Longrightarrow> rec c w = rec' c w"
  shows "member_session_uses rec env ctx key v = member_session_uses rec' env' ctx' key' v'"
proof -
  have "collect_res (rec ctx) xs = collect_res (rec' ctx) xs" if "as_array v = Some xs" for xs
    by (rule collect_res_cong) (use rec assms(4) array_item_size[OF that] in \<open>auto intro: less_imp_le\<close>)
  moreover have "rec c w = rec' c w" if "exists_target env v = Ok (relation, w, c)" for relation w c
    using rec exists_target_size[OF that] assms(4) by (simp add: less_imp_le)
  moreover have "field_session_uses rec env ctx name v = field_session_uses rec' env ctx name v" for name
    using rec assms(4)
    by (auto intro!: res_bind_cong simp: field_session_uses_def computed_session_uses_def
        split: filter_field.splits option.splits prod.splits)
  ultimately show ?thesis
    unfolding assms(1-4)[symmetric] member_session_uses_def Let_def
    using rec assms(4) by (auto intro!: res_bind_cong split: prod.splits)
qed

function collect_bool_exp_session_uses :: "filter_env \<Rightarrow> table_ctx \<Rightarrow> json \<Rightarrow> session_use list planned" where
  "collect_bool_exp_session_uses env ctx v =
     res_bind (ok_or (invalid (fv_path env) ''expected a bool expression object'') (as_object v)) (\<lambda>members.
     res_map concat (collect_res (\<lambda>(key, w). member_session_uses (collect_bool_exp_session_uses env) env ctx key w) members))"
  by pat_completeness auto
termination
proof (relation "measure (\<lambda>(env, ctx, v). size v)", goal_cases)
  case (2 env ctx v members p key w c u)
  then have "v = JObject members" "(key, w) \<in> set members" by (cases v; auto)+
  then show ?case
    using 2 size_list_estimation'[of "(key, w)" members "size w" "size_prod (\<lambda>_. 0) size"] by auto
qed simp

declare collect_bool_exp_session_uses.simps [simp del]

definition collect_permission_session_uses ::
  "planner \<Rightarrow> plan_externs \<Rightarrow> string \<Rightarrow> table_ctx \<Rightarrow> json \<Rightarrow> session_use list planned" where
  "collect_permission_session_uses pl ext path ctx v =
     collect_bool_exp_session_uses (filter_env_of pl ext permission_probe True path) ctx v"

section \<open>The contract of a filter\<close>

text \<open>Two sessions agree on the variables of a contract.\<close>

definition agree_on :: "session_use list \<Rightarrow> session \<Rightarrow> session \<Rightarrow> bool" where
  "agree_on uses s s' \<longleftrightarrow> (\<forall>u \<in> set uses. session_var s (su_name u) = session_var s' (su_name u))"

lemma agree_on_append [simp]: "agree_on (us @ us') s s' \<longleftrightarrow> agree_on us s s' \<and> agree_on us' s s'"
  by (auto simp: agree_on_def)

lemma agree_on_concat [simp]: "agree_on (concat uss) s s' \<longleftrightarrow> (\<forall>us \<in> set uss. agree_on us s s')"
  by (auto simp: agree_on_def)

lemma env_select [simp]:
  "fv_planner (filter_env_of pl ext s b path) = pl" "fv_externs (filter_env_of pl ext s b path) = ext"
  "fv_session (filter_env_of pl ext s b path) = s" "fv_is_permission (filter_env_of pl ext s b path) = b"
  "fv_path (filter_env_of pl ext s b path) = path"
  by (simp_all add: filter_env_of_def)

lemma resolve_agree:
  "agree_on (collect_permission_session_operand v operand) s s' \<Longrightarrow> resolve_session s True v = resolve_session s' True v"
  by (cases v) (auto simp: collect_permission_session_operand_def resolve_session_def agree_on_def)

lemma operand_agree:
  assumes "agree_on (collect_permission_session_operand v operand) s s'"
  shows "scalar_operand (filter_env_of pl ext s True q) ty p v = scalar_operand (filter_env_of pl ext s' True q) ty p v"
    "list_operand (filter_env_of pl ext s True q) ty p v = list_operand (filter_env_of pl ext s' True q) ty p v"
    "string_list_operand (filter_env_of pl ext s True q) ty p v = string_list_operand (filter_env_of pl ext s' True q) ty p v"
  unfolding string_list_operand_def list_operand_def scalar_operand_def env_select resolve_agree[OF assms] by (rule refl)+

lemma d_within_path: "d_within_operands p v = Ok x \<Longrightarrow> d_within_operands q v = Ok x"
  by (auto simp: d_within_operands_def)

lemma column_compare_session:
  "column_compare (filter_env_of pl ext s b q) ctx p sql_op v = column_compare (filter_env_of pl ext s' b q) ctx p sql_op v"
  unfolding column_compare_def env_select by (rule refl)

lemma parse_operator_agree:
  assumes "operator_session_uses c path operator v = Ok uses" "agree_on uses s s'"
  shows "parse_operator (filter_env_of pl ext s True q) ctx ty p op_path operator v =
    parse_operator (filter_env_of pl ext s' True q) ctx ty p op_path operator v"
proof (cases "session_operand_kind operator")
  case KDistance
  then obtain three_d where op: "operator = PStDWithin three_d" by (cases operator) auto
  then obtain distance from_value where parts: "d_within_operands path v = Ok (distance, from_value)"
    "uses = collect_permission_session_operand distance UDecimal @ collect_permission_session_operand from_value (UScalar c)"
    using assms(1) by (auto simp: operator_session_uses_def)
  show ?thesis
    using assms(2) parts(2) operand_agree(1)[of distance UDecimal s s' pl ext q] operand_agree(1)[of from_value "UScalar c" s s' pl ext q]
    by (simp add: parse_operator_def op d_within_path[OF parts(1)])
next
  case KNone
  then show ?thesis
    using column_compare_session[of pl ext s True q ctx p _ v s'] by (cases operator) (simp_all add: parse_operator_def)
next
  case KBoolean
  then have "operator = PIsNull" by (cases operator) auto
  then show ?thesis using assms resolve_agree[of v UBoolean s s'] by (simp add: parse_operator_def operator_session_uses_def)
next
  case KScalar
  then have "agree_on (collect_permission_session_operand v (UScalar c)) s s'" using assms by (simp add: operator_session_uses_def)
  then show ?thesis using KScalar operand_agree(1)[of v "UScalar c" s s' pl ext q ty op_path] by (cases operator) (simp_all add: parse_operator_def)
next
  case KList
  then have "agree_on (collect_permission_session_operand v (UList c)) s s'" using assms by (simp add: operator_session_uses_def)
  then show ?thesis using KList operand_agree(2)[of v "UList c" s s' pl ext q ty op_path] by (cases operator) (simp_all add: parse_operator_def)
next
  case KString
  then have "agree_on (collect_permission_session_operand v UString) s s'" using assms by (simp add: operator_session_uses_def)
  then show ?thesis using KString operand_agree(1)[of v UString s s' pl ext q ty op_path] by (cases operator) (simp_all add: parse_operator_def)
next
  case KStringList
  then have "agree_on (collect_permission_session_operand v UStringList) s s'" using assms by (simp add: operator_session_uses_def)
  then show ?thesis
    using KStringList operand_agree(3)[of v UStringList s s' pl ext q ty op_path] by (cases operator) (simp_all add: parse_operator_def)
qed

lemma collect_res_same:
  assumes "collect_res f xs = Ok ys" "\<And>x y. x \<in> set xs \<Longrightarrow> y \<in> set ys \<Longrightarrow> f x = Ok y \<Longrightarrow> g x = h x"
  shows "collect_res g xs = collect_res h xs"
  using assms
proof (induction xs arbitrary: ys)
  case (Cons x xs)
  then obtain y rest where y: "f x = Ok y" "collect_res f xs = Ok rest" "ys = y # rest" by auto
  have "g x = h x" using Cons.prems(2)[of x y] y by simp
  moreover have "collect_res g xs = collect_res h xs" by (rule Cons.IH[OF y(2)]) (use Cons.prems(2) y(3) in auto)
  ultimately show ?case by simp
qed simp

lemma parse_ops_agree:
  assumes "collect_operator_session_uses pl c path v = Ok uses" "agree_on uses s s'"
  shows "parse_ops (filter_env_of pl ext s True q) ctx n ty p v = parse_ops (filter_env_of pl ext s' True q) ctx n ty p v"
proof (cases "as_object v")
  case None
  then show ?thesis
    using assms resolve_agree[of v "UScalar c" s s'] by (cases v) (simp_all add: parse_ops_def collect_operator_session_uses_def)
next
  case (Some ops)
  then have v: "v = JObject ops" by (cases v) auto
  from assms(1) obtain uss where uss: "uses = concat uss" "collect_res (\<lambda>(raw_name, operand).
      let name = normalize_predicate_operator raw_name in
      case classify_predicate_operator (pl_capabilities pl) name of
        None \<Rightarrow> Err (invalid path (''unexpected operator '' @ double_quoted name @ '' for column '' @ quoted (ci_name c)))
      | Some operator \<Rightarrow> operator_session_uses c path operator operand) ops = Ok uss"
    by (auto simp: collect_operator_session_uses_def v)
  show ?thesis
    unfolding parse_ops_def v json.case env_select
  proof (rule collect_res_same[OF uss(2)], goal_cases)
    case (1 member us)
    obtain raw_name operand where member: "member = (raw_name, operand)" by (cases member)
    have "agree_on us s s'" using assms(2) 1(2) by (simp add: uss(1))
    then show ?case using 1(3) by (auto simp: member Let_def split: option.splits intro: parse_operator_agree)
  qed
qed

section \<open>Filters depend on the variables of their contract only\<close>

text \<open>What the traversal finds, the filter finds: targets do not depend on the session or the path.\<close>

lemma relationship_ctx_permission: "relationship_ctx pl s True relation = relationship_ctx pl s' True relation"
  by (simp add: relationship_ctx_def)

lemma targets_agree:
  "filter_field_of (filter_env_of pl ext s True p) ctx n = filter_field_of (filter_env_of pl ext s' True q) ctx n"
  "exists_target (filter_env_of pl ext s True p) v = Ok x \<Longrightarrow> exists_target (filter_env_of pl ext s' True q) v = Ok x"
  "computed_function (filter_env_of pl ext s True p) f = Ok y \<Longrightarrow> computed_function (filter_env_of pl ext s' True q) f = Ok y"
  "remote_ctx (filter_env_of pl ext s True p) ctx n relation = Ok c \<Longrightarrow> remote_ctx (filter_env_of pl ext s' True q) ctx n relation = Ok c"
  "relationship_of (filter_env_of pl ext s True p) ctx n = Ok z \<Longrightarrow> relationship_of (filter_env_of pl ext s' True q) ctx n = Ok z"
proof -
  show "filter_field_of (filter_env_of pl ext s True p) ctx n = filter_field_of (filter_env_of pl ext s' True q) ctx n"
    by (simp add: filter_field_of_def)
  show "exists_target (filter_env_of pl ext s True p) v = Ok x \<Longrightarrow> exists_target (filter_env_of pl ext s' True q) v = Ok x"
    using relationship_ctx_permission[of pl s _ s'] by (auto simp: exists_target_def Let_def)
  show "computed_function (filter_env_of pl ext s True p) f = Ok y \<Longrightarrow> computed_function (filter_env_of pl ext s' True q) f = Ok y"
    by (auto simp: computed_function_def)
  show remote: "remote_ctx (filter_env_of pl ext s True p) ctx n relation = Ok c \<Longrightarrow>
      remote_ctx (filter_env_of pl ext s' True q) ctx n relation = Ok c" for relation c
    using relationship_ctx_permission[of pl s relation s'] by (auto simp: remote_ctx_def)
  show "relationship_of (filter_env_of pl ext s True p) ctx n = Ok z \<Longrightarrow> relationship_of (filter_env_of pl ext s' True q) ctx n = Ok z"
    using relationship_target_path[of pl ctx n p q] by (auto simp: relationship_of_def dest!: remote)
qed

lemma restrict_rows_permission [simp]: "restrict_rows (filter_env_of pl ext s True q) f remote inner = Ok inner"
  by (simp add: restrict_rows_def)

lemma computed_args_closed:
  "cf_session_argument computed = None \<Longrightarrow> computed_args (filter_env_of pl ext s b q) computed f = computed_args (filter_env_of pl ext s' b q) computed f"
  by (auto simp: computed_args_def)

lemma computed_agree:
  assumes "computed_session_uses rec (filter_env_of pl ext probe True path) ctx computed w = Ok uses" "agree_on uses s s'"
    "\<And>c us. rec c w = Ok us \<Longrightarrow> agree_on us s s' \<Longrightarrow> reca c w = recb c w"
  shows "computed_field_predicate reca (filter_env_of pl ext s True q) rf ctx computed w =
    computed_field_predicate recb (filter_env_of pl ext s' True q) rf' ctx computed w"
proof -
  from assms(1) obtain f where f: "cf_session_argument computed = None"
    "computed_function (filter_env_of pl ext probe True path) computed = Ok f"
    by (auto simp: computed_session_uses_def split: if_splits)
  note f' = targets_agree(3)[OF f(2), of s q] targets_agree(3)[OF f(2), of s' q] computed_args_closed[OF f(1), of pl ext s True q f s']
  show ?thesis
  proof (cases "fi_returns_table f")
    case None
    then have "collect_operator_session_uses pl (computed_column computed f) (path @ ''.'' @ cf_name computed) w = Ok uses"
      using assms(1) f by (simp add: computed_session_uses_def)
    from parse_ops_agree[OF this assms(2)] show ?thesis by (simp add: computed_field_predicate_def f' None)
  next
    case (Some relation)
    then obtain schema name remote where r: "relation = (schema, name)"
      "remote_ctx (filter_env_of pl ext probe True path) ctx (cf_name computed) (Qualified schema name) = Ok remote" "rec remote w = Ok uses"
      using assms(1) f by (cases relation) (auto simp: computed_session_uses_def)
    then show ?thesis
      using targets_agree(4)[OF r(2), of s q] targets_agree(4)[OF r(2), of s' q] assms(3)[OF r(3) assms(2)]
      by (simp add: computed_field_predicate_def f' Some)
  qed
qed

lemma field_agree:
  assumes "field_session_uses rec (filter_env_of pl ext probe True path) ctx n w = Ok uses" "agree_on uses s s'"
    "\<And>c us. rec c w = Ok us \<Longrightarrow> agree_on us s s' \<Longrightarrow> reca c w = recb c w"
  shows "parse_field reca (filter_env_of pl ext s True q) rf ctx n w = parse_field recb (filter_env_of pl ext s' True q) rf' ctx n w"
proof -
  from assms(1) obtain field where field: "filter_field_of (filter_env_of pl ext probe True path) ctx n = Ok field"
    by (auto simp: field_session_uses_def)
  then have field': "filter_field_of (filter_env_of pl ext s True q) ctx n = Ok field" "filter_field_of (filter_env_of pl ext s' True q) ctx n = Ok field"
    using targets_agree(1)[of pl ext probe path ctx n] by metis+
  show ?thesis
  proof (cases field)
    case (FieldColumn db info)
    then have "collect_operator_session_uses pl info (path @ ''.'' @ n) w = Ok uses"
      using assms(1) field by (simp add: field_session_uses_def)
    from parse_ops_agree[OF this assms(2)] show ?thesis by (simp add: parse_field_def field' FieldColumn column_predicate_def)
  next
    case (FieldComputed computed)
    then have "computed_session_uses rec (filter_env_of pl ext probe True path) ctx computed w = Ok uses"
      using assms(1) field by (simp add: field_session_uses_def)
    from computed_agree[where reca = reca and recb = recb, OF this assms(2,3)] show ?thesis by (simp add: parse_field_def field' FieldComputed)
  next
    case FieldRelationship
    then obtain relation pairs remote where r: "relationship_of (filter_env_of pl ext probe True path) ctx n = Ok (relation, pairs, remote)"
      "rec remote w = Ok uses" using assms(1) field by (auto simp: field_session_uses_def)
    then show ?thesis
      using targets_agree(5)[OF r(1), of s q] targets_agree(5)[OF r(1), of s' q] assms(3)[OF r(2) assms(2)]
      by (simp add: parse_field_def field' FieldRelationship)
  qed
qed

lemma member_agree:
  assumes "member_session_uses rec (filter_env_of pl ext probe True path) ctx key w = Ok uses" "agree_on uses s s'"
    "\<And>c u us. size u \<le> size w \<Longrightarrow> rec c u = Ok us \<Longrightarrow> agree_on us s s' \<Longrightarrow> reca c u = recb c u"
  shows "parse_bool_member reca (filter_env_of pl ext s True q) rf ctx key w = parse_bool_member recb (filter_env_of pl ext s' True q) rf' ctx key w"
proof -
  let ?k = "normalize_logical_operator key"
  consider "?k \<in> {''_and'', ''_or''}" | "?k = ''_not''" | "?k = ''_exists''" | "?k \<notin> {''_and'', ''_or'', ''_not'', ''_exists''}" by blast
  then show ?thesis
  proof cases
    case 1
    then obtain xs uss where xs: "as_array w = Some xs" "collect_res (rec ctx) xs = Ok uss" "uses = concat uss"
      using assms(1) by (auto simp: member_session_uses_def)
    have "collect_res (reca ctx) xs = collect_res (recb ctx) xs"
    proof (rule collect_res_same[OF xs(2)])
      fix x us assume x: "x \<in> set xs" "us \<in> set uss" "rec ctx x = Ok us"
      show "reca ctx x = recb ctx x"
        using assms(3)[OF less_imp_le[OF array_item_size[OF xs(1) x(1)]] x(3)] assms(2) x(2) by (simp add: xs(3))
    qed
    then show ?thesis using 1 xs(1) by (auto simp: parse_bool_member_def)
  next
    case 2
    then show ?thesis using assms(1) assms(3)[OF order_refl _ assms(2), of ctx] by (simp add: member_session_uses_def parse_bool_member_def)
  next
    case 3
    then obtain relation u remote where r: "exists_target (filter_env_of pl ext probe True path) w = Ok (relation, u, remote)" "rec remote u = Ok uses"
      using assms(1) by (auto simp: member_session_uses_def)
    then show ?thesis
      using targets_agree(2)[OF r(1), of s q] targets_agree(2)[OF r(1), of s' q]
        assms(3)[OF less_imp_le[OF exists_target_size[OF r(1)]] r(2) assms(2)] 3
      by (simp add: parse_bool_member_def)
  next
    case 4
    then have "field_session_uses rec (filter_env_of pl ext probe True path) ctx ?k w = Ok uses"
      using assms(1) by (simp add: member_session_uses_def)
    from field_agree[where reca = reca and recb = recb, OF this assms(2) assms(3)[OF order_refl]] 4 show ?thesis by (simp add: parse_bool_member_def)
  qed
qed

text \<open>
  (C9) The contract of session variables that is published for a permission filter is closed. If the
  traversal of the filter collects a list of variables, then two sessions that agree on these
  variables, whatever their role and their other variables, get the same result for the filter: the
  same predicate, or the same error. So a filter reads no session variable that its contract does not
  name, neither in a nested condition, nor behind a relationship, an \<open>_exists\<close> or a computed field.
\<close>

theorem permission_filter_contract_closed:
  assumes "collect_permission_session_uses pl ext path ctx v = Ok uses"
    "\<And>u. u \<in> set uses \<Longrightarrow> session_var s (su_name u) = session_var s' (su_name u)"
  shows "parse_permission pl ext s q ctx v = parse_permission pl ext s' q ctx v"
proof -
  let ?p = "filter_env_of pl ext permission_probe True path"
  let ?e = "filter_env_of pl ext s True q" and ?e' = "filter_env_of pl ext s' True q"
  have "parse_filter ?e (\<lambda>_. Ok None) ctx v = parse_filter ?e' (\<lambda>_. Ok None) ctx v"
    if "collect_bool_exp_session_uses ?p ctx v = Ok uses" "agree_on uses s s'" for ctx v uses
    using that
  proof (induction v arbitrary: ctx uses rule: measure_induct_rule[of size])
    case (less v)
    from less.prems(1) obtain ms uss where v: "v = JObject ms" and uss: "uses = concat uss"
      "collect_res (\<lambda>(key, w). member_session_uses (collect_bool_exp_session_uses ?p) ?p ctx key w) ms = Ok uss"
      by (cases v) (auto simp: collect_bool_exp_session_uses.simps[of ?p ctx])
    have "collect_res (\<lambda>(key, w). parse_bool_member (parse_filter ?e (\<lambda>_. Ok None)) ?e (\<lambda>_. Ok None) ctx key w) ms =
        collect_res (\<lambda>(key, w). parse_bool_member (parse_filter ?e' (\<lambda>_. Ok None)) ?e' (\<lambda>_. Ok None) ctx key w) ms"
    proof (rule collect_res_same[OF uss(2)])
      fix m us assume m: "m \<in> set ms" "us \<in> set uss"
        "(case m of (key, w) \<Rightarrow> member_session_uses (collect_bool_exp_session_uses ?p) ?p ctx key w) = Ok us"
      obtain key w where kw: "m = (key, w)" by (cases m)
      have small: "size w < size v" using m(1) size_list_estimation'[of "(key, w)" ms "size w" "size_prod (\<lambda>_. 0) size"] by (simp add: v kw)
      have us: "member_session_uses (collect_bool_exp_session_uses ?p) ?p ctx key w = Ok us" "agree_on us s s'"
        using m(2,3) less.prems(2) by (simp_all add: kw uss(1))
      have "parse_filter ?e (\<lambda>_. Ok None) c u = parse_filter ?e' (\<lambda>_. Ok None) c u"
        if "size u \<le> size w" "collect_bool_exp_session_uses ?p c u = Ok us" "agree_on us s s'" for c u us
        using less.IH[OF _ that(2,3)] that(1) small by simp
      from member_agree[where reca = "parse_filter ?e (\<lambda>_. Ok None)" and recb = "parse_filter ?e' (\<lambda>_. Ok None)", OF us this]
      show "(case m of (key, w) \<Rightarrow> parse_bool_member (parse_filter ?e (\<lambda>_. Ok None)) ?e (\<lambda>_. Ok None) ctx key w) =
          (case m of (key, w) \<Rightarrow> parse_bool_member (parse_filter ?e' (\<lambda>_. Ok None)) ?e' (\<lambda>_. Ok None) ctx key w)"
        unfolding kw prod.case .
    qed
    then show ?case by (simp add: v parse_filter.simps[of ?e "\<lambda>_. Ok None" ctx] parse_filter.simps[of ?e' "\<lambda>_. Ok None" ctx])
  qed
  from this[OF assms(1)[unfolded collect_permission_session_uses_def]] show ?thesis
    using assms(2) by (simp add: parse_permission_def agree_on_def)
qed

end
