(* ===== verification/Plan_Validation.thy ===== *)
theory Plan_Validation
  imports Plan_Isolation
begin

text \<open>
  The check of a tenancy against the catalog (\<open>validate_tenancy_catalog\<close> of \<open>crates/schema/src/tenancy.rs\<close>),
  and what a deployment that passes it serves.
\<close>

section \<open>The check of a tenancy against the catalog\<close>

text \<open>
  What the check reads of the metadata: the tenancy, the tables of every source, and the counters of
  the quotas, with the column that holds their tenant.
\<close>

record quota_counters =
  qc_table :: qualified_table
  qc_tenant :: string

record plan_metadata =
  pm_tenancy :: "tenancy option"
  pm_sources :: "(string \<times> table_entry list) list"
  pm_quotas :: "quota_counters option"

definition find_table :: "db_catalog \<Rightarrow> qualified_table \<Rightarrow> table_info option" where
  "find_table c relation = catalog_table c (schema_of relation) (name_of relation)"

definition catalog_has :: "db_catalog \<Rightarrow> qualified_table \<Rightarrow> bool" where
  "catalog_has c relation \<longleftrightarrow> find_table c relation \<noteq> None"

definition catalog_column_type :: "db_catalog \<Rightarrow> qualified_table \<Rightarrow> string \<Rightarrow> string option" where
  "catalog_column_type c relation name = Option.bind (find_table c relation) (\<lambda>info. map_option sql_type (column info name))"

definition em_dash :: string where
  "em_dash = [CHR 0xE2, CHR 0x80, CHR 0x94]"

definition missing_key_error :: "tenancy \<Rightarrow> qualified_table \<Rightarrow> string \<Rightarrow> plan_error" where
  "missing_key_error t relation key =
     validation (''tenancy.tables.'' @ table_to_string relation)
       (''tracked table '' @ double_quoted (table_to_string relation) @ '' has no tenant key column '' @ double_quoted key @
        ''. Add the column, or declare the column it uses instead under '' @ ticked ''tenancy.keys'' @ '', or '' @ em_dash @
        '' only if the rows genuinely belong to no single tenant '' @ em_dash @ '' declare it under '' @ ticked ''tenancy.exempt'' @
        '' saying why. Serving it unscoped is not one of the options: every reader of this table would see every tenant'' @
        [CHR 0x27] @ ''s rows.'' @ [CHR 0x0A, CHR 0x0A] @ ''source: '' @ tn_source t)"

definition registry_errors :: "tenancy \<Rightarrow> db_catalog \<Rightarrow> plan_error list" where
  "registry_errors t c =
     (let registry = tn_registry t; relation = tr_table registry;
          missing = (\<lambda>path name. if catalog_has c relation \<and> catalog_column_type c relation name = None
            then [validation path (''the registry '' @ ticked (table_to_string relation) @ '' has no column '' @ ticked name)] else []) in
      missing ''tenancy.registry.key'' (tr_key registry) @ missing ''tenancy.registry.status.column'' (tr_status_column registry))"

definition table_key_errors :: "tenancy \<Rightarrow> db_catalog \<Rightarrow> table_entry \<Rightarrow> plan_error list" where
  "table_key_errors t c entry =
     (let relation = te_table entry; registry = tn_registry t in
      if \<not> catalog_has c relation then []
      else case table_scope_of t relation of
        ScopeKey key \<Rightarrow>
          (case catalog_column_type c relation key of
             None \<Rightarrow> [missing_key_error t relation key]
           | Some found \<Rightarrow>
               (case catalog_column_type c (tr_table registry) (tr_key registry) of
                  Some expected \<Rightarrow>
                    if found \<noteq> expected then
                      [validation (''tenancy.tables.'' @ table_to_string relation)
                         (''tenant key '' @ double_quoted (table_to_string relation @ ''.'' @ key) @ '' is '' @ found @ '', but the registry '' @
                          ticked (table_to_string (tr_table registry)) @ '' identifies a tenant with '' @ expected @
                          ''. Two columns of different types never compare equal, so this tenant would see nothing rather than fail.'')]
                    else []
                | None \<Rightarrow> []))
      | _ \<Rightarrow> [])"

definition counter_errors :: "tenancy \<Rightarrow> db_catalog \<Rightarrow> quota_counters \<Rightarrow> plan_error list" where
  "counter_errors t c quotas =
     (let relation = qc_table quotas; name = qc_tenant quotas; path = ''quotas.counters.table.'' @ table_to_string relation in
      case find_table c relation of
        None \<Rightarrow>
          [validation path (''counters table '' @ double_quoted (table_to_string relation) @ '' is absent from source '' @ ticked (tn_source t))]
      | Some info \<Rightarrow>
          if ti_primary_key info = [name] \<or> [name] \<in> set (ti_unique_keys info) then []
          else [validation path
            (double_quoted (table_to_string relation @ ''.'' @ name) @
             '' is not unique, so a tenant may have two usage rows. The counter is read as a single value, so the second row turns every write '' @
             ''this gates into a database error rather than a refusal. Add a unique constraint on '' @ double_quoted name @ ''.'')])"

definition validate_tenancy_catalog :: "plan_metadata \<Rightarrow> (string \<times> db_catalog) list \<Rightarrow> plan_error list" where
  "validate_tenancy_catalog md catalogs =
     (case pm_tenancy md of
        None \<Rightarrow> []
      | Some t \<Rightarrow>
          (case (map_of catalogs (tn_source t), map_of (pm_sources md) (tn_source t)) of
             (Some c, Some entries) \<Rightarrow>
               registry_errors t c @ concat (map (table_key_errors t c) entries) @
               (case pm_quotas md of Some quotas \<Rightarrow> counter_errors t c quotas | None \<Rightarrow> [])
           | _ \<Rightarrow> []))"

section \<open>What a validated deployment serves\<close>

text \<open>The planner of the source that the tenancy names, in a deployment that was validated.\<close>

definition validated_planner :: "plan_metadata \<Rightarrow> (string \<times> db_catalog) list \<Rightarrow> tenancy \<Rightarrow> planner \<Rightarrow> bool" where
  "validated_planner md catalogs t pl \<longleftrightarrow>
     validate_tenancy_catalog md catalogs = [] \<and> pm_tenancy md = Some t \<and> pl_tenancy pl = Some t \<and>
     map_of catalogs (tn_source t) = Some (pl_catalog pl) \<and> map_of (pm_sources md) (tn_source t) = Some (pl_tables pl)"

lemma catalog_column_type_Some:
  "catalog_column_type c relation name = Some ty \<longleftrightarrow> (\<exists>info ci. find_table c relation = Some info \<and> column info name = Some ci \<and> ty = sql_type ci)"
  by (auto simp: catalog_column_type_def bind_eq_Some_conv)

lemma validated_registry:
  assumes "validated_planner md catalogs t pl" "find_table (pl_catalog pl) (tr_table (tn_registry t)) = Some info"
  obtains kc sc where "column info (tr_key (tn_registry t)) = Some kc" "column info (tr_status_column (tn_registry t)) = Some sc"
proof -
  have "registry_errors t (pl_catalog pl) = []" using assms(1) by (auto simp: validated_planner_def validate_tenancy_catalog_def)
  then have "column info (tr_key (tn_registry t)) \<noteq> None" "column info (tr_status_column (tn_registry t)) \<noteq> None"
    using assms(2) by (auto simp: registry_errors_def Let_def catalog_has_def catalog_column_type_def split: if_splits)
  then show ?thesis using that by blast
qed

lemma validated_key:
  assumes "validated_planner md catalogs t pl" "entry \<in> set (pl_tables pl)" "table_scope_of t (te_table entry) = ScopeKey key"
    "find_table (pl_catalog pl) (te_table entry) = Some info" "find_table (pl_catalog pl) (tr_table (tn_registry t)) = Some registry"
    "column registry (tr_key (tn_registry t)) = Some kc"
  shows "\<exists>ci. column info key = Some ci \<and> sql_type ci = sql_type kc"
proof -
  have ok: "table_key_errors t (pl_catalog pl) entry = []"
    using assms(1,2) by (auto simp: validated_planner_def validate_tenancy_catalog_def)
  then obtain ty where ty: "catalog_column_type (pl_catalog pl) (te_table entry) key = Some ty"
    using assms(3,4) by (cases "catalog_column_type (pl_catalog pl) (te_table entry) key") (auto simp: table_key_errors_def Let_def catalog_has_def)
  have "catalog_column_type (pl_catalog pl) (tr_table (tn_registry t)) (tr_key (tn_registry t)) = Some (sql_type kc)"
    using assms(5,6) by (simp add: catalog_column_type_Some)
  then have "ty = sql_type kc" using ok ty assms(3,4) by (auto simp: table_key_errors_def Let_def catalog_has_def split: if_splits)
  then show ?thesis using ty assms(4) by (auto simp: catalog_column_type_Some)
qed

lemma registry_serving_total:
  assumes "validated_planner md catalogs t pl" "find_table (pl_catalog pl) (tr_table (tn_registry t)) = Some info" "tenant_of t s v"
  shows "\<exists>g. registry_serving pl s TenantSession path = Ok g"
proof -
  obtain kc sc where "column info (tr_key (tn_registry t)) = Some kc" "column info (tr_status_column (tn_registry t)) = Some sc"
    using validated_registry[OF assms(1,2)] .
  moreover have "tenant_op pl s TenantSession path = Ok (OpEq (text_scalar v))"
    using assms(1,3) by (auto simp: tenant_op_Ok validated_planner_def)
  ultimately show ?thesis
    using assms(1,2) by (simp add: registry_serving_def the_tenancy_def validated_planner_def find_table_def column_type_def Let_def)
qed

lemma tenant_value_refused:
  assumes "pl_tenancy pl = Some t" "\<And>v. \<not> tenant_of t s v"
  shows "\<exists>e. tenant_value pl s path = Err (Refused e) \<and> pe_code e = ''access-denied''"
  using assms by (auto simp: tenant_value_def tenant_of_def the_tenancy_def Let_def plan_error_new_def split: option.splits)


end
