(* ===== verification/Plan_Deployment.thy ===== *)
theory Plan_Deployment
  imports Plan_Visibility Plan_Sessions Plan_Validation
begin

text \<open>
  A small deployment with two tenanted tables, a registry and grants, on which the theorems of the
  planner are applied, and a filter that reads rows its user may not see.
\<close>

section \<open>A deployment\<close>

text \<open>
  Two tenanted tables, the registry of tenants and the relation of grants. A row is the list of its
  columns. An order belongs to a customer.
\<close>

type_synonym example_row = "(string \<times> string) list"

definition example_column :: "string \<Rightarrow> column_info" where
  "example_column name = \<lparr>ci_name = name, ci_pg_type = ''text'', ci_pg_typmod = -1, ci_native_type = None, ci_nullable = False,
     ci_has_default = False\<rparr>"

definition example_table :: "string \<Rightarrow> string list \<Rightarrow> foreign_key list \<Rightarrow> string \<times> table_info" where
  "example_table name columns keys = (''public.'' @ name, \<lparr>ti_schema = ''public'', ti_name = name, ti_relation_kind = RTable,
     ti_columns = map example_column columns, ti_primary_key = [], ti_unique_keys = [], ti_foreign_keys = keys\<rparr>)"

definition example_customer_key :: foreign_key where
  "example_customer_key = \<lparr>fk_constraint_name = ''c'', fk_column_mapping = [(''customer'', ''id'')], fk_referenced_schema = ''public'',
     fk_referenced_table = ''customers''\<rparr>"

definition example_catalog :: db_catalog where
  "example_catalog = \<lparr>cg_tables =
     [example_table ''customers'' [''id'', ''tenant'', ''name''] [],
      example_table ''grants'' [''user'', ''tenant'', ''action''] [],
      example_table ''orders'' [''id'', ''tenant'', ''customer''] [example_customer_key],
      example_table ''tenants'' [''id'', ''status''] []], cg_functions = []\<rparr>"

definition example_permission :: "string \<times> select_permission" where
  "example_permission = (''user'', \<lparr>sp_columns = Star, sp_filter = JObject [], sp_limit = None, sp_allow_aggregations = False,
     sp_computed_fields = []\<rparr>)"

definition example_entry :: "string \<Rightarrow> object_relationship list \<Rightarrow> table_entry" where
  "example_entry name rels = \<lparr>te_table = Name name, te_configuration = None, te_object_relationships = rels,
     te_array_relationships = [], te_computed_fields = [], te_select_permissions = [example_permission]\<rparr>"

definition example_tenancy :: tenancy where
  "example_tenancy = \<lparr>tn_source = ''main'', tn_variable = ''X-Donat-Tenant'', tn_key = ''tenant'',
     tn_registry = \<lparr>tr_table = Name ''tenants'', tr_key = ''id'', tr_status_column = ''status'', tr_serving = [''active'']\<rparr>,
     tn_keys = [], tn_exempt = [], tn_cross_tenant_reads = []\<rparr>"

definition example_iam :: iam where
  "example_iam = \<lparr>ia_grants = \<lparr>gr_table = Name ''grants'', gr_subject = \<lparr>sb_column = ''user'', sb_variable = ''X-Donat-User''\<rparr>,
       gr_tenant = ''tenant'', gr_action = ''action'', gr_written_via = None\<rparr>,
     ia_governed_roles = [''user''], ia_wildcards = [''{resource}:*''],
     ia_templates = \<lparr>at_select = ''{resource}:read'', at_insert = ''{resource}:add'', at_update = ''{resource}:edit'',
       at_delete = ''{resource}:drop''\<rparr>,
     ia_overrides = [], ia_command_default = ''{command}:run'', ia_command_overrides = [], ia_reserved_actions = []\<rparr>"

definition example_planner :: planner where
  "example_planner = \<lparr>pl_inherited_roles = [], pl_catalog = example_catalog,
     pl_tables = [example_entry ''orders'' [\<lparr>or_name = ''buyer'', or_foreign_key = Some (Single ''customer''), or_manual = None\<rparr>],
       example_entry ''customers'' []],
     pl_capabilities = \<lparr>json_operators = NoJson, geo = False, relationships = True, regex_ops = False\<rparr>,
     pl_tenancy = Some example_tenancy, pl_iam = Some example_iam\<rparr>"

definition example_session :: session where
  "example_session = \<lparr>se_role = ''user'', se_vars = [(''x-donat-tenant'', ''t1''), (''x-donat-user'', ''u1'')], se_backend_request = False\<rparr>"

definition example_externs :: plan_externs where
  "example_externs = \<lparr>json_display = (\<lambda>_. []), parse_json = (\<lambda>_. None), valid_naive_date = (\<lambda>_. True), table_error = (\<lambda>_. [])\<rparr>"

definition example_ctx :: "string \<Rightarrow> table_ctx" where
  "example_ctx name = the (relationship_ctx example_planner example_session False (Name name))"

definition example_order :: example_row where
  "example_order = [(''id'', ''o1''), (''tenant'', ''t1''), (''customer'', ''c2'')]"

fun example_compares :: "example_row \<Rightarrow> example_row \<Rightarrow> example_row set \<Rightarrow> string \<Rightarrow> string \<Rightarrow> compare_operator \<Rightarrow> truth" where
  "example_compares root row others c ty (OpEq (ScalarJson (JString v))) = map_option (\<lambda>w. w = v) (map_of row c)"
| "example_compares root row others c ty (OpIn vs) = map_option (\<lambda>w. ScalarJson (JString w) \<in> set vs) (map_of row c)"
| "example_compares root row others c ty op = None"

definition example_rows :: "string \<Rightarrow> example_row set" where
  "example_rows name =
     (if name = ''orders'' then {example_order}
      else if name = ''customers'' then {[(''id'', ''c2''), (''tenant'', ''t2''), (''name'', ''Ada'')]}
      else if name = ''tenants'' then {[(''id'', ''t1''), (''status'', ''active'')]}
      else if name = ''grants'' then {[(''user'', ''u1''), (''tenant'', ''t1''), (''action'', ''orders:*'')],
        [(''user'', ''u1''), (''tenant'', ''t1''), (''action'', ''customers:read'')]}
      else {})"

definition example_database :: "example_row database" where
  "example_database = \<lparr>rows = (\<lambda>t. example_rows (it_name t)),
     joined = (\<lambda>pairs row r. list_all (\<lambda>(l, c). map_of row l = map_of r c) pairs), compares = example_compares,
     function_rows = (\<lambda>_ _ _ _. {}), function_compares = (\<lambda>_ _ _ _ _ _ _ _. None)\<rparr>"

lemmas example_defs = example_column_def example_table_def example_customer_key_def example_catalog_def example_permission_def
  example_entry_def example_tenancy_def example_iam_def example_planner_def example_session_def example_externs_def example_order_def
  example_rows_def example_database_def

text \<open>The predicate for the orders of this deployment: their tenant, the registry and the grants.\<close>

definition example_orders_read :: bool_exp where
  "example_orders_read = BAnd
     [BAnd [BCompare ''tenant'' ''text'' (OpEq (text_scalar ''t1'')),
        BExists \<lparr>it_schema = ''public'', it_name = ''tenants''\<rparr> (BAnd [BCompare ''id'' ''text'' (OpEq (text_scalar ''t1'')),
          BCompare ''status'' ''text'' (OpIn [text_scalar ''active''])])],
      BExists \<lparr>it_schema = ''public'', it_name = ''grants''\<rparr> (BAnd [BCompare ''user'' ''text'' (OpEq (text_scalar ''u1'')),
        BCompare ''tenant'' ''text'' (OpEq (text_scalar ''t1'')),
        BCompare ''action'' ''text'' (OpIn [text_scalar ''orders:*'', text_scalar ''orders:read''])])]"

lemma example_orders_predicate:
  "permission_predicate example_planner example_externs example_session ''$'' (example_ctx ''orders'') = Ok (Some example_orders_read)"
  by code_simp

lemma example_order_admitted: "admits example_database example_order example_order (Some example_orders_read)"
  by code_simp

lemma example_facts:
  "tx_perms (example_ctx ''orders'') \<noteq> []" "pl_tenancy example_planner = Some example_tenancy"
  "cross_tenant_read_of example_tenancy (te_table (tx_entry (example_ctx ''orders''))) (se_role example_session) = None"
  "\<not> shared_table example_planner (te_table (tx_entry (example_ctx ''orders'')))"
  by code_simp+

lemma example_governed: "governed_by example_planner example_session (te_table (tx_entry (example_ctx ''orders''))) example_iam"
  by (simp add: governed_by_def) code_simp

text \<open>The witness of the theorem on reads.\<close>

lemma reads_stay_in_the_tenant_witness:
  "admits example_database example_order example_order (Some example_orders_read) \<and>
   (\<exists>v. tenant_of example_tenancy example_session v \<and>
      row_of_tenant example_database example_order example_order example_planner example_tenancy (example_ctx ''orders'') v \<and>
      tenant_served example_database example_order example_planner example_tenancy v) \<and>
   granted example_database example_order example_planner example_iam example_session
     (accepted_actions example_iam (te_table (tx_entry (example_ctx ''orders''))) ISelect)"
  using reads_stay_in_the_tenant[OF example_orders_predicate example_facts(1,2) example_order_admitted]
    example_order_admitted example_facts(3,4) example_governed by simp

text \<open>The witness of the theorem on writes: an order may be added.\<close>

definition example_orders_check :: bool_exp where
  "example_orders_check = BAnd
     [BAnd [BCompare ''tenant'' ''text'' (OpEq (text_scalar ''t1'')),
        BExists \<lparr>it_schema = ''public'', it_name = ''tenants''\<rparr> (BAnd [BCompare ''id'' ''text'' (OpEq (text_scalar ''t1'')),
          BCompare ''status'' ''text'' (OpIn [text_scalar ''active''])])],
      BExists \<lparr>it_schema = ''public'', it_name = ''grants''\<rparr> (BAnd [BCompare ''user'' ''text'' (OpEq (text_scalar ''u1'')),
        BCompare ''tenant'' ''text'' (OpEq (text_scalar ''t1'')),
        BCompare ''action'' ''text'' (OpIn [text_scalar ''orders:*'', text_scalar ''orders:add''])])]"

lemma example_orders_write:
  "write_check_expression example_planner example_externs example_session ''$'' (AuthTable IInsert) CheckSession (example_ctx ''orders'') JNull
     = Ok (Some example_orders_check)"
  "admits example_database example_order example_order (Some example_orders_check)"
  "table_scope_of example_tenancy (te_table (tx_entry (example_ctx ''orders''))) = ScopeKey ''tenant''"
  by code_simp+


text \<open>
  The witness of the theorem on filters. The order of this tenant points to a customer of another
  tenant, so the filter on its buyer does not hold.
\<close>

definition example_buyer_filter :: json where
  "example_buyer_filter = JObject [(''buyer'', JObject [(''name'', JObject [(''_eq'', JString ''Ada'')])])]"

definition example_buyer_predicate :: bool_exp where
  "example_buyer_predicate = (case parse_bool_exp example_planner example_externs example_session False ''$'' (example_ctx ''orders'')
     example_buyer_filter of Ok e \<Rightarrow> e | Err _ \<Rightarrow> BAnd [])"

lemma example_buyer:
  "parse_bool_exp example_planner example_externs example_session False ''$'' (example_ctx ''orders'') example_buyer_filter
     = Ok example_buyer_predicate"
  "related_only example_buyer_filter" "holds example_database example_order example_order example_buyer_predicate = Some False"
  by code_simp+

lemma example_functions: "functions_keyed (pl_catalog example_planner)"
  by (simp add: functions_keyed_def catalog_function_def example_planner_def example_catalog_def)

lemma user_filters_see_visible_rows_witness:
  "holds example_database example_order example_order example_buyer_predicate = Some False \<and>
   (\<exists>e'. parse_filter (filter_env_of example_planner example_externs example_session False ''$'') (\<lambda>_. Ok None) (example_ctx ''orders'')
      example_buyer_filter = Ok e' \<and>
    holds (visible_db example_database example_order example_planner example_externs example_session ''$'') example_order example_order e' = Some False)"
  using user_filters_see_visible_rows[OF example_buyer(1,2) example_functions, of example_database example_order example_order] example_buyer(3)
  by auto

text \<open>
  A filter with \<open>_exists\<close>, and what it is compiled to.
\<close>

definition example_exists_filter :: json where
  "example_exists_filter = JObject [(''_exists'', JObject [(''_table'', JString ''customers''),
     (''_where'', JObject [(''name'', JObject [(''_eq'', JString ''Ada'')])])])]"

definition example_exists_predicate :: bool_exp where
  "example_exists_predicate = BExists \<lparr>it_schema = ''public'', it_name = ''customers''\<rparr> (BCompare ''name'' ''text'' (OpEq (text_scalar ''Ada'')))"


text \<open>
  The witness of the theorem on contracts: a filter on the tenant and, behind the relationship, on the
  user. The second session has another role and another variable.
\<close>

definition example_contract_filter :: json where
  "example_contract_filter = JObject [(''tenant'', JObject [(''_eq'', JString ''X-Donat-Tenant'')]),
     (''_not'', JObject [(''buyer'', JObject [(''name'', JString ''X-Donat-User'')])])]"

definition example_other_session :: session where
  "example_other_session = \<lparr>se_role = ''clerk'', se_vars = [(''x-donat-user'', ''u1''), (''x-donat-shop'', ''s9''), (''x-donat-tenant'', ''t1'')],
     se_backend_request = False\<rparr>"

definition example_uses :: "session_use list" where
  "example_uses = [\<lparr>su_name = ''X-Donat-Tenant'', su_operand = UScalar (example_column ''tenant'')\<rparr>,
     \<lparr>su_name = ''X-Donat-User'', su_operand = UScalar (example_column ''name'')\<rparr>]"

lemma example_contract:
  "collect_permission_session_uses example_planner example_externs ''$'' (filter_ctx_of (example_ctx ''orders'')) example_contract_filter
     = Ok example_uses"
  "session_var example_session ''X-Donat-Tenant'' = session_var example_other_session ''X-Donat-Tenant''"
  "session_var example_session ''X-Donat-User'' = session_var example_other_session ''X-Donat-User''"
  by code_simp+

lemma permission_filter_contract_closed_witness:
  "parse_permission example_planner example_externs example_session ''$'' (filter_ctx_of (example_ctx ''orders'')) example_contract_filter =
   parse_permission example_planner example_externs example_other_session ''$'' (filter_ctx_of (example_ctx ''orders'')) example_contract_filter"
  by (rule permission_filter_contract_closed[OF example_contract(1)]) (auto simp: example_uses_def example_contract(2,3))

text \<open>The witness of the theorem on validated deployments.\<close>

definition example_metadata :: plan_metadata where
  "example_metadata = \<lparr>pm_tenancy = Some example_tenancy, pm_sources = [(''main'', pl_tables example_planner)], pm_quotas = None\<rparr>"

lemma example_validated:
  "validate_tenancy_catalog example_metadata [(''main'', example_catalog)] = []"
  "find_table example_catalog (tr_table (tn_registry example_tenancy)) = Some (snd (example_table ''tenants'' [''id'', ''status''] []))"
  "tx_entry (example_ctx ''orders'') = pl_tables example_planner ! 0" "length (pl_tables example_planner) = 2"
  "find_table example_catalog (te_table (tx_entry (example_ctx ''orders''))) = Some (tx_info (example_ctx ''orders''))"
  "session_var example_session (tn_variable example_tenancy) = Some ''t1''"
  by code_simp+

lemma example_validated_planner: "validated_planner example_metadata [(''main'', example_catalog)] example_tenancy example_planner"
  using example_validated(1) by (simp add: validated_planner_def example_metadata_def example_planner_def example_tenancy_def)


end
