(* ===== verification/Spec2Isabelle.thy ===== *)
theory Spec2Isabelle
  imports Rules_Diagnostics Rules_Records Rate_Limit Kriti_Render Value_Conformance
    Process_Sessions Process_Requests Plan_Deployment
begin

text \<open>
  Verification of the core logic of donat, a GraphQL engine in Rust: the decision-rule engine
  (\<open>crates/rules\<close>), the contracts of values (\<open>crates/value-contract\<close>), the compiler of durable processes
  (\<open>crates/processes\<close>), the row permissions of the planner (\<open>predicate.rs\<close>, \<open>tenancy.rs\<close>, \<open>iam.rs\<close> and
  \<open>naming.rs\<close> of \<open>crates/schema\<close>), the template language of request and response transforms
  (\<open>crates/kriti\<close>) and the rate limiter of the server (\<open>crates/server/src/ratelimit.rs\<close>). Paths below are
  relative to \<open>src/\<close>.

  \<^bold>\<open>The program\<close>

  A deployment declares rules and decision tables in its metadata. The server compiles them once into
  a catalog: every expression is lexed and parsed (\<open>lexer.rs\<close>, \<open>parser.rs\<close>), type checked against the
  declared bindings (\<open>eval.rs\<close>, \<open>check_expression\<close>), and recorded in a canonical byte form from which
  revisions are derived; decision tables are checked row by row, and their test cases are run before
  the catalog is accepted. At run time JSON inputs are decoded at the declared types, conditions and
  expressions are evaluated with exact decimal arithmetic and canonical timestamps, and a decision
  comes back with a trace that carries a digest of its input. A deployment also declares processes:
  graphs of states that run commands, send requests to connectors, branch on decision tables and rules,
  wait for signals, webhooks and timers, and fan out over lists. They are compiled against the
  commands of their source, the rule catalog and the connector catalog: the graph is validated, every
  value that a state reads is inferred and checked against the contract it is bound to, and everything
  used is pinned in a closure that a fingerprint covers, so that an instance keeps running on what it
  was started with. Contracts of values are shared with the connectors. Every request of a user goes
  through the planner: it resolves tables and relationships for the role, compiles the filter of the
  user and the filters of the metadata into predicates, and adds the tenant of the session and the
  grants of the tenant to whatever the role reads or writes. Independently of this, GraphQL actions
  send their requests through Kriti templates, which are parsed when they are declared and evaluated
  against every invocation, and each request passes the rate limiter of its role and tenant.

  \<^bold>\<open>Foundations\<close>

  \<^item> \<open>Prelude\<close>: \<open>Result\<close> and \<open>Ordering\<close>, strings as UTF-8 bytes, decimal conversions, checked machine
    integers, and \<open>BTreeMap\<close> as a sorted association list behind the contract \<open>ordered_map\<close>.
  \<^item> \<open>Json\<close>: \<open>serde_json::Value\<close> with its equality; the functions of other crates (JSON text, SHA-256)
    are the record \<open>externs\<close>.

  \<^bold>\<open>The rule engine\<close>

  \<^item> \<open>Rules_Syntax\<close>, \<open>Rules_Lexer\<close>, \<open>Rules_Parser\<close> model \<open>lib.rs\<close>, \<open>lexer.rs\<close> and \<open>parser.rs\<close>. The parser
    recurses on a budget of \<open>MAX_AST_DEPTH\<close> levels and its loops on the bytes that are left; it is
    shown that neither is ever exhausted, that accepted expressions respect the limits of the profile
    with nested spans, and that the worklist of \<open>expression_depth\<close> computes the depth of the tree.
  \<^item> \<open>Rules_Types\<close> models \<open>types.rs\<close>: types, definitions, compiled forms, traces, errors with their
    messages, and the bounds on opaque JSON, which are shown exact.
  \<^item> \<open>Rules_Decimal\<close> models \<open>Decimal\<close> of \<open>eval.rs\<close> on 128-bit coefficients: its arithmetic is exact or
    refuses, division truncates, its order is that of the rationals, and printing is parsed back.
  \<^item> \<open>Rules_Time\<close>, \<open>Rules_Calendar\<close> model the date and timestamp functions: dates are the dates of the
    Gregorian calendar, conversion to UTC keeps the instant, and the order is chronological.
  \<^item> \<open>Rules_Check\<close>, \<open>Rules_Diagnostics\<close>: the type checker; a source context changes neither what is
    accepted nor why something is rejected.
  \<^item> \<open>Rules_Eval\<close>, \<open>Rules_Soundness\<close>: decoding, evaluation and canonical JSON; checked expressions
    evaluate to values of their type or to one of two named arithmetic errors.
  \<^item> \<open>Rules_Canonical\<close>, \<open>Rules_Encoding\<close>, \<open>Rules_Records\<close>: the byte records. A panic is the value
    \<open>None\<close>. The encodings of types and inputs are injective (locale \<open>prefix_code\<close>), and compilation
    and evaluation reach no panic under the conditions the theorems name; the two ways to reach one
    are shown on concrete inputs.
  \<^item> \<open>Rules_Catalog\<close>, \<open>Rules_Decisions\<close>: compilation of catalogs and tables and evaluation of
    decisions. Compiled catalogs hold exactly their definitions (locale \<open>naming_loop\<close>) and pass their
    own test cases; evaluating a table refines the abstract meaning of its rows and hit policy.

  \<^bold>\<open>Value contracts\<close>

  \<^item> \<open>Value_Contract\<close>, \<open>Value_Conformance\<close>, \<open>Value_Size\<close> model \<open>crates/value-contract/src/lib.rs\<close>: type
    references and their grammar, catalogs, the formats of scalars, and the work lists of \<open>validate\<close>,
    \<open>validate_definitions\<close>, \<open>is_assignable_from\<close> and \<open>canonical_size\<close>, each with a measure under which
    it ends. Validation decides conformance, a structural predicate; assignability is sound for it; and
    the canonical size is the length of the canonical JSON text of the value.

  \<^bold>\<open>Processes\<close>

  These model \<open>crates/processes/src/lib.rs\<close>. A panic (an index out of range, a failed \<open>expect\<close>) is \<open>None\<close>.

  \<^item> \<open>Process_Syntax\<close>: the declared process (\<open>crates/metadata/src/types.rs\<close>) and the transitions of a state.
  \<^item> \<open>Process_Graph\<close>, \<open>Process_Ways\<close>: \<open>validate_graph\<close>, first on indices and then on the names of the
    states. It accepts exactly the sound graphs without a panic, and its sets of ancestors and of
    available outputs are exactly what all ways from the start have in common.
  \<^item> \<open>Process_Retry\<close>: durations, error routes, at-most-once requests and the retry horizon, computed in
    64 bits and equal to the sum of attempts and waits.
  \<^item> \<open>Process_Types\<close>: assignability and common types, and the replacement of named types, which keeps the
    values of a contract.
  \<^item> \<open>Process_Dependencies\<close>: the descriptors of commands, rules, tables, operations and triggers, the
    pinned closure and its fingerprints. The record \<open>process_dependencies\<close> stands for the trait
    \<open>ProcessDependencyCatalog\<close>; the record \<open>process_codecs\<close> for the serializer, the digest, the derived
    serialization of a process, the hash of connector contracts and the debugging text of a string.
  \<^item> \<open>Process_Values\<close>: inference of values, literals, binding maps, roles, owner and idempotency.
  \<^item> \<open>Process_Compile\<close>: one definition per kind of state, with what it pins.
  \<^item> \<open>Process_Definition\<close>: signals, start, session variables of callers, \<open>compile_process\<close>, the catalogs,
    the dependencies that the server provides and the effect contracts.
  \<^item> \<open>Process_Guarantees\<close>, \<open>Process_Sessions\<close>, \<open>Process_Requests\<close>: what holds of every process that
    compiles. Values that states read are available on every way; commands are pinned and run only as
    roles that may run them; the session variables kept for a caller are exactly those that are needed;
    requests are safe under their retry policy; and compilation never panics.

  \<^bold>\<open>Row permissions\<close>

  \<^item> \<open>Plan_Error\<close>, \<open>Plan_Catalog\<close>: the error of the planner, names of tables, the catalog of a source
    (\<open>crates/catalog-types\<close>), tracked tables (\<open>crates/metadata/src/types.rs\<close>) and public names
    (\<open>naming.rs\<close>), from which columns are found again. A failure is \<open>Refused\<close> or \<open>Panicked\<close>.
  \<^item> \<open>Plan_Context\<close>: sessions, the declarations of tenants and grants (\<open>tenancy.rs\<close> and \<open>iam.rs\<close> of
    \<open>crates/metadata\<close>), permissions of roles with inheritance, which ends also when roles inherit from
    each other, and the targets of relationships (\<open>plan.rs\<close>).
  \<^item> \<open>Plan_Predicate\<close>: predicates (\<open>crates/ir/src/lib.rs\<close>) and \<open>parse_bool_exp\<close> of \<open>predicate.rs\<close>. The
    recursion is on the size of the filter. The row filter that it adds for related tables is an
    argument, since a filter of the metadata, from which that row filter is built, adds none.
  \<^item> \<open>Plan_Permission\<close>: \<open>permission_predicate\<close> and what writes carry (\<open>tenancy.rs\<close>, \<open>iam.rs\<close>, \<open>plan.rs\<close>).
  \<^item> \<open>Plan_Isolation\<close>: predicates evaluated with the three truth values of SQL over any database and any
    outcome of its comparisons. Reads and writes of a role stay in the tenant of the session, in what
    the registry serves and in what is granted.
  \<^item> \<open>Plan_Visibility\<close>: filters of users that reach other tables through relationships mean what they
    mean on the database of the visible rows. The contract between filters and row filters is the
    locale \<open>restricted_view\<close>, interpreted on \<open>permission_predicate\<close>.
  \<^item> \<open>Plan_Sessions\<close>: the session variables of a filter; a filter reads no others.
  \<^item> \<open>Plan_Validation\<close>: the check of a tenancy against the catalog; a deployment that passes it serves every
    request that carries a tenant and meets none of the errors about missing columns.
  \<^item> \<open>Plan_Deployment\<close>: a deployment on which these theorems are applied, and a filter with \<open>_exists\<close> that
    reads rows its user may not see.
  \<^item> The text and the parser of JSON, \<open>chrono\<close>'s check of dates and the text of a deserialization error are
    the record \<open>plan_externs\<close>.

  \<^bold>\<open>Templates\<close>

  \<^item> \<open>Kriti_Syntax\<close>, \<open>Kriti_Parser\<close> model \<open>parser.rs\<close> of \<open>crates/kriti\<close>, one definition per method. The
    recursion of the grammar runs on a budget of one level per byte of the source and the loops on the
    bytes that remain; every level consumes input before it recurses (locales \<open>grammar_level\<close> and
    \<open>operand_level\<close>), so the parser answers every source.
  \<^item> \<open>Kriti_Functions\<close> models \<open>functions.rs\<close>: round trips of the functions that take values apart.
  \<^item> \<open>Kriti_Eval\<close> models \<open>eval.rs\<close> with the scope as a state: evaluation restores it, loops map their
    body, and paths find their targets. The recursion is on the template and needs no budget.
  \<^item> \<open>Kriti_Render\<close> models \<open>lib.rs\<close>: JSON without holes renders to itself.
  \<^item> Number parsing and printing of \<open>serde_json\<close>, floating-point comparison and the Unicode case tables
    are the record \<open>kriti_externs\<close>.

  \<^bold>\<open>The rate limiter\<close>

  \<^item> \<open>Rate_Limit\<close> models \<open>RateLimiter::admit\<close> on windows with 32-bit counters; the map satisfies the
    contract \<open>hash_map\<close>. A run is a sequence of calls with their clock readings. The limiter refines
    counting calls per key and minute, keys do not interfere, bursts are bounded, and the map stays
    small.

  \<^bold>\<open>Not modelled\<close>

  The lowering of rules to PostgreSQL (\<open>crates/rules/src/postgres.rs\<close>), the generation of SQL
  (\<open>crates/sqlgen\<close>, \<open>crates/backend\<close>) and the transitions of running processes
  (\<open>crates/server/src/processes\<close>): their results mean what the databases take them to mean. The rest of
  the planner (\<open>crates/schema\<close>: selections, ordering, mutations, commands, quotas, introspection), the
  loader and validators of the metadata (\<open>crates/metadata\<close>) and the connector catalog
  (\<open>crates/connector-catalog\<close>, \<open>crates/connector-abi\<close>) have logic of their own that is not modelled beyond
  the data types that processes and row permissions use. The request handling of the server, connectors,
  storage and the catalog reader are I/O; test harnesses and the
  user interface are left out. The recursion depth of the template parser and evaluator is not
  bounded by the code, so an overflow of the machine stack is outside the model.
\<close>

end
